(* ===== verification/Go_Prelude.thy ===== *)
theory Go_Prelude
  imports Main "HOL-Library.Word" "HOL-Library.AList"
begin

text \<open>
  Shared vocabulary of the development: the fixed-width integers of Go, run-time panics as
  values, slices with their backing array, big-endian reads and writes (package
  \<open>encoding/binary\<close>), and association lists for Go maps, whose list order is the order
  in which a \<open>range\<close> loop visits the entries.
\<close>

unbundle bit_operations_syntax

section \<open>Integers and panics\<close>

type_synonym byte = "8 word"
type_synonym u16 = "16 word"
type_synonym u32 = "32 word"
type_synonym u64 = "64 word"

text \<open>
  A Go \<open>int32\<close> is an \<open>int\<close> whose arithmetic goes through \<open>wrap_i32\<close>, the
  two's complement reduction; a Go \<open>int\<close> of the target (64 bit) is an \<open>int\<close>.
\<close>

type_synonym i32 = int

definition wrap_i32 :: "int \<Rightarrow> i32" where
  "wrap_i32 i = signed_take_bit 31 i"

lemma wrap_i32_id [simp]: "- 2147483648 \<le> i \<Longrightarrow> i < 2147483648 \<Longrightarrow> wrap_i32 i = i"
  unfolding wrap_i32_def by (rule signed_take_bit_int_eq_self) simp_all

text \<open>
  A Go run-time panic is a value of the model. \<open>UnsafeRead\<close> is a read through an
  \<open>unsafe.Pointer\<close> that leaves the backing array: Go gives it no meaning, so no result of
  the model depends on what it would read.
\<close>

datatype go_panic =
    IndexOutOfRange
  | SliceOutOfRange
  | UnsafeRead
  | NilDeref
  | NilMapWrite
  | SendOnClosed
  | CloseOfClosed
  | PanicMsg string

type_synonym 'a res = "go_panic + 'a"

named_theorems go_defs \<open>definitions of small accessors, unfolded together\<close>
named_theorems be_simps \<open>big-endian reads and writes\<close>

definition bind_res :: "'e + 'a \<Rightarrow> ('a \<Rightarrow> 'e + 'b) \<Rightarrow> 'e + 'b" where
  "bind_res r k = (case r of Inl e \<Rightarrow> Inl e | Inr x \<Rightarrow> k x)"

lemma bind_res_simps [simp]:
  "bind_res (Inl e) k = Inl e"
  "bind_res (Inr x) k = k x"
  by (simp_all add: bind_res_def)

lemma bind_res_eq_Inr: "bind_res r k = Inr y \<longleftrightarrow> (\<exists>x. r = Inr x \<and> k x = Inr y)"
  by (cases r) auto

lemma bind_res_eq_Inl:
  "bind_res r k = Inl e \<longleftrightarrow> r = Inl e \<or> (\<exists>x. r = Inr x \<and> k x = Inl e)"
  by (cases r) auto

lemma bind_res_split:
  "P (bind_res r k) \<longleftrightarrow>
     (\<forall>e. r = Inl e \<longrightarrow> P (Inl e)) \<and> (\<forall>x. r = Inr x \<longrightarrow> P (k x))"
  by (cases r) auto

text \<open>A loop over a slice whose body can panic.\<close>

primrec fold_res :: "('a \<Rightarrow> 's \<Rightarrow> 'e + 's) \<Rightarrow> 'a list \<Rightarrow> 's \<Rightarrow> 'e + 's" where
  "fold_res f [] s = Inr s"
| "fold_res f (x # xs) s = bind_res (f x s) (fold_res f xs)"

lemma fold_res_append:
  "fold_res f (xs @ ys) s = bind_res (fold_res f xs s) (fold_res f ys)"
  by (induction xs arbitrary: s) (auto split: bind_res_split simp: bind_res_def split: sum.splits)

lemma fold_res_pure:
  assumes "\<And>x s. x \<in> set xs \<Longrightarrow> f x s = Inr (g x s)"
  shows "fold_res f xs s = Inr (fold g xs s)"
  using assms by (induction xs arbitrary: s) auto

lemma fold_res_invariant:
  assumes "fold_res f xs s = Inr t" and "P s"
    and "\<And>x s s'. x \<in> set xs \<Longrightarrow> P s \<Longrightarrow> f x s = Inr s' \<Longrightarrow> P s'"
  shows "P t"
  using assms by (induction xs arbitrary: s) (auto simp: bind_res_eq_Inr)

text \<open>A computation that may also not return: \<open>None\<close>.\<close>

type_synonym 'a run = "'a res option"

definition bind_run :: "'a run \<Rightarrow> ('a \<Rightarrow> 'b run) \<Rightarrow> 'b run" where
  "bind_run r k = (case r of None \<Rightarrow> None | Some (Inl e) \<Rightarrow> Some (Inl e) | Some (Inr x) \<Rightarrow> k x)"

lemma bind_run_simps [simp]:
  "bind_run None k = None" "bind_run (Some (Inl e)) k = Some (Inl e)" "bind_run (Some (Inr x)) k = k x"
  by (simp_all add: bind_run_def)

lemma bind_run_eq_Inr: "bind_run r k = Some (Inr y) \<longleftrightarrow> (\<exists>x. r = Some (Inr x) \<and> k x = Some (Inr y))"
  by (auto simp: bind_run_def split: option.splits sum.splits)

section \<open>Slices\<close>

text \<open>
  A Go slice is a window into a backing array: \<open>s[lo:hi]\<close> is legal up to the capacity,
  not the length, and an index is legal below the length.
\<close>

record 'a gslice =
  sl_arr :: "'a list"
  sl_off :: nat
  sl_len :: nat

definition sl_cap :: "'a gslice \<Rightarrow> nat" where
  "sl_cap s = length (sl_arr s) - sl_off s"

definition sl_list :: "'a gslice \<Rightarrow> 'a list" where
  "sl_list s = take (sl_len s) (drop (sl_off s) (sl_arr s))"

definition sl_wf :: "'a gslice \<Rightarrow> bool" where
  "sl_wf s \<longleftrightarrow> sl_off s + sl_len s \<le> length (sl_arr s)"

definition sl_index :: "'a gslice \<Rightarrow> nat \<Rightarrow> 'a res" where
  "sl_index s i = (if i < sl_len s then Inr (sl_arr s ! (sl_off s + i)) else Inl IndexOutOfRange)"

definition sl_slice :: "'a gslice \<Rightarrow> nat \<Rightarrow> nat \<Rightarrow> 'a gslice res" where
  "sl_slice s lo hi =
     (if lo \<le> hi \<and> hi \<le> sl_cap s
      then Inr (s\<lparr>sl_off := sl_off s + lo, sl_len := hi - lo\<rparr>)
      else Inl SliceOutOfRange)"

text \<open>\<open>s[lo:]\<close> stops at the length, so \<open>lo\<close> beyond the length panics.\<close>

definition sl_from :: "'a gslice \<Rightarrow> nat \<Rightarrow> 'a gslice res" where
  "sl_from s lo = sl_slice s lo (sl_len s)"

definition sl_of_list :: "'a list \<Rightarrow> 'a gslice" where
  "sl_of_list xs = \<lparr>sl_arr = xs, sl_off = 0, sl_len = length xs\<rparr>"

lemma sl_list_of_list [simp]: "sl_list (sl_of_list xs) = xs"
  by (simp add: sl_list_def sl_of_list_def)

lemma sl_wf_of_list [simp]: "sl_wf (sl_of_list xs)"
  by (simp add: sl_wf_def sl_of_list_def)

lemma length_sl_list: "sl_wf s \<Longrightarrow> length (sl_list s) = sl_len s"
  by (simp add: sl_wf_def sl_list_def)

lemma sl_list_nth: "sl_wf s \<Longrightarrow> i < sl_len s \<Longrightarrow> sl_list s ! i = sl_arr s ! (sl_off s + i)"
  by (simp add: sl_wf_def sl_list_def)

lemma sl_slice_wf:
  assumes "sl_slice s lo hi = Inr t" and "sl_off s \<le> length (sl_arr s)"
  shows "sl_wf t"
  using assms by (auto simp: sl_slice_def sl_wf_def sl_cap_def split: if_splits)

section \<open>Byte sequences\<close>

text \<open>Indexing and re-slicing of a byte sequence whose length is its capacity.\<close>

definition at :: "'a list \<Rightarrow> nat \<Rightarrow> 'a res" where
  "at b i = (if i < length b then Inr (b ! i) else Inl IndexOutOfRange)"

definition drop_at :: "'a list \<Rightarrow> nat \<Rightarrow> 'a list res" where
  "drop_at b i = (if i \<le> length b then Inr (drop i b) else Inl SliceOutOfRange)"

definition sub_at :: "'a list \<Rightarrow> nat \<Rightarrow> nat \<Rightarrow> 'a list res" where
  "sub_at b lo hi =
     (if lo \<le> hi \<and> hi \<le> length b then Inr (take (hi - lo) (drop lo b)) else Inl SliceOutOfRange)"

text \<open>Overwriting a window of an array in place, as \<open>copy\<close> and the \<open>Put\<close> functions do.\<close>

definition overwrite :: "'a list \<Rightarrow> nat \<Rightarrow> 'a list \<Rightarrow> 'a list" where
  "overwrite b i xs = take i b @ xs @ drop (i + length xs) b"

lemma length_overwrite [simp]:
  "i + length xs \<le> length b \<Longrightarrow> length (overwrite b i xs) = length b"
  by (simp add: overwrite_def)

lemma nth_overwrite:
  assumes "i + length xs \<le> length b" and "k < length b"
  shows "overwrite b i xs ! k = (if i \<le> k \<and> k < i + length xs then xs ! (k - i) else b ! k)"
  using assms by (auto simp: overwrite_def nth_append min_def)

lemma overwrite_window:
  "i + length xs \<le> length b \<Longrightarrow> take (length xs) (drop i (overwrite b i xs)) = xs"
  by (simp add: overwrite_def)

lemma overwrite_take:
  "i + length xs \<le> length b \<Longrightarrow> n \<le> i \<Longrightarrow> take n (overwrite b i xs) = take n b"
  by (simp add: overwrite_def min_def)

section \<open>Big-endian integers\<close>

definition be16 :: "byte \<Rightarrow> byte \<Rightarrow> u16" where
  "be16 b0 b1 = push_bit 8 (ucast b0) OR ucast b1"

definition be32 :: "byte \<Rightarrow> byte \<Rightarrow> byte \<Rightarrow> byte \<Rightarrow> u32" where
  "be32 b0 b1 b2 b3 =
     push_bit 24 (ucast b0) OR push_bit 16 (ucast b1) OR push_bit 8 (ucast b2) OR ucast b3"

definition hi8 :: "u16 \<Rightarrow> byte" where
  "hi8 v = ucast (drop_bit 8 v)"

definition lo8 :: "u16 \<Rightarrow> byte" where
  "lo8 v = ucast v"

definition bytes16 :: "u16 \<Rightarrow> byte list" where
  "bytes16 v = [hi8 v, lo8 v]"

definition bytes32 :: "u32 \<Rightarrow> byte list" where
  "bytes32 v = [ucast (drop_bit 24 v), ucast (drop_bit 16 v), ucast (drop_bit 8 v), ucast v]"

text \<open>\<open>binary.BigEndian.Uint16(b[i:])\<close> and its siblings.\<close>

definition Uint16_at :: "byte list \<Rightarrow> nat \<Rightarrow> u16 res" where
  "Uint16_at b i =
     (if i > length b then Inl SliceOutOfRange
      else if i + 1 < length b then Inr (be16 (b ! i) (b ! (i + 1)))
      else Inl IndexOutOfRange)"

definition Uint32_at :: "byte list \<Rightarrow> nat \<Rightarrow> u32 res" where
  "Uint32_at b i =
     (if i > length b then Inl SliceOutOfRange
      else if i + 3 < length b
      then Inr (be32 (b ! i) (b ! (i + 1)) (b ! (i + 2)) (b ! (i + 3)))
      else Inl IndexOutOfRange)"

definition PutUint16_at :: "byte list \<Rightarrow> nat \<Rightarrow> u16 \<Rightarrow> byte list res" where
  "PutUint16_at b i v =
     (if i > length b then Inl SliceOutOfRange
      else if i + 1 < length b then Inr (overwrite b i (bytes16 v))
      else Inl IndexOutOfRange)"

definition PutUint32_at :: "byte list \<Rightarrow> nat \<Rightarrow> u32 \<Rightarrow> byte list res" where
  "PutUint32_at b i v =
     (if i > length b then Inl SliceOutOfRange
      else if i + 3 < length b then Inr (overwrite b i (bytes32 v))
      else Inl IndexOutOfRange)"

lemma be16_bytes [be_simps, simp]: "be16 (hi8 v) (lo8 v) = v"
  unfolding be16_def hi8_def lo8_def
  by (rule bit_word_eqI) (auto simp: bit_simps)

lemma hi8_be16 [be_simps, simp]: "hi8 (be16 a b) = a"
  unfolding be16_def hi8_def
  by (rule bit_word_eqI) (auto simp: bit_simps dest: bit_imp_le_length)

lemma lo8_be16 [be_simps, simp]: "lo8 (be16 a b) = b"
  unfolding be16_def lo8_def
  by (rule bit_word_eqI) (auto simp: bit_simps dest: bit_imp_le_length)

lemma length_bytes16 [simp]: "length (bytes16 v) = 2"
  by (simp add: bytes16_def)

lemma length_bytes32 [simp]: "length (bytes32 v) = 4"
  by (simp add: bytes32_def)

lemma be32_bytes [be_simps]:
  "be32 (ucast (drop_bit 24 v)) (ucast (drop_bit 16 v)) (ucast (drop_bit 8 v)) (ucast v) = v"
proof (rule bit_word_eqI)
  fix n assume n: "n < LENGTH(32)"
  then consider "n < 8" | "8 \<le> n" "n < 16" | "16 \<le> n" "n < 24" | "24 \<le> n" "n < 32"
    by atomize_elim (simp, arith)
  then show "bit (be32 (ucast (drop_bit 24 v)) (ucast (drop_bit 16 v)) (ucast (drop_bit 8 v))
      (ucast v)) n = bit v n"
    unfolding be32_def using n by cases (auto simp: bit_simps)
qed

lemma Uint16_PutUint16_same [be_simps]:
  "PutUint16_at b i v = Inr b' \<Longrightarrow> Uint16_at b' i = Inr v"
  by (auto simp: PutUint16_at_def Uint16_at_def nth_overwrite bytes16_def nth_Cons'
      split: if_splits)

lemma Uint32_PutUint32_same [be_simps]:
  "PutUint32_at b i v = Inr b' \<Longrightarrow> Uint32_at b' i = Inr v"
  by (auto simp: PutUint32_at_def Uint32_at_def nth_overwrite bytes32_def nth_Cons' be32_bytes
      split: if_splits)

lemma unat_ucast_up:
  fixes a :: "'a::len word"
  assumes "LENGTH('a) \<le> LENGTH('b::len)"
  shows "unat (ucast a :: 'b word) = unat a"
  using assms by transfer (simp add: min_def)

lemma unat_be16: "unat (be16 a b) = 256 * unat a + unat b"
proof -
  have "push_bit 8 (ucast a :: u16) AND ucast b = 0"
    by (rule bit_word_eqI) (auto simp: bit_simps dest: bit_imp_le_length)
  then have "be16 a b = push_bit 8 (ucast a) + ucast b"
    by (simp add: be16_def disjunctive_add_eq_or)
  moreover have "unat a < 256" and "unat b < 256"
    using unsigned_less [of a] unsigned_less [of b] by simp_all
  ultimately show ?thesis
    by (simp add: push_bit_eq_mult unat_word_ariths unat_ucast_up)
qed

section \<open>Go maps as association lists\<close>

abbreviation keys :: "('k \<times> 'v) list \<Rightarrow> 'k list" where
  "keys m \<equiv> map fst m"

abbreviation map_wf :: "('k \<times> 'v) list \<Rightarrow> bool" where
  "map_wf m \<equiv> distinct (map fst m)"

lemma map_of_update [simp]: "map_of (AList.update k v m) = (map_of m)(k \<mapsto> v)"
  by (rule update_conv')

lemma map_of_delete [simp]: "map_of (AList.delete k m) = (map_of m)(k := None)"
  by (rule delete_conv')

lemma map_wf_update [simp]: "map_wf m \<Longrightarrow> map_wf (AList.update k v m)"
  by (rule distinct_update)

lemma map_wf_delete [simp]: "map_wf m \<Longrightarrow> map_wf (AList.delete k m)"
  by (rule distinct_delete)

lemma set_keys_delete [simp]: "fst ` set (AList.delete k m) = fst ` set m - {k}"
  by (auto simp: AList.delete_eq)

lemma update_new: "k \<notin> fst ` set m \<Longrightarrow> AList.update k v m = m @ [(k, v)]"
  by (induction m) auto

lemma set_update_subset: "set (AList.update k v m) \<subseteq> insert (k, v) (set m)"
  by (induction m) auto

lemma set_delete_iff: "(k', v) \<in> set (AList.delete k m) \<longleftrightarrow> (k', v) \<in> set m \<and> k' \<noteq> k"
  by (auto simp: AList.delete_eq)

lemma map_wf_set_iff: "map_wf m \<Longrightarrow> (k, v) \<in> set m \<longleftrightarrow> map_of m k = Some v"
  by (metis map_of_is_SomeI map_of_SomeD)

text \<open>A \<open>range\<close> loop that deletes the entries that satisfy a condition.\<close>

lemma map_of_delete_where:
  assumes "map_wf m"
  shows "map_of (fold (\<lambda>(k, v) t. if P k v then AList.delete k t else t) m t) k =
    (case map_of m k of
       Some v \<Rightarrow> if P k v then None else map_of t k
     | None \<Rightarrow> map_of t k)"
  using assms
proof (induction m arbitrary: t)
  case Nil
  then show ?case by simp
next
  case (Cons e m)
  obtain k' v' where e: "e = (k', v')" by force
  with Cons.prems have "map_of m k' = None"
    by (simp add: map_of_eq_None_iff)
  with Cons e show ?case by (auto split: option.splits)
qed

lemma delete_where_subset:
  "set (fold (\<lambda>(k, v) t. if P k v then AList.delete k t else t) m t) \<subseteq> set t"
proof (induction m arbitrary: t)
  case Nil
  then show ?case by simp
next
  case (Cons e m)
  obtain k v where e: "e = (k, v)" by force
  let ?t = "if P k v then AList.delete k t else t"
  have "set ?t \<subseteq> set t" by (auto simp: AList.delete_eq)
  with Cons [of ?t] e show ?case by auto
qed

lemma delete_where_wf:
  "map_wf t \<Longrightarrow> map_wf (fold (\<lambda>(k, v) t. if P k v then AList.delete k t else t) m t)"
  by (induction m arbitrary: t) auto

section \<open>Decimal texts\<close>

text \<open>\<open>strconv.Itoa\<close> and \<open>%d\<close> of a number that is not negative.\<close>

fun Itoa :: "nat \<Rightarrow> string" where
  "Itoa n = (if n < 10 then [char_of (48 + n)] else Itoa (n div 10) @ [char_of (48 + n mod 10)])"

declare Itoa.simps [simp del]

end
