(* ===== verification/Packet_Ether.thy ===== *)
theory Packet_Ether
  imports Go_Prelude
begin

text \<open>
  Package \<open>packet\<close>, files \<open>packet.go\<close> and \<open>arp.go\<close>: Ethernet headers read through
  an unsafe cast, the same fields read byte by byte, MAC addresses and their text form, and the
  test that recognises an ARP reply. A MAC and a protocol number are byte arrays of fixed
  length; the length is a lemma of the reads that produce them.
\<close>

type_synonym mac = "byte list"

definition IpPtk :: "byte list" where "IpPtk = [0x08, 0x00]"
definition ArpPkt :: "byte list" where "ArpPkt = [0x08, 0x06]"
definition BroadcastAddr :: mac where "BroadcastAddr = [0xff, 0xff, 0xff, 0xff, 0xff, 0xff]"
definition EtherSize :: nat where "EtherSize = 14"

record Ether =
  DstMac :: mac
  SrcMac :: mac
  EProto :: "byte list"

text \<open>
  \<open>TranEther\<close> takes the address of \<open>b[0]\<close> and casts it: an empty slice panics, and a slice
  whose backing array ends before 14 bytes is read past its end.
\<close>

definition TranEther :: "byte gslice \<Rightarrow> Ether res" where
  "TranEther b =
     (if sl_len b = 0 then Inl IndexOutOfRange
      else if sl_off b + EtherSize > length (sl_arr b) then Inl UnsafeRead
      else let p = drop (sl_off b) (sl_arr b) in
        Inr \<lparr>DstMac = take 6 p, SrcMac = take 6 (drop 6 p), EProto = take 2 (drop 12 p)\<rparr>)"

text \<open>\<open>uint16(e.Proto[0])<<8 | uint16(e.Proto[1])\<close>\<close>

definition GetProto :: "Ether \<Rightarrow> u16" where
  "GetProto e = push_bit 8 (ucast (EProto e ! 0)) OR ucast (EProto e ! 1)"

definition IsBroadcast :: "Ether \<Rightarrow> bool" where
  "IsBroadcast e \<longleftrightarrow> DstMac e = BroadcastAddr"

definition IsArp :: "Ether \<Rightarrow> bool" where
  "IsArp e \<longleftrightarrow> EProto e = ArpPkt"

definition IsIpPtk :: "Ether \<Rightarrow> bool" where
  "IsIpPtk e \<longleftrightarrow> EProto e = IpPtk"

lemmas ether_defs = IpPtk_def ArpPkt_def BroadcastAddr_def EtherSize_def GetProto_def
  IsBroadcast_def IsArp_def IsIpPtk_def

section \<open>The accessors of \<open>Packet\<close>\<close>

text \<open>The methods of \<open>*Packet\<close> index the slice, left to right, and panic on the first
  index out of range.\<close>

definition index_all :: "byte gslice \<Rightarrow> nat list \<Rightarrow> byte list res" where
  "index_all p is = fold_res (\<lambda>i acc. bind_res (sl_index p i) (\<lambda>x. Inr (acc @ [x]))) is []"

definition Packet_GetDstMac :: "byte gslice \<Rightarrow> mac res" where
  "Packet_GetDstMac p = index_all p [0, 1, 2, 3, 4, 5]"

definition Packet_GetSrcMac :: "byte gslice \<Rightarrow> mac res" where
  "Packet_GetSrcMac p = index_all p [6, 7, 8, 9, 10, 11]"

definition Packet_GetProto :: "byte gslice \<Rightarrow> byte list res" where
  "Packet_GetProto p = index_all p [12, 13]"

definition Packet_IsBroadcast :: "byte gslice \<Rightarrow> bool res" where
  "Packet_IsBroadcast p = bind_res (Packet_GetDstMac p) (\<lambda>m. Inr (m = BroadcastAddr))"

definition Packet_IsArp :: "byte gslice \<Rightarrow> bool res" where
  "Packet_IsArp p = bind_res (Packet_GetProto p) (\<lambda>m. Inr (m = ArpPkt))"

definition Packet_IsIpPtk :: "byte gslice \<Rightarrow> bool res" where
  "Packet_IsIpPtk p = bind_res (Packet_GetProto p) (\<lambda>m. Inr (m = IpPtk))"

lemmas packet_defs = Packet_GetDstMac_def Packet_GetSrcMac_def Packet_GetProto_def
  Packet_IsBroadcast_def Packet_IsArp_def Packet_IsIpPtk_def

lemma fold_index_all:
  assumes "\<forall>i \<in> set is. i < sl_len p"
  shows "fold_res (\<lambda>i acc. bind_res (sl_index p i) (\<lambda>x. Inr (acc @ [x]))) is acc
    = Inr (acc @ map (\<lambda>i. sl_arr p ! (sl_off p + i)) is)"
  using assms by (induction "is" arbitrary: acc) (auto simp: sl_index_def)

lemma index_all_ok:
  "\<forall>i \<in> set is. i < sl_len p \<Longrightarrow> index_all p is = Inr (map (\<lambda>i. sl_arr p ! (sl_off p + i)) is)"
  by (simp add: index_all_def fold_index_all)

lemma take_map_nth:
  "n + k \<le> length xs \<Longrightarrow> take k (drop n xs) = map (\<lambda>i. xs ! (n + i)) [0..<k]"
  by (rule nth_equalityI) auto

lemma TranEther_ok:
  assumes "sl_wf b" and "EtherSize \<le> sl_len b"
  shows "TranEther b = Inr \<lparr>DstMac = map (\<lambda>i. sl_arr b ! (sl_off b + i)) [0, 1, 2, 3, 4, 5],
    SrcMac = map (\<lambda>i. sl_arr b ! (sl_off b + i)) [6, 7, 8, 9, 10, 11],
    EProto = map (\<lambda>i. sl_arr b ! (sl_off b + i)) [12, 13]\<rparr>"
proof -
  have l: "sl_off b + 14 \<le> length (sl_arr b)" and "sl_len b \<noteq> 0"
    using assms by (auto simp: sl_wf_def EtherSize_def)
  moreover have "[0..<6] = [0, 1, 2, 3, 4, 5 :: nat]" and "[0..<2] = [0, 1 :: nat]"
    by (simp_all add: upt_rec)
  ultimately show ?thesis
    by (simp add: TranEther_def EtherSize_def Let_def take_map_nth drop_drop ac_simps)
qed

lemma TranEther_lengths:
  assumes "TranEther b = Inr e"
  shows "length (DstMac e) = 6" "length (SrcMac e) = 6" "length (EProto e) = 2"
  using assms by (auto simp: TranEther_def EtherSize_def Let_def split: if_splits)

text \<open>
  on a slice that holds a whole Ethernet header, the unsafe cast of \<open>TranEther\<close> reads
  exactly what the index-by-index accessors of \<open>Packet\<close> read, and the three tests agree.
\<close>

theorem TranEther_agrees_with_Packet:
  assumes "sl_wf b" and "EtherSize \<le> sl_len b"
  shows "\<exists>e. TranEther b = Inr e
    \<and> Packet_GetDstMac b = Inr (DstMac e)
    \<and> Packet_GetSrcMac b = Inr (SrcMac e)
    \<and> Packet_GetProto b = Inr (EProto e)
    \<and> Packet_IsBroadcast b = Inr (IsBroadcast e)
    \<and> Packet_IsArp b = Inr (IsArp e)
    \<and> Packet_IsIpPtk b = Inr (IsIpPtk e)"
  using assms(2)
  by (simp add: TranEther_ok [OF assms] packet_defs index_all_ok IsBroadcast_def IsArp_def
      IsIpPtk_def EtherSize_def)

definition sample_arp_frame :: "byte list" where
  "sample_arp_frame = replicate 6 0xff @ [2, 0, 0, 0, 0, 1] @ [8, 6]
     @ [0, 1, 8, 0, 6, 4, 0, 2] @ replicate 20 0"

theorem TranEther_agrees_with_Packet_witness:
  "\<exists>e. TranEther (sl_of_list sample_arp_frame) = Inr e
    \<and> Packet_GetDstMac (sl_of_list sample_arp_frame) = Inr (DstMac e)
    \<and> Packet_GetSrcMac (sl_of_list sample_arp_frame) = Inr (SrcMac e)
    \<and> Packet_GetProto (sl_of_list sample_arp_frame) = Inr (EProto e)
    \<and> Packet_IsBroadcast (sl_of_list sample_arp_frame) = Inr (IsBroadcast e)
    \<and> Packet_IsArp (sl_of_list sample_arp_frame) = Inr (IsArp e)
    \<and> Packet_IsIpPtk (sl_of_list sample_arp_frame) = Inr (IsIpPtk e)"
  by (rule TranEther_agrees_with_Packet)
    (simp_all add: sl_of_list_def sl_wf_def sample_arp_frame_def EtherSize_def)

section \<open>ARP replies\<close>

definition OperationReply :: u16 where "OperationReply = 2"
definition ArpPacketSize :: nat where "ArpPacketSize = 28"

definition IsArpRelpy :: "byte gslice \<Rightarrow> bool res" where
  "IsArpRelpy b =
     (if sl_len b < ArpPacketSize + EtherSize then Inr False
      else bind_res (TranEther b) (\<lambda>ether.
        if \<not> IsArp ether then Inr False
        else bind_res (sl_from b EtherSize) (\<lambda>arpPkt.
          bind_res (sl_slice arpPkt 6 8) (\<lambda>op.
            bind_res (Uint16_at (sl_list op) 0) (\<lambda>v. Inr (OperationReply = v))))))"

lemma IsArpRelpy_total:
  assumes "sl_wf b"
  shows "IsArpRelpy b = Inr
    (42 \<le> sl_len b \<and> sl_list b ! 12 = 0x08 \<and> sl_list b ! 13 = 0x06
      \<and> be16 (sl_list b ! 20) (sl_list b ! 21) = 2)"
proof (cases "42 \<le> sl_len b")
  case True
  have l: "sl_off b + 42 \<le> length (sl_arr b)"
    using assms True by (simp add: sl_wf_def)
  have t: "TranEther b = Inr \<lparr>DstMac = map (\<lambda>i. sl_arr b ! (sl_off b + i)) [0, 1, 2, 3, 4, 5],
    SrcMac = map (\<lambda>i. sl_arr b ! (sl_off b + i)) [6, 7, 8, 9, 10, 11],
    EProto = map (\<lambda>i. sl_arr b ! (sl_off b + i)) [12, 13]\<rparr>"
    by (rule TranEther_ok) (use assms True in \<open>simp_all add: EtherSize_def\<close>)
  have "sl_from b 14 = Inr (b\<lparr>sl_off := sl_off b + 14, sl_len := sl_len b - 14\<rparr>)"
    using True l assms by (auto simp: sl_from_def sl_slice_def sl_cap_def sl_wf_def)
  then show ?thesis
    using True l assms t
    by (auto simp: IsArpRelpy_def ArpPacketSize_def EtherSize_def IsArp_def ArpPkt_def
        sl_slice_def sl_cap_def sl_list_def Uint16_at_def OperationReply_def ac_simps)
next
  case False
  then show ?thesis by (simp add: IsArpRelpy_def ArpPacketSize_def EtherSize_def)
qed

section \<open>Text form of a MAC address\<close>

definition hexdigit :: "nat \<Rightarrow> char" where
  "hexdigit d = (if d < 10 then char_of (48 + d) else char_of (87 + d))"

text \<open>The verb \<open>%02x\<close> on a byte.\<close>

definition fmt_02x :: "byte \<Rightarrow> string" where
  "fmt_02x b = [hexdigit (unat b div 16), hexdigit (unat b mod 16)]"

definition PrintMac :: "mac \<Rightarrow> string" where
  "PrintMac m = fmt_02x (m ! 0) @ '':'' @ fmt_02x (m ! 1) @ '':'' @ fmt_02x (m ! 2) @ '':''
     @ fmt_02x (m ! 3) @ '':'' @ fmt_02x (m ! 4) @ '':'' @ fmt_02x (m ! 5)"

definition MAC_String :: "mac \<Rightarrow> string" where
  "MAC_String m = PrintMac m"

lemma hexdigit_code: "d < 16 \<Longrightarrow> of_char (hexdigit d) = (if d < 10 then 48 + d else 87 + d)"
  by (simp add: hexdigit_def)

lemma hexdigit_inj:
  assumes "d < 16" and "e < 16" and eq: "hexdigit d = hexdigit e"
  shows "d = e"
proof -
  have "of_char (hexdigit d) = (of_char (hexdigit e) :: nat)"
    by (simp only: eq)
  then show ?thesis
    by (simp add: hexdigit_code assms(1,2) split: if_splits)
qed

lemma fmt_02x_inj [simp]: "fmt_02x a = fmt_02x b \<longleftrightarrow> a = b"
proof
  assume "fmt_02x a = fmt_02x b"
  moreover have "unat a < 256" "unat b < 256"
    using unsigned_less [of a] unsigned_less [of b] by simp_all
  ultimately have "unat a div 16 = unat b div 16" and "unat a mod 16 = unat b mod 16"
    by (auto simp: fmt_02x_def intro!: hexdigit_inj)
  then have "unat a = unat b" by (metis div_mult_mod_eq)
  then show "a = b" by (rule unsigned_word_eqI)
qed simp

lemma fmt_02x_length [simp]: "length (fmt_02x a) = 2"
  by (simp add: fmt_02x_def)

text \<open>
  The text form of a MAC has 17 characters, and two different addresses have different
  texts, so a log line or a debug listing identifies the address.
\<close>

theorem MAC_String_injective:
  assumes "length m = 6" and "length n = 6"
  shows "length (MAC_String m) = 17 \<and> (MAC_String m = MAC_String n \<longleftrightarrow> m = n)"
proof -
  obtain a b c d e f where m: "m = [a, b, c, d, e, f]"
    using assms(1) by (auto simp: numeral_eq_Suc length_Suc_conv)
  obtain a' b' c' d' e' f' where n: "n = [a', b', c', d', e', f']"
    using assms(2) by (auto simp: numeral_eq_Suc length_Suc_conv)
  show ?thesis by (simp add: m n MAC_String_def PrintMac_def numeral_eq_Suc)
qed

theorem MAC_String_injective_witness:
  "length (MAC_String [1, 2, 3, 4, 5, 6]) = 17
    \<and> (MAC_String [1, 2, 3, 4, 5, 6] = MAC_String BroadcastAddr
        \<longleftrightarrow> [1, 2, 3, 4, 5, 6] = BroadcastAddr)"
  by (rule MAC_String_injective) (simp_all add: BroadcastAddr_def)

end
