(* ===== verification/Packet_Buf.thy ===== *)
theory Packet_Buf
  imports Packet_Ether
begin

text \<open>
  Package \<open>packet\<close>, file \<open>pktpool.go\<close>: the packet buffer, its window operations with
  their run-time checks on \<open>uint16\<close> lengths, and the reference-counted pools. Buffers live in
  a heap of the model and are named by address, so that a buffer shared by several queues is
  one object.
\<close>

definition pktBufSize :: int where "pktBufSize = 1528"

record PktBuf =
  pb_pool :: "nat option"
  pb_ref :: i32
  pb_ptype :: byte
  pb_len :: u16
  pb_vid :: u16
  pb_outBound :: bool
  pb_macHeader :: int
  pb_networkHeader :: int
  pb_transportHeader :: int
  pb_buf :: "byte list"

definition zero_PktBuf :: PktBuf where
  "zero_PktBuf = \<lparr>pb_pool = None, pb_ref = 0, pb_ptype = 0, pb_len = 0, pb_vid = 0,
     pb_outBound = False, pb_macHeader = 0, pb_networkHeader = 0, pb_transportHeader = 0,
     pb_buf = replicate (nat pktBufSize) 0\<rparr>"

text \<open>The array has its declared size; a constant of the type in Go, an invariant here.\<close>

definition pb_wf :: "PktBuf \<Rightarrow> bool" where
  "pb_wf pb \<longleftrightarrow> length (pb_buf pb) = nat pktBufSize"

lemma pb_wf_length: "pb_wf pb \<Longrightarrow> length (pb_buf pb) = 1528"
  by (simp add: pb_wf_def pktBufSize_def)

lemma pb_wf_zero [simp]: "pb_wf zero_PktBuf"
  by (simp add: pb_wf_def zero_PktBuf_def)

section \<open>Windows of the buffer\<close>

text \<open>\<open>pb.buf[lo:hi]\<close>\<close>

definition buf_slice :: "PktBuf \<Rightarrow> int \<Rightarrow> int \<Rightarrow> byte gslice res" where
  "buf_slice pb lo hi =
     (if 0 \<le> lo \<and> lo \<le> hi \<and> hi \<le> int (length (pb_buf pb))
      then Inr \<lparr>sl_arr = pb_buf pb, sl_off = nat lo, sl_len = nat (hi - lo)\<rparr>
      else Inl SliceOutOfRange)"

definition StoreData :: "PktBuf \<Rightarrow> byte list \<Rightarrow> PktBuf" where
  "StoreData pb data =
     (let pb = pb\<lparr>pb_len := word_of_nat (length data)\<rparr>;
          src = take (unat (pb_len pb)) data
      in pb\<lparr>pb_buf := overwrite (pb_buf pb) 0 (take (length (pb_buf pb)) src)\<rparr>)"

definition LoadData :: "PktBuf \<Rightarrow> byte gslice res" where
  "LoadData pb = buf_slice pb 0 (uint (pb_len pb))"

definition LoadUserData :: "PktBuf \<Rightarrow> byte gslice res" where
  "LoadUserData pb = buf_slice pb (pb_macHeader pb) (uint (pb_len pb))"

definition LoadBuf :: "PktBuf \<Rightarrow> byte gslice res" where
  "LoadBuf pb = buf_slice pb 0 (int (length (pb_buf pb)))"

definition LoadRestBuf :: "PktBuf \<Rightarrow> byte gslice res" where
  "LoadRestBuf pb = buf_slice pb (uint (pb_len pb)) (int (length (pb_buf pb)))"

definition LoadTailData :: "PktBuf \<Rightarrow> u16 \<Rightarrow> byte gslice res" where
  "LoadTailData pb len =
     (if len > pb_len pb then Inl (PanicMsg ''LoadTailData'')
      else buf_slice pb (uint (pb_len pb - len)) (uint (pb_len pb)))"

text \<open>The sums below are \<open>uint16\<close> sums: they wrap before they are compared.\<close>

definition LoadTailBuf :: "PktBuf \<Rightarrow> u16 \<Rightarrow> byte gslice res" where
  "LoadTailBuf pb len =
     (if uint (len + pb_len pb) > pktBufSize then Inl (PanicMsg ''LoadTailBuf'')
      else buf_slice pb (uint (pb_len pb)) (uint (pb_len pb + len)))"

definition LoadAndUseBuf :: "PktBuf \<Rightarrow> u16 \<Rightarrow> (byte gslice \<times> PktBuf) res" where
  "LoadAndUseBuf pb len =
     (if uint (len + pb_len pb) > pktBufSize then Inl (PanicMsg ''LoadAndUseBuf'')
      else let start = pb_len pb; pb = pb\<lparr>pb_len := pb_len pb + len\<rparr> in
        bind_res (buf_slice pb (uint start) (uint (pb_len pb))) (\<lambda>s. Inr (s, pb)))"

definition GetDataLen :: "PktBuf \<Rightarrow> u16" where
  "GetDataLen pb = pb_len pb"

definition SetDataLen :: "PktBuf \<Rightarrow> int \<Rightarrow> PktBuf res" where
  "SetDataLen pb len =
     (if len < 0 \<or> len > pktBufSize then Inl (PanicMsg ''SetDataLen'')
      else Inr (pb\<lparr>pb_len := word_of_int len\<rparr>))"

definition ExtendDataLen :: "PktBuf \<Rightarrow> u16 \<Rightarrow> PktBuf res" where
  "ExtendDataLen pb extendLen =
     (if extendLen < 0 \<or> uint (extendLen + pb_len pb) > pktBufSize
      then Inl (PanicMsg ''ExtendDataLen'')
      else Inr (pb\<lparr>pb_len := pb_len pb + extendLen\<rparr>))"

definition GetUserDataOffset :: "PktBuf \<Rightarrow> int" where
  "GetUserDataOffset pb = pb_macHeader pb"

definition SetPktType :: "PktBuf \<Rightarrow> byte \<Rightarrow> PktBuf" where
  "SetPktType pb pt = pb\<lparr>pb_ptype := pt\<rparr>"

definition GetPktType :: "PktBuf \<Rightarrow> byte" where
  "GetPktType pb = pb_ptype pb"

definition GetPktVid :: "PktBuf \<Rightarrow> u16" where
  "GetPktVid pb = pb_vid pb"

definition SetPktVid :: "PktBuf \<Rightarrow> u16 \<Rightarrow> PktBuf" where
  "SetPktVid pb v = pb\<lparr>pb_vid := v\<rparr>"

definition SetUserDataOff :: "PktBuf \<Rightarrow> int \<Rightarrow> PktBuf" where
  "SetUserDataOff pb offset = pb\<lparr>pb_macHeader := offset\<rparr>"

definition GetUserDataLen :: "PktBuf \<Rightarrow> u16" where
  "GetUserDataLen pb = pb_len pb - word_of_int (pb_macHeader pb)"

definition SetNetworkHeader :: "PktBuf \<Rightarrow> int \<Rightarrow> PktBuf" where
  "SetNetworkHeader pb offset = pb\<lparr>pb_networkHeader := pb_macHeader pb + offset\<rparr>"

definition LoadNetworkData :: "PktBuf \<Rightarrow> byte gslice res" where
  "LoadNetworkData pb = buf_slice pb (pb_networkHeader pb) (int (length (pb_buf pb)))"

definition SetTransportHeader :: "PktBuf \<Rightarrow> int \<Rightarrow> PktBuf" where
  "SetTransportHeader pb offset = pb\<lparr>pb_transportHeader := pb_networkHeader pb + offset\<rparr>"

definition LoadTransportData :: "PktBuf \<Rightarrow> byte gslice res" where
  "LoadTransportData pb = buf_slice pb (pb_transportHeader pb) (int (length (pb_buf pb)))"

definition SetOutBound :: "PktBuf \<Rightarrow> bool \<Rightarrow> PktBuf" where
  "SetOutBound pb b = pb\<lparr>pb_outBound := b\<rparr>"

definition IsOutBound :: "PktBuf \<Rightarrow> bool" where
  "IsOutBound pb = pb_outBound pb"

lemmas window_defs = LoadData_def LoadUserData_def LoadBuf_def LoadRestBuf_def LoadTailData_def
  LoadTailBuf_def LoadNetworkData_def LoadTransportData_def

lemmas setter_defs = SetPktType_def SetPktVid_def SetUserDataOff_def SetNetworkHeader_def
  SetTransportHeader_def SetOutBound_def

lemma buf_slice_wf: "buf_slice pb lo hi = Inr s \<Longrightarrow> sl_wf s"
  by (auto simp: buf_slice_def sl_wf_def split: if_splits)

lemma mod_once:
  fixes x m :: int
  assumes "0 \<le> x" and "x < 2 * m"
  shows "x mod m = (if x < m then x else x - m)"
proof (cases "x < m")
  case True
  with assms show ?thesis by (simp add: mod_pos_pos_trivial)
next
  case False
  have "x mod m = (x - m) mod m" by simp
  also have "\<dots> = x - m" using False assms by (intro mod_pos_pos_trivial) simp_all
  finally show ?thesis using False by simp
qed

lemma u16_add_cases:
  fixes a b :: u16
  obtains "uint a + uint b < 65536" "uint (a + b) = uint a + uint b"
  | "65536 \<le> uint a + uint b" "uint (a + b) = uint a + uint b - 65536"
proof -
  have m: "uint (a + b) = (uint a + uint b) mod 65536"
    by (simp add: uint_word_ariths)
  have "0 \<le> uint a" "0 \<le> uint b" "uint a < 65536" "uint b < 65536"
    using unsigned_less [of a, where ?'a = int] unsigned_less [of b, where ?'a = int] by simp_all
  then have eq: "uint (a + b) = (if uint a + uint b < 65536 then uint a + uint b
      else uint a + uint b - 65536)"
    unfolding m by (intro mod_once) linarith+
  show thesis
  proof (cases "uint a + uint b < 65536")
    case True
    then have "uint (a + b) = uint a + uint b" using eq by (simp only: if_True)
    with True show thesis by (rule that(1))
  next
    case False
    then have "uint (a + b) = uint a + uint b - 65536" using eq by (simp only: if_False)
    moreover have "65536 \<le> uint a + uint b" using False by (simp only: not_less)
    ultimately show thesis using that(2) by blast
  qed
qed

text \<open>
  The claim of buffer space is safe although its guard is computed with a wrapping
  \<open>uint16\<close> sum: \<open>LoadAndUseBuf\<close> either panics or returns the next \<open>len\<close> bytes after
  the data, inside the buffer, and moves the data length past them; it succeeds exactly when
  the space is there.
\<close>

theorem LoadAndUseBuf_safe:
  assumes "pb_wf pb"
  shows "(\<exists>e. LoadAndUseBuf pb len = Inl e) \<and> uint (pb_len pb) + uint len > pktBufSize
    \<or> LoadAndUseBuf pb len =
        Inr (\<lparr>sl_arr = pb_buf pb, sl_off = unat (pb_len pb), sl_len = unat len\<rparr>,
             pb\<lparr>pb_len := pb_len pb + len\<rparr>)
      \<and> uint (pb_len pb + len) = uint (pb_len pb) + uint len
      \<and> uint (pb_len pb) + uint len \<le> pktBufSize"
proof -
  have l: "int (length (pb_buf pb)) = 1528"
    using assms by (simp add: pb_wf_length)
  have nn: "0 \<le> uint len" "0 \<le> uint (pb_len pb)" "uint len < 65536" "uint (pb_len pb) < 65536"
    using unsigned_less [of len, where ?'a = int] unsigned_less [of "pb_len pb", where ?'a = int]
    by simp_all
  show ?thesis
  proof (cases rule: u16_add_cases [of "pb_len pb" len])
    case 1
    with l nn show ?thesis
      by (simp add: LoadAndUseBuf_def Let_def buf_slice_def pktBufSize_def
          add.commute [of len "pb_len pb"])
  next
    case 2
    with l nn show ?thesis
      by (simp add: LoadAndUseBuf_def Let_def buf_slice_def pktBufSize_def
          add.commute [of len "pb_len pb"])
  qed
qed

theorem LoadAndUseBuf_safe_witness:
  "(\<exists>e. LoadAndUseBuf (zero_PktBuf\<lparr>pb_len := 6\<rparr>) 65535 = Inl e)"
proof -
  have "pb_wf (zero_PktBuf\<lparr>pb_len := 6\<rparr>)"
    by (simp add: pb_wf_def zero_PktBuf_def)
  from LoadAndUseBuf_safe [OF this, of 65535] show ?thesis
    by (simp add: pktBufSize_def)
qed

text \<open>
  \<open>ExtendDataLen\<close> has the same guard but no slice behind it, so there the wrap is not
  caught: an extension that overflows \<open>uint16\<close> passes the check and shortens the packet.
  The guard holds as intended exactly when the sum does not wrap.
\<close>

theorem ExtendDataLen_wraps:
  "uint (pb_len pb) + uint n < 65536 \<and>
     ExtendDataLen pb n =
       (if uint (pb_len pb) + uint n > pktBufSize then Inl (PanicMsg ''ExtendDataLen'')
        else Inr (pb\<lparr>pb_len := pb_len pb + n\<rparr>))
   \<or> 65536 \<le> uint (pb_len pb) + uint n \<and>
     (uint (pb_len pb) + uint n - 65536 > pktBufSize
      \<or> (\<exists>pb'. ExtendDataLen pb n = Inr pb' \<and> pb_len pb' < pb_len pb))"
proof -
  have nn: "uint n < 65536" "uint (pb_len pb) < 65536"
    using unsigned_less [of n, where ?'a = int] unsigned_less [of "pb_len pb", where ?'a = int]
    by simp_all
  show ?thesis
  proof (cases rule: u16_add_cases [of "pb_len pb" n])
    case 1
    with nn show ?thesis
      by (simp add: ExtendDataLen_def pktBufSize_def add.commute [of n "pb_len pb"])
  next
    case 2
    with nn show ?thesis
      by (simp add: ExtendDataLen_def pktBufSize_def add.commute [of n "pb_len pb"] word_less_def)
  qed
qed

text \<open>Storing at most a buffer's worth of data and loading it back gives the data.\<close>

lemma LoadData_StoreData:
  assumes "pb_wf pb" and "length data \<le> 1528"
  shows "\<exists>s. LoadData (StoreData pb data) = Inr s \<and> sl_list s = data"
proof -
  have u: "unat (word_of_nat (length data) :: u16) = length data"
    using assms(2) by (simp add: unat_of_nat)
  then have "uint (word_of_nat (length data) :: u16) = int (length data)"
    by (simp add: uint_nat)
  then show ?thesis
    using assms u pb_wf_length [OF assms(1)]
    by (simp add: LoadData_def StoreData_def Let_def buf_slice_def sl_list_def overwrite_def)
qed

end
