(* ===== verification/Packet_Pool.thy ===== *)
theory Packet_Pool
  imports Packet_Buf
begin

text \<open>
  Package \<open>packet\<close>, file \<open>pktpool.go\<close>, the pools: every client owns a
  \<open>sync.Pool\<close>, a buffer is reference counted, and the last \<open>PutPktToPool\<close> gives it back
  to the pool it came from. \<open>sync.Pool\<close> is the standard library's: \<open>Get\<close> may return any
  pooled object or a new one, so the choice is an argument.
\<close>

section \<open>The interface of a reference-counted pool\<close>

text \<open>
  What a holder of a buffer relies on: holding adds one, putting takes one away, the object is
  free exactly after the last put, and no other object is touched.
\<close>

locale refcounted =
  fixes inv :: "'s \<Rightarrow> bool"
    and live :: "'s \<Rightarrow> 'a \<Rightarrow> bool"
    and refs :: "'s \<Rightarrow> 'a \<Rightarrow> int"
    and is_free :: "'s \<Rightarrow> 'a \<Rightarrow> bool"
    and hold :: "'a \<Rightarrow> 's \<Rightarrow> 's"
    and put :: "'a \<Rightarrow> 's \<Rightarrow> 'e + 's"
    and bound :: int
  assumes hold_inv: "\<lbrakk>inv s; live s a; 0 < refs s a; refs s a < bound\<rbrakk> \<Longrightarrow> inv (hold a s)"
    and hold_live: "live (hold a s) b = live s b"
    and hold_refs: "\<lbrakk>inv s; live s a; 0 < refs s a; refs s a < bound\<rbrakk> \<Longrightarrow>
      refs (hold a s) b = (if b = a then refs s a + 1 else refs s b)"
    and put_ok: "\<lbrakk>inv s; live s a; 0 < refs s a\<rbrakk> \<Longrightarrow>
      \<exists>t. put a s = Inr t \<and> inv t \<and> live t = live s
        \<and> (\<forall>b. live s b \<longrightarrow> refs t b = (if b = a then refs s a - 1 else refs s b))"
    and free_iff_unused: "\<lbrakk>inv s; is_free s a\<rbrakk> \<Longrightarrow> refs s a = 0"
    and last_put_frees: "\<lbrakk>inv s; live s a; refs s a = 1; put a s = Inr t\<rbrakk> \<Longrightarrow> is_free t a"
begin

lemma held_not_free: "inv s \<Longrightarrow> 0 < refs s a \<Longrightarrow> \<not> is_free s a"
  using free_iff_unused by fastforce

text \<open>\<open>n\<close> further holders, each of whom puts once.\<close>

lemma hold_many:
  assumes "inv s" "live s a" "0 < refs s a" "refs s a + int n \<le> bound"
  shows "inv ((hold a ^^ n) s) \<and> live ((hold a ^^ n) s) a
    \<and> refs ((hold a ^^ n) s) a = refs s a + int n"
  using assms by (induction n) (auto simp: hold_inv hold_live hold_refs)

lemma put_many:
  assumes "inv s" "live s a" "int n < refs s a"
  shows "\<exists>t. fold_res (\<lambda>_. put a) (replicate n ()) s = Inr t \<and> inv t \<and> live t a
    \<and> refs t a = refs s a - int n \<and> \<not> is_free t a"
  using assms
proof (induction n arbitrary: s)
  case 0
  then show ?case by (simp add: held_not_free)
next
  case (Suc n)
  obtain t where t: "put a s = Inr t" "inv t" "live t a" "refs t a = refs s a - 1"
    using put_ok [of s a] Suc.prems by force
  then obtain u where "fold_res (\<lambda>_. put a) (replicate n ()) t = Inr u" "inv u" "live u a"
    "refs u a = refs t a - int n" "\<not> is_free u a"
    using Suc.IH [of t] Suc.prems(3) by auto
  with t show ?case by simp
qed

lemma balanced_use_frees:
  assumes "inv s" "live s a" "refs s a = 1" "1 + int n \<le> bound"
  shows "\<exists>t. fold_res (\<lambda>_. put a) (replicate (Suc n) ()) ((hold a ^^ n) s) = Inr t
    \<and> inv t \<and> is_free t a"
proof -
  let ?h = "(hold a ^^ n) s"
  have h: "inv ?h" "live ?h a" "refs ?h a = 1 + int n"
    using hold_many [of s a n] assms by simp_all
  obtain u where u: "fold_res (\<lambda>_. put a) (replicate n ()) ?h = Inr u" "inv u" "live u a"
    "refs u a = 1"
    using put_many [of ?h a n] h by auto
  obtain t where t: "put a u = Inr t" "inv t"
    using put_ok [of u a] u by force
  have "replicate (Suc n) () = replicate n () @ [()]"
    by (simp add: replicate_append_same)
  then show ?thesis
    using u t last_put_frees [OF u(2,3,4) t(1)] by (simp add: fold_res_append del: replicate.simps)
qed

end

section \<open>The pools of the code\<close>

record pkt_store =
  ps_heap :: "PktBuf list"
  ps_free :: "nat \<Rightarrow> nat list"

abbreviation pkt :: "pkt_store \<Rightarrow> nat \<Rightarrow> PktBuf" where
  "pkt s a \<equiv> ps_heap s ! a"

definition upd_pkt :: "nat \<Rightarrow> (PktBuf \<Rightarrow> PktBuf) \<Rightarrow> pkt_store \<Rightarrow> pkt_store" where
  "upd_pkt a f s = s\<lparr>ps_heap := (ps_heap s)[a := f (pkt s a)]\<rparr>"

text \<open>\<open>sync.Pool.Get\<close> with the \<open>New\<close> of \<open>NewPktBufPool\<close>; \<open>Put\<close>.\<close>

definition sync_Pool_Get :: "nat \<Rightarrow> nat option \<Rightarrow> pkt_store \<Rightarrow> nat \<times> pkt_store" where
  "sync_Pool_Get sp choice s =
     (let fresh = (length (ps_heap s), s\<lparr>ps_heap := ps_heap s @ [zero_PktBuf]\<rparr>)
      in case choice of
           None \<Rightarrow> fresh
         | Some a \<Rightarrow> if a \<in> set (ps_free s sp)
             then (a, s\<lparr>ps_free := (ps_free s)(sp := remove1 a (ps_free s sp))\<rparr>)
             else fresh)"

definition sync_Pool_Put :: "nat \<Rightarrow> nat \<Rightarrow> pkt_store \<Rightarrow> pkt_store" where
  "sync_Pool_Put sp a s = s\<lparr>ps_free := (ps_free s)(sp := a # ps_free s sp)\<rparr>"

definition HoldPktBuf :: "nat \<Rightarrow> pkt_store \<Rightarrow> pkt_store" where
  "HoldPktBuf a s = upd_pkt a (\<lambda>pb. pb\<lparr>pb_ref := wrap_i32 (pb_ref pb + 1)\<rparr>) s"

definition ReleasePktBuf :: "nat \<Rightarrow> pkt_store \<Rightarrow> i32 \<times> pkt_store" where
  "ReleasePktBuf a s =
     (let s = upd_pkt a (\<lambda>pb. pb\<lparr>pb_ref := wrap_i32 (pb_ref pb - 1)\<rparr>) s
      in (pb_ref (pkt s a), s))"

definition GetPktFromPool :: "nat \<Rightarrow> nat option \<Rightarrow> pkt_store \<Rightarrow> nat \<times> pkt_store" where
  "GetPktFromPool sp choice s =
     (let (a, s) = sync_Pool_Get sp choice s;
          s = upd_pkt a (\<lambda>pb. if pb_pool pb = None then pb\<lparr>pb_pool := Some sp\<rparr> else pb) s;
          s = upd_pkt a (\<lambda>pb. pb\<lparr>pb_len := 0\<rparr>) s
      in (a, HoldPktBuf a s))"

definition PutPktToPool :: "nat \<Rightarrow> pkt_store \<Rightarrow> pkt_store res" where
  "PutPktToPool a s =
     (let (ref, s) = ReleasePktBuf a s
      in if ref = 0 then
           (case pb_pool (pkt s a) of
              None \<Rightarrow> Inl NilDeref
            | Some sp \<Rightarrow> Inr (sync_Pool_Put sp a s))
         else if ref < 0 then Inl (PanicMsg ''ref < 0'')
         else Inr s)"

lemmas pool_defs = upd_pkt_def sync_Pool_Get_def sync_Pool_Put_def HoldPktBuf_def
  ReleasePktBuf_def GetPktFromPool_def PutPktToPool_def

section \<open>The invariant and the steps of the holders\<close>

abbreviation max_ref :: int where "max_ref \<equiv> 2147483647"

definition pool_inv :: "pkt_store \<Rightarrow> bool" where
  "pool_inv s \<longleftrightarrow>
     (\<forall>sp. distinct (ps_free s sp))
     \<and> (\<forall>sp. \<forall>a \<in> set (ps_free s sp).
          a < length (ps_heap s) \<and> pb_ref (pkt s a) = 0 \<and> pb_pool (pkt s a) = Some sp)
     \<and> (\<forall>a < length (ps_heap s).
          0 \<le> pb_ref (pkt s a) \<and> pb_ref (pkt s a) \<le> max_ref \<and> pb_pool (pkt s a) \<noteq> None)"

text \<open>
  A holder of a buffer is someone who got it or was handed it, so the count is positive when it
  acts: it may hold once more, release, put, or write the packet's own fields.
\<close>

inductive pool_step :: "pkt_store \<Rightarrow> pkt_store \<Rightarrow> bool" where
  get: "GetPktFromPool sp choice s = (a, t) \<Longrightarrow> pool_step s t"
| hold: "a < length (ps_heap s) \<Longrightarrow> 0 < pb_ref (pkt s a) \<Longrightarrow> pb_ref (pkt s a) < max_ref \<Longrightarrow>
    pool_step s (HoldPktBuf a s)"
| release: "a < length (ps_heap s) \<Longrightarrow> 0 < pb_ref (pkt s a) \<Longrightarrow> ReleasePktBuf a s = (r, t) \<Longrightarrow>
    pool_step s t"
| put: "a < length (ps_heap s) \<Longrightarrow> 0 < pb_ref (pkt s a) \<Longrightarrow> PutPktToPool a s = Inr t \<Longrightarrow>
    pool_step s t"
| fill: "a < length (ps_heap s) \<Longrightarrow> 0 < pb_ref (pkt s a) \<Longrightarrow>
    \<forall>pb. pb_ref (f pb) = pb_ref pb \<and> pb_pool (f pb) = pb_pool pb \<Longrightarrow>
    pool_step s (upd_pkt a f s)"

definition empty_store :: pkt_store where
  "empty_store = \<lparr>ps_heap = [], ps_free = (\<lambda>_. [])\<rparr>"

inductive pool_reachable :: "pkt_store \<Rightarrow> bool" where
  start: "pool_reachable empty_store"
| step: "pool_reachable s \<Longrightarrow> pool_step s t \<Longrightarrow> pool_reachable t"

lemma upd_pkt_simps [simp]:
  "length (ps_heap (upd_pkt a f s)) = length (ps_heap s)"
  "ps_free (upd_pkt a f s) = ps_free s"
  "a < length (ps_heap s) \<Longrightarrow> pkt (upd_pkt a f s) b = (if b = a then f (pkt s a) else pkt s b)"
  by (simp_all add: upd_pkt_def)

lemma sync_Pool_Put_simps [simp]:
  "ps_heap (sync_Pool_Put sp a s) = ps_heap s"
  "ps_free (sync_Pool_Put sp a s) q = (if q = sp then a # ps_free s sp else ps_free s q)"
  by (simp_all add: sync_Pool_Put_def)

lemma pool_invD:
  assumes "pool_inv s"
  shows "a \<in> set (ps_free s sp) \<Longrightarrow> a < length (ps_heap s)"
    and "a \<in> set (ps_free s sp) \<Longrightarrow> pb_ref (pkt s a) = 0"
    and "a \<in> set (ps_free s sp) \<Longrightarrow> pb_pool (pkt s a) = Some sp"
    and "distinct (ps_free s sp)"
    and "a < length (ps_heap s) \<Longrightarrow> 0 \<le> pb_ref (pkt s a)"
    and "a < length (ps_heap s) \<Longrightarrow> pb_ref (pkt s a) \<le> max_ref"
    and "a < length (ps_heap s) \<Longrightarrow> \<exists>sp. pb_pool (pkt s a) = Some sp"
  using assms by (auto simp: pool_inv_def)

text \<open>Changing one held buffer keeps the invariant.\<close>

lemma pool_inv_upd:
  assumes "pool_inv s" and "a < length (ps_heap s)" and "0 < pb_ref (pkt s a)"
    and "0 \<le> pb_ref (f (pkt s a))" "pb_ref (f (pkt s a)) \<le> max_ref"
    and "pb_pool (f (pkt s a)) = pb_pool (pkt s a)"
  shows "pool_inv (upd_pkt a f s)"
  using assms by (fastforce simp: pool_inv_def)

lemma HoldPktBuf_inv:
  assumes "pool_inv s" and "a < length (ps_heap s)" and "0 < pb_ref (pkt s a)"
    and "pb_ref (pkt s a) < max_ref"
  shows "pool_inv (HoldPktBuf a s)"
  unfolding HoldPktBuf_def using assms by (intro pool_inv_upd) simp_all

lemma ReleasePktBuf_eq:
  assumes "pool_inv s" and "a < length (ps_heap s)"
  shows "ReleasePktBuf a s =
    (pb_ref (pkt s a) - 1, upd_pkt a (\<lambda>pb. pb\<lparr>pb_ref := wrap_i32 (pb_ref pb - 1)\<rparr>) s)"
  using assms pool_invD(5,6) [OF assms(1,2)] by (simp add: ReleasePktBuf_def Let_def)

lemma ReleasePktBuf_inv:
  assumes "pool_inv s" and "a < length (ps_heap s)" and "0 < pb_ref (pkt s a)"
  shows "pool_inv (snd (ReleasePktBuf a s))"
  using assms pool_invD(6) [OF assms(1,2)]
  by (simp add: ReleasePktBuf_eq) (rule pool_inv_upd, simp_all)

text \<open>The outcome of a put by a holder.\<close>

lemma PutPktToPool_eq:
  assumes inv: "pool_inv s" and a: "a < length (ps_heap s)" "0 < pb_ref (pkt s a)"
  shows "PutPktToPool a s = Inr
    (let t = snd (ReleasePktBuf a s) in
     if pb_ref (pkt s a) = 1 then sync_Pool_Put (the (pb_pool (pkt s a))) a t else t)"
proof -
  have r: "- 2147483648 \<le> pb_ref (pkt s a) - 1" "pb_ref (pkt s a) - 1 < 2147483648"
    using a pool_invD(6) [OF inv a(1)] by simp_all
  show ?thesis
    using a r pool_invD(7) [OF inv a(1)]
    by (auto simp: PutPktToPool_def ReleasePktBuf_eq [OF inv a(1)] Let_def)
qed

lemma PutPktToPool_inv:
  assumes inv: "pool_inv s" and a: "a < length (ps_heap s)" "0 < pb_ref (pkt s a)"
    and put: "PutPktToPool a s = Inr t"
  shows "pool_inv t"
proof -
  let ?u = "snd (ReleasePktBuf a s)"
  have u: "pool_inv ?u" using ReleasePktBuf_inv [OF inv a] .
  obtain sp where sp: "pb_pool (pkt s a) = Some sp" using pool_invD(7) [OF inv a(1)] ..
  have nf: "a \<notin> set (ps_free s q)" for q
    using pool_invD(2) [OF inv, of a q] a(2) by auto
  have ua: "pb_pool (pkt ?u a) = Some sp" "pb_ref (pkt ?u a) = pb_ref (pkt s a) - 1"
    "ps_free ?u = ps_free s" "length (ps_heap ?u) = length (ps_heap s)"
    using a sp pool_invD(6) [OF inv a(1)] by (simp_all add: ReleasePktBuf_eq [OF inv a(1)])
  show ?thesis
  proof (cases "pb_ref (pkt s a) = 1")
    case True
    then have "t = sync_Pool_Put sp a ?u"
      using put sp by (simp add: PutPktToPool_eq [OF inv a] Let_def)
    then show ?thesis
      using u ua nf a True by (auto simp: pool_inv_def)
  next
    case False
    then have "t = ?u" using put by (simp add: PutPktToPool_eq [OF inv a] Let_def)
    then show ?thesis using u by simp
  qed
qed

lemma PutPktToPool_spec:
  assumes inv: "pool_inv s" and a: "a < length (ps_heap s)" "0 < pb_ref (pkt s a)"
  obtains t where "PutPktToPool a s = Inr t" "pool_inv t"
    "length (ps_heap t) = length (ps_heap s)"
    "\<And>b. pb_ref (pkt t b) = (if b = a then pb_ref (pkt s a) - 1 else pb_ref (pkt s b))"
proof -
  obtain t where t: "PutPktToPool a s = Inr t"
    using PutPktToPool_eq [OF inv a] by blast
  have "ps_heap t = ps_heap (snd (ReleasePktBuf a s))"
    using t by (auto simp: PutPktToPool_eq [OF inv a] Let_def)
  then have "length (ps_heap t) = length (ps_heap s)"
    and "pb_ref (pkt t b) = (if b = a then pb_ref (pkt s a) - 1 else pb_ref (pkt s b))" for b
    using a pool_invD(6) [OF inv a(1)] by (simp_all add: ReleasePktBuf_eq [OF inv a(1)])
  then show thesis by (rule that [OF t PutPktToPool_inv [OF inv a t]])
qed

lemma GetPktFromPool_spec:
  assumes inv: "pool_inv s" and g: "GetPktFromPool sp choice s = (a, t)"
  shows "pool_inv t" and "pb_ref (pkt t a) = 1" and "pb_len (pkt t a) = 0"
    and "a < length (ps_heap t)" and "a < length (ps_heap s) \<Longrightarrow> pb_ref (pkt s a) = 0"
    and "\<And>b. b < length (ps_heap s) \<Longrightarrow> b \<noteq> a \<Longrightarrow> pkt t b = pkt s b"
    and "length (ps_heap s) \<le> length (ps_heap t)"
    and "a \<le> length (ps_heap s)"
    and "length (ps_heap t) = (if a < length (ps_heap s) then length (ps_heap s) else Suc a)"
    and "pb_buf (pkt t a) =
      (if a < length (ps_heap s) then pb_buf (pkt s a) else replicate (nat pktBufSize) 0)"
proof -
  let ?f = "\<lambda>pb. pb\<lparr>pb_pool := Some (case pb_pool pb of None \<Rightarrow> sp | Some q \<Rightarrow> q),
    pb_len := 0, pb_ref := wrap_i32 (pb_ref pb + 1)\<rparr>"
  obtain u where u: "sync_Pool_Get sp choice s = (a, u)"
    using g by (auto simp: GetPktFromPool_def Let_def split: prod.splits)
  have alt: "(\<exists>sp'. a \<in> set (ps_free s sp') \<and> ps_heap u = ps_heap s
        \<and> ps_free u = (ps_free s)(sp' := remove1 a (ps_free s sp')))
      \<or> a = length (ps_heap s) \<and> ps_heap u = ps_heap s @ [zero_PktBuf] \<and> ps_free u = ps_free s"
    using u by (auto simp: sync_Pool_Get_def Let_def split: option.splits if_splits)
  have au: "a < length (ps_heap u)" and r0: "pb_ref (pkt u a) = 0"
    using alt pool_invD(1,2) [OF inv] by (auto simp: zero_PktBuf_def)
  have t: "t = upd_pkt a ?f u"
    using g u au
    by (auto simp: GetPktFromPool_def Let_def HoldPktBuf_def upd_pkt_def split: option.splits
        intro!: pkt_store.equality PktBuf.equality arg_cong [where f = "list_update (ps_heap u) a"])
  have nf: "a \<notin> set (ps_free u q)" for q
    using alt
  proof (elim disjE exE conjE)
    fix sp'
    assume f: "a \<in> set (ps_free s sp')" "ps_free u = (ps_free s)(sp' := remove1 a (ps_free s sp'))"
    have "q = sp'" if "a \<in> set (ps_free s q)"
      using pool_invD(3) [OF inv that] pool_invD(3) [OF inv f(1)] by (metis option.inject)
    moreover have "distinct (ps_free s sp')" by (rule pool_invD(4) [OF inv])
    ultimately show ?thesis using f by (cases "q = sp'") auto
  next
    assume "a = length (ps_heap s)" "ps_free u = ps_free s"
    then show ?thesis using pool_invD(1) [OF inv, of a q] by auto
  qed
  show "pb_ref (pkt t a) = 1" "pb_len (pkt t a) = 0" "a < length (ps_heap t)"
    using t au r0 by simp_all
  show "pb_ref (pkt s a) = 0" if "a < length (ps_heap s)"
    using alt that pool_invD(2) [OF inv] by auto
  show "pkt t b = pkt s b" if "b < length (ps_heap s)" "b \<noteq> a" for b
    using alt that t au by (auto simp: nth_append)
  show "a \<le> length (ps_heap s)"
    using alt pool_invD(1) [OF inv, of a] by (auto intro: less_imp_le)
  show "length (ps_heap s) \<le> length (ps_heap t)"
    "length (ps_heap t) = (if a < length (ps_heap s) then length (ps_heap s) else Suc a)"
    using alt t pool_invD(1) [OF inv, of a] by auto
  show "pb_buf (pkt t a) =
      (if a < length (ps_heap s) then pb_buf (pkt s a) else replicate (nat pktBufSize) 0)"
    using alt t au pool_invD(1) [OF inv, of a] by (auto simp: zero_PktBuf_def)
  show "pool_inv t"
    using alt inv t au nf r0
    by (auto simp: pool_inv_def nth_append less_Suc_eq zero_PktBuf_def 
        dest: subsetD [OF set_remove1_subset] split: option.splits if_splits)
qed

lemma pool_step_inv: "pool_step s t \<Longrightarrow> pool_inv s \<Longrightarrow> pool_inv t"
proof (induction rule: pool_step.induct)
  case (get sp choice s a t)
  show ?case by (rule GetPktFromPool_spec(1) [OF get.prems get.hyps])
next
  case (hold a s)
  show ?case by (rule HoldPktBuf_inv [OF hold.prems hold.hyps])
next
  case (release a s r t)
  then show ?case using ReleasePktBuf_inv [of s a] by simp
next
  case (put a s t)
  show ?case by (rule PutPktToPool_inv [OF put.prems put.hyps])
next
  case (fill a s f)
  note f = fill.hyps(3) [rule_format]
  show ?case
    using pool_invD(5,6) [OF fill.prems fill.hyps(1)]
    by (intro pool_inv_upd [OF fill.prems fill.hyps(1,2)]) (simp_all only: f)
qed

lemma pool_reachable_inv: "pool_reachable s \<Longrightarrow> pool_inv s"
proof (induction rule: pool_reachable.induct)
  case start
  show ?case by (simp add: pool_inv_def empty_store_def)
next
  case (step s t)
  then show ?case by (blast intro: pool_step_inv)
qed

interpretation pkb: refcounted pool_inv "\<lambda>s a. a < length (ps_heap s)"
  "\<lambda>s a. if a < length (ps_heap s) then pb_ref (pkt s a) else 0"
  "\<lambda>s a. \<exists>sp. a \<in> set (ps_free s sp)" HoldPktBuf PutPktToPool max_ref
proof (unfold_locales, goal_cases)
  case (1 s a)
  then show ?case by (intro HoldPktBuf_inv) simp_all
next
  case (2 a s b)
  then show ?case by (simp add: HoldPktBuf_def)
next
  case (3 s a b)
  then show ?case by (simp add: HoldPktBuf_def)
next
  case (4 s a)
  then obtain t where "PutPktToPool a s = Inr t" "pool_inv t"
    "length (ps_heap t) = length (ps_heap s)"
    "\<And>b. pb_ref (pkt t b) = (if b = a then pb_ref (pkt s a) - 1 else pb_ref (pkt s b))"
    by (elim PutPktToPool_spec [of s a]) (auto split: if_splits)
  with 4 show ?case by (intro exI [of _ t]) auto
next
  case (5 s a)
  then show ?case using pool_invD(1,2) [of s a] by auto
next
  case (6 s a t)
  then show ?case using PutPktToPool_eq [of s a] by (auto simp: Let_def)
qed

text \<open>
  C6: in every state the holders can reach, \<open>GetPktFromPool\<close> hands out a buffer nobody holds:
  its count is exactly one, its length zero, it was not in use before, and no other buffer
  changes.
\<close>

theorem GetPktFromPool_exclusive:
  assumes "pool_reachable s" and "GetPktFromPool sp choice s = (a, t)"
  shows "pb_ref (pkt t a) = 1 \<and> pb_len (pkt t a) = 0
    \<and> (a < length (ps_heap s) \<longrightarrow> pb_ref (pkt s a) = 0)
    \<and> (\<forall>b. b < length (ps_heap s) \<and> b \<noteq> a \<longrightarrow> pkt t b = pkt s b)"
  using GetPktFromPool_spec [OF pool_reachable_inv [OF assms(1)] assms(2)]
  by (auto simp: not_le)

definition one_buffer :: pkt_store where
  "one_buffer = snd (GetPktFromPool 7 None empty_store)"

lemma one_buffer_reachable: "pool_reachable one_buffer"
  unfolding one_buffer_def
  by (rule pool_reachable.step [OF pool_reachable.start pool_step.get]) (rule surjective_pairing)

lemma one_buffer_0: "length (ps_heap one_buffer) = 1" "pb_ref (pkt one_buffer 0) = 1"
  "pb_pool (pkt one_buffer 0) = Some 7" "ps_free one_buffer = (\<lambda>_. [])"
  by (simp_all add: one_buffer_def GetPktFromPool_def sync_Pool_Get_def Let_def empty_store_def
      HoldPktBuf_def upd_pkt_def zero_PktBuf_def)

theorem GetPktFromPool_exclusive_witness:
  "pb_ref (pkt (snd (GetPktFromPool 7 (Some 0) one_buffer)) 1) = 1"
proof -
  have "GetPktFromPool 7 (Some 0) one_buffer = (1, snd (GetPktFromPool 7 (Some 0) one_buffer))"
    by (simp add: GetPktFromPool_def sync_Pool_Get_def one_buffer_0 Let_def)
  from GetPktFromPool_exclusive [OF one_buffer_reachable this] show ?thesis by simp
qed

text \<open>
  C7: a put by a holder never panics, and it gives the buffer back to the pool it came from
  exactly when it was the last reference; a put after that would find a zero count and panic.
\<close>

theorem PutPktToPool_last_reference:
  assumes "pool_reachable s" and "a < length (ps_heap s)" and "0 < pb_ref (pkt s a)"
  shows "\<exists>t sp. PutPktToPool a s = Inr t \<and> pb_pool (pkt s a) = Some sp
    \<and> (a \<in> set (ps_free t sp) \<longleftrightarrow> pb_ref (pkt s a) = 1)
    \<and> pb_ref (pkt t a) = pb_ref (pkt s a) - 1
    \<and> (pb_ref (pkt s a) = 1 \<longrightarrow> PutPktToPool a t = Inl (PanicMsg ''ref < 0''))"
proof -
  note inv = pool_reachable_inv [OF assms(1)]
  obtain t where t: "PutPktToPool a s = Inr t" "pool_inv t"
    "length (ps_heap t) = length (ps_heap s)" "pb_ref (pkt t a) = pb_ref (pkt s a) - 1"
    using PutPktToPool_spec [OF inv assms(2,3)] by metis
  obtain sp where sp: "pb_pool (pkt s a) = Some sp"
    using pool_invD(7) [OF inv assms(2)] ..
  have "a \<notin> set (ps_free t sp)" if "pb_ref (pkt s a) \<noteq> 1"
    using pool_invD(2) [OF t(2), of a sp] t(4) that by auto
  moreover have "a \<in> set (ps_free t sp)" if "pb_ref (pkt s a) = 1"
    using t(1) that sp by (auto simp: PutPktToPool_eq [OF inv assms(2,3)] Let_def)
  moreover have "PutPktToPool a t = Inl (PanicMsg ''ref < 0'')" if "pb_ref (pkt s a) = 1"
    using that t assms(2) by (simp add: PutPktToPool_def ReleasePktBuf_eq)
  ultimately show ?thesis using t sp by blast
qed

theorem PutPktToPool_last_reference_witness:
  "\<exists>t. PutPktToPool 0 one_buffer = Inr t \<and> 0 \<in> set (ps_free t 7)"
  using PutPktToPool_last_reference [OF one_buffer_reachable, of 0] by (auto simp: one_buffer_0)

text \<open>
  the sharing pattern of a flooded packet is balanced: after \<open>n\<close> extra holds of a freshly
  got buffer, \<open>n + 1\<close> puts succeed and leave the buffer in a pool.
\<close>

theorem shared_packet_returns:
  assumes "pool_reachable s" and "a < length (ps_heap s)" and "pb_ref (pkt s a) = 1"
    and "int n < max_ref"
  shows "\<exists>t sp. fold_res (\<lambda>_. PutPktToPool a) (replicate (Suc n) ()) ((HoldPktBuf a ^^ n) s) = Inr t
    \<and> pool_inv t \<and> a \<in> set (ps_free t sp)"
  using pkb.balanced_use_frees [of s a n] pool_reachable_inv [OF assms(1)] assms(2-4) by auto

theorem shared_packet_returns_witness:
  "\<exists>t sp. fold_res (\<lambda>_. PutPktToPool 0) (replicate 4 ()) ((HoldPktBuf 0 ^^ 3) one_buffer) = Inr t
    \<and> pool_inv t \<and> 0 \<in> set (ps_free t sp)"
proof -
  have e: "replicate 4 () = replicate (Suc 3) ()" by (simp add: numeral_eq_Suc)
  show ?thesis
    unfolding e by (rule shared_packet_returns [OF one_buffer_reachable]) (simp_all add: one_buffer_0)
qed

end
