(* ===== verification/Fdb_Port.thy ===== *)
theory Fdb_Port
  imports Packet_Ether
begin

text \<open>
  Package \<open>fdb\<close>, the types of \<open>fdb.go\<close> and the port identifiers of \<open>port.go\<close>: a
  forwarding database (\<open>FDB\<close>) holds a MAC table, a map of ports and a pool of port
  identifiers kept as a free list threaded through one array. A port (\<open>portIO\<close>) is a
  value of a type variable, compared with equality as Go compares the interface's pointers. The
  locks make every operation atomic; each is one function of the FDB here.
\<close>

record 'p FdbMacNode =
  fmn_pio :: 'p
  fmn_mac :: mac
  fmn_ft :: u64

record 'p FDB =
  fdb_mactable :: "(mac \<times> 'p FdbMacNode) list"
  fdb_portIdPool :: "int list"
  fdb_allocNum :: i32
  fdb_ports :: "(int \<times> 'p) list"

definition MAXPORT :: int where "MAXPORT = 128"

text \<open>Reading and writing the array \<open>portIdPool\<close>.\<close>

definition pool_get :: "'p FDB \<Rightarrow> int \<Rightarrow> int res" where
  "pool_get f i =
     (if 0 \<le> i \<and> i < int (length (fdb_portIdPool f)) then Inr (fdb_portIdPool f ! nat i)
      else Inl IndexOutOfRange)"

definition pool_set :: "'p FDB \<Rightarrow> int \<Rightarrow> int \<Rightarrow> 'p FDB res" where
  "pool_set f i v =
     (if 0 \<le> i \<and> i < int (length (fdb_portIdPool f))
      then Inr (f\<lparr>fdb_portIdPool := (fdb_portIdPool f)[nat i := v]\<rparr>)
      else Inl IndexOutOfRange)"

definition portIdAlloc :: "'p FDB \<Rightarrow> (int \<times> 'p FDB) res" where
  "portIdAlloc f =
     bind_res (pool_get f 0) (\<lambda>portId.
     bind_res (pool_get f portId) (\<lambda>next.
     bind_res (pool_set f 0 next) (\<lambda>f. Inr (portId, f))))"

definition portIdFree :: "int \<Rightarrow> 'p FDB \<Rightarrow> 'p FDB res" where
  "portIdFree portId f =
     bind_res (pool_get f 0) (\<lambda>head.
     bind_res (pool_set f portId head) (\<lambda>f. pool_set f 0 portId))"

text \<open>\<open>for port := 1; port < MAXPORT; port++ { f.portIdFree(port) }\<close>\<close>

definition initPortPool :: "'p FDB \<Rightarrow> 'p FDB res" where
  "initPortPool f = fold_res portIdFree [1..MAXPORT - 1] f"

definition initPortMap :: "'p FDB \<Rightarrow> 'p FDB" where
  "initPortMap f = f\<lparr>fdb_ports := []\<rparr>"

definition incPortNum :: "'p FDB \<Rightarrow> 'p FDB" where
  "incPortNum f = f\<lparr>fdb_allocNum := wrap_i32 (fdb_allocNum f + 1)\<rparr>"

definition decPortNum :: "'p FDB \<Rightarrow> 'p FDB res" where
  "decPortNum f =
     (let f = f\<lparr>fdb_allocNum := wrap_i32 (fdb_allocNum f - 1)\<rparr>
      in if fdb_allocNum f < 0 then Inl (PanicMsg ''allocNum < 0'') else Inr f)"

definition getPortNum :: "'p FDB \<Rightarrow> int" where
  "getPortNum f = fdb_allocNum f"

definition getPortMap :: "'p FDB \<Rightarrow> int \<Rightarrow> 'p option" where
  "getPortMap f portId = map_of (fdb_ports f) portId"

definition addPortMap :: "int \<Rightarrow> 'p \<Rightarrow> 'p FDB \<Rightarrow> 'p FDB" where
  "addPortMap portId pio f = f\<lparr>fdb_ports := AList.update portId pio (fdb_ports f)\<rparr>"

definition delPortMap :: "int \<Rightarrow> 'p FDB \<Rightarrow> 'p FDB" where
  "delPortMap portId f = f\<lparr>fdb_ports := AList.delete portId (fdb_ports f)\<rparr>"

section \<open>The interface of an identifier pool\<close>

text \<open>
  What the users of the pool rely on, over the abstract state of a stack of free identifiers:
  allocation pops it and yields the reserved value 0 when it is empty, freeing pushes.
\<close>

primrec alloc_n :: "('s \<Rightarrow> 'e + (int \<times> 's)) \<Rightarrow> nat \<Rightarrow> 's \<Rightarrow> 'e + (int list \<times> 's)" where
  "alloc_n alloc 0 s = Inr ([], s)"
| "alloc_n alloc (Suc n) s = bind_res (alloc s) (\<lambda>(x, s).
     bind_res (alloc_n alloc n s) (\<lambda>(xs, s). Inr (x # xs, s)))"

locale id_pool =
  fixes free_ids :: "'s \<Rightarrow> int list \<Rightarrow> bool"
    and alloc :: "'s \<Rightarrow> 'e + (int \<times> 's)"
    and free :: "int \<Rightarrow> 's \<Rightarrow> 'e + 's"
    and ids :: "int set"
  assumes zero_reserved: "0 \<notin> ids"
    and finite_ids: "finite ids"
    and free_ids_subset: "free_ids s xs \<Longrightarrow> set xs \<subseteq> ids"
    and free_ids_distinct: "free_ids s xs \<Longrightarrow> distinct xs"
    and alloc_empty: "free_ids s [] \<Longrightarrow> alloc s = Inr (0, s)"
    and alloc_pop: "free_ids s (x # xs) \<Longrightarrow> \<exists>t. alloc s = Inr (x, t) \<and> free_ids t xs"
    and free_push: "free_ids s xs \<Longrightarrow> x \<in> ids \<Longrightarrow> x \<notin> set xs \<Longrightarrow>
      \<exists>t. free x s = Inr t \<and> free_ids t (x # xs)"
begin

lemma alloc_total: "free_ids s xs \<Longrightarrow> \<exists>x t. alloc s = Inr (x, t) \<and> free_ids t (tl xs)"
  using alloc_empty alloc_pop by (cases xs) fastforce+

lemma alloc_zero_iff:
  assumes "free_ids s xs" and "alloc s = Inr (x, t)"
  shows "x = 0 \<longleftrightarrow> xs = []"
  using assms alloc_empty [of s] alloc_pop [of s] free_ids_subset [of s xs] zero_reserved
  by (cases xs) fastforce+

lemma alloc_nonzero:
  assumes "free_ids s xs" and "alloc s = Inr (x, t)" and "x \<noteq> 0"
  shows "x \<in> ids" and "xs = x # tl xs" and "free_ids t (tl xs)" and "x \<notin> set (tl xs)"
proof -
  obtain y ys where xs: "xs = y # ys"
    using assms alloc_zero_iff [OF assms(1,2)] by (cases xs) auto
  then have y: "y = x" "free_ids t ys"
    using alloc_pop [of s y ys] assms(1,2) by auto
  show "x \<in> ids" "xs = x # tl xs" "free_ids t (tl xs)" "x \<notin> set (tl xs)"
    using xs y free_ids_subset [OF assms(1)] free_ids_distinct [OF assms(1)] by auto
qed

lemma free_then_alloc:
  assumes "free_ids s xs" "x \<in> ids" "x \<notin> set xs"
  shows "\<exists>t u. free x s = Inr t \<and> alloc t = Inr (x, u) \<and> free_ids u xs"
  using free_push [OF assms] alloc_pop by blast

lemma alloc_n_pops:
  "free_ids s xs \<Longrightarrow> n \<le> length xs \<Longrightarrow>
    \<exists>t. alloc_n alloc n s = Inr (take n xs, t) \<and> free_ids t (drop n xs)"
proof (induction n arbitrary: s xs)
  case 0
  then show ?case by simp
next
  case (Suc n)
  then obtain x ys where xs: "xs = x # ys" by (cases xs) auto
  with Suc.prems obtain t where t: "alloc s = Inr (x, t)" "free_ids t ys"
    using alloc_pop by blast
  with Suc.IH [of t ys] Suc.prems xs show ?case by auto
qed

lemma alloc_n_distinct:
  assumes "free_ids s xs" "n \<le> length xs" "alloc_n alloc n s = Inr (ys, t)"
  shows "distinct ys" and "set ys \<subseteq> ids" and "length ys = n"
  using alloc_n_pops [OF assms(1,2)] assms free_ids_subset [OF assms(1)]
    free_ids_distinct [OF assms(1)]
  by (auto dest: in_set_takeD)

end

section \<open>The array implements the stack\<close>

primrec chain :: "int list \<Rightarrow> int \<Rightarrow> int list \<Rightarrow> bool" where
  "chain p i [] \<longleftrightarrow> i = 0"
| "chain p i (x # xs) \<longleftrightarrow> i = x \<and> 1 \<le> x \<and> x < MAXPORT \<and> chain p (p ! nat x) xs"

definition free_list :: "'p FDB \<Rightarrow> int list \<Rightarrow> bool" where
  "free_list f xs \<longleftrightarrow>
     length (fdb_portIdPool f) = nat MAXPORT
     \<and> chain (fdb_portIdPool f) (fdb_portIdPool f ! 0) xs \<and> distinct xs"

definition port_ids :: "int set" where
  "port_ids = {1..MAXPORT - 1}"

lemma port_ids_iff: "x \<in> port_ids \<longleftrightarrow> 1 \<le> x \<and> x < 128"
  by (auto simp: port_ids_def MAXPORT_def)

lemma chain_set: "chain p i xs \<Longrightarrow> set xs \<subseteq> port_ids"
  by (induction xs arbitrary: i) (auto simp: port_ids_iff MAXPORT_def)

text \<open>Writing a cell outside the chain does not change it.\<close>

lemma chain_update:
  "chain p i xs \<Longrightarrow> j \<notin> nat ` set xs \<Longrightarrow> chain (p[j := v]) i xs"
  by (induction xs arbitrary: i) auto

lemma zero_not_in_chain: "chain p i xs \<Longrightarrow> 0 \<notin> nat ` set xs"
  using chain_set [of p i xs] by (auto simp: port_ids_iff)

lemma portIdAlloc_empty:
  assumes "free_list f []"
  shows "portIdAlloc f = Inr (0, f)"
proof -
  have "length (fdb_portIdPool f) = 128" "fdb_portIdPool f ! 0 = 0"
    using assms by (simp_all add: free_list_def MAXPORT_def)
  moreover from this have "(fdb_portIdPool f)[0 := 0] = fdb_portIdPool f"
    by (metis list_update_id)
  ultimately show ?thesis by (simp add: portIdAlloc_def pool_get_def pool_set_def)
qed

lemma portIdAlloc_pop:
  assumes "free_list f (x # xs)"
  shows "portIdAlloc f =
      Inr (x, f\<lparr>fdb_portIdPool := (fdb_portIdPool f)[0 := fdb_portIdPool f ! nat x]\<rparr>)"
    and "free_list (f\<lparr>fdb_portIdPool := (fdb_portIdPool f)[0 := fdb_portIdPool f ! nat x]\<rparr>) xs"
proof -
  let ?p = "fdb_portIdPool f"
  have l: "length ?p = 128" and h: "?p ! 0 = x" "1 \<le> x" "x < 128"
    and c: "chain ?p (?p ! nat x) xs" and d: "distinct xs"
    using assms by (simp_all add: free_list_def MAXPORT_def)
  then show "portIdAlloc f = Inr (x, f\<lparr>fdb_portIdPool := ?p[0 := ?p ! nat x]\<rparr>)"
    by (simp add: portIdAlloc_def pool_get_def pool_set_def)
  show "free_list (f\<lparr>fdb_portIdPool := ?p[0 := ?p ! nat x]\<rparr>) xs"
    using l d chain_update [OF c zero_not_in_chain [OF c]]
    by (simp add: free_list_def MAXPORT_def)
qed

lemma portIdFree_push:
  assumes "free_list f xs" and "x \<in> port_ids" and "x \<notin> set xs"
  shows "\<exists>p. portIdFree x f = Inr (f\<lparr>fdb_portIdPool := p\<rparr>)
    \<and> free_list (f\<lparr>fdb_portIdPool := p\<rparr>) (x # xs)"
proof -
  let ?p = "fdb_portIdPool f"
  let ?q = "?p[nat x := ?p ! 0, 0 := x]"
  have l: "length ?p = 128" and c: "chain ?p (?p ! 0) xs" and d: "distinct xs"
    using assms by (simp_all add: free_list_def MAXPORT_def)
  have x: "1 \<le> x" "x < 128" "nat x < 128" "nat x \<noteq> 0"
    using assms(2) by (auto simp: port_ids_iff)
  have "nat x \<notin> nat ` set xs"
    using chain_set [OF c] assms(3) x by (auto simp: port_ids_iff eq_nat_nat_iff)
  then have "chain ?q (?p ! 0) xs"
    by (intro chain_update [OF _ zero_not_in_chain [OF c]] chain_update [OF c]) auto
  then have "free_list (f\<lparr>fdb_portIdPool := ?q\<rparr>) (x # xs)"
    using l x d assms(3) by (simp add: free_list_def MAXPORT_def)
  moreover have "portIdFree x f = Inr (f\<lparr>fdb_portIdPool := ?q\<rparr>)"
  proof -
    have "pool_get f 0 = Inr (?p ! 0)"
      using l by (auto simp: pool_get_def)
    moreover have "pool_set f x (?p ! 0) = Inr (f\<lparr>fdb_portIdPool := ?p[nat x := ?p ! 0]\<rparr>)"
      using l x by (auto simp: pool_set_def)
    moreover have "pool_set (f\<lparr>fdb_portIdPool := ?p[nat x := ?p ! 0]\<rparr>) 0 x =
        Inr (f\<lparr>fdb_portIdPool := ?q\<rparr>)"
      using l by (auto simp: pool_set_def)
    ultimately show ?thesis by (simp add: portIdFree_def)
  qed
  ultimately show ?thesis by blast
qed

lemma portIdAlloc_frame:
  "portIdAlloc f = Inr (x, g) \<Longrightarrow> \<exists>p. g = f\<lparr>fdb_portIdPool := p\<rparr>"
  by (auto simp: portIdAlloc_def pool_get_def pool_set_def bind_res_eq_Inr split: if_splits)

lemma free_list_cong: "fdb_portIdPool f = fdb_portIdPool g \<Longrightarrow> free_list f xs = free_list g xs"
  by (simp add: free_list_def)

interpretation pids: id_pool free_list portIdAlloc portIdFree port_ids
proof (unfold_locales, goal_cases)
  case 1
  show ?case by (simp add: port_ids_iff)
next
  case 2
  show ?case by (simp add: port_ids_def)
next
  case (3 s xs)
  then show ?case by (auto simp: free_list_def dest: chain_set)
next
  case (4 s xs)
  then show ?case by (simp add: free_list_def)
next
  case (5 s)
  then show ?case by (rule portIdAlloc_empty)
next
  case (6 s x xs)
  then show ?case using portIdAlloc_pop by blast
next
  case (7 s xs x)
  then show ?case using portIdFree_push by blast
qed

section \<open>Initialisation\<close>

definition new_FDB :: "'p FDB" where
  "new_FDB = \<lparr>fdb_mactable = [], fdb_portIdPool = replicate (nat MAXPORT) 0, fdb_allocNum = 0,
     fdb_ports = []\<rparr>"

lemma free_list_new: "free_list new_FDB []"
  by (simp add: free_list_def new_FDB_def MAXPORT_def)

lemma fold_portIdFree:
  assumes "free_list f ys" and "set xs \<subseteq> port_ids" and "distinct xs" and "set xs \<inter> set ys = {}"
  shows "\<exists>p. fold_res portIdFree xs f = Inr (f\<lparr>fdb_portIdPool := p\<rparr>)
    \<and> free_list (f\<lparr>fdb_portIdPool := p\<rparr>) (rev xs @ ys)"
  using assms
proof (induction xs arbitrary: f ys)
  case Nil
  then show ?case by (intro exI [of _ "fdb_portIdPool f"]) simp
next
  case (Cons x xs)
  obtain p where p: "portIdFree x f = Inr (f\<lparr>fdb_portIdPool := p\<rparr>)"
    "free_list (f\<lparr>fdb_portIdPool := p\<rparr>) (x # ys)"
    using portIdFree_push [OF Cons.prems(1), of x] Cons.prems by auto
  have "\<exists>q. fold_res portIdFree xs (f\<lparr>fdb_portIdPool := p\<rparr>) =
        Inr (f\<lparr>fdb_portIdPool := p\<rparr>\<lparr>fdb_portIdPool := q\<rparr>)
      \<and> free_list (f\<lparr>fdb_portIdPool := p\<rparr>\<lparr>fdb_portIdPool := q\<rparr>) (rev xs @ x # ys)"
    using Cons.prems by (intro Cons.IH [OF p(2)]) auto
  then show ?case using p(1) by simp
qed

lemma initPortPool_new:
  "\<exists>p. initPortPool (new_FDB :: 'p FDB) = Inr (new_FDB\<lparr>fdb_portIdPool := p\<rparr>)
    \<and> free_list (new_FDB\<lparr>fdb_portIdPool := p\<rparr> :: 'p FDB) (rev [1..127])"
proof -
  have "set [1..127] \<subseteq> port_ids"
    by (auto simp: port_ids_iff)
  then show ?thesis
    using fold_portIdFree [OF free_list_new [where ?'a = 'p], of "[1..127]"]
    by (simp add: initPortPool_def MAXPORT_def)
qed

text \<open>
  a freshly initialised pool has 127 identifiers: 127 allocations in a row succeed, return
  pairwise different identifiers between 1 and 127, and the next one returns 0.
\<close>

theorem port_pool_capacity:
  fixes f :: "'p FDB"
  assumes "initPortPool new_FDB = Inr f"
  shows "\<exists>ys g. alloc_n portIdAlloc 127 f = Inr (ys, g) \<and> distinct ys \<and> set ys = {1..127}
    \<and> portIdAlloc g = Inr (0, g)"
proof -
  have fl: "free_list f (rev [1..127])"
    using initPortPool_new [where ?'p = 'p] assms by auto
  obtain g where g: "alloc_n portIdAlloc 127 f = Inr (rev [1..127], g)" "free_list g []"
    using pids.alloc_n_pops [OF fl, of 127] by auto
  then show ?thesis using pids.alloc_empty [OF g(2)] by auto
qed

theorem port_pool_capacity_witness:
  "\<exists>ys g. alloc_n portIdAlloc 127 (projr (initPortPool (new_FDB :: nat FDB))) = Inr (ys, g)
    \<and> distinct ys \<and> set ys = {1..127} \<and> portIdAlloc g = Inr (0, g)"
proof -
  have "initPortPool new_FDB = Inr (projr (initPortPool (new_FDB :: nat FDB)))"
    using initPortPool_new [where ?'p = nat] by auto
  then show ?thesis by (rule port_pool_capacity)
qed

end
