(* ===== verification/Fdb_Table.thy ===== *)
theory Fdb_Table
  imports Fdb_Port
begin

text \<open>
  Package \<open>fdb\<close>: the MAC table and its ageing (\<open>fdb.go\<close>), joining and leaving an FDB
  (\<open>JoinFwdPort\<close>, \<open>ReleaseFwdPort\<close> of \<open>port.go\<close>), and the invariant that ties the
  table, the port map and the pool of identifiers together. The global clock \<open>FdbTick\<close> is an
  argument. A node of the table is reached through the table only, so an update through its
  pointer is an update of the entry.
\<close>

definition ExpireTime :: u64 where "ExpireTime = 300"

section \<open>Nodes\<close>

definition NewFdbMacNode :: "u64 \<Rightarrow> mac \<Rightarrow> 'p \<Rightarrow> 'p FdbMacNode" where
  "NewFdbMacNode FdbTick m pio = \<lparr>fmn_pio = pio, fmn_mac = m, fmn_ft = FdbTick\<rparr>"

definition GetPortIO :: "'p FdbMacNode \<Rightarrow> 'p" where
  "GetPortIO fmn = fmn_pio fmn"

definition updateTime :: "u64 \<Rightarrow> 'p FdbMacNode \<Rightarrow> 'p FdbMacNode" where
  "updateTime FdbTick fmn = fmn\<lparr>fmn_ft := FdbTick\<rparr>"

definition updatePio :: "'p \<Rightarrow> 'p FdbMacNode \<Rightarrow> 'p FdbMacNode" where
  "updatePio pio fmn = fmn\<lparr>fmn_pio := pio\<rparr>"

definition maybeExpire :: "u64 \<Rightarrow> 'p FdbMacNode \<Rightarrow> bool" where
  "maybeExpire FdbTick fmn \<longleftrightarrow> FdbTick - fmn_ft fmn > 3"

section \<open>The MAC table\<close>

definition FdbMacTable :: "'p FDB \<Rightarrow> (mac \<times> 'p FdbMacNode) list" where
  "FdbMacTable f = fdb_mactable f"

definition Fdb_Get :: "'p FDB \<Rightarrow> mac \<Rightarrow> 'p FdbMacNode option" where
  "Fdb_Get f m = map_of (fdb_mactable f) m"

definition Fdb_Set :: "mac \<Rightarrow> 'p FdbMacNode \<Rightarrow> 'p FDB \<Rightarrow> 'p FDB res" where
  "Fdb_Set m fmn f =
     (if m \<noteq> fmn_mac fmn then Inl (PanicMsg ''m, fmn.mac'')
      else Inr (f\<lparr>fdb_mactable := AList.update m fmn (fdb_mactable f)\<rparr>))"

definition Fdb_Add :: "u64 \<Rightarrow> mac \<Rightarrow> 'p \<Rightarrow> 'p FDB \<Rightarrow> 'p FDB res" where
  "Fdb_Add FdbTick m pio f = Fdb_Set m (NewFdbMacNode FdbTick m pio) f"

definition Fdb_Del :: "mac \<Rightarrow> 'p FDB \<Rightarrow> 'p FDB" where
  "Fdb_Del m f = f\<lparr>fdb_mactable := AList.delete m (fdb_mactable f)\<rparr>"

text \<open>An update of the node of \<open>m\<close> through its pointer.\<close>

definition update_node :: "mac \<Rightarrow> ('p FdbMacNode \<Rightarrow> 'p FdbMacNode) \<Rightarrow> 'p FDB \<Rightarrow> 'p FDB" where
  "update_node m g f =
     (case Fdb_Get f m of None \<Rightarrow> f
      | Some fmn \<Rightarrow> f\<lparr>fdb_mactable := AList.update m (g fmn) (fdb_mactable f)\<rparr>)"

text \<open>Both loops below range over the table and delete from it while they do.\<close>

definition DelFmnByPortIO :: "'p \<Rightarrow> 'p FDB \<Rightarrow> 'p FDB" where
  "DelFmnByPortIO pio f =
     fold (\<lambda>(m, fmn) f. if fmn_pio fmn = pio then Fdb_Del m f else f) (FdbMacTable f) f"

definition fdb_sweep :: "u64 \<Rightarrow> 'p FDB \<Rightarrow> 'p FDB" where
  "fdb_sweep FdbTick f =
     (if length (FdbMacTable f) > 128
      then fold (\<lambda>(m, fmn) f. if FdbTick - fmn_ft fmn > ExpireTime then Fdb_Del m f else f)
             (FdbMacTable f) f
      else f)"

lemma Fdb_Del_simps [simp]:
  "fdb_mactable (Fdb_Del m f) = AList.delete m (fdb_mactable f)"
  "fdb_portIdPool (Fdb_Del m f) = fdb_portIdPool f"
  "fdb_allocNum (Fdb_Del m f) = fdb_allocNum f"
  "fdb_ports (Fdb_Del m f) = fdb_ports f"
  by (simp_all add: Fdb_Del_def)

lemma fold_Fdb_Del:
  "fold (\<lambda>(m, fmn) f. if P m fmn then Fdb_Del m f else f) xs f
    = f\<lparr>fdb_mactable := fold (\<lambda>(m, fmn) t. if P m fmn then AList.delete m t else t) xs
          (fdb_mactable f)\<rparr>"
  by (induction xs arbitrary: f) (auto simp: Fdb_Del_def)

lemma DelFmnByPortIO_table:
  assumes "map_wf (fdb_mactable f)"
  shows "Fdb_Get (DelFmnByPortIO pio f) m =
    (case Fdb_Get f m of Some fmn \<Rightarrow> if fmn_pio fmn = pio then None else Some fmn | None \<Rightarrow> None)"
  using assms
  by (simp add: DelFmnByPortIO_def FdbMacTable_def Fdb_Get_def
      fold_Fdb_Del [where P = "\<lambda>_ fmn. fmn_pio fmn = pio"]
      map_of_delete_where [where P = "\<lambda>_ fmn. fmn_pio fmn = pio"] split: option.split)

lemma DelFmnByPortIO_frame:
  "\<exists>t. DelFmnByPortIO pio f = f\<lparr>fdb_mactable := t\<rparr> \<and> set t \<subseteq> set (fdb_mactable f)
    \<and> (map_wf (fdb_mactable f) \<longrightarrow> map_wf t)"
  by (simp add: DelFmnByPortIO_def FdbMacTable_def
      fold_Fdb_Del [where P = "\<lambda>_ fmn. fmn_pio fmn = pio"])
    (intro exI conjI, rule refl, rule delete_where_subset, rule impI, erule delete_where_wf)

lemma Fdb_Get_sweep:
  assumes "map_wf (fdb_mactable f)"
  shows "Fdb_Get (fdb_sweep t f) m =
    (case Fdb_Get f m of
       Some fmn \<Rightarrow> if length (fdb_mactable f) > 128 \<and> t - fmn_ft fmn > ExpireTime
                   then None else Some fmn
     | None \<Rightarrow> None)"
  using assms
  by (simp add: fdb_sweep_def FdbMacTable_def Fdb_Get_def
      fold_Fdb_Del [where P = "\<lambda>_ fmn. t - fmn_ft fmn > ExpireTime"]
      map_of_delete_where [where P = "\<lambda>_ fmn. t - fmn_ft fmn > ExpireTime"] split: option.split)

text \<open>
  the sweep of a table of more than 128 entries removes exactly the entries that are older
  than \<open>ExpireTime\<close> ticks and keeps the others as they are; a smaller table is not swept.
\<close>

theorem fdb_sweep_removes_expired:
  assumes "map_wf (fdb_mactable f)"
  shows "Fdb_Get (fdb_sweep t f) m =
    (case Fdb_Get f m of
       Some fmn \<Rightarrow> if length (fdb_mactable f) > 128 \<and> t - fmn_ft fmn > ExpireTime
                   then None else Some fmn
     | None \<Rightarrow> None)"
  using assms by (rule Fdb_Get_sweep)

definition old_table :: "nat FDB" where
  "old_table = new_FDB\<lparr>fdb_mactable :=
     map (\<lambda>i. ([0, 0, 0, 0, 0, word_of_nat i], NewFdbMacNode 1 [0, 0, 0, 0, 0, word_of_nat i] i))
       [0..<200]\<rparr>"

lemma word_of_nat_inj:
  assumes "(word_of_nat i :: byte) = word_of_nat j" and "i < 256" and "j < 256"
  shows "i = j"
proof -
  have "unat (word_of_nat i :: byte) = unat (word_of_nat j :: byte)"
    by (simp only: assms(1))
  then show ?thesis using assms(2,3) by (simp add: unat_of_nat)
qed

lemma old_table_wf: "map_wf (fdb_mactable old_table)"
  by (auto simp: old_table_def distinct_map o_def intro!: inj_onI dest: word_of_nat_inj)

theorem fdb_sweep_removes_expired_witness:
  "Fdb_Get old_table [0, 0, 0, 0, 0, 0] = Some (NewFdbMacNode 1 [0, 0, 0, 0, 0, 0] 0)
   \<and> Fdb_Get (fdb_sweep 320 old_table) [0, 0, 0, 0, 0, 0] = None"
proof -
  have g: "Fdb_Get old_table [0, 0, 0, 0, 0, 0] = Some (NewFdbMacNode 1 [0, 0, 0, 0, 0, 0] 0)"
    by (simp add: old_table_def Fdb_Get_def upt_conv_Cons)
  moreover have "length (fdb_mactable old_table) = 200"
    by (simp add: old_table_def)
  ultimately show ?thesis
    using fdb_sweep_removes_expired [OF old_table_wf, of 320 "[0, 0, 0, 0, 0, 0]"]
    by (simp add: NewFdbMacNode_def ExpireTime_def)
qed

section \<open>Joining and leaving\<close>

definition JoinFwdPort :: "'p \<Rightarrow> bool \<Rightarrow> 'p FDB \<Rightarrow> (int \<times> 'p FDB) res" where
  "JoinFwdPort pio inc f =
     bind_res (portIdAlloc f) (\<lambda>(portId, f).
       if portId = 0 then Inr (portId, f)
       else let f = (if inc then incPortNum f else f)
            in Inr (portId, addPortMap portId pio f))"

definition ReleaseFwdPort :: "int \<Rightarrow> bool \<Rightarrow> 'p FDB \<Rightarrow> 'p FDB res" where
  "ReleaseFwdPort portId dec f =
     (if portId = 0 then Inr f
      else case getPortMap f portId of
             None \<Rightarrow> Inr f
           | Some pio \<Rightarrow>
               let f = DelFmnByPortIO pio f;
                   f = delPortMap portId f
               in bind_res (portIdFree portId f) (\<lambda>f. if dec then decPortNum f else Inr f))"

text \<open>
  The invariant: the identifiers in use and the free ones partition \<open>1..127\<close>, the table is a
  map whose entries carry their own key, every entry points to a joined port, and the counter
  is between 0 and the number of joined ports.
\<close>

definition fdb_inv :: "'p FDB \<Rightarrow> bool" where
  "fdb_inv f \<longleftrightarrow>
     (\<exists>xs. free_list f xs \<and> set xs \<inter> set (keys (fdb_ports f)) = {}
        \<and> set xs \<union> set (keys (fdb_ports f)) = port_ids)
     \<and> map_wf (fdb_ports f) \<and> map_wf (fdb_mactable f)
     \<and> (\<forall>m fmn. (m, fmn) \<in> set (fdb_mactable f) \<longrightarrow>
          fmn_mac fmn = m \<and> fmn_pio fmn \<in> snd ` set (fdb_ports f))"

lemma fdb_invD:
  assumes "fdb_inv f"
  obtains xs where "free_list f xs" "set xs \<inter> set (keys (fdb_ports f)) = {}"
    "set xs \<union> set (keys (fdb_ports f)) = port_ids" "map_wf (fdb_ports f)"
    "map_wf (fdb_mactable f)"
    "\<forall>m fmn. (m, fmn) \<in> set (fdb_mactable f) \<longrightarrow>
       fmn_mac fmn = m \<and> fmn_pio fmn \<in> snd ` set (fdb_ports f)"
  using assms by (auto simp: fdb_inv_def)

lemma fdb_invI:
  assumes "free_list f xs" "set xs \<inter> set (keys (fdb_ports f)) = {}"
    "set xs \<union> set (keys (fdb_ports f)) = port_ids" "map_wf (fdb_ports f)"
    "map_wf (fdb_mactable f)"
    "\<And>m fmn. (m, fmn) \<in> set (fdb_mactable f) \<Longrightarrow>
       fmn_mac fmn = m \<and> fmn_pio fmn \<in> snd ` set (fdb_ports f)"
  shows "fdb_inv f"
  using assms by (auto simp: fdb_inv_def)

lemma JoinFwdPort_cases:
  assumes inv: "fdb_inv f"
  obtains
    (full) "JoinFwdPort pio inc f = Inr (0, f)" "set (keys (fdb_ports f)) = port_ids"
  | (joined) x g where "JoinFwdPort pio inc f = Inr (x, g)" "x \<in> port_ids"
      "x \<notin> set (keys (fdb_ports f))" "fdb_inv g"
      "fdb_ports g = AList.update x pio (fdb_ports f)" "fdb_mactable g = fdb_mactable f"
      "fdb_allocNum g = (if inc then wrap_i32 (fdb_allocNum f + 1) else fdb_allocNum f)"
proof -
  obtain xs where fl: "free_list f xs" and disj: "set xs \<inter> set (keys (fdb_ports f)) = {}"
    and cover: "set xs \<union> set (keys (fdb_ports f)) = port_ids"
    and wf: "map_wf (fdb_ports f)" "map_wf (fdb_mactable f)"
    and tab: "\<forall>m fmn. (m, fmn) \<in> set (fdb_mactable f) \<longrightarrow>
       fmn_mac fmn = m \<and> fmn_pio fmn \<in> snd ` set (fdb_ports f)"
    using inv by (rule fdb_invD)
  show thesis
  proof (cases xs)
    case Nil
    then show thesis
      using fl cover pids.alloc_empty [of f] by (intro full) (simp_all add: JoinFwdPort_def)
  next
    case (Cons x ys)
    obtain h where h: "portIdAlloc f = Inr (x, h)" "free_list h ys"
      using pids.alloc_pop [of f x ys] fl Cons by blast
    obtain p where p: "h = f\<lparr>fdb_portIdPool := p\<rparr>"
      using portIdAlloc_frame [OF h(1)] ..
    have x: "x \<in> port_ids" "x \<notin> set ys" "x \<notin> set (keys (fdb_ports f))"
      using fl Cons disj pids.free_ids_subset [OF fl] pids.free_ids_distinct [OF fl] by auto
    then have x0: "x \<noteq> 0" using pids.zero_reserved by auto
    let ?g = "addPortMap x pio (if inc then incPortNum h else h)"
    have ports: "fdb_ports ?g = AList.update x pio (fdb_ports f)"
      and table: "fdb_mactable ?g = fdb_mactable f"
      and pool: "fdb_portIdPool ?g = fdb_portIdPool h"
      and num: "fdb_allocNum ?g = (if inc then wrap_i32 (fdb_allocNum f + 1) else fdb_allocNum f)"
      by (simp_all add: addPortMap_def incPortNum_def p)
    have join: "JoinFwdPort pio inc f = Inr (x, ?g)"
      using h x0 by (simp add: JoinFwdPort_def Let_def)
    have upd: "AList.update x pio (fdb_ports f) = fdb_ports f @ [(x, pio)]"
      using x(3) by (intro update_new) simp
    have "free_list ?g ys"
      using h(2) free_list_cong [OF pool] by blast
    then have "fdb_inv ?g"
    proof (rule fdb_invI)
      show "set ys \<inter> set (keys (fdb_ports ?g)) = {}"
        and "set ys \<union> set (keys (fdb_ports ?g)) = port_ids"
        using x disj cover Cons by (auto simp: ports upd)
      show "map_wf (fdb_ports ?g)" "map_wf (fdb_mactable ?g)"
        using wf by (simp_all only: ports table map_wf_update)
      show "fmn_mac fmn = m \<and> fmn_pio fmn \<in> snd ` set (fdb_ports ?g)"
        if "(m, fmn) \<in> set (fdb_mactable ?g)" for m fmn
        using tab that by (simp add: ports table upd)
    qed
    from joined [OF join x(1,3) this ports table num] show thesis .
  qed
qed

lemma ReleaseFwdPort_absent:
  "map_of (fdb_ports f) x = None \<Longrightarrow> ReleaseFwdPort x dec f = Inr f"
  by (simp add: ReleaseFwdPort_def getPortMap_def)

lemma ReleaseFwdPort_joined:
  assumes inv: "fdb_inv f" and x: "map_of (fdb_ports f) x = Some pio"
    and num: "dec \<Longrightarrow> 0 < fdb_allocNum f \<and> fdb_allocNum f < 2147483648"
  obtains g where "ReleaseFwdPort x dec f = Inr g" "fdb_inv g"
    "fdb_ports g = AList.delete x (fdb_ports f)"
    "\<forall>m. Fdb_Get g m = (case Fdb_Get f m of
       Some fmn \<Rightarrow> if fmn_pio fmn = pio then None else Some fmn | None \<Rightarrow> None)"
    "fdb_allocNum g = (if dec then fdb_allocNum f - 1 else fdb_allocNum f)"
proof -
  obtain xs where fl: "free_list f xs" and disj: "set xs \<inter> set (keys (fdb_ports f)) = {}"
    and cover: "set xs \<union> set (keys (fdb_ports f)) = port_ids"
    and wf: "map_wf (fdb_ports f)" "map_wf (fdb_mactable f)"
    and tab: "\<forall>m fmn. (m, fmn) \<in> set (fdb_mactable f) \<longrightarrow>
       fmn_mac fmn = m \<and> fmn_pio fmn \<in> snd ` set (fdb_ports f)"
    using inv by (rule fdb_invD)
  have xin: "(x, pio) \<in> set (fdb_ports f)" using x by (rule map_of_SomeD)
  then have xid: "x \<in> port_ids" "x \<notin> set xs" using disj cover by force+
  then have x0: "x \<noteq> 0" using pids.zero_reserved by auto
  obtain t where t: "DelFmnByPortIO pio f = f\<lparr>fdb_mactable := t\<rparr>"
    "set t \<subseteq> set (fdb_mactable f)" "map_wf t"
    using DelFmnByPortIO_frame [of pio f] wf(2) by blast
  let ?h = "delPortMap x (f\<lparr>fdb_mactable := t\<rparr>)"
  have "free_list ?h xs"
    using fl by (simp add: free_list_def delPortMap_def)
  then obtain p where p: "portIdFree x ?h = Inr (?h\<lparr>fdb_portIdPool := p\<rparr>)"
    "free_list (?h\<lparr>fdb_portIdPool := p\<rparr>) (x # xs)"
    using portIdFree_push xid by blast
  let ?i = "?h\<lparr>fdb_portIdPool := p\<rparr>"
  let ?g = "?i\<lparr>fdb_allocNum := if dec then fdb_allocNum f - 1 else fdb_allocNum f\<rparr>"
  have rel: "ReleaseFwdPort x dec f = Inr ?g"
    using x x0 t p num
    by (auto simp: ReleaseFwdPort_def getPortMap_def Let_def decPortNum_def delPortMap_def)
  have get: "Fdb_Get ?g m = (case Fdb_Get f m of
       Some fmn \<Rightarrow> if fmn_pio fmn = pio then None else Some fmn | None \<Rightarrow> None)" for m
    using DelFmnByPortIO_table [OF wf(2), of pio m] t(1)
    by (simp add: Fdb_Get_def delPortMap_def)
  have ports: "fdb_ports ?g = AList.delete x (fdb_ports f)"
    and table: "fdb_mactable ?g = t"
    by (simp_all add: delPortMap_def)
  have "fdb_inv ?g"
  proof (rule fdb_invI [where xs = "x # xs"])
    show "free_list ?g (x # xs)" using p(2) by (simp add: free_list_def)
    show "set (x # xs) \<inter> set (keys (fdb_ports ?g)) = {}"
      and "set (x # xs) \<union> set (keys (fdb_ports ?g)) = port_ids"
      using disj cover xid by (auto simp: ports)
    show "map_wf (fdb_ports ?g)" "map_wf (fdb_mactable ?g)"
      using wf t(3) by (simp_all add: ports table)
  next
    fix m fmn assume e: "(m, fmn) \<in> set (fdb_mactable ?g)"
    then have mf: "(m, fmn) \<in> set (fdb_mactable f)" using t(2) by (auto simp: table)
    have "map_of t m = Some fmn" using e t(3) by (simp add: table)
    then have "fmn_pio fmn \<noteq> pio"
      using get [of m] by (auto simp: Fdb_Get_def table split: option.splits if_splits)
    moreover obtain y where y: "(y, fmn_pio fmn) \<in> set (fdb_ports f)"
      using tab mf by force
    ultimately have "y \<noteq> x"
      using x map_wf_set_iff [OF wf(1), of y "fmn_pio fmn"] by auto
    with y have "(y, fmn_pio fmn) \<in> set (fdb_ports ?g)"
      by (simp add: ports set_delete_iff)
    then show "fmn_mac fmn = m \<and> fmn_pio fmn \<in> snd ` set (fdb_ports ?g)"
      using tab mf by force
  qed
  from that [OF rel this ports allI [OF get]] show thesis by simp
qed

end
