(* ===== verification/Fdb_Forward.thy ===== *)
theory Fdb_Forward
  imports Fdb_Table Packet_Buf
begin

text \<open>
  Package \<open>fdb\<close>, file \<open>forward.go\<close>: the forwarding of a frame that came in on a port. The
  calls of \<open>PutPktToChan\<close> are the list of ports they are made on, in order; nothing in
  \<open>Forward\<close> depends on their effect. The result is the returned \<open>bool\<close>, that list, and
  the FDB after learning.
\<close>

definition flood :: "'p FDB \<Rightarrow> 'p \<Rightarrow> bool \<times> 'p list" where
  "flood f pio =
     fold (\<lambda>(_, p) (fwd, out). if p \<noteq> pio then (True, out @ [p]) else (fwd, out))
       (fdb_ports f) (False, [])"

text \<open>The learning step; \<open>None\<close> is the early return that drops a frame that may be looping.\<close>

definition fwd_learn :: "u64 \<Rightarrow> 'p \<Rightarrow> byte gslice \<Rightarrow> Ether \<Rightarrow> 'p FDB \<Rightarrow> 'p FDB option res" where
  "fwd_learn FdbTick pio data ether f =
     (case Fdb_Get f (SrcMac ether) of
        Some fmn \<Rightarrow>
          if fmn_pio fmn = pio then Inr (Some (update_node (SrcMac ether) (updateTime FdbTick) f))
          else bind_res (if maybeExpire FdbTick fmn then Inr True else IsArpRelpy data) (\<lambda>move.
            if move
            then Inr (Some (update_node (SrcMac ether) (updateTime FdbTick)
                   (update_node (SrcMac ether) (updatePio pio) f)))
            else Inr None)
      | None \<Rightarrow> bind_res (Fdb_Add FdbTick (SrcMac ether) pio f) (\<lambda>f. Inr (Some f)))"

text \<open>The choice of the outgoing ports, once the source is learnt.\<close>

definition fwd_send :: "'p \<Rightarrow> Ether \<Rightarrow> 'p FDB \<Rightarrow> bool \<times> 'p list" where
  "fwd_send pio ether f =
     (if IsArp ether \<and> IsBroadcast ether then flood f pio
      else case Fdb_Get f (DstMac ether) of
             Some fmn \<Rightarrow> (True, if fmn_pio fmn \<noteq> pio then [fmn_pio fmn] else [])
           | None \<Rightarrow> flood f pio)"

definition Forward :: "u64 \<Rightarrow> 'p \<Rightarrow> PktBuf \<Rightarrow> 'p FDB \<Rightarrow> (bool \<times> 'p list \<times> 'p FDB) res" where
  "Forward FdbTick pio pkt f =
     bind_res (LoadUserData pkt) (\<lambda>data.
     bind_res (TranEther data) (\<lambda>ether.
       if \<not> IsArp ether \<and> \<not> IsIpPtk ether then Inr (False, [], f)
       else bind_res (fwd_learn FdbTick pio data ether f) (\<lambda>learnt.
         case learnt of
           None \<Rightarrow> Inr (False, [], f)
         | Some f \<Rightarrow> (case fwd_send pio ether f of (fwd, out) \<Rightarrow> Inr (fwd, out, f)))))"

section \<open>Flooding\<close>

lemma flood_fold:
  "fold (\<lambda>(_, p) (fwd, out). if p \<noteq> pio then (True, out @ [p]) else (fwd, out)) xs (b, acc)
    = (b \<or> filter (\<lambda>p. p \<noteq> pio) (map snd xs) \<noteq> [], acc @ filter (\<lambda>p. p \<noteq> pio) (map snd xs))"
  by (induction xs arbitrary: b acc) auto

lemma flood_eq:
  "flood f pio = (filter (\<lambda>p. p \<noteq> pio) (map snd (fdb_ports f)) \<noteq> [],
     filter (\<lambda>p. p \<noteq> pio) (map snd (fdb_ports f)))"
  using flood_fold [of pio "fdb_ports f" False "[]"] by (simp add: flood_def)

lemma fwd_send_horizon:
  "fwd_send pio e g = (fwd, out) \<Longrightarrow> pio \<notin> set out \<and> (out \<noteq> [] \<longrightarrow> fwd)"
  by (auto simp: fwd_send_def flood_eq split: if_splits option.splits)

lemma fwd_learn_ports: "fwd_learn t pio data e f = Inr (Some g) \<Longrightarrow> fdb_ports g = fdb_ports f"
  by (auto simp: fwd_learn_def update_node_def Fdb_Add_def Fdb_Set_def bind_res_eq_Inr
      split: option.splits if_splits)

lemma Forward_cases:
  assumes "Forward t pio pkt f = Inr (fwd, out, g)"
  obtains (dropped) "g = f" "\<not> fwd" "out = []"
  | (sent) data e where "LoadUserData pkt = Inr data" "TranEther data = Inr e"
      "fwd_learn t pio data e f = Inr (Some g)" "fwd_send pio e g = (fwd, out)"
  using assms
  by (auto simp: Forward_def bind_res_eq_Inr case_prod_beta prod_eq_iff
      split: if_splits option.splits)

text \<open>
  Split horizon: whatever the frame and the state of the table, \<open>Forward\<close> never puts a
  frame on the port it came from, and whenever it puts it anywhere it reports success.
\<close>

theorem Forward_split_horizon:
  assumes "Forward t pio pkt f = Inr (fwd, out, g)"
  shows "pio \<notin> set out \<and> (out \<noteq> [] \<longrightarrow> fwd) \<and> fdb_ports g = fdb_ports f"
  using assms by (rule Forward_cases) (auto dest: fwd_learn_ports fwd_send_horizon)

section \<open>Frames\<close>

text \<open>A buffer whose user data hold at least an Ethernet header.\<close>

definition frame_ok :: "PktBuf \<Rightarrow> bool" where
  "frame_ok pkt \<longleftrightarrow> pb_wf pkt \<and> 0 \<le> pb_macHeader pkt
     \<and> pb_macHeader pkt + 14 \<le> uint (pb_len pkt) \<and> uint (pb_len pkt) \<le> pktBufSize"

definition frame_data :: "PktBuf \<Rightarrow> byte gslice" where
  "frame_data pkt = \<lparr>sl_arr = pb_buf pkt, sl_off = nat (pb_macHeader pkt),
     sl_len = nat (uint (pb_len pkt) - pb_macHeader pkt)\<rparr>"

definition frame_byte :: "PktBuf \<Rightarrow> nat \<Rightarrow> byte" where
  "frame_byte pkt i = pb_buf pkt ! (nat (pb_macHeader pkt) + i)"

definition frame_ether :: "PktBuf \<Rightarrow> Ether" where
  "frame_ether pkt = \<lparr>DstMac = map (frame_byte pkt) [0, 1, 2, 3, 4, 5],
     SrcMac = map (frame_byte pkt) [6, 7, 8, 9, 10, 11], EProto = map (frame_byte pkt) [12, 13]\<rparr>"

definition frame_arp_reply :: "PktBuf \<Rightarrow> bool" where
  "frame_arp_reply pkt \<longleftrightarrow> pb_macHeader pkt + 42 \<le> uint (pb_len pkt) \<and> IsArp (frame_ether pkt)
     \<and> be16 (frame_byte pkt 20) (frame_byte pkt 21) = 2"

lemma frame_data_wf:
  assumes "frame_ok pkt"
  shows "sl_wf (frame_data pkt)"
proof -
  have b: "0 \<le> pb_macHeader pkt" "pb_macHeader pkt + 14 \<le> uint (pb_len pkt)"
    "uint (pb_len pkt) \<le> 1528" "length (pb_buf pkt) = 1528"
    using assms by (simp_all add: frame_ok_def pktBufSize_def pb_wf_def)
  then have "nat (pb_macHeader pkt) + nat (uint (pb_len pkt) - pb_macHeader pkt) \<le> 1528"
    by linarith
  then show ?thesis using b by (simp add: frame_data_def sl_wf_def)
qed

lemma LoadUserData_frame: "frame_ok pkt \<Longrightarrow> LoadUserData pkt = Inr (frame_data pkt)"
  by (auto simp: frame_ok_def frame_data_def LoadUserData_def buf_slice_def pb_wf_def
      pktBufSize_def)

lemma TranEther_frame: "frame_ok pkt \<Longrightarrow> TranEther (frame_data pkt) = Inr (frame_ether pkt)"
  by (subst TranEther_ok, erule frame_data_wf)
    (auto simp: frame_ok_def frame_data_def frame_ether_def frame_byte_def
      EtherSize_def)

lemma frame_data_nth:
  assumes "frame_ok pkt" and "int i < uint (pb_len pkt) - pb_macHeader pkt"
  shows "sl_list (frame_data pkt) ! i = frame_byte pkt i"
  using sl_list_nth [OF frame_data_wf [OF assms(1)], of i] assms(2)
  by (simp add: frame_data_def frame_byte_def zless_nat_eq_int_zless)

lemma IsArpRelpy_frame:
  assumes "frame_ok pkt"
  shows "IsArpRelpy (frame_data pkt) = Inr (frame_arp_reply pkt)"
proof -
  have "42 \<le> sl_len (frame_data pkt) \<longleftrightarrow> pb_macHeader pkt + 42 \<le> uint (pb_len pkt)"
    by (auto simp: frame_data_def le_nat_iff)
  then show ?thesis
    unfolding IsArpRelpy_total [OF frame_data_wf [OF assms]]
    by (auto simp: frame_arp_reply_def frame_data_nth [OF assms] frame_ether_def IsArp_def
        ArpPkt_def)
qed

section \<open>The abstract bridge\<close>

text \<open>
  The contract of a learning bridge: a table from addresses to a port and a time, and a list of
  ports. \<open>bridge_learn\<close> yields \<open>None\<close> for a frame whose source moved to another port while
  its entry is fresh and that is no ARP reply; \<open>bridge_out\<close> is the list of outgoing ports.
\<close>

type_synonym 'p bridge_table = "mac \<Rightarrow> ('p \<times> u64) option"

definition bridge_learn ::
  "u64 \<Rightarrow> 'p \<Rightarrow> mac \<Rightarrow> bool \<Rightarrow> 'p bridge_table \<Rightarrow> 'p bridge_table option" where
  "bridge_learn t pio src reply tab =
     (case tab src of
        Some (p, ft) \<Rightarrow> if p = pio \<or> t - ft > 3 \<or> reply then Some (tab(src \<mapsto> (pio, t))) else None
      | None \<Rightarrow> Some (tab(src \<mapsto> (pio, t))))"

definition bridge_out :: "'p list \<Rightarrow> 'p \<Rightarrow> mac \<Rightarrow> bool \<Rightarrow> 'p bridge_table \<Rightarrow> 'p list" where
  "bridge_out ports pio dst broadcast tab =
     (case (if broadcast then None else tab dst) of
        Some (p, _) \<Rightarrow> if p = pio then [] else [p]
      | None \<Rightarrow> filter (\<lambda>p. p \<noteq> pio) ports)"

definition bridge_table :: "'p FDB \<Rightarrow> 'p bridge_table" where
  "bridge_table f m = map_option (\<lambda>fmn. (fmn_pio fmn, fmn_ft fmn)) (Fdb_Get f m)"

definition bridge_ports :: "'p FDB \<Rightarrow> 'p list" where
  "bridge_ports f = map snd (fdb_ports f)"

lemma bridge_table_update_node:
  assumes "Fdb_Get f m = Some fmn"
  shows "bridge_table (update_node m h f) =
    (bridge_table f)(m \<mapsto> (fmn_pio (h fmn), fmn_ft (h fmn)))"
  using assms by (auto simp: bridge_table_def update_node_def Fdb_Get_def)

lemma Fdb_Get_update_node:
  "Fdb_Get f m = Some fmn \<Longrightarrow> Fdb_Get (update_node m h f) m = Some (h fmn)"
  by (simp add: update_node_def Fdb_Get_def)

lemma fwd_learn_refines:
  assumes "frame_ok pkt"
  shows "\<exists>r. fwd_learn t pio (frame_data pkt) (frame_ether pkt) f = Inr r
    \<and> map_option bridge_table r =
        bridge_learn t pio (SrcMac (frame_ether pkt)) (frame_arp_reply pkt) (bridge_table f)"
proof (cases "Fdb_Get f (SrcMac (frame_ether pkt))")
  case None
  then show ?thesis
    by (auto simp: fwd_learn_def bridge_learn_def bridge_table_def Fdb_Add_def Fdb_Set_def
        NewFdbMacNode_def Fdb_Get_def)
next
  case (Some fmn)
  then have "bridge_table f (SrcMac (frame_ether pkt)) = Some (fmn_pio fmn, fmn_ft fmn)"
    by (simp add: bridge_table_def)
  with Some show ?thesis
    by (auto simp: fwd_learn_def bridge_learn_def IsArpRelpy_frame [OF assms] maybeExpire_def
        bridge_table_update_node Fdb_Get_update_node updateTime_def updatePio_def)
qed

text \<open>
  C1: \<open>Forward\<close> refines the abstract bridge on every well-formed frame and never panics there:
  frames that are neither ARP nor IPv4 and frames caught by the loop guard go nowhere and change
  nothing, every other frame is learnt and goes where the abstract bridge sends it.
\<close>

theorem Forward_refines_bridge:
  assumes "frame_ok pkt"
  defines "e \<equiv> frame_ether pkt"
  shows "\<exists>fwd out g. Forward t pio pkt f = Inr (fwd, out, g)
    \<and> (case (if IsArp e \<or> IsIpPtk e
             then bridge_learn t pio (SrcMac e) (frame_arp_reply pkt) (bridge_table f) else None) of
         None \<Rightarrow> \<not> fwd \<and> out = [] \<and> g = f
       | Some tab \<Rightarrow> bridge_table g = tab
           \<and> out = bridge_out (bridge_ports f) pio (DstMac e) (IsArp e \<and> IsBroadcast e) tab)"
proof (cases "IsArp e \<or> IsIpPtk e")
  case False
  then show ?thesis
    using assms by (auto simp: Forward_def LoadUserData_frame TranEther_frame)
next
  case True
  obtain r where r: "fwd_learn t pio (frame_data pkt) e f = Inr r"
    "map_option bridge_table r =
      bridge_learn t pio (SrcMac e) (frame_arp_reply pkt) (bridge_table f)"
    using fwd_learn_refines [OF assms(1), of t pio f] unfolding e_def by (elim exE conjE)
  show ?thesis
  proof (cases r)
    case None
    with True r assms show ?thesis
      by (auto simp: Forward_def LoadUserData_frame TranEther_frame)
  next
    case (Some g)
    have "fdb_ports g = fdb_ports f"
      using r(1) Some by (intro fwd_learn_ports) simp
    then have "snd (fwd_send pio e g) = bridge_out (bridge_ports f) pio (DstMac e)
        (IsArp e \<and> IsBroadcast e) (bridge_table g)"
      by (auto simp: fwd_send_def flood_eq bridge_out_def bridge_ports_def bridge_table_def
          split: option.splits)
    moreover have "bridge_learn t pio (SrcMac e) (frame_arp_reply pkt) (bridge_table f)
        = Some (bridge_table g)"
      using r(2) Some by simp
    ultimately show ?thesis
      using True r(1) Some assms
      by (auto simp: Forward_def LoadUserData_frame TranEther_frame split: prod.splits)
  qed
qed

section \<open>Concrete frames\<close>

definition frame_of :: "byte list \<Rightarrow> PktBuf" where
  "frame_of bs = zero_PktBuf\<lparr>pb_buf := bs @ replicate (1528 - length bs) 0,
     pb_len := word_of_nat (length bs)\<rparr>"

lemma frame_of_ok: "14 \<le> length bs \<Longrightarrow> length bs \<le> 1528 \<Longrightarrow> frame_ok (frame_of bs)"
  by (simp add: frame_of_def frame_ok_def pb_wf_def pktBufSize_def zero_PktBuf_def unsigned_of_nat
      take_bit_nat_eq_self)

lemma frame_of_byte: "i < length bs \<Longrightarrow> frame_byte (frame_of bs) i = bs ! i"
  by (simp add: frame_of_def frame_byte_def zero_PktBuf_def nth_append)

definition ip_frame :: "mac \<Rightarrow> mac \<Rightarrow> PktBuf" where
  "ip_frame dst src = frame_of (dst @ src @ [8, 0] @ replicate 20 0)"

lemma ip_frame_ok: "length dst = 6 \<Longrightarrow> length src = 6 \<Longrightarrow> frame_ok (ip_frame dst src)"
  unfolding ip_frame_def by (intro frame_of_ok) simp_all

definition two_ports :: "nat FDB" where
  "two_ports = new_FDB\<lparr>fdb_ports := [(1, 10), (2, 20)]\<rparr>"

theorem Forward_split_horizon_witness:
  "10 \<notin> set (fst (snd (projr (Forward 7 10 (ip_frame [1, 2, 3, 4, 5, 6] [7, 8, 9, 10, 11, 12])
     two_ports))))"
proof -
  let ?r = "Forward 7 10 (ip_frame [1, 2, 3, 4, 5, 6] [7, 8, 9, 10, 11, 12]) two_ports"
  have r: "?r = Inr (True, fst (snd (projr ?r)), snd (snd (projr ?r)))" by code_simp
  show ?thesis using Forward_split_horizon [OF r] by simp
qed

theorem Forward_refines_bridge_witness:
  "\<exists>g. Forward 7 10 (ip_frame [1, 2, 3, 4, 5, 6] [7, 8, 9, 10, 11, 12]) two_ports
      = Inr (True, [20], g)
    \<and> bridge_table g = (\<lambda>_. None)([7, 8, 9, 10, 11, 12] \<mapsto> (10, 7))"
proof -
  let ?p = "ip_frame [1, 2, 3, 4, 5, 6] [7, 8, 9, 10, 11, 12]"
  let ?r = "Forward 7 10 ?p two_ports"
  have e: "frame_ether ?p = \<lparr>DstMac = [1, 2, 3, 4, 5, 6], SrcMac = [7, 8, 9, 10, 11, 12],
      EProto = [8, 0]\<rparr>" and ip: "IsIpPtk (frame_ether ?p)"
    and r: "?r = Inr (True, [20], snd (snd (projr ?r)))"
    by code_simp+
  have "bridge_table two_ports = (\<lambda>_. None)"
    by (auto simp: bridge_table_def two_ports_def new_FDB_def Fdb_Get_def)
  then have "bridge_learn 7 10 [7, 8, 9, 10, 11, 12] b (bridge_table two_ports)
      = Some ((\<lambda>_. None)([7, 8, 9, 10, 11, 12] \<mapsto> (10, 7)))" for b
    by (simp add: bridge_learn_def)
  moreover have "frame_ok ?p" by (rule ip_frame_ok) simp_all
  ultimately show ?thesis
    using Forward_refines_bridge [of ?p 7 10 two_ports] r ip by (auto simp: e)
qed

end
