(* ===== verification/Fdb_Bridge.thy ===== *)
theory Fdb_Bridge
  imports Fdb_Forward
begin

text \<open>
  An FDB under the operations of its clients: ports join and leave, joined ports forward frames,
  and the table is swept. The step relation keeps, beside the FDB, the ghost set of the
  identifiers that were allocated with \<open>inc\<close>; a client releases a port with \<open>dec\<close> exactly when it
  joined with \<open>inc\<close>, as \<open>vnet\<close> does (both flags are \<open>!c.isClient\<close>).
\<close>

section \<open>Forwarding preserves the invariant\<close>

lemma update_node_inv:
  assumes inv: "fdb_inv f"
    and g: "\<And>fmn. fmn_mac (g fmn) = fmn_mac fmn"
    and p: "\<And>fmn. fmn_pio (g fmn) = fmn_pio fmn \<or> fmn_pio (g fmn) \<in> snd ` set (fdb_ports f)"
  shows "fdb_inv (update_node m g f)"
proof (cases "Fdb_Get f m")
  case None
  then show ?thesis using inv by (simp add: update_node_def)
next
  case (Some fmn)
  then have mf: "(m, fmn) \<in> set (fdb_mactable f)"
    by (simp add: Fdb_Get_def map_of_SomeD)
  obtain xs where x: "free_list f xs" "set xs \<inter> set (keys (fdb_ports f)) = {}"
    "set xs \<union> set (keys (fdb_ports f)) = port_ids" "map_wf (fdb_ports f)"
    "map_wf (fdb_mactable f)"
    "\<forall>m fmn. (m, fmn) \<in> set (fdb_mactable f) \<longrightarrow>
       fmn_mac fmn = m \<and> fmn_pio fmn \<in> snd ` set (fdb_ports f)"
    using inv by (rule fdb_invD)
  let ?g = "f\<lparr>fdb_mactable := AList.update m (g fmn) (fdb_mactable f)\<rparr>"
  have "fdb_inv ?g"
  proof (rule fdb_invI [of _ xs])
    show "free_list ?g xs" using x(1) by (simp add: free_list_def)
    fix m' fmn' assume "(m', fmn') \<in> set (fdb_mactable ?g)"
    then have "(m', fmn') \<in> set (fdb_mactable f) \<or> m' = m \<and> fmn' = g fmn"
      using set_update_subset [of m "g fmn" "fdb_mactable f"] by auto
    then show "fmn_mac fmn' = m' \<and> fmn_pio fmn' \<in> snd ` set (fdb_ports ?g)"
      using x(6) mf g [of fmn] p [of fmn] by auto
  qed (use x in simp_all)
  then show ?thesis using Some by (simp add: update_node_def)
qed

lemma Fdb_Add_inv:
  assumes inv: "fdb_inv f" and p: "pio \<in> snd ` set (fdb_ports f)"
  shows "\<exists>g. Fdb_Add t m pio f = Inr g \<and> fdb_inv g"
proof -
  obtain xs where x: "free_list f xs" "set xs \<inter> set (keys (fdb_ports f)) = {}"
    "set xs \<union> set (keys (fdb_ports f)) = port_ids" "map_wf (fdb_ports f)"
    "map_wf (fdb_mactable f)"
    "\<forall>m fmn. (m, fmn) \<in> set (fdb_mactable f) \<longrightarrow>
       fmn_mac fmn = m \<and> fmn_pio fmn \<in> snd ` set (fdb_ports f)"
    using inv by (rule fdb_invD)
  let ?g = "f\<lparr>fdb_mactable := AList.update m (NewFdbMacNode t m pio) (fdb_mactable f)\<rparr>"
  have "fdb_inv ?g"
  proof (rule fdb_invI [of _ xs])
    show "free_list ?g xs" using x(1) by (simp add: free_list_def)
    fix m' fmn' assume "(m', fmn') \<in> set (fdb_mactable ?g)"
    then have "(m', fmn') \<in> set (fdb_mactable f) \<or> m' = m \<and> fmn' = NewFdbMacNode t m pio"
      using set_update_subset [of m _ "fdb_mactable f"] by auto
    then show "fmn_mac fmn' = m' \<and> fmn_pio fmn' \<in> snd ` set (fdb_ports ?g)"
      using x(6) p by (elim disjE) (simp_all add: NewFdbMacNode_def)
  qed (use x in simp_all)
  then show ?thesis by (simp add: Fdb_Add_def Fdb_Set_def NewFdbMacNode_def)
qed

lemma update_node_frame [simp]:
  "fdb_ports (update_node m g f) = fdb_ports f"
  "fdb_allocNum (update_node m g f) = fdb_allocNum f"
  by (simp_all add: update_node_def split: option.split)

lemma fwd_learn_inv:
  assumes "fwd_learn t pio data e f = Inr (Some g)" and "fdb_inv f"
    and "pio \<in> snd ` set (fdb_ports f)"
  shows "fdb_inv g"
proof (cases "Fdb_Get f (SrcMac e)")
  case None
  then show ?thesis
    using assms Fdb_Add_inv [OF assms(2,3), of t "SrcMac e"]
    by (auto simp: fwd_learn_def bind_res_eq_Inr)
next
  case (Some fmn)
  have "fdb_inv (update_node (SrcMac e) (updatePio pio) f)"
    using assms(2,3) by (intro update_node_inv) (simp_all add: updatePio_def)
  then have "fdb_inv (update_node (SrcMac e) (updateTime t)
      (update_node (SrcMac e) (updatePio pio) f))"
    by (rule update_node_inv) (simp_all add: updateTime_def)
  moreover have "fdb_inv (update_node (SrcMac e) (updateTime t) f)"
    using assms(2) by (rule update_node_inv) (simp_all add: updateTime_def)
  ultimately show ?thesis
    using assms(1) Some by (auto simp: fwd_learn_def bind_res_eq_Inr split: if_splits)
qed

lemma fwd_learn_allocNum:
  "fwd_learn t pio data e f = Inr (Some g) \<Longrightarrow> fdb_allocNum g = fdb_allocNum f"
  by (auto simp: fwd_learn_def Fdb_Add_def Fdb_Set_def bind_res_eq_Inr
      split: option.splits if_splits)

lemma Forward_frame:
  assumes "Forward t pio pkt f = Inr (fwd, out, g)"
  shows "fdb_ports g = fdb_ports f" and "fdb_allocNum g = fdb_allocNum f"
    and "fdb_inv f \<Longrightarrow> pio \<in> snd ` set (fdb_ports f) \<Longrightarrow> fdb_inv g"
  using assms by (rule Forward_cases;
      auto dest: fwd_learn_ports fwd_learn_allocNum intro: fwd_learn_inv)+

lemma fwd_send_targets:
  assumes "fwd_send pio e g = (fwd, out)" and "fdb_inv g" and "q \<in> set out"
  shows "q \<in> snd ` set (fdb_ports g)"
  using assms by (auto simp: fwd_send_def flood_eq fdb_inv_def Fdb_Get_def image_iff
      dest!: map_of_SomeD split: if_splits option.splits; fastforce)

lemma Forward_targets:
  assumes "Forward t pio pkt f = Inr (fwd, out, g)" and "fdb_inv f"
    and "pio \<in> snd ` set (fdb_ports f)" and "q \<in> set out"
  shows "q \<in> snd ` set (fdb_ports f)"
  using assms(1)
proof (cases rule: Forward_cases)
  case dropped
  then show ?thesis using assms(4) by simp
next
  case (sent data e)
  then show ?thesis
    using fwd_learn_inv [OF sent(3) assms(2,3)] fwd_learn_ports [OF sent(3)]
      fwd_send_targets [OF sent(4) _ assms(4)] by simp
qed

lemma fdb_sweep_frame:
  "\<exists>t. fdb_sweep k f = f\<lparr>fdb_mactable := t\<rparr> \<and> set t \<subseteq> set (fdb_mactable f)
    \<and> (map_wf (fdb_mactable f) \<longrightarrow> map_wf t)"
proof (cases "length (fdb_mactable f) > 128")
  case True
  then show ?thesis
    by (simp add: fdb_sweep_def FdbMacTable_def
        fold_Fdb_Del [where P = "\<lambda>_ fmn. k - fmn_ft fmn > ExpireTime"])
      (intro exI conjI, rule refl, rule delete_where_subset, rule impI, erule delete_where_wf)
next
  case False
  then show ?thesis
    by (intro exI [of _ "fdb_mactable f"]) (simp add: fdb_sweep_def FdbMacTable_def)
qed

lemma fdb_sweep_inv:
  assumes "fdb_inv f"
  shows "fdb_inv (fdb_sweep k f)" and "fdb_ports (fdb_sweep k f) = fdb_ports f"
    and "fdb_allocNum (fdb_sweep k f) = fdb_allocNum f"
proof -
  obtain t where t: "fdb_sweep k f = f\<lparr>fdb_mactable := t\<rparr>"
    "set t \<subseteq> set (fdb_mactable f)" "map_wf (fdb_mactable f) \<longrightarrow> map_wf t"
    using fdb_sweep_frame [of k f] by blast
  then show "fdb_ports (fdb_sweep k f) = fdb_ports f"
    "fdb_allocNum (fdb_sweep k f) = fdb_allocNum f" by simp_all
  show "fdb_inv (fdb_sweep k f)"
    using assms t by (auto simp: fdb_inv_def free_list_def)
qed

section \<open>The step relation\<close>

type_synonym 'p bridge_state = "'p FDB \<times> int set"

inductive fdb_step :: "'p bridge_state \<Rightarrow> 'p bridge_state \<Rightarrow> bool" where
  join: "JoinFwdPort pio inc f = Inr (x, g)
    \<Longrightarrow> fdb_step (f, J) (g, if inc \<and> x \<noteq> 0 then insert x J else J)"
| release: "ReleaseFwdPort x (x \<in> J) f = Inr g \<Longrightarrow> fdb_step (f, J) (g, J - {x})"
| forward: "Forward t pio pkt f = Inr (fwd, out, g) \<Longrightarrow> pio \<in> snd ` set (fdb_ports f)
    \<Longrightarrow> fdb_step (f, J) (g, J)"
| sweep: "fdb_step (f, J) (fdb_sweep t f, J)"

inductive fdb_reachable :: "'p bridge_state \<Rightarrow> bool" where
  init: "initPortPool new_FDB = Inr f \<Longrightarrow> fdb_reachable (initPortMap f, {})"
| step: "fdb_reachable s \<Longrightarrow> fdb_step s s' \<Longrightarrow> fdb_reachable s'"

inductive_cases fdb_stepE: "fdb_step (f, J) s"

definition fdb_ok :: "'p bridge_state \<Rightarrow> bool" where
  "fdb_ok s \<longleftrightarrow> (case s of (f, J) \<Rightarrow>
     fdb_inv f \<and> J \<subseteq> fst ` set (fdb_ports f) \<and> fdb_allocNum f = int (card J))"

lemma fdb_inv_port_ids: "fdb_inv f \<Longrightarrow> fst ` set (fdb_ports f) \<subseteq> port_ids"
  by (auto simp: fdb_inv_def)

lemma fdb_ok_card:
  assumes "fdb_ok (f, J)"
  shows "finite J" and "card J \<le> 127" and "J \<subseteq> port_ids"
proof -
  show sub: "J \<subseteq> port_ids"
    using assms fdb_inv_port_ids [of f] by (auto simp: fdb_ok_def)
  then show "finite J" by (rule finite_subset) (rule pids.finite_ids)
  have "card J \<le> card port_ids" using sub by (rule card_mono [OF pids.finite_ids])
  then show "card J \<le> 127" by (simp add: port_ids_def MAXPORT_def)
qed

lemma fdb_ok_init:
  fixes f :: "'a FDB"
  assumes "initPortPool new_FDB = Inr f"
  shows "fdb_ok (initPortMap f, {})"
proof -
  obtain p where p: "f = new_FDB\<lparr>fdb_portIdPool := p\<rparr>" "free_list f (rev [1..127])"
    using initPortPool_new [where ?'p = 'a] assms by auto
  have "fdb_inv (initPortMap f)"
  proof (rule fdb_invI [of _ "rev [1..127]"])
    show "free_list (initPortMap f) (rev [1..127])"
      using p(2) by (simp add: free_list_def initPortMap_def)
    show "set (rev [1..127]) \<union> set (keys (fdb_ports (initPortMap f))) = port_ids"
      by (auto simp: initPortMap_def port_ids_iff)
  qed (simp_all add: p(1) initPortMap_def new_FDB_def)
  then show ?thesis using p(1) by (simp add: fdb_ok_def initPortMap_def new_FDB_def)
qed

lemma fdb_ok_join:
  assumes ok: "fdb_ok (f, J)" and j: "JoinFwdPort pio inc f = Inr (x, g)"
  shows "fdb_ok (g, if inc \<and> x \<noteq> 0 then insert x J else J)"
proof -
  have inv: "fdb_inv f" and sub: "J \<subseteq> fst ` set (fdb_ports f)"
    and num: "fdb_allocNum f = int (card J)"
    using ok by (simp_all add: fdb_ok_def)
  show ?thesis
  proof (rule JoinFwdPort_cases [OF inv, of pio inc], goal_cases full joined)
    case full
    then show ?thesis using j ok by simp
  next
    case joined: (joined y h)
    then have eq: "y = x" "h = g" using j by simp_all
    have x0: "x \<noteq> 0" using joined(2) eq by (auto simp: port_ids_iff)
    have new: "x \<notin> J" using joined(3) sub eq by auto
    have "fdb_ports g = fdb_ports f @ [(x, pio)]"
      using joined(3,5) eq by (simp add: update_new)
    moreover have "wrap_i32 (int (card J) + 1) = int (card J) + 1"
      using fdb_ok_card [OF ok] by (intro wrap_i32_id) simp_all
    ultimately show ?thesis
      using joined(4,7) eq sub num new x0 fdb_ok_card(1) [OF ok] by (auto simp: fdb_ok_def)
  qed
qed

lemma fdb_ok_release:
  assumes ok: "fdb_ok (f, J)" and x: "map_of (fdb_ports f) x = Some pio"
  obtains g where "ReleaseFwdPort x (x \<in> J) f = Inr g" "fdb_ok (g, J - {x})"
    "fdb_ports g = AList.delete x (fdb_ports f)"
    "\<forall>m. Fdb_Get g m = (case Fdb_Get f m of
       Some fmn \<Rightarrow> if fmn_pio fmn = pio then None else Some fmn | None \<Rightarrow> None)"
proof -
  have inv: "fdb_inv f" and sub: "J \<subseteq> fst ` set (fdb_ports f)"
    and num: "fdb_allocNum f = int (card J)"
    using ok by (simp_all add: fdb_ok_def)
  note fin = fdb_ok_card [OF ok]
  have "0 < fdb_allocNum f \<and> fdb_allocNum f < 2147483648" if "x \<in> J"
    using that num fin by (simp add: card_gt_0_iff) auto
  then obtain g where g: "ReleaseFwdPort x (x \<in> J) f = Inr g" "fdb_inv g"
    "fdb_ports g = AList.delete x (fdb_ports f)"
    "\<forall>m. Fdb_Get g m = (case Fdb_Get f m of
       Some fmn \<Rightarrow> if fmn_pio fmn = pio then None else Some fmn | None \<Rightarrow> None)"
    "fdb_allocNum g = (if x \<in> J then fdb_allocNum f - 1 else fdb_allocNum f)"
    by (rule ReleaseFwdPort_joined [OF inv x])
  have "int (card (J - {x})) = (if x \<in> J then int (card J) - 1 else int (card J))"
  proof (cases "x \<in> J")
    case True
    then have "card J = Suc (card (J - {x}))" by (rule card.remove [OF fin(1)])
    then show ?thesis using True by simp
  qed simp
  then have "fdb_allocNum g = int (card (J - {x}))"
    using g(5) num by (simp del: card_Diff_insert)
  moreover have "J - {x} \<subseteq> fst ` set (fdb_ports g)"
    using g(3) sub by auto
  ultimately have "fdb_ok (g, J - {x})"
    using g(2) by (simp add: fdb_ok_def)
  then show thesis using that g by blast
qed

lemma fdb_ok_step: "fdb_step (f, J) s \<Longrightarrow> fdb_ok (f, J) \<Longrightarrow> fdb_ok s"
proof (erule fdb_stepE, goal_cases)
  case (1 pio inc x g)
  then show ?case using fdb_ok_join [OF 1(1,3)] by simp
next
  case (2 x g)
  show ?case
  proof (cases "map_of (fdb_ports f) x")
    case None
    then have "x \<notin> J" using 2(1) by (auto simp: fdb_ok_def map_of_eq_None_iff)
    then show ?thesis using 2 None by (simp add: ReleaseFwdPort_absent)
  next
    case (Some pio)
    then show ?thesis using fdb_ok_release [OF 2(1) Some] 2 by auto
  qed
next
  case (3 t pio pkt fwd out g)
  then show ?case using Forward_frame [OF 3(3)] by (simp add: fdb_ok_def)
next
  case (4 t)
  then show ?case by (simp add: fdb_ok_def fdb_sweep_inv)
qed

lemma fdb_reachable_ok: "fdb_reachable s \<Longrightarrow> fdb_ok s"
proof (induction rule: fdb_reachable.induct)
  case (init f)
  then show ?case by (rule fdb_ok_init)
next
  case (step s s')
  then show ?case using fdb_ok_step [of "fst s" "snd s" s'] by simp
qed

lemma fdb_reachableD:
  assumes "fdb_reachable (f, J)"
  shows "fdb_inv f" and "J \<subseteq> fst ` set (fdb_ports f)" and "fdb_allocNum f = int (card J)"
  using fdb_reachable_ok [OF assms] by (simp_all add: fdb_ok_def)

section \<open>Concrete states\<close>

definition bridge :: "(int \<times> nat) list \<Rightarrow> int \<Rightarrow> nat FDB" where
  "bridge ports next = \<lparr>fdb_mactable = [], fdb_portIdPool = next # [0..126],
     fdb_allocNum = int (length ports), fdb_ports = ports\<rparr>"

definition bridge3 :: "nat FDB" where
  "bridge3 = bridge [(127, 10), (126, 20), (125, 30)] 124"

lemma bridge3_ports: "fdb_ports bridge3 = [(127, 10), (126, 20), (125, 30)]"
  by (simp add: bridge3_def bridge_def)

lemma bridge_init: "initPortPool new_FDB = Inr (bridge [] 127)"
  by code_simp

lemma bridge_join:
  "JoinFwdPort 10 True (bridge [] 127) = Inr (127, bridge [(127, 10)] 126)"
  "JoinFwdPort 20 True (bridge [(127, 10)] 126) = Inr (126, bridge [(127, 10), (126, 20)] 125)"
  "JoinFwdPort 30 True (bridge [(127, 10), (126, 20)] 125) = Inr (125, bridge3)"
  by code_simp+

lemma bridge3_reachable: "fdb_reachable (bridge3, {125, 126, 127})"
proof -
  have "initPortMap (bridge [] 127) = bridge [] 127"
    by (simp add: initPortMap_def bridge_def)
  then have "fdb_reachable (bridge [] 127, {})"
    using fdb_reachable.init [OF bridge_init] by simp
  then show ?thesis
    using fdb_reachable.step [OF _ fdb_step.join [OF bridge_join(1)]]
      fdb_reachable.step [OF _ fdb_step.join [OF bridge_join(2)]]
      fdb_reachable.step [OF _ fdb_step.join [OF bridge_join(3)]] by simp
qed

section \<open>Safety of the reachable states\<close>

text \<open>
  C2: in every reachable state of a bridge the ports hold pairwise different identifiers between
  1 and 127, the counter is the number of the ports joined with \<open>inc\<close>, every learnt address
  points to a joined port, and neither joining nor leaving panics.
\<close>

theorem fdb_reachable_safe:
  assumes "fdb_reachable (f, J)"
  shows "distinct (keys (fdb_ports f)) \<and> fst ` set (fdb_ports f) \<subseteq> {1..127}
    \<and> fdb_allocNum f = int (card J)
    \<and> (Fdb_Get f m = Some fmn \<longrightarrow> fmn_mac fmn = m \<and> fmn_pio fmn \<in> snd ` set (fdb_ports f))
    \<and> \<not> isl (JoinFwdPort pio inc f) \<and> \<not> isl (ReleaseFwdPort x (x \<in> J) f)"
proof -
  note inv = fdb_reachableD(1) [OF assms]
  have "fst ` set (fdb_ports f) \<subseteq> {1..127}"
    using fdb_inv_port_ids [OF inv] by (auto simp: port_ids_iff)
  moreover have "\<not> isl (JoinFwdPort pio inc f)"
    by (rule JoinFwdPort_cases [OF inv, of pio inc]) simp_all
  moreover have "\<not> isl (ReleaseFwdPort x (x \<in> J) f)"
  proof (cases "map_of (fdb_ports f) x")
    case (Some p)
    show ?thesis by (rule fdb_ok_release [OF fdb_reachable_ok [OF assms] Some]) simp
  qed (simp add: ReleaseFwdPort_absent)
  moreover have "Fdb_Get f m = Some fmn \<longrightarrow>
      fmn_mac fmn = m \<and> fmn_pio fmn \<in> snd ` set (fdb_ports f)"
    using inv by (auto simp: fdb_inv_def Fdb_Get_def dest: map_of_SomeD)
  ultimately show ?thesis
    using inv fdb_reachableD(3) [OF assms] by (auto simp: fdb_inv_def)
qed

theorem fdb_reachable_safe_witness:
  "distinct (keys (fdb_ports bridge3)) \<and> fdb_allocNum bridge3 = 3
    \<and> \<not> isl (JoinFwdPort 40 False bridge3) \<and> \<not> isl (ReleaseFwdPort 126 True bridge3)"
  using fdb_reachable_safe [OF bridge3_reachable, of "[]" undefined 40 False 126] by simp

text \<open>
  C5: joining a bridge takes a fresh non-zero identifier and adds the port under it, leaving the
  learnt addresses alone; it returns 0 and changes nothing exactly when all 127 are taken.
\<close>

theorem JoinFwdPort_contract:
  assumes "fdb_reachable (f, J)" and "JoinFwdPort pio inc f = Inr (x, g)"
  shows "if x = 0 then fst ` set (fdb_ports f) = {1..127} \<and> g = f
    else x \<in> {1..127} - fst ` set (fdb_ports f) \<and> fdb_ports g = fdb_ports f @ [(x, pio)]
      \<and> fdb_mactable g = fdb_mactable f
      \<and> getPortNum g = getPortNum f + (if inc then 1 else 0)"
proof (rule JoinFwdPort_cases [OF fdb_reachableD(1) [OF assms(1)], of pio inc],
    goal_cases full joined)
  case full
  then show ?case using assms(2) by (auto simp: port_ids_iff)
next
  case joined: (joined y h)
  then have eq: "y = x" "h = g" using assms(2) by simp_all
  have "wrap_i32 (int (card J) + 1) = int (card J) + 1"
    using fdb_ok_card [OF fdb_reachable_ok [OF assms(1)]] by (intro wrap_i32_id) simp_all
  then have "getPortNum g = getPortNum f + (if inc then 1 else 0)"
    using joined(7) eq fdb_reachableD(3) [OF assms(1)] by (simp add: getPortNum_def)
  moreover have "fdb_ports g = fdb_ports f @ [(x, pio)]"
    using joined(3,5) eq by (simp add: update_new)
  ultimately show ?case
    using joined(2,3,6) eq by (auto simp: port_ids_iff)
qed

theorem JoinFwdPort_contract_witness:
  "\<exists>g. JoinFwdPort 40 False bridge3 = Inr (124, g)
    \<and> fdb_ports g = fdb_ports bridge3 @ [(124, 40)] \<and> getPortNum g = 3"
proof (intro exI conjI)
  show j: "JoinFwdPort 40 False bridge3 = Inr (124, snd (projr (JoinFwdPort 40 False bridge3)))"
    by code_simp
  have "getPortNum bridge3 = 3" by code_simp
  then show "fdb_ports (snd (projr (JoinFwdPort 40 False bridge3))) =
      fdb_ports bridge3 @ [(124, 40)]"
    "getPortNum (snd (projr (JoinFwdPort 40 False bridge3))) = 3"
    using JoinFwdPort_contract [OF bridge3_reachable j] by simp_all
qed

text \<open>
  C4: releasing a joined port never panics and leads to a reachable state again: it forgets
  exactly the addresses learnt on that port, keeps the other ports, and counts the port down
  when it was counted.
\<close>

theorem ReleaseFwdPort_contract:
  assumes "fdb_reachable (f, J)" and "getPortMap f x = Some pio"
  shows "\<exists>g. ReleaseFwdPort x (x \<in> J) f = Inr g \<and> fdb_reachable (g, J - {x})
    \<and> fdb_ports g = AList.delete x (fdb_ports f)
    \<and> (\<forall>m. Fdb_Get g m = (case Fdb_Get f m of
         Some fmn \<Rightarrow> if fmn_pio fmn = pio then None else Some fmn | None \<Rightarrow> None))
    \<and> getPortNum g = getPortNum f - (if x \<in> J then 1 else 0)"
proof -
  obtain g where g: "ReleaseFwdPort x (x \<in> J) f = Inr g" "fdb_ok (g, J - {x})"
    "fdb_ports g = AList.delete x (fdb_ports f)"
    "\<forall>m. Fdb_Get g m = (case Fdb_Get f m of
       Some fmn \<Rightarrow> if fmn_pio fmn = pio then None else Some fmn | None \<Rightarrow> None)"
    using assms(2) unfolding getPortMap_def
    by (rule fdb_ok_release [OF fdb_reachable_ok [OF assms(1)]])
  have "int (card J) = int (card (J - {x})) + (if x \<in> J then 1 else 0)"
    using card.remove [OF fdb_ok_card(1) [OF fdb_reachable_ok [OF assms(1)]], of x]
    by (cases "x \<in> J") simp_all
  then have "getPortNum g = getPortNum f - (if x \<in> J then 1 else 0)"
    using g(2) fdb_reachableD(3) [OF assms(1)]
    by (simp add: getPortNum_def fdb_ok_def del: card_Diff_insert)
  moreover have "fdb_reachable (g, J - {x})"
    by (rule fdb_reachable.step [OF assms(1) fdb_step.release [OF g(1)]])
  ultimately show ?thesis using g by blast
qed

theorem ReleaseFwdPort_contract_witness:
  "\<exists>g. ReleaseFwdPort 126 True bridge3 = Inr g \<and> fdb_ports g = [(127, 10), (125, 30)]
    \<and> getPortNum g = 2"
proof -
  have "getPortMap bridge3 126 = Some 20" and n: "getPortNum bridge3 = 3" by code_simp+
  from ReleaseFwdPort_contract [OF bridge3_reachable this(1)]
  obtain g where "ReleaseFwdPort 126 True bridge3 = Inr g"
    "fdb_ports g = AList.delete 126 (fdb_ports bridge3)" "getPortNum g = getPortNum bridge3 - 1"
    by auto
  then show ?thesis using n by (simp add: bridge3_ports)
qed

section \<open>Forwarding in the reachable states\<close>

text \<open>
  a joined port's frame goes only to joined ports: a port that left the bridge (or never
  joined it) receives no frame, whatever the table once held.
\<close>

theorem Forward_to_joined_ports:
  assumes "fdb_reachable (f, J)" and "pio \<in> snd ` set (fdb_ports f)"
    and "Forward t pio pkt f = Inr (fwd, out, g)"
  shows "set out \<subseteq> snd ` set (fdb_ports f) - {pio} \<and> fdb_reachable (g, J)"
proof -
  have "fdb_reachable (g, J)"
    by (rule fdb_reachable.step [OF assms(1) fdb_step.forward [OF assms(3,2)]])
  moreover have "pio \<notin> set out"
    using assms(3) by (rule Forward_cases) (auto dest: fwd_send_horizon)
  ultimately show ?thesis
    using Forward_targets [OF assms(3) fdb_reachableD(1) [OF assms(1)] assms(2)] by blast
qed

theorem Forward_to_joined_ports_witness:
  "\<exists>g. Forward 7 10 (ip_frame [1, 2, 3, 4, 5, 6] [7, 8, 9, 10, 11, 12]) bridge3
      = Inr (True, [20, 30], g) \<and> fdb_reachable (g, {125, 126, 127})"
proof -
  let ?r = "Forward 7 10 (ip_frame [1, 2, 3, 4, 5, 6] [7, 8, 9, 10, 11, 12]) bridge3"
  have r: "?r = Inr (True, [20, 30], snd (snd (projr ?r)))"
    by code_simp
  have "10 \<in> snd ` set (fdb_ports bridge3)" by (simp add: bridge3_ports)
  from Forward_to_joined_ports [OF bridge3_reachable this r] r show ?thesis by blast
qed

lemma fwd_learn_learns:
  assumes "fwd_learn t pio data e f = Inr (Some g)"
  shows "\<exists>fmn. Fdb_Get g (SrcMac e) = Some fmn \<and> fmn_pio fmn = pio"
    and "m \<noteq> SrcMac e \<Longrightarrow> Fdb_Get g m = Fdb_Get f m"
  using assms
  by (auto simp: fwd_learn_def Fdb_Add_def Fdb_Set_def bind_res_eq_Inr Fdb_Get_def
      update_node_def NewFdbMacNode_def updateTime_def updatePio_def
      split: option.splits if_splits)

lemma Forward_sent:
  assumes "frame_ok pkt" and "Forward t p pkt f = Inr (True, out, g)"
  shows "fwd_learn t p (frame_data pkt) (frame_ether pkt) f = Inr (Some g)
    \<and> fwd_send p (frame_ether pkt) g = (True, out)"
  using assms(2) LoadUserData_frame [OF assms(1)] TranEther_frame [OF assms(1)]
  by (elim Forward_cases) auto

text \<open>
  C3: learning: once the bridge has forwarded a frame with source \<open>m\<close> that came in on port
  \<open>p\<close>, a unicast frame to \<open>m\<close> from another port and another source goes to \<open>p\<close> and to no
  other port.
\<close>

theorem Forward_learns:
  assumes "frame_ok pkt" and "Forward t p pkt f = Inr (True, out, g)"
    and "frame_ok pkt'" and "Forward t' q pkt' g = Inr (True, out', h)" and "q \<noteq> p"
    and "DstMac (frame_ether pkt') = SrcMac (frame_ether pkt)"
    and "SrcMac (frame_ether pkt') \<noteq> SrcMac (frame_ether pkt)"
    and "\<not> (IsArp (frame_ether pkt') \<and> IsBroadcast (frame_ether pkt'))"
  shows "out' = [p]"
proof -
  have "fwd_learn t p (frame_data pkt) (frame_ether pkt) f = Inr (Some g)"
    using Forward_sent [OF assms(1,2)] ..
  then obtain fmn where "Fdb_Get g (SrcMac (frame_ether pkt)) = Some fmn" "fmn_pio fmn = p"
    by (auto dest: fwd_learn_learns(1))
  moreover have "fwd_learn t' q (frame_data pkt') (frame_ether pkt') g = Inr (Some h)
      \<and> fwd_send q (frame_ether pkt') h = (True, out')"
    by (rule Forward_sent [OF assms(3,4)])
  moreover from this have "Fdb_Get h (SrcMac (frame_ether pkt)) =
      Fdb_Get g (SrcMac (frame_ether pkt))"
    using assms(7) by (metis fwd_learn_learns(2))
  ultimately show ?thesis
    using assms(5,6,8) by (auto simp: fwd_send_def split: if_splits)
qed

theorem Forward_learns_witness:
  "let f1 = ip_frame [1, 2, 3, 4, 5, 6] [7, 8, 9, 10, 11, 12];
       f2 = ip_frame [7, 8, 9, 10, 11, 12] [1, 2, 3, 4, 5, 6];
       g = snd (snd (projr (Forward 7 10 f1 bridge3)))
   in fst (snd (projr (Forward 8 30 f2 g))) = [10]"
proof -
  let ?f1 = "ip_frame [1, 2, 3, 4, 5, 6] [7, 8, 9, 10, 11, 12]"
  let ?f2 = "ip_frame [7, 8, 9, 10, 11, 12] [1, 2, 3, 4, 5, 6]"
  let ?r1 = "Forward 7 10 ?f1 bridge3"
  let ?g = "snd (snd (projr ?r1))"
  let ?r2 = "Forward 8 30 ?f2 ?g"
  have r1: "?r1 = Inr (True, fst (snd (projr ?r1)), ?g)" by code_simp
  have r2: "?r2 = Inr (True, fst (snd (projr ?r2)), snd (snd (projr ?r2)))" by code_simp
  have "fst (snd (projr ?r2)) = [10]"
    by (rule Forward_learns [OF ip_frame_ok r1 ip_frame_ok r2]; code_simp)
  then show ?thesis by (simp only: Let_def)
qed

end
