(* ===== verification/Fdb_Registry.thy ===== *)
theory Fdb_Registry
  imports Fdb_Bridge
begin

text \<open>
  Package \<open>fdb\<close>, the registry \<open>FdbMap\<close> of \<open>fdb.go\<close>, the ticker \<open>fdbtick\<close> and the
  report \<open>ShowClientMac\<close>. An \<open>*FDB\<close> is an address of the heap \<open>fw_heap\<close>: an FDB that was
  deleted from the registry stays reachable for the clients that hold its pointer. The order of
  the association lists stands for Go's order of iteration over a map, which no result depends on.
\<close>

record 'p fdb_world =
  fw_ids :: "(int \<times> nat) list"
  fw_heap :: "'p FDB list"
  fw_tick :: u64

definition fdb_at :: "'p fdb_world \<Rightarrow> nat \<Rightarrow> 'p FDB" where
  "fdb_at w a = fw_heap w ! a"

definition set_fdb :: "nat \<Rightarrow> 'p FDB \<Rightarrow> 'p fdb_world \<Rightarrow> 'p fdb_world" where
  "set_fdb a f w = w\<lparr>fw_heap := (fw_heap w)[a := f]\<rparr>"

text \<open>The state after \<open>init\<close>.\<close>

definition init_world :: "'p fdb_world" where
  "init_world = \<lparr>fw_ids = [], fw_heap = [], fw_tick = 0\<rparr>"

definition NewFdb :: "int \<Rightarrow> 'p fdb_world \<Rightarrow> (nat \<times> 'p fdb_world) res" where
  "NewFdb fdbId w =
     (case map_of (fw_ids w) fdbId of
        Some a \<Rightarrow> Inr (a, w)
      | None \<Rightarrow> bind_res (initPortPool new_FDB) (\<lambda>f.
          let f = initPortMap f; a = length (fw_heap w)
          in Inr (a, w\<lparr>fw_heap := fw_heap w @ [f], fw_ids := AList.update fdbId a (fw_ids w)\<rparr>)))"

definition GetFdbById :: "'p fdb_world \<Rightarrow> int \<Rightarrow> nat option" where
  "GetFdbById w fdbId = map_of (fw_ids w) fdbId"

definition GetFdbIds :: "'p fdb_world \<Rightarrow> int list" where
  "GetFdbIds w = fold (\<lambda>(id, _) ids. ids @ [id]) (fw_ids w) []"

definition DelFdbById :: "int \<Rightarrow> 'p fdb_world \<Rightarrow> 'p fdb_world" where
  "DelFdbById fdbId w = w\<lparr>fw_ids := AList.delete fdbId (fw_ids w)\<rparr>"

definition TryToDelFdbById :: "int \<Rightarrow> 'p fdb_world \<Rightarrow> 'p fdb_world" where
  "TryToDelFdbById fdbId w =
     (case GetFdbById w fdbId of
        None \<Rightarrow> w
      | Some a \<Rightarrow> if getPortNum (fdb_at w a) = 0 then DelFdbById fdbId w else w)"

text \<open>One beat of the ticker.\<close>

definition fdbtick :: "'p fdb_world \<Rightarrow> 'p fdb_world" where
  "fdbtick w =
     (let w = w\<lparr>fw_tick := fw_tick w + 1\<rparr>
      in if fw_tick w AND 63 = 0
         then fold (\<lambda>(_, a) w. set_fdb a (fdb_sweep (fw_tick w) (fdb_at w a)) w) (fw_ids w) w
         else w)"

text \<open>The report, with \<open>String()\<close> of the ports as the argument \<open>pio_String\<close>.\<close>

definition ShowClientMac ::
  "('p \<Rightarrow> string) \<Rightarrow> 'p fdb_world \<Rightarrow> (int \<times> (int \<times> string list) list) list" where
  "ShowClientMac pio_String w =
     map (\<lambda>(fdbId, a). (fdbId,
       map (\<lambda>(portId, pio). (portId,
         fold (\<lambda>(m, fmn) out. if fmn_pio fmn = pio then out @ [MAC_String m] else out)
           (fdb_mactable (fdb_at w a)) [pio_String pio]))
         (fdb_ports (fdb_at w a)))) (fw_ids w)"

section \<open>The registry\<close>

text \<open>
  Well-formed worlds: the identifiers are a map into the heap, two identifiers never share an
  FDB, and every FDB satisfies its invariant.
\<close>

definition world_ok :: "'p fdb_world \<Rightarrow> bool" where
  "world_ok w \<longleftrightarrow> map_wf (fw_ids w) \<and> distinct (map snd (fw_ids w))
     \<and> (\<forall>a \<in> snd ` set (fw_ids w). a < length (fw_heap w))
     \<and> (\<forall>f \<in> set (fw_heap w). fdb_inv f)"

lemma world_ok_init: "world_ok init_world"
  by (simp add: world_ok_def init_world_def)

lemma GetFdbIds_eq: "GetFdbIds w = keys (fw_ids w)"
proof -
  have "fold (\<lambda>(id, _) ids. ids @ [id]) xs acc = acc @ map fst xs"
    for xs :: "(int \<times> nat) list" and acc
    by (induction xs arbitrary: acc) auto
  then show ?thesis by (simp add: GetFdbIds_def)
qed

text \<open>The FDB that \<open>NewFdb\<close> creates.\<close>

definition fresh_FDB :: "'p FDB" where
  "fresh_FDB = initPortMap (projr (initPortPool new_FDB))"

lemma initPortPool_new_eq:
  "initPortPool (new_FDB :: 'p FDB) = Inr (projr (initPortPool new_FDB))"
  using initPortPool_new [where ?'p = 'p] by auto

lemma fresh_FDB_ok:
  "fdb_ok (fresh_FDB :: 'a FDB, {})" "fdb_mactable (fresh_FDB :: 'a FDB) = []"
  "fdb_ports (fresh_FDB :: 'a FDB) = []"
proof -
  show "fdb_ok (fresh_FDB :: 'a FDB, {})"
    unfolding fresh_FDB_def by (rule fdb_ok_init) (rule initPortPool_new_eq)
  show "fdb_ports (fresh_FDB :: 'a FDB) = []" by (simp add: fresh_FDB_def initPortMap_def)
  show "fdb_mactable (fresh_FDB :: 'a FDB) = []"
    using initPortPool_new [where ?'p = 'a]
    by (auto simp: fresh_FDB_def initPortMap_def new_FDB_def)
qed

lemma NewFdb_known:
  "GetFdbById w i = Some a \<Longrightarrow> NewFdb i w = Inr (a, w)"
  by (simp add: NewFdb_def GetFdbById_def)

lemma NewFdb_new:
  fixes w :: "'a fdb_world"
  assumes "GetFdbById w i = None"
  shows "NewFdb i w = Inr (length (fw_heap w), w\<lparr>fw_heap := fw_heap w @ [fresh_FDB],
    fw_ids := fw_ids w @ [(i, length (fw_heap w))]\<rparr>)"
proof -
  have "i \<notin> set (keys (fw_ids w))"
    using assms by (simp add: GetFdbById_def map_of_eq_None_iff)
  then have "AList.update i (length (fw_heap w)) (fw_ids w) =
      fw_ids w @ [(i, length (fw_heap w))]"
    by (intro update_new) simp
  moreover obtain f :: "'a FDB" where "initPortPool new_FDB = Inr f" "fresh_FDB = initPortMap f"
    using initPortPool_new_eq by (auto simp: fresh_FDB_def)
  ultimately show ?thesis
    using assms by (simp add: NewFdb_def GetFdbById_def Let_def)
qed

lemma NewFdb_cases:
  assumes "world_ok w"
  obtains (known) a where "NewFdb i w = Inr (a, w)" "GetFdbById w i = Some a"
      "a < length (fw_heap w)"
  | (new) w' where "NewFdb i w = Inr (length (fw_heap w), w')" "GetFdbById w i = None"
      "fw_heap w' = fw_heap w @ [fresh_FDB]" "fw_ids w' = fw_ids w @ [(i, length (fw_heap w))]"
      "fw_tick w' = fw_tick w" "world_ok w'"
proof (cases "GetFdbById w i")
  case None
  let ?w' = "w\<lparr>fw_heap := fw_heap w @ [fresh_FDB],
    fw_ids := fw_ids w @ [(i, length (fw_heap w))]\<rparr>"
  have "i \<notin> fst ` set (fw_ids w)"
    using None by (simp add: GetFdbById_def map_of_eq_None_iff)
  moreover have "fdb_inv (fresh_FDB :: 'a FDB)"
    using fresh_FDB_ok(1) [where ?'a = 'a] by (simp add: fdb_ok_def)
  ultimately have "world_ok ?w'"
    using assms by (auto simp: world_ok_def less_Suc_eq)
  then show thesis by (intro new [OF NewFdb_new [OF None] None]) simp_all
next
  case (Some a)
  then have "a < length (fw_heap w)"
    using assms by (auto simp: world_ok_def GetFdbById_def dest!: map_of_SomeD)
  then show thesis using known NewFdb_known [OF Some] Some by simp
qed

lemma delete_distinct_snd:
  "distinct (map snd m) \<Longrightarrow> distinct (map snd (AList.delete k m))"
  by (auto simp: AList.delete_eq distinct_map intro: inj_on_subset)

lemma DelFdbById_ok: "world_ok w \<Longrightarrow> world_ok (DelFdbById i w)"
  by (auto simp: world_ok_def DelFdbById_def set_delete_iff delete_distinct_snd)

lemma TryToDelFdbById_ok: "world_ok w \<Longrightarrow> world_ok (TryToDelFdbById i w)"
  by (simp add: TryToDelFdbById_def DelFdbById_ok split: option.split)

section \<open>The ticker\<close>

lemma fold_sweep:
  assumes "distinct (map snd xs)" and "\<forall>a \<in> snd ` set xs. a < length (fw_heap w)"
  shows "fw_ids (fold (\<lambda>(_, a) w. set_fdb a (fdb_sweep (fw_tick w) (fdb_at w a)) w) xs w) = fw_ids w"
    and "fw_tick (fold (\<lambda>(_, a) w. set_fdb a (fdb_sweep (fw_tick w) (fdb_at w a)) w) xs w) = fw_tick w"
    and "fw_heap (fold (\<lambda>(_, a) w. set_fdb a (fdb_sweep (fw_tick w) (fdb_at w a)) w) xs w) =
      map (\<lambda>a. if a \<in> snd ` set xs then fdb_sweep (fw_tick w) (fdb_at w a) else fdb_at w a)
        [0..<length (fw_heap w)]"
  using assms
proof (induction xs arbitrary: w)
  case Nil
  {
    case 3
    show ?case by (simp add: fdb_at_def map_nth)
  }
qed (auto simp: set_fdb_def fdb_at_def nth_list_update image_iff intro!: nth_equalityI)

definition swept :: "'p fdb_world \<Rightarrow> nat \<Rightarrow> 'p FDB" where
  "swept w a =
     (if (fw_tick w + 1) AND 63 = 0 \<and> a \<in> snd ` set (fw_ids w)
      then fdb_sweep (fw_tick w + 1) (fdb_at w a) else fdb_at w a)"

lemma fdbtick_eq:
  assumes "world_ok w"
  shows "fw_tick (fdbtick w) = fw_tick w + 1" and "fw_ids (fdbtick w) = fw_ids w"
    and "length (fw_heap (fdbtick w)) = length (fw_heap w)"
    and "a < length (fw_heap w) \<Longrightarrow> fdb_at (fdbtick w) a = swept w a"
proof -
  have d: "distinct (map snd (fw_ids w))" "\<forall>a \<in> snd ` set (fw_ids w). a < length (fw_heap w)"
    using assms by (simp_all add: world_ok_def)
  note f = fold_sweep [of "fw_ids w" "w\<lparr>fw_tick := fw_tick w + 1\<rparr>"]
  show "fw_tick (fdbtick w) = fw_tick w + 1" and "fw_ids (fdbtick w) = fw_ids w"
    and "length (fw_heap (fdbtick w)) = length (fw_heap w)"
    using f d by (simp_all add: fdbtick_def Let_def)
  show "a < length (fw_heap w) \<Longrightarrow> fdb_at (fdbtick w) a = swept w a"
    using f(3) d by (simp add: fdbtick_def Let_def swept_def fdb_at_def)
qed

lemma heap_inv_iff:
  "(\<forall>f \<in> set (fw_heap w). fdb_inv f) \<longleftrightarrow> (\<forall>a < length (fw_heap w). fdb_inv (fdb_at w a))"
  by (simp add: all_set_conv_all_nth fdb_at_def)

lemma fdb_at_set_fdb:
  "a < length (fw_heap w) \<Longrightarrow> fdb_at (set_fdb a f w) b = (if b = a then f else fdb_at w b)"
  by (auto simp: fdb_at_def set_fdb_def nth_list_update)

lemma set_fdb_frame [simp]:
  "fw_ids (set_fdb a f w) = fw_ids w" "fw_tick (set_fdb a f w) = fw_tick w"
  "length (fw_heap (set_fdb a f w)) = length (fw_heap w)"
  by (simp_all add: set_fdb_def)

lemma world_ok_set_fdb:
  "world_ok w \<Longrightarrow> a < length (fw_heap w) \<Longrightarrow> fdb_inv f \<Longrightarrow> world_ok (set_fdb a f w)"
  by (auto simp: world_ok_def heap_inv_iff fdb_at_set_fdb)

lemma fdbtick_ok:
  assumes "world_ok w"
  shows "world_ok (fdbtick w)"
proof -
  have "fdb_inv (swept w a)" if "a < length (fw_heap w)" for a
    using assms that by (simp add: world_ok_def heap_inv_iff swept_def fdb_sweep_inv)
  then show ?thesis
    using assms fdbtick_eq [OF assms] by (simp add: world_ok_def heap_inv_iff)
qed

lemma fold_delete_length:
  "length (fold (\<lambda>(k, v) t. if P k v then AList.delete k t else t) xs t) \<le> length t"
proof (induction xs arbitrary: t)
  case (Cons x xs)
  obtain k v where x: "x = (k, v)" by (cases x)
  show ?case
    using Cons [of t] Cons [of "AList.delete k t"] length_delete_le [of k t] x by simp
qed simp

lemma fdb_sweep_length: "length (fdb_mactable (fdb_sweep t f)) \<le> length (fdb_mactable f)"
  by (simp add: fdb_sweep_def FdbMacTable_def fold_delete_length
      fold_Fdb_Del [where P = "\<lambda>_ fmn. t - fmn_ft fmn > ExpireTime"])

lemma fdbtick_iter:
  assumes "world_ok w"
  shows "world_ok ((fdbtick ^^ k) w) \<and> fw_tick ((fdbtick ^^ k) w) = fw_tick w + word_of_nat k
    \<and> fw_ids ((fdbtick ^^ k) w) = fw_ids w
    \<and> length (fw_heap ((fdbtick ^^ k) w)) = length (fw_heap w)"
proof (induction k)
  case 0
  then show ?case using assms by simp
next
  case (Suc k)
  then show ?case
    using fdbtick_ok [of "(fdbtick ^^ k) w"] fdbtick_eq [of "(fdbtick ^^ k) w"]
    by (simp add: add.assoc)
qed

text \<open>Along the ticks a table only shrinks, and an entry stays as it is until it goes.\<close>

lemma fdbtick_shrinks:
  assumes ok: "world_ok w" and a: "a < length (fw_heap w)"
  shows "length (fdb_mactable (fdb_at (fdbtick w) a)) \<le> length (fdb_mactable (fdb_at w a))"
    and "Fdb_Get (fdb_at w a) m = None \<Longrightarrow> Fdb_Get (fdb_at (fdbtick w) a) m = None"
    and "Fdb_Get (fdb_at w a) m = Some fmn \<Longrightarrow> Fdb_Get (fdb_at (fdbtick w) a) m \<in> {None, Some fmn}"
proof -
  have "fdb_inv (fdb_at w a)"
    using ok a by (simp add: world_ok_def heap_inv_iff)
  then have "map_wf (fdb_mactable (fdb_at w a))"
    by (simp add: fdb_inv_def)
  note get = Fdb_Get_sweep [OF this, of "fw_tick w + 1" m]
  show "length (fdb_mactable (fdb_at (fdbtick w) a)) \<le> length (fdb_mactable (fdb_at w a))"
    "Fdb_Get (fdb_at w a) m = None \<Longrightarrow> Fdb_Get (fdb_at (fdbtick w) a) m = None"
    "Fdb_Get (fdb_at w a) m = Some fmn \<Longrightarrow> Fdb_Get (fdb_at (fdbtick w) a) m \<in> {None, Some fmn}"
    using fdbtick_eq(4) [OF ok a] get by (auto simp: swept_def fdb_sweep_length)
qed

lemma fdbtick_iter_shrinks:
  assumes ok: "world_ok w" and a: "a < length (fw_heap w)" and "j \<le> k"
  shows "length (fdb_mactable (fdb_at ((fdbtick ^^ k) w) a))
      \<le> length (fdb_mactable (fdb_at ((fdbtick ^^ j) w) a))"
    and "Fdb_Get (fdb_at ((fdbtick ^^ j) w) a) m = None \<Longrightarrow>
      Fdb_Get (fdb_at ((fdbtick ^^ k) w) a) m = None"
    and "Fdb_Get (fdb_at ((fdbtick ^^ j) w) a) m = Some fmn \<Longrightarrow>
      Fdb_Get (fdb_at ((fdbtick ^^ k) w) a) m \<in> {None, Some fmn}"
  using assms(3)
proof (induction k rule: dec_induct)
  case (step n)
  have n: "world_ok ((fdbtick ^^ n) w)" "a < length (fw_heap ((fdbtick ^^ n) w))"
    using fdbtick_iter [OF ok, of n] a by simp_all
  {
    case 1
    then show ?case using fdbtick_shrinks(1) [OF n] step.IH(1) by simp
  next
    case 2
    then show ?case using fdbtick_shrinks(2) [OF n] step.IH(2) by simp
  next
    case 3
    then show ?case using fdbtick_shrinks(2,3) [OF n, of m] step.IH(3) by fastforce
  }
qed simp_all

lemma word_and_63: "(x :: u64) AND 63 = 0 \<longleftrightarrow> unat x mod 64 = 0"
proof -
  have "x AND 63 = take_bit 6 x"
    by (simp add: take_bit_eq_mask mask_eq_exp_minus_1)
  moreover have "unat (take_bit 6 x) = take_bit 6 (unat x)"
    by (rule unsigned_take_bit_eq)
  moreover have "take_bit 6 (unat x) = unat x mod 64"
    by (simp add: take_bit_eq_mod)
  ultimately show ?thesis
    by (simp only: unat_eq_0 [symmetric])
qed

lemma unat_of_nat_u64: "n < 2 ^ 64 \<Longrightarrow> unat (word_of_nat n :: u64) = n"
  by (simp add: unat_of_nat)

lemma sweep_tick_exists:
  fixes t :: nat
  shows "\<exists>k. 300 \<le> k \<and> k \<le> 363 \<and> (t + Suc k) mod 64 = 0"
proof (intro exI conjI)
  let ?k = "300 + (63 - (t + 300) mod 64)"
  show "300 \<le> ?k" "?k \<le> 363" by simp_all
  have "(t + 300) mod 64 \<le> 63" by simp
  then have "t + Suc ?k = (t + 300) div 64 * 64 + 64"
    using div_mult_mod_eq [of "t + 300" 64] by linarith
  then show "(t + Suc ?k) mod 64 = 0" by simp
qed

text \<open>
  An entry that is not refreshed is gone after 364 ticks, unless the table has shrunk to 128
  entries by then.
\<close>

lemma fdbtick_ages_out:
  assumes ok: "world_ok w" and a: "GetFdbById w i = Some a"
    and clock: "unat (fw_tick w) + 364 < 2 ^ 64"
    and fmn: "Fdb_Get (fdb_at w a) m = Some fmn" "fmn_ft fmn \<le> fw_tick w"
    and big: "length (fdb_mactable (fdb_at ((fdbtick ^^ 364) w) a)) > 128"
  shows "Fdb_Get (fdb_at ((fdbtick ^^ 364) w) a) m = None"
proof -
  have ia: "(i, a) \<in> set (fw_ids w)" using a by (simp add: GetFdbById_def map_of_SomeD)
  then have alen: "a < length (fw_heap w)" using ok by (force simp: world_ok_def)
  obtain k where k: "300 \<le> k" "k \<le> 363" "(unat (fw_tick w) + Suc k) mod 64 = 0"
    using sweep_tick_exists [of "unat (fw_tick w)"] by (elim exE conjE)
  let ?w = "(fdbtick ^^ k) w"
  let ?t = "fw_tick ?w + 1"
  note wk = fdbtick_iter [OF ok, of k]
  have t: "unat ?t = unat (fw_tick w) + Suc k"
  proof -
    have "?t = fw_tick w + word_of_nat (Suc k)" using wk by simp
    also have "\<dots> = word_of_nat (unat (fw_tick w) + Suc k)" by simp
    finally have "unat ?t = unat (word_of_nat (unat (fw_tick w) + Suc k) :: u64)"
      by (rule arg_cong)
    also have "\<dots> = unat (fw_tick w) + Suc k"
      by (rule unat_of_nat_u64) (use clock k(2) in linarith)
    finally show ?thesis .
  qed
  then have "?t AND 63 = 0" using k(3) by (simp only: word_and_63)
  moreover have "a \<in> snd ` set (fw_ids ?w)" using wk ia by force
  ultimately have swept: "fdb_at ((fdbtick ^^ Suc k) w) a = fdb_sweep ?t (fdb_at ?w a)"
    using fdbtick_eq(4) [of ?w a] wk alen by (simp add: swept_def)
  have wf: "map_wf (fdb_mactable (fdb_at ?w a))"
  proof -
    have "fdb_inv (fdb_at ?w a)" using wk alen by (simp add: world_ok_def heap_inv_iff)
    then show ?thesis by (simp add: fdb_inv_def)
  qed
  have "?t - fmn_ft fmn > ExpireTime"
  proof -
    have "unat (fmn_ft fmn) \<le> unat (fw_tick w)" using fmn(2) by (simp add: word_le_nat_alt)
    moreover from this t have "fmn_ft fmn \<le> ?t" by (simp only: word_le_nat_alt)
    then have "unat (?t - fmn_ft fmn) = unat ?t - unat (fmn_ft fmn)" by (rule unat_sub)
    moreover have "unat ExpireTime = 300" by (simp add: ExpireTime_def)
    ultimately show ?thesis using t k(1) by (simp only: word_less_nat_alt)
  qed
  moreover have "128 < length (fdb_mactable (fdb_at ?w a))"
    using fdbtick_iter_shrinks(1) [OF ok alen, of k 364] k(2) big by simp
  moreover have "Fdb_Get (fdb_at ?w a) m \<in> {None, Some fmn}"
    using fdbtick_iter_shrinks(3) [OF ok alen, of 0 k] fmn(1) by simp
  ultimately have "Fdb_Get (fdb_at ((fdbtick ^^ Suc k) w) a) m = None"
    by (auto simp add: swept Fdb_Get_sweep [OF wf] simp del: funpow.simps split: option.split)
  then show ?thesis
    using fdbtick_iter_shrinks(2) [OF ok alen, of "Suc k" 364] k(2) by simp
qed

text \<open>
  C14: ageing bounds every idle table: whatever its size, 364 ticks after the last frame an FDB of
  the registry holds at most 128 addresses, and each of them is one it held before, unchanged.
\<close>

theorem fdbtick_bounds_idle_table:
  assumes ok: "world_ok w" and a: "GetFdbById w i = Some a"
    and clock: "unat (fw_tick w) + 364 < 2 ^ 64"
    and past: "\<forall>(m, fmn) \<in> set (FdbMacTable (fdb_at w a)). fmn_ft fmn \<le> fw_tick w"
  shows "length (FdbMacTable (fdb_at ((fdbtick ^^ 364) w) a)) \<le> 128
    \<and> (Fdb_Get (fdb_at ((fdbtick ^^ 364) w) a) m = Some fmn \<longrightarrow> Fdb_Get (fdb_at w a) m = Some fmn)"
proof
  have alen: "a < length (fw_heap w)"
    using ok a by (auto simp: world_ok_def GetFdbById_def dest!: map_of_SomeD)
  note shrinks = fdbtick_iter_shrinks [OF ok alen, of 0 364]
  show "length (FdbMacTable (fdb_at ((fdbtick ^^ 364) w) a)) \<le> 128"
  proof (rule ccontr)
    assume big: "\<not> ?thesis"
    have "Fdb_Get (fdb_at ((fdbtick ^^ 364) w) a) m = None" for m
    proof (cases "Fdb_Get (fdb_at w a) m")
      case None
      then show ?thesis using shrinks(2) by simp
    next
      case (Some fmn)
      then have "fmn_ft fmn \<le> fw_tick w"
        using past by (auto simp: Fdb_Get_def FdbMacTable_def dest!: map_of_SomeD)
      then show ?thesis
        using fdbtick_ages_out [OF ok a clock Some] big by (simp add: FdbMacTable_def)
    qed
    then have "m \<notin> fst ` set (fdb_mactable (fdb_at ((fdbtick ^^ 364) w) a))" for m
      by (simp only: Fdb_Get_def map_of_eq_None_iff simp_thms)
    then have "fdb_mactable (fdb_at ((fdbtick ^^ 364) w) a) = []"
      by (metis image_is_empty all_not_in_conv set_empty)
    then show False using big by (simp add: FdbMacTable_def)
  qed
  show "Fdb_Get (fdb_at ((fdbtick ^^ 364) w) a) m = Some fmn \<longrightarrow> Fdb_Get (fdb_at w a) m = Some fmn"
    using shrinks(2,3) [of m] by (cases "Fdb_Get (fdb_at w a) m") auto
qed

text \<open>
  \<open>NewFdb\<close> is a lookup that creates what is missing: afterwards the identifier denotes the
  result, calling it again changes nothing, and the other identifiers and all the FDBs that
  existed are as before; a created FDB has no ports and no addresses.
\<close>

theorem NewFdb_contract:
  assumes "world_ok w"
  shows "\<exists>a w'. NewFdb i w = Inr (a, w') \<and> world_ok w' \<and> GetFdbById w' i = Some a
    \<and> NewFdb i w' = Inr (a, w')
    \<and> (\<forall>j. j \<noteq> i \<longrightarrow> GetFdbById w' j = GetFdbById w j)
    \<and> (\<forall>b < length (fw_heap w). fdb_at w' b = fdb_at w b)
    \<and> (GetFdbById w i = None \<longrightarrow> FdbMacTable (fdb_at w' a) = [] \<and> fdb_ports (fdb_at w' a) = [])"
  using assms
proof (cases rule: NewFdb_cases [of w i])
  case (known a)
  then show ?thesis using assms by auto
next
  case (new w')
  have i: "i \<notin> fst ` set (fw_ids w)"
    using new(2) by (simp add: GetFdbById_def map_of_eq_None_iff)
  then have "map_of (fw_ids w) i = None" by (simp add: map_of_eq_None_iff)
  then have "GetFdbById w' i = Some (length (fw_heap w))"
    using new(4) by (simp add: GetFdbById_def map_add_def)
  moreover from this have "NewFdb i w' = Inr (length (fw_heap w), w')"
    by (rule NewFdb_known)
  moreover have "GetFdbById w' j = GetFdbById w j" if "j \<noteq> i" for j
    using new(4) that by (simp add: GetFdbById_def map_add_def split: option.split)
  moreover have "fdb_at w' b = (if b = length (fw_heap w) then fresh_FDB else fdb_at w b)"
    if "b \<le> length (fw_heap w)" for b
    using new(3) that by (simp add: fdb_at_def nth_append)
  ultimately show ?thesis
    using new(1,6) fresh_FDB_ok(2,3) [where ?'a = 'a] by (simp add: FdbMacTable_def)
qed

text \<open>A registered FDB of one port with 200 fresh addresses and one old one.\<close>

definition aged_bridge :: "nat FDB" where
  "aged_bridge = (bridge [(127, 10)] 126)\<lparr>fdb_mactable :=
     ([1, 2, 3, 4, 5, 6], NewFdbMacNode 0 [1, 2, 3, 4, 5, 6] 10)
     # map (\<lambda>i. ([0, 0, 0, 0, 0, word_of_nat i],
              NewFdbMacNode 300 [0, 0, 0, 0, 0, word_of_nat i] 10)) [0..<200]\<rparr>"

definition aged_world :: "nat fdb_world" where
  "aged_world = \<lparr>fw_ids = [(5, 0)], fw_heap = [aged_bridge], fw_tick = 300\<rparr>"

lemma bridge1_reachable: "fdb_reachable (bridge [(127, 10)] 126, {127})"
proof -
  have "initPortMap (bridge [] 127) = bridge [] 127"
    by (simp add: initPortMap_def bridge_def)
  then have "fdb_reachable (bridge [] 127, {})"
    using fdb_reachable.init [OF bridge_init] by simp
  then show ?thesis
    using fdb_reachable.step [OF _ fdb_step.join [OF bridge_join(1)]] by simp
qed

lemma aged_world_ok: "world_ok aged_world"
proof -
  have inv: "fdb_inv (bridge [(127, 10)] 126)"
    by (rule fdb_reachableD(1) [OF bridge1_reachable])
  have "map_wf (fdb_mactable aged_bridge)"
    by (auto simp: aged_bridge_def distinct_map o_def intro!: inj_onI dest: word_of_nat_inj)
  then have "fdb_inv aged_bridge"
    using inv by (auto simp: fdb_inv_def aged_bridge_def free_list_def bridge_def
        NewFdbMacNode_def)
  then show ?thesis by (simp add: world_ok_def aged_world_def)
qed

theorem fdbtick_bounds_idle_table_witness:
  "length (FdbMacTable (fdb_at aged_world 0)) = 201
    \<and> length (FdbMacTable (fdb_at ((fdbtick ^^ 364) aged_world) 0)) \<le> 128"
proof -
  have "GetFdbById aged_world 5 = Some 0" "unat (fw_tick aged_world) + 364 < 2 ^ 64"
    and "\<forall>(m, fmn) \<in> set (FdbMacTable (fdb_at aged_world 0)). fmn_ft fmn \<le> fw_tick aged_world"
    by (auto simp: GetFdbById_def aged_world_def FdbMacTable_def fdb_at_def aged_bridge_def
        NewFdbMacNode_def)
  from fdbtick_bounds_idle_table [OF aged_world_ok this] show ?thesis
    by (simp add: FdbMacTable_def fdb_at_def aged_world_def aged_bridge_def)
qed

theorem NewFdb_contract_witness:
  "\<exists>w'. NewFdb 7 aged_world = Inr (1, w') \<and> GetFdbById w' 7 = Some 1 \<and> GetFdbById w' 5 = Some 0"
proof -
  have "NewFdb 7 aged_world = Inr (1, snd (projr (NewFdb 7 aged_world)))"
    using NewFdb_new [of aged_world 7] by (simp add: GetFdbById_def aged_world_def)
  moreover have "GetFdbById aged_world 5 = Some 0"
    by (simp add: GetFdbById_def aged_world_def)
  ultimately show ?thesis
    using NewFdb_contract [OF aged_world_ok, of 7] by auto
qed

end
