(* ===== verification/Fdb_World.thy ===== *)
theory Fdb_World
  imports Fdb_Registry
begin

text \<open>
  The bridges of a process under all operations of the package \<open>fdb\<close>, together: what the registry,
  the ticker and the clients do to them in any order. The main property is that a bridge with a port
  of a counted client never leaves the registry.
\<close>

section \<open>The whole of the bridges\<close>

text \<open>
  The ghost state gives, for every bridge, the ports that \<open>portNum\<close> counts. A client joins by the
  identifier of the bridge, as \<open>joinFdbById\<close> of \<open>vnet\<close> does: it gets or makes the bridge and takes
  a port of it. It leaves through the pointer that it holds, and \<open>quitFdbByIds\<close> and \<open>quitAllFdb\<close>
  then try to delete the bridge; the attempt is a step of its own, for any identifier at any time.
  \<open>DelFdbById\<close> has no other caller than \<open>TryToDelFdbById\<close>.
\<close>

type_synonym 'p world_state = "'p fdb_world \<times> (nat \<Rightarrow> int set)"

definition created :: "int \<Rightarrow> nat \<Rightarrow> 'p world_state \<Rightarrow> nat \<Rightarrow> int set" where
  "created i a s = (if GetFdbById (fst s) i = None then (snd s)(a := {}) else snd s)"

inductive world_step :: "'p world_state \<Rightarrow> 'p world_state \<Rightarrow> bool" where
  create: "NewFdb i w = Inr (a, v) \<Longrightarrow> world_step (w, J) (v, created i a (w, J))"
| join: "NewFdb i w = Inr (a, v) \<Longrightarrow> J' = created i a (w, J)
    \<Longrightarrow> JoinFwdPort pio inc (fdb_at v a) = Inr (x, g)
    \<Longrightarrow> world_step (w, J) (set_fdb a g v, J'(a := if inc \<and> x \<noteq> 0 then insert x (J' a) else J' a))"
| leave: "a < length (fw_heap w) \<Longrightarrow> ReleaseFwdPort x (x \<in> J a) (fdb_at w a) = Inr g
    \<Longrightarrow> world_step (w, J) (set_fdb a g w, J(a := J a - {x}))"
| try_delete: "world_step (w, J) (TryToDelFdbById i w, J)"
| forward: "a < length (fw_heap w) \<Longrightarrow> Forward (fw_tick w) pio pkt (fdb_at w a) = Inr (fwd, out, g)
    \<Longrightarrow> pio \<in> snd ` set (fdb_ports (fdb_at w a)) \<Longrightarrow> world_step (w, J) (set_fdb a g w, J)"
| tick: "world_step (w, J) (fdbtick w, J)"

inductive world_reachable :: "'p world_state \<Rightarrow> bool" where
  init: "world_reachable (init_world, J)"
| step: "world_reachable s \<Longrightarrow> world_step s t \<Longrightarrow> world_reachable t"

section \<open>The invariant\<close>

text \<open>Every bridge agrees with its ghost state, and one with a counted port is registered.\<close>

definition world_inv :: "'p world_state \<Rightarrow> bool" where
  "world_inv s \<longleftrightarrow> (case s of (w, J) \<Rightarrow> world_ok w
     \<and> (\<forall>a < length (fw_heap w). fdb_ok (fdb_at w a, J a)
          \<and> (J a \<noteq> {} \<longrightarrow> a \<in> snd ` set (fw_ids w))))"

lemma world_invI:
  assumes "world_ok w" and "\<And>a. a < length (fw_heap w) \<Longrightarrow> fdb_ok (fdb_at w a, J a)"
    and "\<And>a. a < length (fw_heap w) \<Longrightarrow> J a \<noteq> {} \<Longrightarrow> a \<in> snd ` set (fw_ids w)"
  shows "world_inv (w, J)"
  using assms by (simp add: world_inv_def)

lemma world_invD:
  assumes "world_inv (w, J)"
  shows "world_ok w" and "a < length (fw_heap w) \<Longrightarrow> fdb_ok (fdb_at w a, J a)"
    and "a < length (fw_heap w) \<Longrightarrow> J a \<noteq> {} \<Longrightarrow> a \<in> snd ` set (fw_ids w)"
  using assms by (simp_all add: world_inv_def)

lemma registered_iff:
  assumes "world_ok w"
  shows "GetFdbById w i = Some a \<longleftrightarrow> (i, a) \<in> set (fw_ids w)"
  using map_wf_set_iff [of "fw_ids w" i a] assms by (simp add: world_ok_def GetFdbById_def)

lemma registered_once:
  assumes "world_ok w" and "GetFdbById w i = Some a" and "GetFdbById w j = Some a"
  shows "i = j"
proof -
  have "inj_on snd (set (fw_ids w))" using assms(1) by (simp add: world_ok_def distinct_map)
  moreover have "(i, a) \<in> set (fw_ids w)" "(j, a) \<in> set (fw_ids w)"
    using assms by (simp_all add: registered_iff)
  ultimately show ?thesis by (metis inj_onD prod.inject snd_conv)
qed

lemma registered_heap: "world_ok w \<Longrightarrow> GetFdbById w i = Some a \<Longrightarrow> a < length (fw_heap w)"
  by (force simp: registered_iff world_ok_def)

text \<open>A bridge changes and keeps its counted ports counted.\<close>

lemma world_inv_set_fdb:
  assumes inv: "world_inv (w, J)" and a: "a < length (fw_heap w)" and g: "fdb_ok (g, K)"
    and K: "K \<noteq> {} \<Longrightarrow> a \<in> snd ` set (fw_ids w)"
  shows "world_inv (set_fdb a g w, J(a := K))"
proof (rule world_invI)
  show "world_ok (set_fdb a g w)"
    using g by (intro world_ok_set_fdb [OF world_invD(1) [OF inv] a]) (simp add: fdb_ok_def)
next
  fix b assume "b < length (fw_heap (set_fdb a g w))"
  then have b: "b < length (fw_heap w)" by simp
  show "fdb_ok (fdb_at (set_fdb a g w) b, (J(a := K)) b)"
    using world_invD(2) [OF inv b] g by (simp add: fdb_at_set_fdb [OF a])
  show "b \<in> snd ` set (fw_ids (set_fdb a g w))" if "(J(a := K)) b \<noteq> {}"
    using world_invD(3) [OF inv b] K that by (cases "b = a") simp_all
qed

lemma world_inv_create:
  assumes inv: "world_inv (w, J)" and n: "NewFdb i w = Inr (a, v)"
  shows "world_inv (v, created i a (w, J))" and "GetFdbById v i = Some a"
proof -
  have "world_inv (v, created i a (w, J)) \<and> GetFdbById v i = Some a"
  proof (rule NewFdb_cases [OF world_invD(1) [OF inv], of i], goal_cases known new)
    case (known b)
    then show ?case using n inv by (simp add: created_def)
  next
    case (new u)
    let ?n = "length (fw_heap w)"
    have [simp]: "v = u" "a = ?n" using new(1) n by simp_all
    have at: "fdb_at u b = (if b = ?n then fresh_FDB else fdb_at w b)" if "b \<le> ?n" for b
      using new(3) that by (simp add: fdb_at_def nth_append)
    have "world_inv (u, J(?n := {}))"
    proof (rule world_invI [OF new(6)])
      fix b assume "b < length (fw_heap u)"
      then have "b \<le> ?n" using new(3) by simp
      then show "fdb_ok (fdb_at u b, (J(?n := {})) b)"
        using at world_invD(2) [OF inv] fresh_FDB_ok(1) by auto
      show "b \<in> snd ` set (fw_ids u)" if "(J(?n := {})) b \<noteq> {}"
        using that \<open>b \<le> ?n\<close> world_invD(3) [OF inv, of b] new(4) by (cases "b = ?n") auto
    qed
    moreover have "GetFdbById u i = Some ?n"
      using new(4) by (simp add: registered_iff [OF new(6)])
    ultimately show ?case using new(2) by (simp add: created_def)
  qed
  then show "world_inv (v, created i a (w, J))" and "GetFdbById v i = Some a" by simp_all
qed

text \<open>The test of \<open>TryToDelFdbById\<close> is right: the counter is zero exactly when no port is counted.\<close>

lemma portNum_card: "fdb_ok (f, K) \<Longrightarrow> getPortNum f = int (card K)"
  by (simp add: fdb_ok_def getPortNum_def)

lemma portNum_zero: "fdb_ok (f, K) \<Longrightarrow> getPortNum f = 0 \<longleftrightarrow> K = {}"
  using portNum_card [of f K] fdb_ok_card(1) [of f K] by simp

lemma GetFdbById_Del: "GetFdbById (DelFdbById i w) j = (if j = i then None else GetFdbById w j)"
  by (simp add: GetFdbById_def DelFdbById_def AList.delete_conv')

lemma TryToDel_unregisters:
  assumes inv: "world_inv (w, J)"
  shows "GetFdbById (TryToDelFdbById i w) j =
    (if j = i \<and> (\<forall>a. GetFdbById w i = Some a \<longrightarrow> J a = {}) then None else GetFdbById w j)"
proof (cases "GetFdbById w i")
  case (Some a)
  then have "a < length (fw_heap w)" by (rule registered_heap [OF world_invD(1) [OF inv]])
  then have "getPortNum (fdb_at w a) = 0 \<longleftrightarrow> J a = {}"
    by (intro portNum_zero world_invD(2) [OF inv])
  then show ?thesis using Some by (simp add: TryToDelFdbById_def GetFdbById_Del)
qed (simp add: TryToDelFdbById_def)

lemma TryToDel_heap [simp]:
  "fw_heap (TryToDelFdbById i w) = fw_heap w" "fdb_at (TryToDelFdbById i w) a = fdb_at w a"
  by (simp_all add: TryToDelFdbById_def DelFdbById_def fdb_at_def split: option.split)

lemma world_inv_try_delete:
  assumes inv: "world_inv (w, J)"
  shows "world_inv (TryToDelFdbById i w, J)"
proof (rule world_invI)
  have ok: "world_ok w" by (rule world_invD(1) [OF inv])
  then show ok': "world_ok (TryToDelFdbById i w)" by (rule TryToDelFdbById_ok)
  fix a assume "a < length (fw_heap (TryToDelFdbById i w))"
  then have a: "a < length (fw_heap w)" by simp
  show "fdb_ok (fdb_at (TryToDelFdbById i w) a, J a)" using world_invD(2) [OF inv a] by simp
  assume J: "J a \<noteq> {}"
  then obtain j where j: "GetFdbById w j = Some a"
    using world_invD(3) [OF inv a] by (auto simp: registered_iff [OF ok])
  then have "GetFdbById (TryToDelFdbById i w) j = Some a"
    using J by (auto simp: TryToDel_unregisters [OF inv])
  then show "a \<in> snd ` set (fw_ids (TryToDelFdbById i w))"
    by (force simp: registered_iff [OF ok'])
qed

lemma world_inv_tick:
  assumes inv: "world_inv (w, J)"
  shows "world_inv (fdbtick w, J)"
proof (rule world_invI)
  have ok: "world_ok w" by (rule world_invD(1) [OF inv])
  then show "world_ok (fdbtick w)" by (rule fdbtick_ok)
  note eq = fdbtick_eq [OF ok]
  fix a assume "a < length (fw_heap (fdbtick w))"
  then have a: "a < length (fw_heap w)" using eq(3) by simp
  show "fdb_ok (fdb_at (fdbtick w) a, J a)"
    using world_invD(2) [OF inv a] fdb_ok_step [OF fdb_step.sweep, of "fdb_at w a" "J a"]
    by (auto simp: eq(4) [OF a] swept_def)
  show "J a \<noteq> {} \<Longrightarrow> a \<in> snd ` set (fw_ids (fdbtick w))"
    using world_invD(3) [OF inv a] eq(2) by simp
qed

lemma world_step_inv:
  assumes "world_step s t" and "world_inv s"
  shows "world_inv t"
  using assms
proof cases
  case (create i w a v J)
  then show ?thesis using world_inv_create(1) assms(2) by simp
next
  case (join i w a v J' J pio inc x g)
  have inv: "world_inv (v, J')" and r: "GetFdbById v i = Some a"
    using world_inv_create [OF _ join(3)] assms(2) join(1,4) by simp_all
  have ok: "world_ok v" by (rule world_invD(1) [OF inv])
  have a: "a < length (fw_heap v)" by (rule registered_heap [OF ok r])
  have "a \<in> snd ` set (fw_ids v)" using r by (force simp: registered_iff [OF ok])
  with fdb_ok_join [OF world_invD(2) [OF inv a] join(5)] show ?thesis
    unfolding join(2) by (rule world_inv_set_fdb [OF inv a])
next
  case (leave a w x J g)
  have inv: "world_inv (w, J)" using assms(2) leave(1) by simp
  have "fdb_ok (g, J a - {x})"
    by (rule fdb_ok_step [OF fdb_step.release [OF leave(4)] world_invD(2) [OF inv leave(3)]])
  then show ?thesis
    unfolding leave(2) using world_invD(3) [OF inv leave(3)]
    by (intro world_inv_set_fdb [OF inv leave(3)]) auto
next
  case (try_delete w J i)
  then show ?thesis using world_inv_try_delete assms(2) by simp
next
  case (forward a w pio pkt fwd out g J)
  have inv: "world_inv (w, J)" using assms(2) forward(1) by simp
  have "fdb_ok (g, J a)"
    by (rule fdb_ok_step [OF fdb_step.forward [OF forward(4,5)] world_invD(2) [OF inv forward(3)]])
  then have "world_inv (set_fdb a g w, J(a := J a))"
    using world_invD(3) [OF inv forward(3)] by (intro world_inv_set_fdb [OF inv forward(3)])
  then show ?thesis using forward(2) by simp
next
  case (tick w J)
  then show ?thesis using world_inv_tick assms(2) by simp
qed

lemma world_reachable_inv: "world_reachable s \<Longrightarrow> world_inv s"
proof (induction rule: world_reachable.induct)
  case (init J)
  show ?case by (rule world_invI) (use world_ok_init in simp, simp_all add: init_world_def)
qed (rule world_step_inv)

text \<open>
  C36: no bridge is lost while a counted client is in it. Whatever the clients and the ticker do, in
  whatever order: an identifier of the registry leads to a bridge that exists and has no other
  identifier, and whose counter is the number of its counted ports; a counted port is a port of its
  bridge, and the bridge is in the registry; and \<open>TryToDelFdbById\<close> takes an identifier out exactly
  when its bridge has no counted port, and no other one. A client joins its bridge in one step, see
  \<open>late_join_is_lost\<close>.
\<close>

theorem counted_bridge_is_registered:
  assumes "world_reachable (w, J)"
  shows "(GetFdbById w i = Some a \<longrightarrow> a < length (fw_heap w) \<and> (\<forall>j. GetFdbById w j = Some a \<longrightarrow> j = i)
        \<and> getPortNum (fdb_at w a) = int (card (J a)))
    \<and> (b < length (fw_heap w) \<and> x \<in> J b \<longrightarrow>
        (\<exists>k. GetFdbById w k = Some b) \<and> (\<exists>pio. map_of (fdb_ports (fdb_at w b)) x = Some pio))
    \<and> GetFdbById (TryToDelFdbById i w) j =
        (if j = i \<and> (\<forall>a. GetFdbById w i = Some a \<longrightarrow> J a = {}) then None else GetFdbById w j)"
proof -
  have inv: "world_inv (w, J)" by (rule world_reachable_inv [OF assms])
  have ok: "world_ok w" by (rule world_invD(1) [OF inv])
  have "\<exists>k. GetFdbById w k = Some b" if "b < length (fw_heap w)" "x \<in> J b"
    using world_invD(3) [OF inv that(1)] that(2) by (force simp: registered_iff [OF ok])
  moreover have "x \<in> fst ` set (fdb_ports (fdb_at w b))" if "b < length (fw_heap w)" "x \<in> J b"
    using world_invD(2) [OF inv that(1)] that(2) by (auto simp: fdb_ok_def)
  moreover have "getPortNum (fdb_at w a) = int (card (J a))" if "GetFdbById w i = Some a"
    by (rule portNum_card [OF world_invD(2) [OF inv registered_heap [OF ok that]]])
  ultimately show ?thesis
    using registered_heap [OF ok] registered_once [OF ok] TryToDel_unregisters [OF inv]
    by (simp add: map_of_eq_None_iff flip: not_None_eq)
qed

theorem counted_bridge_is_registered_witness:
  "\<exists>(w :: nat fdb_world) J x. world_reachable (w, J) \<and> J 0 = {x} \<and> GetFdbById w 7 = Some 0
    \<and> getPortNum (fdb_at w 0) = 1 \<and> GetFdbById (TryToDelFdbById 7 w) 7 = Some 0"
proof -
  let ?v = "\<lparr>fw_ids = [(7, 0)], fw_heap = [fresh_FDB :: nat FDB], fw_tick = 0\<rparr>"
  have 0: "GetFdbById init_world 7 = None" by (simp add: GetFdbById_def init_world_def)
  then have n: "NewFdb 7 init_world = Inr (0, ?v)"
    using NewFdb_new [OF 0] by (simp add: init_world_def)
  have inv: "fdb_inv (fresh_FDB :: nat FDB)" using fresh_FDB_ok(1) [where ?'a = nat] by (simp add: fdb_ok_def)
  obtain x g where j: "JoinFwdPort 3 True (fresh_FDB :: nat FDB) = Inr (x, g)" "x \<noteq> 0"
  proof (rule JoinFwdPort_cases [OF inv, of 3 True], goal_cases full joined)
    case full
    then show ?case using fresh_FDB_ok(3) [where ?'a = nat] by (simp add: port_ids_def MAXPORT_def)
  next
    case (joined y h)
    then show ?case by (auto simp: port_ids_iff)
  qed
  let ?w = "set_fdb 0 g ?v" and ?J = "(\<lambda>_. {})(0 := {x})"
  have "world_step (init_world, \<lambda>_. {}) (?w, ?J)"
    using world_step.join [OF n refl, of 3 True x g "\<lambda>_. {}"] j by (simp add: fdb_at_def created_def 0)
  then have "world_reachable (?w, ?J)" by (rule world_reachable.step [OF world_reachable.init])
  moreover have "GetFdbById ?w 7 = Some 0" by (simp add: GetFdbById_def)
  ultimately show ?thesis
    using counted_bridge_is_registered [of ?w ?J 7 0 0 x 7]
    by (intro exI [of _ ?w] exI [of _ ?J] exI [of _ x]) simp
qed

section \<open>A late join\<close>

text \<open>
  \<open>joinFdbById\<close> itself holds no lock between \<open>NewFdb\<close> and \<open>JoinFwdPort\<close>. When the last client of
  the bridge leaves between the two, the bridge is out of the registry when the client gets its
  port: the next client of the same identifier gets another bridge.
\<close>

theorem late_join_is_lost:
  assumes "world_reachable (w, J)" and "GetFdbById w i = Some a" and "J a = {}"
  shows "NewFdb i w = Inr (a, w) \<and> (\<exists>x g. JoinFwdPort pio True (fdb_at (TryToDelFdbById i w) a) = Inr (x, g)
    \<and> (\<exists>b v. NewFdb i (set_fdb a g (TryToDelFdbById i w)) = Inr (b, v) \<and> b \<noteq> a))"
proof -
  have inv: "world_inv (w, J)" by (rule world_reachable_inv [OF assms(1)])
  have a: "a < length (fw_heap w)" by (rule registered_heap [OF world_invD(1) [OF inv] assms(2)])
  then have "fdb_inv (fdb_at w a)" using world_invD(2) [OF inv a] by (simp add: fdb_ok_def)
  then obtain x g where g: "JoinFwdPort pio True (fdb_at w a) = Inr (x, g)"
    by (rule JoinFwdPort_cases) blast+
  let ?u = "set_fdb a g (TryToDelFdbById i w)"
  have "GetFdbById ?u i = GetFdbById (TryToDelFdbById i w) i" by (simp add: GetFdbById_def)
  then have "GetFdbById ?u i = None" using assms(2,3) by (simp add: TryToDel_unregisters [OF inv])
  from NewFdb_new [OF this] show ?thesis using g a NewFdb_known [OF assms(2)] by simp
qed

end
