(* ===== verification/Crypto_Xor.thy ===== *)
theory Crypto_Xor
  imports Go_Prelude
begin

text \<open>
  Package \<open>crypto\<close>, file \<open>xor.go\<close>: the exclusive or of byte strings, in a bulk version over
  machine words and a portable version unrolled by eight. The destination and the source are
  windows of one memory, given by their offsets \<open>d\<close> and \<open>s\<close>, so that the in-place use (\<open>d = s\<close>)
  and the use on separate buffers are both covered; the second operand \<open>b\<close> (a key table) lies
  elsewhere. The machine is a 64-bit one: \<open>wordSize\<close> is 8.
\<close>

unbundle bit_operations_syntax

definition wordSize :: nat where "wordSize = 8"

definition win :: "byte list \<Rightarrow> nat \<Rightarrow> nat \<Rightarrow> byte list" where
  "win m i n = take n (drop i m)"

definition xor_list :: "byte list \<Rightarrow> byte list \<Rightarrow> byte list" where
  "xor_list = map2 (XOR)"

text \<open>\<open>dst[i] = a[i] ^ b[i]\<close> on bytes, and the same on words.\<close>

definition xor_byte :: "nat \<Rightarrow> nat \<Rightarrow> byte list \<Rightarrow> nat \<Rightarrow> byte list \<Rightarrow> byte list" where
  "xor_byte d s b i m = m[d + i := m ! (s + i) XOR b ! i]"

definition xor_word :: "nat \<Rightarrow> nat \<Rightarrow> byte list \<Rightarrow> nat \<Rightarrow> byte list \<Rightarrow> byte list" where
  "xor_word d s b i m =
     overwrite m (d + wordSize * i)
       (xor_list (win m (s + wordSize * i) wordSize) (win b (wordSize * i) wordSize))"

text \<open>The loop \<open>for i := ex; i < n; i += 8\<close> with its body unrolled eight times.\<close>

definition unrolled :: "(nat \<Rightarrow> byte list \<Rightarrow> byte list) \<Rightarrow> nat \<Rightarrow> nat \<Rightarrow> byte list \<Rightarrow> byte list" where
  "unrolled f ex n m =
     fold (\<lambda>k m. let i = ex + 8 * k in
       f (i + 7) (f (i + 6) (f (i + 5) (f (i + 4)
         (f (i + 3) (f (i + 2) (f (i + 1) (f i m))))))))
       [0..<(n - ex + 7) div 8] m"

definition fastXORWords :: "nat \<Rightarrow> nat \<Rightarrow> byte list \<Rightarrow> byte list \<Rightarrow> byte list" where
  "fastXORWords d s b m =
     (let n = length b div wordSize;
          ex = n mod 8;
          m = fold (xor_word d s b) [0..<ex] m
      in unrolled (xor_word d s b) ex n m)"

definition fastXORBytes :: "nat \<Rightarrow> nat \<Rightarrow> nat \<Rightarrow> byte list \<Rightarrow> byte list \<Rightarrow> nat \<times> byte list" where
  "fastXORBytes d s la b m =
     (let n = (if length b < la then length b else la);
          w = n div wordSize;
          m = (if w > 0 then fastXORWords d s (take (w * wordSize) b) m else m)
      in (n, fold (xor_byte d s b) [n - n mod wordSize..<n] m))"

definition safeXORBytes :: "nat \<Rightarrow> nat \<Rightarrow> nat \<Rightarrow> byte list \<Rightarrow> byte list \<Rightarrow> nat \<times> byte list" where
  "safeXORBytes d s la b m =
     (let n = (if length b < la then length b else la);
          ex = n mod 8;
          m = fold (xor_byte d s b) [0..<ex] m
      in (n, unrolled (xor_byte d s b) ex n m))"

definition xorBytes :: "bool \<Rightarrow> nat \<Rightarrow> nat \<Rightarrow> nat \<Rightarrow> byte list \<Rightarrow> byte list \<Rightarrow> nat \<times> byte list" where
  "xorBytes supportsUnaligned d s la b m =
     (if supportsUnaligned then fastXORBytes d s la b m else safeXORBytes d s la b m)"

definition xorWords :: "bool \<Rightarrow> nat \<Rightarrow> nat \<Rightarrow> nat \<Rightarrow> byte list \<Rightarrow> byte list \<Rightarrow> byte list" where
  "xorWords supportsUnaligned d s la b m =
     (if supportsUnaligned then fastXORWords d s b m else snd (safeXORBytes d s la b m))"

section \<open>The reference\<close>

text \<open>The first \<open>n\<close> bytes of the destination become the exclusive or, the rest stays.\<close>

definition xor_ref :: "nat \<Rightarrow> nat \<Rightarrow> byte list \<Rightarrow> nat \<Rightarrow> byte list \<Rightarrow> byte list" where
  "xor_ref d s b n m = overwrite m d (xor_list (win m s n) (take n b))"

text \<open>Windows that are either the same or disjoint, inside the memory.\<close>

definition windows_ok :: "nat \<Rightarrow> nat \<Rightarrow> nat \<Rightarrow> byte list \<Rightarrow> bool" where
  "windows_ok d s n m \<longleftrightarrow> d + n \<le> length m \<and> s + n \<le> length m
     \<and> (d = s \<or> d + n \<le> s \<or> s + n \<le> d)"

lemma length_xor_list [simp]: "length (xor_list xs ys) = min (length xs) (length ys)"
  by (simp add: xor_list_def)

lemma length_win [simp]: "length (win m i n) = min n (length m - i)"
  by (simp add: win_def)

lemma nth_win: "k < n \<Longrightarrow> i + k < length m \<Longrightarrow> win m i n ! k = m ! (i + k)"
  by (simp add: win_def)

lemma nth_xor_list: "k < length xs \<Longrightarrow> k < length ys \<Longrightarrow> xor_list xs ys ! k = xs ! k XOR ys ! k"
  by (simp add: xor_list_def)

lemma windows_ok_mono: "windows_ok d s n m \<Longrightarrow> k \<le> n \<Longrightarrow> windows_ok d s k m"
  by (auto simp: windows_ok_def)

lemma length_xor_ref [simp]:
  "d + n \<le> length m \<Longrightarrow> s + n \<le> length m \<Longrightarrow> n \<le> length b \<Longrightarrow> length (xor_ref d s b n m) = length m"
  by (simp add: xor_ref_def)

lemma nth_xor_ref:
  assumes "windows_ok d s n m" and "n \<le> length b" and "k < length m"
  shows "xor_ref d s b n m ! k =
    (if d \<le> k \<and> k < d + n then m ! (s + (k - d)) XOR b ! (k - d) else m ! k)"
  using assms by (auto simp: xor_ref_def windows_ok_def nth_overwrite nth_xor_list nth_win)

text \<open>One more byte, and one more word.\<close>

lemma xor_byte_ref:
  assumes "windows_ok d s (Suc n) m" and "Suc n \<le> length b"
  shows "xor_byte d s b n (xor_ref d s b n m) = xor_ref d s b (Suc n) m"
proof (rule nth_equalityI)
  have w: "windows_ok d s n m" using assms(1) by (rule windows_ok_mono) simp
  note l = assms(1) [unfolded windows_ok_def]
  show "length (xor_byte d s b n (xor_ref d s b n m)) = length (xor_ref d s b (Suc n) m)"
    using l assms(2) by (simp add: xor_byte_def)
  fix k assume "k < length (xor_byte d s b n (xor_ref d s b n m))"
  then have k: "k < length m" using l assms(2) by (simp add: xor_byte_def)
  have "xor_ref d s b n m ! (s + n) = m ! (s + n)"
    using nth_xor_ref [OF w, of b "s + n"] assms l by auto
  then show "xor_byte d s b n (xor_ref d s b n m) ! k = xor_ref d s b (Suc n) m ! k"
    using nth_xor_ref [OF w, of b k] nth_xor_ref [OF assms k] k l assms(2)
    by (auto simp: xor_byte_def nth_list_update)
qed

lemma xor_word_ref:
  assumes "windows_ok d s (8 * Suc n) m" and "8 * Suc n \<le> length b"
  shows "xor_word d s b n (xor_ref d s b (8 * n) m) = xor_ref d s b (8 * Suc n) m"
proof (rule nth_equalityI)
  have w: "windows_ok d s (8 * n) m" using assms(1) by (rule windows_ok_mono) simp
  note l = assms(1) [unfolded windows_ok_def]
  let ?r = "xor_ref d s b (8 * n) m"
  have lr: "length ?r = length m" using l assms(2) by simp
  show len: "length (xor_word d s b n ?r) = length (xor_ref d s b (8 * Suc n) m)"
    using l assms(2) lr by (auto simp: xor_word_def wordSize_def min_def)
  fix k assume "k < length (xor_word d s b n ?r)"
  then have k: "k < length m" using len l assms(2) by simp
  have src: "?r ! (s + 8 * n + j) = m ! (s + 8 * n + j)" if "j < 8" for j
    using nth_xor_ref [OF w, of b "s + 8 * n + j"] assms l that by auto
  have "xor_word d s b n ?r ! k =
      (if d + 8 * n \<le> k \<and> k < d + 8 * n + 8
       then m ! (s + 8 * n + (k - (d + 8 * n))) XOR b ! (8 * n + (k - (d + 8 * n))) else ?r ! k)"
    using l assms(2) lr k src [of "k - (d + 8 * n)"]
    by (auto simp: xor_word_def wordSize_def nth_overwrite nth_xor_list nth_win)
  then show "xor_word d s b n ?r ! k = xor_ref d s b (8 * Suc n) m ! k"
    using nth_xor_ref [OF w, of b k] nth_xor_ref [OF assms k] k l assms(2)
    by (auto simp: algebra_simps)
qed

section \<open>The loops compute the reference\<close>

lemma xor_ref_0 [simp]: "xor_ref d s b 0 m = m"
  by (simp add: xor_ref_def xor_list_def overwrite_def)

lemma fold_xor_byte:
  assumes "windows_ok d s n m" and "n \<le> length b" and "i \<le> n"
  shows "fold (xor_byte d s b) [i..<n] (xor_ref d s b i m) = xor_ref d s b n m"
  using assms(3,1,2)
proof (induction n rule: dec_induct)
  case (step n)
  then show ?case using windows_ok_mono [OF step.prems(1), of n] by (simp add: xor_byte_ref)
qed simp

lemma fold_xor_word:
  assumes "windows_ok d s (8 * n) m" and "8 * n \<le> length b" and "i \<le> n"
  shows "fold (xor_word d s b) [i..<n] (xor_ref d s b (8 * i) m) = xor_ref d s b (8 * n) m"
  using assms(3,1,2)
proof (induction n rule: dec_induct)
  case (step n)
  then show ?case
    using windows_ok_mono [OF step.prems(1), of "8 * n"] xor_word_ref [of d s n m b] by simp
qed simp

lemma upt_8: "[i..<i + 8] = map (\<lambda>j. i + j) [0, 1, 2, 3, 4, 5, 6, 7]"
  by (simp add: eval_nat_numeral)

lemma unrolled_8:
  "unrolled f ex (ex + 8 * q) m = fold f [ex..<ex + 8 * q] m"
proof -
  have "fold (\<lambda>k m. let i = ex + 8 * k in
       f (i + 7) (f (i + 6) (f (i + 5) (f (i + 4)
         (f (i + 3) (f (i + 2) (f (i + 1) (f i m)))))))) [0..<q] m
     = fold f [ex..<ex + 8 * q] m"
  proof (induction q)
    case (Suc q)
    have "[ex..<ex + 8 * Suc q] = [ex..<ex + 8 * q] @ map (\<lambda>j. ex + 8 * q + j) [0, 1, 2, 3, 4, 5, 6, 7]"
      using upt_add_eq_append [of ex "ex + 8 * q" 8] upt_8 [of "ex + 8 * q"]
      by (simp add: add.assoc add.commute [of 8 "8 * q"])
    then show ?case using Suc by (simp add: Let_def)
  qed simp
  moreover have "(ex + 8 * q - ex + 7) div 8 = q" by simp
  ultimately show ?thesis by (simp add: unrolled_def)
qed

lemma unrolled_eq_fold:
  assumes "ex = n mod 8"
  shows "unrolled f ex n m = fold f [ex..<n] m"
proof -
  have "n = ex + 8 * (n div 8)" using assms by simp
  then show ?thesis using unrolled_8 [of f ex "n div 8" m] by simp
qed

lemma fold_upt_split: "i \<le> n \<Longrightarrow> fold f [i..<n] (fold f [0..<i] m) = fold f [0..<n] m"
  by (metis fold_append comp_apply upt_add_eq_append le0 le_add_diff_inverse plus_nat.add_0)

lemma fastXORWords_ref:
  assumes "windows_ok d s (length b) m" and "length b mod 8 = 0"
  shows "fastXORWords d s b m = xor_ref d s b (length b) m"
proof -
  let ?n = "length b div 8"
  have n: "8 * ?n = length b" using assms(2) by auto
  have "fastXORWords d s b m = fold (xor_word d s b) [0..<?n] m"
    by (simp add: fastXORWords_def Let_def wordSize_def unrolled_eq_fold fold_upt_split)
  then show ?thesis
    using fold_xor_word [of d s ?n m b 0] assms(1) n by simp
qed

lemma xor_ref_take: "n \<le> k \<Longrightarrow> xor_ref d s (take k b) n m = xor_ref d s b n m"
  by (simp add: xor_ref_def min_def)

lemma fastXORBytes_ref:
  assumes "windows_ok d s (min la (length b)) m"
  shows "fastXORBytes d s la b m = (min la (length b), xor_ref d s b (min la (length b)) m)"
proof -
  let ?n = "min la (length b)"
  let ?w = "?n div 8 * 8"
  have n: "(if length b < la then length b else la) = ?n" by simp
  have w: "?w = ?n - ?n mod 8" by (rule minus_mod_eq_div_mult [symmetric])
  have wn: "?w \<le> ?n" by (rule div_times_less_eq_dividend)
  have words: "(if ?n div 8 > 0 then fastXORWords d s (take ?w b) m else m) = xor_ref d s b ?w m"
  proof (cases "?n div 8 > 0")
    case True
    have l: "length (take ?w b) = ?w" using wn by simp
    then show ?thesis
      using True fastXORWords_ref [of d s "take ?w b" m] windows_ok_mono [OF assms wn]
      by (simp add: xor_ref_take)
  qed simp
  have "fold (xor_byte d s b) [?w..<?n] (xor_ref d s b ?w m) = xor_ref d s b ?n m"
    using assms wn by (intro fold_xor_byte) simp_all
  then show ?thesis
    unfolding fastXORBytes_def n Let_def wordSize_def words w [symmetric] by simp
qed

lemma safeXORBytes_ref:
  assumes "windows_ok d s (min la (length b)) m"
  shows "safeXORBytes d s la b m = (min la (length b), xor_ref d s b (min la (length b)) m)"
proof -
  let ?n = "min la (length b)"
  have n: "(if length b < la then length b else la) = ?n" by simp
  have "fold (xor_byte d s b) [0..<?n] m = xor_ref d s b ?n m"
    using fold_xor_byte [OF assms, of b 0] by simp
  moreover have "fold (xor_byte d s b) [?n mod 8..<?n] (fold (xor_byte d s b) [0..<?n mod 8] m)
      = fold (xor_byte d s b) [0..<?n] m"
    by (rule fold_upt_split) (rule mod_less_eq_dividend)
  ultimately show ?thesis
    unfolding safeXORBytes_def n Let_def by (simp only: unrolled_eq_fold)
qed

lemma xorBytes_ref:
  "windows_ok d s (min la (length b)) m \<Longrightarrow>
    xorBytes u d s la b m = (min la (length b), xor_ref d s b (min la (length b)) m)"
  by (simp add: xorBytes_def fastXORBytes_ref safeXORBytes_ref)

text \<open>
  C11: the bulk version over machine words and the portable unrolled version compute the same
  thing: the first \<open>n\<close> bytes of the destination become the exclusive or of the operands, with
  \<open>n\<close> the length of the shorter one, and every other byte of the memory stays, whether the
  destination is the source itself or a buffer of its own.
\<close>

theorem xorBytes_equivalence:
  assumes "windows_ok d s (min la (length b)) m" and "k < length m"
  shows "fastXORBytes d s la b m = safeXORBytes d s la b m
    \<and> fst (xorBytes u d s la b m) = min la (length b)
    \<and> snd (xorBytes u d s la b m) ! k =
        (if d \<le> k \<and> k < d + min la (length b)
         then m ! (s + (k - d)) XOR b ! (k - d) else m ! k)"
  using fastXORBytes_ref [OF assms(1)] safeXORBytes_ref [OF assms(1)]
    xorBytes_ref [OF assms(1), of u] nth_xor_ref [OF assms(1) _ assms(2), of b]
  by simp

theorem xorBytes_equivalence_witness:
  "fastXORBytes 0 0 11 (replicate 20 255) [1, 2, 3, 4, 5, 6, 7, 8, 9, 10, 11, 12]
     = safeXORBytes 0 0 11 (replicate 20 255) [1, 2, 3, 4, 5, 6, 7, 8, 9, 10, 11, 12]
   \<and> snd (xorBytes True 0 0 11 (replicate 20 255) [1, 2, 3, 4, 5, 6, 7, 8, 9, 10, 11, 12]) ! 10 = 244"
proof -
  have "windows_ok 0 0 (min 11 (length (replicate 20 (255 :: byte))))
      [1, 2, 3, 4, 5, 6, 7, 8, 9, 10, 11, 12]"
    by (simp add: windows_ok_def)
  from xorBytes_equivalence [OF this, of 10 True] show ?thesis by simp
qed

end
