(* ===== verification/Crypto_Cfb.thy ===== *)
theory Crypto_Cfb
  imports Crypto_Xor
begin

text \<open>
  Package \<open>crypto\<close>, the functions \<open>encrypt\<close> and \<open>decrypt\<close> of \<open>crypt.go\<close>: cipher feedback mode
  over a block cipher. The block ciphers themselves come from Go's library: \<open>block_cipher\<close> states
  what the code relies on, a block size of one or two machine words and an \<open>Encrypt\<close> that yields
  one block for one block. Only the forward direction of the cipher is ever used.
\<close>

record cipher_Block =
  bc_BlockSize :: nat
  bc_Encrypt :: "byte list \<Rightarrow> byte list"

definition initialVector :: "byte list" where
  "initialVector = [167, 115, 79, 156, 18, 172, 27, 1, 164, 21, 242, 193, 252, 120, 230, 107]"

definition encrypt :: "bool \<Rightarrow> cipher_Block \<Rightarrow> nat \<Rightarrow> nat \<Rightarrow> nat \<Rightarrow> byte list \<Rightarrow> byte list" where
  "encrypt u block d s len m =
     (let blocksize = bc_BlockSize block;
          tbl = bc_Encrypt block (take blocksize initialVector);
          n = len div blocksize;
          (m, tbl, base) =
            fold (\<lambda>_ (m, tbl, base).
              let m = xorWords u (d + base) (s + base) (len - base) tbl m;
                  tbl = bc_Encrypt block (win m (d + base) blocksize)
              in (m, tbl, base + blocksize)) [0..<n] (m, tbl, 0)
      in snd (xorBytes u (d + base) (s + base) (len - base) tbl m))"

definition decrypt :: "bool \<Rightarrow> cipher_Block \<Rightarrow> nat \<Rightarrow> nat \<Rightarrow> nat \<Rightarrow> byte list \<Rightarrow> byte list" where
  "decrypt u block d s len m =
     (let blocksize = bc_BlockSize block;
          tbl = bc_Encrypt block (take blocksize initialVector);
          n = len div blocksize;
          (m, tbl, base) =
            fold (\<lambda>_ (m, tbl, base).
              let next = bc_Encrypt block (win m (s + base) blocksize);
                  m = xorWords u (d + base) (s + base) (len - base) tbl m
              in (m, next, base + blocksize)) [0..<n] (m, tbl, 0)
      in snd (xorBytes u (d + base) (s + base) (len - base) tbl m))"

section \<open>The reference: cipher feedback on lists\<close>

text \<open>
  The next table is made from the plain and the ciphered block, \<open>f src out\<close>: from the output
  when encrypting, from the input when decrypting.
\<close>

function cfb :: "(byte list \<Rightarrow> byte list \<Rightarrow> byte list) \<Rightarrow> nat \<Rightarrow> byte list \<Rightarrow> byte list \<Rightarrow> byte list"
where
  "cfb f bs tbl xs =
     (if bs = 0 \<or> length xs < bs then xor_list xs tbl
      else let out = xor_list (take bs xs) tbl
           in out @ cfb f bs (f (take bs xs) out) (drop bs xs))"
  by pat_completeness auto
termination by (relation "measure (\<lambda>(_, _, _, xs). length xs)") auto

declare cfb.simps [simp del]

definition block_ok :: "cipher_Block \<Rightarrow> bool" where
  "block_ok c \<longleftrightarrow> (bc_BlockSize c = 8 \<or> bc_BlockSize c = 16)
     \<and> (\<forall>x. length x = bc_BlockSize c \<longrightarrow> length (bc_Encrypt c x) = bc_BlockSize c)"

lemma block_okD:
  assumes "block_ok c"
  shows "0 < bc_BlockSize c" and "bc_BlockSize c mod 8 = 0" and "bc_BlockSize c \<le> 16"
    and "length x = bc_BlockSize c \<Longrightarrow> length (bc_Encrypt c x) = bc_BlockSize c"
    and "length (take (bc_BlockSize c) initialVector) = bc_BlockSize c"
  using assms by (auto simp: block_ok_def initialVector_def)

lemma xor_list_self [simp]: "xor_list (xor_list xs tbl) tbl = take (length tbl) xs"
proof (rule nth_equalityI)
  fix k assume "k < length (xor_list (xor_list xs tbl) tbl)"
  then show "xor_list (xor_list xs tbl) tbl ! k = take (length tbl) xs ! k"
    by (simp add: nth_xor_list xor.assoc)
qed simp

lemma xor_list_append:
  "length xs = length ys \<Longrightarrow> xor_list (xs @ xs') (ys @ ys') = xor_list xs ys @ xor_list xs' ys'"
  by (simp add: xor_list_def)

lemma length_cfb:
  assumes "bs > 0" and "length tbl = bs"
    and "\<And>x y. length x = bs \<Longrightarrow> length y = bs \<Longrightarrow> length (f x y) = bs"
  shows "length (cfb f bs tbl xs) = length xs"
  using assms(2)
proof (induction xs arbitrary: tbl rule: length_induct)
  case (1 xs)
  show ?case
  proof (cases "length xs < bs")
    case True
    then show ?thesis using 1 by (simp add: cfb.simps)
  next
    case False
    then have "length (drop bs xs) < length xs" using assms(1) by simp
    then show ?thesis
      using 1 False assms(1,3) by (simp add: cfb.simps [of _ _ _ xs] Let_def)
  qed
qed

text \<open>Decrypting what was encrypted gives it back.\<close>

lemma cfb_inverse:
  assumes "bs > 0" and "length tbl = bs" and E: "\<And>x. length x = bs \<Longrightarrow> length (E x) = bs"
  shows "cfb (\<lambda>src _. E src) bs tbl (cfb (\<lambda>_ out. E out) bs tbl xs) = xs"
  using assms(2)
proof (induction xs arbitrary: tbl rule: length_induct)
  case (1 xs)
  show ?case
  proof (cases "length xs < bs")
    case True
    then show ?thesis using 1(2) by (simp add: cfb.simps)
  next
    case False
    let ?c = "xor_list (take bs xs) tbl"
    have l: "length ?c = bs" using False 1(2) by simp
    have "length (drop bs xs) < length xs" using False assms(1) by simp
    moreover have "length (E ?c) = bs" using E l by simp
    ultimately have IH: "cfb (\<lambda>src _. E src) bs (E ?c)
        (cfb (\<lambda>_ out. E out) bs (E ?c) (drop bs xs)) = drop bs xs"
      using 1(1) by blast
    have enc: "cfb (\<lambda>_ out. E out) bs tbl xs = ?c @ cfb (\<lambda>_ out. E out) bs (E ?c) (drop bs xs)"
      using False assms(1) by (simp add: cfb.simps [of _ _ _ xs] Let_def)
    show ?thesis
      unfolding enc
      by (subst cfb.simps) (use l assms(1) 1(2) False IH in \<open>simp add: Let_def\<close>)
  qed
qed

section \<open>The loops compute the reference\<close>

lemma overwrite_overwrite:
  "i + length xs + length ys \<le> length m \<Longrightarrow>
    overwrite (overwrite m i xs) (i + length xs) ys = overwrite m i (xs @ ys)"
  by (simp add: overwrite_def ac_simps)

lemma win_overwrite_same:
  "i + length xs \<le> length m \<Longrightarrow> win (overwrite m i xs) i (length xs) = xs"
  by (simp add: win_def overwrite_window)

text \<open>The part of the source that was not reached yet is as it was.\<close>

lemma win_overwrite_rest:
  assumes "windows_ok d s n m" and "length xs + k \<le> n"
  shows "win (overwrite m d xs) (s + length xs) k = win m (s + length xs) k"
proof (rule nth_equalityI)
  note w = assms(1) [unfolded windows_ok_def]
  have l: "length (overwrite m d xs) = length m" using w assms(2) by simp
  then show "length (win (overwrite m d xs) (s + length xs) k) = length (win m (s + length xs) k)"
    by simp
  fix i assume "i < length (win (overwrite m d xs) (s + length xs) k)"
  then have "i < k" by simp
  then show "win (overwrite m d xs) (s + length xs) k ! i = win m (s + length xs) k ! i"
    using w assms(2) l by (auto simp: nth_win nth_overwrite)
qed

definition cfb_loop ::
  "bool \<Rightarrow> (byte list \<Rightarrow> byte list \<Rightarrow> byte list) \<Rightarrow> nat \<Rightarrow> nat \<Rightarrow> nat \<Rightarrow> nat
    \<Rightarrow> nat \<Rightarrow> byte list \<times> byte list \<times> nat \<Rightarrow> byte list \<times> byte list \<times> nat" where
  "cfb_loop u f bs d s len n =
     fold (\<lambda>_ (m, tbl, base).
       let m' = xorWords u (d + base) (s + base) (len - base) tbl m
       in (m', f (win m (s + base) bs) (win m' (d + base) bs), base + bs)) [0..<n]"

lemma cfb_loop_Suc:
  "cfb_loop u f bs d s len (Suc n) st =
     (case cfb_loop u f bs d s len n st of (m, tbl, base) \<Rightarrow>
       let m' = xorWords u (d + base) (s + base) (len - base) tbl m
       in (m', f (win m (s + base) bs) (win m' (d + base) bs), base + bs))"
  by (simp add: cfb_loop_def)

lemma xorWords_ref:
  assumes "windows_ok d s (length b) m" and "length b mod 8 = 0" and "length b \<le> la"
  shows "xorWords u d s la b m = xor_ref d s b (length b) m"
  using assms by (simp add: xorWords_def fastXORWords_ref safeXORBytes_ref min_absorb2)

lemma xor_list_take: "length xs \<le> n \<Longrightarrow> xor_list xs (take n ys) = xor_list xs ys"
  by (rule nth_equalityI) (auto simp: nth_xor_list)

lemma windows_ok_shift:
  "windows_ok d s len m \<Longrightarrow> length m' = length m \<Longrightarrow> k + n \<le> len \<Longrightarrow>
    windows_ok (d + k) (s + k) n m'"
  by (auto simp: windows_ok_def)

text \<open>One turn of the loop, on the part of the output that is already in place.\<close>

lemma cfb_turn:
  assumes w: "windows_ok d s len m0" and bs: "0 < bs" "bs mod 8 = 0"
    and tbl: "length tbl = bs" and pre: "length pre + bs \<le> len"
  defines "m \<equiv> overwrite m0 d pre" and "src \<equiv> win m0 (s + length pre) bs"
  shows "xorWords u (d + length pre) (s + length pre) (len - length pre) tbl m
      = overwrite m0 d (pre @ xor_list src tbl)"
    and "win m (s + length pre) bs = src"
    and "win (overwrite m0 d (pre @ xor_list src tbl)) (d + length pre) bs = xor_list src tbl"
proof -
  note l = w [unfolded windows_ok_def]
  have lm: "length m = length m0" using l pre by (simp add: m_def)
  show rest: "win m (s + length pre) bs = src"
    unfolding m_def src_def by (rule win_overwrite_rest [OF w]) (use pre in simp)
  have o: "length (xor_list src tbl) = bs" using l pre tbl by (auto simp: src_def)
  have "windows_ok (d + length pre) (s + length pre) (length tbl) m"
    using l lm pre tbl by (auto simp: windows_ok_def)
  then have "xorWords u (d + length pre) (s + length pre) (len - length pre) tbl m
      = overwrite m (d + length pre) (xor_list src tbl)"
    using tbl bs pre rest by (simp add: xorWords_ref xor_ref_def)
  then show "xorWords u (d + length pre) (s + length pre) (len - length pre) tbl m
      = overwrite m0 d (pre @ xor_list src tbl)"
    using overwrite_overwrite [of d pre "xor_list src tbl" m0] l o pre by (simp add: m_def)
  have "overwrite m0 d (pre @ xor_list src tbl)
      = overwrite (overwrite m0 d pre) (d + length pre) (xor_list src tbl)"
    using overwrite_overwrite [of d pre "xor_list src tbl" m0] l o pre by simp
  then show "win (overwrite m0 d (pre @ xor_list src tbl)) (d + length pre) bs = xor_list src tbl"
    using win_overwrite_same [of "d + length pre" "xor_list src tbl" "overwrite m0 d pre"] o l pre
    by simp
qed

lemma cfb_loop_ref:
  assumes w: "windows_ok d s len m0" and bs: "0 < bs" "bs mod 8 = 0" and tbl0: "length tbl0 = bs"
    and f: "\<And>x y. length x = bs \<Longrightarrow> length y = bs \<Longrightarrow> length (f x y) = bs"
  defines "xs \<equiv> win m0 s len"
  defines "out \<equiv> cfb f bs tbl0 xs"
  assumes "k * bs \<le> len"
  shows "\<exists>tbl. cfb_loop u f bs d s len k (m0, tbl0, 0)
      = (overwrite m0 d (take (k * bs) out), tbl, k * bs)
    \<and> length tbl = bs \<and> drop (k * bs) out = cfb f bs tbl (drop (k * bs) xs)"
  using assms(8)
proof (induction k)
  case 0
  then show ?case
    using tbl0 by (intro exI [of _ tbl0]) (simp add: cfb_loop_def overwrite_def out_def)
next
  case (Suc k)
  note l = w [unfolded windows_ok_def]
  have lxs: "length xs = len" using l by (auto simp: xs_def)
  have lout: "length out = len" using length_cfb [OF bs(1) tbl0 f] lxs by (simp add: out_def)
  obtain tbl where IH: "cfb_loop u f bs d s len k (m0, tbl0, 0)
      = (overwrite m0 d (take (k * bs) out), tbl, k * bs)" "length tbl = bs"
    "drop (k * bs) out = cfb f bs tbl (drop (k * bs) xs)"
    using Suc by auto
  let ?pre = "take (k * bs) out"
  have pre: "length ?pre = k * bs" "length ?pre + bs \<le> len" using Suc.prems lout by simp_all
  let ?src = "win m0 (s + k * bs) bs" and ?o = "xor_list (win m0 (s + k * bs) bs) tbl"
  note turn = cfb_turn [OF w bs IH(2) pre(2), unfolded pre(1)]
  have src: "?src = take bs (drop (k * bs) xs)"
    using Suc.prems by (simp add: xs_def win_def drop_take add.commute)
  have o: "length ?o = bs" using l Suc.prems IH(2) by auto
  have "\<not> length (drop (k * bs) xs) < bs" using lxs Suc.prems by simp
  then have step: "drop (k * bs) out = ?o @ cfb f bs (f ?src ?o) (drop bs (drop (k * bs) xs))"
    unfolding IH(3) src using bs(1) by (subst cfb.simps) (simp add: Let_def)
  then have "take (Suc k * bs) out = ?pre @ ?o"
    using take_add [of "k * bs" bs out] o by (simp add: add.commute)
  moreover have "drop (Suc k * bs) out = cfb f bs (f ?src ?o) (drop (Suc k * bs) xs)"
    using arg_cong [OF step, of "drop bs"] o by (simp add: add.commute)
  moreover have "cfb_loop u f bs d s len (Suc k) (m0, tbl0, 0)
      = (overwrite m0 d (?pre @ ?o), f ?src ?o, Suc k * bs)"
    using IH(1) turn by (simp add: cfb_loop_Suc Let_def add.commute)
  moreover have "length (f ?src ?o) = bs" using l Suc.prems o by (intro f) auto
  ultimately show ?case by auto
qed

text \<open>The last, partial block, and the whole.\<close>

lemma cfb_loop_end:
  assumes w: "windows_ok d s len m0" and bs: "0 < bs" "bs mod 8 = 0" and tbl0: "length tbl0 = bs"
    and f: "\<And>x y. length x = bs \<Longrightarrow> length y = bs \<Longrightarrow> length (f x y) = bs"
  shows "(case cfb_loop u f bs d s len (len div bs) (m0, tbl0, 0) of (m, tbl, base) \<Rightarrow>
      snd (xorBytes u (d + base) (s + base) (len - base) tbl m))
    = overwrite m0 d (cfb f bs tbl0 (win m0 s len))"
proof -
  let ?xs = "win m0 s len" and ?k = "len div bs * bs"
  let ?out = "cfb f bs tbl0 ?xs"
  note l = w [unfolded windows_ok_def]
  have lxs: "length ?xs = len" using l by auto
  have lout: "length ?out = len" using length_cfb [OF bs(1) tbl0 f] lxs by simp
  have k: "?k \<le> len" by (rule div_times_less_eq_dividend)
  have r: "len - ?k < bs" using bs(1) by (simp add: minus_div_mult_eq_mod)
  obtain tbl where tbl: "cfb_loop u f bs d s len (len div bs) (m0, tbl0, 0)
      = (overwrite m0 d (take ?k ?out), tbl, ?k)" "length tbl = bs"
    "drop ?k ?out = cfb f bs tbl (drop ?k ?xs)"
    using cfb_loop_ref [OF w bs tbl0, of f "len div bs" u] f k by blast
  let ?m = "overwrite m0 d (take ?k ?out)"
  have pre: "length (take ?k ?out) = ?k" using lout k by simp
  have rest: "win ?m (s + ?k) (len - ?k) = drop ?k ?xs"
    using win_overwrite_rest [OF w, of "take ?k ?out" "len - ?k"] k
    by (simp only: pre) (simp add: win_def drop_take add.commute)
  have last: "drop ?k ?out = xor_list (drop ?k ?xs) tbl"
    using tbl(3) r lxs by (simp add: cfb.simps [of _ _ _ "drop ?k ?xs"])
  have "d + length (take ?k ?out) \<le> length m0" using l k by (simp only: pre) linarith
  then have lm: "length ?m = length m0" by (rule length_overwrite)
  then have "windows_ok (d + ?k) (s + ?k) (min (len - ?k) (length tbl)) ?m"
    by (rule windows_ok_shift [OF w]) (use k in linarith)
  then have "snd (xorBytes u (d + ?k) (s + ?k) (len - ?k) tbl ?m)
      = overwrite ?m (d + ?k) (xor_list (drop ?k ?xs) (take (len - ?k) tbl))"
    using r tbl(2) rest by (simp add: xorBytes_ref xor_ref_def)
  also have "xor_list (drop ?k ?xs) (take (len - ?k) tbl) = drop ?k ?out"
    using lxs by (simp add: last xor_list_take)
  also have "overwrite ?m (d + ?k) (drop ?k ?out) = overwrite m0 d ?out"
    using overwrite_overwrite [of d "take ?k ?out" "drop ?k ?out" m0] l lout pre
    by (simp only: pre) auto
  finally show ?thesis using tbl(1) by simp
qed

lemma encrypt_ref:
  assumes "block_ok c" and "windows_ok d s len m"
  shows "encrypt u c d s len m = overwrite m d
    (cfb (\<lambda>_ out. bc_Encrypt c out) (bc_BlockSize c)
      (bc_Encrypt c (take (bc_BlockSize c) initialVector)) (win m s len))"
proof -
  note c = block_okD [OF assms(1)]
  have "encrypt u c d s len m =
    (case cfb_loop u (\<lambda>_ out. bc_Encrypt c out) (bc_BlockSize c) d s len (len div bc_BlockSize c)
       (m, bc_Encrypt c (take (bc_BlockSize c) initialVector), 0) of (m, tbl, base) \<Rightarrow>
      snd (xorBytes u (d + base) (s + base) (len - base) tbl m))"
    by (simp add: encrypt_def cfb_loop_def Let_def)
  also have "\<dots> = overwrite m d (cfb (\<lambda>_ out. bc_Encrypt c out) (bc_BlockSize c)
      (bc_Encrypt c (take (bc_BlockSize c) initialVector)) (win m s len))"
    by (rule cfb_loop_end [OF assms(2) c(1,2) c(4) [OF c(5)]]) (rule c(4))
  finally show ?thesis .
qed

lemma decrypt_ref:
  assumes "block_ok c" and "windows_ok d s len m"
  shows "decrypt u c d s len m = overwrite m d
    (cfb (\<lambda>src _. bc_Encrypt c src) (bc_BlockSize c)
      (bc_Encrypt c (take (bc_BlockSize c) initialVector)) (win m s len))"
proof -
  note c = block_okD [OF assms(1)]
  have "decrypt u c d s len m =
    (case cfb_loop u (\<lambda>src _. bc_Encrypt c src) (bc_BlockSize c) d s len (len div bc_BlockSize c)
       (m, bc_Encrypt c (take (bc_BlockSize c) initialVector), 0) of (m, tbl, base) \<Rightarrow>
      snd (xorBytes u (d + base) (s + base) (len - base) tbl m))"
    by (simp add: decrypt_def cfb_loop_def Let_def)
  also have "\<dots> = overwrite m d (cfb (\<lambda>src _. bc_Encrypt c src) (bc_BlockSize c)
      (bc_Encrypt c (take (bc_BlockSize c) initialVector)) (win m s len))"
    by (rule cfb_loop_end [OF assms(2) c(1,2) c(4) [OF c(5)]]) (rule c(4))
  finally show ?thesis .
qed

lemma windows_ok_same: "windows_ok o' o' len m \<longleftrightarrow> o' + len \<le> length m"
  by (auto simp: windows_ok_def)

lemma overwrite_window_id: "i + n \<le> length m \<Longrightarrow> overwrite m i (win m i n) = m"
  by (simp add: overwrite_def win_def min_absorb2)
    (metis append_take_drop_id drop_drop add.commute append_assoc)

text \<open>
  C10: decrypting in place what was encrypted in place restores the memory, for every data length,
  every supported block cipher and both variants of the exclusive or; in between only the bytes of
  the data window have changed. This is how packets are encrypted and decrypted in their buffers.
\<close>

theorem decrypt_encrypt_in_place:
  assumes "block_ok c" and "i + len \<le> length m"
  shows "decrypt u' c i i len (encrypt u c i i len m) = m
    \<and> length (encrypt u c i i len m) = length m
    \<and> take i (encrypt u c i i len m) = take i m
    \<and> drop (i + len) (encrypt u c i i len m) = drop (i + len) m"
proof -
  let ?bs = "bc_BlockSize c" and ?iv = "bc_Encrypt c (take (bc_BlockSize c) initialVector)"
  let ?e = "cfb (\<lambda>_ out. bc_Encrypt c out) ?bs ?iv (win m i len)"
  let ?m = "overwrite m i ?e"
  note c = block_okD [OF assms(1)]
  have le: "length ?e = len"
    using length_cfb [OF c(1) c(4) [OF c(5)]] c(4) assms(2) by simp
  have enc: "encrypt u c i i len m = ?m"
    using assms by (intro encrypt_ref) (simp_all add: windows_ok_same)
  have lm: "length ?m = length m" using assms(2) le by simp
  have "win ?m i len = ?e"
    using win_overwrite_same [of i ?e m] assms(2) le by simp
  then have "decrypt u' c i i len ?m
      = overwrite ?m i (cfb (\<lambda>src _. bc_Encrypt c src) ?bs ?iv ?e)"
    using assms lm by (subst decrypt_ref) (simp_all add: windows_ok_same)
  also have "cfb (\<lambda>src _. bc_Encrypt c src) ?bs ?iv ?e = win m i len"
    using c(1,4,5) by (intro cfb_inverse) simp_all
  also have "overwrite ?m i (win m i len) = m"
    using overwrite_window_id [OF assms(2)] le assms(2) by (simp add: overwrite_def)
  finally have "decrypt u' c i i len ?m = m" .
  then show ?thesis
    using enc lm le assms(2) by (simp add: overwrite_def)
qed

text \<open>A toy block cipher for the concrete run: it adds one to every byte.\<close>

definition add_one :: cipher_Block where
  "add_one = \<lparr>bc_BlockSize = 8, bc_Encrypt = List.map ((+) 1)\<rparr>"

theorem decrypt_encrypt_in_place_witness:
  "decrypt False add_one 2 2 13 (encrypt True add_one 2 2 13 (replicate 16 7)) = replicate 16 7"
proof -
  have "block_ok add_one" by (simp add: block_ok_def add_one_def)
  then show ?thesis
    using decrypt_encrypt_in_place [of add_one 2 13 "replicate 16 7" False True] by simp
qed

end
