(* ===== verification/Crypto_Block.thy ===== *)
theory Crypto_Block
  imports Crypto_Cfb
begin

text \<open>
  Package \<open>crypto\<close>, the types of \<open>crypt.go\<close> that implement \<open>BlockCrypt\<close> and their selection by
  name (\<open>NewBlockCrypt\<close>), and \<open>vnet/crypto.go\<close>: the table of ciphers by number. The primitives of
  Go's libraries are the fields of \<open>crypto_lib\<close>; \<open>lib_ok\<close> states what their documentation says.
\<close>

record crypto_lib =
  cl_pbkdf2 :: "byte list \<Rightarrow> byte list \<Rightarrow> nat \<Rightarrow> nat \<Rightarrow> byte list"
  cl_tea :: "byte list \<Rightarrow> cipher_Block option"
  cl_aes :: "byte list \<Rightarrow> cipher_Block option"
  cl_blowfish :: "byte list \<Rightarrow> cipher_Block option"
  cl_twofish :: "byte list \<Rightarrow> cipher_Block option"
  cl_cast5 :: "byte list \<Rightarrow> cipher_Block option"
  cl_des3 :: "byte list \<Rightarrow> cipher_Block option"
  cl_xtea :: "byte list \<Rightarrow> cipher_Block option"
  cl_salsa20 :: "byte list \<Rightarrow> byte list \<Rightarrow> nat \<Rightarrow> byte list"

datatype BlockCrypt =
    salsa20BlockCrypt "byte list"
  | twofishBlockCrypt cipher_Block
  | tripleDESBlockCrypt cipher_Block
  | cast5BlockCrypt cipher_Block
  | blowfishBlockCrypt cipher_Block
  | aesBlockCrypt cipher_Block
  | teaBlockCrypt cipher_Block
  | xteaBlockCrypt cipher_Block
  | simpleXORBlockCrypt "byte list"
  | noneBlockCrypt

definition string_bytes :: "string \<Rightarrow> byte list" where
  "string_bytes s = map (\<lambda>c. word_of_nat (of_char c)) s"

lemma length_string_bytes [simp]: "length (string_bytes s) = length s"
  by (simp add: string_bytes_def)

definition SALT :: string where "SALT = ''mjw_go_-vnet''"
definition saltxor :: string where "saltxor = ''Mjw13VoF#rWLtJo6''"

definition NewSalsa20BlockCrypt :: "byte list \<Rightarrow> BlockCrypt option" where
  "NewSalsa20BlockCrypt key = Some (salsa20BlockCrypt (overwrite (replicate 32 0) 0 (take 32 key)))"

definition NewTwofishBlockCrypt :: "crypto_lib \<Rightarrow> byte list \<Rightarrow> BlockCrypt option" where
  "NewTwofishBlockCrypt lib key = map_option twofishBlockCrypt (cl_twofish lib key)"

definition NewTripleDESBlockCrypt :: "crypto_lib \<Rightarrow> byte list \<Rightarrow> BlockCrypt option" where
  "NewTripleDESBlockCrypt lib key = map_option tripleDESBlockCrypt (cl_des3 lib key)"

definition NewCast5BlockCrypt :: "crypto_lib \<Rightarrow> byte list \<Rightarrow> BlockCrypt option" where
  "NewCast5BlockCrypt lib key = map_option cast5BlockCrypt (cl_cast5 lib key)"

definition NewBlowfishBlockCrypt :: "crypto_lib \<Rightarrow> byte list \<Rightarrow> BlockCrypt option" where
  "NewBlowfishBlockCrypt lib key = map_option blowfishBlockCrypt (cl_blowfish lib key)"

definition NewAESBlockCrypt :: "crypto_lib \<Rightarrow> byte list \<Rightarrow> BlockCrypt option" where
  "NewAESBlockCrypt lib key = map_option aesBlockCrypt (cl_aes lib key)"

definition NewTEABlockCrypt :: "crypto_lib \<Rightarrow> byte list \<Rightarrow> BlockCrypt option" where
  "NewTEABlockCrypt lib key = map_option teaBlockCrypt (cl_tea lib key)"

definition NewXTEABlockCrypt :: "crypto_lib \<Rightarrow> byte list \<Rightarrow> BlockCrypt option" where
  "NewXTEABlockCrypt lib key = map_option xteaBlockCrypt (cl_xtea lib key)"

definition NewSimpleXORBlockCrypt :: "crypto_lib \<Rightarrow> byte list \<Rightarrow> BlockCrypt option" where
  "NewSimpleXORBlockCrypt lib key =
     Some (simpleXORBlockCrypt (cl_pbkdf2 lib key (string_bytes saltxor) 32 1500))"

definition NewNoneBlockCrypt :: "byte list \<Rightarrow> BlockCrypt option" where
  "NewNoneBlockCrypt key = Some noneBlockCrypt"

text \<open>\<open>flgKey\<close> is the pre-shared secret of the command line.\<close>

definition NewBlockCrypt :: "crypto_lib \<Rightarrow> byte list \<Rightarrow> string \<Rightarrow> BlockCrypt option" where
  "NewBlockCrypt lib flgKey cry =
     (let pass = cl_pbkdf2 lib flgKey (string_bytes SALT) 4096 32 in
      if cry = ''tea'' then NewTEABlockCrypt lib (take 16 pass)
      else if cry = ''xor'' then NewSimpleXORBlockCrypt lib pass
      else if cry = ''none'' then NewNoneBlockCrypt pass
      else if cry = ''aes-128'' then NewAESBlockCrypt lib (take 16 pass)
      else if cry = ''aes-192'' then NewAESBlockCrypt lib (take 24 pass)
      else if cry = ''blowfish'' then NewBlowfishBlockCrypt lib pass
      else if cry = ''twofish'' then NewTwofishBlockCrypt lib pass
      else if cry = ''cast5'' then NewCast5BlockCrypt lib (take 16 pass)
      else if cry = ''3des'' then NewTripleDESBlockCrypt lib (take 24 pass)
      else if cry = ''xtea'' then NewXTEABlockCrypt lib (take 16 pass)
      else if cry = ''salsa20'' then NewSalsa20BlockCrypt pass
      else NewAESBlockCrypt lib pass)"

section \<open>The methods\<close>

text \<open>
  \<open>salsa20.XORKeyStream(dst[8:], src[8:], src[:8], key)\<close>: slicing a shorter source panics. The
  arguments are the windows \<open>d\<close>, \<open>s\<close> of length \<open>len\<close> in one memory, as in \<open>Crypto_Xor\<close>.
\<close>

definition salsa20_crypt ::
  "crypto_lib \<Rightarrow> byte list \<Rightarrow> nat \<Rightarrow> nat \<Rightarrow> nat \<Rightarrow> byte list \<Rightarrow> byte list res" where
  "salsa20_crypt lib key d s len m =
     (if len < 8 then Inl SliceOutOfRange
      else let stream = cl_salsa20 lib key (win m s 8) (len - 8);
               m = overwrite m (d + 8) (xor_list (win m (s + 8) (len - 8)) stream)
           in Inr (overwrite m d (win m s 8)))"

definition Crypt_Encrypt ::
  "crypto_lib \<Rightarrow> bool \<Rightarrow> BlockCrypt \<Rightarrow> nat \<Rightarrow> nat \<Rightarrow> nat \<Rightarrow> byte list \<Rightarrow> byte list res" where
  "Crypt_Encrypt lib u c d s len m =
     (case c of
        salsa20BlockCrypt key \<Rightarrow> salsa20_crypt lib key d s len m
      | twofishBlockCrypt block \<Rightarrow> Inr (encrypt u block d s len m)
      | tripleDESBlockCrypt block \<Rightarrow> Inr (encrypt u block d s len m)
      | cast5BlockCrypt block \<Rightarrow> Inr (encrypt u block d s len m)
      | blowfishBlockCrypt block \<Rightarrow> Inr (encrypt u block d s len m)
      | aesBlockCrypt block \<Rightarrow> Inr (encrypt u block d s len m)
      | teaBlockCrypt block \<Rightarrow> Inr (encrypt u block d s len m)
      | xteaBlockCrypt block \<Rightarrow> Inr (encrypt u block d s len m)
      | simpleXORBlockCrypt xortbl \<Rightarrow> Inr (snd (xorBytes u d s len xortbl m))
      | noneBlockCrypt \<Rightarrow> Inr (overwrite m d (win m s len)))"

definition Crypt_Decrypt ::
  "crypto_lib \<Rightarrow> bool \<Rightarrow> BlockCrypt \<Rightarrow> nat \<Rightarrow> nat \<Rightarrow> nat \<Rightarrow> byte list \<Rightarrow> byte list res" where
  "Crypt_Decrypt lib u c d s len m =
     (case c of
        salsa20BlockCrypt key \<Rightarrow> salsa20_crypt lib key d s len m
      | twofishBlockCrypt block \<Rightarrow> Inr (decrypt u block d s len m)
      | tripleDESBlockCrypt block \<Rightarrow> Inr (decrypt u block d s len m)
      | cast5BlockCrypt block \<Rightarrow> Inr (decrypt u block d s len m)
      | blowfishBlockCrypt block \<Rightarrow> Inr (decrypt u block d s len m)
      | aesBlockCrypt block \<Rightarrow> Inr (decrypt u block d s len m)
      | teaBlockCrypt block \<Rightarrow> Inr (decrypt u block d s len m)
      | xteaBlockCrypt block \<Rightarrow> Inr (decrypt u block d s len m)
      | simpleXORBlockCrypt xortbl \<Rightarrow> Inr (snd (xorBytes u d s len xortbl m))
      | noneBlockCrypt \<Rightarrow> Inr (overwrite m d (win m s len)))"

section \<open>The table of ciphers of \<open>vnet\<close>\<close>

definition CRY_END :: byte where "CRY_END = 0xC"

definition CRYtoString :: "string list" where
  "CRYtoString = ['''', ''xor'', ''none'', ''aes-128'', ''aes-192'', ''aes'', ''blowfish'',
     ''twofish'', ''cast5'', ''3des'', ''xtea'', ''salsa20'']"

text \<open>
  \<open>crypts[c], _ = crypto.NewBlockCrypt(...)\<close> ignores the error: the entry is then a \<open>nil\<close>
  interface, \<open>Some None\<close> here.
\<close>

definition crypts :: "crypto_lib \<Rightarrow> byte list \<Rightarrow> byte \<Rightarrow> BlockCrypt option option" where
  "crypts lib flgKey c =
     (if 1 \<le> c \<and> c < CRY_END then Some (NewBlockCrypt lib flgKey (CRYtoString ! unat c)) else None)"

text \<open>The loop returns at the first match; without one it panics.\<close>

definition SetDefaultCryptType :: "string \<Rightarrow> byte res" where
  "SetDefaultCryptType cts =
     (case filter (\<lambda>(ct, s). s = cts) (zip [0..<length CRYtoString] CRYtoString) of
        [] \<Rightarrow> Inl (PanicMsg ''no support'')
      | (ct, _) # _ \<Rightarrow> Inr (word_of_nat ct))"

section \<open>The contract of a packet cipher\<close>

text \<open>
  What the packet path relies on: a cipher in working order processes a window of the packet
  buffer in place, changes nothing outside it, and decryption undoes encryption. Stream ciphers
  need a minimal length.
\<close>

locale packet_cipher =
  fixes ok :: "'c \<Rightarrow> bool"
    and min_len :: "'c \<Rightarrow> nat"
    and Enc :: "'c \<Rightarrow> nat \<Rightarrow> nat \<Rightarrow> byte list \<Rightarrow> 'e + byte list"
    and Dec :: "'c \<Rightarrow> nat \<Rightarrow> nat \<Rightarrow> byte list \<Rightarrow> 'e + byte list"
  assumes in_place: "ok c \<Longrightarrow> i + len \<le> length m \<Longrightarrow> min_len c \<le> len \<Longrightarrow>
      \<exists>m'. Enc c i len m = Inr m' \<and> Dec c i len m' = Inr m \<and> length m' = length m
        \<and> take i m' = take i m \<and> drop (i + len) m' = drop (i + len) m"
    and Dec_local: "ok c \<Longrightarrow> i + len \<le> length m \<Longrightarrow> min_len c \<le> len \<Longrightarrow>
      j + len \<le> length m' \<Longrightarrow> take len (drop i m) = take len (drop j m') \<Longrightarrow>
      Dec c i len m = Inr n \<Longrightarrow>
      Dec c j len m' = Inr (take j m' @ take len (drop i n) @ drop (j + len) m')"
begin

text \<open>
  The data window of the sender arrives as a window of another buffer, at another offset: the
  receiver still recovers the plain text.
\<close>

lemma transmitted:
  assumes c: "ok c" "min_len c \<le> len" and i: "i + len \<le> length m" and j: "j + len \<le> length r"
    and e: "Enc c i len m = Inr m'" and w: "take len (drop j r) = take len (drop i m')"
  shows "Dec c j len r = Inr (take j r @ take len (drop i m) @ drop (j + len) r)"
proof -
  obtain m2 where "Enc c i len m = Inr m2" "Dec c i len m2 = Inr m" "length m2 = length m"
    using in_place [OF c(1) i c(2)] by auto
  then have "Dec c i len m' = Inr m" "length m' = length m" using e by simp_all
  then show ?thesis
    using Dec_local [OF c(1) _ c(2) j, of i m' m] i w by simp
qed

lemma Enc_window:
  assumes "ok c" "min_len c \<le> len" "i + len \<le> length m" "Enc c i len m = Inr m'"
  shows "length m' = length m" and "take i m' = take i m" and "drop (i + len) m' = drop (i + len) m"
  using in_place [OF assms(1,3,2)] assms(4) by auto

end

section \<open>The code's ciphers satisfy the contract\<close>

definition crypt_block :: "BlockCrypt \<Rightarrow> cipher_Block option" where
  "crypt_block c =
     (case c of
        twofishBlockCrypt b \<Rightarrow> Some b | tripleDESBlockCrypt b \<Rightarrow> Some b
      | cast5BlockCrypt b \<Rightarrow> Some b | blowfishBlockCrypt b \<Rightarrow> Some b
      | aesBlockCrypt b \<Rightarrow> Some b | teaBlockCrypt b \<Rightarrow> Some b | xteaBlockCrypt b \<Rightarrow> Some b
      | _ \<Rightarrow> None)"

definition salsa_ok :: "crypto_lib \<Rightarrow> bool" where
  "salsa_ok lib \<longleftrightarrow> (\<forall>key nonce n. length nonce = 8 \<longrightarrow> length (cl_salsa20 lib key nonce n) = n)"

definition crypt_ok :: "crypto_lib \<Rightarrow> BlockCrypt \<Rightarrow> bool" where
  "crypt_ok lib c \<longleftrightarrow> salsa_ok lib \<and> (\<forall>b. crypt_block c = Some b \<longrightarrow> block_ok b)"

definition crypt_min :: "BlockCrypt \<Rightarrow> nat" where
  "crypt_min c = (case c of salsa20BlockCrypt _ \<Rightarrow> 8 | _ \<Rightarrow> 0)"

text \<open>A pair of functions on byte lists that a method applies to its window.\<close>

definition cipher_pair ::
  "nat \<Rightarrow> (byte list \<Rightarrow> byte list) \<Rightarrow> (byte list \<Rightarrow> byte list)
    \<Rightarrow> (nat \<Rightarrow> nat \<Rightarrow> byte list \<Rightarrow> byte list res) \<Rightarrow> (nat \<Rightarrow> nat \<Rightarrow> byte list \<Rightarrow> byte list res) \<Rightarrow> bool"
where
  "cipher_pair k e d Enc Dec \<longleftrightarrow>
     (\<forall>xs. k \<le> length xs \<longrightarrow> length (e xs) = length xs \<and> d (e xs) = xs)
     \<and> (\<forall>xs. k \<le> length xs \<longrightarrow> length (d xs) = length xs)
     \<and> (\<forall>i len m. i + len \<le> length m \<longrightarrow> k \<le> len \<longrightarrow>
          Enc i len m = Inr (overwrite m i (e (win m i len)))
          \<and> Dec i len m = Inr (overwrite m i (d (win m i len))))"

lemma cipher_pair_in_place:
  assumes "cipher_pair k e d Enc Dec" and "i + len \<le> length m" and "k \<le> len"
  shows "\<exists>m'. Enc i len m = Inr m' \<and> Dec i len m' = Inr m \<and> length m' = length m
    \<and> take i m' = take i m \<and> drop (i + len) m' = drop (i + len) m"
proof -
  let ?x = "win m i len"
  have l: "length ?x = len" using assms(2) by simp
  then have e: "length (e ?x) = len" "d (e ?x) = ?x"
    using assms(1,3) by (simp_all add: cipher_pair_def)
  let ?m = "overwrite m i (e ?x)"
  have lm: "length ?m = length m" using e assms(2) by simp
  have "win ?m i len = e ?x" using win_overwrite_same [of i "e ?x" m] e assms(2) by simp
  then have "Dec i len ?m = Inr (overwrite ?m i ?x)"
    using assms lm e by (simp add: cipher_pair_def)
  moreover have "overwrite ?m i ?x = m"
    using overwrite_window_id [OF assms(2)] e assms(2) by (simp add: overwrite_def)
  ultimately show ?thesis
    using assms lm e by (intro exI [of _ ?m]) (simp add: cipher_pair_def, simp add: overwrite_def)
qed

lemma cipher_pair_local:
  assumes p: "cipher_pair k e d Enc Dec" and i: "i + len \<le> length m" and k: "k \<le> len"
    and j: "j + len \<le> length r" and w: "take len (drop i m) = take len (drop j r)"
    and n: "Dec i len m = Inr n"
  shows "Dec j len r = Inr (take j r @ take len (drop i n) @ drop (j + len) r)"
proof -
  have eq: "win r j len = win m i len" using w by (simp add: win_def)
  have l: "length (d (win m i len)) = len" using p i k by (simp add: cipher_pair_def)
  have "n = overwrite m i (d (win m i len))" using p i k n by (simp add: cipher_pair_def)
  then have "take len (drop i n) = d (win m i len)"
    using overwrite_window [of i "d (win m i len)" m] l i by simp
  then show ?thesis
    using p j k l by (simp add: cipher_pair_def overwrite_def eq)
qed

text \<open>Cipher feedback, salsa20, the exclusive or, and no cipher at all.\<close>

lemma cfb_pair:
  assumes "block_ok b"
  shows "\<exists>e d. cipher_pair 0 e d (\<lambda>i len m. Inr (encrypt u b i i len m))
    (\<lambda>i len m. Inr (decrypt u b i i len m))"
proof (intro exI)
  note b = block_okD [OF assms]
  let ?iv = "bc_Encrypt b (take (bc_BlockSize b) initialVector)"
  show "cipher_pair 0 (cfb (\<lambda>_ out. bc_Encrypt b out) (bc_BlockSize b) ?iv)
    (cfb (\<lambda>src _. bc_Encrypt b src) (bc_BlockSize b) ?iv)
    (\<lambda>i len m. Inr (encrypt u b i i len m)) (\<lambda>i len m. Inr (decrypt u b i i len m))"
    using length_cfb [OF b(1) b(4) [OF b(5)]] cfb_inverse [OF b(1) b(4) [OF b(5)] b(4)] b(4)
    by (simp add: cipher_pair_def encrypt_ref [OF assms] decrypt_ref [OF assms] windows_ok_same)
qed

lemma overwrite_xor_window:
  assumes "i + len \<le> length m"
  shows "snd (xorBytes u i i len tbl m)
    = overwrite m i (xor_list (take (length tbl) (win m i len)) tbl @ drop (length tbl) (win m i len))"
    (is "_ = overwrite m i ?e")
proof (rule nth_equalityI)
  let ?n = "min len (length tbl)"
  have w: "windows_ok i i ?n m" using assms by (simp add: windows_ok_same)
  then have r: "snd (xorBytes u i i len tbl m) = xor_ref i i tbl ?n m"
    by (simp add: xorBytes_ref)
  have le: "length ?e = len" using assms by auto
  then have lo: "length (overwrite m i ?e) = length m" using assms by simp
  have lr: "length (xor_ref i i tbl ?n m) = length m" using assms by auto
  show "length (snd (xorBytes u i i len tbl m)) = length (overwrite m i ?e)"
    by (simp only: r lr lo)
  fix k assume "k < length (snd (xorBytes u i i len tbl m))"
  then have k: "k < length m" by (simp only: r lr)
  have "?e ! (k - i) = (if k - i < length tbl then m ! k XOR tbl ! (k - i) else m ! k)"
    if "i \<le> k" "k < i + len"
    using that assms by (auto simp: nth_append nth_xor_list nth_win)
  then show "snd (xorBytes u i i len tbl m) ! k = overwrite m i ?e ! k"
    unfolding r nth_xor_ref [OF w min.cobounded2 k]
    using nth_overwrite [of i ?e m k] le assms k by auto
qed

lemma xor_pair:
  "\<exists>e d. cipher_pair 0 e d (\<lambda>i len m. Inr (snd (xorBytes u i i len tbl m)))
    (\<lambda>i len m. Inr (snd (xorBytes u i i len tbl m)))"
proof (intro exI)
  let ?e = "\<lambda>xs. xor_list (take (length tbl) xs) tbl @ drop (length tbl) xs"
  have "?e (?e xs) = xs" for xs
    by (cases "length xs \<le> length tbl") (simp_all add: min_def)
  then show "cipher_pair 0 ?e ?e (\<lambda>i len m. Inr (snd (xorBytes u i i len tbl m)))
    (\<lambda>i len m. Inr (snd (xorBytes u i i len tbl m)))"
    by (simp add: cipher_pair_def overwrite_xor_window min_def)
qed

lemma overwrite_split:
  assumes "i + length xs + length ys \<le> length m"
  shows "overwrite (overwrite m (i + length xs) ys) i xs = overwrite m i (xs @ ys)"
proof (rule nth_equalityI)
  have l: "length (overwrite m (i + length xs) ys) = length m" using assms by simp
  then show "length (overwrite (overwrite m (i + length xs) ys) i xs) = length (overwrite m i (xs @ ys))"
    using assms by simp
  fix k assume "k < length (overwrite (overwrite m (i + length xs) ys) i xs)"
  then have "k < length m" using assms l by simp
  then show "overwrite (overwrite m (i + length xs) ys) i xs ! k = overwrite m i (xs @ ys) ! k"
    using assms l by (auto simp: nth_overwrite nth_append)
qed

lemma win_overwrite_before:
  assumes "i + n \<le> j" and "j + length ys \<le> length m"
  shows "win (overwrite m j ys) i n = win m i n"
  using assms by (auto intro!: nth_equalityI simp: nth_win nth_overwrite)

lemma salsa20_window:
  assumes "salsa_ok lib" and "i + len \<le> length m" and "8 \<le> len"
  shows "salsa20_crypt lib key i i len m = Inr (overwrite m i (take 8 (win m i len) @
    xor_list (drop 8 (win m i len)) (cl_salsa20 lib key (take 8 (win m i len)) (len - 8))))"
proof -
  let ?x = "win m i 8" and ?y = "xor_list (win m (i + 8) (len - 8)) (cl_salsa20 lib key (win m i 8) (len - 8))"
  have w: "take 8 (win m i len) = ?x" "drop 8 (win m i len) = win m (i + 8) (len - 8)"
    using assms(3) by (simp_all add: win_def drop_take min_def add.commute)
  have l: "length ?x = 8" using assms(2,3) by simp
  have ly: "length ?y = len - 8" using assms l by (auto simp: salsa_ok_def)
  have "salsa20_crypt lib key i i len m
      = Inr (overwrite (overwrite m (i + 8) ?y) i (win (overwrite m (i + 8) ?y) i 8))"
    using assms(3) by (simp add: salsa20_crypt_def Let_def)
  also have "win (overwrite m (i + 8) ?y) i 8 = ?x"
    using ly assms(2,3) by (intro win_overwrite_before) simp_all
  also have "overwrite (overwrite m (i + 8) ?y) i ?x = overwrite m i (?x @ ?y)"
    using overwrite_split [of i ?x ?y m] l ly assms(2,3) by simp
  finally show ?thesis by (simp only: w)
qed

lemma salsa_pair:
  assumes "salsa_ok lib"
  shows "\<exists>e d. cipher_pair 8 e d (\<lambda>i len m. salsa20_crypt lib key i i len m)
    (\<lambda>i len m. salsa20_crypt lib key i i len m)"
proof (intro exI)
  let ?e = "\<lambda>xs. take 8 xs @ xor_list (drop 8 xs) (cl_salsa20 lib key (take 8 xs) (length xs - 8))"
  have s: "length (cl_salsa20 lib key n k) = k" if "length n = 8" for n k
    using assms that by (simp add: salsa_ok_def)
  show "cipher_pair 8 ?e ?e (\<lambda>i len m. salsa20_crypt lib key i i len m)
    (\<lambda>i len m. salsa20_crypt lib key i i len m)"
    by (simp add: cipher_pair_def salsa20_window [OF assms] s min_def)
qed

lemma none_pair:
  "cipher_pair 0 (\<lambda>xs. xs) (\<lambda>xs. xs) (\<lambda>i len m. Inr (overwrite m i (win m i len)))
    (\<lambda>i len m. Inr (overwrite m i (win m i len)))"
  by (simp add: cipher_pair_def)

lemma crypt_pair:
  assumes "crypt_ok lib c"
  shows "\<exists>e d. cipher_pair (crypt_min c) e d
    (\<lambda>i len m. Crypt_Encrypt lib u c i i len m) (\<lambda>i len m. Crypt_Decrypt lib u c i i len m)"
proof (cases "crypt_block c")
  case (Some b)
  then have "block_ok b" using assms by (simp add: crypt_ok_def)
  moreover have "crypt_min c = 0" "\<And>i len m. Crypt_Encrypt lib u c i i len m = Inr (encrypt u b i i len m)"
    "\<And>i len m. Crypt_Decrypt lib u c i i len m = Inr (decrypt u b i i len m)"
    using Some by (auto simp: crypt_block_def crypt_min_def Crypt_Encrypt_def Crypt_Decrypt_def
        split: BlockCrypt.splits)
  ultimately show ?thesis using cfb_pair [of b u] by simp
next
  case None
  moreover have "salsa_ok lib" using assms by (simp add: crypt_ok_def)
  ultimately show ?thesis
    using xor_pair [of u] none_pair salsa_pair [of lib]
    by (cases c) (auto simp: crypt_block_def crypt_min_def Crypt_Encrypt_def Crypt_Decrypt_def)
qed

interpretation pc: packet_cipher "crypt_ok lib" crypt_min
  "\<lambda>c i len m. Crypt_Encrypt lib u c i i len m" "\<lambda>c i len m. Crypt_Decrypt lib u c i i len m"
  for lib u
proof (unfold_locales, goal_cases)
  case (1 c i len m)
  then show ?case using crypt_pair [of lib c u] cipher_pair_in_place by blast
next
  case (2 c i len m j m' n)
  then obtain e d where "cipher_pair (crypt_min c) e d
    (\<lambda>i len m. Crypt_Encrypt lib u c i i len m) (\<lambda>i len m. Crypt_Decrypt lib u c i i len m)"
    using crypt_pair by blast
  from cipher_pair_local [OF this 2(2,3,4,5,6)] show ?case .
qed

section \<open>The table of ciphers works\<close>

text \<open>
  What the documentation of the libraries says: \<open>pbkdf2.Key\<close> yields as many bytes as asked for,
  a block cipher accepts the key lengths it is made for, and salsa20 is a stream cipher.
\<close>

definition new_ok :: "(byte list \<Rightarrow> cipher_Block option) \<Rightarrow> nat set \<Rightarrow> bool" where
  "new_ok New ls \<longleftrightarrow> (\<forall>key. length key \<in> ls \<longrightarrow> (\<exists>b. New key = Some b \<and> block_ok b))"

definition lib_ok :: "crypto_lib \<Rightarrow> bool" where
  "lib_ok lib \<longleftrightarrow> (\<forall>p s i n. length (cl_pbkdf2 lib p s i n) = n)
     \<and> new_ok (cl_aes lib) {16, 24, 32} \<and> new_ok (cl_tea lib) {16} \<and> new_ok (cl_cast5 lib) {16}
     \<and> new_ok (cl_des3 lib) {24} \<and> new_ok (cl_xtea lib) {16}
     \<and> new_ok (cl_blowfish lib) {1..56} \<and> new_ok (cl_twofish lib) {16, 24, 32} \<and> salsa_ok lib"

lemmas new_defs = NewSalsa20BlockCrypt_def NewTwofishBlockCrypt_def NewTripleDESBlockCrypt_def
  NewCast5BlockCrypt_def NewBlowfishBlockCrypt_def NewAESBlockCrypt_def NewTEABlockCrypt_def
  NewXTEABlockCrypt_def NewSimpleXORBlockCrypt_def NewNoneBlockCrypt_def

lemma new_okD: "new_ok New ls \<Longrightarrow> length key \<in> ls \<Longrightarrow> \<exists>b. New key = Some b \<and> block_ok b"
  by (simp add: new_ok_def)

definition works :: "crypto_lib \<Rightarrow> BlockCrypt option \<Rightarrow> bool" where
  "works lib r \<longleftrightarrow> (\<exists>bc. r = Some bc \<and> crypt_ok lib bc)"

lemma works_if: "works lib r \<Longrightarrow> works lib r' \<Longrightarrow> works lib (if P then r else r')"
  by simp

lemma works_block:
  assumes "salsa_ok lib" and "new_ok New ls" and "length key \<in> ls"
    and "\<And>b. crypt_block (mk b) = Some b"
  shows "works lib (map_option mk (New key))"
  using new_okD [OF assms(2,3)] assms(1,4) by (auto simp: works_def crypt_ok_def)

lemma works_stream:
  "salsa_ok lib \<Longrightarrow> crypt_block bc = None \<Longrightarrow> works lib (Some bc)"
  by (simp add: works_def crypt_ok_def)

lemma NewBlockCrypt_works:
  assumes "lib_ok lib"
  shows "works lib (NewBlockCrypt lib key cry)"
proof -
  let ?pass = "cl_pbkdf2 lib key (string_bytes SALT) 4096 32"
  have pass: "length ?pass = 32" and s: "salsa_ok lib" using assms by (simp_all add: lib_ok_def)
  have aes: "new_ok (cl_aes lib) {16, 24, 32}" and tea: "new_ok (cl_tea lib) {16}"
    and cast5: "new_ok (cl_cast5 lib) {16}" and des3: "new_ok (cl_des3 lib) {24}"
    and xtea: "new_ok (cl_xtea lib) {16}" and blowfish: "new_ok (cl_blowfish lib) {1..56}"
    and twofish: "new_ok (cl_twofish lib) {16, 24, 32}"
    using assms by (simp_all add: lib_ok_def)
  note w = works_block [OF s aes] works_block [OF s tea] works_block [OF s cast5]
    works_block [OF s des3] works_block [OF s xtea] works_block [OF s blowfish]
    works_block [OF s twofish] works_stream [OF s]
  show ?thesis
    unfolding NewBlockCrypt_def Let_def new_defs
    by (intro works_if) (rule w; simp add: pass crypt_block_def)+
qed

lemma cipher_numbers:
  assumes "1 \<le> c" and "c < CRY_END"
  shows "c \<in> {1, 2, 3, 4, 5, 6, 7, 8, 9, 10, 11}"
proof -
  have "1 \<le> unat c" "unat c < 12"
    using assms by (simp_all add: CRY_END_def word_le_nat_alt word_less_nat_alt)
  then have "unat c \<in> {1, 2, 3, 4, 5, 6, 7, 8, 9, 10, 11}" by (simp, arith)
  then have "word_of_nat (unat c) \<in> {1, 2, 3, 4, 5, 6, 7, 8, 9, 10, 11 :: byte}"
    by (elim insertE emptyE) (simp_all only:, simp_all)
  then show ?thesis by simp
qed

text \<open>
  Every cipher number of the table denotes a working cipher, and setting the default by the
  name that belongs to the number selects exactly that number.
\<close>

theorem crypts_complete:
  assumes "lib_ok lib" and "1 \<le> c" and "c < CRY_END"
  shows "(\<exists>bc. crypts lib flgKey c = Some (Some bc) \<and> crypt_ok lib bc)
    \<and> SetDefaultCryptType (CRYtoString ! unat c) = Inr c"
proof
  show "\<exists>bc. crypts lib flgKey c = Some (Some bc) \<and> crypt_ok lib bc"
    using NewBlockCrypt_works [OF assms(1), of flgKey "CRYtoString ! unat c"] assms(2,3)
    by (auto simp: crypts_def works_def)
  show "SetDefaultCryptType (CRYtoString ! unat c) = Inr c"
    using cipher_numbers [OF assms(2,3)]
    by (elim insertE emptyE) (simp_all add: SetDefaultCryptType_def CRYtoString_def upt_rec)
qed

text \<open>The bulk and the portable exclusive or are interchangeable.\<close>

lemma Crypt_variants:
  assumes "crypt_ok lib c" and "i + len \<le> length m"
  shows "Crypt_Encrypt lib u c i i len m = Crypt_Encrypt lib u' c i i len m"
  using assms
  by (cases c) (simp_all add: Crypt_Encrypt_def crypt_ok_def crypt_block_def encrypt_ref
      windows_ok_same overwrite_xor_window)

text \<open>A toy library for the concrete runs.\<close>

definition toy_lib :: crypto_lib where
  "toy_lib = \<lparr>cl_pbkdf2 = (\<lambda>_ _ _ n. replicate n 5), cl_tea = (\<lambda>_. Some add_one),
     cl_aes = (\<lambda>_. Some add_one), cl_blowfish = (\<lambda>_. Some add_one),
     cl_twofish = (\<lambda>_. Some add_one), cl_cast5 = (\<lambda>_. Some add_one),
     cl_des3 = (\<lambda>_. Some add_one), cl_xtea = (\<lambda>_. Some add_one),
     cl_salsa20 = (\<lambda>_ _ n. replicate n 9)\<rparr>"

lemma toy_lib_ok: "lib_ok toy_lib"
proof -
  have "block_ok add_one" by (simp add: block_ok_def add_one_def)
  then show ?thesis by (simp add: lib_ok_def toy_lib_def new_ok_def salsa_ok_def)
qed

theorem crypts_complete_witness:
  "(\<exists>bc. crypts toy_lib [] 11 = Some (Some bc) \<and> crypt_ok toy_lib bc)
    \<and> SetDefaultCryptType ''salsa20'' = Inr 11"
proof -
  have "CRYtoString ! unat (11 :: byte) = ''salsa20''" by (simp add: CRYtoString_def)
  then show ?thesis
    using crypts_complete [OF toy_lib_ok, of 11 "[]"] by (simp add: CRY_END_def)
qed

text \<open>
  C9: whatever cipher of the table a packet is encrypted with in its buffer, the receiver that
  finds the same bytes in a buffer of its own, at any offset, decrypts them to the plain data; the
  encryption touches no byte outside the data window. The data have at least 8 bytes.
\<close>

theorem crypt_transmission:
  assumes "lib_ok lib" and "crypts lib flgKey c = Some (Some bc)" and "8 \<le> len"
    and "i + len \<le> length m" and "j + len \<le> length r"
  shows "\<exists>m'. Crypt_Encrypt lib u bc i i len m = Inr m' \<and> length m' = length m
    \<and> take i m' = take i m \<and> drop (i + len) m' = drop (i + len) m
    \<and> (take len (drop j r) = take len (drop i m') \<longrightarrow>
        Crypt_Decrypt lib u' bc j j len r
          = Inr (take j r @ take len (drop i m) @ drop (j + len) r))"
proof -
  have ok: "crypt_ok lib bc"
    using assms(2) NewBlockCrypt_works [OF assms(1), of flgKey "CRYtoString ! unat c"]
    by (auto simp: crypts_def works_def split: if_splits)
  have min: "crypt_min bc \<le> len" using assms(3) by (cases bc) (simp_all add: crypt_min_def)
  obtain m' where m': "Crypt_Encrypt lib u bc i i len m = Inr m'"
    "length m' = length m" "take i m' = take i m" "drop (i + len) m' = drop (i + len) m"
    using pc.in_place [OF ok assms(4) min] by blast
  then have "Crypt_Encrypt lib u' bc i i len m = Inr m'"
    using Crypt_variants [OF ok assms(4), of u' u] by simp
  then show ?thesis
    using m' pc.transmitted [OF ok min assms(4,5)] by blast
qed

theorem crypt_transmission_witness:
  "\<exists>bc m'. crypts toy_lib [] 5 = Some (Some bc)
    \<and> Crypt_Encrypt toy_lib True bc 2 2 10 [0, 0, 1, 2, 3, 4, 5, 6, 7, 8, 9, 10] = Inr m'
    \<and> Crypt_Decrypt toy_lib False bc 1 1 10 ([77] @ drop 2 m') = Inr [77, 1, 2, 3, 4, 5, 6, 7, 8, 9, 10]"
proof -
  let ?m = "[0, 0, 1, 2, 3, 4, 5, 6, 7, 8, 9, 10] :: byte list"
  obtain bc where bc: "crypts toy_lib [] 5 = Some (Some bc)"
    using NewBlockCrypt_works [OF toy_lib_ok, of "[]" "CRYtoString ! 5"]
    by (auto simp: crypts_def works_def CRY_END_def)
  have "\<exists>m'. Crypt_Encrypt toy_lib True bc 2 2 10 ?m = Inr m' \<and> length m' = length ?m"
    using crypt_transmission [OF toy_lib_ok bc, of 10 2 ?m 0 "replicate 10 0" True False] by auto
  then obtain m' where m': "Crypt_Encrypt toy_lib True bc 2 2 10 ?m = Inr m'" "length m' = 12"
    by auto
  have "Crypt_Decrypt toy_lib False bc 1 1 10 ([77] @ drop 2 m') = Inr [77, 1, 2, 3, 4, 5, 6, 7, 8, 9, 10]"
    using crypt_transmission [OF toy_lib_ok bc, of 10 2 ?m 1 "[77] @ drop 2 m'" True False] m'
    by simp
  then show ?thesis using bc m' by blast
qed

text \<open>
  the table of the XOR cipher has 1500 bytes, but packets may be up to 1514 bytes long: the
  data past the first 1500 bytes travel in the clear.
\<close>

theorem xor_tail_in_clear:
  assumes "lib_ok lib" and "crypts lib flgKey 1 = Some (Some bc)"
    and "Crypt_Encrypt lib u bc i i len m = Inr m'"
    and "i + len \<le> length m" and "i + 1500 \<le> k" and "k < i + len"
  shows "m' ! k = m ! k"
proof -
  have l: "length (cl_pbkdf2 lib p s c n) = n" for p s c n
    using assms(1) by (simp add: lib_ok_def)
  obtain tbl where "bc = simpleXORBlockCrypt tbl" "length tbl = 1500"
    using assms(2) l
    by (auto simp: crypts_def CRY_END_def CRYtoString_def NewBlockCrypt_def
        NewSimpleXORBlockCrypt_def Let_def)
  then have "m' = snd (xorBytes u i i len tbl m)" "length tbl = 1500"
    using assms(3) by (simp_all add: Crypt_Encrypt_def)
  moreover have "windows_ok i i (min len (length tbl)) m"
    using assms(4) by (simp add: windows_ok_same)
  ultimately show ?thesis
    using nth_xor_ref [of i i "min len (length tbl)" m tbl k] assms(4,5,6)
    by (simp add: xorBytes_ref)
qed

theorem xor_tail_in_clear_witness:
  "\<exists>bc m'. crypts toy_lib [] 1 = Some (Some bc)
    \<and> Crypt_Encrypt toy_lib True bc 6 6 1514 (replicate 1528 3) = Inr m' \<and> m' ! 1519 = 3"
proof -
  obtain bc where bc: "crypts toy_lib [] 1 = Some (Some bc)" "crypt_ok toy_lib bc"
    using NewBlockCrypt_works [OF toy_lib_ok, of "[]" "CRYtoString ! 1"]
    by (auto simp: crypts_def works_def CRY_END_def)
  have "crypt_min bc \<le> 1514" by (cases bc) (simp_all add: crypt_min_def)
  then obtain m' where m': "Crypt_Encrypt toy_lib True bc 6 6 1514 (replicate 1528 3) = Inr m'"
    using pc.in_place [OF bc(2), of 6 1514 "replicate 1528 3"] by auto
  have "m' ! 1519 = replicate 1528 3 ! 1519"
    by (rule xor_tail_in_clear [OF toy_lib_ok bc(1) m']) simp_all
  then show ?thesis using bc m' by auto
qed

end
