(* ===== verification/Vnet_Encode.thy ===== *)
theory Vnet_Encode
  imports Go_Prelude
begin

text \<open>
  Package \<open>vnet\<close>, file \<open>encode.go\<close>: the 6-byte header of a packet on a link. A slice argument
  whose bytes are written is a byte list that is returned updated; its length is its capacity for
  the functions of this file, which never re-slice it beyond its length.
\<close>

datatype vnet_error =
    AssembleLen
  | ReadEOF
  | ReadUnexpectedEOF
  | PktLenRange
  | CryptNotSupport
  | BadPktType
  | OddVidBytes
  | FdbFull
  | AlreadyClosed
  | ConnWriteFail

definition PktHeaderSize :: nat where "PktHeaderSize = 6"
definition UserData :: byte where "UserData = 0x01"
definition HearbeatReq :: byte where "HearbeatReq = 0x02"
definition HearbeatRpl :: byte where "HearbeatRpl = 0x03"
definition FdbIdsMsg :: byte where "FdbIdsMsg = 0x04"

lemmas pkt_types = UserData_def HearbeatReq_def HearbeatRpl_def FdbIdsMsg_def

record PktHeader =
  ph_pktType :: byte
  ph_pktLen :: u16
  ph_vid :: u16
  ph_pktCrypt :: byte

text \<open>\<open>b[i] = x\<close>\<close>

definition put_at :: "byte list \<Rightarrow> nat \<Rightarrow> byte \<Rightarrow> byte list res" where
  "put_at b i x = (if i < length b then Inr (b[i := x]) else Inl IndexOutOfRange)"

definition assemblePktHead :: "byte \<Rightarrow> byte list \<Rightarrow> int \<Rightarrow> int \<Rightarrow> byte list res" where
  "assemblePktHead t headBuf dataLen vid =
     bind_res (put_at headBuf 0 t) (\<lambda>b.
     bind_res (PutUint16_at b 1 (word_of_int dataLen)) (\<lambda>b.
     bind_res (PutUint16_at b 3 (word_of_int vid)) (\<lambda>b.
     put_at b 5 0)))"

text \<open>The function writes a header of three bytes, which is not \<open>PktHeaderSize\<close>.\<close>

definition assemblePkt :: "byte \<Rightarrow> byte list \<Rightarrow> vnet_error + byte list" where
  "assemblePkt t data =
     (let l = length data;
          buf = [t];
          buf = buf @ bytes16 (word_of_nat l);
          buf = buf @ data
      in if length buf \<noteq> PktHeaderSize + l then Inl AssembleLen else Inr buf)"

definition assembleUserPkt :: "byte list \<Rightarrow> vnet_error + byte list" where
  "assembleUserPkt data = assemblePkt UserData data"

definition assembleUserPktHead :: "byte list \<Rightarrow> int \<Rightarrow> int \<Rightarrow> byte list res" where
  "assembleUserPktHead headBuf dataLen vid = assemblePktHead UserData headBuf dataLen vid"

definition assembleHbReq :: "byte list \<Rightarrow> vnet_error + byte list" where
  "assembleHbReq data = assemblePkt HearbeatReq data"

definition assembleHbReqHead :: "byte list \<Rightarrow> int \<Rightarrow> byte list res" where
  "assembleHbReqHead headBuf dataLen = assemblePktHead HearbeatReq headBuf dataLen 0"

definition assembleHbRpl :: "byte list \<Rightarrow> vnet_error + byte list" where
  "assembleHbRpl data = assemblePkt HearbeatRpl data"

definition assembleHbRplHead :: "byte list \<Rightarrow> int \<Rightarrow> byte list res" where
  "assembleHbRplHead headBuf dataLen = assemblePktHead HearbeatRpl headBuf dataLen 0"

definition assembleFdbIdsHead :: "byte list \<Rightarrow> int \<Rightarrow> byte list res" where
  "assembleFdbIdsHead headBuf dataLen = assemblePktHead FdbIdsMsg headBuf dataLen 0"

definition parsePktHeader :: "byte list \<Rightarrow> PktHeader res" where
  "parsePktHeader data =
     bind_res (at data 0) (\<lambda>t.
     bind_res (Uint16_at data 1) (\<lambda>l.
     bind_res (Uint16_at data 3) (\<lambda>v.
     bind_res (at data 5) (\<lambda>c.
     Inr \<lparr>ph_pktType = t, ph_pktLen = l, ph_vid = v, ph_pktCrypt = c\<rparr>))))"

definition setCryptoType :: "byte list \<Rightarrow> byte \<Rightarrow> byte list res" where
  "setCryptoType data cryptoType = put_at data 5 cryptoType"

section \<open>Headers survive the wire\<close>

definition head_bytes :: "byte \<Rightarrow> u16 \<Rightarrow> u16 \<Rightarrow> byte \<Rightarrow> byte list" where
  "head_bytes t l v c = [t] @ bytes16 l @ bytes16 v @ [c]"

lemma length_head_bytes [simp]: "length (head_bytes t l v c) = 6"
  by (simp add: head_bytes_def)

lemma list6E:
  assumes "6 \<le> length b"
  obtains b0 b1 b2 b3 b4 b5 r where "b = b0 # b1 # b2 # b3 # b4 # b5 # r"
  using assms that by (auto simp: Suc_le_length_iff eval_nat_numeral)

lemma assemblePktHead_eq:
  assumes "6 \<le> length b"
  shows "assemblePktHead t b n v = Inr (head_bytes t (word_of_int n) (word_of_int v) 0 @ drop 6 b)"
  using assms
  by (elim list6E) (simp add: assemblePktHead_def put_at_def PutUint16_at_def overwrite_def
      head_bytes_def bytes16_def)

lemma parsePktHeader_eq:
  "parsePktHeader (head_bytes t l v c @ r) =
     Inr \<lparr>ph_pktType = t, ph_pktLen = l, ph_vid = v, ph_pktCrypt = c\<rparr>"
  by (simp add: parsePktHeader_def at_def Uint16_at_def head_bytes_def bytes16_def)

lemma setCryptoType_eq:
  "setCryptoType (head_bytes t l v c @ r) k = Inr (head_bytes t l v k @ r)"
  by (simp add: setCryptoType_def put_at_def head_bytes_def bytes16_def)

text \<open>
  C15: the link header round-trips: what \<open>assemblePktHead\<close> writes over the first six bytes of a
  buffer, and nothing else of it, \<open>parsePktHeader\<close> reads back, with the length and the VLAN
  identifier reduced to 16 bits; marking the packet as encrypted changes the cipher number only.
\<close>

theorem pkt_header_roundtrip:
  assumes "PktHeaderSize \<le> length headBuf"
  shows "\<exists>b b'. assemblePktHead t headBuf dataLen vid = Inr b \<and> drop 6 b = drop 6 headBuf
    \<and> parsePktHeader b = Inr \<lparr>ph_pktType = t, ph_pktLen = word_of_int dataLen,
        ph_vid = word_of_int vid, ph_pktCrypt = 0\<rparr>
    \<and> setCryptoType b c = Inr b' \<and> drop 6 b' = drop 6 b
    \<and> parsePktHeader b' = Inr \<lparr>ph_pktType = t, ph_pktLen = word_of_int dataLen,
        ph_vid = word_of_int vid, ph_pktCrypt = c\<rparr>"
  using assms
  by (simp add: PktHeaderSize_def assemblePktHead_eq parsePktHeader_eq setCryptoType_eq)

theorem pkt_header_roundtrip_witness:
  "\<exists>b. assemblePktHead UserData (replicate 8 0) 1500 4094 = Inr b
    \<and> parsePktHeader b = Inr \<lparr>ph_pktType = 1, ph_pktLen = 1500, ph_vid = 4094, ph_pktCrypt = 0\<rparr>"
  using pkt_header_roundtrip [of "replicate 8 0" UserData 1500 4094 5]
  by (auto simp: PktHeaderSize_def UserData_def)

text \<open>
  the one-shot assembly never succeeds, whatever the type and the data: the three bytes it
  writes in front of the data are compared with the six bytes of \<open>PktHeaderSize\<close>.
\<close>

theorem assemblePkt_fails:
  "assemblePkt t data = Inl AssembleLen \<and> assembleUserPkt data = Inl AssembleLen
    \<and> assembleHbReq data = Inl AssembleLen \<and> assembleHbRpl data = Inl AssembleLen"
  by (simp add: assembleUserPkt_def assembleHbReq_def assembleHbRpl_def assemblePkt_def
      PktHeaderSize_def Let_def)

text \<open>
  Parsing needs the whole header: it succeeds on every slice of at least six bytes and panics
  on every shorter one.
\<close>

theorem parsePktHeader_total:
  "(\<exists>ph. parsePktHeader data = Inr ph) \<longleftrightarrow> PktHeaderSize \<le> length data"
  by (auto simp: parsePktHeader_def at_def Uint16_at_def PktHeaderSize_def bind_res_eq_Inr
      split: if_splits)

end
