(* ===== verification/Vnet_State.thy ===== *)
theory Vnet_State
  imports Fdb_Registry Packet_Pool Crypto_Block Vnet_Encode
begin

text \<open>
  Package \<open>vnet\<close>: the state the clients share. A \<open>*Client\<close> is an address of \<open>vn_clients\<close>, a
  \<open>*PktBuf\<close> an address of the packet store, an \<open>*FDB\<close> an address of the FDB world; the clients'
  own address is what they are as ports of an FDB. A client's channel is the list of the packets
  in it: a full channel makes the sender wait, which is not a step of the model, and a send on a
  closed channel panics. The clock \<open>vn_now\<close> is \<open>time.Now()\<close> in nanoseconds; \<open>vn_netStat\<close> is the queue
  of the package \<open>netstat\<close> where that is enabled, and \<open>vn_wg\<close> the counter of the wait group of
  \<open>bakLink.go\<close>.
\<close>

record fdbPort =
  fp_fdb :: nat
  fp_fdbPortId :: int

record heartBeat =
  hb_hbTimer :: "int option"
  hb_hbID :: u16
  hb_hbReqTime :: int
  hb_hbDelay :: int
  hb_hbDelaySum :: int
  hb_hbDelayAvg :: int

text \<open>
  The implementations of \<open>VnetIO\<close>: a connection, a tun device, the link of a backup master, which
  is an address of \<open>vn_links\<close>.
\<close>

record mytun =
  tn_Name :: string
  tn_devType :: int
  tn_devId :: int
  tn_vid :: int

datatype VnetIO = IoConn | IoTun mytun | IoBackup nat

text \<open>
  \<open>backupChan\<close> has capacity one and is represented by the number of its elements; the clients
  are addresses.
\<close>

record backupLink =
  bl_c :: "nat option"
  bl_activeSlave :: "nat option"
  bl_backupChan :: nat
  bl_backupClients :: "nat option list"
  bl_recvQueue :: "nat list"
  bl_rxBytes :: u64
  bl_txBytes :: u64
  bl_txDropBytes :: u64

record Client =
  cl_cio :: VnetIO
  cl_String :: string
  cl_pktchan :: "nat list"
  cl_chanClosed :: bool
  cl_reconnect :: bool
  cl_isClosed :: bool
  cl_p2pFwd :: bool
  cl_peer :: "nat option"
  cl_master :: "nat option"
  cl_rx_bytes :: u64
  cl_tx_bytes :: u64
  cl_minSize :: int
  cl_maxSize :: int
  cl_hb :: "heartBeat option"
  cl_valid :: bool
  cl_pbp :: nat
  cl_isClient :: bool
  cl_fdbJoined :: "(int \<times> fdbPort) list option"
  cl_cryptType :: byte

record vnet =
  vn_clients :: "Client list"
  vn_pkts :: pkt_store
  vn_fdbs :: "nat fdb_world"
  vn_Vids :: "int list"
  vn_ClientMaster :: "(string \<times> nat) list"
  vn_netStat :: "nat list option"
  vn_now :: int
  vn_links :: "backupLink list"
  vn_wg :: int
  vn_HeartbeatIdle :: int
  vn_HeartbeatCnt :: int
  vn_HeartbeatIntv :: int
  vn_obcDevSlot :: "int list"
  vn_tcMap :: "(string \<times> nat) list"

definition L2PktMinSize :: int where "L2PktMinSize = 42"
definition L2PktMaxSize :: int where "L2PktMaxSize = 1514"

definition client :: "vnet \<Rightarrow> nat \<Rightarrow> Client" where
  "client w c = vn_clients w ! c"

definition upd_client :: "nat \<Rightarrow> (Client \<Rightarrow> Client) \<Rightarrow> vnet \<Rightarrow> vnet" where
  "upd_client c f w = w\<lparr>vn_clients := (vn_clients w)[c := f (client w c)]\<rparr>"

definition upd_pkts :: "(pkt_store \<Rightarrow> pkt_store) \<Rightarrow> vnet \<Rightarrow> vnet" where
  "upd_pkts f w = w\<lparr>vn_pkts := f (vn_pkts w)\<rparr>"

definition upd_fdbs :: "(nat fdb_world \<Rightarrow> nat fdb_world) \<Rightarrow> vnet \<Rightarrow> vnet" where
  "upd_fdbs f w = w\<lparr>vn_fdbs := f (vn_fdbs w)\<rparr>"

definition upd_link :: "nat \<Rightarrow> (backupLink \<Rightarrow> backupLink) \<Rightarrow> vnet \<Rightarrow> vnet" where
  "upd_link b f w = w\<lparr>vn_links := (vn_links w)[b := f (vn_links w ! b)]\<rparr>"

text \<open>
  The pointer from a connection or a tun device to its client is the client whose \<open>cio\<close> it is;
  the operations below take that client as their argument.
\<close>

definition setClient :: "VnetIO \<Rightarrow> nat \<Rightarrow> vnet \<Rightarrow> vnet" where
  "setClient cio c w =
     (case cio of
        IoBackup b \<Rightarrow> upd_link b (\<lambda>bl. bl\<lparr>bl_c := Some c\<rparr>) w
      | IoConn \<Rightarrow> w
      | IoTun t \<Rightarrow> w)"

lemma setClient_simps [simp]: "setClient IoConn c w = w" "setClient (IoTun t) c w = w"
  by (simp_all add: setClient_def)

text \<open>A new client with a pool of its own, \<open>String\<close> its connection's name.\<close>

definition NewClient :: "VnetIO \<Rightarrow> string \<Rightarrow> vnet \<Rightarrow> nat \<times> vnet" where
  "NewClient cio name w =
     (let c = length (vn_clients w) in
      (c, setClient cio c (w\<lparr>vn_clients := vn_clients w @
        [\<lparr>cl_cio = cio, cl_String = name, cl_pktchan = [], cl_chanClosed = False,
          cl_reconnect = False, cl_isClosed = False, cl_p2pFwd = False, cl_peer = None,
          cl_master = None, cl_rx_bytes = 0, cl_tx_bytes = 0, cl_minSize = L2PktMinSize,
          cl_maxSize = L2PktMaxSize, cl_hb = None, cl_valid = False,
          cl_pbp = c, cl_isClient = False, cl_fdbJoined = Some [],
          cl_cryptType = 0\<rparr>]\<rparr>)))"

definition IsClose :: "vnet \<Rightarrow> nat \<Rightarrow> bool" where
  "IsClose w c = cl_isClosed (client w c)"

definition getPktBuf :: "nat option \<Rightarrow> nat \<Rightarrow> vnet \<Rightarrow> nat \<times> vnet" where
  "getPktBuf choice c w =
     (let (a, s) = GetPktFromPool (cl_pbp (client w c)) choice (vn_pkts w)
      in (a, w\<lparr>vn_pkts := s\<rparr>))"

definition putPktBuf :: "nat \<Rightarrow> vnet \<Rightarrow> vnet res" where
  "putPktBuf a w = bind_res (PutPktToPool a (vn_pkts w)) (\<lambda>s. Inr (w\<lparr>vn_pkts := s\<rparr>))"

definition PutPktToChan2 :: "nat \<Rightarrow> nat \<Rightarrow> vnet \<Rightarrow> vnet res" where
  "PutPktToChan2 c a w =
     (if IsClose w c then Inr w
      else let w = upd_pkts (HoldPktBuf a) w in
        if cl_chanClosed (client w c) then Inl SendOnClosed
        else Inr (upd_client c (\<lambda>cl. cl\<lparr>cl_pktchan := cl_pktchan cl @ [a]\<rparr>) w))"

definition PutPktToChan :: "nat \<Rightarrow> nat \<Rightarrow> vnet \<Rightarrow> vnet res" where
  "PutPktToChan c a w = (if cl_valid (client w c) then PutPktToChan2 c a w else Inr w)"

definition FwdToPeer :: "nat \<Rightarrow> nat \<Rightarrow> vnet \<Rightarrow> vnet res" where
  "FwdToPeer c a w =
     (case cl_peer (client w c) of None \<Rightarrow> Inr w | Some p \<Rightarrow> PutPktToChan p a w)"

definition bindPeer :: "nat \<Rightarrow> nat \<Rightarrow> vnet \<Rightarrow> vnet" where
  "bindPeer c1 c2 w = upd_client c1 (\<lambda>cl. cl\<lparr>cl_peer := Some c2\<rparr>) w"

definition setCryptType :: "nat \<Rightarrow> byte \<Rightarrow> vnet \<Rightarrow> vnet" where
  "setCryptType c ct w = upd_client c (\<lambda>cl. cl\<lparr>cl_cryptType := ct\<rparr>) w"

definition releasePeer :: "nat \<Rightarrow> vnet \<Rightarrow> nat option \<times> vnet" where
  "releasePeer c w =
     (case cl_peer (client w c) of
        None \<Rightarrow> (None, w)
      | Some peer \<Rightarrow>
          let w = upd_client c (\<lambda>cl. cl\<lparr>cl_peer := None\<rparr>) w;
              w = (if cl_peer (client w peer) = Some c
                   then upd_client peer (\<lambda>cl. cl\<lparr>cl_peer := None\<rparr>) w else w)
          in (Some peer, w))"

definition ClientMasterAdd :: "nat \<Rightarrow> vnet \<Rightarrow> vnet" where
  "ClientMasterAdd c w =
     w\<lparr>vn_ClientMaster := AList.update (cl_String (client w c)) c (vn_ClientMaster w)\<rparr>"

definition ClientMasterDel :: "nat \<Rightarrow> vnet \<Rightarrow> vnet" where
  "ClientMasterDel c w =
     w\<lparr>vn_ClientMaster := AList.delete (cl_String (client w c)) (vn_ClientMaster w)\<rparr>"

section \<open>Frame lemmas\<close>

lemma client_upd [simp]:
  "client (upd_client c f w) d =
     (if d = c \<and> c < length (vn_clients w) then f (client w c) else client w d)"
  by (cases "c < length (vn_clients w)")
    (auto simp: client_def upd_client_def nth_list_update not_less list_update_beyond)

lemma client_other [simp]:
  "client (w\<lparr>vn_fdbs := x\<rparr>) c = client w c" "client (w\<lparr>vn_pkts := y\<rparr>) c = client w c"
  "client (w\<lparr>vn_ClientMaster := z\<rparr>) c = client w c" "client (w\<lparr>vn_Vids := v\<rparr>) c = client w c"
  "client (w\<lparr>vn_netStat := q\<rparr>) c = client w c" "client (w\<lparr>vn_now := t\<rparr>) c = client w c"
  "client (w\<lparr>vn_obcDevSlot := ds\<rparr>) c = client w c" "client (w\<lparr>vn_tcMap := tm\<rparr>) c = client w c"
  "client (w\<lparr>vn_links := l\<rparr>) c = client w c" "client (w\<lparr>vn_wg := g\<rparr>) c = client w c"
  by (simp_all add: client_def)

lemma upd_client_frame [simp]:
  "vn_pkts (upd_client c f w) = vn_pkts w" "vn_fdbs (upd_client c f w) = vn_fdbs w"
  "vn_Vids (upd_client c f w) = vn_Vids w" "vn_netStat (upd_client c f w) = vn_netStat w"
  "vn_ClientMaster (upd_client c f w) = vn_ClientMaster w" "vn_now (upd_client c f w) = vn_now w"
  "vn_links (upd_client c f w) = vn_links w" "vn_wg (upd_client c f w) = vn_wg w"
  "vn_HeartbeatIdle (upd_client c f w) = vn_HeartbeatIdle w"
  "vn_HeartbeatCnt (upd_client c f w) = vn_HeartbeatCnt w"
  "vn_HeartbeatIntv (upd_client c f w) = vn_HeartbeatIntv w"
  "length (vn_clients (upd_client c f w)) = length (vn_clients w)"
  by (simp_all add: upd_client_def)

lemma upd_pkts_frame [simp]:
  "vn_pkts (upd_pkts f w) = f (vn_pkts w)" "vn_fdbs (upd_pkts f w) = vn_fdbs w"
  "vn_Vids (upd_pkts f w) = vn_Vids w" "vn_netStat (upd_pkts f w) = vn_netStat w"
  "vn_ClientMaster (upd_pkts f w) = vn_ClientMaster w" "vn_clients (upd_pkts f w) = vn_clients w"
  "client (upd_pkts f w) c = client w c" "vn_now (upd_pkts f w) = vn_now w"
  "vn_links (upd_pkts f w) = vn_links w" "vn_wg (upd_pkts f w) = vn_wg w"
  "vn_HeartbeatIdle (upd_pkts f w) = vn_HeartbeatIdle w"
  "vn_HeartbeatCnt (upd_pkts f w) = vn_HeartbeatCnt w"
  "vn_HeartbeatIntv (upd_pkts f w) = vn_HeartbeatIntv w"
  by (simp_all add: upd_pkts_def client_def)

lemma upd_fdbs_frame [simp]:
  "vn_fdbs (upd_fdbs f w) = f (vn_fdbs w)" "vn_pkts (upd_fdbs f w) = vn_pkts w"
  "vn_Vids (upd_fdbs f w) = vn_Vids w" "vn_netStat (upd_fdbs f w) = vn_netStat w"
  "vn_ClientMaster (upd_fdbs f w) = vn_ClientMaster w" "vn_clients (upd_fdbs f w) = vn_clients w"
  "client (upd_fdbs f w) c = client w c" "vn_now (upd_fdbs f w) = vn_now w"
  "vn_links (upd_fdbs f w) = vn_links w" "vn_wg (upd_fdbs f w) = vn_wg w"
  by (simp_all add: upd_fdbs_def client_def)

section \<open>A small world\<close>

text \<open>A world with clients and no bridges.\<close>

definition new_world :: "int list \<Rightarrow> vnet" where
  "new_world vids = \<lparr>vn_clients = [], vn_pkts = empty_store, vn_fdbs = init_world, vn_Vids = vids,
     vn_ClientMaster = [], vn_netStat = None, vn_now = 0,
     vn_links = [], vn_wg = 0, vn_HeartbeatIdle = 60, vn_HeartbeatCnt = 3, vn_HeartbeatIntv = 5,
     vn_obcDevSlot = replicate 100 0, vn_tcMap = []\<rparr>"

definition two_clients :: vnet where
  "two_clients = snd (NewClient IoConn ''b'' (snd (NewClient IoConn ''a'' (new_world []))))"

lemma two_clients_fields:
  "vn_pkts two_clients = empty_store" "vn_fdbs two_clients = init_world"
  "vn_Vids two_clients = []" "vn_ClientMaster two_clients = []" "length (vn_clients two_clients) = 2"
  "vn_netStat two_clients = None" "vn_HeartbeatCnt two_clients = 3"
  "i < 2 \<Longrightarrow> \<not> cl_isClosed (client two_clients i)"
  "i < 2 \<Longrightarrow> \<not> cl_chanClosed (client two_clients i)" "i < 2 \<Longrightarrow> cl_pktchan (client two_clients i) = []"
  "i < 2 \<Longrightarrow> cl_cio (client two_clients i) = IoConn"
  "i < 2 \<Longrightarrow> cl_minSize (client two_clients i) = 42" "i < 2 \<Longrightarrow> cl_maxSize (client two_clients i) = 1514"
  "i < 2 \<Longrightarrow> cl_cryptType (client two_clients i) = 0" "i < 2 \<Longrightarrow> cl_master (client two_clients i) = None"
  "i < 2 \<Longrightarrow> cl_fdbJoined (client two_clients i) = Some []" "i < 2 \<Longrightarrow> cl_peer (client two_clients i) = None"
  "i < 2 \<Longrightarrow> \<not> cl_isClient (client two_clients i)" "i < 2 \<Longrightarrow> \<not> cl_p2pFwd (client two_clients i)"
  "i < 2 \<Longrightarrow> \<not> cl_valid (client two_clients i)" "i < 2 \<Longrightarrow> cl_rx_bytes (client two_clients i) = 0"
  by (auto simp: two_clients_def new_world_def NewClient_def Let_def client_def less_2_cases_iff
      L2PktMinSize_def L2PktMaxSize_def)

end
