(* ===== verification/Vnet_Packets.thy ===== *)
theory Vnet_Packets
  imports Vnet_State
begin

text \<open>
  The packets of \<open>vnet\<close> in good order (\<open>pkts_ok\<close>: the pool's invariant, and every buffer has its
  size), and what taking, filling, holding and putting a packet does to them.
\<close>

definition pkts_ok :: "vnet \<Rightarrow> bool" where
  "pkts_ok w \<longleftrightarrow> pool_inv (vn_pkts w) \<and> (\<forall>pb \<in> set (ps_heap (vn_pkts w)). pb_wf pb)"

lemma pkts_okD:
  assumes "pkts_ok w"
  shows "pool_inv (vn_pkts w)" and "a < length (ps_heap (vn_pkts w)) \<Longrightarrow> pb_wf (pkt (vn_pkts w) a)"
  using assms by (simp_all add: pkts_ok_def)

lemma all_wf_iff:
  "(\<forall>pb \<in> set (ps_heap s). pb_wf pb) \<longleftrightarrow> (\<forall>a < length (ps_heap s). pb_wf (pkt s a))"
  by (simp add: all_set_conv_all_nth)

lemma GetPktFromPool_wf:
  assumes "pool_inv s" and "\<forall>pb \<in> set (ps_heap s). pb_wf pb"
    and "GetPktFromPool sp choice s = (a, t)"
  shows "\<forall>pb \<in> set (ps_heap t). pb_wf pb"
proof -
  note spec = GetPktFromPool_spec [OF assms(1,3)]
  have "pb_wf (pkt t b)" if "b < length (ps_heap t)" for b
    using that assms(2) spec(6) [of b] spec(8,9,10)
    by (cases "b = a") (auto simp: all_wf_iff pb_wf_def split: if_splits)
  then show ?thesis by (simp add: all_wf_iff)
qed

lemma PutPktToPool_heap:
  assumes "pool_inv s" and "a < length (ps_heap s)" and "0 < pb_ref (pkt s a)"
    and "PutPktToPool a s = Inr t"
  shows "pkt t b = (if b = a then (pkt s a)\<lparr>pb_ref := pb_ref (pkt s a) - 1\<rparr> else pkt s b)"
  using assms pool_invD(6) [OF assms(1,2)]
  by (auto simp: PutPktToPool_eq Let_def ReleasePktBuf_eq split: if_splits)

lemma HoldPktBuf_heap:
  assumes "pool_inv s" and "a < length (ps_heap s)" and "pb_ref (pkt s a) < max_ref"
  shows "pkt (HoldPktBuf a s) b =
    (if b = a then (pkt s a)\<lparr>pb_ref := pb_ref (pkt s a) + 1\<rparr> else pkt s b)"
  using assms pool_invD(5) [OF assms(1,2)] by (simp add: HoldPktBuf_def)

text \<open>A packet that its holder puts on a channel and then puts back: the channel holds it.\<close>

lemma send_and_put:
  assumes ok: "pkts_ok w" and c: "c < length (vn_clients w)"
    and "\<not> IsClose w c" "\<not> cl_chanClosed (client w c)"
    and a: "a < length (ps_heap (vn_pkts w))" "pb_ref (pkt (vn_pkts w) a) = 1"
  obtains w' where "bind_res (PutPktToChan2 c a w) (putPktBuf a) = Inr w'"
    "client w' = (client w)(c := (client w c)\<lparr>cl_pktchan := cl_pktchan (client w c) @ [a]\<rparr>)"
    "\<forall>b. pkt (vn_pkts w') b = pkt (vn_pkts w) b" "pkts_ok w'"
    "length (vn_clients w') = length (vn_clients w)" "vn_fdbs w' = vn_fdbs w"
    "vn_Vids w' = vn_Vids w" "vn_ClientMaster w' = vn_ClientMaster w"
    "vn_HeartbeatCnt w' = vn_HeartbeatCnt w"
proof -
  note inv = pkts_okD(1) [OF ok]
  let ?h = "HoldPktBuf a (vn_pkts w)"
  let ?v = "upd_client c (\<lambda>cl. cl\<lparr>cl_pktchan := cl_pktchan cl @ [a]\<rparr>) (upd_pkts (HoldPktBuf a) w)"
  have h: "pool_inv ?h" "a < length (ps_heap ?h)" "pb_ref (pkt ?h a) = 2"
    "\<And>b. b \<noteq> a \<Longrightarrow> pkt ?h b = pkt (vn_pkts w) b"
    "pkt ?h a = (pkt (vn_pkts w) a)\<lparr>pb_ref := 2\<rparr>"
    using HoldPktBuf_inv [OF inv a(1)] HoldPktBuf_heap [OF inv a(1)] a
    by (simp_all add: HoldPktBuf_def)
  obtain t where t: "PutPktToPool a ?h = Inr t" "pool_inv t" "length (ps_heap t) = length (ps_heap ?h)"
    using PutPktToPool_spec [OF h(1,2)] h(3) by auto
  have heap: "pkt t b = pkt (vn_pkts w) b" for b
    using PutPktToPool_heap [OF h(1,2) _ t(1), of b] h(3,4,5) a(2) by auto
  have len: "length (ps_heap t) = length (ps_heap (vn_pkts w))"
    using t(3) by (simp add: HoldPktBuf_def)
  have "PutPktToChan2 c a w = Inr ?v"
    using assms(3,4) by (simp add: PutPktToChan2_def Let_def)
  then have "bind_res (PutPktToChan2 c a w) (putPktBuf a) = Inr (?v\<lparr>vn_pkts := t\<rparr>)"
    using t(1) by (simp add: putPktBuf_def)
  moreover have "pkts_ok (?v\<lparr>vn_pkts := t\<rparr>)"
    using t(2) heap len pkts_okD(2) [OF ok] by (simp add: pkts_ok_def all_wf_iff)
  ultimately show thesis
    using heap c by (intro that [of "?v\<lparr>vn_pkts := t\<rparr>"]) auto
qed


text \<open>A packet taken from the pool of a client, and the change of a packet by its holder.\<close>

lemma getPktBuf_ok:
  assumes "pkts_ok w"
  obtains a s where "getPktBuf choice c w = (a, w\<lparr>vn_pkts := s\<rparr>)" "pkts_ok (w\<lparr>vn_pkts := s\<rparr>)"
    "a < length (ps_heap s)" "pb_ref (pkt s a) = 1" "pb_len (pkt s a) = 0"
    "length (pb_buf (pkt s a)) = 1528" "length (ps_heap (vn_pkts w)) \<le> length (ps_heap s)"
    "\<forall>b < length (ps_heap (vn_pkts w)). 0 < pb_ref (pkt (vn_pkts w) b) \<longrightarrow>
      b \<noteq> a \<and> pkt s b = pkt (vn_pkts w) b"
proof -
  obtain a s where g: "GetPktFromPool (cl_pbp (client w c)) choice (vn_pkts w) = (a, s)"
    by (cases "GetPktFromPool (cl_pbp (client w c)) choice (vn_pkts w)")
  note spec = GetPktFromPool_spec [OF pkts_okD(1) [OF assms] g]
  have wf: "\<forall>pb \<in> set (ps_heap s). pb_wf pb"
    using GetPktFromPool_wf [OF pkts_okD(1) [OF assms] _ g] assms by (simp add: pkts_ok_def)
  have "b \<noteq> a \<and> pkt s b = pkt (vn_pkts w) b"
    if "b < length (ps_heap (vn_pkts w))" "0 < pb_ref (pkt (vn_pkts w) b)" for b
    using that spec(5) spec(6) [of b] by (cases "b = a") simp_all
  then show thesis
    using g spec(1,2,3,4,7) wf
    by (intro that [of a s]) (simp_all add: getPktBuf_def pkts_ok_def pb_wf_length)
qed

lemma pkts_ok_upd:
  assumes "pkts_ok w" and "a < length (ps_heap (vn_pkts w))" and "0 < pb_ref (pkt (vn_pkts w) a)"
    and "pb_ref (f (pkt (vn_pkts w) a)) = pb_ref (pkt (vn_pkts w) a)"
    and "pb_pool (f (pkt (vn_pkts w) a)) = pb_pool (pkt (vn_pkts w) a)"
    and "length (pb_buf (f (pkt (vn_pkts w) a))) = 1528"
  shows "pkts_ok (upd_pkts (upd_pkt a f) w)"
proof -
  have "pool_inv (upd_pkt a f (vn_pkts w))"
    using assms pool_invD(6) [OF pkts_okD(1) [OF assms(1)] assms(2)]
    by (intro pool_inv_upd) (simp_all add: pkts_ok_def)
  then show ?thesis
    using assms unfolding pkts_ok_def all_wf_iff by (auto simp: pb_wf_def pktBufSize_def)
qed

lemma pkts_ok_frame [simp]:
  "pkts_ok (upd_client c f w) = pkts_ok w" "pkts_ok (upd_fdbs h w) = pkts_ok w"
  "pkts_ok (w\<lparr>vn_now := t\<rparr>) = pkts_ok w" "pkts_ok (w\<lparr>vn_netStat := q\<rparr>) = pkts_ok w"
  by (simp_all add: pkts_ok_def)

lemma overwrite_append:
  assumes "length xs + length ys \<le> length b"
  shows "overwrite (overwrite b (length xs) ys) 0 xs = xs @ ys @ drop (length xs + length ys) b"
  using assms by (simp add: overwrite_def)

lemma two_clients_pkts: "pkts_ok two_clients"
  by (simp add: pkts_ok_def two_clients_fields pool_inv_def empty_store_def)

end
