(* ===== verification/Vnet_Fdb.thy ===== *)
theory Vnet_Fdb
  imports Vnet_State
begin

text \<open>
  Package \<open>vnet\<close>, file \<open>vid.go\<close>: which bridges a client takes part in. \<open>fdbJoined\<close> is a map from
  VLAN identifiers to the bridge and the port identifier on it, \<open>None\<close> when it is the \<open>nil\<close> map.
  The bridges themselves are the FDB world of the package \<open>fdb\<close>.
\<close>

section \<open>Joining and leaving\<close>

definition joined :: "vnet \<Rightarrow> nat \<Rightarrow> (int \<times> fdbPort) list" where
  "joined w c = (case cl_fdbJoined (client w c) of None \<Rightarrow> [] | Some m \<Rightarrow> m)"

definition Client_GetFdbById :: "vnet \<Rightarrow> nat \<Rightarrow> int \<Rightarrow> fdbPort option" where
  "Client_GetFdbById w c i = map_of (joined w c) i"

definition GetFdbJoinIds :: "vnet \<Rightarrow> nat \<Rightarrow> int list" where
  "GetFdbJoinIds w c = keys (joined w c)"

definition SetVids :: "int list \<Rightarrow> vnet \<Rightarrow> vnet res" where
  "SetVids vidset w =
     (if length vidset = 0 then Inr w
      else fold_res (\<lambda>vid w. bind_res (NewFdb vid (vn_fdbs w)) (\<lambda>(_, fw). Inr (w\<lparr>vn_fdbs := fw\<rparr>)))
             vidset (w\<lparr>vn_Vids := vidset\<rparr>))"

text \<open>The error is the first component; the state may have changed either way.\<close>

definition joinFdbById :: "nat \<Rightarrow> int \<Rightarrow> vnet \<Rightarrow> (vnet_error option \<times> vnet) res" where
  "joinFdbById c i w =
     bind_res (NewFdb i (vn_fdbs w)) (\<lambda>(f, fw).
     bind_res (JoinFwdPort c (\<not> cl_isClient (client w c)) (fdb_at fw f)) (\<lambda>(portId, g).
       let w = w\<lparr>vn_fdbs := set_fdb f g fw\<rparr> in
       if portId = 0 then Inr (Some FdbFull, w)
       else case cl_fdbJoined (client w c) of
              None \<Rightarrow> Inl NilMapWrite
            | Some m \<Rightarrow> Inr (None, upd_client c (\<lambda>cl. cl\<lparr>cl_fdbJoined :=
                Some (AList.update i \<lparr>fp_fdb = f, fp_fdbPortId = portId\<rparr> m)\<rparr>) w)))"

definition joinFdbByIds :: "nat \<Rightarrow> int list \<Rightarrow> vnet \<Rightarrow> vnet res" where
  "joinFdbByIds c ids w =
     fold_res (\<lambda>i w. bind_res (joinFdbById c i w) (\<lambda>(_, w). Inr w)) ids w"

definition JoinAllFdb :: "nat \<Rightarrow> vnet \<Rightarrow> vnet res" where
  "JoinAllFdb c w = joinFdbByIds c (GetFdbIds (vn_fdbs w)) w"

text \<open>Leaving one bridge that the client has joined.\<close>

definition release_fdb :: "nat \<Rightarrow> fdbPort \<Rightarrow> vnet \<Rightarrow> vnet res" where
  "release_fdb c fp w =
     bind_res (ReleaseFwdPort (fp_fdbPortId fp) (\<not> cl_isClient (client w c))
                 (fdb_at (vn_fdbs w) (fp_fdb fp))) (\<lambda>g.
     Inr (upd_fdbs (set_fdb (fp_fdb fp) g) w))"

definition forget_fdb :: "nat \<Rightarrow> int \<Rightarrow> vnet \<Rightarrow> vnet" where
  "forget_fdb c i w =
     (let w = upd_client c (\<lambda>cl. cl\<lparr>cl_fdbJoined := map_option (AList.delete i) (cl_fdbJoined cl)\<rparr>) w
      in if vn_Vids w = [] then upd_fdbs (TryToDelFdbById i) w else w)"

definition quitFdbByIds :: "nat \<Rightarrow> int list \<Rightarrow> vnet \<Rightarrow> vnet res" where
  "quitFdbByIds c ids w =
     fold_res (\<lambda>i w.
       case Client_GetFdbById w c i of
         None \<Rightarrow> Inr w
       | Some fp \<Rightarrow> bind_res (release_fdb c fp w) (\<lambda>w. Inr (forget_fdb c i w))) ids w"

definition quitAllFdb :: "nat \<Rightarrow> vnet \<Rightarrow> vnet res" where
  "quitAllFdb c w =
     bind_res (fold_res (\<lambda>(fpid, fp) w.
         bind_res (release_fdb c fp w) (\<lambda>w. Inr (forget_fdb c fpid w))) (joined w c) w) (\<lambda>w.
     Inr (upd_client c (\<lambda>cl. cl\<lparr>cl_fdbJoined := None\<rparr>) w))"

section \<open>Following the other side's set of identifiers\<close>

text \<open>\<open>newVidMap\<close>: the keys of a map that was filled from a slice.\<close>

definition vid_map :: "int list \<Rightarrow> int list" where
  "vid_map ids = keys (fold (\<lambda>i m. AList.update i i m) ids [])"

definition handleFdbIds :: "nat \<Rightarrow> int list \<Rightarrow> vnet \<Rightarrow> vnet res" where
  "handleFdbIds c NewVids w =
     (let newVidMap = vid_map NewVids;
          joinIds = filter (\<lambda>i. i \<notin> set (keys (joined w c))) newVidMap;
          quitIds = filter (\<lambda>i. i \<notin> set newVidMap) (keys (joined w c))
      in bind_res (quitFdbByIds c quitIds w) (joinFdbByIds c joinIds))"

text \<open>
  \<open>reportFdbMsg\<close> writes the identifiers into the packet behind the header. The space for them is
  the rest of the buffer; more than that ends in the panic of \<open>SetDataLen\<close>.
\<close>

definition vid_bytes :: "int list \<Rightarrow> byte list" where
  "vid_bytes ids = concat (map (\<lambda>i. bytes16 (word_of_int i)) ids)"

definition reportFdbMsg :: "nat option \<Rightarrow> nat \<Rightarrow> vnet \<Rightarrow> vnet res" where
  "reportFdbMsg choice c w =
     (let master = (case cl_master (client w c) of Some m \<Rightarrow> m | None \<Rightarrow> c);
          (a, w) = getPktBuf choice c w;
          fis = pb_buf (pkt (vn_pkts w) a);
          ids = vid_bytes (keys (joined w master))
      in bind_res (assembleFdbIdsHead (take PktHeaderSize fis) (int (length ids))) (\<lambda>head.
         let fis = overwrite (overwrite fis PktHeaderSize (take (length fis - PktHeaderSize) ids)) 0 head;
             w = upd_pkts (upd_pkt a (\<lambda>pb. pb\<lparr>pb_buf := fis\<rparr>)) w
         in bind_res (SetDataLen (pkt (vn_pkts w) a) (int (length ids) + int PktHeaderSize)) (\<lambda>pb.
            let w = upd_pkts (upd_pkt a (\<lambda>_. SetUserDataOff pb (int PktHeaderSize))) w
            in bind_res (PutPktToChan2 c a w) (putPktBuf a))))"

text \<open>
  The lists \<open>joinIds\<close> and \<open>quitIds\<close> are declared before the loop over the masters and grow from
  master to master, as in the code.
\<close>

definition updateMasterFdb :: "nat option \<Rightarrow> vnet \<Rightarrow> vnet res" where
  "updateMasterFdb choice w =
     (let newVidMap = vid_map (GetFdbIds (vn_fdbs w)) in
      bind_res (fold_res (\<lambda>(_, c) (joinIds, quitIds, w).
          if cl_fdbJoined (client w c) = None then Inr (joinIds, quitIds, w)
          else
            let joinIds = joinIds @ filter (\<lambda>i. i \<notin> set (keys (joined w c))) newVidMap;
                quitIds = quitIds @ filter (\<lambda>i. i \<notin> set newVidMap) (keys (joined w c))
            in bind_res (quitFdbByIds c quitIds w) (\<lambda>w.
               bind_res (joinFdbByIds c joinIds w) (\<lambda>w.
               bind_res (if length joinIds > 0 \<or> length quitIds > 0
                         then reportFdbMsg choice c w else Inr w) (\<lambda>w.
               Inr (joinIds, quitIds, w)))))
        (vn_ClientMaster w) ([], [], w))
      (\<lambda>(_, _, w). Inr w))"

text \<open>\<open>binary.Read\<close> of 16-bit values until the end of the message.\<close>

fun read_vids :: "byte list \<Rightarrow> int list" where
  "read_vids (a # b # rest) = uint (be16 a b) # read_vids rest"
| "read_vids _ = []"

definition handleFdbIdsMsg :: "nat option \<Rightarrow> nat \<Rightarrow> byte list \<Rightarrow> vnet \<Rightarrow> (vnet_error option \<times> vnet) res" where
  "handleFdbIdsMsg choice c msg w =
     (if length msg mod 2 \<noteq> 0 then Inr (Some OddVidBytes, w)
      else let MsgVids = read_vids msg in
        if length (vn_Vids w) > 0 then
          let vids = filter (\<lambda>i. GetFdbById (vn_fdbs w) i \<noteq> None) MsgVids
          in bind_res (handleFdbIds c vids w) (\<lambda>w. Inr (None, w))
        else bind_res (handleFdbIds c MsgVids w) (\<lambda>w.
             bind_res (updateMasterFdb choice w) (\<lambda>w. Inr (None, w))))"

end
