(* ===== verification/Vnet_Forward.thy ===== *)
theory Vnet_Forward
  imports Vnet_Packets Vnet_Fdb
begin

text \<open>
  Package \<open>vnet\<close>, \<open>ForwardPkt\<close> of \<open>client.go\<close>: where a packet that a client received goes. The
  counters of packets for the statistics (\<open>netstat.NetStatPut\<close>) and the queue of a backup link
  (\<open>backupLink.PutToRecvQueue\<close>) are the channels it may end in besides those of the clients.
\<close>

definition IsEnable :: "vnet \<Rightarrow> bool" where
  "IsEnable w \<longleftrightarrow> vn_netStat w \<noteq> None"

definition NetStatPut :: "nat \<Rightarrow> vnet \<Rightarrow> vnet" where
  "NetStatPut a w = (upd_pkts (HoldPktBuf a) w)\<lparr>vn_netStat := map_option (\<lambda>q. q @ [a]) (vn_netStat w)\<rparr>"

text \<open>The method of the three implementations of \<open>VnetIO\<close>; the packet is held before the test.\<close>

definition PutToRecvQueue :: "VnetIO \<Rightarrow> nat \<Rightarrow> nat \<Rightarrow> vnet \<Rightarrow> vnet" where
  "PutToRecvQueue cio a slave w =
     (case cio of
        IoConn \<Rightarrow> w
      | IoTun t \<Rightarrow> w
      | IoBackup b \<Rightarrow>
          let w = upd_pkts (HoldPktBuf a) w in
          if bl_activeSlave (vn_links w ! b) = Some slave
          then upd_link b (\<lambda>bl. bl\<lparr>bl_recvQueue := bl_recvQueue bl @ [a]\<rparr>) w
          else w)"

definition ForwardPkt :: "nat \<Rightarrow> nat \<Rightarrow> vnet \<Rightarrow> vnet res" where
  "ForwardPkt c a w =
     (if cl_p2pFwd (client w c) then
        bind_res (FwdToPeer c a w) (\<lambda>w. Inr (if IsEnable w then NetStatPut a w else w))
      else case cl_master (client w c) of
        Some m \<Rightarrow> Inr (PutToRecvQueue (cl_cio (client w m)) a c w)
      | None \<Rightarrow>
          (case Client_GetFdbById w c (uint (GetPktVid (pkt (vn_pkts w) a))) of
             None \<Rightarrow> Inr w
           | Some fp \<Rightarrow>
               bind_res (Forward (fw_tick (vn_fdbs w)) c (pkt (vn_pkts w) a)
                          (fdb_at (vn_fdbs w) (fp_fdb fp))) (\<lambda>(fwd, out, g).
               bind_res (fold_res (\<lambda>p. PutPktToChan p a) out (upd_fdbs (set_fdb (fp_fdb fp) g) w)) (\<lambda>w.
               Inr (if fwd \<and> IsEnable w then NetStatPut a w else w)))))"

end
