(* ===== verification/Vnet_Heartbeat.thy ===== *)
theory Vnet_Heartbeat
  imports Vnet_Packets "HOL-Library.Signed_Division"
begin

text \<open>
  Package \<open>vnet\<close>, file \<open>heartbeat.go\<close>: the heartbeat packets and what a client does on them. A
  timer is the time it fires at (\<open>hb_hbTimer\<close>); times and durations are in nanoseconds. The loop
  \<open>HeartBeat\<close> itself is in \<open>Vnet_Client\<close>, as it ends in \<open>Reconnect\<close>.
\<close>

definition HBRequest :: int where "HBRequest = 0"
definition HBReply :: int where "HBReply = 1"
definition HearBeatReq :: string where "HearBeatReq = ''HeartBeatReq''"
definition HearBeatRpl :: string where "HearBeatRpl = ''HeartBeatRpl''"
definition HBIDSize :: nat where "HBIDSize = 2"
definition HearBeatLen :: u64 where "HearBeatLen = 14"

definition Millisecond :: int where "Millisecond = 1000000"
definition Second :: int where "Second = 1000 * Millisecond"

definition SetHeartbeat :: "int \<Rightarrow> int \<Rightarrow> int \<Rightarrow> vnet \<Rightarrow> vnet" where
  "SetHeartbeat idle count intv w =
     (if idle \<le> 0 \<or> count \<le> 0 \<or> intv \<le> 0 then w
      else w\<lparr>vn_HeartbeatIdle := idle, vn_HeartbeatCnt := count, vn_HeartbeatIntv := intv\<rparr>)"

section \<open>The state of a client's heartbeat\<close>

definition upd_hb :: "nat \<Rightarrow> (heartBeat \<Rightarrow> heartBeat) \<Rightarrow> vnet \<Rightarrow> vnet" where
  "upd_hb c f w = upd_client c (\<lambda>cl. cl\<lparr>cl_hb := map_option f (cl_hb cl)\<rparr>) w"

definition hbTimerReset :: "int \<Rightarrow> nat \<Rightarrow> vnet \<Rightarrow> vnet" where
  "hbTimerReset d c w =
     upd_hb c (\<lambda>hb. hb\<lparr>hb_hbTimer := map_option (\<lambda>_. vn_now w + d) (hb_hbTimer hb)\<rparr>) w"

definition heartBeatID :: "vnet \<Rightarrow> nat \<Rightarrow> u16" where
  "heartBeatID w c = (case cl_hb (client w c) of Some hb \<Rightarrow> hb_hbID hb | None \<Rightarrow> 0)"

definition heartBeatUpdate :: "nat \<Rightarrow> vnet \<Rightarrow> vnet" where
  "heartBeatUpdate c w =
     upd_hb c (\<lambda>hb.
       let hb = hb\<lparr>hb_hbID := hb_hbID hb + 1\<rparr>;
           hb = (if hb_hbID hb = 0 then hb\<lparr>hb_hbID := 1, hb_hbDelaySum := 0\<rparr> else hb)
       in hb\<lparr>hb_hbReqTime := vn_now w\<rparr>) w"

definition heartBeatDelayCalc :: "nat \<Rightarrow> vnet \<Rightarrow> vnet" where
  "heartBeatDelayCalc c w =
     upd_hb c (\<lambda>hb.
       let hb = hb\<lparr>hb_hbDelay := vn_now w - hb_hbReqTime hb\<rparr>;
           hb = hb\<lparr>hb_hbDelaySum := hb_hbDelaySum hb + hb_hbDelay hb\<rparr>
       in if hb_hbID hb \<noteq> 0
          then hb\<lparr>hb_hbDelayAvg := hb_hbDelaySum hb sdiv uint (hb_hbID hb)\<rparr> else hb) w"

definition heartBeatDelay :: "vnet \<Rightarrow> nat \<Rightarrow> int" where
  "heartBeatDelay w c =
     (case cl_hb (client w c) of Some hb \<Rightarrow> hb_hbDelay hb sdiv Millisecond | None \<Rightarrow> 0)"

definition heartBeatDelayAvg :: "vnet \<Rightarrow> nat \<Rightarrow> int" where
  "heartBeatDelayAvg w c =
     (case cl_hb (client w c) of Some hb \<Rightarrow> hb_hbDelayAvg hb | None \<Rightarrow> 0)"

section \<open>Sending and receiving\<close>

text \<open>
  The packet is built in its own buffer: \<open>StoreData\<close> copies a prefix of the buffer onto itself.
\<close>

definition fill_heartbeat ::
  "(byte list \<Rightarrow> int \<Rightarrow> byte list res) \<Rightarrow> string \<Rightarrow> u16 \<Rightarrow> nat \<Rightarrow> vnet \<Rightarrow> vnet res" where
  "fill_heartbeat assemble text hbID a w =
     (let hb = pb_buf (pkt (vn_pkts w) a) in
      bind_res (assemble (take PktHeaderSize hb) (int (length text + HBIDSize))) (\<lambda>head.
      bind_res (PutUint16_at (overwrite hb 0 head) PktHeaderSize hbID) (\<lambda>hb.
        let dst = PktHeaderSize + HBIDSize;
            hb = overwrite hb dst (take (length hb - dst) (string_bytes text));
            w = upd_pkts (upd_pkt a (\<lambda>pb. pb\<lparr>pb_buf := hb\<rparr>)) w
        in bind_res (sub_at hb 0 (PktHeaderSize + length text + HBIDSize)) (\<lambda>data.
           Inr (upd_pkts (upd_pkt a (\<lambda>pb. StoreData pb data)) w)))))"

definition sendHeartBeat :: "nat option \<Rightarrow> int \<Rightarrow> u16 \<Rightarrow> nat \<Rightarrow> vnet \<Rightarrow> vnet res" where
  "sendHeartBeat choice hbType hbID c w =
     (let (a, w) = getPktBuf choice c w in
      bind_res
        (if hbType = HBRequest then
           let w = heartBeatUpdate c w; hbID = heartBeatID w c
           in fill_heartbeat assembleHbReqHead HearBeatReq hbID a w
         else fill_heartbeat assembleHbRplHead HearBeatRpl hbID a w) (\<lambda>w.
      let w = upd_pkts (upd_pkt a (\<lambda>pb. SetUserDataOff pb (int PktHeaderSize))) w
      in bind_res (PutPktToChan2 c a w) (putPktBuf a)))"

definition checkHeartBeat :: "nat option \<Rightarrow> nat \<Rightarrow> byte gslice \<Rightarrow> vnet \<Rightarrow> (bool \<times> vnet) res" where
  "checkHeartBeat choice c p w =
     bind_res (sl_slice p 0 HBIDSize) (\<lambda>h.
     bind_res (Uint16_at (sl_list h) 0) (\<lambda>i.
     bind_res (sl_from p HBIDSize) (\<lambda>s.
       if sl_list s = string_bytes HearBeatReq then
         bind_res (sendHeartBeat choice HBReply i c w) (\<lambda>w. Inr (True, w))
       else if sl_list s = string_bytes HearBeatRpl then
         if cl_hb (client w c) = None then Inr (False, w)
         else
           let w = upd_client c (\<lambda>cl. cl\<lparr>cl_rx_bytes := cl_rx_bytes cl + HearBeatLen\<rparr>) w in
           if i = heartBeatID w c
           then Inr (True, heartBeatDelayCalc c (upd_client c (\<lambda>cl. cl\<lparr>cl_valid := True\<rparr>) w))
           else if heartBeatID w c = 1 then Inr (False, w)
           else Inr (True, w)
       else Inr (False, w))))"

section \<open>The packet\<close>

definition hb_body :: "string \<Rightarrow> u16 \<Rightarrow> byte list" where
  "hb_body text i = bytes16 i @ string_bytes text"

definition hb_packet :: "byte \<Rightarrow> string \<Rightarrow> u16 \<Rightarrow> byte list" where
  "hb_packet t text i = head_bytes t 14 0 0 @ hb_body text i"

lemma byte_of_char_inject: "(word_of_nat (of_char c) :: byte) = word_of_nat (of_char d) \<longleftrightarrow> c = d"
proof
  assume "(word_of_nat (of_char c) :: byte) = word_of_nat (of_char d)"
  then have "take_bit 8 (of_char c :: nat) = take_bit 8 (of_char d)"
    by (simp add: word_of_nat_eq_iff)
  moreover have "(of_char x :: nat) < 256" for x :: char
    by (metis char_of_char of_char_of mod_less_divisor zero_less_numeral)
  ultimately have "(of_char c :: nat) = of_char d"
    by (simp add: take_bit_nat_eq_self)
  then show "c = d" by simp
qed simp

lemma string_bytes_inject: "string_bytes s = string_bytes t \<longleftrightarrow> s = t"
  unfolding string_bytes_def by (rule inj_map_eq_map) (simp add: inj_def byte_of_char_inject)

lemma texts_length [simp]: "length HearBeatReq = 12" "length HearBeatRpl = 12"
  by (simp_all add: HearBeatReq_def HearBeatRpl_def)

lemma hb_lengths [simp]: "length (hb_body t i) = 2 + length t"
  "length (hb_packet y t i) = 8 + length t"
  by (simp_all add: hb_packet_def hb_body_def)

lemma upd_pkts_fuse:
  assumes "a < length (ps_heap (vn_pkts w))"
  shows "upd_pkts (upd_pkt a f) (upd_pkts (upd_pkt a g) w) = upd_pkts (upd_pkt a (\<lambda>pb. f (g pb))) w"
  using assms by (simp add: upd_pkts_def upd_pkt_def)

lemma fill_heartbeat_eq:
  assumes a: "a < length (ps_heap (vn_pkts w))" and b: "length (pb_buf (pkt (vn_pkts w) a)) = 1528"
    and h: "\<And>b. 6 \<le> length b \<Longrightarrow> assemble b 14 = Inr (head_bytes t 14 0 0 @ drop 6 b)"
    and x: "length text = 12"
  shows "fill_heartbeat assemble text i a w = Inr (upd_pkts (upd_pkt a (\<lambda>pb.
    pb\<lparr>pb_buf := hb_packet t text i @ drop 20 (pb_buf (pkt (vn_pkts w) a)), pb_len := 20\<rparr>)) w)"
proof -
  let ?hb = "pb_buf (pkt (vn_pkts w) a)"
  let ?b = "hb_packet t text i @ drop 20 ?hb"
  have 1: "overwrite ?hb 0 (head_bytes t 14 0 0) = head_bytes t 14 0 0 @ drop 6 ?hb"
    by (simp add: overwrite_def)
  have 2: "PutUint16_at (head_bytes t 14 0 0 @ drop 6 ?hb) 6 i
      = Inr (head_bytes t 14 0 0 @ bytes16 i @ drop 8 ?hb)"
    using b by (simp add: PutUint16_at_def overwrite_def)
  have 3: "overwrite (head_bytes t 14 0 0 @ bytes16 i @ drop 8 ?hb) 8 (string_bytes text) = ?b"
    using b x by (simp add: overwrite_def hb_packet_def hb_body_def)
  have 4: "StoreData (pb\<lparr>pb_buf := ?b\<rparr>) (take 20 ?b) = pb\<lparr>pb_buf := ?b, pb_len := 20\<rparr>" for pb
    using b x by (simp add: StoreData_def overwrite_def Let_def)
  show ?thesis
    using a b x h [of "take 6 ?hb"] 1 2 3 4
    by (simp add: fill_heartbeat_def HBIDSize_def PktHeaderSize_def sub_at_def upd_pkts_fuse Let_def)
qed

lemma upd_hb_other [simp]:
  "cl_pktchan (client (upd_hb c f w) d) = cl_pktchan (client w d)"
  "cl_isClosed (client (upd_hb c f w) d) = cl_isClosed (client w d)"
  "cl_chanClosed (client (upd_hb c f w) d) = cl_chanClosed (client w d)"
  "cl_valid (client (upd_hb c f w) d) = cl_valid (client w d)"
  "cl_rx_bytes (client (upd_hb c f w) d) = cl_rx_bytes (client w d)"
  "cl_cio (client (upd_hb c f w) d) = cl_cio (client w d)"
  "cl_fdbJoined (client (upd_hb c f w) d) = cl_fdbJoined (client w d)"
  by (simp_all add: upd_hb_def)

lemma upd_hb_frame [simp]:
  "vn_pkts (upd_hb c f w) = vn_pkts w" "vn_fdbs (upd_hb c f w) = vn_fdbs w"
  "vn_now (upd_hb c f w) = vn_now w" "length (vn_clients (upd_hb c f w)) = length (vn_clients w)"
  "pkts_ok (upd_hb c f w) = pkts_ok w" "vn_HeartbeatCnt (upd_hb c f w) = vn_HeartbeatCnt w"
  by (simp_all add: upd_hb_def)

lemma upd_hb_pkts: "upd_hb c f (w\<lparr>vn_pkts := s\<rparr>) = (upd_hb c f w)\<lparr>vn_pkts := s\<rparr>"
  by (simp add: upd_hb_def upd_client_def client_def)

definition hb_sender :: "int \<Rightarrow> nat \<Rightarrow> vnet \<Rightarrow> vnet" where
  "hb_sender t c w = (if t = HBRequest then heartBeatUpdate c w else w)"

definition hb_sent :: "int \<Rightarrow> u16 \<Rightarrow> nat \<Rightarrow> vnet \<Rightarrow> byte list" where
  "hb_sent t i c w = (if t = HBRequest
     then hb_packet HearbeatReq HearBeatReq (heartBeatID (heartBeatUpdate c w) c)
     else hb_packet HearbeatRpl HearBeatRpl i)"

text \<open>The packet as it is put on the channel, and what else \<open>sendHeartBeat\<close> changes.\<close>

lemma sendHeartBeat_ok:
  assumes ok: "pkts_ok w" and c: "c < length (vn_clients w)" and "\<not> IsClose w c"
    and "\<not> cl_chanClosed (client w c)"
  obtains w' a where "sendHeartBeat choice t i c w = Inr w'" "pkts_ok w'"
    "client w' = (client (hb_sender t c w))(c := (client (hb_sender t c w) c)\<lparr>cl_pktchan :=
       cl_pktchan (client w c) @ [a]\<rparr>)"
    "pb_ref (pkt (vn_pkts w') a) = 1"
    "map_sum id sl_list (LoadData (pkt (vn_pkts w') a)) = Inr (hb_sent t i c w)"
    "length (vn_clients w') = length (vn_clients w)" "vn_fdbs w' = vn_fdbs w"
    "vn_HeartbeatCnt w' = vn_HeartbeatCnt w"
proof -
  obtain a s where g: "getPktBuf choice c w = (a, w\<lparr>vn_pkts := s\<rparr>)" "pkts_ok (w\<lparr>vn_pkts := s\<rparr>)"
    "a < length (ps_heap s)" "pb_ref (pkt s a) = 1" "length (pb_buf (pkt s a)) = 1528"
    using getPktBuf_ok [OF ok] by metis
  let ?u = "(hb_sender t c w)\<lparr>vn_pkts := s\<rparr>"
  have u: "pkts_ok ?u" using g(2) by (simp add: pkts_ok_def)
  let ?b = "hb_sent t i c w @ drop 20 (pb_buf (pkt s a))"
  let ?f = "\<lambda>pb. pb\<lparr>pb_buf := ?b, pb_len := 20, pb_macHeader := 6\<rparr>"
  let ?v = "upd_pkts (upd_pkt a ?f) ?u"
  have upd: "heartBeatUpdate c (w\<lparr>vn_pkts := s\<rparr>) = (heartBeatUpdate c w)\<lparr>vn_pkts := s\<rparr>"
    by (simp add: heartBeatUpdate_def upd_hb_pkts)
  have "heartBeatID (v\<lparr>vn_pkts := s\<rparr>) c = heartBeatID v c" for v
    by (simp add: heartBeatID_def)
  then have send: "sendHeartBeat choice t i c w = bind_res (PutPktToChan2 c a ?v) (putPktBuf a)"
    using g(1,3,5) upd
    by (simp add: sendHeartBeat_def hb_sender_def hb_sent_def fill_heartbeat_eq [of a _ _ HearbeatReq]
        fill_heartbeat_eq [of a _ _ HearbeatRpl] assembleHbReqHead_def assembleHbRplHead_def
        assemblePktHead_eq upd_pkts_fuse SetUserDataOff_def PktHeaderSize_def Let_def)
  have v: "pkts_ok ?v"
    using g(3,4,5) by (intro pkts_ok_upd [OF u]) (simp_all add: hb_sent_def)
  have "client ?v = client (hb_sender t c w)" "c < length (vn_clients ?v)"
    "cl_isClosed (client (hb_sender t c w) c) = cl_isClosed (client w c)"
    "cl_chanClosed (client (hb_sender t c w) c) = cl_chanClosed (client w c)"
    "cl_pktchan (client (hb_sender t c w) c) = cl_pktchan (client w c)"
    "length (vn_clients ?v) = length (vn_clients w)" "vn_fdbs ?v = vn_fdbs w"
    "vn_HeartbeatCnt ?v = vn_HeartbeatCnt w"
    using c by (auto simp: hb_sender_def heartBeatUpdate_def fun_eq_iff)
  note cl = this
  have "\<not> IsClose ?v c" "\<not> cl_chanClosed (client ?v c)"
    using assms(3,4) cl by (simp_all add: IsClose_def)
  moreover have "a < length (ps_heap (vn_pkts ?v))" "pb_ref (pkt (vn_pkts ?v) a) = 1"
    using g(3,4) by simp_all
  ultimately obtain w' where
    w': "bind_res (PutPktToChan2 c a ?v) (putPktBuf a) = Inr w'"
    "client w' = (client ?v)(c := (client ?v c)\<lparr>cl_pktchan := cl_pktchan (client ?v c) @ [a]\<rparr>)"
    "\<forall>b. pkt (vn_pkts w') b = pkt (vn_pkts ?v) b" "pkts_ok w'"
    "length (vn_clients w') = length (vn_clients ?v)" "vn_fdbs w' = vn_fdbs ?v"
    "vn_HeartbeatCnt w' = vn_HeartbeatCnt ?v"
    using send_and_put [OF v cl(2)] by metis
  have "LoadData (pkt (vn_pkts w') a) = Inr \<lparr>sl_arr = ?b, sl_off = 0, sl_len = 20\<rparr>"
    using w'(3) g(3,5) by (simp add: LoadData_def buf_slice_def hb_sent_def)
  then have "map_sum id sl_list (LoadData (pkt (vn_pkts w') a)) = Inr (hb_sent t i c w)"
    by (simp add: sl_list_def hb_sent_def)
  moreover have "pb_ref (pkt (vn_pkts w') a) = 1"
    using w'(3) g(3,4) by simp
  ultimately show thesis
    using send w' cl by (intro that [of w' a]) simp_all
qed

lemma checkHeartBeat_body:
  assumes "sl_wf p" and "sl_list p = hb_body text i"
  shows "checkHeartBeat choice c p w =
    (if text = HearBeatReq then
       bind_res (sendHeartBeat choice HBReply i c w) (\<lambda>w. Inr (True, w))
     else if text = HearBeatRpl then
       if cl_hb (client w c) = None then Inr (False, w)
       else
         let w = upd_client c (\<lambda>cl. cl\<lparr>cl_rx_bytes := cl_rx_bytes cl + HearBeatLen\<rparr>) w in
         if i = heartBeatID w c
         then Inr (True, heartBeatDelayCalc c (upd_client c (\<lambda>cl. cl\<lparr>cl_valid := True\<rparr>) w))
         else if heartBeatID w c = 1 then Inr (False, w)
         else Inr (True, w)
     else Inr (False, w))"
proof -
  have len: "sl_len p = 2 + length text"
    using length_sl_list [OF assms(1)] assms(2) by simp
  have cap: "2 \<le> sl_cap p" "sl_len p \<le> sl_cap p"
    using assms(1) len by (simp_all add: sl_wf_def sl_cap_def)
  have head: "take 2 (drop (sl_off p) (sl_arr p)) = bytes16 i"
  proof -
    have "take 2 (sl_list p) = bytes16 i" by (simp add: assms(2) hb_body_def)
    then show ?thesis by (simp add: sl_list_def len numeral_2_eq_2)
  qed
  have tail: "take (length text) (drop (sl_off p + 2) (sl_arr p)) = string_bytes text"
  proof -
    have "drop 2 (sl_list p) = string_bytes text" by (simp add: assms(2) hb_body_def)
    then show ?thesis by (simp add: sl_list_def len drop_take add.commute)
  qed
  have "sl_slice p 0 HBIDSize = Inr (p\<lparr>sl_len := 2\<rparr>)" "sl_list (p\<lparr>sl_len := 2\<rparr>) = bytes16 i"
    using cap head by (simp_all add: sl_slice_def HBIDSize_def sl_list_def)
  moreover have "Uint16_at (bytes16 i) 0 = Inr i"
    by (simp add: Uint16_at_def bytes16_def)
  moreover have "sl_from p HBIDSize = Inr (p\<lparr>sl_off := sl_off p + 2, sl_len := length text\<rparr>)"
    "sl_list (p\<lparr>sl_off := sl_off p + 2, sl_len := length text\<rparr>) = string_bytes text"
    using cap tail len by (simp_all add: sl_from_def sl_slice_def HBIDSize_def sl_list_def)
  ultimately show ?thesis
    by (simp only: checkHeartBeat_def bind_res_simps string_bytes_inject)
qed

section \<open>The exchange\<close>

text \<open>
  the heartbeat between the two ends of a link: the request of an open client \<open>c\<close> goes out as
  one packet of type \<open>HearbeatReq\<close>; the other end answers its content with one packet of type
  \<open>HearbeatRpl\<close>; and the content of that, whenever it arrives, makes \<open>c\<close> valid, adds 14 bytes to
  its count and measures the delay from the request.
\<close>

theorem heartbeat_exchange:
  assumes c: "pkts_ok w" "c < length (vn_clients w)" "\<not> IsClose w c" "\<not> cl_chanClosed (client w c)"
    "cl_hb (client w c) \<noteq> None"
    and d: "pkts_ok v" "d < length (vn_clients v)" "\<not> IsClose v d" "\<not> cl_chanClosed (client v d)"
  shows "\<exists>w1 a req v1 b rpl w2. sendHeartBeat ch1 HBRequest 0 c w = Inr w1
    \<and> cl_pktchan (client w1 c) = cl_pktchan (client w c) @ [a]
    \<and> map_sum id sl_list (LoadData (pkt (vn_pkts w1) a)) = Inr req
    \<and> parsePktHeader req = Inr \<lparr>ph_pktType = HearbeatReq, ph_pktLen = 14, ph_vid = 0, ph_pktCrypt = 0\<rparr>
    \<and> checkHeartBeat ch2 d (sl_of_list (drop 6 req)) v = Inr (True, v1)
    \<and> cl_pktchan (client v1 d) = cl_pktchan (client v d) @ [b]
    \<and> map_sum id sl_list (LoadData (pkt (vn_pkts v1) b)) = Inr rpl
    \<and> parsePktHeader rpl = Inr \<lparr>ph_pktType = HearbeatRpl, ph_pktLen = 14, ph_vid = 0, ph_pktCrypt = 0\<rparr>
    \<and> checkHeartBeat ch3 c (sl_of_list (drop 6 rpl)) (w1\<lparr>vn_now := t\<rparr>) = Inr (True, w2)
    \<and> cl_valid (client w2 c) \<and> cl_rx_bytes (client w2 c) = cl_rx_bytes (client w c) + 14
    \<and> map_option hb_hbDelay (cl_hb (client w2 c)) = Some (t - vn_now w)"
proof -
  obtain w1 a where w1: "sendHeartBeat ch1 HBRequest 0 c w = Inr w1"
    "client w1 = (client (heartBeatUpdate c w))(c := (client (heartBeatUpdate c w) c)\<lparr>cl_pktchan :=
       cl_pktchan (client w c) @ [a]\<rparr>)"
    "map_sum id sl_list (LoadData (pkt (vn_pkts w1) a)) =
       Inr (hb_packet HearbeatReq HearBeatReq (heartBeatID (heartBeatUpdate c w) c))"
    "length (vn_clients w1) = length (vn_clients w)"
    using sendHeartBeat_ok [OF c(1,2,3,4), of ch1 HBRequest 0]
    unfolding hb_sender_def hb_sent_def if_P [OF refl] by metis
  let ?i = "heartBeatID (heartBeatUpdate c w) c"
  have reply: "HBReply \<noteq> HBRequest" by (simp add: HBReply_def HBRequest_def)
  obtain v1 b where v1: "sendHeartBeat ch2 HBReply ?i d v = Inr v1"
    "client v1 = (client v)(d := (client v d)\<lparr>cl_pktchan := cl_pktchan (client v d) @ [b]\<rparr>)"
    "map_sum id sl_list (LoadData (pkt (vn_pkts v1) b)) = Inr (hb_packet HearbeatRpl HearBeatRpl ?i)"
    using sendHeartBeat_ok [OF d(1,2,3,4), of ch2 HBReply ?i]
    unfolding hb_sender_def hb_sent_def if_not_P [OF reply] by metis
  have id: "heartBeatID w1 c = ?i"
    by (simp add: heartBeatID_def w1(2))
  have texts: "HearBeatReq \<noteq> HearBeatRpl"
    by (simp add: HearBeatReq_def HearBeatRpl_def)
  have body: "drop 6 (hb_packet y x i) = hb_body x i" for y x i
    by (simp add: hb_packet_def)
  obtain hb where hb: "cl_hb (client w c) = Some hb" using c(5) by auto
  let ?w2 = "heartBeatDelayCalc c (upd_client c (\<lambda>cl. cl\<lparr>cl_valid := True\<rparr>)
    (upd_client c (\<lambda>cl. cl\<lparr>cl_rx_bytes := cl_rx_bytes cl + HearBeatLen\<rparr>) (w1\<lparr>vn_now := t\<rparr>)))"
  have "checkHeartBeat ch3 c (sl_of_list (hb_body HearBeatRpl ?i)) (w1\<lparr>vn_now := t\<rparr>) = Inr (True, ?w2)"
    using id texts hb w1(2,4) c(2)
    by (simp add: checkHeartBeat_body heartBeatID_def heartBeatUpdate_def upd_hb_def)
  moreover have "checkHeartBeat ch2 d (sl_of_list (hb_body HearBeatReq ?i)) v = Inr (True, v1)"
    using v1(1) by (simp add: checkHeartBeat_body)
  moreover have "cl_valid (client ?w2 c) \<and> cl_rx_bytes (client ?w2 c) = cl_rx_bytes (client w c) + 14
    \<and> map_option hb_hbDelay (cl_hb (client ?w2 c)) = Some (t - vn_now w)"
    using w1(2,4) c(2) hb
    by (simp add: heartBeatDelayCalc_def heartBeatUpdate_def upd_hb_def HearBeatLen_def Let_def)
  ultimately show ?thesis
    using w1 v1
    by (intro exI [of _ w1] exI [of _ a] exI [of _ "hb_packet HearbeatReq HearBeatReq ?i"]
        exI [of _ v1] exI [of _ b] exI [of _ "hb_packet HearbeatRpl HearBeatRpl ?i"] exI [of _ ?w2])
      (simp add: body, simp add: hb_packet_def parsePktHeader_eq)
qed

definition hb_clients :: vnet where
  "hb_clients = upd_client 0 (\<lambda>cl. cl\<lparr>cl_hb := Some \<lparr>hb_hbTimer = Some 5, hb_hbID = 0,
     hb_hbReqTime = 0, hb_hbDelay = 0, hb_hbDelaySum = 0, hb_hbDelayAvg = 0\<rparr>\<rparr>) two_clients"

theorem heartbeat_exchange_witness:
  "\<exists>w1 req v1 rpl w2. sendHeartBeat None HBRequest 0 0 hb_clients = Inr w1
    \<and> checkHeartBeat None 1 (sl_of_list (drop 6 req)) two_clients = Inr (True, v1)
    \<and> checkHeartBeat None 0 (sl_of_list (drop 6 rpl)) (w1\<lparr>vn_now := 7\<rparr>) = Inr (True, w2)
    \<and> cl_valid (client w2 0) \<and> cl_rx_bytes (client w2 0) = 14"
proof -
  have "pkts_ok hb_clients" "0 < length (vn_clients hb_clients)" "\<not> IsClose hb_clients 0"
    "\<not> cl_chanClosed (client hb_clients 0)" "cl_hb (client hb_clients 0) \<noteq> None"
    "cl_rx_bytes (client hb_clients 0) = 0"
    by (simp_all add: hb_clients_def IsClose_def two_clients_fields two_clients_pkts)
  moreover have "1 < length (vn_clients two_clients)" "\<not> IsClose two_clients 1"
    "\<not> cl_chanClosed (client two_clients 1)"
    by (simp_all add: IsClose_def two_clients_fields)
  ultimately show ?thesis
    using heartbeat_exchange [of hb_clients 0 two_clients 1 None None None 7] two_clients_pkts
    by (elim exE conjE impCE meta_impE; simp; blast)
qed

end
