(* ===== verification/Vnet_Member.thy ===== *)
theory Vnet_Member
  imports Vnet_Fdb
begin

text \<open>
  The membership of clients in bridges: the invariant that ties the clients' maps \<open>fdbJoined\<close> to
  the ports of the bridges and to the bridges' counters, its preservation by joining and leaving,
  and what a client's membership is after a message with the other side's identifiers.
\<close>

section \<open>The invariant\<close>

text \<open>The ports of a bridge that its counter counts: those of clients that dialled in.\<close>

definition counted :: "(nat \<Rightarrow> bool) \<Rightarrow> nat FDB \<Rightarrow> int set" where
  "counted dialled f = {x. \<exists>c. (x, c) \<in> set (fdb_ports f) \<and> \<not> dialled c}"

abbreviation dialled :: "vnet \<Rightarrow> nat \<Rightarrow> bool" where
  "dialled w c \<equiv> cl_isClient (client w c)"

abbreviation bridge_at :: "vnet \<Rightarrow> nat \<Rightarrow> nat FDB" where
  "bridge_at w a \<equiv> fdb_at (vn_fdbs w) a"

definition bridges_ok :: "vnet \<Rightarrow> bool" where
  "bridges_ok w \<longleftrightarrow> (\<forall>a < length (fw_heap (vn_fdbs w)).
     fdb_ok (bridge_at w a, counted (dialled w) (bridge_at w a)))"

definition member_of :: "vnet \<Rightarrow> nat \<Rightarrow> (int \<times> fdbPort) list \<Rightarrow> bool" where
  "member_of w c m \<longleftrightarrow> map_wf m \<and> distinct (map snd m)
     \<and> (\<forall>fp \<in> snd ` set m. fp_fdb fp < length (fw_heap (vn_fdbs w))
          \<and> map_of (fdb_ports (bridge_at w (fp_fdb fp))) (fp_fdbPortId fp) = Some c)"

definition member_inv :: "vnet \<Rightarrow> bool" where
  "member_inv w \<longleftrightarrow> world_ok (vn_fdbs w) \<and> bridges_ok w
     \<and> (\<forall>c < length (vn_clients w). member_of w c (joined w c))"

lemma member_invD:
  assumes "member_inv w"
  shows "world_ok (vn_fdbs w)" and "bridges_ok w"
    and "c < length (vn_clients w) \<Longrightarrow> member_of w c (joined w c)"
  using assms by (simp_all add: member_inv_def)

lemma bridges_okD:
  "bridges_ok w \<Longrightarrow> a < length (fw_heap (vn_fdbs w)) \<Longrightarrow>
    fdb_ok (bridge_at w a, counted (dialled w) (bridge_at w a))"
  by (simp add: bridges_ok_def)

lemma counted_add:
  assumes "fdb_ports g = fdb_ports f @ [(x, c)]"
  shows "counted d g = (if d c then counted d f else insert x (counted d f))"
  using assms by (auto simp: counted_def)

lemma counted_delete:
  "fdb_ports g = AList.delete x (fdb_ports f) \<Longrightarrow> counted d g = counted d f - {x}"
  by (auto simp: counted_def set_delete_iff)

lemma counted_iff:
  assumes "map_wf (fdb_ports f)" and "map_of (fdb_ports f) x = Some c"
  shows "x \<in> counted d f \<longleftrightarrow> \<not> d c"
  by (simp add: counted_def map_wf_set_iff [OF assms(1)] assms(2))

lemma member_ofD:
  assumes "member_of w c m" and "fp \<in> snd ` set m"
  shows "fp_fdb fp < length (fw_heap (vn_fdbs w))"
    and "map_of (fdb_ports (bridge_at w (fp_fdb fp))) (fp_fdbPortId fp) = Some c"
  using assms unfolding member_of_def by blast+

text \<open>A change of one bridge that keeps the ports of the other clients.\<close>

lemma member_of_mono:
  assumes "member_of w c m" and "length (fw_heap (vn_fdbs w)) \<le> length (fw_heap (vn_fdbs w'))"
    and "\<And>a x. a < length (fw_heap (vn_fdbs w)) \<Longrightarrow>
      map_of (fdb_ports (bridge_at w a)) x = Some c \<Longrightarrow>
      map_of (fdb_ports (bridge_at w' a)) x = Some c"
  shows "member_of w' c m"
  using assms by (auto simp: member_of_def)

section \<open>Joining\<close>

text \<open>A bridge with no port identifier left.\<close>

definition full :: "vnet \<Rightarrow> int \<Rightarrow> bool" where
  "full w i \<longleftrightarrow> (\<exists>a. GetFdbById (vn_fdbs w) i = Some a \<and> a < length (fw_heap (vn_fdbs w))
     \<and> fst ` set (fdb_ports (bridge_at w a)) = {1..127})"

lemma port_ids_range: "port_ids = {1..127}"
  by (auto simp: port_ids_iff)

lemma NewFdb_bridges:
  assumes inv: "member_inv w"
  obtains f fw where "NewFdb i (vn_fdbs w) = Inr (f, fw)" "world_ok fw" "f < length (fw_heap fw)"
    "length (fw_heap (vn_fdbs w)) \<le> length (fw_heap fw)"
    "\<forall>a < length (fw_heap fw). fdb_ok (fdb_at fw a, counted (dialled w) (fdb_at fw a))"
    "\<forall>a < length (fw_heap (vn_fdbs w)). fdb_at fw a = bridge_at w a"
    "GetFdbById fw i = Some f"
    "\<forall>j a. GetFdbById (vn_fdbs w) j = Some a \<longrightarrow> GetFdbById fw j = Some a"
proof -
  show thesis
  proof (rule NewFdb_cases [OF member_invD(1) [OF inv], of i], goal_cases)
    case (1 a)
    have "\<forall>a < length (fw_heap (vn_fdbs w)). fdb_ok (bridge_at w a, counted (dialled w) (bridge_at w a))"
      using member_invD(2) [OF inv] by (simp only: bridges_ok_def)
    then show ?case
      by (rule that [OF 1(1) member_invD(1) [OF inv] 1(3) order_refl _ _ 1(2)]) blast+
  next
    case (2 fw)
    let ?n = "length (fw_heap (vn_fdbs w))"
    have at: "fdb_at fw a = (if a = ?n then fresh_FDB else bridge_at w a)" if "a \<le> ?n" for a
      using 2(3) that by (simp add: fdb_at_def nth_append)
    have "counted (dialled w) (fresh_FDB :: nat FDB) = {}"
      using fresh_FDB_ok(3) [where ?'a = nat] by (simp add: counted_def)
    then have "\<forall>a < length (fw_heap fw). fdb_ok (fdb_at fw a, counted (dialled w) (fdb_at fw a))"
      using at 2(3) member_invD(2) [OF inv] fresh_FDB_ok(1) [where ?'a = nat]
      by (auto simp: bridges_ok_def less_Suc_eq)
    moreover have "GetFdbById fw i = Some ?n"
      "\<forall>j a. GetFdbById (vn_fdbs w) j = Some a \<longrightarrow> GetFdbById fw j = Some a"
      using 2(2,4) map_of_eq_None_iff [of "fw_ids (vn_fdbs w)" i]
      by (auto simp: GetFdbById_def map_add_def)
    ultimately show ?case
      using 2 at by (intro that [of ?n fw]) auto
  qed
qed

text \<open>An entry of the map, new or replaced, whose value is no other's.\<close>

lemma update_values: "snd ` set (AList.update i v m) \<subseteq> insert v (snd ` set m)"
  by (induction m) (auto split: if_splits)

lemma update_distinct_values:
  "distinct (map snd m) \<Longrightarrow> v \<notin> snd ` set m \<Longrightarrow> distinct (map snd (AList.update i v m))"
proof (induction m)
  case (Cons x m)
  then have "snd x \<notin> snd ` set (AList.update i v m)" using update_values [of i v m] by auto
  then show ?case using Cons by simp
qed simp

text \<open>
  A client that is not closed joins a bridge, again or for the first time, or finds it full; nothing
  else changes for anybody. Joining again takes a second port, and the first one is forgotten.
\<close>

lemma joinFdbById_ok:
  assumes inv: "member_inv w" and c: "c < length (vn_clients w)"
    and m: "cl_fdbJoined (client w c) = Some m"
  obtains e w' where "joinFdbById c i w = Inr (e, w')" "member_inv w'"
    "length (vn_clients w') = length (vn_clients w)" "vn_Vids w' = vn_Vids w"
    "\<forall>d. client w' d = (if d = c then (client w c)\<lparr>cl_fdbJoined := cl_fdbJoined (client w' c)\<rparr>
      else client w d)"
    "\<exists>m'. cl_fdbJoined (client w' c) = Some m'
      \<and> fst ` set m' = (if e = None then insert i (fst ` set m) else fst ` set m)"
    "e \<noteq> None \<longrightarrow> full w' i" "\<forall>j. full w j \<longrightarrow> full w' j"
proof -
  obtain f fw where n: "NewFdb i (vn_fdbs w) = Inr (f, fw)" "world_ok fw" "f < length (fw_heap fw)"
    "length (fw_heap (vn_fdbs w)) \<le> length (fw_heap fw)"
    "\<forall>a < length (fw_heap fw). fdb_ok (fdb_at fw a, counted (dialled w) (fdb_at fw a))"
    "\<forall>a < length (fw_heap (vn_fdbs w)). fdb_at fw a = bridge_at w a"
    "GetFdbById fw i = Some f"
    "\<forall>j a. GetFdbById (vn_fdbs w) j = Some a \<longrightarrow> GetFdbById fw j = Some a"
    using NewFdb_bridges [OF inv] .
  have ok: "fdb_ok (fdb_at fw f, counted (dialled w) (fdb_at fw f))" using n(3,5) by simp
  then have finv: "fdb_inv (fdb_at fw f)" by (simp add: fdb_ok_def)
  show thesis
  proof (rule JoinFwdPort_cases [OF finv, of c "\<not> dialled w c"], goal_cases)
    case 1
    have same: "set_fdb f (fdb_at fw f) fw = fw" using n(3) by (simp add: set_fdb_def fdb_at_def)
    let ?w = "w\<lparr>vn_fdbs := fw\<rparr>"
    have cl: "client ?w d = client w d" "joined ?w d = joined w d" for d
      by (simp_all add: joined_def)
    have "member_inv ?w"
      using member_invD(3) [OF inv] n cl
      by (auto simp: member_inv_def bridges_ok_def intro!: member_of_mono [of w _ _ ?w])
    moreover have "full ?w i" using 1(2) n(3,7) by (auto simp: full_def port_ids_range)
    moreover have "full ?w j" if "full w j" for j
      using that n(4,6,8) by (fastforce simp: full_def)
    ultimately show ?case
      using 1 n(1) m cl
      by (intro that [of "Some FdbFull" ?w]) (simp_all add: joinFdbById_def same)
  next
    case (2 x g)
    let ?fp = "\<lparr>fp_fdb = f, fp_fdbPortId = x\<rparr>"
    let ?m = "AList.update i ?fp m"
    let ?v = "w\<lparr>vn_fdbs := set_fdb f g fw\<rparr>"
    let ?w = "upd_client c (\<lambda>cl. cl\<lparr>cl_fdbJoined := Some ?m\<rparr>) ?v"
    have x0: "x \<noteq> 0" using 2(2) by (auto simp: port_ids_iff)
    have ports: "fdb_ports g = fdb_ports (fdb_at fw f) @ [(x, c)]"
      using 2(3,5) by (simp add: update_new)
    have join: "joinFdbById c i w = Inr (None, ?w)"
      using n(1) 2(1) m x0 by (simp add: joinFdbById_def)
    have cl: "client ?w d = (if d = c then (client w c)\<lparr>cl_fdbJoined := Some ?m\<rparr> else client w d)"
      for d using c by simp
    have at: "bridge_at ?w a = (if a = f then g else fdb_at fw a)" for a
      using n(3) by (simp add: fdb_at_set_fdb)
    have dial: "dialled ?w = dialled w" using cl by auto
    have "fdb_ok (g, counted (dialled w) g)"
      using fdb_ok_join [OF ok 2(1)] x0 counted_add [OF ports, of "dialled w"] by auto
    then have bridges: "bridges_ok ?w"
      using n(5) at dial by (auto simp: bridges_ok_def)
    have keep: "map_of (fdb_ports (bridge_at ?w a)) y = Some d"
      if "a < length (fw_heap (vn_fdbs w))" "map_of (fdb_ports (bridge_at w a)) y = Some d" for a y d
      using that n(6) at ports by (auto simp: map_add_def split: option.split)
    have others: "member_of ?w d (joined w d)" if "d < length (vn_clients w)" for d
      by (rule member_of_mono [OF member_invD(3) [OF inv that]]) (use n(4) keep in auto)
    have fresh: "?fp \<notin> snd ` set m"
    proof
      assume "?fp \<in> snd ` set m"
      then have "f < length (fw_heap (vn_fdbs w))" "map_of (fdb_ports (bridge_at w f)) x = Some c"
        using member_ofD [OF member_invD(3) [OF inv c], of ?fp] m by (simp_all add: joined_def)
      then show False
        using 2(3) n(6) by (force simp: map_of_eq_None_iff dest: map_of_SomeD)
    qed
    have "map_of (fdb_ports g) x = Some c"
      using 2(3) ports map_of_eq_None_iff [of "fdb_ports (fdb_at fw f)" x]
      by (simp add: map_add_def)
    moreover have mem: "member_of ?w c m" using others [OF c] m by (simp add: joined_def)
    moreover have "fp_fdb fp < length (fw_heap (vn_fdbs ?w)) \<and>
        map_of (fdb_ports (bridge_at ?w (fp_fdb fp))) (fp_fdbPortId fp) = Some c"
      if "fp \<in> snd ` set ?m" for fp
    proof (cases "fp = ?fp")
      case False
      then have "fp \<in> snd ` set m" using update_values [of i ?fp m] that by blast
      then show ?thesis by (intro conjI member_ofD [OF mem])
    qed (use \<open>map_of (fdb_ports g) x = Some c\<close> n(3) at in simp)
    ultimately have "member_of ?w c ?m"
      using update_distinct_values [OF _ fresh, of i] unfolding member_of_def by simp
    then have "member_inv ?w"
      using others bridges world_ok_set_fdb [OF n(2,3) 2(4)] cl
      by (auto simp: member_inv_def joined_def)
    have "\<forall>d. client ?w d = (if d = c then (client w c)\<lparr>cl_fdbJoined := cl_fdbJoined (client ?w c)\<rparr>
        else client w d)"
      unfolding cl by simp
    moreover have "\<exists>m'. cl_fdbJoined (client ?w c) = Some m'
        \<and> fst ` set m' = (if (None :: vnet_error option) = None then insert i (fst ` set m) else fst ` set m)"
      unfolding cl by (simp add: dom_update)
    moreover have "full ?w j" if full: "full w j" for j
    proof -
      obtain a where a: "GetFdbById (vn_fdbs w) j = Some a" "a < length (fw_heap (vn_fdbs w))"
        "fst ` set (fdb_ports (bridge_at w a)) = {1..127}"
        using full by (auto simp: full_def)
      have "GetFdbById (vn_fdbs ?w) j = Some a" using n(8) a(1) by (simp add: GetFdbById_def)
      moreover have "fst ` set (fdb_ports (bridge_at ?w a)) = {1..127}"
        using a(2,3) n(6) at ports 2(2) by (auto simp: port_ids_iff)
      ultimately show ?thesis using a(2) n(4) by (auto simp: full_def)
    qed
    ultimately show ?case
      by (intro that [OF join \<open>member_inv ?w\<close>]) simp_all
  qed
qed

section \<open>Leaving\<close>

lemma TryToDelFdbById_frame:
  "fw_heap (TryToDelFdbById i w) = fw_heap w" "fdb_at (TryToDelFdbById i w) a = fdb_at w a"
  by (simp_all add: TryToDelFdbById_def DelFdbById_def fdb_at_def split: option.split)

lemma quit_one_ok:
  assumes inv: "member_inv w" and c: "c < length (vn_clients w)"
    and m: "cl_fdbJoined (client w c) = Some m" and fp: "(i, fp) \<in> set m"
  obtains w' where "bind_res (release_fdb c fp w) (\<lambda>w. Inr (forget_fdb c i w)) = Inr w'"
    "member_inv w'" "length (vn_clients w') = length (vn_clients w)" "vn_Vids w' = vn_Vids w"
    "\<forall>d. client w' d = (if d = c then (client w c)\<lparr>cl_fdbJoined := Some (AList.delete i m)\<rparr>
      else client w d)"
proof -
  let ?a = "fp_fdb fp" and ?x = "fp_fdbPortId fp"
  have mem: "member_of w c m" using member_invD(3) [OF inv c] m by (simp add: joined_def)
  have a: "?a < length (fw_heap (vn_fdbs w))" and p: "map_of (fdb_ports (bridge_at w ?a)) ?x = Some c"
    using member_ofD [OF mem, of fp] fp by force+
  note ok = bridges_okD [OF member_invD(2) [OF inv] a]
  have wf: "map_wf (fdb_ports (bridge_at w ?a))" using ok by (simp add: fdb_ok_def fdb_inv_def)
  obtain g where g: "ReleaseFwdPort ?x (?x \<in> counted (dialled w) (bridge_at w ?a)) (bridge_at w ?a) = Inr g"
    "fdb_ok (g, counted (dialled w) (bridge_at w ?a) - {?x})"
    "fdb_ports g = AList.delete ?x (fdb_ports (bridge_at w ?a))"
    using fdb_ok_release [OF ok p] by blast
  let ?v = "upd_fdbs (set_fdb ?a g) w"
  let ?w = "forget_fdb c i ?v"
  have rel: "release_fdb c fp w = Inr ?v"
    using g(1) counted_iff [OF wf p, of "dialled w"] by (simp add: release_fdb_def)
  have at: "bridge_at ?w b = (if b = ?a then g else bridge_at w b)"
    "length (fw_heap (vn_fdbs ?w)) = length (fw_heap (vn_fdbs w))" for b
    using a by (simp_all add: forget_fdb_def Let_def TryToDelFdbById_frame fdb_at_set_fdb)
  have cl: "client ?w d = (if d = c then (client w c)\<lparr>cl_fdbJoined := Some (AList.delete i m)\<rparr>
      else client w d)" for d
    using c m by (simp add: forget_fdb_def Let_def)
  have dial: "dialled ?w = dialled w" using cl by auto
  have len: "length (vn_clients ?w) = length (vn_clients w)" "vn_Vids ?w = vn_Vids w"
    by (simp_all add: forget_fdb_def Let_def)
  have "fdb_ok (g, counted (dialled w) g)"
    using g(2) counted_delete [OF g(3), of "dialled w"] by simp
  then have bridges: "bridges_ok ?w"
    using member_invD(2) [OF inv] at dial by (auto simp: bridges_ok_def)
  have "fdb_inv g" using g(2) by (simp add: fdb_ok_def)
  then have world: "world_ok (vn_fdbs ?w)"
    using world_ok_set_fdb [OF member_invD(1) [OF inv] a]
    by (simp add: forget_fdb_def Let_def TryToDelFdbById_ok)
  have keep: "map_of (fdb_ports (bridge_at ?w b)) y = Some d"
    if "map_of (fdb_ports (bridge_at w b)) y = Some d" "b = ?a \<longrightarrow> y \<noteq> ?x" for b y d
    using that g(3) unfolding at(1) by (cases "b = ?a") (simp_all add: delete_conv)
  have others: "member_of ?w d (joined w d)" if d: "d < length (vn_clients w)" "d \<noteq> c" for d
  proof (rule member_of_mono [OF member_invD(3) [OF inv d(1)]])
    fix b y assume "map_of (fdb_ports (bridge_at w b)) y = Some d"
    then show "map_of (fdb_ports (bridge_at ?w b)) y = Some d"
      by (rule keep) (use p d(2) \<open>map_of (fdb_ports (bridge_at w b)) y = Some d\<close> in auto)
  qed (use at in simp)
  have "member_of ?w c (AList.delete i m)"
  proof -
    have "q \<noteq> fp" if "(j, q) \<in> set m" "j \<noteq> i" for j q
      using that fp mem inj_onD [of snd "set m" "(j, q)" "(i, fp)"]
      by (auto simp: member_of_def distinct_map)
    then have "fp_fdb q = ?a \<longrightarrow> fp_fdbPortId q \<noteq> ?x" if "(j, q) \<in> set m" "j \<noteq> i" for j q
      using that by (metis (full_types) fdbPort.surjective old.unit.exhaust)
    then have "fp_fdb q < length (fw_heap (vn_fdbs ?w))
        \<and> map_of (fdb_ports (bridge_at ?w (fp_fdb q))) (fp_fdbPortId q) = Some c"
      if "q \<in> snd ` set (AList.delete i m)" for q
    proof -
      obtain j where j: "(j, q) \<in> set m" "j \<noteq> i"
        using \<open>q \<in> _\<close> by (auto simp: set_delete_iff)
      then have "q \<in> snd ` set m" by force
      then show ?thesis
        using member_ofD [OF mem] keep at(2) j
          \<open>\<And>j q. (j, q) \<in> set m \<Longrightarrow> j \<noteq> i \<Longrightarrow> fp_fdb q = ?a \<longrightarrow> fp_fdbPortId q \<noteq> ?x\<close> by simp
    qed
    moreover have "map_wf (AList.delete i m)" "distinct (map snd (AList.delete i m))"
      using mem by (simp_all add: member_of_def delete_distinct_snd)
    ultimately show ?thesis unfolding member_of_def by blast
  qed
  then have "member_inv ?w"
    using world bridges others cl len by (auto simp: member_inv_def joined_def)
  then show thesis using that rel len cl by simp
qed

section \<open>Lists of identifiers\<close>

text \<open>Only the membership of \<open>c\<close> has changed on the side of the clients.\<close>

definition only_joined :: "nat \<Rightarrow> vnet \<Rightarrow> vnet \<Rightarrow> bool" where
  "only_joined c w w' \<longleftrightarrow> length (vn_clients w') = length (vn_clients w) \<and> vn_Vids w' = vn_Vids w
     \<and> (\<exists>j. \<forall>d. client w' d = (if d = c then (client w c)\<lparr>cl_fdbJoined := j\<rparr> else client w d))"

lemma only_joined_refl: "only_joined c w w"
proof -
  have "\<forall>d. client w d = (if d = c then (client w c)\<lparr>cl_fdbJoined := cl_fdbJoined (client w c)\<rparr>
      else client w d)" by simp
  then show ?thesis unfolding only_joined_def by blast
qed

lemma only_joined_other: "only_joined c w w' \<Longrightarrow> d \<noteq> c \<Longrightarrow> client w' d = client w d"
  by (auto simp: only_joined_def)

lemma only_joined_trans:
  assumes "only_joined c u v" and "only_joined c v w"
  shows "only_joined c u w"
proof -
  obtain j k where "\<forall>d. client v d = (if d = c then (client u c)\<lparr>cl_fdbJoined := j\<rparr> else client u d)"
    "\<forall>d. client w d = (if d = c then (client v c)\<lparr>cl_fdbJoined := k\<rparr> else client v d)"
    using assms unfolding only_joined_def by blast
  then have "\<forall>d. client w d = (if d = c then (client u c)\<lparr>cl_fdbJoined := k\<rparr> else client u d)"
    by simp
  then show ?thesis using assms unfolding only_joined_def by (intro conjI exI [of _ k]) simp_all
qed

lemma quitFdbByIds_ok:
  assumes "member_inv w" and "c < length (vn_clients w)"
    and "cl_fdbJoined (client w c) = Some m"
  shows "\<exists>w' m'. quitFdbByIds c ids w = Inr w' \<and> member_inv w' \<and> only_joined c w w'
    \<and> cl_fdbJoined (client w' c) = Some m' \<and> fst ` set m' = fst ` set m - set ids"
  using assms
proof (induction ids arbitrary: w m)
  case Nil
  then show ?case by (auto simp: quitFdbByIds_def only_joined_refl)
next
  case (Cons i ids)
  show ?case
  proof (cases "map_of m i")
    case None
    then have "i \<notin> fst ` set m" by (simp add: map_of_eq_None_iff)
    then show ?thesis
      using Cons.IH [OF Cons.prems] None Cons.prems(3)
      by (auto simp: quitFdbByIds_def Client_GetFdbById_def joined_def)
  next
    case (Some fp)
    obtain v where v: "bind_res (release_fdb c fp w) (\<lambda>w. Inr (forget_fdb c i w)) = Inr v"
      "member_inv v" "length (vn_clients v) = length (vn_clients w)" "vn_Vids v = vn_Vids w"
      "\<forall>d. client v d = (if d = c then (client w c)\<lparr>cl_fdbJoined := Some (AList.delete i m)\<rparr>
        else client w d)"
      using quit_one_ok [OF Cons.prems map_of_SomeD [OF Some]] by blast
    have step: "only_joined c w v" using v(3,4,5) unfolding only_joined_def by blast
    have "c < length (vn_clients v)" "cl_fdbJoined (client v c) = Some (AList.delete i m)"
      using v(3,5) Cons.prems(2) by simp_all
    from Cons.IH [OF v(2) this] obtain w' m' where w': "quitFdbByIds c ids v = Inr w'"
      "member_inv w'" "only_joined c v w'" "cl_fdbJoined (client w' c) = Some m'"
      "fst ` set m' = fst ` set (AList.delete i m) - set ids"
      by blast
    have "quitFdbByIds c (i # ids) w = Inr w'"
      using w'(1) v(1) Some Cons.prems(3)
      by (simp add: quitFdbByIds_def Client_GetFdbById_def joined_def)
    then show ?thesis
      using w' only_joined_trans [OF step w'(3)] by auto
  qed
qed

lemma joinFdbByIds_ok:
  assumes "member_inv w" and "c < length (vn_clients w)"
    and "cl_fdbJoined (client w c) = Some m"
  shows "\<exists>w' m'. joinFdbByIds c ids w = Inr w' \<and> member_inv w' \<and> only_joined c w w'
    \<and> cl_fdbJoined (client w' c) = Some m'
    \<and> fst ` set m \<subseteq> fst ` set m' \<and> fst ` set m' \<subseteq> fst ` set m \<union> set ids
    \<and> (\<forall>i \<in> set ids. i \<notin> fst ` set m' \<longrightarrow> full w' i) \<and> (\<forall>j. full w j \<longrightarrow> full w' j)"
  using assms
proof (induction ids arbitrary: w m)
  case Nil
  then show ?case by (auto simp: joinFdbByIds_def only_joined_refl)
next
  case (Cons i ids)
  obtain e v where v: "joinFdbById c i w = Inr (e, v)" "member_inv v"
    "length (vn_clients v) = length (vn_clients w)" "vn_Vids v = vn_Vids w"
    "\<forall>d. client v d = (if d = c then (client w c)\<lparr>cl_fdbJoined := cl_fdbJoined (client v c)\<rparr>
      else client w d)"
    "\<exists>m'. cl_fdbJoined (client v c) = Some m'
      \<and> fst ` set m' = (if e = None then insert i (fst ` set m) else fst ` set m)"
    "e \<noteq> None \<longrightarrow> full v i" "\<forall>j. full w j \<longrightarrow> full v j"
    using joinFdbById_ok [OF Cons.prems] .
  obtain mv where mv: "cl_fdbJoined (client v c) = Some mv"
    "fst ` set mv = (if e = None then insert i (fst ` set m) else fst ` set m)"
    using v(6) by blast
  have step: "only_joined c w v" using v(3,4,5) unfolding only_joined_def by blast
  have "c < length (vn_clients v)" using v(3) Cons.prems(2) by simp
  from Cons.IH [OF v(2) this mv(1)] obtain w' m' where
    w': "joinFdbByIds c ids v = Inr w'" "member_inv w'" "only_joined c v w'"
      "cl_fdbJoined (client w' c) = Some m'"
      "fst ` set mv \<subseteq> fst ` set m'" "fst ` set m' \<subseteq> fst ` set mv \<union> set ids"
      "\<forall>i \<in> set ids. i \<notin> fst ` set m' \<longrightarrow> full w' i" "\<forall>j. full v j \<longrightarrow> full w' j"
    by blast
  have "joinFdbByIds c (i # ids) w = Inr w'"
    using w'(1) v(1) by (simp add: joinFdbByIds_def)
  moreover have "i \<in> fst ` set m' \<or> full w' i"
    using v(7) w'(5,8) mv(2) by (cases e) auto
  moreover have "fst ` set m \<subseteq> fst ` set m'" "fst ` set m' \<subseteq> fst ` set m \<union> set (i # ids)"
    using w'(5,6) mv(2) by (auto split: if_splits)
  ultimately show ?case
    using w' v(8) only_joined_trans [OF step w'(3)] by (intro exI [of _ w'] exI [of _ m']) auto
qed

section \<open>Following the other side\<close>

lemma vid_map_set [simp]: "set (vid_map ids) = set ids"
proof -
  have "fst ` set (fold (\<lambda>i m. AList.update i i m) ids acc) = fst ` set acc \<union> set ids"
    for acc :: "(int \<times> int) list"
    by (induction ids arbitrary: acc) (auto simp: dom_update)
  then show ?thesis by (simp add: vid_map_def)
qed


lemma two_clients_inv: "member_inv two_clients"
  by (auto simp: member_inv_def bridges_ok_def member_of_def two_clients_def new_world_def
      NewClient_def Let_def world_ok_init init_world_def joined_def client_def less_Suc_eq)
    (simp_all add: world_ok_def)


section \<open>Leaving everything\<close>

lemma quitAllFdb_ok:
  assumes "member_inv w" and "c < length (vn_clients w)" and "cl_fdbJoined (client w c) = Some m"
  shows "\<exists>w'. quitAllFdb c w = Inr w' \<and> member_inv w' \<and> only_joined c w w'
    \<and> cl_fdbJoined (client w' c) = None"
proof -
  have "\<exists>v mv. fold_res (\<lambda>(fpid, fp) w. bind_res (release_fdb c fp w)
        (\<lambda>w. Inr (forget_fdb c fpid w))) xs w = Inr v \<and> member_inv v \<and> only_joined c w v
      \<and> cl_fdbJoined (client v c) = Some mv"
    if "set xs \<subseteq> set m" "map_wf xs" for xs
    using assms that
  proof (induction xs arbitrary: w m)
    case Nil
    then show ?case by (auto simp: only_joined_refl)
  next
    case (Cons x xs)
    obtain i fp where x: "x = (i, fp)" by (cases x)
    obtain v where v: "bind_res (release_fdb c fp w) (\<lambda>w. Inr (forget_fdb c i w)) = Inr v"
      "member_inv v" "length (vn_clients v) = length (vn_clients w)" "vn_Vids v = vn_Vids w"
      "\<forall>d. client v d = (if d = c then (client w c)\<lparr>cl_fdbJoined := Some (AList.delete i m)\<rparr>
        else client w d)"
      using quit_one_ok [OF Cons.prems(1-3), of i fp] Cons.prems(4) x by auto
    have step: "only_joined c w v" using v(3,4,5) unfolding only_joined_def by blast
    have sub: "set xs \<subseteq> set (AList.delete i m)"
      using Cons.prems(4,5) x by (auto simp: AList.delete_eq image_iff)
    have c: "c < length (vn_clients v)" "cl_fdbJoined (client v c) = Some (AList.delete i m)"
      and wf: "map_wf xs"
      using v(3,5) Cons.prems(2,5) by simp_all
    obtain v' mv where "fold_res (\<lambda>(fpid, fp) w. bind_res (release_fdb c fp w)
        (\<lambda>w. Inr (forget_fdb c fpid w))) xs v = Inr v'" "member_inv v'" "only_joined c v v'"
      "cl_fdbJoined (client v' c) = Some mv"
      using Cons.IH [OF v(2) c sub wf] by (elim exE conjE)
    then show ?case using v(1) x only_joined_trans [OF step] by simp
  qed
  moreover have "map_wf m"
    using member_invD(3) [OF assms(1,2)] assms(3) by (simp add: member_of_def joined_def)
  ultimately have "\<exists>v mv. fold_res (\<lambda>(fpid, fp) w. bind_res (release_fdb c fp w)
        (\<lambda>w. Inr (forget_fdb c fpid w))) m w = Inr v \<and> member_inv v \<and> only_joined c w v
      \<and> cl_fdbJoined (client v c) = Some mv"
    by simp
  then obtain v mv where v: "fold_res (\<lambda>(fpid, fp) w. bind_res (release_fdb c fp w)
        (\<lambda>w. Inr (forget_fdb c fpid w))) m w = Inr v" "member_inv v" "only_joined c w v"
      "cl_fdbJoined (client v c) = Some mv"
    by (elim exE conjE)
  let ?w = "upd_client c (\<lambda>cl. cl\<lparr>cl_fdbJoined := None\<rparr>) v"
  have c: "c < length (vn_clients v)" using v(3) assms(2) by (simp add: only_joined_def)
  have "quitAllFdb c w = Inr ?w" using v(1) assms(3) by (simp add: quitAllFdb_def joined_def)
  moreover have "only_joined c v ?w"
    unfolding only_joined_def by (intro conjI exI [of _ None]) (use c in simp_all)
  moreover have "member_inv ?w"
  proof -
    have "dialled ?w = dialled v" by auto
    then have "bridges_ok ?w" using member_invD(2) [OF v(2)] by (simp add: bridges_ok_def)
    moreover have "member_of ?w d (joined ?w d)" if "d < length (vn_clients v)" for d
      using member_invD(3) [OF v(2) that] c by (auto simp: member_of_def joined_def)
    ultimately show ?thesis
      using member_invD(1) [OF v(2)] by (simp add: member_inv_def)
  qed
  ultimately show ?thesis
    using only_joined_trans [OF v(3)] c by (intro exI [of _ ?w]) simp
qed

end
