(* ===== verification/Vnet_Report.thy ===== *)
theory Vnet_Report
  imports Vnet_Member Vnet_Packets
begin

text \<open>
  Package \<open>vnet\<close>, the messages of \<open>vid.go\<close>: the packet that \<open>reportFdbMsg\<close> fills and puts on the channel
  of a client, with at most 761 identifiers (for any number see \<open>Vnet_Delivery\<close>); and an update of
  two masters that joins a bridge twice.
\<close>

section \<open>The message on the wire\<close>

lemma read_vids_vid_bytes: "read_vids (vid_bytes ids) = map (\<lambda>i. i mod 65536) ids"
  by (induction ids) (simp_all add: vid_bytes_def bytes16_def uint_word_of_int)

lemma length_vid_bytes [simp]: "length (vid_bytes ids) = 2 * length ids"
  by (induction ids) (simp_all add: vid_bytes_def)

section \<open>The report\<close>

definition report_bytes :: "int list \<Rightarrow> byte list" where
  "report_bytes ids = head_bytes FdbIdsMsg (word_of_int (2 * int (length ids))) 0 0 @ vid_bytes ids"

lemma report_bytes_length [simp]: "length (report_bytes ids) = 6 + 2 * length ids"
  by (simp add: report_bytes_def)

text \<open>The packet before it is sent: filled and held once.\<close>

definition report_source :: "vnet \<Rightarrow> nat \<Rightarrow> nat" where
  "report_source w c = (case cl_master (client w c) of Some m \<Rightarrow> m | None \<Rightarrow> c)"

lemma joined_pkts: "GetFdbJoinIds (w\<lparr>vn_pkts := s\<rparr>) c = GetFdbJoinIds w c"
  by (simp add: GetFdbJoinIds_def joined_def)

lemma reportFdbMsg_fill:
  assumes ok: "pkts_ok w" and ids: "length (GetFdbJoinIds w (report_source w c)) \<le> 761"
  obtains a v where "reportFdbMsg choice c w = bind_res (PutPktToChan2 c a v) (putPktBuf a)"
    "pkts_ok v" "a < length (ps_heap (vn_pkts v))" "pb_ref (pkt (vn_pkts v) a) = 1"
    "LoadData (pkt (vn_pkts v) a) = Inr \<lparr>sl_arr = pb_buf (pkt (vn_pkts v) a), sl_off = 0,
       sl_len = 6 + 2 * length (GetFdbJoinIds w (report_source w c))\<rparr>"
    "take (6 + 2 * length (GetFdbJoinIds w (report_source w c))) (pb_buf (pkt (vn_pkts v) a))
       = report_bytes (GetFdbJoinIds w (report_source w c))"
    "\<exists>p. v = w\<lparr>vn_pkts := p\<rparr>" "pb_macHeader (pkt (vn_pkts v) a) = 6"
proof -
  let ?ids = "GetFdbJoinIds w (report_source w c)"
  obtain a s where g: "GetPktFromPool (cl_pbp (client w c)) choice (vn_pkts w) = (a, s)"
    by (cases "GetPktFromPool (cl_pbp (client w c)) choice (vn_pkts w)")
  note spec = GetPktFromPool_spec [OF pkts_okD(1) [OF ok] g]
  have wf: "\<forall>pb \<in> set (ps_heap s). pb_wf pb"
    using GetPktFromPool_wf [OF pkts_okD(1) [OF ok] _ g] ok by (simp add: pkts_ok_def)
  then have len: "length (pb_buf (pkt s a)) = 1528"
    using spec(4) by (simp add: pb_wf_length)
  let ?fis = "pb_buf (pkt s a)"
  let ?head = "head_bytes FdbIdsMsg (word_of_int (2 * int (length ?ids))) 0 0"
  let ?buf = "?head @ vid_bytes ?ids @ drop (6 + 2 * length ?ids) ?fis"
  let ?n = "word_of_int (2 * int (length ?ids) + 6) :: u16"
  let ?f = "\<lambda>pb. pb\<lparr>pb_buf := ?buf, pb_len := ?n, pb_macHeader := 6\<rparr>"
  let ?v = "w\<lparr>vn_pkts := upd_pkt a ?f s\<rparr>"
  have head: "assembleFdbIdsHead (take PktHeaderSize ?fis) (int (length (vid_bytes ?ids))) = Inr ?head"
    using assemblePktHead_eq [of "take 6 ?fis" FdbIdsMsg "2 * int (length ?ids)" 0] len
    by (simp add: assembleFdbIdsHead_def PktHeaderSize_def)
  have buf: "overwrite (overwrite ?fis PktHeaderSize
      (take (length ?fis - PktHeaderSize) (vid_bytes ?ids))) 0 ?head = ?buf"
    using overwrite_append [of ?head "vid_bytes ?ids" ?fis] ids len
    by (simp add: PktHeaderSize_def)
  have un: "uint ?n = 2 * int (length ?ids) + 6"
    by (subst uint_word_of_int) (use ids in simp)
  have "reportFdbMsg choice c w = bind_res (PutPktToChan2 c a ?v) (putPktBuf a)"
  proof -
    have "upd_pkt a (\<lambda>_. SetUserDataOff (pkt s a\<lparr>pb_buf := ?buf, pb_len := ?n\<rparr>) 6)
        (upd_pkt a (\<lambda>pb. pb\<lparr>pb_buf := ?buf\<rparr>) s) = upd_pkt a ?f s"
      using spec(4) by (simp add: upd_pkt_def SetUserDataOff_def)
    then show ?thesis
      using head buf g spec(4) ids len
      by (simp add: reportFdbMsg_def getPktBuf_def Let_def report_source_def [symmetric]
          GetFdbJoinIds_def [symmetric] joined_pkts SetDataLen_def pktBufSize_def upd_pkts_def
          PktHeaderSize_def add.commute)
  qed
  moreover have "pkts_ok ?v"
  proof -
    have "pool_inv (upd_pkt a ?f s)"
      by (rule pool_inv_upd [OF spec(1,4)]) (simp_all add: spec(2))
    moreover have "pb_wf (?f (pkt s a))"
      using len ids by (simp add: pb_wf_def pktBufSize_def)
    ultimately show ?thesis using wf spec(4) by (auto simp: pkts_ok_def all_wf_iff)
  qed
  moreover have "LoadData (pkt (vn_pkts ?v) a) = Inr \<lparr>sl_arr = pb_buf (pkt (vn_pkts ?v) a),
      sl_off = 0, sl_len = 6 + 2 * length ?ids\<rparr>"
    using spec(4) un len ids by (simp add: LoadData_def buf_slice_def nat_add_distrib)
  ultimately show thesis
    using spec(2,4) by (intro that [of a ?v] exI [of _ "upd_pkt a ?f s"]) (simp_all add: report_bytes_def)
qed

lemma reportFdbMsg_ok:
  assumes "pkts_ok w" and "c < length (vn_clients w)" and "\<not> IsClose w c"
    and "\<not> cl_chanClosed (client w c)" and "length (GetFdbJoinIds w (report_source w c)) \<le> 761"
  obtains w' a where "reportFdbMsg choice c w = Inr w'" "pkts_ok w'"
    "client w' = (client w)(c := (client w c)\<lparr>cl_pktchan := cl_pktchan (client w c) @ [a]\<rparr>)"
    "pb_ref (pkt (vn_pkts w') a) = 1"
    "map_sum id sl_list (LoadData (pkt (vn_pkts w') a))
      = Inr (report_bytes (GetFdbJoinIds w (report_source w c)))"
    "vn_fdbs w' = vn_fdbs w" "length (vn_clients w') = length (vn_clients w)"
    "vn_Vids w' = vn_Vids w" "vn_ClientMaster w' = vn_ClientMaster w"
    "pb_macHeader (pkt (vn_pkts w') a) = 6"
proof -
  let ?ids = "GetFdbJoinIds w (report_source w c)"
  obtain a v where f: "reportFdbMsg choice c w = bind_res (PutPktToChan2 c a v) (putPktBuf a)"
    "pkts_ok v" "a < length (ps_heap (vn_pkts v))" "pb_ref (pkt (vn_pkts v) a) = 1"
    "LoadData (pkt (vn_pkts v) a) =
      Inr \<lparr>sl_arr = pb_buf (pkt (vn_pkts v) a), sl_off = 0, sl_len = 6 + 2 * length ?ids\<rparr>"
    "take (6 + 2 * length ?ids) (pb_buf (pkt (vn_pkts v) a)) = report_bytes ?ids"
    "\<exists>p. v = w\<lparr>vn_pkts := p\<rparr>" "pb_macHeader (pkt (vn_pkts v) a) = 6"
    using reportFdbMsg_fill [OF assms(1,5)] .
  have v: "c < length (vn_clients v)" "client v = client w" "vn_fdbs v = vn_fdbs w"
    "vn_Vids v = vn_Vids w" "vn_ClientMaster v = vn_ClientMaster w"
    "length (vn_clients v) = length (vn_clients w)"
    using f(7) assms(2) by auto
  then have "\<not> IsClose v c" "\<not> cl_chanClosed (client v c)"
    using assms(3,4) by (simp_all add: IsClose_def)
  from send_and_put [OF f(2) v(1) this f(3,4)] obtain w' where
    w': "bind_res (PutPktToChan2 c a v) (putPktBuf a) = Inr w'"
    "client w' = (client v)(c := (client v c)\<lparr>cl_pktchan := cl_pktchan (client v c) @ [a]\<rparr>)"
    "\<forall>b. pkt (vn_pkts w') b = pkt (vn_pkts v) b" "pkts_ok w'" "vn_fdbs w' = vn_fdbs v"
    "length (vn_clients w') = length (vn_clients v)" "vn_Vids w' = vn_Vids v"
    "vn_ClientMaster w' = vn_ClientMaster v"
    by metis
  have "map_sum id sl_list (LoadData (pkt (vn_pkts w') a)) = Inr (report_bytes ?ids)"
    using w'(3) f(5,6) by (simp add: sl_list_def)
  then show thesis
    using f(1,4,8) w' v by (intro that [of w' a]) simp_all
qed

section \<open>The masters\<close>

text \<open>
  Two masters of a process without configured identifiers: the first is in no bridge, the second
  is in bridge 5, as its first port.
\<close>

definition master_client :: "string \<Rightarrow> (int \<times> fdbPort) list \<Rightarrow> Client" where
  "master_client name m = (client two_clients 0)\<lparr>cl_String := name, cl_isClient := True,
     cl_fdbJoined := Some m\<rparr>"

definition master_bridge :: "(int \<times> nat) list \<Rightarrow> int \<Rightarrow> nat FDB" where
  "master_bridge ports next = (bridge ports next)\<lparr>fdb_allocNum := 0\<rparr>"

lemma master_join:
  "JoinFwdPort 0 False (master_bridge [(127, 1)] 126) = Inr (126, master_bridge [(127, 1), (126, 0)] 125)"
  "JoinFwdPort 1 False (master_bridge [(127, 1), (126, 0)] 125)
    = Inr (125, master_bridge [(127, 1), (126, 0), (125, 1)] 124)"
  by code_simp+

lemma joinFdbById_known:
  assumes "GetFdbById (vn_fdbs w) i = Some f"
    and "JoinFwdPort c (\<not> cl_isClient (client w c)) (bridge_at w f) = Inr (x, g)" and "x \<noteq> 0"
    and "cl_fdbJoined (client w c) = Some m"
  shows "joinFdbByIds c [i] w = Inr (upd_client c (\<lambda>cl. cl\<lparr>cl_fdbJoined :=
      Some (AList.update i \<lparr>fp_fdb = f, fp_fdbPortId = x\<rparr> m)\<rparr>)
      (w\<lparr>vn_fdbs := set_fdb f g (vn_fdbs w)\<rparr>))"
  using assms by (simp add: joinFdbByIds_def joinFdbById_def NewFdb_known)

definition two_masters :: vnet where
  "two_masters = (new_world [])\<lparr>
     vn_clients := [master_client ''a'' [],
       master_client ''b'' [(5, \<lparr>fp_fdb = 0, fp_fdbPortId = 127\<rparr>)]],
     vn_fdbs := \<lparr>fw_ids = [(5, 0)], fw_heap = [master_bridge [(127, 1)] 126], fw_tick = 0\<rparr>,
     vn_ClientMaster := [(''a'', 0), (''b'', 1)]\<rparr>"

lemma two_masters_fields:
  "vn_fdbs two_masters = \<lparr>fw_ids = [(5, 0)], fw_heap = [master_bridge [(127, 1)] 126], fw_tick = 0\<rparr>"
  "length (vn_clients two_masters) = 2" "vn_ClientMaster two_masters = [(''a'', 0), (''b'', 1)]"
  "client two_masters 0 = master_client ''a'' []"
  "client two_masters (Suc 0) = master_client ''b'' [(5, \<lparr>fp_fdb = 0, fp_fdbPortId = 127\<rparr>)]"
  "pkts_ok two_masters"
  "cl_fdbJoined (master_client n m) = Some m" "cl_isClient (master_client n m)"
  "\<not> cl_isClosed (master_client n m)" "\<not> cl_chanClosed (master_client n m)"
  "cl_master (master_client n m) = None" "vn_Vids two_masters = []"
  by (simp_all add: two_masters_def client_def new_world_def master_client_def two_clients_def
      NewClient_def Let_def pkts_ok_def pool_inv_def empty_store_def)

text \<open>
  The lists of identifiers to join are carried over from one master to the next: the update
  makes the second master join bridge 5 again. It then holds two ports there, so that it receives
  flooded frames twice, and only one of the two ports can ever be released.
\<close>

theorem updateMasterFdb_joins_twice:
  "\<exists>w'. updateMasterFdb None two_masters = Inr w'
    \<and> fdb_ports (bridge_at two_masters 0) = [(127, 1)]
    \<and> fdb_ports (bridge_at w' 0) = [(127, 1), (126, 0), (125, 1)]
    \<and> joined w' 1 = [(5, \<lparr>fp_fdb = 0, fp_fdbPortId = 125\<rparr>)]"
proof -
  let ?b = "\<lambda>ps n. \<lparr>fw_ids = [(5, 0)], fw_heap = [master_bridge ps n], fw_tick = 0\<rparr>"
  let ?m = "\<lambda>x. Some [(5 :: int, \<lparr>fp_fdb = 0, fp_fdbPortId = x\<rparr>)]"
  note two = two_masters_fields
  define m1 where "m1 = upd_client 0 (\<lambda>cl. cl\<lparr>cl_fdbJoined := ?m 126\<rparr>)
    (two_masters\<lparr>vn_fdbs := ?b [(127, 1), (126, 0)] 125\<rparr>)"
  have m1: "joinFdbByIds 0 [5] two_masters = Inr m1"
    using joinFdbById_known [of two_masters 5 0 0 126 _ "[]"] master_join(1)
    by (simp add: two m1_def GetFdbById_def fdb_at_def set_fdb_def)
  have ok1: "pkts_ok m1"
    using two(6) by (simp add: pkts_ok_def m1_def)
  obtain m2 a where m2: "reportFdbMsg None 0 m1 = Inr m2" "pkts_ok m2"
    "client m2 = (client m1)(0 := (client m1 0)\<lparr>cl_pktchan := cl_pktchan (client m1 0) @ [a]\<rparr>)"
    "vn_fdbs m2 = vn_fdbs m1" "length (vn_clients m2) = length (vn_clients m1)"
  proof (rule reportFdbMsg_ok [OF ok1, of 0 None], goal_cases)
    case (5 v a) then show ?case using that [of v a] by blast
  qed (use two in \<open>simp_all add: m1_def IsClose_def report_source_def GetFdbJoinIds_def joined_def\<close>)
  define m3 where "m3 = upd_client 1 (\<lambda>cl. cl\<lparr>cl_fdbJoined := ?m 125\<rparr>)
    (m2\<lparr>vn_fdbs := ?b [(127, 1), (126, 0), (125, 1)] 124\<rparr>)"
  have c2: "client m2 1 = client two_masters 1"
    "vn_fdbs m2 = ?b [(127, 1), (126, 0)] 125" "length (vn_clients m2) = 2"
    using m2(3,4,5) two by (simp_all add: m1_def)
  have m3: "joinFdbByIds 1 [5] m2 = Inr m3"
    using joinFdbById_known [of m2 5 0 1 125 _ "[(5, \<lparr>fp_fdb = 0, fp_fdbPortId = 127\<rparr>)]"]
      master_join(2) c2 two
    by (simp add: m3_def GetFdbById_def fdb_at_def set_fdb_def)
  have ok3: "pkts_ok m3" using m2(2) by (simp add: pkts_ok_def m3_def)
  obtain w' b where m4: "reportFdbMsg None 1 m3 = Inr w'"
    "client w' = (client m3)(1 := (client m3 1)\<lparr>cl_pktchan := cl_pktchan (client m3 1) @ [b]\<rparr>)"
    "vn_fdbs w' = vn_fdbs m3"
  proof (rule reportFdbMsg_ok [OF ok3, of 1 None], goal_cases)
    case (5 v b) then show ?case using that [of v b] by blast
  qed (use c2 two in \<open>simp_all add: m3_def IsClose_def report_source_def GetFdbJoinIds_def joined_def\<close>)
  have "updateMasterFdb None two_masters = Inr w'"
    using m1 m2(1) m3 m4(1) c2 two
    by (simp add: updateMasterFdb_def quitFdbByIds_def GetFdbIds_def vid_map_def joined_def)
  then show ?thesis
    using m4(2,3) c2 two by (intro exI [of _ w']) (simp add: m3_def fdb_at_def joined_def master_bridge_def bridge_def)
qed

end
