(* ===== verification/Vnet_Link.thy ===== *)
theory Vnet_Link
  imports Vnet_Forward Vnet_Heartbeat Vnet_Report
begin

text \<open>
  Package \<open>vnet\<close>, file \<open>conn.go\<close> and the packet handlers of \<open>client.go\<close> and \<open>vid.go\<close>: what a
  client writes to its connection and what it makes of the bytes it reads from it. The incoming
  stream is a byte list, its end is the end of the connection; an operation that reads returns the
  number of bytes, the error, the rest of the stream and the state. The ciphers are those of
  \<open>Crypto_Block\<close>: \<open>lib\<close> the libraries, \<open>u\<close> whether the machine supports unaligned words, \<open>key\<close> the
  pre-shared secret.
\<close>

definition io_ReadFull :: "nat \<Rightarrow> byte list \<Rightarrow> byte list \<times> vnet_error option \<times> byte list" where
  "io_ReadFull n cr =
     (if n \<le> length cr then (take n cr, None, drop n cr)
      else (cr, Some (if cr = [] then ReadEOF else ReadUnexpectedEOF), []))"

type_synonym read_res = "int \<times> vnet_error option \<times> byte list \<times> vnet"

definition set_pkt :: "nat \<Rightarrow> PktBuf \<Rightarrow> vnet \<Rightarrow> vnet" where
  "set_pkt a pb w = upd_pkts (upd_pkt a (\<lambda>_. pb)) w"

text \<open>\<open>io.ReadFull(cr, pkt)\<close> for a window \<open>pkt\<close> of the buffer of \<open>pb\<close>.\<close>

definition read_window ::
  "byte gslice \<Rightarrow> PktBuf \<Rightarrow> byte list \<Rightarrow> nat \<times> vnet_error option \<times> byte list \<times> PktBuf" where
  "read_window s pb cr =
     (let (data, err, cr) = io_ReadFull (sl_len s) cr
      in (length data, err, cr, pb\<lparr>pb_buf := overwrite (pb_buf pb) (sl_off s) data\<rparr>))"

text \<open>\<open>block, ok := crypts[ct]; block.Decrypt(pkt, pkt)\<close> on a window of the buffer.\<close>

definition decrypt_window ::
  "crypto_lib \<Rightarrow> bool \<Rightarrow> byte list \<Rightarrow> byte \<Rightarrow> byte gslice \<Rightarrow> PktBuf \<Rightarrow> (vnet_error + PktBuf) res" where
  "decrypt_window lib u key ct s pb =
     (case crypts lib key ct of
        None \<Rightarrow> Inr (Inl CryptNotSupport)
      | Some None \<Rightarrow> Inl NilDeref
      | Some (Some block) \<Rightarrow>
          bind_res (Crypt_Decrypt lib u block (sl_off s) (sl_off s) (sl_len s) (pb_buf pb)) (\<lambda>buf.
          Inr (Inr (pb\<lparr>pb_buf := buf\<rparr>))))"

definition setCryptoType_pkt :: "byte \<Rightarrow> PktBuf \<Rightarrow> PktBuf res" where
  "setCryptoType_pkt ct pb =
     bind_res (LoadData pb) (\<lambda>s. bind_res (setCryptoType (sl_list s) ct) (\<lambda>data.
     Inr (pb\<lparr>pb_buf := overwrite (pb_buf pb) (sl_off s) data\<rparr>)))"

text \<open>The content of a data packet: decrypted, and marked as plain.\<close>

definition decrypt_data ::
  "crypto_lib \<Rightarrow> bool \<Rightarrow> byte list \<Rightarrow> byte \<Rightarrow> byte gslice \<Rightarrow> PktBuf \<Rightarrow> (vnet_error + PktBuf) res" where
  "decrypt_data lib u key ct s pb =
     (if ct \<noteq> 0
      then bind_res (decrypt_window lib u key ct s pb) (\<lambda>r. case r of
             Inl e \<Rightarrow> Inr (Inl e)
           | Inr pb \<Rightarrow> bind_res (setCryptoType_pkt 0 pb) (\<lambda>pb. Inr (Inr pb)))
      else Inr (Inr pb))"

section \<open>The handlers\<close>

definition DataPktHandle ::
  "crypto_lib \<Rightarrow> bool \<Rightarrow> byte list \<Rightarrow> nat \<Rightarrow> byte list \<Rightarrow> nat \<Rightarrow> PktHeader \<Rightarrow> vnet \<Rightarrow> read_res res" where
  "DataPktHandle lib u key c cr a ph w =
     (let pktLen = ph_pktLen ph; pb = pkt (vn_pkts w) a; offset = GetDataLen pb in
      bind_res (LoadAndUseBuf pb pktLen) (\<lambda>(s, pb).
      let (rn, err, cr, pb) = read_window s pb cr; w = set_pkt a pb w in
      if err \<noteq> None then Inr (int rn, err, cr, w)
      else if \<not> cl_valid (client w c) then Inr (int rn, None, cr, w)
      else bind_res (decrypt_data lib u key (ph_pktCrypt ph) s pb) (\<lambda>r.
      case r of
        Inl e \<Rightarrow> Inr (int rn, Some e, cr, w)
      | Inr pb \<Rightarrow>
          let pb = SetPktType pb (ph_pktType ph);
              pb = SetPktVid pb (ph_vid ph);
              pb = SetUserDataOff pb (uint offset)
          in bind_res (ForwardPkt c a (set_pkt a pb w)) (\<lambda>w.
             Inr (uint (GetDataLen (pkt (vn_pkts w) a)), None, cr, w)))))"

definition UserDataPktHandle ::
  "crypto_lib \<Rightarrow> bool \<Rightarrow> byte list \<Rightarrow> nat \<Rightarrow> byte list \<Rightarrow> nat \<Rightarrow> PktHeader \<Rightarrow> vnet \<Rightarrow> read_res res" where
  "UserDataPktHandle lib u key c cr a ph w =
     (let pktLen = uint (ph_pktLen ph) in
      if pktLen < cl_minSize (client w c) \<or> pktLen > cl_maxSize (client w c)
      then Inr (0, Some PktLenRange, cr, w)
      else DataPktHandle lib u key c cr a ph w)"

definition HearbeatPktHandle ::
  "crypto_lib \<Rightarrow> bool \<Rightarrow> byte list \<Rightarrow> nat option \<Rightarrow> nat \<Rightarrow> byte list \<Rightarrow> nat \<Rightarrow> PktHeader \<Rightarrow> vnet \<Rightarrow>
     read_res res" where
  "HearbeatPktHandle lib u key choice c cr a ph w =
     (let pktLen = ph_pktLen ph in
      if uint pktLen > cl_maxSize (client w c) then Inr (0, Some PktLenRange, cr, w)
      else if ph_pktType ph \<noteq> HearbeatReq \<and> ph_pktType ph \<noteq> HearbeatRpl
      then Inr (0, Some BadPktType, cr, w)
      else bind_res (LoadAndUseBuf (pkt (vn_pkts w) a) pktLen) (\<lambda>(s, pb).
      let (rn, err, cr, pb) = read_window s pb cr; w = set_pkt a pb w in
      if err \<noteq> None then Inr (int rn, err, cr, w)
      else bind_res
        (if ph_pktCrypt ph \<noteq> 0 then decrypt_window lib u key (ph_pktCrypt ph) s pb
         else Inr (Inr pb)) (\<lambda>r.
      case r of
        Inl e \<Rightarrow> Inr (int rn, Some e, cr, w)
      | Inr pb \<Rightarrow>
          bind_res (checkHeartBeat choice c (s\<lparr>sl_arr := pb_buf pb\<rparr>) (set_pkt a pb w)) (\<lambda>(_, w).
          Inr (int rn, None, cr, w)))))"

definition FdbIdsMsgPktHandle ::
  "crypto_lib \<Rightarrow> bool \<Rightarrow> byte list \<Rightarrow> nat option \<Rightarrow> nat \<Rightarrow> byte list \<Rightarrow> nat \<Rightarrow> PktHeader \<Rightarrow> vnet \<Rightarrow>
     read_res res" where
  "FdbIdsMsgPktHandle lib u key choice c cr a ph w =
     (let pktLen = ph_pktLen ph in
      if uint pktLen > cl_maxSize (client w c) then Inr (0, Some PktLenRange, cr, w)
      else bind_res (LoadAndUseBuf (pkt (vn_pkts w) a) pktLen) (\<lambda>(s, pb).
      let (rn, err, cr, pb) = read_window s pb cr; w = set_pkt a pb w in
      if err \<noteq> None then Inr (int rn, err, cr, w)
      else bind_res
        (if ph_pktCrypt ph \<noteq> 0 then decrypt_window lib u key (ph_pktCrypt ph) s pb
         else Inr (Inr pb)) (\<lambda>r.
      case r of
        Inl e \<Rightarrow> Inr (int rn, Some e, cr, w)
      | Inr pb \<Rightarrow>
          bind_res (handleFdbIdsMsg choice c (sl_list (s\<lparr>sl_arr := pb_buf pb\<rparr>)) (set_pkt a pb w)) (\<lambda>(err, w).
          Inr (int rn, err, cr, w)))))"

text \<open>The table of handlers by packet type, as \<open>pktHandlersReg\<close> fills it.\<close>

definition pktHandles ::
  "crypto_lib \<Rightarrow> bool \<Rightarrow> byte list \<Rightarrow> nat option \<Rightarrow> byte \<Rightarrow>
     (nat \<Rightarrow> byte list \<Rightarrow> nat \<Rightarrow> PktHeader \<Rightarrow> vnet \<Rightarrow> read_res res) option" where
  "pktHandles lib u key choice =
     [UserData \<mapsto> UserDataPktHandle lib u key,
      HearbeatReq \<mapsto> HearbeatPktHandle lib u key choice,
      HearbeatRpl \<mapsto> HearbeatPktHandle lib u key choice,
      FdbIdsMsg \<mapsto> FdbIdsMsgPktHandle lib u key choice]"

section \<open>The connection\<close>

text \<open>
  A packet of an unknown type is not an error: \<open>Read\<close> returns after the header, without the
  content.
\<close>

definition vnetConn_Read ::
  "crypto_lib \<Rightarrow> bool \<Rightarrow> byte list \<Rightarrow> nat option \<Rightarrow> nat \<Rightarrow> byte list \<Rightarrow> nat \<Rightarrow> vnet \<Rightarrow> read_res res" where
  "vnetConn_Read lib u key choice c cr a w =
     bind_res (LoadAndUseBuf (pkt (vn_pkts w) a) (word_of_nat PktHeaderSize)) (\<lambda>(s, pb).
     let (rn, err, cr, pb) = read_window s pb cr; w = set_pkt a pb w in
     if err \<noteq> None then Inr (int rn, err, cr, w)
     else bind_res (parsePktHeader (sl_list (s\<lparr>sl_arr := pb_buf pb\<rparr>))) (\<lambda>ph.
       case pktHandles lib u key choice (ph_pktType ph) of
         Some handlePkt \<Rightarrow> handlePkt c cr a ph w
       | None \<Rightarrow> Inr (int rn, None, cr, w)))"

text \<open>
  What is handed to the connection, or the error before that. The encryption is done in the
  buffer of the packet, which other clients may hold as well.
\<close>

definition vnetConn_Write ::
  "crypto_lib \<Rightarrow> bool \<Rightarrow> byte list \<Rightarrow> nat \<Rightarrow> nat \<Rightarrow> vnet \<Rightarrow> ((vnet_error + byte list) \<times> vnet) res" where
  "vnetConn_Write lib u key c a w =
     bind_res
       (if cl_cryptType (client w c) \<noteq> 0 then
          let ct = cl_cryptType (client w c); pb = pkt (vn_pkts w) a in
          case crypts lib key ct of
            None \<Rightarrow> Inr (Inl CryptNotSupport)
          | Some ob \<Rightarrow>
              bind_res (LoadUserData pb) (\<lambda>s.
              case ob of
                None \<Rightarrow> Inl NilDeref
              | Some block \<Rightarrow>
                  bind_res (Crypt_Encrypt lib u block (sl_off s) (sl_off s) (sl_len s) (pb_buf pb)) (\<lambda>buf.
                  bind_res (setCryptoType_pkt ct (pb\<lparr>pb_buf := buf\<rparr>)) (\<lambda>pb.
                  Inr (Inr (set_pkt a pb w)))))
        else Inr (Inr w)) (\<lambda>r.
     case r of
       Inl e \<Rightarrow> Inr (Inl e, w)
     | Inr w \<Rightarrow> bind_res (LoadData (pkt (vn_pkts w) a)) (\<lambda>s. Inr (Inr (sl_list s), w)))"

section \<open>A packet on the wire\<close>

lemma crypt_table:
  assumes "lib_ok lib" and "c \<noteq> 0" and "c < CRY_END"
  obtains bc where "crypts lib key c = Some (Some bc)" "crypt_ok lib bc"
proof -
  have "1 \<le> c" using assms(2) by (simp add: word_le_nat_alt Suc_le_eq unat_gt_0)
  then show thesis
    using NewBlockCrypt_works [OF assms(1), of key "CRYtoString ! unat c"] assms(3) that
    by (auto simp: crypts_def works_def)
qed

text \<open>What becomes of the data between two headers, in any two buffers.\<close>

lemma window_crypt:
  assumes "lib_ok lib" and "crypt_ok lib bc" and "8 \<le> length x"
  obtains x' where "length x' = length x"
    "Crypt_Encrypt lib u bc (length h) (length h) (length x) (h @ x @ y) = Inr (h @ x' @ y)"
    "\<And>g z u'. Crypt_Decrypt lib u' bc (length g) (length g) (length x) (g @ x' @ z) = Inr (g @ x @ z)"
proof -
  have min: "crypt_min bc \<le> length x" using assms(3) by (cases bc) (simp_all add: crypt_min_def)
  let ?m = "h @ x @ y"
  obtain m' where m': "Crypt_Encrypt lib u bc (length h) (length h) (length x) ?m = Inr m'"
    "length m' = length ?m" "take (length h) m' = take (length h) ?m"
    "drop (length h + length x) m' = drop (length h + length x) ?m"
    using pc.in_place [OF assms(2) _ min, of "length h" ?m u] by auto
  define x' where "x' = take (length x) (drop (length h) m')"
  have x': "length x' = length x" using m'(2) by (simp add: x'_def)
  have "m' = take (length h) m' @ take (length x) (drop (length h) m') @ drop (length h + length x) m'"
    by (metis append_take_drop_id drop_drop add.commute)
  then have m: "m' = h @ x' @ y" using m'(3,4) by (simp add: x'_def)
  have "Crypt_Decrypt lib u' bc (length g) (length g) (length x) (g @ x' @ z) = Inr (g @ x @ z)"
    for g z u'
  proof -
    have "Crypt_Encrypt lib u' bc (length h) (length h) (length x) ?m = Inr m'"
      using m'(1) Crypt_variants [OF assms(2), of "length h" "length x" ?m u' u] by simp
    from pc.transmitted [OF assms(2) min _ _ this, of "length g" "g @ x' @ z"] show ?thesis
      using x' m by simp
  qed
  then show thesis using that [OF x'] m'(1) m by simp
qed

lemma set_pkt_fuse:
  "a < length (ps_heap (vn_pkts w)) \<Longrightarrow> set_pkt a p (set_pkt a q w) = set_pkt a p w"
  by (simp add: set_pkt_def upd_pkts_fuse)

lemma set_pkt_frame [simp]:
  "client (set_pkt a p w) = client w" "vn_fdbs (set_pkt a p w) = vn_fdbs w"
  "length (ps_heap (vn_pkts (set_pkt a p w))) = length (ps_heap (vn_pkts w))"
  "vn_clients (set_pkt a p w) = vn_clients w"
  by (auto simp: set_pkt_def fun_eq_iff)

lemma pkt_set_pkt [simp]:
  "a < length (ps_heap (vn_pkts w)) \<Longrightarrow> pkt (vn_pkts (set_pkt a p w)) a = p"
  by (simp add: set_pkt_def)

text \<open>A packet of type \<open>t\<close> with the cipher number \<open>k\<close> in its header and the bytes \<open>x\<close> after it.\<close>

definition wire_pkt :: "PktBuf \<Rightarrow> byte \<Rightarrow> u16 \<Rightarrow> byte \<Rightarrow> byte list \<Rightarrow> bool" where
  "wire_pkt pb t vid k x \<longleftrightarrow> length (pb_buf pb) = 1528 \<and> pb_macHeader pb = 6 \<and> length x \<le> 1522
     \<and> pb_len pb = word_of_nat (6 + length x)
     \<and> take (6 + length x) (pb_buf pb) = head_bytes t (word_of_nat (length x)) vid k @ x"

lemma wire_pktE:
  assumes "wire_pkt pb t vid k x"
  obtains y where "pb_buf pb = head_bytes t (word_of_nat (length x)) vid k @ x @ y"
    "length x + length y = 1522" "pb_macHeader pb = 6" "uint (pb_len pb) = 6 + int (length x)"
proof -
  note w = assms [unfolded wire_pkt_def]
  have "pb_buf pb = (head_bytes t (word_of_nat (length x)) vid k @ x) @ drop (6 + length x) (pb_buf pb)"
    using w by (metis append_take_drop_id)
  moreover have "uint (pb_len pb) = 6 + int (length x)"
  proof -
    have "uint (word_of_nat (6 + length x) :: u16) = 6 + int (length x)"
      using w by (subst unsigned_of_nat) (simp add: take_bit_nat_eq_self)
    then show ?thesis using w by simp
  qed
  ultimately show thesis
    using w by (intro that [of "drop (6 + length x) (pb_buf pb)"]) simp_all
qed

text \<open>The packet with the number of its cipher in the header.\<close>

lemma setCryptoType_pkt_eq:
  assumes "pb_buf pb = head_bytes t l v k @ r" and "6 \<le> uint (pb_len pb)"
    and "uint (pb_len pb) \<le> 6 + int (length r)"
  shows "setCryptoType_pkt c pb = Inr (pb\<lparr>pb_buf := head_bytes t l v c @ r\<rparr>)"
proof -
  define n where "n = unat (pb_len pb) - 6"
  have "uint (pb_len pb) = int (unat (pb_len pb))" by simp
  then have n: "uint (pb_len pb) = 6 + int n" "n \<le> length r"
    using assms(2,3) unfolding n_def by linarith+
  have "LoadData pb = Inr \<lparr>sl_arr = pb_buf pb, sl_off = 0, sl_len = 6 + n\<rparr>"
    using assms n by (simp add: LoadData_def buf_slice_def)
  then show ?thesis
    using n assms(1)
    by (simp add: setCryptoType_pkt_def sl_list_def setCryptoType_eq overwrite_def)
qed

section \<open>From one end of a link to the other\<close>

lemma Write_bytes:
  assumes lib: "lib_ok lib" and ct: "cl_cryptType (client w c) < CRY_END"
    and a: "a < length (ps_heap (vn_pkts w))" and p: "wire_pkt (pkt (vn_pkts w) a) t vid k x"
    and len: "8 \<le> length x"
  obtains x' w' where "length x' = length x"
    "length (ps_heap (vn_pkts w')) = length (ps_heap (vn_pkts w))" "client w' = client w"
    "vnetConn_Write lib u key c a w = Inr (Inr
       (head_bytes t (word_of_nat (length x)) vid
          (if cl_cryptType (client w c) = 0 then k else cl_cryptType (client w c)) @ x'), w')"
    "cl_cryptType (client w c) = 0 \<Longrightarrow> x' = x"
    "cl_cryptType (client w c) \<noteq> 0 \<Longrightarrow>
       wire_pkt (pkt (vn_pkts w') a) t vid (cl_cryptType (client w c)) x'"
    "\<And>bc g z u'. crypts lib key (cl_cryptType (client w c)) = Some (Some bc) \<Longrightarrow>
       Crypt_Decrypt lib u' bc (length g) (length g) (length x) (g @ x' @ z) = Inr (g @ x @ z)"
    "cl_cryptType (client w c) \<noteq> 0 \<Longrightarrow> \<exists>bc y. crypts lib key (cl_cryptType (client w c)) = Some (Some bc)
       \<and> Crypt_Encrypt lib u bc 6 6 (length x) (head_bytes t (word_of_nat (length x)) vid k @ x @ y)
         = Inr (head_bytes t (word_of_nat (length x)) vid k @ x' @ y)"
proof -
  let ?ct = "cl_cryptType (client w c)" and ?pb = "pkt (vn_pkts w) a"
  let ?h = "\<lambda>k. head_bytes t (word_of_nat (length x)) vid k"
  obtain y where y: "pb_buf ?pb = ?h k @ x @ y" "length x + length y = 1522"
    "pb_macHeader ?pb = 6" "uint (pb_len ?pb) = 6 + int (length x)"
    using wire_pktE [OF p] .
  have u: "LoadUserData ?pb = Inr \<lparr>sl_arr = pb_buf ?pb, sl_off = 6, sl_len = length x\<rparr>"
    using y by (simp add: LoadUserData_def buf_slice_def)
  have d: "LoadData pb = Inr \<lparr>sl_arr = pb_buf pb, sl_off = 0, sl_len = 6 + length x\<rparr>"
    if "pb_len pb = pb_len ?pb" "length (pb_buf pb) = 1528" for pb
    using y that by (simp add: LoadData_def buf_slice_def nat_add_distrib)
  show thesis
  proof (cases "?ct = 0")
    case True
    have "vnetConn_Write lib u key c a w = Inr (Inr (?h k @ x), w)"
      using True d [of ?pb] y by (simp add: vnetConn_Write_def sl_list_def)
    then show thesis
      using True by (intro that [of x w]) (simp_all add: crypts_def)
  next
    case False
    obtain bc where bc: "crypts lib key ?ct = Some (Some bc)" "crypt_ok lib bc"
      using crypt_table [OF lib False ct] .
    obtain x' where x': "length x' = length x"
      "Crypt_Encrypt lib u bc (length (?h k)) (length (?h k)) (length x) (?h k @ x @ y) = Inr (?h k @ x' @ y)"
      "\<And>g z u'. Crypt_Decrypt lib u' bc (length g) (length g) (length x) (g @ x' @ z) = Inr (g @ x @ z)"
      using window_crypt [OF lib bc(2) len] by metis
    let ?p = "?pb\<lparr>pb_buf := ?h ?ct @ x' @ y\<rparr>"
    have "setCryptoType_pkt ?ct (?pb\<lparr>pb_buf := ?h k @ x' @ y\<rparr>) = Inr ?p"
      using setCryptoType_pkt_eq [of "?pb\<lparr>pb_buf := ?h k @ x' @ y\<rparr>"] y x'(1) by simp
    moreover have "LoadData ?p = Inr \<lparr>sl_arr = ?h ?ct @ x' @ y, sl_off = 0, sl_len = 6 + length x\<rparr>"
      using d [of ?p] y x'(1) by simp
    ultimately have "vnetConn_Write lib u key c a w = Inr (Inr (?h ?ct @ x'), set_pkt a ?p w)"
      using False bc(1) x'(1,2) y(1) u a
      by (simp add: vnetConn_Write_def sl_list_def)
    then show thesis
      using False x'(1,2,3) bc(1) a y p
      by (intro that [of x' "set_pkt a ?p w"]) (auto simp: wire_pkt_def intro!: exI [of _ y])
  qed
qed

text \<open>The claims of buffer space that the reader makes.\<close>

lemma claim_space:
  assumes "length (pb_buf pb) = 1528" and "uint (pb_len pb) + int n \<le> 1528"
  shows "LoadAndUseBuf pb (word_of_nat n) =
    Inr (\<lparr>sl_arr = pb_buf pb, sl_off = unat (pb_len pb), sl_len = n\<rparr>,
         pb\<lparr>pb_len := pb_len pb + word_of_nat n\<rparr>)"
proof -
  have n: "uint (word_of_nat n :: u16) = int n"
  proof -
    have "0 \<le> uint (pb_len pb)" by simp
    then have "n < 65536" using assms(2) by linarith
    then show ?thesis by (subst unsigned_of_nat) (simp add: take_bit_nat_eq_self)
  qed
  have s: "uint (pb_len pb + word_of_nat n) = uint (pb_len pb) + int n"
    using assms(2) n by (subst uint_add_lem [THEN iffD1]) simp_all
  then show ?thesis
    using assms n by (simp add: LoadAndUseBuf_def pktBufSize_def buf_slice_def Let_def add.commute)
qed

lemma read_window_eq:
  "length xs = sl_len s \<Longrightarrow> read_window s pb (xs @ rest) =
     (sl_len s, None, rest, pb\<lparr>pb_buf := overwrite (pb_buf pb) (sl_off s) xs\<rparr>)"
  by (simp add: read_window_def io_ReadFull_def)

text \<open>The header of a packet, read into an empty buffer.\<close>

lemma Read_header:
  assumes b: "b < length (ps_heap (vn_pkts v))" "pb_len (pkt (vn_pkts v) b) = 0"
    "length (pb_buf (pkt (vn_pkts v) b)) = 1528"
  obtains pb r where "vnetConn_Read lib u key choice d (head_bytes t l vid k @ cr) b v =
      (case pktHandles lib u key choice t of
         Some handlePkt \<Rightarrow> handlePkt d cr b \<lparr>ph_pktType = t, ph_pktLen = l, ph_vid = vid, ph_pktCrypt = k\<rparr>
           (set_pkt b pb v)
       | None \<Rightarrow> Inr (6, None, cr, set_pkt b pb v))"
    "pb = (pkt (vn_pkts v) b)\<lparr>pb_len := 6, pb_buf := head_bytes t l vid k @ r\<rparr>" "length r = 1522"
proof -
  let ?pb = "pkt (vn_pkts v) b" and ?h = "head_bytes t l vid k"
  let ?s = "\<lparr>sl_arr = pb_buf ?pb, sl_off = 0, sl_len = 6\<rparr>"
  let ?p = "?pb\<lparr>pb_len := 6, pb_buf := ?h @ drop 6 (pb_buf ?pb)\<rparr>"
  have 1: "LoadAndUseBuf ?pb (word_of_nat PktHeaderSize) = Inr (?s, ?pb\<lparr>pb_len := 6\<rparr>)"
    using claim_space [of ?pb 6] b by (simp add: PktHeaderSize_def)
  have 2: "read_window ?s (?pb\<lparr>pb_len := 6\<rparr>) (?h @ cr) = (6, None, cr, ?p)"
    by (simp add: read_window_eq overwrite_def)
  have 3: "sl_list (?s\<lparr>sl_arr := pb_buf ?p\<rparr>) = ?h"
    by (simp add: sl_list_def)
  have 4: "parsePktHeader ?h = Inr \<lparr>ph_pktType = t, ph_pktLen = l, ph_vid = vid, ph_pktCrypt = k\<rparr>"
    using parsePktHeader_eq [of t l vid k "[]"] by simp
  have "vnetConn_Read lib u key choice d (?h @ cr) b v =
      (case pktHandles lib u key choice t of
         Some handlePkt \<Rightarrow> handlePkt d cr b \<lparr>ph_pktType = t, ph_pktLen = l, ph_vid = vid, ph_pktCrypt = k\<rparr>
           (set_pkt b ?p v)
       | None \<Rightarrow> Inr (6, None, cr, set_pkt b ?p v))"
    using 1 2 3 4 by (simp add: vnetConn_Read_def Let_def split: option.split)
  then show thesis using b by (intro that [of ?p "drop 6 (pb_buf ?pb)"]) simp_all
qed

lemma pkt_type_handlers [simp]:
  "pktHandles lib u key choice UserData = Some (UserDataPktHandle lib u key)"
  "pktHandles lib u key choice HearbeatReq = Some (HearbeatPktHandle lib u key choice)"
  "pktHandles lib u key choice HearbeatRpl = Some (HearbeatPktHandle lib u key choice)"
  "pktHandles lib u key choice FdbIdsMsg = Some (FdbIdsMsgPktHandle lib u key choice)"
  by (simp_all add: pktHandles_def pkt_types)

text \<open>The content, decrypted where the header says so.\<close>

definition decrypts :: "crypto_lib \<Rightarrow> byte list \<Rightarrow> byte \<Rightarrow> byte list \<Rightarrow> byte list \<Rightarrow> bool" where
  "decrypts lib key k x' x \<longleftrightarrow> length x' = length x \<and> (k = 0 \<longrightarrow> x' = x)
     \<and> (k \<noteq> 0 \<longrightarrow> (\<exists>bc. crypts lib key k = Some (Some bc) \<and> (\<forall>u g z.
         Crypt_Decrypt lib u bc (length g) (length g) (length x) (g @ x' @ z) = Inr (g @ x @ z))))"

lemma decrypt_window_eq:
  assumes "decrypts lib key k x' x" and "k \<noteq> 0" and "pb_buf pb = h @ x' @ y"
    and "sl_off s = length h" "sl_len s = length x"
  shows "decrypt_window lib u key k s pb = Inr (Inr (pb\<lparr>pb_buf := h @ x @ y\<rparr>))"
  using assms by (auto simp: decrypts_def decrypt_window_def)

lemma Read_user:
  assumes b: "b < length (ps_heap (vn_pkts v))" "pb_len (pkt (vn_pkts v) b) = 0"
    "length (pb_buf (pkt (vn_pkts v) b)) = 1528"
    and d: "cl_valid (client v d)" "cl_minSize (client v d) \<le> int (length x)"
    "int (length x) \<le> cl_maxSize (client v d)" "length x \<le> 1522"
    and k: "decrypts lib key k x' x"
  obtains pb where "vnetConn_Read lib u key choice d
      (head_bytes UserData (word_of_nat (length x)) vid k @ x' @ rest) b v
    = bind_res (ForwardPkt d b (set_pkt b pb v)) (\<lambda>v.
        Inr (uint (GetDataLen (pkt (vn_pkts v) b)), None, rest, v))"
    "wire_pkt pb UserData vid 0 x" "pb_vid pb = vid" "pb_ptype pb = UserData"
    "pb_ref pb = pb_ref (pkt (vn_pkts v) b)" "pb_pool pb = pb_pool (pkt (vn_pkts v) b)"
proof -
  let ?l = "word_of_nat (length x) :: u16"
  let ?ph = "\<lparr>ph_pktType = UserData, ph_pktLen = ?l, ph_vid = vid, ph_pktCrypt = k\<rparr>"
  obtain pb r where R: "vnetConn_Read lib u key choice d
      (head_bytes UserData ?l vid k @ (x' @ rest)) b v
      = UserDataPktHandle lib u key d (x' @ rest) b ?ph (set_pkt b pb v)"
    "pb = (pkt (vn_pkts v) b)\<lparr>pb_len := 6, pb_buf := head_bytes UserData ?l vid k @ r\<rparr>"
    "length r = 1522"
    by (rule Read_header [OF b, of lib u key choice d UserData ?l vid k "x' @ rest"])
      (simp add: that)
  have l: "uint ?l = int (length x)"
    using d(4) by (subst unsigned_of_nat) (simp add: take_bit_nat_eq_self)
  have x': "length x' = length x" using k by (simp add: decrypts_def)
  let ?n = "length x"
  let ?y = "drop ?n r"
  let ?p1 = "pb\<lparr>pb_len := 6 + ?l, pb_buf := head_bytes UserData ?l vid k @ x' @ ?y\<rparr>"
  let ?p2 = "pb\<lparr>pb_len := 6 + ?l, pb_buf := head_bytes UserData ?l vid k @ x @ ?y\<rparr>"
  let ?p3 = "pb\<lparr>pb_len := 6 + ?l, pb_buf := head_bytes UserData ?l vid 0 @ x @ ?y\<rparr>"
  let ?p = "SetUserDataOff (SetPktVid (SetPktType ?p3 UserData) vid) 6"
  let ?s = "\<lparr>sl_arr = pb_buf pb, sl_off = 6, sl_len = ?n\<rparr>"
  have pl: "pb_len pb = 6" by (simp add: R(2))
  have 1: "LoadAndUseBuf pb ?l = Inr (?s, pb\<lparr>pb_len := 6 + ?l\<rparr>)"
    using claim_space [of pb ?n] R(3) d(4) by (simp add: R(2))
  have 2: "read_window ?s (pb\<lparr>pb_len := 6 + ?l\<rparr>) (x' @ rest) = (?n, None, rest, ?p1)"
    using x' by (simp add: read_window_eq overwrite_def R(2))
  have u: "uint (6 + ?l) = 6 + int ?n"
    using l d(4) by (subst uint_add_lem [THEN iffD1]) simp_all
  have 3: "decrypt_data lib u key k ?s ?p1 = Inr (Inr ?p3)"
  proof (cases "k = 0")
    case True
    then show ?thesis using k by (simp add: decrypts_def decrypt_data_def)
  next
    case False
    have "decrypt_window lib u key k ?s ?p1 = Inr (Inr ?p2)"
      using decrypt_window_eq [OF k False, of ?p1 "head_bytes UserData ?l vid k" ?y ?s u] by simp
    moreover have "setCryptoType_pkt 0 ?p2 = Inr ?p3"
      using setCryptoType_pkt_eq [of ?p2 UserData ?l vid k "x @ ?y" 0] u by simp
    ultimately show ?thesis using False by (simp add: decrypt_data_def)
  qed
  have "UserDataPktHandle lib u key d (x' @ rest) b ?ph (set_pkt b pb v)
      = bind_res (ForwardPkt d b (set_pkt b ?p v)) (\<lambda>v.
        Inr (uint (GetDataLen (pkt (vn_pkts v) b)), None, rest, v))"
    using b(1) d l pl 1 2 3
    by (simp add: UserDataPktHandle_def DataPktHandle_def GetDataLen_def set_pkt_fuse Let_def
        split del: if_split)
  moreover have "wire_pkt ?p UserData vid 0 x"
    using R(3) d(4) by (simp add: wire_pkt_def setter_defs)
  ultimately show thesis
    using R(1,2) by (intro that [of ?p]) (simp_all add: setter_defs)
qed

text \<open>
  C16: a data packet goes through a link unchanged: what one end writes for a packet with 42 to
  1514 bytes of content, plain or encrypted with any cipher of the table, the other end reads
  from its connection, whatever follows it there, into a packet with the same content and the same
  VLAN identifier, and forwards that; the next byte it will read is the first one after the packet.
\<close>

theorem link_transmission:
  assumes lib: "lib_ok lib" and ct: "cl_cryptType (client w c) < CRY_END"
    and a: "a < length (ps_heap (vn_pkts w))"
      "wire_pkt (pkt (vn_pkts w) a) UserData vid 0 x"
    and b: "b < length (ps_heap (vn_pkts v))" "pb_len (pkt (vn_pkts v) b) = 0"
      "length (pb_buf (pkt (vn_pkts v) b)) = 1528"
    and d: "cl_valid (client v d)" "cl_minSize (client v d) = L2PktMinSize"
      "cl_maxSize (client v d) = L2PktMaxSize"
    and x: "42 \<le> length x" "length x \<le> 1514"
  shows "\<exists>bytes w' pb. vnetConn_Write lib u key c a w = Inr (Inr bytes, w')
    \<and> length bytes = 6 + length x
    \<and> vnetConn_Read lib u' key choice d (bytes @ rest) b v
        = bind_res (ForwardPkt d b (set_pkt b pb v)) (\<lambda>v.
            Inr (uint (GetDataLen (pkt (vn_pkts v) b)), None, rest, v))
    \<and> map_sum id sl_list (LoadUserData pb) = Inr x
    \<and> GetPktVid pb = vid \<and> GetPktType pb = UserData"
proof -
  let ?ct = "cl_cryptType (client w c)"
  have x8: "8 \<le> length x" using x by simp
  obtain x' w' where W: "length x' = length x"
    "vnetConn_Write lib u key c a w = Inr (Inr
       (head_bytes UserData (word_of_nat (length x)) vid (if ?ct = 0 then 0 else ?ct) @ x'), w')"
    "?ct = 0 \<Longrightarrow> x' = x"
    "\<And>bc g z u'. crypts lib key ?ct = Some (Some bc) \<Longrightarrow>
       Crypt_Decrypt lib u' bc (length g) (length g) (length x) (g @ x' @ z) = Inr (g @ x @ z)"
    "?ct \<noteq> 0 \<Longrightarrow> \<exists>bc y. crypts lib key ?ct = Some (Some bc)
       \<and> Crypt_Encrypt lib u bc 6 6 (length x) (head_bytes UserData (word_of_nat (length x)) vid 0 @ x @ y)
         = Inr (head_bytes UserData (word_of_nat (length x)) vid 0 @ x' @ y)"
    by (rule Write_bytes [OF lib ct a x8, of u key]) (rule that; assumption)
  have dec: "decrypts lib key (if ?ct = 0 then 0 else ?ct) x' x"
    using W(1,3,4,5) unfolding decrypts_def by auto
  have m: "cl_minSize (client v d) \<le> int (length x)" "int (length x) \<le> cl_maxSize (client v d)"
    "length x \<le> 1522"
    using d x by (simp_all add: L2PktMinSize_def L2PktMaxSize_def)
  obtain pb where R: "vnetConn_Read lib u' key choice d
      (head_bytes UserData (word_of_nat (length x)) vid (if ?ct = 0 then 0 else ?ct) @ x' @ rest) b v
    = bind_res (ForwardPkt d b (set_pkt b pb v)) (\<lambda>v.
        Inr (uint (GetDataLen (pkt (vn_pkts v) b)), None, rest, v))"
    "wire_pkt pb UserData vid 0 x" "pb_vid pb = vid" "pb_ptype pb = UserData"
    by (rule Read_user [OF b d(1) m dec, of u' choice vid rest]) (rule that; assumption)
  obtain y where y: "pb_buf pb = head_bytes UserData (word_of_nat (length x)) vid 0 @ x @ y"
    "length x + length y = 1522" "pb_macHeader pb = 6" "uint (pb_len pb) = 6 + int (length x)"
    using wire_pktE [OF R(2)] .
  have "map_sum id sl_list (LoadUserData pb) = Inr x"
    using y by (simp add: LoadUserData_def buf_slice_def sl_list_def)
  then show ?thesis
    using W(1,2) R(1,3,4)
    by (intro exI [of _ "head_bytes UserData (word_of_nat (length x)) vid (if ?ct = 0 then 0 else ?ct) @ x'"]
        exI [of _ w'] exI [of _ pb]) (simp add: GetPktVid_def GetPktType_def)
qed

text \<open>A packet with 42 bytes of content, a sender with a cipher, and a receiver with an empty packet.\<close>

definition sample_pkt :: PktBuf where
  "sample_pkt = zero_PktBuf\<lparr>pb_pool := Some 0, pb_ref := 1, pb_len := 48, pb_macHeader := 6,
     pb_buf := head_bytes UserData 42 7 0 @ replicate 42 1 @ replicate 1480 0\<rparr>"

definition sending :: "byte \<Rightarrow> vnet" where
  "sending ct = setCryptType 1 ct (setCryptType 0 ct
     (two_clients\<lparr>vn_pkts := \<lparr>ps_heap = [sample_pkt], ps_free = (\<lambda>_. [])\<rparr>\<rparr>))"

definition receiving :: vnet where
  "receiving = upd_client 1 (\<lambda>cl. cl\<lparr>cl_valid := True\<rparr>)
     (two_clients\<lparr>vn_pkts := \<lparr>ps_heap = [zero_PktBuf\<lparr>pb_pool := Some 1, pb_ref := 1\<rparr>],
        ps_free = (\<lambda>_. [])\<rparr>\<rparr>)"

lemma sample_wire: "wire_pkt sample_pkt UserData 7 0 (replicate 42 1)"
proof -
  have "length sample_frame = 42 \<Longrightarrow> take 48 (head_bytes UserData 42 7 0 @ sample_frame @ r)
      = head_bytes UserData 42 7 0 @ sample_frame" for sample_frame r
    by simp
  from this [of "replicate 42 1"] show ?thesis
    by (simp add: wire_pkt_def sample_pkt_def)
qed

lemma sending_fields [simp]:
  "vn_pkts (sending ct) = \<lparr>ps_heap = [sample_pkt], ps_free = (\<lambda>_. [])\<rparr>"
  "i < 2 \<Longrightarrow> cl_cryptType (client (sending ct) i) = ct"
  by (auto simp: sending_def setCryptType_def two_clients_fields less_2_cases_iff)

theorem link_transmission_witness:
  "\<exists>bytes w' pb. vnetConn_Write toy_lib True [] 0 0 (sending 5) = Inr (Inr bytes, w')
    \<and> vnetConn_Read toy_lib False [] None 1 (bytes @ [77]) 0 receiving
        = bind_res (ForwardPkt 1 0 (set_pkt 0 pb receiving)) (\<lambda>v.
            Inr (uint (GetDataLen (pkt (vn_pkts v) 0)), None, [77], v))
    \<and> map_sum id sl_list (LoadUserData pb) = Inr (replicate 42 1) \<and> GetPktVid pb = 7"
proof -
  have a: "0 < length (ps_heap (vn_pkts (sending 5)))"
    "wire_pkt (pkt (vn_pkts (sending 5)) 0) UserData 7 0 (replicate 42 1)"
    "cl_cryptType (client (sending 5) 0) < CRY_END"
    using sample_wire by (simp_all add: CRY_END_def)
  have b: "0 < length (ps_heap (vn_pkts receiving))" "pb_len (pkt (vn_pkts receiving) 0) = 0"
    "length (pb_buf (pkt (vn_pkts receiving) 0)) = 1528" "cl_valid (client receiving 1)"
    "cl_minSize (client receiving 1) = L2PktMinSize" "cl_maxSize (client receiving 1) = L2PktMaxSize"
    by (simp_all add: receiving_def two_clients_fields zero_PktBuf_def pktBufSize_def
        L2PktMinSize_def L2PktMaxSize_def)
  have x: "42 \<le> length (replicate 42 (1 :: byte))" "length (replicate 42 (1 :: byte)) \<le> 1514"
    by (simp_all)
  show ?thesis
    using link_transmission [OF toy_lib_ok a(3,1,2) b x, of True "[]" False None "[77]"] by blast
qed

section \<open>Packets that several links send\<close>

text \<open>
  C20: the packet is encrypted in the buffer that all its holders share: when a flooded packet
  goes out on two links with the xor cipher, the second link sends the content in the clear, in a
  packet whose header claims that it is encrypted.
\<close>

theorem second_link_sends_in_clear:
  assumes lib: "lib_ok lib" and ct: "cl_cryptType (client w c1) = 1" "cl_cryptType (client w c2) = 1"
    and a: "a < length (ps_heap (vn_pkts w))" "wire_pkt (pkt (vn_pkts w) a) UserData vid 0 x"
    and x: "8 \<le> length x"
  shows "\<exists>b1 w1 b2 w2. vnetConn_Write lib u key c1 a w = Inr (Inr b1, w1)
    \<and> vnetConn_Write lib u key c2 a w1 = Inr (Inr b2, w2)
    \<and> b2 = head_bytes UserData (word_of_nat (length x)) vid 1 @ x"
proof -
  have c: "cl_cryptType (client w c1) < CRY_END" "cl_cryptType (client w c1) \<noteq> 0"
    using ct by (simp_all add: CRY_END_def)
  let ?h = "\<lambda>k. head_bytes UserData (word_of_nat (length x)) vid k"
  obtain x1 w1 where W1: "length x1 = length x"
    "length (ps_heap (vn_pkts w1)) = length (ps_heap (vn_pkts w))" "client w1 = client w"
    "vnetConn_Write lib u key c1 a w = Inr (Inr (?h 1 @ x1), w1)"
    "wire_pkt (pkt (vn_pkts w1) a) UserData vid 1 x1"
    "\<And>bc g z u'. crypts lib key 1 = Some (Some bc) \<Longrightarrow>
       Crypt_Decrypt lib u' bc (length g) (length g) (length x) (g @ x1 @ z) = Inr (g @ x @ z)"
    using Write_bytes [OF lib c(1) a x, of u key] c(2) unfolding ct(1) by auto metis
  have c2: "cl_cryptType (client w1 c2) < CRY_END" "cl_cryptType (client w1 c2) \<noteq> 0"
    using ct W1(3) by (simp_all add: CRY_END_def)
  have l: "a < length (ps_heap (vn_pkts w1))" "8 \<le> length x1" using W1(1,2) a(1) x by simp_all
  obtain x2 w2 y bc where W2: "vnetConn_Write lib u key c2 a w1 = Inr (Inr (?h 1 @ x2), w2)"
    "length x2 = length x1" "crypts lib key 1 = Some (Some bc)"
    "Crypt_Encrypt lib u bc 6 6 (length x1) (?h 1 @ x1 @ y) = Inr (?h 1 @ x2 @ y)"
    using Write_bytes [OF lib c2(1) l(1) W1(5) l(2), of u key] c2(2) W1(1,3) ct(2) by auto metis
  have "length (cl_pbkdf2 lib p s i n) = n" for p s i n
    using lib by (simp add: lib_ok_def)
  then obtain tbl where "bc = simpleXORBlockCrypt tbl"
    using W2(3) by (auto simp: crypts_def CRY_END_def CRYtoString_def NewBlockCrypt_def
        NewSimpleXORBlockCrypt_def Let_def)
  then have "Crypt_Encrypt lib u bc = Crypt_Decrypt lib u bc"
    by (simp add: fun_eq_iff Crypt_Encrypt_def Crypt_Decrypt_def)
  then have "Inr (?h 1 @ x2 @ y) = (Inr (?h 1 @ x @ y) :: byte list res)"
    using W1(6) [OF W2(3), of u "?h 1" y] W1(1) W2(4) by simp
  then have "x2 = x" using W1(1) W2(2) by simp
  then show ?thesis using W1(4) W2(1) by blast
qed

theorem second_link_sends_in_clear_witness:
  "\<exists>b1 w1 b2 w2. vnetConn_Write toy_lib True [] 0 0 (sending 1) = Inr (Inr b1, w1)
    \<and> vnetConn_Write toy_lib True [] 1 0 w1 = Inr (Inr b2, w2)
    \<and> b2 = head_bytes UserData 42 7 1 @ replicate 42 1"
proof -
  have "cl_cryptType (client (sending 1) 0) = 1" "cl_cryptType (client (sending 1) 1) = 1"
    and a: "0 < length (ps_heap (vn_pkts (sending 1)))"
    "wire_pkt (pkt (vn_pkts (sending 1)) 0) UserData 7 0 (replicate 42 1)"
    using sample_wire by simp_all
  from second_link_sends_in_clear [OF toy_lib_ok this] show ?thesis by simp
qed

section \<open>Short packets and unknown packets\<close>

lemma LoadData_len:
  assumes "map_sum id sl_list (LoadData pb) = Inr xs"
  shows "uint (pb_len pb) = int (length xs)" and "length xs \<le> length (pb_buf pb)"
proof -
  have le: "uint (pb_len pb) \<le> int (length (pb_buf pb))"
    and xs: "xs = take (nat (uint (pb_len pb))) (pb_buf pb)"
    using assms by (auto simp: LoadData_def buf_slice_def sl_list_def split: if_splits)
  have "0 \<le> uint (pb_len pb)" by simp
  then show l: "uint (pb_len pb) = int (length xs)"
    using le unfolding xs length_take min_def by (split if_split) linarith
  then show "length xs \<le> length (pb_buf pb)" using le by linarith
qed

text \<open>
  with the cipher salsa20 the report of fewer than four bridges brings the process down: the
  packet that \<open>reportFdbMsg\<close> puts on the channel has fewer than the 8 bytes the cipher takes its
  nonce from, and writing it panics.
\<close>

theorem salsa20_short_report_panics:
  assumes w: "pkts_ok w" "c < length (vn_clients w)" "\<not> IsClose w c" "\<not> cl_chanClosed (client w c)"
    and ids: "length (GetFdbJoinIds w (report_source w c)) \<le> 3"
    and ct: "cl_cryptType (client w c) = 11"
  shows "\<exists>w' a. reportFdbMsg choice c w = Inr w'
    \<and> cl_pktchan (client w' c) = cl_pktchan (client w c) @ [a]
    \<and> vnetConn_Write lib u key c a w' = Inl SliceOutOfRange"
proof -
  let ?ids = "GetFdbJoinIds w (report_source w c)"
  have "length ?ids \<le> 761" using ids by simp
  from reportFdbMsg_ok [OF w this] obtain w' a where w': "reportFdbMsg choice c w = Inr w'"
    "client w' = (client w)(c := (client w c)\<lparr>cl_pktchan := cl_pktchan (client w c) @ [a]\<rparr>)"
    "map_sum id sl_list (LoadData (pkt (vn_pkts w') a)) = Inr (report_bytes ?ids)"
    "pb_macHeader (pkt (vn_pkts w') a) = 6"
    by metis
  let ?pb = "pkt (vn_pkts w') a" and ?n = "2 * length ?ids"
  have u: "LoadUserData ?pb = Inr \<lparr>sl_arr = pb_buf ?pb, sl_off = 6, sl_len = ?n\<rparr>"
    using LoadData_len [OF w'(3)] w'(4) by (simp add: LoadUserData_def buf_slice_def)
  have "CRYtoString ! unat (11 :: byte) = ''salsa20''" by (simp add: CRYtoString_def)
  then have "crypts lib key 11 = Some (Some (salsa20BlockCrypt
      (overwrite (replicate 32 0) 0 (take 32 (cl_pbkdf2 lib key (string_bytes SALT) 4096 32)))))"
    by (simp add: crypts_def CRY_END_def NewBlockCrypt_def NewSalsa20BlockCrypt_def Let_def)
  then have "vnetConn_Write lib u key c a w' = Inl SliceOutOfRange"
    using w'(2) ct u ids by (simp add: vnetConn_Write_def Crypt_Encrypt_def salsa20_crypt_def)
  then show ?thesis using w'(1,2) by auto
qed

theorem salsa20_short_report_panics_witness:
  "\<exists>w' a. reportFdbMsg None 0 (setCryptType 0 11 two_clients) = Inr w'
    \<and> cl_pktchan (client w' 0) = [a]
    \<and> vnetConn_Write toy_lib True [] 0 a w' = Inl SliceOutOfRange"
proof -
  let ?w = "setCryptType 0 11 two_clients"
  have "pkts_ok ?w" "0 < length (vn_clients ?w)" "\<not> IsClose ?w 0" "\<not> cl_chanClosed (client ?w 0)"
    "length (GetFdbJoinIds ?w (report_source ?w 0)) \<le> 3" "cl_cryptType (client ?w 0) = 11"
    "cl_pktchan (client ?w 0) = []"
    by (simp_all add: setCryptType_def two_clients_pkts two_clients_fields IsClose_def
        report_source_def GetFdbJoinIds_def joined_def)
  then show ?thesis
    using salsa20_short_report_panics [of ?w 0 None toy_lib True "[]"] by simp
qed

end
