(* ===== verification/Vnet_Tun.thy ===== *)
theory Vnet_Tun
  imports Vnet_Link
begin

text \<open>
  Package \<open>vnet\<close>, file \<open>tun.go\<close>: a tun or tap device as the source and the sink of frames, the
  slots of the device numbers, and the shell commands that configure a device. The frames the
  kernel delivers are a list; when it is empty, \<open>Read\<close> waits. \<open>ReadPacket2\<close> of the device reads into
  the rest of the packet's buffer, so it cuts a frame off at that length. A device that fails ends
  the process and is not modelled.
\<close>

definition DevTun :: int where "DevTun = 0"
definition DevTap :: int where "DevTap = 1"
definition DevSlotMax :: nat where "DevSlotMax = 100"

section \<open>Device numbers and commands\<close>

text \<open>The slots hold 0 or 1; \<open>log.Fatalln\<close> ends the process.\<close>

definition getDevId :: "int list \<Rightarrow> (int \<times> int list) res" where
  "getDevId obcDevSlot =
     (case find (\<lambda>i. obcDevSlot ! i = 0) [0..<DevSlotMax] of
        None \<Rightarrow> Inl (PanicMsg ''can not find a vaild DevId'')
      | Some i \<Rightarrow> Inr (int i, obcDevSlot[i := 1]))"

definition putDevId :: "int \<Rightarrow> int list \<Rightarrow> int list res" where
  "putDevId devId obcDevSlot =
     (if devId \<ge> int DevSlotMax \<or> devId < 0 then Inl (PanicMsg ''devId is out range'')
      else Inr (obcDevSlot[nat devId := 0]))"

lemma getDevId_fresh:
  assumes "length slots = DevSlotMax" and "getDevId slots = Inr (i, slots')"
  shows "0 \<le> i \<and> i < 100 \<and> slots ! nat i = 0 \<and> slots' = slots[nat i := 1]
    \<and> (\<forall>j < nat i. slots ! j \<noteq> 0) \<and> putDevId i slots' = Inr slots"
  using assms
  by (auto simp: getDevId_def putDevId_def DevSlotMax_def find_Some_iff list_update_same_conv
      split: option.splits)

definition newline :: string where "newline = [CHR 0x0A]"

text \<open>The text of the commands that \<open>OpenTun\<close> hands to the shell.\<close>

definition tun_confs :: "string \<Rightarrow> string \<Rightarrow> int \<Rightarrow> string \<Rightarrow> string \<Rightarrow> string res" where
  "tun_confs br tunname tuntype ipstr mac =
     (let confs = ''ifconfig '' @ tunname @ '' up'' @ newline in
      bind_res
       (if br \<noteq> '''' then
          if tuntype \<noteq> DevTap then Inl (PanicMsg ''can't not addif'')
          else
            let confs = confs @ ''brctl addbr '' @ br @ newline;
                confs = confs @ ''brctl addif '' @ br @ '' '' @ tunname @ newline;
                confs = (if ipstr \<noteq> '''' then confs @ ''ifconfig '' @ br @ '' '' @ ipstr @ newline else confs);
                confs = (if mac \<noteq> '''' then confs @ ''ifconfig '' @ br @ '' hw ether '' @ mac @ newline else confs)
            in Inr confs
        else
          let confs = (if ipstr \<noteq> '''' then confs @ ''ifconfig '' @ tunname @ '' '' @ ipstr @ newline else confs);
              confs = (if mac \<noteq> '''' \<and> tuntype = DevTap
                then confs @ ''ifconfig '' @ tunname @ '' hw ether '' @ mac @ newline else confs)
          in Inr confs) (\<lambda>confs.
      Inr (confs @ ''ifconfig '' @ tunname @ '' txqueuelen 5000'' @ newline)))"

definition getPktRange :: "mytun \<Rightarrow> int \<times> int" where
  "getPktRange tun =
     (if tn_devType tun = DevTap then (L2PktMinSize, L2PktMaxSize)
      else (L2PktMinSize - int EtherSize, L2PktMaxSize - int EtherSize))"

section \<open>Reading and writing frames\<close>

text \<open>Whether a frame is taken; otherwise \<open>Read\<close> reads again.\<close>

definition tun_accepts :: "mytun \<Rightarrow> byte gslice \<Rightarrow> bool res" where
  "tun_accepts tun s =
     (let n = sl_len s in
      if tn_devType tun = DevTap then
        if n < 42 \<or> n > 1514 then Inr False
        else bind_res (TranEther s) (\<lambda>ether. Inr (IsArp ether \<or> IsIpPtk ether))
      else Inr (\<not> (n < 28 \<or> n > 1500)))"

fun tun_Read :: "mytun \<Rightarrow> nat \<Rightarrow> byte list list \<Rightarrow> nat \<Rightarrow> vnet \<Rightarrow> ((int \<times> byte list list) option \<times> vnet) res" where
  "tun_Read tun c [] a w = Inr (None, w)"
| "tun_Read tun c (frame # frames) a w =
     (let pb = pkt (vn_pkts w) a;
          inpkt = take (length (pb_buf pb) - PktHeaderSize) frame;
          n = int (length inpkt);
          pb = pb\<lparr>pb_buf := overwrite (pb_buf pb) PktHeaderSize inpkt\<rparr>;
          s = \<lparr>sl_arr = pb_buf pb, sl_off = PktHeaderSize, sl_len = length inpkt\<rparr>;
          w = set_pkt a pb w
      in bind_res (tun_accepts tun s) (\<lambda>ok.
         if \<not> ok then tun_Read tun c frames a w
         else bind_res (assembleUserPktHead (take PktHeaderSize (pb_buf pb)) n (tn_vid tun)) (\<lambda>head.
           let pb = pb\<lparr>pb_buf := overwrite (pb_buf pb) 0 head\<rparr>;
               n = n + int PktHeaderSize;
               pb = SetPktType pb UserData;
               pb = SetPktVid pb (word_of_int (tn_vid tun));
               pb = SetUserDataOff pb (int PktHeaderSize)
           in bind_res (SetDataLen pb n) (\<lambda>pb.
              bind_res (ForwardPkt c a (set_pkt a (SetOutBound pb True) w)) (\<lambda>w.
              Inr (Some (n, frames), w))))))"

text \<open>The number of bytes, and the frame that is handed to the device.\<close>

definition tun_Write :: "bool \<Rightarrow> mytun \<Rightarrow> PktBuf \<Rightarrow> (int \<times> byte list option) res" where
  "tun_Write checkTunPkt tun pb =
     bind_res (LoadUserData pb) (\<lambda>userData.
     bind_res
       (if checkTunPkt \<and> tn_devType tun = DevTap
        then bind_res (TranEther userData) (\<lambda>ether. Inr (IsArp ether \<or> IsIpPtk ether))
        else Inr True) (\<lambda>ok.
     if \<not> ok then Inr (0, None)
     else Inr (int (sl_len userData), Some (sl_list userData))))"

section \<open>From the device to the link\<close>

text \<open>The frames that \<open>Read\<close> takes from a tap device: ARP and IPv4 frames of 42 to 1514 bytes.\<close>

definition tap_frame :: "byte list \<Rightarrow> bool" where
  "tap_frame f \<longleftrightarrow> 42 \<le> length f \<and> length f \<le> 1514
     \<and> ([f ! 12, f ! 13] = ArpPkt \<or> [f ! 12, f ! 13] = IpPtk)"

lemma tap_frame_take: "tap_frame (take 1522 f) = tap_frame f"
  by (auto simp: tap_frame_def min_def)

lemma tun_accepts_tap:
  assumes "tn_devType tun = DevTap" and "sl_wf s"
  shows "tun_accepts tun s = Inr (tap_frame (sl_list s))"
proof (cases "sl_len s < 42 \<or> sl_len s > 1514")
  case True
  then show ?thesis
    using assms(1) length_sl_list [OF assms(2)] by (auto simp: tun_accepts_def tap_frame_def Let_def)
next
  case False
  then have "sl_list s ! 12 = sl_arr s ! (sl_off s + 12)" "sl_list s ! 13 = sl_arr s ! (sl_off s + 13)"
    using sl_list_nth [OF assms(2)] by simp_all
  then show ?thesis
    using False assms length_sl_list [OF assms(2)]
    by (simp add: tun_accepts_def tap_frame_def TranEther_ok EtherSize_def IsArp_def IsIpPtk_def Let_def)
qed

definition read_into :: "byte list \<Rightarrow> PktBuf \<Rightarrow> PktBuf" where
  "read_into f pb = pb\<lparr>pb_buf := overwrite (pb_buf pb) 6 (take 1522 f)\<rparr>"

lemma tun_Read_step:
  assumes t: "tn_devType tun = DevTap" and a: "a < length (ps_heap (vn_pkts w))"
    and b: "length (pb_buf (pkt (vn_pkts w) a)) = 1528"
  shows "\<not> tap_frame f \<Longrightarrow> tun_Read tun c (f # fs) a w
      = tun_Read tun c fs a (set_pkt a (read_into f (pkt (vn_pkts w) a)) w)"
    and "tap_frame f \<Longrightarrow> \<exists>pb. tun_Read tun c (f # fs) a w
        = bind_res (ForwardPkt c a (set_pkt a pb w)) (\<lambda>w. Inr (Some (int (length f) + 6, fs), w))
      \<and> wire_pkt pb UserData (word_of_int (tn_vid tun)) 0 f
      \<and> GetPktVid pb = word_of_int (tn_vid tun) \<and> IsOutBound pb"
proof -
  let ?pb = "pkt (vn_pkts w) a"
  let ?f = "take 1522 f"
  let ?s = "\<lparr>sl_arr = pb_buf (read_into f ?pb), sl_off = 6, sl_len = length ?f\<rparr>"
  have fits: "6 + length ?f \<le> length (pb_buf ?pb)" using b by simp
  have s: "sl_list ?s = ?f" "sl_wf ?s"
    using fits overwrite_window [of 6 ?f "pb_buf ?pb"]
    by (simp_all add: sl_list_def sl_wf_def read_into_def)
  then have acc: "tun_accepts tun ?s = Inr (tap_frame f)"
    using tun_accepts_tap [OF t s(2)] by (simp add: tap_frame_take)
  show "tun_Read tun c (f # fs) a w
      = tun_Read tun c fs a (set_pkt a (read_into f ?pb) w)" if "\<not> tap_frame f"
    using acc b that by (simp add: PktHeaderSize_def read_into_def Let_def)
  assume ok: "tap_frame f"
  then have len: "length f \<le> 1514" "take 1522 f = f" by (simp_all add: tap_frame_def)
  let ?h = "head_bytes UserData (word_of_int (int (length f))) (word_of_int (tn_vid tun)) 0"
  let ?buf = "?h @ f @ drop (6 + length f) (pb_buf ?pb)"
  let ?p = "?pb\<lparr>pb_buf := ?buf, pb_ptype := UserData, pb_vid := word_of_int (tn_vid tun),
    pb_macHeader := 6, pb_len := word_of_int (int (length f) + 6), pb_outBound := True\<rparr>"
  have head: "assembleUserPktHead (take 6 (overwrite (pb_buf ?pb) 6 f)) (int (length f)) (tn_vid tun) = Inr ?h"
    using assemblePktHead_eq [of "take 6 (overwrite (pb_buf ?pb) 6 f)" UserData] b len(1)
    by (simp add: assembleUserPktHead_def)
  have buf: "overwrite (overwrite (pb_buf ?pb) 6 f) 0 ?h = ?buf"
    using overwrite_append [of ?h f "pb_buf ?pb"] b len(1) by simp
  have "tun_Read tun c (f # fs) a w
      = bind_res (ForwardPkt c a (set_pkt a ?p w)) (\<lambda>w. Inr (Some (int (length f) + 6, fs), w))"
    using acc b ok head buf len a
    by (simp add: PktHeaderSize_def read_into_def set_pkt_fuse SetDataLen_def pktBufSize_def
        setter_defs Let_def)
  moreover have "wire_pkt ?p UserData (word_of_int (tn_vid tun)) 0 f"
    using b len(1) by (simp add: wire_pkt_def add.commute)
  ultimately show "\<exists>pb. tun_Read tun c (f # fs) a w
        = bind_res (ForwardPkt c a (set_pkt a pb w)) (\<lambda>w. Inr (Some (int (length f) + 6, fs), w))
      \<and> wire_pkt pb UserData (word_of_int (tn_vid tun)) 0 f
      \<and> GetPktVid pb = word_of_int (tn_vid tun) \<and> IsOutBound pb"
    by (intro exI [of _ ?p]) (simp add: GetPktVid_def IsOutBound_def)
qed

text \<open>
  \<open>Read\<close> on a tap device skips what is no ARP or IPv4 frame of 42 to 1514 bytes and forwards
  the first frame that is one, as an outgoing packet that holds exactly that frame, marked with
  the VLAN identifier of the device, behind the header that a link sends as it is.
\<close>

theorem tun_Read_takes_first_frame:
  assumes "tn_devType tun = DevTap" and "a < length (ps_heap (vn_pkts w))"
    and "length (pb_buf (pkt (vn_pkts w) a)) = 1528"
    and "\<forall>g \<in> set junk. \<not> tap_frame g" and "tap_frame f"
  shows "\<exists>pb. tun_Read tun c (junk @ f # rest) a w
        = bind_res (ForwardPkt c a (set_pkt a pb w)) (\<lambda>w. Inr (Some (int (length f) + 6, rest), w))
      \<and> wire_pkt pb UserData (word_of_int (tn_vid tun)) 0 f
      \<and> GetPktVid pb = word_of_int (tn_vid tun) \<and> IsOutBound pb"
  using assms
proof (induction junk arbitrary: w)
  case Nil
  then show ?case using tun_Read_step(2) [of tun a w f c rest] by simp
next
  case (Cons g junk)
  let ?w = "set_pkt a (read_into g (pkt (vn_pkts w) a)) w"
  have "length (pb_buf (read_into g (pkt (vn_pkts w) a))) = 1528"
    using Cons.prems(3) by (simp add: read_into_def)
  then show ?case
    using Cons.IH [of ?w] Cons.prems tun_Read_step(1) [of tun a w g c "junk @ f # rest"]
    by (simp add: set_pkt_fuse)
qed

definition sample_frame :: "byte list" where
  "sample_frame = replicate 12 2 @ [8, 0] @ replicate 28 3"

theorem tun_Read_takes_first_frame_witness:
  "\<exists>pb. tun_Read \<lparr>tn_Name = ''tap0'', tn_devType = DevTap, tn_devId = 0, tn_vid = 7\<rparr> 0
      [[1, 2, 3], sample_frame] 0 receiving
    = bind_res (ForwardPkt 0 0 (set_pkt 0 pb receiving)) (\<lambda>w. Inr (Some (48, []), w))
    \<and> wire_pkt pb UserData 7 0 sample_frame \<and> IsOutBound pb"
proof -
  let ?t = "\<lparr>tn_Name = ''tap0'', tn_devType = DevTap, tn_devId = 0, tn_vid = 7\<rparr>"
  have "tap_frame sample_frame" "\<forall>g \<in> set [[1, 2, 3 :: byte]]. \<not> tap_frame g" "length sample_frame = 42"
    by (simp_all add: tap_frame_def sample_frame_def nth_append IpPtk_def)
  moreover have "0 < length (ps_heap (vn_pkts receiving))"
    "length (pb_buf (pkt (vn_pkts receiving) 0)) = 1528"
    by (simp_all add: receiving_def zero_PktBuf_def pktBufSize_def)
  ultimately show ?thesis
    using tun_Read_takes_first_frame [of ?t 0 receiving "[[1, 2, 3]]" sample_frame 0 "[]"] by auto
qed

end
