(* ===== verification/Vnet_Backup.thy ===== *)
theory Vnet_Backup
  imports Vnet_Forward Vnet_Heartbeat
begin

text \<open>
  Package \<open>vnet\<close>, file \<open>bakLink.go\<close>: a master client whose traffic goes over one of several
  connections, the active slave, and the choice of another when that one closes. A master is a
  client whose \<open>cio\<close> is \<open>IoBackup b\<close>; the wait group \<open>wg\<close> counts the active slaves.
\<close>

definition newbackupLink :: "nat \<Rightarrow> vnet \<Rightarrow> nat \<times> vnet" where
  "newbackupLink backupNum w =
     (length (vn_links w), w\<lparr>vn_links := vn_links w @
       [\<lparr>bl_c = None, bl_activeSlave = None, bl_backupChan = 0,
         bl_backupClients = replicate backupNum None, bl_recvQueue = [], bl_rxBytes = 0,
         bl_txBytes = 0, bl_txDropBytes = 0\<rparr>]\<rparr>)"

text \<open>One round of the loop of \<open>Read\<close>, which never ends; on an empty queue it waits.\<close>

definition backupLink_Read :: "nat \<Rightarrow> vnet \<Rightarrow> vnet res" where
  "backupLink_Read b w =
     (case bl_recvQueue (vn_links w ! b) of
        [] \<Rightarrow> Inr w
      | a # q \<Rightarrow>
          (case bl_c (vn_links w ! b) of
             None \<Rightarrow> Inl NilDeref
           | Some c \<Rightarrow>
               let w = upd_link b (\<lambda>bl. bl\<lparr>bl_recvQueue := q\<rparr>) w in
               bind_res (ForwardPkt c a w) (\<lambda>w.
               let n = ucast (GetDataLen (pkt (vn_pkts w) a)) in
               putPktBuf a (upd_link b (\<lambda>bl. bl\<lparr>bl_rxBytes := bl_rxBytes bl + n\<rparr>) w))))"

definition backupLink_Write :: "nat \<Rightarrow> nat \<Rightarrow> vnet \<Rightarrow> (int \<times> vnet) res" where
  "backupLink_Write b a w =
     (case bl_activeSlave (vn_links w ! b) of
        Some slave \<Rightarrow>
          bind_res (PutPktToChan slave a w) (\<lambda>w.
          let n = uint (GetDataLen (pkt (vn_pkts w) a)) in
          Inr (n, upd_link b (\<lambda>bl. bl\<lparr>bl_txBytes := bl_txBytes bl + word_of_int n\<rparr>) w))
      | None \<Rightarrow>
          let n = ucast (GetDataLen (pkt (vn_pkts w) a)) in
          Inr (0, upd_link b (\<lambda>bl. bl\<lparr>bl_txDropBytes := bl_txDropBytes bl + n\<rparr>) w))"

section \<open>The slaves of a master\<close>

definition with_link :: "nat \<Rightarrow> vnet \<Rightarrow> (nat \<Rightarrow> 'a res) \<Rightarrow> 'a res" where
  "with_link c w f =
     (case cl_cio (client w c) of
        IoBackup b \<Rightarrow> f b
      | _ \<Rightarrow> Inl (PanicMsg ''c.cio is not *backupLink''))"

text \<open>The loops over the slots stop at the first that matches.\<close>

primrec put_slot :: "nat option \<Rightarrow> nat option \<Rightarrow> nat option list \<Rightarrow> nat option list" where
  "put_slot old new [] = []"
| "put_slot old new (x # xs) = (if x = old then new # xs else x # put_slot old new xs)"

definition addBackup :: "nat \<Rightarrow> nat \<Rightarrow> vnet \<Rightarrow> vnet res" where
  "addBackup c bc w =
     with_link c w (\<lambda>b.
       let w = upd_link b (\<lambda>bl. bl\<lparr>bl_backupClients := put_slot None (Some bc) (bl_backupClients bl)\<rparr>) w;
           w = (if bl_backupChan (vn_links w ! b) = 0
                then upd_link b (\<lambda>bl. bl\<lparr>bl_backupChan := 1\<rparr>) w else w)
       in Inr (upd_client bc (\<lambda>cl. cl\<lparr>cl_master := Some c\<rparr>) w))"

definition wg_Done :: "vnet \<Rightarrow> vnet res" where
  "wg_Done w = (if vn_wg w - 1 < 0 then Inl (PanicMsg ''sync: negative WaitGroup counter'')
     else Inr (w\<lparr>vn_wg := vn_wg w - 1\<rparr>))"

definition delBackup :: "nat \<Rightarrow> nat \<Rightarrow> vnet \<Rightarrow> vnet res" where
  "delBackup c bc w =
     (if cl_master (client w bc) \<noteq> Some c then Inl (PanicMsg ''bc.master != c'')
      else with_link c w (\<lambda>b.
        let w = upd_link b (\<lambda>bl. bl\<lparr>bl_backupClients := put_slot (Some bc) None (bl_backupClients bl)\<rparr>) w;
            w = upd_client bc (\<lambda>cl. cl\<lparr>cl_master := None\<rparr>) w
        in if bl_activeSlave (vn_links w ! b) = Some bc
           then wg_Done (upd_link b (\<lambda>bl. bl\<lparr>bl_activeSlave := None\<rparr>) w)
           else Inr w))"

text \<open>
  The loop carries \<open>bc\<close>, \<open>minDelay\<close> and the client at \<open>firstIndex\<close>.
\<close>

definition maxDuration :: int where "maxDuration = 2 ^ 63 - 1"

definition chose_loop ::
  "vnet \<Rightarrow> nat option \<Rightarrow> nat option \<times> int \<times> nat option \<Rightarrow> nat option \<times> int \<times> nat option" where
  "chose_loop w slot = (\<lambda>(bc, minDelay, first).
     case slot of
       None \<Rightarrow> (bc, minDelay, first)
     | Some c \<Rightarrow>
         if IsClose w c then (bc, minDelay, first)
         else
           let first = (if first = None then Some c else first);
               delay = heartBeatDelayAvg w c
           in if delay \<noteq> 0 \<and> delay < minDelay then (Some c, delay, first)
              else (bc, minDelay, first))"

definition choseBackup :: "nat \<Rightarrow> vnet \<Rightarrow> nat option res" where
  "choseBackup c w =
     with_link c w (\<lambda>b.
       let (bc, _, first) = fold (chose_loop w) (bl_backupClients (vn_links w ! b)) (None, maxDuration, None)
       in Inr (if bc = None then first else bc))"

text \<open>
  \<open>MasterWorking\<close>: the choice, the wait for \<open>backupChan\<close> when there is nothing to choose, and the
  activation of the choice, which takes place later: in between, the slave may be closed. The
  loop goes on when the wait group is at 0.
\<close>

definition master_wait :: "nat \<Rightarrow> vnet \<Rightarrow> vnet" where
  "master_wait b w =
     upd_link b (\<lambda>bl. bl\<lparr>bl_backupChan := bl_backupChan bl - 1\<rparr>) w"

definition master_activate :: "nat \<Rightarrow> nat \<Rightarrow> vnet \<Rightarrow> vnet" where
  "master_activate b bc w =
     (if IsClose w bc then w
      else (upd_link b (\<lambda>bl. bl\<lparr>bl_activeSlave := Some bc\<rparr>) w)\<lparr>vn_wg := vn_wg w + 1\<rparr>)"

section \<open>The choice\<close>

definition open_slaves :: "vnet \<Rightarrow> nat \<Rightarrow> nat list" where
  "open_slaves w b =
     filter (\<lambda>c. \<not> IsClose w c) (List.map_filter (\<lambda>x. x) (bl_backupClients (vn_links w ! b)))"

text \<open>The loop over the open slaves alone.\<close>

lemma chose_loop_open:
  "fold (chose_loop w) slots (bc, m, first) =
     fold (\<lambda>c. chose_loop w (Some c))
       (filter (\<lambda>c. \<not> IsClose w c) (List.map_filter (\<lambda>x. x) slots)) (bc, m, first)"
proof (induction slots arbitrary: bc m first)
  case (Cons s slots)
  then show ?case
    by (cases s) (auto simp: chose_loop_def List.map_filter_def Let_def)
qed (simp add: List.map_filter_def)

definition measured :: "vnet \<Rightarrow> int \<Rightarrow> nat list \<Rightarrow> nat list" where
  "measured w m cs = filter (\<lambda>c. heartBeatDelayAvg w c \<noteq> 0 \<and> heartBeatDelayAvg w c < m) cs"

definition fastest :: "vnet \<Rightarrow> nat \<Rightarrow> nat list \<Rightarrow> bool" where
  "fastest w s cs \<longleftrightarrow> s \<in> set cs \<and> (\<forall>c \<in> set cs. heartBeatDelayAvg w s \<le> heartBeatDelayAvg w c)"

lemma chose_loop_result:
  assumes "fold (\<lambda>c. chose_loop w (Some c)) cs (bc, m, first) = (bc', m', first')"
    and "\<forall>c \<in> set cs. \<not> IsClose w c"
  shows "first' = (if first = None then (case cs of [] \<Rightarrow> None | c # _ \<Rightarrow> Some c) else first)
    \<and> (if measured w m cs = [] then bc' = bc \<and> m' = m
       else \<exists>s. bc' = Some s \<and> m' = heartBeatDelayAvg w s \<and> fastest w s (measured w m cs))"
  using assms
proof (induction cs arbitrary: bc m first)
  case Nil
  then show ?case by (simp add: measured_def)
next
  case (Cons c cs)
  let ?d = "heartBeatDelayAvg w c" and ?f = "if first = None then Some c else first"
  have c: "\<not> IsClose w c" "\<forall>c \<in> set cs. \<not> IsClose w c" using Cons.prems(2) by simp_all
  have f: "(if ?f = None then (case cs of [] \<Rightarrow> None | c # _ \<Rightarrow> Some c) else ?f) = ?f" by simp
  show ?case
  proof (cases "?d \<noteq> 0 \<and> ?d < m")
    case True
    then have "chose_loop w (Some c) (bc, m, first) = (Some c, ?d, ?f)"
      using c(1) by (simp add: chose_loop_def)
    then have "fold (\<lambda>c. chose_loop w (Some c)) cs (Some c, ?d, ?f) = (bc', m', first')"
      using Cons.prems(1) by simp
    from Cons.IH [OF this c(2), unfolded f] have ih: "first' = ?f" "if measured w ?d cs = []
        then bc' = Some c \<and> m' = ?d
        else \<exists>s. bc' = Some s \<and> m' = heartBeatDelayAvg w s \<and> fastest w s (measured w ?d cs)"
      by (rule conjunct1, rule conjunct2)
    have "\<exists>s. bc' = Some s \<and> m' = heartBeatDelayAvg w s \<and> fastest w s (measured w m (c # cs))"
    proof (cases "measured w ?d cs = []")
      case True
      then have "fastest w c (measured w m (c # cs))"
        using \<open>?d \<noteq> 0 \<and> ?d < m\<close> by (fastforce simp: fastest_def measured_def filter_empty_conv)
      then show ?thesis using ih(2) True by simp
    next
      case False
      then obtain s where s: "bc' = Some s" "m' = heartBeatDelayAvg w s" "fastest w s (measured w ?d cs)"
        using ih(2) by auto
      then have "fastest w s (measured w m (c # cs))"
        using \<open>?d \<noteq> 0 \<and> ?d < m\<close> by (fastforce simp: fastest_def measured_def)
      then show ?thesis using s by blast
    qed
    then show ?thesis using ih(1) True by (auto simp: measured_def)
  next
    case False
    then have "chose_loop w (Some c) (bc, m, first) = (bc, m, ?f)"
      using c(1) by (auto simp: chose_loop_def)
    moreover have "measured w m (c # cs) = measured w m cs" using False by (auto simp: measured_def)
    ultimately show ?thesis
      using Cons.IH [of bc m ?f] Cons.prems(1) c(2) f by (simp split del: if_split) simp
  qed
qed

lemma choseBackup_spec:
  assumes "cl_cio (client w c) = IoBackup b"
  shows "\<exists>r. choseBackup c w = Inr r
    \<and> (r = None \<longleftrightarrow> open_slaves w b = [])
    \<and> (\<forall>s. r = Some s \<longrightarrow> s \<in> set (open_slaves w b)
        \<and> (if measured w maxDuration (open_slaves w b) = [] then s = hd (open_slaves w b)
           else fastest w s (measured w maxDuration (open_slaves w b))))"
proof -
  let ?cs = "open_slaves w b"
  obtain bc m first where l: "fold (\<lambda>c. chose_loop w (Some c)) ?cs (None, maxDuration, None) = (bc, m, first)"
    by (cases "fold (\<lambda>c. chose_loop w (Some c)) ?cs (None, maxDuration, None)")
  have op: "\<forall>c \<in> set ?cs. \<not> IsClose w c" by (simp add: open_slaves_def)
  have "choseBackup c w = Inr (if bc = None then first else bc)"
    using assms l by (simp add: choseBackup_def with_link_def chose_loop_open open_slaves_def)
  moreover have r: "first = (case ?cs of [] \<Rightarrow> None | c # _ \<Rightarrow> Some c)
    \<and> (if measured w maxDuration ?cs = [] then bc = None \<and> m = maxDuration
       else \<exists>s. bc = Some s \<and> m = heartBeatDelayAvg w s \<and> fastest w s (measured w maxDuration ?cs))"
    using chose_loop_result [OF l op] by simp
  moreover have sub: "set (measured w maxDuration ?cs) \<subseteq> set ?cs" by (auto simp: measured_def)
  ultimately show ?thesis
  proof (cases "measured w maxDuration ?cs = []")
    case True
    then show ?thesis
      using r \<open>choseBackup c w = _\<close> by (cases ?cs) auto
  next
    case False
    then obtain s where "bc = Some s" "fastest w s (measured w maxDuration ?cs)" using r by auto
    moreover from this have "s \<in> set ?cs" using sub by (auto simp: fastest_def)
    ultimately show ?thesis
      using False \<open>choseBackup c w = _\<close> by auto
  qed
qed

text \<open>
  the master takes the fastest of its open slaves, by the average delay of their heartbeats;
  slaves whose delay is not known are left aside, unless there are no others, and then it is the
  first open slave; there is no choice exactly when no slave is open.
\<close>

theorem choseBackup_best:
  assumes "cl_cio (client w c) = IoBackup b"
  shows "\<exists>r. choseBackup c w = Inr r
    \<and> (r = None \<longleftrightarrow> open_slaves w b = [])
    \<and> (\<forall>s. r = Some s \<longrightarrow> s \<in> set (open_slaves w b)
        \<and> (if measured w maxDuration (open_slaves w b) = [] then s = hd (open_slaves w b)
           else fastest w s (measured w maxDuration (open_slaves w b))))"
  using assms by (rule choseBackup_spec)

section \<open>The life of a backup master\<close>

lemma upd_link_simps [simp]:
  "client (upd_link b f w) = client w" "vn_wg (upd_link b f w) = vn_wg w"
  "length (vn_links (upd_link b f w)) = length (vn_links w)"
  "vn_clients (upd_link b f w) = vn_clients w"
  "b < length (vn_links w) \<Longrightarrow> vn_links (upd_link b f w) ! b = f (vn_links w ! b)"
  by (auto simp: upd_link_def client_def fun_eq_iff)

lemma put_slot_set:
  "old \<in> set xs \<Longrightarrow> new \<in> set (put_slot old new xs)"
  "set (put_slot old new xs) \<subseteq> insert new (set xs)"
  "x \<in> set xs \<Longrightarrow> x \<noteq> old \<Longrightarrow> x \<in> set (put_slot old new xs)"
  by (induction xs) auto

abbreviation taken :: "nat option list \<Rightarrow> nat option list" where
  "taken xs \<equiv> filter (\<lambda>x. x \<noteq> None) xs"

lemma taken_add:
  "distinct (taken xs) \<Longrightarrow> Some s \<notin> set xs \<Longrightarrow> distinct (taken (put_slot None (Some s) xs))"
proof (induction xs)
  case (Cons x xs)
  then show ?case using put_slot_set(2) [of None "Some s" xs] by auto
qed simp

lemma taken_del:
  "distinct (taken xs) \<Longrightarrow> distinct (taken (put_slot (Some s) None xs))
    \<and> Some s \<notin> set (put_slot (Some s) None xs)"
proof (induction xs)
  case (Cons x xs)
  then show ?case using put_slot_set(2) [of "Some s" None xs] by auto
qed simp

text \<open>
  The goroutines that work on one master \<open>c\<close> with the link \<open>b\<close>: a connection is made and added, any
  slave closes at any time, a closed one is removed by its \<open>BackupClient\<close>, and \<open>MasterWorking\<close>
  chooses when the wait group is at 0 and activates its choice later. The second component of
  the state is the choice that is not yet activated.
\<close>

inductive backup_step :: "nat \<Rightarrow> nat \<Rightarrow> vnet \<times> nat option \<Rightarrow> vnet \<times> nat option \<Rightarrow> bool" for c b where
  add: "s < length (vn_clients w) \<Longrightarrow> s \<noteq> c \<Longrightarrow> cl_master (client w s) = None \<Longrightarrow> \<not> IsClose w s \<Longrightarrow>
    None \<in> set (bl_backupClients (vn_links w ! b)) \<Longrightarrow> addBackup c s w = Inr w' \<Longrightarrow>
    backup_step c b (w, p) (w', p)"
| close: "backup_step c b (w, p) (upd_client s (\<lambda>cl. cl\<lparr>cl_isClosed := True\<rparr>) w, p)"
| remove: "IsClose w s \<Longrightarrow> Some s \<in> set (bl_backupClients (vn_links w ! b)) \<Longrightarrow>
    delBackup c s w = Inr w' \<Longrightarrow> backup_step c b (w, p) (w', p)"
| chose: "vn_wg w = 0 \<Longrightarrow> choseBackup c w = Inr (Some s) \<Longrightarrow> backup_step c b (w, None) (w, Some s)"
| activate: "backup_step c b (w, Some s) (master_activate b s w, None)"

definition backup_inv :: "nat \<Rightarrow> nat \<Rightarrow> vnet \<times> nat option \<Rightarrow> bool" where
  "backup_inv c b = (\<lambda>(w, p). b < length (vn_links w) \<and> cl_cio (client w c) = IoBackup b
     \<and> distinct (taken (bl_backupClients (vn_links w ! b)))
     \<and> (\<forall>s. Some s \<in> set (bl_backupClients (vn_links w ! b)) \<longrightarrow>
          s < length (vn_clients w) \<and> s \<noteq> c \<and> cl_master (client w s) = Some c)
     \<and> vn_wg w = (if bl_activeSlave (vn_links w ! b) = None then 0 else 1)
     \<and> (\<forall>s. bl_activeSlave (vn_links w ! b) = Some s \<longrightarrow>
          Some s \<in> set (bl_backupClients (vn_links w ! b)))
     \<and> (\<forall>s. p = Some s \<longrightarrow> bl_activeSlave (vn_links w ! b) = None
          \<and> (IsClose w s \<or> Some s \<in> set (bl_backupClients (vn_links w ! b)))))"

lemma delBackup_ok:
  assumes "backup_inv c b (w, p)" and "Some s \<in> set (bl_backupClients (vn_links w ! b))"
    and "IsClose w s"
  shows "\<exists>w'. delBackup c s w = Inr w' \<and> backup_inv c b (w', p)
    \<and> Some s \<notin> set (bl_backupClients (vn_links w' ! b))
    \<and> bl_activeSlave (vn_links w' ! b) =
        (if bl_activeSlave (vn_links w ! b) = Some s then None else bl_activeSlave (vn_links w ! b))
    \<and> vn_wg w' = (if bl_activeSlave (vn_links w ! b) = Some s then 0 else vn_wg w)"
proof -
  let ?bl = "vn_links w ! b" and ?slots = "bl_backupClients (vn_links w ! b)"
  have inv: "b < length (vn_links w)" "cl_cio (client w c) = IoBackup b" "distinct (taken ?slots)"
    "vn_wg w = (if bl_activeSlave ?bl = None then 0 else 1)"
    "\<And>s. bl_activeSlave ?bl = Some s \<Longrightarrow> Some s \<in> set ?slots"
    "\<And>s. Some s \<in> set ?slots \<Longrightarrow> s < length (vn_clients w) \<and> s \<noteq> c \<and> cl_master (client w s) = Some c"
    "\<And>s. p = Some s \<Longrightarrow> bl_activeSlave ?bl = None \<and> (IsClose w s \<or> Some s \<in> set ?slots)"
    using assms(1) by (simp_all add: backup_inv_def)
  note s = inv(6) [OF assms(2)]
  let ?u = "upd_client s (\<lambda>cl. cl\<lparr>cl_master := None\<rparr>)
    (upd_link b (\<lambda>bl. bl\<lparr>bl_backupClients := put_slot (Some s) None (bl_backupClients bl)\<rparr>) w)"
  let ?w = "if bl_activeSlave ?bl = Some s
    then (upd_link b (\<lambda>bl. bl\<lparr>bl_activeSlave := None\<rparr>) ?u)\<lparr>vn_wg := 0\<rparr> else ?u"
  have "\<exists>w'. delBackup c s w = Inr w' \<and> b < length (vn_links w') \<and> length (vn_clients w') = length (vn_clients w)
    \<and> bl_backupClients (vn_links w' ! b) = put_slot (Some s) None ?slots
    \<and> bl_activeSlave (vn_links w' ! b) = (if bl_activeSlave ?bl = Some s then None else bl_activeSlave ?bl)
    \<and> vn_wg w' = (if bl_activeSlave ?bl = Some s then 0 else vn_wg w)
    \<and> cl_cio (client w' c) = IoBackup b
    \<and> (\<forall>t. IsClose w' t = IsClose w t \<and> (t \<noteq> s \<longrightarrow> cl_master (client w' t) = cl_master (client w t)))"
    using inv(1,2,4) s
    by (intro exI [of _ ?w]) (auto simp: delBackup_def with_link_def wg_Done_def Let_def IsClose_def)
  then obtain w' where w': "delBackup c s w = Inr w'" "b < length (vn_links w')"
    "length (vn_clients w') = length (vn_clients w)"
    "bl_backupClients (vn_links w' ! b) = put_slot (Some s) None ?slots"
    "bl_activeSlave (vn_links w' ! b) = (if bl_activeSlave ?bl = Some s then None else bl_activeSlave ?bl)"
    "vn_wg w' = (if bl_activeSlave ?bl = Some s then 0 else vn_wg w)"
    "cl_cio (client w' c) = IoBackup b"
    "\<And>t. IsClose w' t = IsClose w t" "\<And>t. t \<noteq> s \<Longrightarrow> cl_master (client w' t) = cl_master (client w t)"
    by blast
  have d: "distinct (taken (put_slot (Some s) None ?slots))" "Some s \<notin> set (put_slot (Some s) None ?slots)"
    using taken_del [OF inv(3)] by simp_all
  have sub: "Some t \<in> set (put_slot (Some s) None ?slots) \<longleftrightarrow> Some t \<in> set ?slots \<and> t \<noteq> s" for t
    using put_slot_set(2) [of "Some s" None ?slots] put_slot_set(3) [of "Some t" ?slots "Some s" None] d(2)
    by auto
  have "backup_inv c b (w', p)"
    unfolding backup_inv_def prod.case w'(3,4,5,6,7,8) sub
    using w'(2,9) inv(4,5,6,7) d(1) assms(3) by auto
  then show ?thesis using w'(1,4,5,6) d(2) by auto
qed

lemma addBackup_ok:
  assumes "backup_inv c b (w, p)" and "s < length (vn_clients w)" "s \<noteq> c"
    and "cl_master (client w s) = None" and "None \<in> set (bl_backupClients (vn_links w ! b))"
    and "addBackup c s w = Inr w'"
  shows "backup_inv c b (w', p)"
proof -
  let ?bl = "vn_links w ! b" and ?slots = "bl_backupClients (vn_links w ! b)"
  have inv: "b < length (vn_links w)" "cl_cio (client w c) = IoBackup b" "distinct (taken ?slots)"
    "vn_wg w = (if bl_activeSlave ?bl = None then 0 else 1)"
    "\<And>s. bl_activeSlave ?bl = Some s \<Longrightarrow> Some s \<in> set ?slots"
    "\<And>s. Some s \<in> set ?slots \<Longrightarrow> s < length (vn_clients w) \<and> s \<noteq> c \<and> cl_master (client w s) = Some c"
    "\<And>s. p = Some s \<Longrightarrow> bl_activeSlave ?bl = None \<and> (IsClose w s \<or> Some s \<in> set ?slots)"
    using assms(1) by (simp_all add: backup_inv_def)
  have w': "b < length (vn_links w')" "length (vn_clients w') = length (vn_clients w)"
    "bl_backupClients (vn_links w' ! b) = put_slot None (Some s) ?slots"
    "bl_activeSlave (vn_links w' ! b) = bl_activeSlave ?bl" "vn_wg w' = vn_wg w"
    "cl_cio (client w' c) = IoBackup b" "\<And>t. IsClose w' t = IsClose w t"
    "\<And>t. cl_master (client w' t) = (if t = s then Some c else cl_master (client w t))"
    using assms(2,3,6) inv(1,2)
    by (auto simp: addBackup_def with_link_def Let_def IsClose_def split: if_splits)
  have new: "Some s \<notin> set ?slots" using inv(6) [of s] assms(4) by auto
  have sub: "Some t \<in> set (put_slot None (Some s) ?slots) \<longleftrightarrow> Some t \<in> set ?slots \<or> t = s" for t
    using put_slot_set(1) [of None ?slots "Some s"] put_slot_set(2) [of None "Some s" ?slots]
      put_slot_set(3) [of "Some t" ?slots None "Some s"] assms(5)
    by auto
  show ?thesis
    unfolding backup_inv_def prod.case w'(2,3,4,5,6,7,8) sub
    using w'(1) inv(4,5,6,7) taken_add [OF inv(3) new] assms(2,3) by auto
qed

lemma choseBackup_slave:
  assumes "cl_cio (client w c) = IoBackup b" and "choseBackup c w = Inr (Some s)"
  shows "Some s \<in> set (bl_backupClients (vn_links w ! b))"
proof -
  have "s \<in> set (open_slaves w b)"
    using choseBackup_spec [OF assms(1)] assms(2) by auto
  then show ?thesis
    by (auto simp: open_slaves_def List.map_filter_def)
qed

lemma backup_step_inv:
  assumes "backup_step c b x y" and "backup_inv c b x"
  shows "backup_inv c b y"
  using assms
proof (induction rule: backup_step.induct)
  case (add s w w' p)
  then show ?case using addBackup_ok by blast
next
  case (close w p s)
  then show ?case by (auto simp: backup_inv_def IsClose_def)
next
  case (remove w s w' p)
  then show ?case using delBackup_ok [of c b w p s] by auto
next
  case (chose w s)
  then show ?case
    using choseBackup_slave [of w c b s] by (auto simp: backup_inv_def split: if_splits)
next
  case (activate w s)
  then show ?case
    by (auto simp: backup_inv_def master_activate_def IsClose_def)
qed

inductive backup_reachable :: "nat \<Rightarrow> nat \<Rightarrow> vnet \<times> nat option \<Rightarrow> bool" for c b where
  start: "b < length (vn_links w) \<Longrightarrow> cl_cio (client w c) = IoBackup b \<Longrightarrow>
    set (bl_backupClients (vn_links w ! b)) \<subseteq> {None} \<Longrightarrow> bl_activeSlave (vn_links w ! b) = None \<Longrightarrow>
    vn_wg w = 0 \<Longrightarrow> backup_reachable c b (w, None)"
| step: "backup_reachable c b x \<Longrightarrow> backup_step c b x y \<Longrightarrow> backup_reachable c b y"

lemma backup_reachable_inv: "backup_reachable c b x \<Longrightarrow> backup_inv c b x"
proof (induction rule: backup_reachable.induct)
  case (start w)
  then have "taken (bl_backupClients (vn_links w ! b)) = []"
    by (auto simp: filter_empty_conv)
  then show ?case using start by (auto simp: backup_inv_def)
qed (rule backup_step_inv)

text \<open>
  C18: however connections are made, closed, chosen and removed, at most one slave is active and the
  wait group counts it, the active slave is one of the master's own, and the removal of a closed
  slave never panics: afterwards it is not active any more and, if it was, the wait group is back
  at 0, so that \<open>MasterWorking\<close> goes on to choose another.
\<close>

theorem backup_failover:
  assumes "backup_reachable c b (w, p)"
  shows "vn_wg w = (if bl_activeSlave (vn_links w ! b) = None then 0 else 1)
    \<and> (\<forall>s. bl_activeSlave (vn_links w ! b) = Some s \<longrightarrow> cl_master (client w s) = Some c)
    \<and> (\<forall>s. Some s \<in> set (bl_backupClients (vn_links w ! b)) \<and> IsClose w s \<longrightarrow>
        (\<exists>w'. delBackup c s w = Inr w' \<and> Some s \<notin> set (bl_backupClients (vn_links w' ! b))
          \<and> bl_activeSlave (vn_links w' ! b) \<noteq> Some s
          \<and> (bl_activeSlave (vn_links w ! b) = Some s \<longrightarrow> vn_wg w' = 0)))"
proof -
  note inv = backup_reachable_inv [OF assms]
  have "vn_wg w = (if bl_activeSlave (vn_links w ! b) = None then 0 else 1)"
    "\<forall>s. bl_activeSlave (vn_links w ! b) = Some s \<longrightarrow> cl_master (client w s) = Some c"
    using inv by (auto simp: backup_inv_def)
  moreover have "\<exists>w'. delBackup c s w = Inr w' \<and> Some s \<notin> set (bl_backupClients (vn_links w' ! b))
      \<and> bl_activeSlave (vn_links w' ! b) \<noteq> Some s
      \<and> (bl_activeSlave (vn_links w ! b) = Some s \<longrightarrow> vn_wg w' = 0)"
    if "Some s \<in> set (bl_backupClients (vn_links w ! b))" "IsClose w s" for s
    using delBackup_ok [OF inv that] by (auto split: if_splits)
  ultimately show ?thesis by blast
qed

text \<open>A master with two slots and one slave that is active and closes.\<close>

definition backup_start :: vnet where
  "backup_start = snd (NewClient IoConn ''slave'' (snd (NewClient (IoBackup 0) ''master''
     (snd (newbackupLink 2 (new_world []))))))"

definition backup_closing :: vnet where
  "backup_closing = upd_client 1 (\<lambda>cl. cl\<lparr>cl_isClosed := True\<rparr>)
     (master_activate 0 1 (projr (addBackup 0 1 backup_start)))"

lemma backup_closing_reachable:
  "backup_reachable 0 0 (backup_closing, None)" "IsClose backup_closing 1"
  "bl_activeSlave (vn_links backup_closing ! 0) = Some 1"
  "Some 1 \<in> set (bl_backupClients (vn_links backup_closing ! 0))"
proof -
  note defs = backup_start_def NewClient_def newbackupLink_def new_world_def client_def
    setClient_def upd_link_def IsClose_def heartBeatDelayAvg_def Let_def numeral_2_eq_2
  let ?a = "projr (addBackup 0 1 backup_start)"
  have s: "backup_reachable 0 0 (backup_start, None)"
    by (rule backup_reachable.start) (simp_all add: defs)
  have a: "addBackup 0 1 backup_start = Inr ?a"
    by (simp add: addBackup_def with_link_def defs)
  have "backup_step 0 0 (backup_start, None) (?a, None)"
    by (rule backup_step.add [OF _ _ _ _ _ a]) (simp_all add: defs)
  note r1 = backup_reachable.step [OF s this]
  have f: "choseBackup 0 ?a = Inr (Some 1)" "vn_wg ?a = 0"
    "bl_backupClients (vn_links ?a ! 0) = [Some 1, None]" "\<not> IsClose ?a 1"
    "0 < length (vn_links ?a)" "1 < length (vn_clients ?a)"
    by (simp_all add: addBackup_def with_link_def choseBackup_def chose_loop_def maxDuration_def
        upd_client_def defs)
  have "backup_step 0 0 (?a, None) (?a, Some 1)"
    by (rule backup_step.chose [OF f(2,1)])
  note r2 = backup_reachable.step [OF r1 this]
  note r3 = backup_reachable.step [OF r2 backup_step.activate]
  show "backup_reachable 0 0 (backup_closing, None)"
    unfolding backup_closing_def by (rule backup_reachable.step [OF r3 backup_step.close])
  show "IsClose backup_closing 1" "bl_activeSlave (vn_links backup_closing ! 0) = Some 1"
    "Some 1 \<in> set (bl_backupClients (vn_links backup_closing ! 0))"
    using f(3,4,5,6) by (simp_all add: backup_closing_def master_activate_def IsClose_def)
qed

theorem backup_failover_witness:
  "\<exists>w'. delBackup 0 1 backup_closing = Inr w' \<and> vn_wg backup_closing = 1 \<and> vn_wg w' = 0"
  using backup_failover [OF backup_closing_reachable(1)] backup_closing_reachable(2,3,4) by auto

theorem choseBackup_best_witness:
  "\<exists>r. choseBackup 0 (projr (addBackup 0 1 backup_start)) = Inr r"
proof -
  have "cl_cio (client (projr (addBackup 0 1 backup_start)) 0) = IoBackup 0"
    by (simp add: addBackup_def with_link_def backup_start_def NewClient_def newbackupLink_def
        new_world_def client_def setClient_def upd_link_def upd_client_def Let_def)
  from choseBackup_best [OF this] show ?thesis by blast
qed

end
