(* ===== verification/Vnet_Client.thy ===== *)
theory Vnet_Client
  imports Vnet_Tun Vnet_Backup
begin

text \<open>
  Package \<open>vnet\<close>, the life of a client: \<open>client.go\<close> (closing, the goroutines that read, write and
  watch the connection, and what a new connection or device goes through) and the loop of
  \<open>heartbeat.go\<close>. A goroutine is a function for each of its rounds; between two rounds the other
  goroutines may change the state.
\<close>

section \<open>Pairs\<close>

definition setAcsSize :: "nat \<Rightarrow> vnet \<Rightarrow> vnet res" where
  "setAcsSize c w =
     (case cl_peer (client w c) of
        None \<Rightarrow> Inl NilDeref
      | Some p \<Rightarrow>
          (case cl_cio (client w p) of
             IoTun t \<Rightarrow>
               let (mn, mx) = getPktRange t
               in Inr (upd_client c (\<lambda>cl. cl\<lparr>cl_minSize := mn, cl_maxSize := mx\<rparr>) w)
           | _ \<Rightarrow> Inr w))"

definition bindPairClient :: "nat \<Rightarrow> nat \<Rightarrow> vnet \<Rightarrow> vnet res" where
  "bindPairClient c1 c2 w =
     (let w = upd_client c1 (\<lambda>cl. cl\<lparr>cl_p2pFwd := True\<rparr>) w;
          w = upd_client c2 (\<lambda>cl. cl\<lparr>cl_p2pFwd := True\<rparr>) w;
          w = upd_client c1 (\<lambda>cl. cl\<lparr>cl_peer := Some c2\<rparr>) w;
          w = upd_client c2 (\<lambda>cl. cl\<lparr>cl_peer := Some c1\<rparr>) w
      in bind_res (setAcsSize c1 w) (setAcsSize c2))"

section \<open>Closing\<close>

text \<open>
  \<open>cio.Close()\<close>: the device gives back its number and its entry of \<open>tcMap\<close>; the commands that
  delete it, and the connection's socket, are outside the model.
\<close>

definition cio_Close :: "VnetIO \<Rightarrow> vnet \<Rightarrow> vnet res" where
  "cio_Close cio w =
     (case cio of
        IoTun t \<Rightarrow>
          bind_res (putDevId (tn_devId t) (vn_obcDevSlot w)) (\<lambda>slots.
          Inr (w\<lparr>vn_obcDevSlot := slots, vn_tcMap := AList.delete (tn_Name t) (vn_tcMap w)\<rparr>))
      | _ \<Rightarrow> Inr w)"

definition close_pktchan :: "nat \<Rightarrow> vnet \<Rightarrow> vnet res" where
  "close_pktchan c w =
     (if cl_chanClosed (client w c) then Inl CloseOfClosed
      else Inr (upd_client c (\<lambda>cl. cl\<lparr>cl_chanClosed := True\<rparr>) w))"

definition Close :: "nat option \<Rightarrow> nat \<Rightarrow> vnet \<Rightarrow> (vnet_error option \<times> vnet) res" where
  "Close choice c w =
     (if cl_isClosed (client w c) then Inr (Some AlreadyClosed, w)
      else
        let w = upd_client c (\<lambda>cl. cl\<lparr>cl_isClosed := True\<rparr>) w;
            w = hbTimerReset (10 * Millisecond) c w
        in bind_res (close_pktchan c w) (\<lambda>w.
           bind_res (cio_Close (cl_cio (client w c)) w) (\<lambda>w.
           bind_res (quitAllFdb c w) (\<lambda>w.
           bind_res (if length (vn_Vids w) = 0 \<and> \<not> cl_isClient (client w c)
                     then updateMasterFdb choice w else Inr w) (\<lambda>w.
           Inr (None, w))))))"

text \<open>\<open>reconnect\<close> has capacity one and is written once, by the call that closes.\<close>

definition Reconnect :: "nat option \<Rightarrow> nat \<Rightarrow> vnet \<Rightarrow> vnet res" where
  "Reconnect choice c w =
     bind_res (Close choice c w) (\<lambda>(err, w).
     if err \<noteq> None then Inr w
     else Inr (upd_client c (\<lambda>cl. cl\<lparr>cl_reconnect := True\<rparr>) w))"

section \<open>Reading and writing\<close>

text \<open>
  One round of \<open>ReadForward\<close>; the input is the stream of the connection or the frames of the device.
  The result is the rest of the input, or \<open>None\<close> when the goroutine has ended. On a device without
  a frame it waits. The \<open>Read\<close> of a backup link never returns: its rounds are the goroutine's, and
  the packet that was taken for it stays empty.
\<close>

definition read_done ::
  "nat option \<Rightarrow> nat \<Rightarrow> nat \<Rightarrow> int \<times> vnet_error option \<times> 'r \<times> vnet \<Rightarrow> ('r option \<times> vnet) res" where
  "read_done choice c pb = (\<lambda>(rn, err, rest, w).
     if err \<noteq> None then bind_res (Reconnect choice c w) (\<lambda>w. Inr (None, w))
     else
       let w = upd_client c (\<lambda>cl. cl\<lparr>cl_rx_bytes := cl_rx_bytes cl + word_of_int rn\<rparr>) w
       in bind_res (putPktBuf pb w) (\<lambda>w. Inr (Some rest, w)))"

definition ReadForward ::
  "crypto_lib \<Rightarrow> bool \<Rightarrow> byte list \<Rightarrow> nat option \<Rightarrow> nat \<Rightarrow> byte list \<times> byte list list \<Rightarrow> vnet \<Rightarrow>
     ((byte list \<times> byte list list) option \<times> vnet) res" where
  "ReadForward lib u key choice c input w =
     (let (cr, frames) = input in
      case cl_cio (client w c) of
        IoConn \<Rightarrow>
          let (pb, w) = getPktBuf choice c w in
          bind_res (vnetConn_Read lib u key choice c cr pb w) (\<lambda>(rn, err, cr, w).
          read_done choice c pb (rn, err, (cr, frames), w))
      | IoTun t \<Rightarrow>
          let (pb, v) = getPktBuf choice c w in
          bind_res (tun_Read t c frames pb v) (\<lambda>(r, v).
          case r of
            None \<Rightarrow> Inr (Some (cr, []), w)
          | Some (n, frames) \<Rightarrow> read_done choice c pb (n, None, (cr, frames), v))
      | IoBackup b \<Rightarrow> bind_res (backupLink_Read b w) (\<lambda>w. Inr (Some (cr, frames), w)))"

text \<open>
  \<open>Write\<close> of the three implementations: what is sent, which is \<open>None\<close> when nothing goes out here,
  the number of bytes, or the error. \<open>sent_ok\<close> says whether the connection took the bytes.
\<close>

definition cio_Write ::
  "crypto_lib \<Rightarrow> bool \<Rightarrow> byte list \<Rightarrow> bool \<Rightarrow> bool \<Rightarrow> nat \<Rightarrow> nat \<Rightarrow> vnet \<Rightarrow>
     (byte list option \<times> int \<times> vnet_error option \<times> vnet) res" where
  "cio_Write lib u key checkTunPkt sent_ok c a w =
     (case cl_cio (client w c) of
        IoConn \<Rightarrow>
          bind_res (vnetConn_Write lib u key c a w) (\<lambda>(r, w).
          case r of
            Inl e \<Rightarrow> Inr (None, 0, Some e, w)
          | Inr bytes \<Rightarrow>
              if sent_ok then Inr (Some bytes, int (length bytes), None, w)
              else Inr (None, 0, Some ConnWriteFail, w))
      | IoTun t \<Rightarrow>
          bind_res (tun_Write checkTunPkt t (pkt (vn_pkts w) a)) (\<lambda>(n, frame).
          Inr (frame, n, None, w))
      | IoBackup b \<Rightarrow> bind_res (backupLink_Write b a w) (\<lambda>(n, w). Inr (None, n, None, w)))"

text \<open>
  One round of \<open>WriteFromChan\<close>: the loop ends when the channel is closed and empty or a write
  fails; it waits on an open empty channel. The flag says whether the goroutine goes on.
\<close>

definition WriteFromChan ::
  "crypto_lib \<Rightarrow> bool \<Rightarrow> byte list \<Rightarrow> bool \<Rightarrow> bool \<Rightarrow> nat option \<Rightarrow> nat \<Rightarrow> vnet \<Rightarrow>
     (bool \<times> byte list option \<times> vnet) res" where
  "WriteFromChan lib u key checkTunPkt sent_ok choice c w =
     (case cl_pktchan (client w c) of
        [] \<Rightarrow>
          if cl_chanClosed (client w c)
          then bind_res (Reconnect choice c w) (\<lambda>w. Inr (False, None, w))
          else Inr (True, None, w)
      | a # rest \<Rightarrow>
          let w = upd_client c (\<lambda>cl. cl\<lparr>cl_pktchan := rest\<rparr>) w in
          bind_res (cio_Write lib u key checkTunPkt sent_ok c a w) (\<lambda>(out, wn, err, w).
          if err \<noteq> None then bind_res (Reconnect choice c w) (\<lambda>w. Inr (False, out, w))
          else
            let w = upd_client c (\<lambda>cl. cl\<lparr>cl_tx_bytes := cl_tx_bytes cl + word_of_int wn\<rparr>) w
            in bind_res (putPktBuf a w) (\<lambda>w. Inr (True, out, w))))"

section \<open>The heartbeat loop\<close>

text \<open>
  The state of the loop at the receive from the timer: \<open>HbWait rx timeout_count\<close>. When the loop
  ends, \<open>Reconnect\<close> is called.
\<close>

datatype hb_next = HbQuit | HbWait u64 int

definition HeartBeat_head :: "int \<Rightarrow> nat \<Rightarrow> vnet \<Rightarrow> hb_next" where
  "HeartBeat_head timeout_count c w =
     (if IsClose w c then HbQuit else HbWait (cl_rx_bytes (client w c)) timeout_count)"

definition HeartBeat :: "nat option \<Rightarrow> nat \<Rightarrow> vnet \<Rightarrow> (hb_next \<times> vnet) res" where
  "HeartBeat choice c w =
     (case cl_cio (client w c) of
        IoConn \<Rightarrow>
          let w = upd_client c (\<lambda>cl. cl\<lparr>cl_hb := Some \<lparr>hb_hbTimer = Some (vn_now w + 5 * Second),
                hb_hbID = 0, hb_hbReqTime = 0, hb_hbDelay = 0, hb_hbDelaySum = 0,
                hb_hbDelayAvg = 0\<rparr>\<rparr>) w;
              w = w\<lparr>vn_now := vn_now w + 10 * Millisecond\<rparr>
          in bind_res (sendHeartBeat choice HBRequest 0 c w) (\<lambda>w.
             Inr (HeartBeat_head 0 c w, w))
      | _ \<Rightarrow> Inr (HbQuit, w))"

definition HeartBeat_fired :: "nat option \<Rightarrow> u64 \<Rightarrow> int \<Rightarrow> nat \<Rightarrow> vnet \<Rightarrow> (hb_next \<times> vnet) res" where
  "HeartBeat_fired choice rx timeout_count c w =
     (if IsClose w c \<or> \<not> cl_valid (client w c) then Inr (HbQuit, w)
      else if rx = cl_rx_bytes (client w c) then
        if timeout_count \<ge> vn_HeartbeatCnt w then Inr (HbQuit, w)
        else bind_res (sendHeartBeat choice HBRequest 0 c w) (\<lambda>w.
          let w = hbTimerReset (Second * vn_HeartbeatIntv w) c w;
              timeout_count = timeout_count + 1
          in Inr (HeartBeat_head timeout_count c w, w))
      else
        let w = hbTimerReset (Second * vn_HeartbeatIdle w) c w
        in Inr (HeartBeat_head 0 c w, w))"

section \<open>New connections and devices\<close>

text \<open>
  \<open>HandleConn\<close> up to the wait for \<open>reconnect\<close>, and after it; the goroutines of \<open>Working\<close> are the
  functions above. The time between \<open>Working\<close> and the setting of \<open>isClient\<close> is not modelled.
\<close>

definition HandleConn_begin :: "nat option \<Rightarrow> string \<Rightarrow> bool \<Rightarrow> byte \<Rightarrow> vnet \<Rightarrow> (nat \<times> vnet) res" where
  "HandleConn_begin choice conn isClient CryptType w =
     (let (vcc, w) = NewClient IoConn conn w;
          w = setCryptType vcc CryptType w;
          w = upd_client vcc (\<lambda>cl. cl\<lparr>cl_isClient := isClient\<rparr>) w
      in if isClient then
           bind_res (JoinAllFdb vcc (ClientMasterAdd vcc w)) (\<lambda>w.
           bind_res (reportFdbMsg choice vcc w) (\<lambda>w. Inr (vcc, w)))
         else Inr (vcc, w))"

definition HandleConn_end :: "nat \<Rightarrow> vnet \<Rightarrow> vnet" where
  "HandleConn_end vcc w = ClientMasterDel vcc w"

text \<open>A tap device joins its bridge; the process ends when it cannot.\<close>

definition HandleTun :: "mytun \<Rightarrow> vnet \<Rightarrow> (nat \<times> vnet) res" where
  "HandleTun tun w =
     (let (vtc, w) = NewClient (IoTun tun) (tn_Name tun) w;
          w = upd_client vtc (\<lambda>cl. cl\<lparr>cl_valid := True\<rparr>) w
      in bind_res (joinFdbById vtc (tn_vid tun) w) (\<lambda>(err, w).
         if err \<noteq> None then Inl (PanicMsg ''fdb is full'') else Inr (vtc, w)))"

text \<open>The slaves of a backup master, and the master.\<close>

definition NcAccessBackup_begin :: "nat \<Rightarrow> byte \<Rightarrow> vnet \<Rightarrow> (nat \<times> vnet) res" where
  "NcAccessBackup_begin ncsNum CryptType w =
     (let (bl, w) = newbackupLink ncsNum w;
          (blc, w) = NewClient (IoBackup bl) ''this is backupLink'' w;
          w = upd_client blc (\<lambda>cl. cl\<lparr>cl_valid := True\<rparr>) w;
          w = setCryptType blc CryptType w
      in bind_res (JoinAllFdb blc (ClientMasterAdd blc w)) (\<lambda>w. Inr (blc, w)))"

definition BackupClient_begin :: "nat option \<Rightarrow> nat \<Rightarrow> string \<Rightarrow> vnet \<Rightarrow> (nat \<times> vnet) res" where
  "BackupClient_begin choice master conn w =
     (let (slave, w) = NewClient IoConn conn w in
      bind_res (addBackup master slave w) (\<lambda>w.
      bind_res (reportFdbMsg choice slave w) (\<lambda>w. Inr (slave, w))))"

definition BackupClient_end :: "nat \<Rightarrow> nat \<Rightarrow> vnet \<Rightarrow> vnet res" where
  "BackupClient_end master slave w = delBackup master slave w"

section \<open>A silent link is given up\<close>

text \<open>
  The rounds of the loop, with what the other goroutines do before each: \<open>env n\<close> when \<open>n\<close> rounds
  are left. They are silent when no byte arrives for the client and they keep the packets in
  order; they may close the client.
\<close>

primrec hb_rounds :: "(nat \<Rightarrow> vnet \<Rightarrow> vnet) \<Rightarrow> nat \<Rightarrow> nat \<Rightarrow> hb_next \<Rightarrow> vnet \<Rightarrow> (hb_next \<times> vnet) res" where
  "hb_rounds env c 0 s w = Inr (s, w)"
| "hb_rounds env c (Suc n) s w =
     (case s of
        HbQuit \<Rightarrow> Inr (HbQuit, w)
      | HbWait rx k \<Rightarrow>
          bind_res (HeartBeat_fired None rx k c (env n w)) (\<lambda>(s, w). hb_rounds env c n s w))"

definition hb_fit :: "nat \<Rightarrow> vnet \<Rightarrow> bool" where
  "hb_fit c w \<longleftrightarrow> pkts_ok w \<and> c < length (vn_clients w)
     \<and> (cl_chanClosed (client w c) \<longrightarrow> cl_isClosed (client w c))"

definition silent :: "nat \<Rightarrow> (vnet \<Rightarrow> vnet) \<Rightarrow> bool" where
  "silent c f \<longleftrightarrow> (\<forall>w. hb_fit c w \<longrightarrow> hb_fit c (f w)
     \<and> cl_rx_bytes (client (f w) c) = cl_rx_bytes (client w c)
     \<and> vn_HeartbeatCnt (f w) = vn_HeartbeatCnt w)"

lemma sendHeartBeat_fit:
  assumes "hb_fit c w" and "\<not> IsClose w c"
  obtains w' where "sendHeartBeat choice t i c w = Inr w'" "hb_fit c w'"
    "cl_rx_bytes (client w' c) = cl_rx_bytes (client w c)" "\<not> IsClose w' c"
    "vn_HeartbeatCnt w' = vn_HeartbeatCnt w"
proof -
  have w: "pkts_ok w" "c < length (vn_clients w)" "\<not> cl_chanClosed (client w c)"
    using assms by (auto simp: hb_fit_def IsClose_def)
  obtain w' a where w': "sendHeartBeat choice t i c w = Inr w'" "pkts_ok w'"
    "client w' = (client (hb_sender t c w))(c := (client (hb_sender t c w) c)\<lparr>cl_pktchan :=
       cl_pktchan (client w c) @ [a]\<rparr>)"
    "length (vn_clients w') = length (vn_clients w)" "vn_HeartbeatCnt w' = vn_HeartbeatCnt w"
    using sendHeartBeat_ok [OF w(1,2) assms(2) w(3), of choice t i] by metis
  have "cl_rx_bytes (client w' c) = cl_rx_bytes (client w c)"
    "cl_isClosed (client w' c) = cl_isClosed (client w c)"
    "cl_chanClosed (client w' c) = cl_chanClosed (client w c)"
    by (simp_all add: w'(3) hb_sender_def heartBeatUpdate_def)
  then show thesis
    using w' w assms(2) by (intro that [of w']) (simp_all add: hb_fit_def IsClose_def)
qed

lemma silent_round:
  assumes "hb_fit c w" and "silent c f" and "s = HbQuit \<or> s = HbWait (cl_rx_bytes (client w c)) k"
  shows "\<exists>s' w'. (case s of HbQuit \<Rightarrow> Inr (HbQuit, w)
        | HbWait rx k \<Rightarrow> HeartBeat_fired None rx k c (f w)) = Inr (s', w')
    \<and> hb_fit c w' \<and> vn_HeartbeatCnt w' = vn_HeartbeatCnt w
    \<and> (s' = HbQuit \<or> k < vn_HeartbeatCnt w \<and> s' = HbWait (cl_rx_bytes (client w' c)) (k + 1))"
proof (cases "s = HbQuit")
  case False
  then have s: "s = HbWait (cl_rx_bytes (client w c)) k" using assms(3) by simp
  let ?v = "f w"
  have v: "hb_fit c ?v" "cl_rx_bytes (client ?v c) = cl_rx_bytes (client w c)"
    "vn_HeartbeatCnt ?v = vn_HeartbeatCnt w"
    using assms(1,2) by (simp_all add: silent_def)
  show ?thesis
  proof (cases "IsClose ?v c \<or> \<not> cl_valid (client ?v c) \<or> k \<ge> vn_HeartbeatCnt w")
    case True
    then have "HeartBeat_fired None (cl_rx_bytes (client w c)) k c ?v = Inr (HbQuit, ?v)"
      using v by (auto simp: HeartBeat_fired_def)
    then show ?thesis using s v by auto
  next
    case False
    then obtain u where u: "sendHeartBeat None HBRequest 0 c ?v = Inr u" "hb_fit c u"
      "cl_rx_bytes (client u c) = cl_rx_bytes (client ?v c)" "\<not> IsClose u c"
      "vn_HeartbeatCnt u = vn_HeartbeatCnt ?v"
      using sendHeartBeat_fit [OF v(1)] by metis
    let ?u = "hbTimerReset (Second * vn_HeartbeatIntv u) c u"
    have "hb_fit c ?u" "vn_HeartbeatCnt ?u = vn_HeartbeatCnt w" "\<not> IsClose ?u c"
      using u v by (simp_all add: hb_fit_def hbTimerReset_def upd_hb_def IsClose_def)
    moreover have "HeartBeat_fired None (cl_rx_bytes (client w c)) k c ?v
        = Inr (HeartBeat_head (k + 1) c ?u, ?u)"
      using False v u by (auto simp: HeartBeat_fired_def Let_def)
    ultimately show ?thesis using s False by (simp add: HeartBeat_head_def)
  qed
qed (use assms in simp)

lemma hb_rounds_quit: "hb_rounds env c n HbQuit w = Inr (HbQuit, w)"
  by (cases n) simp_all

lemma hb_rounds_end:
  assumes "hb_fit c w" and "\<forall>n. silent c (env n)" and "k \<le> vn_HeartbeatCnt w"
    and "nat (vn_HeartbeatCnt w - k) < n"
  shows "\<exists>w'. hb_rounds env c n (HbWait (cl_rx_bytes (client w c)) k) w = Inr (HbQuit, w')"
  using assms
proof (induction n arbitrary: w k)
  case (Suc n)
  obtain s' w' where r: "HeartBeat_fired None (cl_rx_bytes (client w c)) k c (env n w) = Inr (s', w')"
    "hb_fit c w'" "vn_HeartbeatCnt w' = vn_HeartbeatCnt w"
    "s' = HbQuit \<or> k < vn_HeartbeatCnt w \<and> s' = HbWait (cl_rx_bytes (client w' c)) (k + 1)"
    using silent_round [OF Suc.prems(1), of "env n" "HbWait (cl_rx_bytes (client w c)) k" k] Suc.prems(2)
    by auto
  show ?case
  proof (cases "s' = HbQuit")
    case True
    then show ?thesis using r(1) by (simp add: hb_rounds_quit)
  next
    case False
    then have s: "k < vn_HeartbeatCnt w'" "s' = HbWait (cl_rx_bytes (client w' c)) (k + 1)"
      using r(3,4) by auto
    then have "\<exists>w''. hb_rounds env c n s' w' = Inr (HbQuit, w'')"
      using Suc.IH [OF r(2) Suc.prems(2), of "k + 1"] Suc.prems(4) r(3) by simp
    then show ?thesis using r(1) by simp
  qed
qed simp

text \<open>
  C17: a link on which nothing arrives is given up: whatever else happens in between, after
  \<open>HeartbeatCnt + 1\<close> expirations of the timer without a received byte the loop of \<open>HeartBeat\<close> has
  ended, without a panic, and the client goes on to \<open>Reconnect\<close>.
\<close>

theorem silent_link_ends:
  assumes "hb_fit c w" and "\<forall>n. silent c (env n)" and "0 \<le> vn_HeartbeatCnt w"
  shows "\<exists>w'. hb_rounds env c (Suc (nat (vn_HeartbeatCnt w)))
    (HbWait (cl_rx_bytes (client w c)) 0) w = Inr (HbQuit, w')"
  using assms by (intro hb_rounds_end) simp_all

theorem silent_link_ends_witness:
  "\<exists>w'. hb_rounds (\<lambda>_ w. w) 0 4 (HbWait 0 0) (upd_client 0 (\<lambda>cl. cl\<lparr>cl_valid := True\<rparr>) hb_clients)
    = Inr (HbQuit, w')"
proof -
  let ?w = "upd_client 0 (\<lambda>cl. cl\<lparr>cl_valid := True\<rparr>) hb_clients"
  have "hb_fit 0 ?w" "vn_HeartbeatCnt ?w = 3" "cl_rx_bytes (client ?w 0) = 0"
    by (simp_all add: hb_fit_def hb_clients_def two_clients_pkts two_clients_fields)
  moreover have "\<forall>n :: nat. silent 0 (\<lambda>w. w)" by (simp add: silent_def)
  ultimately show ?thesis
    using silent_link_ends [of 0 ?w "\<lambda>_ w. w"] by simp
qed

section \<open>A client is closed once\<close>

text \<open>Changes of a client that its membership does not depend on.\<close>

lemma member_inv_upd:
  assumes "\<And>cl. cl_fdbJoined (f cl) = cl_fdbJoined cl" and "\<And>cl. cl_isClient (f cl) = cl_isClient cl"
  shows "member_inv (upd_client c f w) \<longleftrightarrow> member_inv w"
proof -
  have "cl_isClient (client (upd_client c f w) d) = cl_isClient (client w d)"
    "joined (upd_client c f w) d = joined w d" for d
    using assms by (simp_all add: joined_def)
  then show ?thesis
    by (simp add: member_inv_def bridges_ok_def member_of_def counted_def)
qed

lemma member_inv_other [simp]:
  "member_inv (w\<lparr>vn_Vids := vs\<rparr>) = member_inv w"
  "member_inv (w\<lparr>vn_obcDevSlot := ds, vn_tcMap := tm\<rparr>) = member_inv w"
  by (simp_all add: member_inv_def bridges_ok_def member_of_def counted_def joined_def client_def)

end
