(* ===== verification/Vnet_Close.thy ===== *)
theory Vnet_Close
  imports Vnet_Client
begin

text \<open>
  Package \<open>vnet\<close>, what \<open>Close\<close> of a client does to the rest of the process: the update of the masters
  (\<open>updateMasterFdb\<close> of \<open>vid.go\<close>) that an accepted client or a device causes where no identifiers are
  configured, and the contract of \<open>Close\<close> for every kind of client.
\<close>

section \<open>What membership does not touch\<close>

definition rest_of :: "vnet \<Rightarrow> int list \<times> (string \<times> nat) list \<times> (string \<times> nat) list \<times> int list" where
  "rest_of w = (vn_obcDevSlot w, vn_tcMap w, vn_ClientMaster w, vn_Vids w)"

lemma rest_of_upd [simp]:
  "rest_of (upd_client c f w) = rest_of w" "rest_of (upd_fdbs g w) = rest_of w"
  "rest_of (upd_pkts h w) = rest_of w" "rest_of (w\<lparr>vn_fdbs := fw\<rparr>) = rest_of w"
  "rest_of (w\<lparr>vn_pkts := s\<rparr>) = rest_of w"
  by (simp_all add: rest_of_def upd_client_def upd_fdbs_def upd_pkts_def)

lemma rest_ofD:
  assumes "rest_of v = rest_of w"
  shows "vn_obcDevSlot v = vn_obcDevSlot w" "vn_tcMap v = vn_tcMap w"
    "vn_ClientMaster v = vn_ClientMaster w" "vn_Vids v = vn_Vids w"
  using assms by (simp_all add: rest_of_def)

text \<open>The registry after a bridge is left or joined.\<close>

abbreviation registry :: "vnet \<Rightarrow> (int \<times> nat) list" where
  "registry w \<equiv> fw_ids (vn_fdbs w)"

lemma TryToDel_ids:
  "fw_ids (TryToDelFdbById i fw) = fw_ids fw \<or> fw_ids (TryToDelFdbById i fw) = AList.delete i (fw_ids fw)"
  by (simp add: TryToDelFdbById_def DelFdbById_def split: option.split)

lemma TryToDel_unknown: "i \<notin> fst ` set (fw_ids fw) \<Longrightarrow> TryToDelFdbById i fw = fw"
  by (simp add: TryToDelFdbById_def GetFdbById_def map_of_eq_None_iff [THEN iffD2])

lemma leave_frame:
  assumes "bind_res (release_fdb c fp w) (\<lambda>w. Inr (forget_fdb c i w)) = Inr w'"
  shows "rest_of w' = rest_of w" and "vn_pkts w' = vn_pkts w"
    and "length (registry w') \<le> length (registry w)"
    and "i \<notin> fst ` set (registry w) \<Longrightarrow> registry w' = registry w"
proof -
  obtain g where w': "w' = forget_fdb c i (upd_fdbs (set_fdb (fp_fdb fp) g) w)"
    using assms by (auto simp: release_fdb_def bind_res_eq_Inr)
  show "rest_of w' = rest_of w" and "vn_pkts w' = vn_pkts w" by (simp_all add: w' forget_fdb_def Let_def)
  show "length (registry w') \<le> length (registry w)"
    using TryToDel_ids [of i "set_fdb (fp_fdb fp) g (vn_fdbs w)"] length_delete_le [of i "registry w"]
    by (auto simp: w' forget_fdb_def Let_def)
  show "registry w' = registry w" if "i \<notin> fst ` set (registry w)"
    using that by (simp add: w' forget_fdb_def Let_def TryToDel_unknown)
qed

lemma quitFdbByIds_frame:
  assumes "quitFdbByIds c ids w = Inr w'" and "set ids \<inter> fst ` set (registry w) = {}"
  shows "rest_of w' = rest_of w \<and> vn_pkts w' = vn_pkts w \<and> registry w' = registry w"
  using assms(1) unfolding quitFdbByIds_def
proof (rule fold_res_invariant)
  fix i v v'
  assume i: "i \<in> set ids" and P: "rest_of v = rest_of w \<and> vn_pkts v = vn_pkts w \<and> registry v = registry w"
    and s: "(case Client_GetFdbById v c i of None \<Rightarrow> Inr v
      | Some fp \<Rightarrow> bind_res (release_fdb c fp v) (\<lambda>w. Inr (forget_fdb c i w))) = Inr v'"
  show "rest_of v' = rest_of w \<and> vn_pkts v' = vn_pkts w \<and> registry v' = registry w"
  proof (cases "Client_GetFdbById v c i")
    case (Some fp)
    then show ?thesis using leave_frame [of c fp v i v'] s P i assms(2) by auto
  qed (use s P in simp)
qed simp

lemma quitAllFdb_frame:
  assumes "quitAllFdb c w = Inr w'"
  shows "rest_of w' = rest_of w \<and> vn_pkts w' = vn_pkts w \<and> length (registry w') \<le> length (registry w)"
proof -
  obtain v where v: "fold_res (\<lambda>(fpid, fp) w. bind_res (release_fdb c fp w)
      (\<lambda>w. Inr (forget_fdb c fpid w))) (joined w c) w = Inr v"
    and w': "w' = upd_client c (\<lambda>cl. cl\<lparr>cl_fdbJoined := None\<rparr>) v"
    using assms by (auto simp: quitAllFdb_def bind_res_eq_Inr)
  have "rest_of v = rest_of w \<and> vn_pkts v = vn_pkts w \<and> length (registry v) \<le> length (registry w)"
    by (rule fold_res_invariant [OF v]) (auto dest: leave_frame)
  then show ?thesis by (simp add: w')
qed

lemma joinFdbByIds_frame:
  assumes "joinFdbByIds c ids w = Inr w'" and "set ids \<subseteq> fst ` set (registry w)"
  shows "rest_of w' = rest_of w \<and> vn_pkts w' = vn_pkts w \<and> registry w' = registry w"
  using assms(1) unfolding joinFdbByIds_def
proof (rule fold_res_invariant)
  fix i v v'
  assume i: "i \<in> set ids" and P: "rest_of v = rest_of w \<and> vn_pkts v = vn_pkts w \<and> registry v = registry w"
    and s: "bind_res (joinFdbById c i v) (\<lambda>(_, w). Inr w) = Inr v'"
  have "i \<in> fst ` set (registry v)" using i P assms(2) by auto
  then obtain a where "GetFdbById (vn_fdbs v) i = Some a"
    by (cases "GetFdbById (vn_fdbs v) i") (auto simp: GetFdbById_def map_of_eq_None_iff)
  then have "NewFdb i (vn_fdbs v) = Inr (a, vn_fdbs v)" by (rule NewFdb_known)
  then show "rest_of v' = rest_of w \<and> vn_pkts v' = vn_pkts w \<and> registry v' = registry w"
    using s P by (auto simp: joinFdbById_def bind_res_eq_Inr Let_def split: if_splits option.splits)
qed simp

lemma reportFdbMsg_frame: "reportFdbMsg choice c w = Inr w' \<Longrightarrow> rest_of w' = rest_of w"
  by (auto simp: reportFdbMsg_def getPktBuf_def PutPktToChan2_def putPktBuf_def Let_def bind_res_eq_Inr
      split: prod.splits if_splits)

lemma member_inv_cong:
  assumes "vn_fdbs v = vn_fdbs w" and "length (vn_clients v) = length (vn_clients w)"
    and "\<And>d. cl_fdbJoined (client v d) = cl_fdbJoined (client w d)"
    and "\<And>d. cl_isClient (client v d) = cl_isClient (client w d)"
  shows "member_inv v \<longleftrightarrow> member_inv w"
  using assms by (simp add: member_inv_def bridges_ok_def member_of_def counted_def joined_def)

section \<open>The update of the masters\<close>

text \<open>
  The masters in good order: they exist, have no master of their own, and one that takes part in
  bridges is open. \<open>MaxReport\<close> is the number of identifiers that one message can hold.
\<close>

definition MaxReport :: nat where "MaxReport = 761"

definition masters_ok :: "vnet \<Rightarrow> bool" where
  "masters_ok w \<longleftrightarrow> (\<forall>d \<in> snd ` set (vn_ClientMaster w). d < length (vn_clients w)
     \<and> cl_master (client w d) = None
     \<and> (cl_fdbJoined (client w d) \<noteq> None \<longrightarrow> \<not> cl_isClosed (client w d) \<and> \<not> cl_chanClosed (client w d)))"

abbreviation membership_off :: "Client \<Rightarrow> Client \<Rightarrow> Client" where
  "membership_off cl cl' \<equiv> cl'\<lparr>cl_fdbJoined := cl_fdbJoined cl, cl_pktchan := cl_pktchan cl\<rparr>"

text \<open>One round of the loop.\<close>

definition master_step ::
  "nat option \<Rightarrow> int list \<Rightarrow> string \<times> nat \<Rightarrow> int list \<times> int list \<times> vnet \<Rightarrow> (int list \<times> int list \<times> vnet) res"
where
  "master_step choice newVidMap = (\<lambda>(_, c) (joinIds, quitIds, w).
     if cl_fdbJoined (client w c) = None then Inr (joinIds, quitIds, w)
     else
       let joinIds = joinIds @ filter (\<lambda>i. i \<notin> set (keys (joined w c))) newVidMap;
           quitIds = quitIds @ filter (\<lambda>i. i \<notin> set newVidMap) (keys (joined w c))
       in bind_res (quitFdbByIds c quitIds w) (\<lambda>w.
          bind_res (joinFdbByIds c joinIds w) (\<lambda>w.
          bind_res (if length joinIds > 0 \<or> length quitIds > 0
                    then reportFdbMsg choice c w else Inr w) (\<lambda>w.
          Inr (joinIds, quitIds, w)))))"

lemma updateMasterFdb_eq:
  "updateMasterFdb choice w =
    bind_res (fold_res (master_step choice (vid_map (GetFdbIds (vn_fdbs w)))) (vn_ClientMaster w) ([], [], w))
      (\<lambda>(_, _, w). Inr w)"
  by (simp add: updateMasterFdb_def master_step_def Let_def)

text \<open>
  What holds between two rounds, relative to the state \<open>u\<close> before the loop: the masters in \<open>D\<close> have
  been through it, and the two lists separate the registry from the rest.
\<close>

definition between :: "vnet \<Rightarrow> nat set \<Rightarrow> int list \<times> int list \<times> vnet \<Rightarrow> bool" where
  "between u D = (\<lambda>(joinIds, quitIds, w).
     member_inv w \<and> pkts_ok w \<and> rest_of w = rest_of u \<and> registry w = registry u
     \<and> length (vn_clients w) = length (vn_clients u)
     \<and> set joinIds \<subseteq> fst ` set (registry u) \<and> set quitIds \<inter> fst ` set (registry u) = {}
     \<and> (\<forall>d. membership_off (client u d) (client w d) = client u d
          \<and> (cl_fdbJoined (client w d) = None \<longleftrightarrow> cl_fdbJoined (client u d) = None))
     \<and> (\<forall>d. d \<notin> D \<longrightarrow> client w d = client u d)
     \<and> (\<forall>d \<in> D. set (GetFdbJoinIds w d) \<subseteq> fst ` set (registry u)))"

text \<open>The report of a master that is in registered bridges only.\<close>

lemma report_after_update:
  assumes inv: "member_inv w" and pk: "pkts_ok w" and c: "c < length (vn_clients w)"
    and o: "\<not> cl_isClosed (client w c)" "\<not> cl_chanClosed (client w c)" "cl_master (client w c) = None"
    and sub: "set (GetFdbJoinIds w c) \<subseteq> fst ` set (registry w)" and n: "length (registry w) \<le> MaxReport"
  obtains w' q where "reportFdbMsg choice c w = Inr w'" "member_inv w'" "pkts_ok w'" "rest_of w' = rest_of w"
    "vn_fdbs w' = vn_fdbs w" "length (vn_clients w') = length (vn_clients w)"
    "\<forall>d. client w' d = (if d = c then (client w c)\<lparr>cl_pktchan := q\<rparr> else client w d)"
proof -
  have "map_wf (joined w c)" using member_invD(3) [OF inv c] by (simp add: member_of_def)
  then have "length (GetFdbJoinIds w c) = card (set (GetFdbJoinIds w c))"
    using distinct_card [of "keys (joined w c)"] by (simp add: GetFdbJoinIds_def)
  also have "\<dots> \<le> card (set (keys (registry w)))" using sub by (intro card_mono) simp_all
  also have "\<dots> \<le> length (registry w)" using card_length [of "keys (registry w)"] by simp
  finally have "length (GetFdbJoinIds w (report_source w c)) \<le> 761"
    using n o(3) by (simp add: report_source_def MaxReport_def)
  moreover have "\<not> IsClose w c" using o(1) by (simp add: IsClose_def)
  ultimately obtain w' a where
    w': "reportFdbMsg choice c w = Inr w'" "pkts_ok w'" "vn_fdbs w' = vn_fdbs w"
    "client w' = (client w)(c := (client w c)\<lparr>cl_pktchan := cl_pktchan (client w c) @ [a]\<rparr>)"
    "length (vn_clients w') = length (vn_clients w)"
    using reportFdbMsg_ok [OF pk c _ o(2), of choice] by metis
  have "member_inv w'" using inv by (subst member_inv_cong [of w' w]) (simp_all add: w')
  then show thesis
    using w' reportFdbMsg_frame [OF w'(1)] by (intro that [of w' "cl_pktchan (client w c) @ [a]"]) simp_all
qed

lemma between_skip:
  assumes "between u D (jo, qu, w)" and "cl_fdbJoined (client w c) = None"
  shows "between u (insert c D) (jo, qu, w)"
proof -
  have "set (GetFdbJoinIds w c) = {}" using assms(2) by (simp add: GetFdbJoinIds_def joined_def)
  then show ?thesis using assms(1) unfolding between_def by auto
qed

lemma master_step_ok:
  assumes b: "between u D (jo, qu, w)" and m: "masters_ok u" "c \<in> snd ` set (vn_ClientMaster u)"
    and n: "length (registry u) \<le> MaxReport" and V: "set V = fst ` set (registry u)"
  shows "\<exists>s. master_step choice V (nm, c) (jo, qu, w) = Inr s \<and> between u (insert c D) s"
proof (cases "cl_fdbJoined (client w c)")
  case None
  then show ?thesis using between_skip [OF b] by (simp add: master_step_def)
next
  case (Some mp)
  let ?R = "fst ` set (registry u)"
  let ?jo = "jo @ filter (\<lambda>i. i \<notin> set (keys (joined w c))) V"
  let ?qu = "qu @ filter (\<lambda>i. i \<notin> set V) (keys (joined w c))"
  have B: "member_inv w" "pkts_ok w" "rest_of w = rest_of u" "registry w = registry u"
    "length (vn_clients w) = length (vn_clients u)" "set jo \<subseteq> ?R" "set qu \<inter> ?R = {}"
    "\<And>d. membership_off (client u d) (client w d) = client u d"
    "\<And>d. cl_fdbJoined (client w d) = None \<longleftrightarrow> cl_fdbJoined (client u d) = None"
    "\<And>d. d \<notin> D \<Longrightarrow> client w d = client u d"
    "\<And>d. d \<in> D \<Longrightarrow> set (GetFdbJoinIds w d) \<subseteq> ?R"
    using b by (auto simp: between_def)
  have cu: "c < length (vn_clients w)" "cl_master (client u c) = None" "\<not> cl_isClosed (client u c)"
    "\<not> cl_chanClosed (client u c)"
    using m Some B(5) B(9) [of c] by (auto simp: masters_ok_def)
  have fields: "cl_master (client w c) = None" "\<not> cl_isClosed (client w c)" "\<not> cl_chanClosed (client w c)"
    using cu(2-4) arg_cong [OF B(8) [of c], of cl_master] arg_cong [OF B(8) [of c], of cl_isClosed]
      arg_cong [OF B(8) [of c], of cl_chanClosed] by simp_all
  obtain v mv where v: "quitFdbByIds c ?qu w = Inr v" "member_inv v" "only_joined c w v"
    "cl_fdbJoined (client v c) = Some mv" "fst ` set mv = fst ` set mp - set ?qu"
    using quitFdbByIds_ok [OF B(1) cu(1) Some, of ?qu] by blast
  have qR: "set ?qu \<inter> fst ` set (registry w) = {}" using B(4,7) V by auto
  note vf = quitFdbByIds_frame [OF v(1) qR]
  have cv: "c < length (vn_clients v)" using v(3) cu(1) by (simp add: only_joined_def)
  obtain x mx where x: "joinFdbByIds c ?jo v = Inr x" "member_inv x" "only_joined c v x"
    "cl_fdbJoined (client x c) = Some mx" "fst ` set mx \<subseteq> fst ` set mv \<union> set ?jo"
    using joinFdbByIds_ok [OF v(2) cv v(4), of ?jo] by blast
  have jR: "set ?jo \<subseteq> ?R" using B(6) V by auto
  note xf = joinFdbByIds_frame [OF x(1)]
  have xr: "rest_of x = rest_of u" "vn_pkts x = vn_pkts w" "registry x = registry u"
    using xf vf jR B(3,4) by auto
  have "fst ` set mv \<subseteq> ?R" using v(5) V Some by (auto simp: joined_def)
  moreover have "set (GetFdbJoinIds x c) = fst ` set mx" using x(4) by (simp add: GetFdbJoinIds_def joined_def)
  ultimately have xs: "set (GetFdbJoinIds x c) \<subseteq> ?R" using x(5) jR by blast
  have wx: "only_joined c w x" by (rule only_joined_trans [OF v(3) x(3)])
  then obtain j where j: "\<And>d. client x d = (if d = c then (client w c)\<lparr>cl_fdbJoined := j\<rparr> else client w d)"
    and xl: "length (vn_clients x) = length (vn_clients w)"
    unfolding only_joined_def by blast
  have jS: "j = Some mx" using x(4) j [of c] by simp
  have px: "pkts_ok x" using B(2) xr(2) by (simp add: pkts_ok_def)
  have kept: "between u (insert c D) (?jo, ?qu, y)"
    if y: "member_inv y" "pkts_ok y" "rest_of y = rest_of x" "vn_fdbs y = vn_fdbs x"
      "length (vn_clients y) = length (vn_clients x)"
      "\<forall>d. client y d = (if d = c then (client x c)\<lparr>cl_pktchan := q\<rparr> else client x d)" for y q
  proof -
    have cy: "client y d = (if d = c then (client w c)\<lparr>cl_fdbJoined := Some mx, cl_pktchan := q\<rparr> else client w d)" for d
      using y(6) j jS by simp
    have "membership_off (client u d) (client y d) = client u d" for d
      using B(8) [of d] by (cases "d = c") (simp_all add: cy)
    moreover have "cl_fdbJoined (client y d) = None \<longleftrightarrow> cl_fdbJoined (client u d) = None" for d
      using B(9) [of d] Some by (cases "d = c") (auto simp: cy)
    moreover have "set (GetFdbJoinIds y d) \<subseteq> ?R" if "d \<in> insert c D" for d
      using B(11) [of d] that xs x(4) by (cases "d = c") (auto simp: cy GetFdbJoinIds_def joined_def)
    ultimately show ?thesis
      using y xr xl B(5,7,10) jR qR B(4) unfolding between_def by (auto simp: cy)
  qed
  have step: "master_step choice V (nm, c) (jo, qu, w) =
      bind_res (if length ?jo > 0 \<or> length ?qu > 0 then reportFdbMsg choice c x else Inr x) (\<lambda>w. Inr (?jo, ?qu, w))"
    unfolding master_step_def Let_def prod.case Some by (simp only: option.distinct if_False v(1) x(1) bind_res_simps)
  show ?thesis
  proof (cases "length ?jo > 0 \<or> length ?qu > 0")
    case True
    have "\<not> cl_isClosed (client x c)" "\<not> cl_chanClosed (client x c)" "cl_master (client x c) = None"
      "c < length (vn_clients x)" "set (GetFdbJoinIds x c) \<subseteq> fst ` set (registry x)" "length (registry x) \<le> MaxReport"
      using fields cu(1) xl xs n by (simp_all add: j xr(3))
    note rp = report_after_update [OF x(2) px this(4,1,2,3,5,6), of choice]
    show ?thesis
    proof (rule rp, goal_cases)
      case (1 y q)
      have "between u (insert c D) (?jo, ?qu, y)" by (rule kept) (use 1 in blast)+
      then show ?case using step True 1(1) by simp
    qed
  next
    case False
    have "between u (insert c D) (?jo, ?qu, x)" by (rule kept [OF x(2) px refl refl refl, of "cl_pktchan (client x c)"]) simp
    then show ?thesis using step False by simp
  qed
qed

lemma masters_loop:
  assumes "between u D s" and "masters_ok u" and "snd ` set ms \<subseteq> snd ` set (vn_ClientMaster u)"
    and "length (registry u) \<le> MaxReport" and "set V = fst ` set (registry u)"
  shows "\<exists>t. fold_res (master_step choice V) ms s = Inr t \<and> between u (D \<union> snd ` set ms) t"
  using assms(1,3)
proof (induction ms arbitrary: D s)
  case (Cons p ms)
  obtain nm c jo qu w where p: "p = (nm, c)" "s = (jo, qu, w)" by (cases p; cases s)
  have "c \<in> snd ` set (vn_ClientMaster u)" using Cons.prems(2) p by simp
  from master_step_ok [OF _ assms(2) this assms(4,5), of D jo qu w choice nm] Cons.prems(1) p
  obtain s' where s': "master_step choice V p s = Inr s'" "between u (insert c D) s'" by auto
  from Cons.IH [OF s'(2)] Cons.prems(2) show ?case using s'(1) p by auto
qed simp

text \<open>The state after the loop: each master is in registered bridges only, and the rest has not changed.\<close>

definition updated :: "vnet \<Rightarrow> vnet \<Rightarrow> bool" where
  "updated u w \<longleftrightarrow> member_inv w \<and> rest_of w = rest_of u
     \<and> (\<forall>d. membership_off (client u d) (client w d) = client u d)
     \<and> (\<forall>d. cl_fdbJoined (client u d) = None \<longrightarrow> cl_fdbJoined (client w d) = None)
     \<and> (\<forall>d. d \<notin> snd ` set (vn_ClientMaster u) \<longrightarrow> client w d = client u d)
     \<and> (\<forall>d \<in> snd ` set (vn_ClientMaster u). set (GetFdbJoinIds w d) \<subseteq> set (GetFdbIds (vn_fdbs w)))"

lemma updateMasterFdb_ok:
  assumes "member_inv w" and "pkts_ok w" and "masters_ok w" and "length (registry w) \<le> MaxReport"
  obtains w' where "updateMasterFdb choice w = Inr w'" "updated w w'"
proof -
  have "between w {} ([], [], w)" using assms by (simp add: between_def)
  from masters_loop [OF this assms(3) order_refl assms(4), of "vid_map (GetFdbIds (vn_fdbs w))" choice]
  obtain jo qu w' where f: "fold_res (master_step choice (vid_map (GetFdbIds (vn_fdbs w)))) (vn_ClientMaster w) ([], [], w)
      = Inr (jo, qu, w')" and b: "between w (snd ` set (vn_ClientMaster w)) (jo, qu, w')"
    by (auto simp: GetFdbIds_eq)
  have "updateMasterFdb choice w = Inr w'" using f by (simp add: updateMasterFdb_eq)
  moreover have "updated w w'" using b by (simp add: between_def updated_def GetFdbIds_eq)
  ultimately show thesis by (rule that)
qed

section \<open>Closing\<close>

lemma quitAllFdb_always:
  assumes "member_inv w" and "c < length (vn_clients w)"
  obtains w' where "quitAllFdb c w = Inr w'" "member_inv w'" "only_joined c w w'" "cl_fdbJoined (client w' c) = None"
proof (cases "cl_fdbJoined (client w c)")
  case None
  have "only_joined c w (upd_client c (\<lambda>cl. cl\<lparr>cl_fdbJoined := None\<rparr>) w)"
    unfolding only_joined_def using assms(2) by (intro conjI exI [of _ None]) simp_all
  moreover have "member_inv (upd_client c (\<lambda>cl. cl\<lparr>cl_fdbJoined := None\<rparr>) w)"
    using assms None by (subst member_inv_cong [of _ w]) simp_all
  ultimately show thesis
    using None assms(2) that by (auto simp: quitAllFdb_def joined_def)
next
  case (Some m)
  then show thesis using quitAllFdb_ok [OF assms Some] that by blast
qed

text \<open>Where no identifiers are configured, a client that did not dial itself makes the masters follow.\<close>

definition masters_follow :: "vnet \<Rightarrow> nat \<Rightarrow> bool" where
  "masters_follow w c \<longleftrightarrow> vn_Vids w = [] \<and> \<not> cl_isClient (client w c)"

lemma Close_before_update:
  assumes inv: "member_inv w" and c: "c < length (vn_clients w)" and o: "\<not> IsClose w c"
    "\<not> cl_chanClosed (client w c)"
    and t: "\<forall>t. cl_cio (client w c) = IoTun t \<longrightarrow> 0 \<le> tn_devId t \<and> tn_devId t < int DevSlotMax"
  obtains w3 where "Close choice c w = bind_res (if masters_follow w c then updateMasterFdb choice w3 else Inr w3)
      (\<lambda>w. Inr (None, w))" "member_inv w3"
    "cl_isClosed (client w3 c)" "cl_chanClosed (client w3 c)" "cl_fdbJoined (client w3 c) = None"
    "cl_master (client w3 c) = cl_master (client w c)" "\<And>d. d \<noteq> c \<Longrightarrow> client w3 d = client w d"
    "length (vn_clients w3) = length (vn_clients w)" "vn_pkts w3 = vn_pkts w" "vn_ClientMaster w3 = vn_ClientMaster w"
    "length (registry w3) \<le> length (registry w)"
    "\<And>t. cl_cio (client w c) = IoTun t \<Longrightarrow> vn_obcDevSlot w3 = (vn_obcDevSlot w)[nat (tn_devId t) := 0]
      \<and> vn_tcMap w3 = AList.delete (tn_Name t) (vn_tcMap w)"
proof -
  let ?w1 = "upd_client c (\<lambda>cl. cl\<lparr>cl_chanClosed := True\<rparr>)
    (hbTimerReset (10 * Millisecond) c (upd_client c (\<lambda>cl. cl\<lparr>cl_isClosed := True\<rparr>) w))"
  have w1: "member_inv ?w1" "length (vn_clients ?w1) = length (vn_clients w)"
    "cl_isClosed (client ?w1 c)" "cl_chanClosed (client ?w1 c)" "rest_of ?w1 = rest_of w" "vn_fdbs ?w1 = vn_fdbs w"
    "cl_isClient (client ?w1 c) = cl_isClient (client w c)" "cl_cio (client ?w1 c) = cl_cio (client w c)"
    "vn_pkts ?w1 = vn_pkts w" "cl_master (client ?w1 c) = cl_master (client w c)" "\<And>d. d \<noteq> c \<Longrightarrow> client ?w1 d = client w d"
    using inv c by (simp_all add: hbTimerReset_def upd_hb_def member_inv_upd)
  obtain w2 where io: "cio_Close (cl_cio (client w c)) ?w1 = Inr w2" and w2: "member_inv w2"
    "vn_clients w2 = vn_clients ?w1" "vn_fdbs w2 = vn_fdbs w" "vn_pkts w2 = vn_pkts w" "vn_Vids w2 = vn_Vids w"
    "vn_ClientMaster w2 = vn_ClientMaster w"
    "\<And>t. cl_cio (client w c) = IoTun t \<Longrightarrow> vn_obcDevSlot w2 = (vn_obcDevSlot w)[nat (tn_devId t) := 0]
      \<and> vn_tcMap w2 = AList.delete (tn_Name t) (vn_tcMap w)"
    using w1(1,6,9) rest_ofD [OF w1(5)] t
    by (cases "cl_cio (client w c)") (auto simp: cio_Close_def putDevId_def)
  have cl2: "client w2 d = client ?w1 d" for d using w2(2) by (simp add: client_def)
  obtain w3 where q: "quitAllFdb c w2 = Inr w3" and w3: "member_inv w3" "only_joined c w2 w3"
    "cl_fdbJoined (client w3 c) = None"
    using quitAllFdb_always [OF w2(1), of c] c w1(2) w2(2) by auto
  obtain j where j: "\<And>d. client w3 d = (if d = c then (client w2 c)\<lparr>cl_fdbJoined := j\<rparr> else client w2 d)"
    and l3: "length (vn_clients w3) = length (vn_clients w)"
    using w3(2) w1(2) w2(2) unfolding only_joined_def by auto
  note q3 = quitAllFdb_frame [OF q]
  have cl3: "cl_isClosed (client w3 c)" "cl_chanClosed (client w3 c)" "cl_isClient (client w3 c) = cl_isClient (client w c)"
    "vn_Vids w3 = vn_Vids w" "vn_ClientMaster w3 = vn_ClientMaster w" "cl_master (client w3 c) = cl_master (client w c)"
    "\<And>d. d \<noteq> c \<Longrightarrow> client w3 d = client w d"
    using j cl2 w1 w2 rest_ofD [of w3 w2] q3 by simp_all
  have "Close choice c w = bind_res (if masters_follow w c then updateMasterFdb choice w3 else Inr w3)
      (\<lambda>w. Inr (None, w))"
    using o io q c w1(8) cl3(3,4)
    by (simp add: Close_def IsClose_def close_pktchan_def hbTimerReset_def upd_hb_def Let_def masters_follow_def)
  moreover have "vn_pkts w3 = vn_pkts w" "length (registry w3) \<le> length (registry w)"
    "vn_obcDevSlot w3 = vn_obcDevSlot w2" "vn_tcMap w3 = vn_tcMap w2"
    using q3 w2(3,4) rest_ofD [of w3 w2] by simp_all
  ultimately show thesis using that w3(1,3) cl3 l3 w2(7) by metis
qed



end
