(* ===== verification/Vnet_Delivery.thy ===== *)
theory Vnet_Delivery
  imports Vnet_Link
begin

text \<open>
  The message with the identifiers from one end of a link to the other: what \<open>reportFdbMsg\<close> of
  \<open>vid.go\<close> puts on the channel of a client, and what \<open>Read\<close> and \<open>FdbIdsMsgPktHandle\<close> of the other
  side make of it, for any number of identifiers.
\<close>

section \<open>The sender\<close>

text \<open>The buffer has room for 761 identifiers; \<open>SetDataLen\<close> panics on more.\<close>

lemma reportFdbMsg_panics:
  assumes ok: "pkts_ok w" and n: "length (GetFdbJoinIds w (report_source w c)) > 761"
  shows "reportFdbMsg choice c w = Inl (PanicMsg ''SetDataLen'')"
proof -
  obtain a s where g: "getPktBuf choice c w = (a, w\<lparr>vn_pkts := s\<rparr>)" "length (pb_buf (pkt s a)) = 1528"
    using getPktBuf_ok [OF ok, of choice c] by metis
  have "joined (w\<lparr>vn_pkts := s\<rparr>) d = joined w d" for d by (simp add: joined_def)
  then have m: "int (length (vid_bytes (keys (joined w (report_source w c))))) + 6 > 1528"
    using n by (simp add: GetFdbJoinIds_def)
  have "assembleFdbIdsHead (take 6 (pb_buf (pkt s a))) i = Inr (head_bytes FdbIdsMsg (word_of_int i) 0 0)" for i
    using assemblePktHead_eq [of "take 6 (pb_buf (pkt s a))" FdbIdsMsg i 0] g(2)
    by (simp add: assembleFdbIdsHead_def)
  then show ?thesis
    using g m unfolding reportFdbMsg_def report_source_def
    by (simp add: Let_def PktHeaderSize_def SetDataLen_def pktBufSize_def joined_def)
qed

section \<open>The receiver\<close>

text \<open>A client with an empty buffer that takes packets of the usual size.\<close>

definition receiver :: "vnet \<Rightarrow> nat \<Rightarrow> nat \<Rightarrow> bool" where
  "receiver v d b \<longleftrightarrow> b < length (ps_heap (vn_pkts v)) \<and> pb_len (pkt (vn_pkts v) b) = 0
     \<and> length (pb_buf (pkt (vn_pkts v) b)) = 1528 \<and> cl_maxSize (client v d) = L2PktMaxSize"

lemma Read_fdb_ids:
  assumes r: "receiver v d b" and x: "length x \<le> 1522"
  obtains pb where "vnetConn_Read lib u key choice d (head_bytes FdbIdsMsg (word_of_nat (length x)) vid 0 @ x @ rest) b v
    = (if length x \<le> 1514
       then bind_res (handleFdbIdsMsg choice d x (set_pkt b pb v)) (\<lambda>(err, v). Inr (int (length x), err, rest, v))
       else Inr (0, Some PktLenRange, x @ rest, set_pkt b pb v))"
proof -
  let ?l = "word_of_nat (length x) :: u16" and ?n = "length x"
  have b: "b < length (ps_heap (vn_pkts v))" "pb_len (pkt (vn_pkts v) b) = 0"
    "length (pb_buf (pkt (vn_pkts v) b)) = 1528" and m: "cl_maxSize (client v d) = 1514"
    using r by (simp_all add: receiver_def L2PktMaxSize_def)
  have l: "uint ?l = int ?n" using x by (subst unsigned_of_nat) (simp add: take_bit_nat_eq_self)
  obtain pb y where R: "vnetConn_Read lib u key choice d (head_bytes FdbIdsMsg ?l vid 0 @ (x @ rest)) b v
      = FdbIdsMsgPktHandle lib u key choice d (x @ rest) b
          \<lparr>ph_pktType = FdbIdsMsg, ph_pktLen = ?l, ph_vid = vid, ph_pktCrypt = 0\<rparr> (set_pkt b pb v)"
    "pb = (pkt (vn_pkts v) b)\<lparr>pb_len := 6, pb_buf := head_bytes FdbIdsMsg ?l vid 0 @ y\<rparr>" "length y = 1522"
    by (rule Read_header [OF b, of lib u key choice d FdbIdsMsg ?l vid 0 "x @ rest"]) (simp add: that)
  show thesis
  proof (cases "?n \<le> 1514")
    case False
    then show thesis using R(1) l m by (intro that [of pb]) (simp add: FdbIdsMsgPktHandle_def)
  next
    case True
    let ?s = "\<lparr>sl_arr = pb_buf pb, sl_off = 6, sl_len = ?n\<rparr>"
    let ?p = "pb\<lparr>pb_len := 6 + ?l, pb_buf := head_bytes FdbIdsMsg ?l vid 0 @ x @ drop ?n y\<rparr>"
    have 1: "LoadAndUseBuf pb ?l = Inr (?s, pb\<lparr>pb_len := 6 + ?l\<rparr>)"
      using claim_space [of pb ?n] R(3) True by (simp add: R(2))
    have 2: "read_window ?s (pb\<lparr>pb_len := 6 + ?l\<rparr>) (x @ rest) = (?n, None, rest, ?p)"
      by (simp add: read_window_eq overwrite_def R(2))
    have "sl_list (?s\<lparr>sl_arr := pb_buf ?p\<rparr>) = x" by (simp add: sl_list_def)
    then show thesis
      using R(1) l m True b(1) 1 2
      by (intro that [of ?p]) (simp add: FdbIdsMsgPktHandle_def set_pkt_fuse Let_def)
  qed
qed

section \<open>From one end to the other\<close>

text \<open>
  C13: the report of an open client. With up to 761 identifiers it puts one packet on the client's
  channel, held by the channel alone, and leaves the bridges as they are; its bytes are read on the
  other side as the identifiers the client (or its master) is in, modulo $2^{16}$, and up to 757 of
  them are handed to \<open>handleFdbIdsMsg\<close>, whatever follows in the stream. A message with 758 to 761
  identifiers is longer than \<open>maxSize\<close> and is refused as out of range; with more than 761 the
  sender panics in \<open>SetDataLen\<close>. The packet is one that no cipher has encrypted.
\<close>

theorem reportFdbMsg_delivers:
  assumes "pkts_ok w" and "c < length (vn_clients w)" and "\<not> IsClose w c"
    and "\<not> cl_chanClosed (client w c)"
  shows "let ids = GetFdbJoinIds w (report_source w c) in
    if length ids > 761 then reportFdbMsg choice c w = Inl (PanicMsg ''SetDataLen'')
    else \<exists>w' a bytes. reportFdbMsg choice c w = Inr w' \<and> pkts_ok w'
      \<and> cl_pktchan (client w' c) = cl_pktchan (client w c) @ [a]
      \<and> pb_ref (pkt (vn_pkts w') a) = 1 \<and> vn_fdbs w' = vn_fdbs w
      \<and> map_sum id sl_list (LoadData (pkt (vn_pkts w') a)) = Inr bytes
      \<and> read_vids (drop 6 bytes) = map (\<lambda>i. i mod 65536) ids
      \<and> (\<forall>v d b lib u key choice' rest. receiver v d b \<longrightarrow>
          (\<exists>pb. vnetConn_Read lib u key choice' d (bytes @ rest) b v =
            (if length ids \<le> 757
             then bind_res (handleFdbIdsMsg choice' d (drop 6 bytes) (set_pkt b pb v))
               (\<lambda>(err, v). Inr (2 * int (length ids), err, rest, v))
             else Inr (0, Some PktLenRange, drop 6 bytes @ rest, set_pkt b pb v))))"
proof (cases "length (GetFdbJoinIds w (report_source w c)) > 761")
  case True
  then show ?thesis using reportFdbMsg_panics [OF assms(1) True] by simp
next
  case False
  let ?ids = "GetFdbJoinIds w (report_source w c)"
  have n: "length ?ids \<le> 761" using False by simp
  obtain w' a where w': "reportFdbMsg choice c w = Inr w'" "pkts_ok w'"
    "client w' = (client w)(c := (client w c)\<lparr>cl_pktchan := cl_pktchan (client w c) @ [a]\<rparr>)"
    "pb_ref (pkt (vn_pkts w') a) = 1"
    "map_sum id sl_list (LoadData (pkt (vn_pkts w') a)) = Inr (report_bytes ?ids)"
    "vn_fdbs w' = vn_fdbs w"
    using reportFdbMsg_ok [OF assms n] .
  have bytes: "report_bytes ?ids = head_bytes FdbIdsMsg (word_of_nat (length (vid_bytes ?ids))) 0 0 @ vid_bytes ?ids"
    by (simp add: report_bytes_def)
  have x: "length (vid_bytes ?ids) \<le> 1522" using n by simp
  have "\<exists>pb. vnetConn_Read lib u key choice' d (report_bytes ?ids @ rest) b v =
      (if length ?ids \<le> 757
       then bind_res (handleFdbIdsMsg choice' d (drop 6 (report_bytes ?ids)) (set_pkt b pb v))
         (\<lambda>(err, v). Inr (2 * int (length ?ids), err, rest, v))
       else Inr (0, Some PktLenRange, drop 6 (report_bytes ?ids) @ rest, set_pkt b pb v))"
    if "receiver v d b" for v d b lib u key choice' rest
    by (rule Read_fdb_ids [OF that x, of lib u key choice' 0 rest]) (auto simp: bytes)
  moreover have "read_vids (drop 6 (report_bytes ?ids)) = map (\<lambda>i. i mod 65536) ?ids"
    by (simp add: report_bytes_def read_vids_vid_bytes)
  ultimately show ?thesis
    using False w' unfolding Let_def if_not_P [OF False]
    by (intro exI [of _ w'] exI [of _ a] exI [of _ "report_bytes ?ids"]) simp
qed

theorem reportFdbMsg_delivers_witness:
  "\<exists>w' a bytes. reportFdbMsg None 1 two_masters = Inr w'
    \<and> cl_pktchan (client w' 1) = [a]
    \<and> map_sum id sl_list (LoadData (pkt (vn_pkts w') a)) = Inr bytes
    \<and> read_vids (drop 6 bytes) = [5]
    \<and> (\<exists>pb. vnetConn_Read toy_lib True [] None 1 (bytes @ [77]) 0 receiving =
        bind_res (handleFdbIdsMsg None 1 (drop 6 bytes) (set_pkt 0 pb receiving))
          (\<lambda>(err, v). Inr (2, err, [77], v)))"
proof -
  have "pkts_ok two_masters" "1 < length (vn_clients two_masters)" "\<not> IsClose two_masters 1"
    "\<not> cl_chanClosed (client two_masters 1)"
    and ids: "GetFdbJoinIds two_masters (report_source two_masters 1) = [5]"
    and "cl_pktchan (client two_masters 1) = []"
    by (simp_all add: two_masters_fields IsClose_def report_source_def GetFdbJoinIds_def joined_def)
      (simp add: master_client_def two_clients_def NewClient_def Let_def new_world_def client_def)
  moreover have "receiver receiving 1 0"
    by (simp add: receiver_def receiving_def two_clients_fields zero_PktBuf_def pktBufSize_def L2PktMaxSize_def)
  ultimately show ?thesis
    using reportFdbMsg_delivers [of two_masters 1 None] by (simp add: Let_def) blast
qed

end
