(* ===== verification/Go_Slice.thy ===== *)
theory Go_Slice
  imports Go_Prelude
begin

text \<open>
  Big-endian fields of a slice, as the header types of the packages \<open>netstat\<close> and \<open>nat\<close> read and
  write them. A write goes through the slice to its array, which other slices share, so a setter
  returns the slice with the new array. An access beyond the slice panics.
\<close>

definition sl_u16 :: "byte gslice \<Rightarrow> nat \<Rightarrow> u16 res" where
  "sl_u16 s i = bind_res (sl_from s i) (\<lambda>t. Uint16_at (sl_list t) 0)"

definition sl_u32 :: "byte gslice \<Rightarrow> nat \<Rightarrow> u32 res" where
  "sl_u32 s i = bind_res (sl_slice s i (i + 4)) (\<lambda>t. Uint32_at (sl_list t) 0)"

text \<open>\<open>binary.BigEndian.PutUint16(s[i:], v)\<close>, \<open>PutUint32(s[i:i+4], v)\<close>\<close>

definition sl_put :: "byte gslice \<Rightarrow> nat \<Rightarrow> byte list \<Rightarrow> byte gslice" where
  "sl_put s i bs = s\<lparr>sl_arr := overwrite (sl_arr s) (sl_off s + i) bs\<rparr>"

definition sl_put16 :: "byte gslice \<Rightarrow> nat \<Rightarrow> u16 \<Rightarrow> byte gslice res" where
  "sl_put16 s i v =
     (if i > sl_len s then Inl SliceOutOfRange
      else if i + 1 < sl_len s then Inr (sl_put s i (bytes16 v))
      else Inl IndexOutOfRange)"

definition sl_put32 :: "byte gslice \<Rightarrow> nat \<Rightarrow> u32 \<Rightarrow> byte gslice res" where
  "sl_put32 s i v = bind_res (sl_slice s i (i + 4)) (\<lambda>t. Inr (sl_put s i (bytes32 v)))"

section \<open>Reads inside the slice\<close>

lemma sl_u16_ok:
  assumes "sl_wf s" and "i + 2 \<le> sl_len s"
  shows "sl_u16 s i = Inr (be16 (sl_list s ! i) (sl_list s ! (i + 1)))"
proof -
  let ?t = "s\<lparr>sl_off := sl_off s + i, sl_len := sl_len s - i\<rparr>"
  have f: "sl_from s i = Inr ?t"
    using assms by (auto simp: sl_from_def sl_slice_def sl_cap_def sl_wf_def)
  have w: "sl_wf ?t" using assms by (simp add: sl_wf_def)
  have "sl_list ?t ! j = sl_list s ! (i + j)" if "j < 2" for j
    using sl_list_nth [OF w, of j] sl_list_nth [OF assms(1), of "i + j"] assms(2) that
    by (simp add: add.assoc)
  from this [of 0] this [of 1] show ?thesis
    using f assms(2) length_sl_list [OF w] by (simp add: sl_u16_def Uint16_at_def)
qed

lemma sl_u32_ok:
  assumes "sl_wf s" and "i + 4 \<le> sl_len s"
  shows "sl_u32 s i = Inr (be32 (sl_list s ! i) (sl_list s ! (i + 1)) (sl_list s ! (i + 2)) (sl_list s ! (i + 3)))"
proof -
  let ?t = "s\<lparr>sl_off := sl_off s + i, sl_len := 4\<rparr>"
  have f: "sl_slice s i (i + 4) = Inr ?t"
    using assms by (auto simp: sl_slice_def sl_cap_def sl_wf_def)
  have w: "sl_wf ?t" using assms by (simp add: sl_wf_def)
  have "sl_list ?t ! j = sl_list s ! (i + j)" if "j < 4" for j
    using sl_list_nth [OF w, of j] sl_list_nth [OF assms(1), of "i + j"] assms(2) that
    by (simp add: add.assoc)
  from this [of 0] this [of 1] this [of 2] this [of 3] show ?thesis
    using f length_sl_list [OF w] by (simp add: sl_u32_def Uint32_at_def numeral_2_eq_2)
qed

lemma sl_index_ok: "sl_wf s \<Longrightarrow> i < sl_len s \<Longrightarrow> sl_index s i = Inr (sl_list s ! i)"
  by (simp add: sl_index_def sl_list_nth)

section \<open>Writes inside the slice\<close>

lemma sl_put_simps [simp]:
  "sl_off (sl_put s i bs) = sl_off s" "sl_len (sl_put s i bs) = sl_len s"
  by (simp_all add: sl_put_def)

lemma sl_put_wf [simp]: "sl_wf s \<Longrightarrow> i + length bs \<le> sl_len s \<Longrightarrow> sl_wf (sl_put s i bs)"
  by (simp add: sl_put_def sl_wf_def)

lemma sl_put_length: "sl_wf s \<Longrightarrow> i + length bs \<le> sl_len s \<Longrightarrow> length (sl_arr (sl_put s i bs)) = length (sl_arr s)"
  by (simp add: sl_put_def sl_wf_def)

lemma sl_put_list:
  assumes "sl_wf s" and "i + length bs \<le> sl_len s"
  shows "sl_list (sl_put s i bs) = overwrite (sl_list s) i bs"
proof (rule nth_equalityI)
  have w: "sl_wf (sl_put s i bs)" using assms by simp
  show l: "length (sl_list (sl_put s i bs)) = length (overwrite (sl_list s) i bs)"
    using length_sl_list [OF w] length_sl_list [OF assms(1)] assms(2) by simp
  fix k
  assume k: "k < length (sl_list (sl_put s i bs))"
  then have k': "k < sl_len s" using length_sl_list [OF w] by simp
  have b: "sl_off s + i + length bs \<le> length (sl_arr s)" "sl_off s + k < length (sl_arr s)"
    using assms k' by (auto simp: sl_wf_def)
  have "sl_list (sl_put s i bs) ! k = overwrite (sl_arr s) (sl_off s + i) bs ! (sl_off s + k)"
    using sl_list_nth [OF w, of k] k' by (simp add: sl_put_def)
  also have "\<dots> = (if i \<le> k \<and> k < i + length bs then bs ! (k - i) else sl_list s ! k)"
    using b k' sl_list_nth [OF assms(1) k'] by (simp add: nth_overwrite)
  also have "\<dots> = overwrite (sl_list s) i bs ! k"
    using k' length_sl_list [OF assms(1)] assms(2) by (simp add: nth_overwrite)
  finally show "sl_list (sl_put s i bs) ! k = overwrite (sl_list s) i bs ! k" .
qed

lemma sl_put16_ok: "sl_wf s \<Longrightarrow> i + 2 \<le> sl_len s \<Longrightarrow> sl_put16 s i v = Inr (sl_put s i (bytes16 v))"
  by (simp add: sl_put16_def)

lemma sl_put32_ok: "sl_wf s \<Longrightarrow> i + 4 \<le> sl_len s \<Longrightarrow> sl_put32 s i v = Inr (sl_put s i (bytes32 v))"
  by (simp add: sl_put32_def sl_slice_def sl_cap_def sl_wf_def)

end
