(* ===== verification/Netstat_Headers.thy ===== *)
theory Netstat_Headers
  imports Go_Slice Packet_Buf Packet_Ether
begin

text \<open>
  Package \<open>netstat\<close>, files \<open>ipv4.go\<close>, \<open>udp.go\<close> and \<open>tcp.go\<close>: the fields of the headers that the
  statistics read, as accessors of the slice that starts at the header. The offsets are the
  constants of the files; a read beyond the slice panics.
\<close>

section \<open>IPv4\<close>

definition IPv4Version :: byte where "IPv4Version = 4"

definition Protocol :: "byte gslice \<Rightarrow> byte res" where
  "Protocol b = sl_index b 9"

definition IPVersion :: "byte gslice \<Rightarrow> int res" where
  "IPVersion b =
     (if sl_len b < 1 then Inr (- 1)
      else bind_res (sl_index b 0) (\<lambda>v. Inr (uint (drop_bit 4 v))))"

definition IsIPv4 :: "byte gslice \<Rightarrow> bool res" where
  "IsIPv4 b = bind_res (sl_index b 0) (\<lambda>v. Inr (drop_bit 4 v = IPv4Version))"

definition HeaderLength :: "byte gslice \<Rightarrow> byte res" where
  "HeaderLength b = bind_res (sl_index b 0) (\<lambda>v. Inr ((v AND 0xf) * 4))"

definition SourceAddress :: "byte gslice \<Rightarrow> u32 res" where
  "SourceAddress b = sl_u32 b 12"

definition DestinationAddress :: "byte gslice \<Rightarrow> u32 res" where
  "DestinationAddress b = sl_u32 b 16"

definition FragmentOffset :: "byte gslice \<Rightarrow> u16 res" where
  "FragmentOffset b = bind_res (sl_u16 b 6) (\<lambda>v. Inr (push_bit 3 v))"

section \<open>UDP and TCP\<close>

definition UDP_SourcePort :: "byte gslice \<Rightarrow> u16 res" where
  "UDP_SourcePort b = sl_u16 b 0"

definition UDP_DestinationPort :: "byte gslice \<Rightarrow> u16 res" where
  "UDP_DestinationPort b = sl_u16 b 2"

definition TCPFlagFin :: byte where "TCPFlagFin = 1"
definition TCPFlagSyn :: byte where "TCPFlagSyn = 2"
definition TCPFlagRst :: byte where "TCPFlagRst = 4"
definition TCPFlagPsh :: byte where "TCPFlagPsh = 8"
definition TCPFlagAck :: byte where "TCPFlagAck = 16"
definition TCPFlagUrg :: byte where "TCPFlagUrg = 32"

lemmas tcp_flags = TCPFlagFin_def TCPFlagSyn_def TCPFlagRst_def TCPFlagAck_def

definition TCP_SourcePort :: "byte gslice \<Rightarrow> u16 res" where
  "TCP_SourcePort b = sl_u16 b 0"

definition TCP_DestinationPort :: "byte gslice \<Rightarrow> u16 res" where
  "TCP_DestinationPort b = sl_u16 b 2"

definition TCP_Flags :: "byte gslice \<Rightarrow> byte res" where
  "TCP_Flags b = sl_index b 13"

definition IsTCPFlagSyn :: "byte gslice \<Rightarrow> bool res" where
  "IsTCPFlagSyn b = bind_res (TCP_Flags b) (\<lambda>f. Inr (f = TCPFlagSyn))"

definition IsTCPFlagFin :: "byte gslice \<Rightarrow> bool res" where
  "IsTCPFlagFin b = bind_res (TCP_Flags b) (\<lambda>f. Inr (f = TCPFlagFin))"

definition IsTCPFlagRst :: "byte gslice \<Rightarrow> bool res" where
  "IsTCPFlagRst b = bind_res (TCP_Flags b) (\<lambda>f. Inr (f = TCPFlagRst))"

definition IsSyn :: "byte \<Rightarrow> bool" where
  "IsSyn tcpFlag \<longleftrightarrow> tcpFlag = TCPFlagSyn"

definition IsAck :: "byte \<Rightarrow> bool" where
  "IsAck tcpFlag \<longleftrightarrow> tcpFlag = TCPFlagAck"

definition IsSynAck :: "byte \<Rightarrow> bool" where
  "IsSynAck tcpFlag \<longleftrightarrow> tcpFlag AND TCPFlagSyn \<noteq> 0 \<and> tcpFlag AND TCPFlagAck \<noteq> 0"

end
