(* ===== verification/Timer_Service.thy ===== *)
theory Timer_Service
  imports Go_Prelude
begin

text \<open>
  What the users of package \<open>timer\<close> rely on: a timer has a number of ticks left until it is handed
  over, once; stopping and resetting it succeed exactly while that is so. The contract is a locale,
  its consequence for any sequence of operations is proved inside.
\<close>

datatype ('t, 'd) timer_op = New_op 'd | Stop_op 't | Reset_op 't 'd | Tick_op

primrec run_ops ::
  "('d \<Rightarrow> 's \<Rightarrow> 't \<times> 's) \<Rightarrow> ('t \<Rightarrow> 's \<Rightarrow> (bool \<times> 's) res) \<Rightarrow> ('t \<Rightarrow> 'd \<Rightarrow> 's \<Rightarrow> (bool \<times> 's) res) \<Rightarrow>
   ('s \<Rightarrow> 't list \<times> 's) \<Rightarrow> ('t, 'd) timer_op list \<Rightarrow> 's \<Rightarrow> ('t list \<times> 's) res"
where
  "run_ops new stop reset tick [] s = Inr ([], s)"
| "run_ops new stop reset tick (p # ps) s =
     (case p of
        New_op d \<Rightarrow> run_ops new stop reset tick ps (snd (new d s))
      | Stop_op t \<Rightarrow> bind_res (stop t s) (\<lambda>(_, s). run_ops new stop reset tick ps s)
      | Reset_op t d \<Rightarrow> bind_res (reset t d s) (\<lambda>(_, s). run_ops new stop reset tick ps s)
      | Tick_op \<Rightarrow>
          (case tick s of (ts, s) \<Rightarrow>
           bind_res (run_ops new stop reset tick ps s) (\<lambda>(us, s). Inr (ts @ us, s))))"

definition n_ticks :: "('t, 'd) timer_op list \<Rightarrow> nat" where
  "n_ticks ps = length (filter (\<lambda>p. p = Tick_op) ps)"

lemma n_ticks_simps [simp]:
  "n_ticks [] = 0" "n_ticks (Tick_op # ps) = Suc (n_ticks ps)" "n_ticks (New_op d # ps) = n_ticks ps"
  "n_ticks (Stop_op t # ps) = n_ticks ps" "n_ticks (Reset_op t d # ps) = n_ticks ps"
  by (simp_all add: n_ticks_def)

text \<open>Operations on timers that exist, with admissible times, that leave timer \<open>t\<close> alone.\<close>

definition op_ok :: "('d \<Rightarrow> bool) \<Rightarrow> 't set \<Rightarrow> 't \<Rightarrow> ('t, 'd) timer_op \<Rightarrow> bool" where
  "op_ok good K t p = (case p of New_op d \<Rightarrow> good d | Stop_op u \<Rightarrow> u \<in> K \<and> u \<noteq> t
     | Reset_op u d \<Rightarrow> u \<in> K \<and> u \<noteq> t \<and> good d | Tick_op \<Rightarrow> True)"

lemma op_ok_simps [simp]:
  "op_ok good K t (New_op d) = good d" "op_ok good K t (Stop_op u) = (u \<in> K \<and> u \<noteq> t)"
  "op_ok good K t (Reset_op u d) = (u \<in> K \<and> u \<noteq> t \<and> good d)" "op_ok good K t Tick_op"
  by (simp_all add: op_ok_def)

lemma op_ok_mono: "op_ok good K t p \<Longrightarrow> K \<subseteq> K' \<Longrightarrow> op_ok good K' t p"
  by (cases p) auto

lemma count_list_once: "distinct xs \<Longrightarrow> x \<in> set xs \<Longrightarrow> count_list xs x = 1"
  by (induction xs) (auto simp: count_list_0_iff [THEN iffD2])

locale timer_service =
  fixes inv :: "'s \<Rightarrow> bool"
    and left :: "'s \<Rightarrow> 't \<Rightarrow> nat option"
    and known :: "'s \<Rightarrow> 't set"
    and age :: "'s \<Rightarrow> nat"
    and limit :: nat
    and good :: "'d \<Rightarrow> bool"
    and dn :: "'d \<Rightarrow> nat"
    and dr :: "'d \<Rightarrow> nat"
    and new :: "'d \<Rightarrow> 's \<Rightarrow> 't \<times> 's"
    and stop :: "'t \<Rightarrow> 's \<Rightarrow> (bool \<times> 's) res"
    and reset :: "'t \<Rightarrow> 'd \<Rightarrow> 's \<Rightarrow> (bool \<times> 's) res"
    and tick :: "'s \<Rightarrow> 't list \<times> 's"
  assumes left_known: "inv s \<Longrightarrow> left s t \<noteq> None \<Longrightarrow> t \<in> known s"
    and new: "inv s \<Longrightarrow> age s < limit \<Longrightarrow> good d \<Longrightarrow> new d s = (t, s') \<Longrightarrow>
      inv s' \<and> t \<notin> known s \<and> known s' = insert t (known s) \<and> age s' = age s
      \<and> left s' = (left s)(t \<mapsto> dn d)"
    and stop: "inv s \<Longrightarrow> t \<in> known s \<Longrightarrow>
      \<exists>s'. stop t s = Inr (left s t \<noteq> None, s') \<and> inv s' \<and> known s' = known s \<and> age s' = age s
        \<and> left s' = (left s)(t := None)"
    and reset: "inv s \<Longrightarrow> age s < limit \<Longrightarrow> good d \<Longrightarrow> t \<in> known s \<Longrightarrow>
      \<exists>s'. reset t d s = Inr (left s t \<noteq> None, s') \<and> inv s' \<and> known s' = known s \<and> age s' = age s
        \<and> left s' = (if left s t = None then left s else (left s)(t \<mapsto> dr d))"
    and tick: "inv s \<Longrightarrow> age s < limit \<Longrightarrow> tick s = (ts, s') \<Longrightarrow>
      inv s' \<and> known s' = known s \<and> age s' = Suc (age s) \<and> distinct ts
      \<and> set ts = {t. left s t = Some 0}
      \<and> left s' = (\<lambda>t. case left s t of Some (Suc n) \<Rightarrow> Some n | _ \<Rightarrow> None)"
begin

abbreviation runs :: "('t, 'd) timer_op list \<Rightarrow> 's \<Rightarrow> ('t list \<times> 's) res" where
  "runs \<equiv> run_ops new stop reset tick"

text \<open>One operation that leaves \<open>t\<close> alone.\<close>

lemma step:
  assumes i: "inv s" and b: "age s + n_ticks (p # ps) < limit" and ok: "op_ok good (known s) t p"
    and k: "t \<in> known s"
  obtains s' ts where "runs (p # ps) s = bind_res (runs ps s') (\<lambda>(us, s). Inr (ts @ us, s))"
    and "inv s'" and "known s \<subseteq> known s'" and "age s' + n_ticks ps < limit"
    and "p \<noteq> Tick_op \<Longrightarrow> ts = [] \<and> left s' t = left s t"
    and "p = Tick_op \<Longrightarrow> distinct ts \<and> (t \<in> set ts \<longleftrightarrow> left s t = Some 0)
      \<and> left s' t = (case left s t of Some (Suc n) \<Rightarrow> Some n | _ \<Rightarrow> None)"
proof -
  have a: "age s < limit" using b by simp
  have r: "bind_res x (\<lambda>(us, s). Inr ([] @ us, s)) = x" for x :: "('t list \<times> 's) res"
    by (cases x) auto
  show thesis
  proof (cases p)
    case (New_op d)
    obtain u s' where n: "new d s = (u, s')" by fastforce
    have "inv s' \<and> u \<notin> known s \<and> known s' = insert u (known s) \<and> age s' = age s \<and> left s' = (left s)(u \<mapsto> dn d)"
      by (rule new [OF i a _ n]) (use ok New_op in simp)
    then show ?thesis
      using k b New_op n by (intro that [of s' "[]"]) (auto simp: r [simplified])
  next
    case (Stop_op u)
    then obtain s' where "stop u s = Inr (left s u \<noteq> None, s')" "inv s'" "known s' = known s" "age s' = age s"
      "left s' = (left s)(u := None)" using stop [OF i, of u] ok by auto
    then show ?thesis using k b Stop_op ok by (intro that [of s' "[]"]) (auto simp: r [simplified])
  next
    case (Reset_op u d)
    then obtain s' where "reset u d s = Inr (left s u \<noteq> None, s')" "inv s'" "known s' = known s" "age s' = age s"
      "left s' = (if left s u = None then left s else (left s)(u \<mapsto> dr d))"
      using reset [OF i a, of d u] ok by auto
    then show ?thesis using k b Reset_op ok by (intro that [of s' "[]"]) (auto simp: r [simplified])
  next
    case Tick_op
    obtain ts s' where "tick s = (ts, s')" by fastforce
    then show ?thesis
      using tick [OF i a] b Tick_op by (intro that [of s' ts]) (auto split: option.splits nat.splits)
  qed
qed

text \<open>A timer that is not running is never handed over.\<close>

lemma stays_silent:
  assumes "inv s" and "t \<in> known s" and "left s t = None" and "age s + n_ticks ps < limit"
    and "\<forall>p \<in> set ps. op_ok good (known s) t p"
  shows "\<exists>us s'. runs ps s = Inr (us, s') \<and> inv s' \<and> t \<notin> set us \<and> left s' t = None"
  using assms
proof (induction ps arbitrary: s)
  case (Cons p ps)
  obtain s' ts where st: "runs (p # ps) s = bind_res (runs ps s') (\<lambda>(us, s). Inr (ts @ us, s))"
    "inv s'" "known s \<subseteq> known s'" "age s' + n_ticks ps < limit"
    "p \<noteq> Tick_op \<Longrightarrow> ts = [] \<and> left s' t = left s t"
    "p = Tick_op \<Longrightarrow> distinct ts \<and> (t \<in> set ts \<longleftrightarrow> left s t = Some 0)
      \<and> left s' t = (case left s t of Some (Suc n) \<Rightarrow> Some n | _ \<Rightarrow> None)"
    by (rule step [OF Cons.prems(1,4) _ Cons.prems(2)]) (use Cons.prems(5) that in auto)
  have l: "left s' t = None" "t \<notin> set ts" using st(5,6) Cons.prems(3) by (cases "p = Tick_op"; simp)+
  have "\<forall>q \<in> set ps. op_ok good (known s') t q"
    using Cons.prems(5) op_ok_mono [OF _ st(3)] by auto
  then obtain us s'' where "runs ps s' = Inr (us, s'')" "inv s''" "t \<notin> set us" "left s'' t = None"
    using Cons.IH [OF st(2) _ l(1) st(4)] Cons.prems(2) st(3) by blast
  then show ?case using st(1) l(2) by simp
qed simp

text \<open>
  A timer with \<open>n\<close> ticks left, whatever happens to the others, is not handed over in the first
  \<open>n\<close> ticks, is handed over in the next one, and never again.
\<close>

lemma fires_once:
  assumes "inv s" and "left s t = Some n" and "age s + n_ticks ps < limit"
    and "\<forall>p \<in> set ps. op_ok good (known s) t p"
  shows "\<exists>us s'. runs ps s = Inr (us, s') \<and> inv s' \<and>
    (if n_ticks ps \<le> n then t \<notin> set us \<and> left s' t = Some (n - n_ticks ps)
     else count_list us t = 1 \<and> left s' t = None)"
  using assms
proof (induction ps arbitrary: s n)
  case (Cons p ps)
  have k: "t \<in> known s" using left_known [OF Cons.prems(1), of t] Cons.prems(2) by simp
  obtain s' ts where st: "runs (p # ps) s = bind_res (runs ps s') (\<lambda>(us, s). Inr (ts @ us, s))"
    "inv s'" "known s \<subseteq> known s'" "age s' + n_ticks ps < limit"
    "p \<noteq> Tick_op \<Longrightarrow> ts = [] \<and> left s' t = left s t"
    "p = Tick_op \<Longrightarrow> distinct ts \<and> (t \<in> set ts \<longleftrightarrow> left s t = Some 0)
      \<and> left s' t = (case left s t of Some (Suc n) \<Rightarrow> Some n | _ \<Rightarrow> None)"
    by (rule step [OF Cons.prems(1,3) _ k]) (use Cons.prems(4) that in auto)
  have ok: "\<forall>q \<in> set ps. op_ok good (known s') t q"
    using Cons.prems(4) op_ok_mono [OF _ st(3)] by auto
  show ?case
  proof (cases "p = Tick_op")
    case False
    have "left s' t = Some n" using st(5) [OF False] Cons.prems(2) by simp
    then obtain us s'' where r: "runs ps s' = Inr (us, s'')" "inv s''"
      "if n_ticks ps \<le> n then t \<notin> set us \<and> left s'' t = Some (n - n_ticks ps)
       else count_list us t = 1 \<and> left s'' t = None"
      using Cons.IH [OF st(2) _ st(4) ok] by blast
    have "n_ticks (p # ps) = n_ticks ps" using False by (simp add: n_ticks_def)
    then show ?thesis using st(1) st(5) [OF False] r by simp
  next
    case True
    show ?thesis
    proof (cases n)
      case 0
      then have "left s' t = None" "t \<in> set ts" "distinct ts" using st(6) [OF True] Cons.prems(2) by simp_all
      then have c: "count_list ts t = 1" by (simp add: count_list_once)
      have "t \<in> known s'" using k st(3) by blast
      then obtain us s'' where "runs ps s' = Inr (us, s'')" "inv s''" "t \<notin> set us" "left s'' t = None"
        using stays_silent [OF st(2) _ \<open>left s' t = None\<close> st(4) ok] by blast
      then show ?thesis using st(1) c 0 True by (simp add: count_list_0_iff [THEN iffD2])
    next
      case (Suc m)
      then have "left s' t = Some m" "t \<notin> set ts" using st(6) [OF True] Cons.prems(2) by simp_all
      moreover obtain us s'' where "runs ps s' = Inr (us, s'')" "inv s''"
        "if n_ticks ps \<le> m then t \<notin> set us \<and> left s'' t = Some (m - n_ticks ps)
         else count_list us t = 1 \<and> left s'' t = None"
        using Cons.IH [OF st(2) \<open>left s' t = Some m\<close> st(4) ok] by blast
      ultimately show ?thesis using st(1) Suc True by (simp add: count_list_0_iff [THEN iffD2] split: if_splits)
    qed
  qed
qed simp

end

end
