(* ===== verification/Timer_Pending.thy ===== *)
theory Timer_Pending
  imports Timer_Service
begin

text \<open>
  What the clients of the package \<open>timer\<close> see of it: a timer is pending until its time, then its
  function is handed to a goroutine that runs it some time later, and \<open>Stop\<close> and \<open>Reset\<close> succeed
  exactly while it is pending. The same contract that the wheel fulfils, with the clock as a number.
\<close>

record 'f timers =
  tm_pending :: "(nat \<times> int \<times> 'f) list"
  tm_running :: "'f list"
  tm_next :: nat

definition NewTimerFunc :: "int \<Rightarrow> int \<Rightarrow> 'f \<Rightarrow> 'f timers \<Rightarrow> nat \<times> 'f timers" where
  "NewTimerFunc now d f ts =
     (tm_next ts, ts\<lparr>tm_pending := tm_pending ts @ [(tm_next ts, now + d, f)], tm_next := Suc (tm_next ts)\<rparr>)"

definition Timer_Stop :: "nat \<Rightarrow> 'f timers \<Rightarrow> bool \<times> 'f timers" where
  "Timer_Stop t ts =
     (map_of (tm_pending ts) t \<noteq> None, ts\<lparr>tm_pending := AList.delete t (tm_pending ts)\<rparr>)"

definition Timer_Reset :: "int \<Rightarrow> nat \<Rightarrow> int \<Rightarrow> 'f timers \<Rightarrow> bool \<times> 'f timers" where
  "Timer_Reset now t d ts =
     (case map_of (tm_pending ts) t of
        None \<Rightarrow> (False, ts)
      | Some (_, f) \<Rightarrow>
          (True, ts\<lparr>tm_pending := AList.delete t (tm_pending ts) @ [(t, now + d, f)]\<rparr>))"

text \<open>The clock: the timers that are due are handed over.\<close>

definition timers_due :: "int \<Rightarrow> 'f timers \<Rightarrow> 'f timers" where
  "timers_due now ts = ts\<lparr>
     tm_pending := filter (\<lambda>(t, due, f). now < due) (tm_pending ts),
     tm_running := tm_running ts @ map (\<lambda>(t, due, f). f) (filter (\<lambda>(t, due, f). due \<le> now) (tm_pending ts))\<rparr>"

section \<open>The service\<close>

definition pending_tick :: "'f timers \<times> int \<Rightarrow> nat list \<times> ('f timers \<times> int)" where
  "pending_tick s =
     (map fst (filter (\<lambda>(t, due, f). due \<le> snd s + 1) (tm_pending (fst s))), timers_due (snd s + 1) (fst s), snd s + 1)"

definition pending_left :: "'f timers \<times> int \<Rightarrow> nat \<Rightarrow> nat option" where
  "pending_left s t = map_option (\<lambda>(due, f). nat (due - snd s - 1)) (map_of (tm_pending (fst s)) t)"

definition pending_inv :: "'f timers \<times> int \<Rightarrow> bool" where
  "pending_inv s \<longleftrightarrow> 0 \<le> snd s \<and> map_wf (tm_pending (fst s))
     \<and> (\<forall>(t, due, f) \<in> set (tm_pending (fst s)). t < tm_next (fst s) \<and> snd s \<le> due)"

lemma pending_invD:
  assumes "pending_inv s" and "map_of (tm_pending (fst s)) t = Some (due, f)"
  shows "t < tm_next (fst s)" "snd s \<le> due"
  using assms map_of_SomeD by (fastforce simp: pending_inv_def)+

lemma map_of_filter_wf:
  "map_wf m \<Longrightarrow> map_of (filter P m) k = (case map_of m k of Some v \<Rightarrow> if P (k, v) then Some v else None | None \<Rightarrow> None)"
  by (induction m) (auto simp: map_of_eq_None_iff split: option.splits)

interpretation pending: timer_service pending_inv pending_left "\<lambda>s. {t. t < tm_next (fst s)}" "\<lambda>s. nat (snd s)"
  L "\<lambda>(d, f). 0 \<le> d" "\<lambda>(d, f). nat (d - 1)" "\<lambda>(d, f). nat (d - 1)"
  "\<lambda>(d, f) (ts, now). let (t, ts) = NewTimerFunc now d f ts in (t, ts, now)"
  "\<lambda>t (ts, now). let (ok, ts) = Timer_Stop t ts in Inr (ok, ts, now)"
  "\<lambda>t (d, f) (ts, now). let (ok, ts) = Timer_Reset now t d ts in Inr (ok, ts, now)"
  pending_tick for L
proof (standard, goal_cases)
  case (1 s t)
  then show ?case using pending_invD(1) [OF 1(1)] by (force simp: pending_left_def)
next
  case (2 s d t s')
  obtain ts now v f where d: "s = (ts, now)" "d = (v, f)" by fastforce
  have "map_of (tm_pending ts) (tm_next ts) = None"
    using pending_invD(1) [OF 2(1), of "tm_next ts"] d by (cases "map_of (tm_pending ts) (tm_next ts)") auto
  then have "tm_next ts \<notin> fst ` set (tm_pending ts)" by (simp add: map_of_eq_None_iff)
  then show ?case
    using 2 d \<open>map_of (tm_pending ts) (tm_next ts) = None\<close>
    by (auto simp: NewTimerFunc_def pending_inv_def pending_left_def map_add_def less_Suc_eq split: option.splits)
next
  case (3 s t)
  obtain ts now where "s = (ts, now)" by fastforce
  then show ?case using 3
    by (auto simp: Timer_Stop_def pending_inv_def pending_left_def set_delete_iff)
next
  case (4 s d t)
  obtain ts now v f where d: "s = (ts, now)" "d = (v, f)" by fastforce
  show ?case
  proof (cases "map_of (tm_pending ts) t")
    case None
    then show ?thesis using 4 d by (auto simp: Timer_Reset_def pending_left_def)
  next
    case (Some x)
    obtain due g where x: "x = (due, g)" by fastforce
    have "t \<notin> fst ` set (AList.delete t (tm_pending ts))" by simp
    then show ?thesis using 4 d Some x
      by (auto simp: Timer_Reset_def pending_left_def pending_inv_def set_delete_iff map_add_def split: option.splits)
  qed
next
  case (5 s ts s')
  obtain tms now where s: "s = (tms, now)" by fastforce
  have w: "map_wf (tm_pending tms)" and n: "0 \<le> now" using 5 s by (simp_all add: pending_inv_def)
  have e: "ts = map fst (filter (\<lambda>(t, due, f). due \<le> now + 1) (tm_pending tms))"
    "s' = (timers_due (now + 1) tms, now + 1)" using 5(3) s by (simp_all add: pending_tick_def)
  have "t \<in> set ts \<longleftrightarrow> (\<exists>due f. map_of (tm_pending tms) t = Some (due, f) \<and> due \<le> now + 1)" for t
    unfolding e map_wf_set_iff [OF w, symmetric] by force
  then have "set ts = {t. pending_left s t = Some 0}" using s by (auto simp: pending_left_def)
  moreover have "distinct ts" using w by (simp add: e(1) distinct_map_filter)
  moreover have "pending_left s' t = (case pending_left s t of Some (Suc n) \<Rightarrow> Some n | _ \<Rightarrow> None)" for t
  proof (cases "map_of (tm_pending tms) t")
    case (Some x)
    obtain due f where "x = (due, f)" by fastforce
    then show ?thesis using Some s
      by (cases "due \<le> now + 1") (simp_all add: e(2) pending_left_def timers_due_def map_of_filter_wf [OF w]
          nat_diff_distrib' Suc_diff_Suc split: nat.splits, linarith)
  qed (simp add: s e(2) pending_left_def timers_due_def map_of_filter_wf [OF w])
  moreover have "pending_inv s'"
    using w n 5(1) s by (auto simp: pending_inv_def e(2) timers_due_def distinct_map_filter)
  ultimately show ?case using n s by (auto simp: e(2) timers_due_def)
qed

end
