(* ===== verification/Netstat_Conntrack.thy ===== *)
theory Netstat_Conntrack
  imports Netstat_Headers Timer_Pending
begin

text \<open>
  Package \<open>netstat\<close>, files \<open>conntrack.go\<close> and \<open>net.go\<close>: the statistics follow the TCP and UDP
  connections of the packets that are forwarded. A \<open>*conntrack\<close> and a \<open>*netConntrack\<close> are
  addresses; the timers are what the package \<open>timer\<close> promises: a timer is pending until its time,
  then its function is handed to a goroutine that runs it some time later, and \<open>Stop\<close> and \<open>Reset\<close>
  succeed exactly while it is pending. Times are in seconds.
\<close>

section \<open>Connections\<close>

record ctTuple =
  ctt_saddr :: u32
  ctt_daddr :: u32
  ctt_sport :: u16
  ctt_dport :: u16
  ctt_proto :: byte

definition ctOrigin :: nat where "ctOrigin = 0"
definition ctReply :: nat where "ctReply = 1"

definition CT_NEW :: byte where "CT_NEW = 0"
definition CT_REPLY :: byte where "CT_REPLY = 1"
definition CT_ESTABLISHED :: byte where "CT_ESTABLISHED = 2"
definition CT_DEL :: byte where "CT_DEL = 3"

definition CT_TCP_SYN_TIMEOUT :: int where "CT_TCP_SYN_TIMEOUT = 3"
definition CT_TCP_SYN_RCVD_TIMEOUT :: int where "CT_TCP_SYN_RCVD_TIMEOUT = 3"
definition CT_TCP_ESTABLISHED_TIMEOUT :: int where "CT_TCP_ESTABLISHED_TIMEOUT = 240"
definition CT_DEL_TIMEOUT :: int where "CT_DEL_TIMEOUT = 10"
definition CT_UDP_NEW_TIMEOUT :: int where "CT_UDP_NEW_TIMEOUT = 15"
definition CT_UDP_ESTABLISHED_TIMEOUT :: int where "CT_UDP_ESTABLISHED_TIMEOUT = 120"

record conntrack =
  ct_status :: byte
  ct_stats :: "u64 list"
  ct_tuple :: "ctTuple list"
  ct_timer :: "nat option"
  ct_nct :: "nat option"
  ct_time :: "int option"
  ct_lastTime :: "int option"
  ct_reported :: bool
  ct_outBound :: bool

record netConntrack =
  nc_netZone :: u16
  nc_conntracks :: "(ctTuple \<times> nat) list"

text \<open>The functions that timers call, with their arguments.\<close>

datatype ct_timeout = ctTimeoutDel nat | ctESTABLISHEDTimeout nat "u64 list"

record netstat =
  ns_cts :: "conntrack list"
  ns_ncts :: "netConntrack list"
  ns_global :: "(u16 \<times> nat) list"
  ns_timers :: "ct_timeout timers"
  ns_now :: int

definition ct_at :: "netstat \<Rightarrow> nat \<Rightarrow> conntrack" where
  "ct_at s c = ns_cts s ! c"

definition upd_ct :: "nat \<Rightarrow> (conntrack \<Rightarrow> conntrack) \<Rightarrow> netstat \<Rightarrow> netstat" where
  "upd_ct c f s = s\<lparr>ns_cts := (ns_cts s)[c := f (ct_at s c)]\<rparr>"

definition upd_nct :: "nat \<Rightarrow> ((ctTuple \<times> nat) list \<Rightarrow> (ctTuple \<times> nat) list) \<Rightarrow> netstat \<Rightarrow> netstat" where
  "upd_nct n f s = s\<lparr>ns_ncts := (ns_ncts s)[n :=
     (ns_ncts s ! n)\<lparr>nc_conntracks := f (nc_conntracks (ns_ncts s ! n))\<rparr>]\<rparr>"

section \<open>Zones\<close>

definition newNetConntrack :: "u16 \<Rightarrow> netstat \<Rightarrow> nat \<times> netstat" where
  "newNetConntrack netZone s =
     (length (ns_ncts s), s\<lparr>ns_ncts := ns_ncts s @ [\<lparr>nc_netZone = netZone, nc_conntracks = []\<rparr>]\<rparr>)"

definition SetNetZone :: "int \<Rightarrow> netstat \<Rightarrow> netstat" where
  "SetNetZone netZone s =
     (let zone = word_of_int netZone in
      if map_of (ns_global s) zone = None then
        let (n, s) = newNetConntrack zone s
        in s\<lparr>ns_global := AList.update zone n (ns_global s)\<rparr>
      else s)"

definition SetNetZones :: "int list \<Rightarrow> netstat \<Rightarrow> netstat" where
  "SetNetZones netZones s = fold SetNetZone netZones s"

definition DelNetZone :: "int \<Rightarrow> netstat \<Rightarrow> netstat" where
  "DelNetZone netZone s = s\<lparr>ns_global := AList.delete (word_of_int netZone) (ns_global s)\<rparr>"

definition DelNetZones :: "int list \<Rightarrow> netstat \<Rightarrow> netstat" where
  "DelNetZones netZones s = fold DelNetZone netZones s"

definition setGlobalConntrack :: "int list \<Rightarrow> netstat \<Rightarrow> netstat" where
  "setGlobalConntrack vids s =
     fold (\<lambda>i s. let (n, s) = newNetConntrack (word_of_int i) s
        in s\<lparr>ns_global := AList.update (word_of_int i) n (ns_global s)\<rparr>) vids s"

definition GetNctByZone :: "netstat \<Rightarrow> u16 \<Rightarrow> nat option" where
  "GetNctByZone s zone = map_of (ns_global s) zone"

section \<open>The table of a zone\<close>

definition findConntrack :: "netstat \<Rightarrow> nat \<Rightarrow> ctTuple \<Rightarrow> nat option" where
  "findConntrack s n t = map_of (nc_conntracks (ns_ncts s ! n)) t"

definition addConntrack :: "nat \<Rightarrow> nat \<Rightarrow> netstat \<Rightarrow> netstat" where
  "addConntrack n c s =
     (let s = upd_nct n (AList.update (ct_tuple (ct_at s c) ! ctOrigin) c) s
      in upd_nct n (AList.update (ct_tuple (ct_at s c) ! ctReply) c) s)"

definition delConntrack :: "nat \<Rightarrow> nat \<Rightarrow> netstat \<Rightarrow> netstat" where
  "delConntrack n c s =
     (let s = upd_nct n (AList.delete (ct_tuple (ct_at s c) ! ctOrigin)) s
      in upd_nct n (AList.delete (ct_tuple (ct_at s c) ! ctReply)) s)"

definition Dir :: "conntrack \<Rightarrow> ctTuple \<Rightarrow> nat" where
  "Dir ct t = (if ct_tuple ct ! ctOrigin = t then 0 else 1)"

definition invert :: "ctTuple \<Rightarrow> ctTuple" where
  "invert t = \<lparr>ctt_saddr = ctt_daddr t, ctt_daddr = ctt_saddr t, ctt_sport = ctt_dport t,
     ctt_dport = ctt_sport t, ctt_proto = ctt_proto t\<rparr>"

definition CreateConntrack :: "nat \<Rightarrow> ctTuple \<Rightarrow> netstat \<Rightarrow> nat \<times> netstat" where
  "CreateConntrack n t s =
     (let c = length (ns_cts s);
          s = s\<lparr>ns_cts := ns_cts s @ [\<lparr>ct_status = CT_NEW, ct_stats = [0, 0],
            ct_tuple = [t, invert t], ct_timer = None, ct_nct = Some n, ct_time = Some (ns_now s),
            ct_lastTime = None, ct_reported = False, ct_outBound = False\<rparr>]\<rparr>
      in (c, addConntrack n c s))"

section \<open>Timeouts\<close>

definition getProtoEstablishTimeout :: "byte \<Rightarrow> int res" where
  "getProtoEstablishTimeout p =
     (if p = 6 then Inr CT_TCP_ESTABLISHED_TIMEOUT
      else if p = 17 then Inr CT_UDP_ESTABLISHED_TIMEOUT
      else Inl (PanicMsg ''unknow proto''))"

text \<open>\<open>ct.timer = timer.NewTimerFunc(d, f)\<close>\<close>

definition start_timer :: "nat \<Rightarrow> int \<Rightarrow> ct_timeout \<Rightarrow> netstat \<Rightarrow> netstat" where
  "start_timer c d f s =
     (let (t, ts) = NewTimerFunc (ns_now s) d f (ns_timers s)
      in upd_ct c (\<lambda>ct. ct\<lparr>ct_timer := Some t\<rparr>) (s\<lparr>ns_timers := ts\<rparr>))"

definition stop_timer :: "nat \<Rightarrow> netstat \<Rightarrow> (bool \<times> netstat) res" where
  "stop_timer c s =
     (case ct_timer (ct_at s c) of
        None \<Rightarrow> Inl NilDeref
      | Some t \<Rightarrow> let (ok, ts) = Timer_Stop t (ns_timers s) in Inr (ok, s\<lparr>ns_timers := ts\<rparr>))"

definition reset_timer :: "nat \<Rightarrow> int \<Rightarrow> netstat \<Rightarrow> (bool \<times> netstat) res" where
  "reset_timer c d s =
     (case ct_timer (ct_at s c) of
        None \<Rightarrow> Inl NilDeref
      | Some t \<Rightarrow> let (ok, ts) = Timer_Reset (ns_now s) t d (ns_timers s) in Inr (ok, s\<lparr>ns_timers := ts\<rparr>))"

fun run_timeout :: "ct_timeout \<Rightarrow> netstat \<Rightarrow> netstat res" where
  "run_timeout (ctTimeoutDel c) s =
     (let s = upd_ct c (\<lambda>ct. ct\<lparr>ct_status := CT_DEL\<rparr>) s in
      case ct_nct (ct_at s c) of
        None \<Rightarrow> Inl NilDeref
      | Some n \<Rightarrow> Inr (delConntrack n c s))"
| "run_timeout (ctESTABLISHEDTimeout c oldStats) s =
     (if ct_status (ct_at s c) = CT_DEL then Inr s
      else if oldStats \<noteq> ct_stats (ct_at s c) then
        bind_res (getProtoEstablishTimeout (ctt_proto (ct_tuple (ct_at s c) ! ctOrigin))) (\<lambda>timeout.
        Inr (start_timer c timeout (ctESTABLISHEDTimeout c (ct_stats (ct_at s c))) s))
      else
        let s = upd_ct c (\<lambda>ct. ct\<lparr>ct_status := CT_DEL, ct_lastTime := Some (ns_now s)\<rparr>) s
        in Inr (start_timer c CT_DEL_TIMEOUT (ctTimeoutDel c) s))"

definition ctTCPHandShakeTimeout :: "nat \<Rightarrow> netstat \<Rightarrow> netstat res" where
  "ctTCPHandShakeTimeout c s =
     (case ct_nct (ct_at s c) of
        None \<Rightarrow> Inl NilDeref
      | Some n \<Rightarrow> Inr (upd_ct c (\<lambda>ct. ct\<lparr>ct_status := CT_DEL\<rparr>) (delConntrack n c s)))"

end
