(* ===== verification/Netstat_Track.thy ===== *)
theory Netstat_Track
  imports Netstat_Conntrack Packet_Pool
begin

text \<open>
  Package \<open>netstat\<close>, files \<open>net.go\<close> and \<open>connstats.go\<close>: the handlers of the packets that the
  statistics receive, each one run as a whole, and the texts that show the connections. Writing
  to the log has no effect in the model.
\<close>

section \<open>The tuple of a packet\<close>

definition IPv4ProtocolNumber :: u16 where "IPv4ProtocolNumber = 0x0800"
definition ARPProtocolNumber :: u16 where "ARPProtocolNumber = 0x0806"
definition TCPProtocolNumber :: byte where "TCPProtocolNumber = 6"
definition UDPProtocolNumber :: byte where "UDPProtocolNumber = 17"

definition getTCPTuple :: "PktBuf \<Rightarrow> ctTuple res" where
  "getTCPTuple pkb =
     bind_res (LoadNetworkData pkb) (\<lambda>ipHeader.
     bind_res (SourceAddress ipHeader) (\<lambda>saddr.
     bind_res (DestinationAddress ipHeader) (\<lambda>daddr.
     bind_res (Protocol ipHeader) (\<lambda>proto.
     bind_res (LoadTransportData pkb) (\<lambda>transportHeader.
     bind_res (TCP_SourcePort transportHeader) (\<lambda>sport.
     bind_res (TCP_DestinationPort transportHeader) (\<lambda>dport.
     Inr \<lparr>ctt_saddr = saddr, ctt_daddr = daddr, ctt_sport = sport, ctt_dport = dport,
          ctt_proto = proto\<rparr>)))))))"

definition getUDPTuple :: "PktBuf \<Rightarrow> ctTuple res" where
  "getUDPTuple pkb =
     bind_res (LoadNetworkData pkb) (\<lambda>ipHeader.
     bind_res (SourceAddress ipHeader) (\<lambda>saddr.
     bind_res (DestinationAddress ipHeader) (\<lambda>daddr.
     bind_res (Protocol ipHeader) (\<lambda>proto.
     bind_res (LoadTransportData pkb) (\<lambda>transportHeader.
     bind_res (UDP_SourcePort transportHeader) (\<lambda>sport.
     bind_res (UDP_DestinationPort transportHeader) (\<lambda>dport.
     Inr \<lparr>ctt_saddr = saddr, ctt_daddr = daddr, ctt_sport = sport, ctt_dport = dport,
          ctt_proto = proto\<rparr>)))))))"

section \<open>TCP\<close>

text \<open>\<open>ct.stats[dir] += pktLen\<close>\<close>

definition count_bytes :: "nat \<Rightarrow> nat \<Rightarrow> u64 \<Rightarrow> netstat \<Rightarrow> netstat" where
  "count_bytes c dir pktLen s =
     upd_ct c (\<lambda>ct. ct\<lparr>ct_stats := (ct_stats ct)[dir := ct_stats ct ! dir + pktLen]\<rparr>) s"

definition set_status :: "nat \<Rightarrow> byte \<Rightarrow> netstat \<Rightarrow> netstat" where
  "set_status c st s = upd_ct c (\<lambda>ct. ct\<lparr>ct_status := st\<rparr>) s"

definition tcp_syn :: "nat \<Rightarrow> ctTuple \<Rightarrow> bool \<Rightarrow> u64 \<Rightarrow> netstat \<Rightarrow> netstat res" where
  "tcp_syn n tuple out pktLen s =
     (case findConntrack s n tuple of
        None \<Rightarrow>
          if \<not> out then Inr s
          else
            let (c, s) = CreateConntrack n tuple s;
                s = upd_ct c (\<lambda>ct. ct\<lparr>ct_outBound := True\<rparr>) s;
                s = count_bytes c ctOrigin pktLen s
            in Inr (start_timer c CT_TCP_SYN_TIMEOUT (ctTimeoutDel c) s)
      | Some c \<Rightarrow>
          if ct_status (ct_at s c) = CT_NEW
          then bind_res (reset_timer c CT_TCP_SYN_TIMEOUT s) (\<lambda>(_, s). Inr s)
          else Inr s)"

definition tcp_end :: "nat \<Rightarrow> netstat \<Rightarrow> netstat res" where
  "tcp_end c s =
     (if ct_status (ct_at s c) = CT_DEL then Inr s
      else
        let s = upd_ct c (\<lambda>ct. ct\<lparr>ct_status := CT_DEL, ct_lastTime := Some (ns_now s)\<rparr>) s in
        if ct_timer (ct_at s c) = None then Inr s
        else bind_res (stop_timer c s) (\<lambda>(ok, s).
          Inr (if ok then start_timer c CT_DEL_TIMEOUT (ctTimeoutDel c) s else s)))"

definition tcp_synack :: "nat \<Rightarrow> nat \<Rightarrow> netstat \<Rightarrow> netstat res" where
  "tcp_synack c dir s =
     (if dir \<noteq> ctReply then Inr s
      else bind_res (reset_timer c CT_TCP_SYN_RCVD_TIMEOUT s) (\<lambda>(ok, s).
        Inr (if ok then set_status c CT_REPLY s else s)))"

definition establish :: "nat \<Rightarrow> int \<Rightarrow> netstat \<Rightarrow> netstat res" where
  "establish c timeout s =
     bind_res (stop_timer c s) (\<lambda>(ok, s).
       Inr (if ok then
              let s = set_status c CT_ESTABLISHED s
              in start_timer c timeout (ctESTABLISHEDTimeout c (ct_stats (ct_at s c))) s
            else s))"

definition tcp_track :: "nat \<Rightarrow> ctTuple \<Rightarrow> byte \<Rightarrow> bool \<Rightarrow> u64 \<Rightarrow> netstat \<Rightarrow> netstat res" where
  "tcp_track n tuple tcpFlag out pktLen s =
     (if IsSyn tcpFlag then tcp_syn n tuple out pktLen s
      else case findConntrack s n tuple of
        None \<Rightarrow> Inr s
      | Some c \<Rightarrow>
          if ct_status (ct_at s c) = CT_DEL then Inr s
          else
            let dir = Dir (ct_at s c) tuple;
                s = count_bytes c dir pktLen s
            in if tcpFlag AND TCPFlagRst \<noteq> 0 \<or> tcpFlag AND TCPFlagFin \<noteq> 0 then tcp_end c s
               else if ct_status (ct_at s c) = CT_ESTABLISHED then Inr s
               else if IsSynAck tcpFlag then tcp_synack c dir s
               else if IsAck tcpFlag \<and> ct_status (ct_at s c) = CT_REPLY
                 then establish c CT_TCP_ESTABLISHED_TIMEOUT s
               else Inr s)"

definition tcpHandler :: "PktBuf \<Rightarrow> netstat \<Rightarrow> netstat res" where
  "tcpHandler pkb s =
     (let pktLen = ucast (GetDataLen pkb) in
      bind_res (getTCPTuple pkb) (\<lambda>tuple.
      case GetNctByZone s (GetPktVid pkb) of
        None \<Rightarrow> Inr s
      | Some n \<Rightarrow>
          bind_res (LoadTransportData pkb) (\<lambda>tcpHeader.
          bind_res (TCP_Flags tcpHeader) (\<lambda>tcpFlag.
          tcp_track n tuple tcpFlag (IsOutBound pkb) pktLen s))))"

section \<open>UDP\<close>

definition udp_track :: "nat \<Rightarrow> ctTuple \<Rightarrow> bool \<Rightarrow> u64 \<Rightarrow> netstat \<Rightarrow> netstat res" where
  "udp_track n tuple out pktLen s =
     (case findConntrack s n tuple of
        None \<Rightarrow>
          let (c, s) = CreateConntrack n tuple s;
              s = (if out then upd_ct c (\<lambda>ct. ct\<lparr>ct_outBound := True\<rparr>) s else s);
              s = count_bytes c ctOrigin pktLen s
          in Inr (start_timer c CT_UDP_NEW_TIMEOUT (ctTimeoutDel c) s)
      | Some c \<Rightarrow>
          if ct_status (ct_at s c) = CT_DEL then Inr s
          else
            let dir = Dir (ct_at s c) tuple;
                s = count_bytes c dir pktLen s
            in if ct_status (ct_at s c) = CT_ESTABLISHED then Inr s
               else if dir = ctReply then establish c CT_UDP_ESTABLISHED_TIMEOUT s
               else Inr s)"

definition udpHandler :: "PktBuf \<Rightarrow> netstat \<Rightarrow> netstat res" where
  "udpHandler pkb s =
     (let pktLen = ucast (GetDataLen pkb) in
      bind_res (getUDPTuple pkb) (\<lambda>tuple.
      case GetNctByZone s (GetPktVid pkb) of
        None \<Rightarrow> Inr s
      | Some n \<Rightarrow> udp_track n tuple (IsOutBound pkb) pktLen s))"

section \<open>The tables of protocols\<close>

definition transportHandlers :: "(byte \<times> (PktBuf \<Rightarrow> netstat \<Rightarrow> netstat res)) list" where
  "transportHandlers = [(TCPProtocolNumber, tcpHandler), (UDPProtocolNumber, udpHandler)]"

text \<open>\<open>registerTransportProto\<close> enters the list into a map.\<close>

definition transportProtos :: "byte \<Rightarrow> (PktBuf \<Rightarrow> netstat \<Rightarrow> netstat res) option" where
  "transportProtos = fold (\<lambda>(p, h) m. m(p \<mapsto> h)) transportHandlers Map.empty"

definition arpHandler :: "PktBuf \<Rightarrow> netstat \<Rightarrow> (PktBuf \<times> netstat) res" where
  "arpHandler pkb s = Inr (pkb, s)"

definition ipHandler :: "PktBuf \<Rightarrow> netstat \<Rightarrow> (PktBuf \<times> netstat) res" where
  "ipHandler pkb s =
     bind_res (LoadNetworkData pkb) (\<lambda>ipHeader.
     bind_res (IsIPv4 ipHeader) (\<lambda>v4.
     if \<not> v4 then Inr (pkb, s)
     else bind_res (FragmentOffset ipHeader) (\<lambda>off.
     if off \<noteq> 0 then Inr (pkb, s)
     else bind_res (Protocol ipHeader) (\<lambda>p.
     case transportProtos p of
       None \<Rightarrow> Inr (pkb, s)
     | Some handle \<Rightarrow>
         bind_res (HeaderLength ipHeader) (\<lambda>hl.
         let pkb = SetTransportHeader pkb (uint hl)
         in bind_res (handle pkb s) (\<lambda>s. Inr (pkb, s)))))))"

definition networkHandlers :: "(u16 \<times> (PktBuf \<Rightarrow> netstat \<Rightarrow> (PktBuf \<times> netstat) res)) list" where
  "networkHandlers = [(IPv4ProtocolNumber, ipHandler), (ARPProtocolNumber, arpHandler)]"

definition networkProtos :: "u16 \<Rightarrow> (PktBuf \<Rightarrow> netstat \<Rightarrow> (PktBuf \<times> netstat) res) option" where
  "networkProtos = fold (\<lambda>(p, h) m. m(p \<mapsto> h)) networkHandlers Map.empty"

definition etherPktHandle :: "PktBuf \<Rightarrow> netstat \<Rightarrow> (PktBuf \<times> netstat) res" where
  "etherPktHandle pkb s =
     bind_res (LoadUserData pkb) (\<lambda>etherData.
     bind_res (TranEther etherData) (\<lambda>etherHeader.
     case networkProtos (GetProto etherHeader) of
       None \<Rightarrow> Inr (pkb, s)
     | Some handle \<Rightarrow> handle (SetNetworkHeader pkb (int EtherSize)) s))"

text \<open>One round of the loop over the queue: the packet is handled and its reference given up.\<close>

definition netStatHandle :: "nat \<Rightarrow> pkt_store \<times> netstat \<Rightarrow> (pkt_store \<times> netstat) res" where
  "netStatHandle a = (\<lambda>(ps, s).
     bind_res (etherPktHandle (pkt ps a) s) (\<lambda>(pkb, s).
     Inr (snd (ReleasePktBuf a (upd_pkt a (\<lambda>_. pkb) ps)), s)))"

section \<open>Showing the connections\<close>

definition ctStatusString :: "byte \<Rightarrow> string" where
  "ctStatusString st =
     (if st = CT_NEW then ''NEW'' else if st = CT_REPLY then ''REPLY''
      else if st = CT_ESTABLISHED then ''ESTABLISHED'' else if st = CT_DEL then ''DEL''
      else ''unknown'')"

definition ctProtoString :: "byte \<Rightarrow> string" where
  "ctProtoString p = (if p = 6 then ''TCP'' else if p = 17 then ''UDP'' else ''unknown'')"

definition ipString :: "u32 \<Rightarrow> string" where
  "ipString ipaddr =
     (let d = (\<lambda>k. Itoa (unat (ucast (drop_bit k ipaddr) :: byte)))
      in d 24 @ ''.'' @ d 16 @ ''.'' @ d 8 @ ''.'' @ d 0)"

definition ctTuple_String :: "ctTuple \<Rightarrow> string" where
  "ctTuple_String t =
     ''src='' @ ipString (ctt_saddr t) @ ''dst='' @ ipString (ctt_daddr t) @
     ''sport='' @ Itoa (unat (ctt_sport t)) @ ''dport='' @ Itoa (unat (ctt_dport t)) @
     ''proto='' @ Itoa (unat (ctt_proto t))"

definition conntrack_String :: "netstat \<Rightarrow> conntrack \<Rightarrow> string res" where
  "conntrack_String s ct =
     (case ct_nct ct of
        None \<Rightarrow> Inl NilDeref
      | Some n \<Rightarrow> Inr (
          ''status:'' @ ctStatusString (ct_status ct) @
          '' origin:'' @ ctTuple_String (ct_tuple ct ! ctOrigin) @
          ''(bytes:'' @ Itoa (unat (ct_stats ct ! ctOrigin)) @ ''), reply:'' @
          ctTuple_String (ct_tuple ct ! ctReply) @
          ''(bytes:'' @ Itoa (unat (ct_stats ct ! ctReply)) @ ''),outBound='' @
          (if ct_outBound ct then ''true'' else ''false'') @
          '', netZone='' @ Itoa (unat (nc_netZone (ns_ncts s ! n)))))"

text \<open>
  The loop over the connections of a zone: every connection is found under its tuple and under
  the inverted one, so the tuple whose inverse has been seen is passed over.
\<close>

fun show_zone :: "netstat \<Rightarrow> (ctTuple \<times> nat) list \<Rightarrow> ctTuple list \<Rightarrow> string list \<Rightarrow> string list res" where
  "show_zone s [] checkTuple nctInfo = Inr nctInfo"
| "show_zone s ((t, c) # cts) checkTuple nctInfo =
     (if t \<in> set checkTuple then show_zone s cts checkTuple nctInfo
      else bind_res (conntrack_String s (ct_at s c)) (\<lambda>x.
        show_zone s cts (invert t # checkTuple) (nctInfo @ [x])))"

definition ShowConntrack :: "netstat \<Rightarrow> (u16 \<times> string list) list res" where
  "ShowConntrack s =
     fold_res (\<lambda>(zone, n) info.
        bind_res (show_zone s (nc_conntracks (ns_ncts s ! n)) [] []) (\<lambda>x.
        Inr (AList.update zone x info))) (ns_global s) []"

end
