(* ===== verification/Netstat_Inv.thy ===== *)
theory Netstat_Inv
  imports Netstat_Track
begin

text \<open>
  The invariant of the connection tables and their timers, for every interleaving of packets, of
  the clock and of the functions that timers hand to goroutines. A timer function that is due
  waits in \<open>tm_running\<close> and runs at any later time, so packets come between.
\<close>

section \<open>What is outstanding for a connection\<close>

fun cb_ct :: "ct_timeout \<Rightarrow> nat" where
  "cb_ct (ctTimeoutDel c) = c"
| "cb_ct (ctESTABLISHEDTimeout c _) = c"

definition n_pend :: "(nat \<times> int \<times> ct_timeout) list \<Rightarrow> nat \<Rightarrow> nat" where
  "n_pend ps c = length (filter (\<lambda>p. cb_ct (snd (snd p)) = c) ps)"

definition n_run :: "ct_timeout list \<Rightarrow> nat \<Rightarrow> nat" where
  "n_run fs c = length (filter (\<lambda>f. cb_ct f = c) fs)"

definition n_out :: "ct_timeout timers \<Rightarrow> nat \<Rightarrow> nat" where
  "n_out ts c = n_pend (tm_pending ts) c + n_run (tm_running ts) c"

lemma n_pend_simps [simp]:
  "n_pend [] c = 0"
  "n_pend (p # ps) c = (if cb_ct (snd (snd p)) = c then 1 else 0) + n_pend ps c"
  "n_pend (ps @ qs) c = n_pend ps c + n_pend qs c"
  by (simp_all add: n_pend_def)

lemma n_run_simps [simp]:
  "n_run [] c = 0"
  "n_run (f # fs) c = (if cb_ct f = c then 1 else 0) + n_run fs c"
  "n_run (fs @ gs) c = n_run fs c + n_run gs c"
  by (simp_all add: n_run_def)

lemma n_pend_pos: "map_of ps t = Some (d, f) \<Longrightarrow> 0 < n_pend ps (cb_ct f)"
  using map_of_SomeD [of ps t "(d, f)"] by (force simp: n_pend_def filter_empty_conv)

lemma n_pend_delete:
  "distinct (map fst ps) \<Longrightarrow>
     n_pend (AList.delete t ps) c =
       n_pend ps c - (case map_of ps t of None \<Rightarrow> 0 | Some (d, f) \<Rightarrow> if cb_ct f = c then 1 else 0)"
proof (induction ps)
  case (Cons p ps)
  obtain t' d f where p: "p = (t', d, f)" by (cases p) auto
  show ?case
  proof (cases "t = t'")
    case True
    have "t' \<notin> fst ` set ps" using Cons.prems p by auto
    then have "AList.delete t' ps = ps" by (rule delete_id)
    then show ?thesis using p True by simp
  next
    case False
    show ?thesis
      using Cons p False n_pend_pos [of ps t] by (auto split: option.splits if_splits)
  qed
qed simp

lemma n_out_due: "n_out (timers_due now ts) c = n_out ts c"
proof -
  have "n_pend (filter (\<lambda>(t, due, f). now < due) ps) c
      + n_run (map (\<lambda>(t, due, f). f) (filter (\<lambda>(t, due, f). due \<le> now) ps)) c = n_pend ps c" for ps
    by (induction ps) auto
  from this [of "tm_pending ts"] show ?thesis
    by (simp add: n_out_def timers_due_def)
qed

lemma n_out_New:
  "n_out (snd (NewTimerFunc now d f ts)) c = n_out ts c + (if cb_ct f = c then 1 else 0)"
  by (simp add: n_out_def NewTimerFunc_def)

lemma n_out_Stop:
  assumes "distinct (map fst (tm_pending ts))"
  shows "n_out (snd (Timer_Stop t ts)) c =
    n_out ts c - (case map_of (tm_pending ts) t of None \<Rightarrow> 0 | Some (d, f) \<Rightarrow> if cb_ct f = c then 1 else 0)"
  using n_pend_delete [OF assms, of t c] n_pend_pos [of "tm_pending ts" t]
  by (fastforce simp: n_out_def Timer_Stop_def split: option.splits)

lemma n_out_Reset:
  assumes "distinct (map fst (tm_pending ts))"
  shows "n_out (snd (Timer_Reset now t d ts)) c = n_out ts c"
  using n_pend_delete [OF assms, of t c] n_pend_pos [of "tm_pending ts" t]
  by (fastforce simp: n_out_def Timer_Reset_def split: option.splits)

section \<open>The schedule of the timers\<close>

text \<open>
  The timers, the timer field of every connection and the status of every connection: at most one
  function is outstanding for a connection, exactly one while it is alive (outside \<open>X\<close>), and it
  is the pending timer of its field unless it was handed over.
\<close>

definition timers_ok :: "ct_timeout timers \<Rightarrow> nat option list \<Rightarrow> bool" where
  "timers_ok ts own \<longleftrightarrow>
     distinct (map fst (tm_pending ts)) \<and> distinct own
     \<and> (\<forall>(t, d, f) \<in> set (tm_pending ts). cb_ct f < length own \<and> own ! cb_ct f = Some t)
     \<and> (\<forall>x \<in> set own. \<exists>t < tm_next ts. x = Some t)
     \<and> (\<forall>f \<in> set (tm_running ts). cb_ct f < length own)
     \<and> (\<forall>c. n_out ts c \<le> 1)"

definition alive_ok :: "nat set \<Rightarrow> ct_timeout timers \<Rightarrow> byte list \<Rightarrow> bool" where
  "alive_ok X ts sts \<longleftrightarrow> (\<forall>c < length sts. c \<notin> X \<longrightarrow> sts ! c \<noteq> CT_DEL \<longrightarrow> n_out ts c = 1)"

lemma timers_okD:
  assumes "timers_ok ts own"
  shows "distinct (map fst (tm_pending ts))" and "distinct own"
    and "\<And>t d f. (t, d, f) \<in> set (tm_pending ts) \<Longrightarrow> cb_ct f < length own \<and> own ! cb_ct f = Some t"
    and "\<And>c. c < length own \<Longrightarrow> \<exists>t < tm_next ts. own ! c = Some t"
    and "\<And>f. f \<in> set (tm_running ts) \<Longrightarrow> cb_ct f < length own"
    and "\<And>c. n_out ts c \<le> 1"
  using assms by (auto simp: timers_ok_def)

lemma timers_okI:
  assumes "distinct (map fst (tm_pending ts))" and "distinct own"
    and "\<And>t d f. (t, d, f) \<in> set (tm_pending ts) \<Longrightarrow> cb_ct f < length own \<and> own ! cb_ct f = Some t"
    and "\<And>x. x \<in> set own \<Longrightarrow> \<exists>t < tm_next ts. x = Some t"
    and "\<And>f. f \<in> set (tm_running ts) \<Longrightarrow> cb_ct f < length own"
    and "\<And>c. n_out ts c \<le> 1"
  shows "timers_ok ts own"
  using assms by (auto simp: timers_ok_def)

lemma own_bounded: "timers_ok ts own \<Longrightarrow> x \<in> set own \<Longrightarrow> \<exists>t < tm_next ts. x = Some t"
  by (simp add: timers_ok_def)

lemma due_ok: "timers_ok ts own \<Longrightarrow> timers_ok (timers_due now ts) own"
proof -
  assume ok: "timers_ok ts own"
  have "distinct (map fst (filter P (tm_pending ts)))" for P
    by (rule distinct_map_filter) (rule timers_okD(1) [OF ok])
  then show ?thesis
    by (intro timers_okI)
      (use timers_okD(2,3,5,6) [OF ok] own_bounded [OF ok] in
        \<open>auto simp: n_out_due, auto simp: timers_due_def\<close>)
qed

lemma n_out_le_length:
  assumes "timers_ok ts own" and "0 < n_out ts c"
  shows "c < length own"
proof -
  have "(\<exists>p \<in> set (tm_pending ts). cb_ct (snd (snd p)) = c) \<or> (\<exists>f \<in> set (tm_running ts). cb_ct f = c)"
    using assms(2) by (auto simp: n_out_def n_pend_def n_run_def filter_empty_conv)
  then show ?thesis using timers_okD(3,5) [OF assms(1)] by fastforce
qed

lemma not_pending:
  assumes "n_out ts c = 0"
  shows "(t, d, f) \<in> set (tm_pending ts) \<Longrightarrow> cb_ct f \<noteq> c"
    and "g \<in> set (tm_running ts) \<Longrightarrow> cb_ct g \<noteq> c"
  using assms by (auto simp: n_out_def n_pend_def n_run_def filter_empty_conv)

lemma fresh_timer:
  assumes ok: "timers_ok ts own"
  shows "Some (tm_next ts) \<notin> set own" and "tm_next ts \<notin> fst ` set (tm_pending ts)"
proof -
  have "x \<noteq> Some (tm_next ts)" if "x \<in> set own" for x
    using ok that unfolding timers_ok_def by fastforce
  then show a: "Some (tm_next ts) \<notin> set own" by blast
  show "tm_next ts \<notin> fst ` set (tm_pending ts)"
  proof
    assume "tm_next ts \<in> fst ` set (tm_pending ts)"
    then obtain d f where "(tm_next ts, d, f) \<in> set (tm_pending ts)" by auto
    from timers_okD(3) [OF ok this] a show False by (metis nth_mem)
  qed
qed

text \<open>A new timer, in the field of a connection that has none outstanding.\<close>

lemma start_ok:
  assumes ok: "timers_ok ts own" and "n_out ts (cb_ct f) = 0" and "cb_ct f < length own"
    and new: "NewTimerFunc now d f ts = (t, ts')"
  shows "timers_ok ts' (own[cb_ct f := Some t])"
proof -
  let ?c = "cb_ct f"
  have t: "t = tm_next ts"
    and ts': "ts' = ts\<lparr>tm_pending := tm_pending ts @ [(t, now + d, f)], tm_next := Suc t\<rparr>"
    using new by (auto simp: NewTimerFunc_def)
  have fresh: "Some t \<notin> set own" "t \<notin> fst ` set (tm_pending ts)"
    using fresh_timer [OF ok] t by simp_all
  have di: "distinct (own[?c := Some t])"
    using timers_okD(2) [OF ok] fresh(1) by (intro distinct_list_update) auto
  have keys: "distinct (map fst (tm_pending ts'))"
    using timers_okD(1) [OF ok] fresh(2) by (simp add: ts')
  have n: "n_out ts' c \<le> 1" for c
    using n_out_New [of now d f ts c] new timers_okD(6) [OF ok, of c] assms(2) by auto
  have p: "cb_ct g < length own \<and> own[?c := Some t] ! cb_ct g = Some p"
    if "(p, e, g) \<in> set (tm_pending ts')" for p e g
    using that timers_okD(3) [OF ok, of p e g] not_pending(1) [OF assms(2), of p e g] assms(3)
    by (auto simp: ts')
  have o: "\<exists>u < tm_next ts'. x = Some u" if "x \<in> set (own[?c := Some t])" for x
  proof -
    have "x = Some t \<or> x \<in> set own" using that set_update_subset_insert [of own ?c "Some t"] by auto
    then show ?thesis using own_bounded [OF ok, of x] by (auto simp: ts' t less_Suc_eq)
  qed
  have r: "cb_ct g < length (own[?c := Some t])" if "g \<in> set (tm_running ts')" for g
    using that timers_okD(5) [OF ok] by (simp add: ts')
  show ?thesis
    by (rule timers_okI) (use keys di p o r n in \<open>simp_all\<close>)
qed

lemma create_ok:
  assumes ok: "timers_ok ts own" and "cb_ct f = length own" and new: "NewTimerFunc now d f ts = (t, ts')"
  shows "timers_ok ts' (own @ [Some t])"
proof -
  have t: "t = tm_next ts"
    and ts': "ts' = ts\<lparr>tm_pending := tm_pending ts @ [(t, now + d, f)], tm_next := Suc t\<rparr>"
    using new by (auto simp: NewTimerFunc_def)
  have z: "n_out ts (length own) = 0"
    using n_out_le_length [OF ok, of "length own"] by auto
  have fresh: "Some t \<notin> set own" "t \<notin> fst ` set (tm_pending ts)"
    using fresh_timer [OF ok] t by simp_all
  have di: "distinct (own @ [Some t])" using timers_okD(2) [OF ok] fresh(1) by simp
  have keys: "distinct (map fst (tm_pending ts'))"
    using timers_okD(1) [OF ok] fresh(2) by (simp add: ts')
  have n: "n_out ts' c \<le> 1" for c
    using n_out_New [of now d f ts c] new timers_okD(6) [OF ok, of c] z assms(2) by auto
  have p: "cb_ct g < Suc (length own) \<and> (own @ [Some t]) ! cb_ct g = Some p"
    if "(p, e, g) \<in> set (tm_pending ts')" for p e g
    using that timers_okD(3) [OF ok, of p e g] assms(2) by (auto simp: ts' nth_append)
  have o: "\<exists>u < tm_next ts'. x = Some u" if "x \<in> set (own @ [Some t])" for x
    using that own_bounded [OF ok, of x] by (auto simp: ts' t less_Suc_eq)
  have r: "cb_ct g < Suc (length own)" if "g \<in> set (tm_running ts')" for g
    using that timers_okD(5) [OF ok] by (simp add: ts' less_SucI)
  show ?thesis
    by (rule timers_okI) (use keys di p o r n in \<open>simp_all\<close>)
qed

lemma timer_of:
  assumes "timers_ok ts own" and "own ! c = Some t" and "c < length own"
    and "map_of (tm_pending ts) t = Some (d, f)"
  shows "cb_ct f = c"
  using timers_okD(3) [OF assms(1) map_of_SomeD [OF assms(4)]] timers_okD(2) [OF assms(1)] assms(2,3)
  by (metis nth_eq_iff_index_eq)

lemma stop_ok:
  assumes ok: "timers_ok ts own" and c: "own ! c = Some t" "c < length own"
    and st: "Timer_Stop t ts = (b, ts')"
  shows "timers_ok ts' own" and "b \<Longrightarrow> n_out ts' c = 0"
    and "c' \<noteq> c \<or> \<not> b \<Longrightarrow> n_out ts' c' = n_out ts c'"
proof -
  have b: "b \<longleftrightarrow> map_of (tm_pending ts) t \<noteq> None"
    and ts': "ts' = ts\<lparr>tm_pending := AList.delete t (tm_pending ts)\<rparr>"
    using st by (auto simp: Timer_Stop_def)
  have n: "n_out ts' x = n_out ts x - (if b \<and> x = c then 1 else 0)" for x
    using n_out_Stop [OF timers_okD(1) [OF ok], of t x] st b timer_of [OF ok c]
    by (auto split: option.splits)
  have "distinct (map fst (tm_pending ts'))"
    using timers_okD(1) [OF ok] by (simp add: ts' distinct_delete)
  moreover have "set (tm_pending ts') \<subseteq> set (tm_pending ts)"
    by (auto simp: ts' AList.delete_eq)
  moreover have "n_out ts' x \<le> 1" for x
    using n [of x] timers_okD(6) [OF ok, of x] by (simp split: if_splits)
  ultimately show "timers_ok ts' own"
    by (intro timers_okI) (use timers_okD(2,3,5) [OF ok] own_bounded [OF ok] in \<open>auto simp: ts'\<close>)
  show "n_out ts' c = 0" if b using n [of c] that timers_okD(6) [OF ok, of c] by auto
  show "n_out ts' c' = n_out ts c'" if "c' \<noteq> c \<or> \<not> b" using n [of c'] that by auto
qed

lemma stopped_pending:
  assumes "timers_ok ts own" and "own ! c = Some t" and "c < length own"
    and "Timer_Stop t ts = (True, ts')"
  shows "n_out ts c = 1"
proof -
  obtain d f where m: "map_of (tm_pending ts) t = Some (d, f)"
    using assms(4) by (auto simp: Timer_Stop_def)
  then have "cb_ct f = c" by (rule timer_of [OF assms(1-3)])
  then have "0 < n_out ts c"
    using n_pend_pos [OF m] by (simp add: n_out_def)
  then show ?thesis using timers_okD(6) [OF assms(1), of c] by simp
qed

lemma reset_ok:
  assumes ok: "timers_ok ts own" and c: "own ! c = Some t" "c < length own"
    and r: "Timer_Reset now t d ts = (b, ts')"
  shows "timers_ok ts' own" and "n_out ts' c' = n_out ts c'" and "b \<Longrightarrow> n_out ts c = 1"
proof -
  have n: "n_out ts' x = n_out ts x" for x
    using n_out_Reset [OF timers_okD(1) [OF ok], of now t d x] r by simp
  then show "n_out ts' c' = n_out ts c'" .
  show "n_out ts c = 1" if b
    using that r stopped_pending [OF ok c, of "snd (Timer_Stop t ts)"]
    by (auto simp: Timer_Reset_def Timer_Stop_def split: option.splits)
  show "timers_ok ts' own"
  proof (cases "map_of (tm_pending ts) t")
    case None
    then show ?thesis using r ok by (auto simp: Timer_Reset_def)
  next
    case (Some df)
    obtain e f where df: "df = (e, f)" by (cases df)
    have m: "(t, e, f) \<in> set (tm_pending ts)" using map_of_SomeD [OF Some] df by simp
    have ts': "ts' = ts\<lparr>tm_pending := AList.delete t (tm_pending ts) @ [(t, now + d, f)]\<rparr>"
      using r Some df by (simp add: Timer_Reset_def)
    have sub: "set (AList.delete t (tm_pending ts)) \<subseteq> set (tm_pending ts)"
      by (auto simp: AList.delete_eq)
    have "t \<notin> fst ` set (AList.delete t (tm_pending ts))" by (rule AList.delete_notin_dom)
    then have "distinct (map fst (tm_pending ts'))"
      using timers_okD(1) [OF ok] by (simp add: ts' distinct_delete)
    then show ?thesis
      by (intro timers_okI)
        (use timers_okD(2,3,5,6) [OF ok] own_bounded [OF ok] n m sub in \<open>auto simp: ts'\<close>)
  qed
qed

end
