(* ===== verification/Netstat_Safe.thy ===== *)
theory Netstat_Safe
  imports Netstat_Inv
begin

text \<open>
  The invariant of the statistics and the operations that keep it: every connection is found
  under its tuple and under the inverted one exactly as long as something is outstanding for it.
\<close>

section \<open>The invariant\<close>

abbreviation conns :: "netConntrack list \<Rightarrow> nat \<Rightarrow> (ctTuple \<times> nat) list" where
  "conns ncts n \<equiv> nc_conntracks (ncts ! n)"

abbreviation ct_timers :: "netstat \<Rightarrow> nat option list" where
  "ct_timers s \<equiv> map ct_timer (ns_cts s)"

abbreviation ct_states :: "netstat \<Rightarrow> byte list" where
  "ct_states s \<equiv> map ct_status (ns_cts s)"

abbreviation ct_homes :: "netstat \<Rightarrow> (ctTuple list \<times> nat option) list" where
  "ct_homes s \<equiv> map (\<lambda>ct. (ct_tuple ct, ct_nct ct)) (ns_cts s)"

definition home_ok :: "nat \<Rightarrow> ctTuple list \<times> nat option \<Rightarrow> bool" where
  "home_ok k h \<longleftrightarrow> (\<exists>u n. h = ([u, invert u], Some n) \<and> n < k \<and> ctt_proto u \<in> {6, 17})"

definition tables_ok :: "netConntrack list \<Rightarrow> (ctTuple list \<times> nat option) list \<Rightarrow> bool" where
  "tables_ok ncts hs \<longleftrightarrow>
     (\<forall>h \<in> set hs. home_ok (length ncts) h)
     \<and> (\<forall>n < length ncts. map_wf (conns ncts n)
        \<and> (\<forall>t c. map_of (conns ncts n) t = Some c \<longrightarrow>
             c < length hs \<and> snd (hs ! c) = Some n \<and> t \<in> set (fst (hs ! c))))"

definition linked :: "netConntrack list \<Rightarrow> (ctTuple list \<times> nat option) list \<Rightarrow> nat \<Rightarrow> bool" where
  "linked ncts hs c \<longleftrightarrow>
     (\<exists>u n. hs ! c = ([u, invert u], Some n) \<and> n < length ncts
        \<and> map_of (conns ncts n) u = Some c \<and> map_of (conns ncts n) (invert u) = Some c)"

definition links_ok :: "nat set \<Rightarrow> ct_timeout timers \<Rightarrow> netConntrack list \<Rightarrow> (ctTuple list \<times> nat option) list \<Rightarrow> bool" where
  "links_ok L ts ncts hs \<longleftrightarrow> (\<forall>c < length hs. c \<in> L \<or> n_out ts c = 1 \<longrightarrow> linked ncts hs c)"

text \<open>
  Connections whose end is overdue (the set \<open>L\<close>): they are dead, nothing is outstanding for them,
  and yet they are in the table.
\<close>

definition stuck_ok :: "nat set \<Rightarrow> ct_timeout timers \<Rightarrow> byte list \<Rightarrow> bool" where
  "stuck_ok L ts sts \<longleftrightarrow> (\<forall>c \<in> L. c < length sts \<and> sts ! c = CT_DEL \<and> n_out ts c = 0)"

definition zones_ok :: "(u16 \<times> nat) list \<Rightarrow> nat \<Rightarrow> bool" where
  "zones_ok g k \<longleftrightarrow> map_wf g \<and> (\<forall>(z, n) \<in> set g. n < k)"

definition ninv :: "nat set \<Rightarrow> nat set \<Rightarrow> netstat \<Rightarrow> bool" where
  "ninv L X s \<longleftrightarrow>
     timers_ok (ns_timers s) (ct_timers s) \<and> alive_ok X (ns_timers s) (ct_states s)
     \<and> tables_ok (ns_ncts s) (ct_homes s) \<and> links_ok L (ns_timers s) (ns_ncts s) (ct_homes s)
     \<and> (\<forall>ct \<in> set (ns_cts s). length (ct_stats ct) = 2) \<and> zones_ok (ns_global s) (length (ns_ncts s))
     \<and> stuck_ok L (ns_timers s) (ct_states s)"

lemma ninvD:
  assumes "ninv L X s"
  shows "timers_ok (ns_timers s) (ct_timers s)" and "alive_ok X (ns_timers s) (ct_states s)"
    and "tables_ok (ns_ncts s) (ct_homes s)" and "links_ok L (ns_timers s) (ns_ncts s) (ct_homes s)"
    and "\<forall>ct \<in> set (ns_cts s). length (ct_stats ct) = 2"
    and "zones_ok (ns_global s) (length (ns_ncts s))"
    and "stuck_ok L (ns_timers s) (ct_states s)"
  using assms by (auto simp: ninv_def)

lemma invert_invert [simp]: "invert (invert t) = t"
  by (simp add: invert_def)

lemma invert_proto [simp]: "ctt_proto (invert t) = ctt_proto t"
  by (simp add: invert_def)

lemma tables_okD:
  assumes "tables_ok ncts hs" and "n < length ncts"
  shows "map_wf (conns ncts n)"
    and "map_of (conns ncts n) t = Some c \<Longrightarrow> c < length hs"
    and "map_of (conns ncts n) t = Some c \<Longrightarrow> \<exists>u. hs ! c = ([u, invert u], Some n) \<and> t \<in> {u, invert u}"
proof -
  show "map_wf (conns ncts n)" using assms by (simp add: tables_ok_def)
  show "c < length hs" if "map_of (conns ncts n) t = Some c"
    using assms that by (simp add: tables_ok_def)
  show "\<exists>u. hs ! c = ([u, invert u], Some n) \<and> t \<in> {u, invert u}" if m: "map_of (conns ncts n) t = Some c"
  proof -
    have "c < length hs" "snd (hs ! c) = Some n" "t \<in> set (fst (hs ! c))"
      using assms m by (auto simp: tables_ok_def)
    moreover have "home_ok (length ncts) (hs ! c)"
      using assms(1) nth_mem [OF calculation(1)] unfolding tables_ok_def by blast
    ultimately show ?thesis by (auto simp: home_ok_def)
  qed
qed

lemma tables_ok_add:
  assumes ok: "tables_ok ncts hs" and "length ncts' = length ncts"
    and h: "home_ok (length ncts) ([t, invert t], Some n)"
    and "\<And>m. m < length ncts \<Longrightarrow> map_wf (conns ncts' m)"
    and eq: "\<And>m x. map_of (conns ncts' m) x =
      (if m = n \<and> x \<in> {t, invert t} then Some (length hs) else map_of (conns ncts m) x)"
  shows "tables_ok ncts' (hs @ [([t, invert t], Some n)])"
proof -
  have "c < Suc (length hs) \<and> snd ((hs @ [([t, invert t], Some n)]) ! c) = Some m
      \<and> x \<in> set (fst ((hs @ [([t, invert t], Some n)]) ! c))"
    if m: "m < length ncts" "map_of (conns ncts' m) x = Some c" for m x c
  proof (cases "m = n \<and> x \<in> {t, invert t}")
    case True
    then show ?thesis using m(2) by (auto simp: eq)
  next
    case False
    then have "map_of (conns ncts m) x = Some c" using m(2) by (simp only: eq if_False)
    then show ?thesis using ok m(1) by (simp add: tables_ok_def nth_append less_SucI)
  qed
  then show ?thesis using assms(1-4) by (simp add: tables_ok_def)
qed

lemma tables_ok_del:
  assumes ok: "tables_ok ncts hs" and "length ncts' = length ncts"
    and "\<And>m. m < length ncts \<Longrightarrow> map_wf (conns ncts' m)"
    and eq: "\<And>m x c. map_of (conns ncts' m) x = Some c \<Longrightarrow> map_of (conns ncts m) x = Some c"
  shows "tables_ok ncts' hs"
  using assms unfolding tables_ok_def by metis

lemma home_at:
  assumes "ninv L X s" and "c < length (ns_cts s)"
  obtains u n where "ct_tuple (ct_at s c) = [u, invert u]" and "ct_nct (ct_at s c) = Some n"
    and "n < length (ns_ncts s)" and "ctt_proto u \<in> {6, 17}"
proof -
  have "ct_homes s ! c \<in> set (ct_homes s)" using assms(2) by (intro nth_mem) simp
  then have "home_ok (length (ns_ncts s)) (ct_homes s ! c)"
    using ninvD(3) [OF assms(1)] unfolding tables_ok_def by blast
  then show thesis using that assms(2) by (auto simp: home_ok_def ct_at_def)
qed

lemma timer_at:
  assumes "ninv L X s" and "c < length (ns_cts s)"
  obtains t where "ct_timer (ct_at s c) = Some t" and "ct_timers s ! c = Some t"
  using timers_okD(4) [OF ninvD(1) [OF assms(1)], of c] assms(2) by (auto simp: ct_at_def)

section \<open>Changing the fields of a connection\<close>

lemma map_update_same:
  "g (f (xs ! c)) = g (xs ! c) \<Longrightarrow> map g (xs[c := f (xs ! c)]) = map g xs"
  by (cases "c < length xs") (simp_all add: map_update list_update_beyond list_update_same_conv)

lemma upd_ct_simps [simp]:
  "ns_timers (upd_ct c f s) = ns_timers s" "ns_ncts (upd_ct c f s) = ns_ncts s"
  "ns_global (upd_ct c f s) = ns_global s" "ns_now (upd_ct c f s) = ns_now s"
  "length (ns_cts (upd_ct c f s)) = length (ns_cts s)"
  "c' < length (ns_cts s) \<Longrightarrow> ct_at (upd_ct c f s) c' = (if c' = c then f (ct_at s c) else ct_at s c')"
  by (simp_all add: upd_ct_def ct_at_def)

lemma upd_ct_ninv:
  assumes inv: "ninv L X s" and c: "c < length (ns_cts s)"
    and same: "ct_tuple (f (ct_at s c)) = ct_tuple (ct_at s c)" "ct_nct (f (ct_at s c)) = ct_nct (ct_at s c)"
      "ct_timer (f (ct_at s c)) = ct_timer (ct_at s c)"
    and st: "length (ct_stats (f (ct_at s c))) = 2"
    and status: "ct_status (f (ct_at s c)) = ct_status (ct_at s c) \<or> ct_status (f (ct_at s c)) = CT_DEL
      \<or> c \<notin> L \<and> (c \<in> X \<or> n_out (ns_timers s) c = 1)"
  shows "ninv L X (upd_ct c f s)"
proof -
  have t: "ct_timers (upd_ct c f s) = ct_timers s"
    using same(3) unfolding upd_ct_def ct_at_def by (simp add: map_update_same)
  have h: "ct_homes (upd_ct c f s) = ct_homes s"
    using same(1,2) unfolding upd_ct_def ct_at_def by (simp add: map_update_same)
  have a: "alive_ok X (ns_timers s) (ct_states (upd_ct c f s))"
    using ninvD(2) [OF inv] status c
    by (auto simp: alive_ok_def upd_ct_def ct_at_def nth_list_update)
  have d: "stuck_ok L (ns_timers s) (ct_states (upd_ct c f s))"
    using ninvD(7) [OF inv] status c
    by (auto simp: stuck_ok_def upd_ct_def ct_at_def nth_list_update)
  have l: "length (ct_stats ct) = 2" if "ct \<in> set (ns_cts (upd_ct c f s))" for ct
    using that st ninvD(5) [OF inv] set_update_subset_insert [of "ns_cts s" c "f (ct_at s c)"]
    by (auto simp: upd_ct_def)
  show ?thesis
    unfolding ninv_def upd_ct_simps t h using a d l ninvD [OF inv] by blast
qed

lemma stats_at: "ninv L X s \<Longrightarrow> c < length (ns_cts s) \<Longrightarrow> length (ct_stats (ct_at s c)) = 2"
  using ninvD(5) by (simp add: ct_at_def)

lemma count_bytes_ninv:
  assumes "ninv L X s" and "c < length (ns_cts s)"
  shows "ninv L X (count_bytes c dir l s)"
  unfolding count_bytes_def by (rule upd_ct_ninv [OF assms]) (use stats_at [OF assms] in simp_all)

lemma set_status_ninv:
  assumes "ninv L X s" and "c < length (ns_cts s)" and "c \<notin> L" and "c \<in> X \<or> n_out (ns_timers s) c = 1"
  shows "ninv L X (set_status c st s)"
  unfolding set_status_def
  by (rule upd_ct_ninv [OF assms(1,2)]) (use stats_at [OF assms(1,2)] assms(3,4) in simp_all)

section \<open>Timers of a connection\<close>

lemma alive_okD: "ninv L X s \<Longrightarrow> c < length (ns_cts s) \<Longrightarrow> c \<notin> X \<Longrightarrow> ct_status (ct_at s c) \<noteq> CT_DEL \<Longrightarrow>
    n_out (ns_timers s) c = 1"
  using ninvD(2) by (auto simp: alive_ok_def ct_at_def)

lemma links_okD: "ninv L X s \<Longrightarrow> c < length (ns_cts s) \<Longrightarrow> c \<in> L \<or> n_out (ns_timers s) c = 1 \<Longrightarrow>
    linked (ns_ncts s) (ct_homes s) c"
  using ninvD(4) by (auto simp: links_ok_def)

lemma stop_timer_ninv:
  assumes inv: "ninv L X s" and c: "c < length (ns_cts s)"
  obtains b ts where "stop_timer c s = Inr (b, s\<lparr>ns_timers := ts\<rparr>)"
    and "\<not> b \<Longrightarrow> ninv L X (s\<lparr>ns_timers := ts\<rparr>)"
    and "b \<Longrightarrow> ninv L (insert c X) (s\<lparr>ns_timers := ts\<rparr>)"
    and "b \<Longrightarrow> n_out ts c = 0" and "b \<Longrightarrow> linked (ns_ncts s) (ct_homes s) c"
proof -
  obtain t where t: "ct_timer (ct_at s c) = Some t" "ct_timers s ! c = Some t"
    using timer_at [OF assms] .
  obtain b ts where st: "Timer_Stop t (ns_timers s) = (b, ts)" by fastforce
  have cl: "c < length (ct_timers s)" using c by simp
  note so = stop_ok [OF ninvD(1) [OF inv] t(2) cl st]
  have one: "n_out (ns_timers s) c = 1" if b
    by (rule stopped_pending [OF ninvD(1) [OF inv] t(2) cl]) (use st that in simp)
  have a: "alive_ok (if b then insert c X else X) ts (ct_states s)"
    using ninvD(2) [OF inv] so(3) unfolding alive_ok_def by (cases b) auto
  have l: "links_ok L ts (ns_ncts s) (ct_homes s)"
    unfolding links_ok_def
  proof (intro allI impI)
    fix c' assume c': "c' < length (ct_homes s)" "c' \<in> L \<or> n_out ts c' = 1"
    have "c' \<in> L \<or> n_out (ns_timers s) c' = 1" using so(2,3) c'(2) by (cases "c' \<noteq> c \<or> \<not> b") auto
    with c'(1) ninvD(4) [OF inv] show "linked (ns_ncts s) (ct_homes s) c'" unfolding links_ok_def by blast
  qed
  have d: "stuck_ok L ts (ct_states s)"
    using ninvD(7) [OF inv] so(2,3) one unfolding stuck_ok_def by (metis zero_neq_one)
  have i: "ninv L (if b then insert c X else X) (s\<lparr>ns_timers := ts\<rparr>)"
    using so(1) a l d ninvD(3,5,6) [OF inv] by (simp add: ninv_def)
  show thesis
  proof (rule that)
    show "stop_timer c s = Inr (b, s\<lparr>ns_timers := ts\<rparr>)"
      using t st by (simp add: stop_timer_def)
    show "linked (ns_ncts s) (ct_homes s) c" if b
      using links_okD [OF inv c] one [OF that] by blast
  qed (use i so(2) in simp_all)
qed

lemma reset_timer_ninv:
  assumes inv: "ninv L X s" and c: "c < length (ns_cts s)"
  obtains b ts where "reset_timer c d s = Inr (b, s\<lparr>ns_timers := ts\<rparr>)"
    and "ninv L X (s\<lparr>ns_timers := ts\<rparr>)" and "b \<Longrightarrow> n_out ts c = 1"
proof -
  obtain t where t: "ct_timer (ct_at s c) = Some t" "ct_timers s ! c = Some t"
    using timer_at [OF assms] .
  obtain b ts where st: "Timer_Reset (ns_now s) t d (ns_timers s) = (b, ts)" by fastforce
  have cl: "c < length (ct_timers s)" using c by simp
  note ro = reset_ok [OF ninvD(1) [OF inv] t(2) cl st]
  have i: "ninv L X (s\<lparr>ns_timers := ts\<rparr>)"
    using ninvD [OF inv] ro(1) unfolding ninv_def alive_ok_def links_ok_def stuck_ok_def
    by (simp add: ro(2) del: nth_map)
  show thesis
    by (rule that [of b ts]) (use t st i ro in \<open>simp_all add: reset_timer_def\<close>)
qed

lemma start_timer_simps [simp]:
  "ns_ncts (start_timer c d f s) = ns_ncts s" "ns_global (start_timer c d f s) = ns_global s"
  "ns_now (start_timer c d f s) = ns_now s" "length (ns_cts (start_timer c d f s)) = length (ns_cts s)"
  by (simp_all add: start_timer_def NewTimerFunc_def)

lemma start_timer_ninv:
  assumes inv: "ninv L (insert c X) s" and c: "c < length (ns_cts s)" and f: "cb_ct f = c"
    and z: "n_out (ns_timers s) c = 0" and l: "linked (ns_ncts s) (ct_homes s) c" and cL: "c \<notin> L"
  shows "ninv L (X - {c}) (start_timer c d f s)"
proof -
  obtain t ts where new: "NewTimerFunc (ns_now s) d f (ns_timers s) = (t, ts)" by fastforce
  let ?s = "start_timer c d f s"
  have s: "ns_timers ?s = ts" "ns_cts ?s = (ns_cts s)[c := (ns_cts s ! c)\<lparr>ct_timer := Some t\<rparr>]"
    using new by (simp_all add: start_timer_def upd_ct_def ct_at_def)
  have n: "n_out ts x = n_out (ns_timers s) x + (if x = c then 1 else 0)" for x
    using n_out_New [of "ns_now s" d f "ns_timers s" x] new f by auto
  have tm: "timers_ok ts (ct_timers ?s)"
    using start_ok [OF ninvD(1) [OF inv] _ _ new] z c f by (simp add: s map_update)
  have h: "ct_homes ?s = ct_homes s"
    unfolding s by (subst map_update_same) simp_all
  have st: "ct_states ?s = ct_states s"
    unfolding s by (subst map_update_same) simp_all
  have a: "alive_ok (X - {c}) ts (ct_states s)"
    using ninvD(2) [OF inv] n z by (auto simp: alive_ok_def)
  have k: "links_ok L ts (ns_ncts s) (ct_homes s)"
    using ninvD(4) [OF inv] n l by (auto simp: links_ok_def)
  have d': "stuck_ok L ts (ct_states s)"
    using ninvD(7) [OF inv] n cL by (auto simp: stuck_ok_def)
  have e: "length (ct_stats ct) = 2" if "ct \<in> set (ns_cts ?s)" for ct
    using that ninvD(5) [OF inv] c set_update_subset_insert [of "ns_cts s" c] unfolding s by fastforce
  show ?thesis
    unfolding ninv_def h st start_timer_simps using tm a k e d' ninvD [OF inv] s(1) by simp
qed

section \<open>Entering and removing a connection\<close>

definition created :: "nat \<Rightarrow> ctTuple \<Rightarrow> bool \<Rightarrow> u64 \<Rightarrow> int \<Rightarrow> netstat \<Rightarrow> netstat" where
  "created n t out l d s =
     (let c = length (ns_cts s);
          (t0, ts) = NewTimerFunc (ns_now s) d (ctTimeoutDel c) (ns_timers s)
      in s\<lparr>ns_ncts := (ns_ncts s)[n := (ns_ncts s ! n)\<lparr>nc_conntracks :=
             AList.update (invert t) c (AList.update t c (conns (ns_ncts s) n))\<rparr>],
           ns_timers := ts,
           ns_cts := ns_cts s @ [\<lparr>ct_status = CT_NEW, ct_stats = [l, 0], ct_tuple = [t, invert t],
             ct_timer = Some t0, ct_nct = Some n, ct_time = Some (ns_now s), ct_lastTime = None,
             ct_reported = False, ct_outBound = out\<rparr>]\<rparr>)"

lemma CreateConntrack_eq:
  assumes "n < length (ns_ncts s)"
  shows "CreateConntrack n t s =
    (length (ns_cts s), s\<lparr>ns_cts := ns_cts s @ [\<lparr>ct_status = CT_NEW, ct_stats = [0, 0],
        ct_tuple = [t, invert t], ct_timer = None, ct_nct = Some n, ct_time = Some (ns_now s),
        ct_lastTime = None, ct_reported = False, ct_outBound = False\<rparr>],
      ns_ncts := (ns_ncts s)[n := (ns_ncts s ! n)\<lparr>nc_conntracks :=
        AList.update (invert t) (length (ns_cts s)) (AList.update t (length (ns_cts s)) (conns (ns_ncts s) n))\<rparr>]\<rparr>)"
  using assms by (simp add: CreateConntrack_def addConntrack_def upd_nct_def ct_at_def ctOrigin_def ctReply_def Let_def)

lemma tcp_syn_new:
  assumes "n < length (ns_ncts s)" and "findConntrack s n t = None"
  shows "tcp_syn n t True l s = Inr (created n t True l CT_TCP_SYN_TIMEOUT s)"
  using assms
  by (simp add: tcp_syn_def CreateConntrack_eq created_def count_bytes_def start_timer_def upd_ct_def
      ct_at_def ctOrigin_def NewTimerFunc_def list_update_append Let_def)

lemma udp_track_new:
  assumes "n < length (ns_ncts s)" and "findConntrack s n t = None"
  shows "udp_track n t out l s = Inr (created n t out l CT_UDP_NEW_TIMEOUT s)"
  using assms
  by (cases out) (simp_all add: udp_track_def CreateConntrack_eq created_def count_bytes_def start_timer_def
      upd_ct_def ct_at_def ctOrigin_def NewTimerFunc_def list_update_append Let_def)

lemma created_conns:
  assumes "n < length (ns_ncts s)"
  shows "map_of (conns (ns_ncts (created n t out l d s)) m) x =
    (if m = n \<and> x \<in> {t, invert t} then Some (length (ns_cts s)) else map_of (conns (ns_ncts s) m) x)"
  using assms by (auto simp: created_def NewTimerFunc_def Let_def nth_list_update update_conv')

lemma created_fields:
  "length (ns_ncts (created n t out l d s)) = length (ns_ncts s)"
  "ns_global (created n t out l d s) = ns_global s"
  "length (ns_cts (created n t out l d s)) = Suc (length (ns_cts s))"
  "ns_timers (created n t out l d s) = snd (NewTimerFunc (ns_now s) d (ctTimeoutDel (length (ns_cts s))) (ns_timers s))"
  "ct_states (created n t out l d s) = ct_states s @ [CT_NEW]"
  "ct_homes (created n t out l d s) = ct_homes s @ [([t, invert t], Some n)]"
  "ct_timers (created n t out l d s) = ct_timers s @ [Some (tm_next (ns_timers s))]"
  by (simp_all add: created_def NewTimerFunc_def Let_def)

lemma created_ninv:
  assumes inv: "ninv L {} s" and n: "n < length (ns_ncts s)" and no: "findConntrack s n t = None"
    and p: "ctt_proto t \<in> {6, 17}"
  shows "ninv L {} (created n t out l d s)"
proof -
  let ?s = "created n t out l d s"
  let ?c = "length (ns_cts s)"
  have z: "n_out (ns_timers s) ?c = 0"
    using n_out_le_length [OF ninvD(1) [OF inv], of ?c] by auto
  have no': "map_of (conns (ns_ncts s) n) t = None" using no by (simp add: findConntrack_def)
  have out: "n_out (ns_timers ?s) x = n_out (ns_timers s) x + (if x = ?c then 1 else 0)" for x
    by (simp add: created_fields n_out_New)
  have tm: "timers_ok (ns_timers ?s) (ct_timers ?s)"
    using create_ok [OF ninvD(1) [OF inv], of "ctTimeoutDel ?c" "ns_now s" d]
    by (simp add: created_fields NewTimerFunc_def)
  have al: "alive_ok {} (ns_timers ?s) (ct_states ?s)"
    using ninvD(2) [OF inv] out z unfolding alive_ok_def created_fields(5)
    by (auto simp: nth_append less_Suc_eq)
  have tb: "tables_ok (ns_ncts ?s) (ct_homes ?s)"
  proof -
    have "home_ok (length (ns_ncts s)) ([t, invert t], Some n)"
      using n p by (auto simp: home_ok_def)
    moreover have "map_wf (conns (ns_ncts ?s) m)" if "m < length (ns_ncts s)" for m
      using that n tables_okD(1) [OF ninvD(3) [OF inv] that]
      by (simp add: created_def NewTimerFunc_def Let_def nth_list_update distinct_update)
    ultimately show ?thesis
      unfolding created_fields(6)
      by (intro tables_ok_add [OF ninvD(3) [OF inv]]) (auto simp: created_fields created_conns [OF n])
  qed
  have lk: "linked (ns_ncts ?s) (ct_homes ?s) x"
    if x: "x < Suc ?c" "x \<in> L \<or> n_out (ns_timers ?s) x = 1" for x
  proof (cases "x = ?c")
    case True
    then show ?thesis
      using n by (auto simp: linked_def created_fields created_conns nth_append)
  next
    case False
    then have x': "x < ?c" "x \<in> L \<or> n_out (ns_timers s) x = 1" using x out by auto
    then obtain u m where u: "ct_homes s ! x = ([u, invert u], Some m)" "m < length (ns_ncts s)"
      "map_of (conns (ns_ncts s) m) u = Some x" "map_of (conns (ns_ncts s) m) (invert u) = Some x"
      using links_okD [OF inv x'] unfolding linked_def by metis
    have "\<not> (m = n \<and> t \<in> {u, invert u})" using u(3,4) no' by auto
    then have "\<not> (m = n \<and> u \<in> {t, invert t})" "\<not> (m = n \<and> invert u \<in> {t, invert t})"
      by (auto dest: arg_cong [of _ _ invert])
    then have "map_of (conns (ns_ncts ?s) m) u = Some x" "map_of (conns (ns_ncts ?s) m) (invert u) = Some x"
      using u(3,4) by (simp_all only: created_conns [OF n] if_False)
    then show ?thesis
      using u(1,2) x'(1) by (auto simp: linked_def created_fields nth_append)
  qed
  then have lk': "links_ok L (ns_timers ?s) (ns_ncts ?s) (ct_homes ?s)"
    by (simp add: links_ok_def created_fields(3))
  have dd: "stuck_ok L (ns_timers ?s) (ct_states ?s)"
    using ninvD(7) [OF inv] out unfolding stuck_ok_def created_fields(5) by (auto simp: nth_append)
  have st: "length (ct_stats ct) = 2" if "ct \<in> set (ns_cts ?s)" for ct
    using that ninvD(5) [OF inv] by (auto simp: created_def NewTimerFunc_def Let_def)
  show ?thesis
    unfolding ninv_def using tm al tb lk' st dd ninvD(6) [OF inv] by (auto simp: created_fields(1,2))
qed

lemma delConntrack_conns:
  assumes "n < length (ns_ncts s)" and "ct_tuple (ct_at s c) = [u, invert u]"
  shows "map_of (conns (ns_ncts (delConntrack n c s)) m) x =
    (if m = n \<and> x \<in> {u, invert u} then None else map_of (conns (ns_ncts s) m) x)"
  using assms
  by (auto simp: delConntrack_def upd_nct_def Let_def ct_at_def ctOrigin_def ctReply_def nth_list_update
      AList.delete_conv')

lemma delConntrack_fields [simp]:
  "length (ns_ncts (delConntrack n c s)) = length (ns_ncts s)"
  "ns_global (delConntrack n c s) = ns_global s" "ns_cts (delConntrack n c s) = ns_cts s"
  "ns_timers (delConntrack n c s) = ns_timers s" "ns_now (delConntrack n c s) = ns_now s"
  by (simp_all add: delConntrack_def upd_nct_def Let_def)

lemma delConntrack_ninv:
  assumes inv: "ninv L X s" and c: "c < length (ns_cts s)" and z: "n_out (ns_timers s) c = 0"
    and l: "linked (ns_ncts s) (ct_homes s) c" and n: "ct_nct (ct_at s c) = Some n"
    and cL: "c \<notin> L"
  shows "ninv L X (delConntrack n c s)"
proof -
  let ?s = "delConntrack n c s"
  obtain u where u: "ct_tuple (ct_at s c) = [u, invert u]" "n < length (ns_ncts s)"
    "map_of (conns (ns_ncts s) n) u = Some c" "map_of (conns (ns_ncts s) n) (invert u) = Some c"
    using l n c by (auto simp: linked_def ct_at_def)
  note dc = delConntrack_conns [OF u(2,1)]
  have "map_wf (conns (ns_ncts ?s) m)" if "m < length (ns_ncts s)" for m
    using that u(2) tables_okD(1) [OF ninvD(3) [OF inv] that]
    by (simp add: delConntrack_def upd_nct_def Let_def nth_list_update distinct_delete)
  then have tb: "tables_ok (ns_ncts ?s) (ct_homes s)"
    by (intro tables_ok_del [OF ninvD(3) [OF inv]]) (simp_all add: dc split: if_splits)
  have lk: "linked (ns_ncts ?s) (ct_homes s) x" 
    if x: "x < length (ns_cts s)" "x \<in> L \<or> n_out (ns_timers s) x = 1" for x
  proof -
    obtain v m where v: "ct_homes s ! x = ([v, invert v], Some m)" "m < length (ns_ncts s)"
      "map_of (conns (ns_ncts s) m) v = Some x" "map_of (conns (ns_ncts s) m) (invert v) = Some x"
      using links_okD [OF inv x] unfolding linked_def by metis
    have "x \<noteq> c" using x(2) z cL by auto
    then have "\<not> (m = n \<and> v \<in> {u, invert u})" "\<not> (m = n \<and> invert v \<in> {u, invert u})"
      using v(3,4) u(3,4) by auto
    then have "map_of (conns (ns_ncts ?s) m) v = Some x" "map_of (conns (ns_ncts ?s) m) (invert v) = Some x"
      using v(3,4) by (simp_all only: dc if_False)
    then show ?thesis using v(1,2) by (auto simp: linked_def)
  qed
  show ?thesis
    unfolding ninv_def delConntrack_fields using tb lk ninvD [OF inv] by (auto simp: links_ok_def)
qed

end
