(* ===== verification/Netstat_Steps.thy ===== *)
theory Netstat_Steps
  imports Netstat_Safe
begin

text \<open>
  The steps of the statistics (a packet, the clock, a timer function that runs, a zone that
  appears or goes), their invariant, and what follows from it: nothing panics, a live connection
  is found in both directions and will be ended by its timer, and the one way in which a
  connection is never removed.
\<close>

section \<open>The operations keep the invariant\<close>

lemma upd_ct_homes:
  "ct_tuple (f (ct_at s c)) = ct_tuple (ct_at s c) \<Longrightarrow> ct_nct (f (ct_at s c)) = ct_nct (ct_at s c) \<Longrightarrow>
     ct_homes (upd_ct c f s) = ct_homes s"
  unfolding upd_ct_def ct_at_def by (simp add: map_update_same)

lemma count_bytes_simps [simp]:
  "ns_timers (count_bytes c dir l s) = ns_timers s" "ns_ncts (count_bytes c dir l s) = ns_ncts s"
  "length (ns_cts (count_bytes c dir l s)) = length (ns_cts s)"
  "c < length (ns_cts s) \<Longrightarrow> ct_status (ct_at (count_bytes c dir l s) c) = ct_status (ct_at s c)"
  by (simp_all add: count_bytes_def)

lemma set_status_simps [simp]:
  "ns_timers (set_status c st s) = ns_timers s" "ns_ncts (set_status c st s) = ns_ncts s"
  "length (ns_cts (set_status c st s)) = length (ns_cts s)"
  "ct_homes (set_status c st s) = ct_homes s"
  unfolding set_status_def by (simp_all add: upd_ct_homes)

lemma alive_notin:
  assumes "ninv L X s" and "ct_status (ct_at s c) \<noteq> CT_DEL" and "c < length (ns_cts s)"
  shows "c \<notin> L"
  using ninvD(7) [OF assms(1)] assms(2,3) by (auto simp: stuck_ok_def ct_at_def)

lemma notin_out: "ninv L X s \<Longrightarrow> n_out (ns_timers s) c = 1 \<Longrightarrow> c \<notin> L"
  using ninvD(7) by (fastforce simp: stuck_ok_def)

lemma ct_at_timers [simp]: "ct_at (s\<lparr>ns_timers := ts\<rparr>) c = ct_at s c"
  by (simp add: ct_at_def)

lemma restart_ninv:
  assumes "ninv L {c} s" and "c < length (ns_cts s)" and "cb_ct f = c" and "n_out (ns_timers s) c = 0"
    and "linked (ns_ncts s) (ct_homes s) c" and "c \<notin> L"
  shows "ninv L {} (start_timer c d f s)"
  using start_timer_ninv [of L c "{}" s f d] assms by simp

lemma establish_ninv:
  assumes inv: "ninv L {} s" and c: "c < length (ns_cts s)" and cL: "c \<notin> L"
  obtains s' where "establish c d s = Inr s'" and "ninv L {} s'"
proof -
  obtain b ts where st: "stop_timer c s = Inr (b, s\<lparr>ns_timers := ts\<rparr>)"
    and no: "\<not> b \<Longrightarrow> ninv L {} (s\<lparr>ns_timers := ts\<rparr>)"
    and yes: "b \<Longrightarrow> ninv L {c} (s\<lparr>ns_timers := ts\<rparr>)" "b \<Longrightarrow> n_out ts c = 0"
      "b \<Longrightarrow> linked (ns_ncts s) (ct_homes s) c"
    by (rule stop_timer_ninv [OF inv c]) (rule that; assumption)
  show thesis
  proof (cases b)
    case False
    with st no show ?thesis by (intro that) (simp_all add: establish_def)
  next
    case True
    let ?s = "set_status c CT_ESTABLISHED (s\<lparr>ns_timers := ts\<rparr>)"
    have "ninv L {c} ?s" using yes(1) [OF True] c cL by (intro set_status_ninv) simp_all
    then have "ninv L {} (start_timer c d (ctESTABLISHEDTimeout c (ct_stats (ct_at ?s c))) ?s)"
      using yes(2,3) [OF True] c cL by (intro restart_ninv) simp_all
    moreover have "establish c d s = Inr (start_timer c d (ctESTABLISHEDTimeout c (ct_stats (ct_at ?s c))) ?s)"
      using st True by (simp add: establish_def Let_def)
    ultimately show ?thesis by (rule that [rotated])
  qed
qed

lemma tcp_end_ninv:
  assumes inv: "ninv L {} s" and c: "c < length (ns_cts s)" and cL: "c \<notin> L"
  obtains s' where "tcp_end c s = Inr s'" and "ninv L {} s'"
proof (cases "ct_status (ct_at s c) = CT_DEL")
  case True
  with inv show ?thesis by (intro that [of s]) (simp_all add: tcp_end_def)
next
  case False
  let ?s = "upd_ct c (\<lambda>ct. ct\<lparr>ct_status := CT_DEL, ct_lastTime := Some (ns_now s)\<rparr>) s"
  have i: "ninv L {} ?s"
    using stats_at [OF inv c] by (intro upd_ct_ninv [OF inv c]) simp_all
  have c': "c < length (ns_cts ?s)" using c by simp
  obtain b ts where st: "stop_timer c ?s = Inr (b, ?s\<lparr>ns_timers := ts\<rparr>)"
    and no: "\<not> b \<Longrightarrow> ninv L {} (?s\<lparr>ns_timers := ts\<rparr>)"
    and yes: "b \<Longrightarrow> ninv L {c} (?s\<lparr>ns_timers := ts\<rparr>)" "b \<Longrightarrow> n_out ts c = 0"
      "b \<Longrightarrow> linked (ns_ncts ?s) (ct_homes ?s) c"
    by (rule stop_timer_ninv [OF i c']) (rule that; assumption)
  obtain t where t: "ct_timer (ct_at ?s c) = Some t" using timer_at [OF i c'] .
  let ?r = "if b then start_timer c CT_DEL_TIMEOUT (ctTimeoutDel c) (?s\<lparr>ns_timers := ts\<rparr>) else ?s\<lparr>ns_timers := ts\<rparr>"
  have "tcp_end c s = Inr ?r"
    using False t st by (simp add: tcp_end_def Let_def)
  moreover have "ninv L {} ?r"
  proof (cases b)
    case True
    then show ?thesis
      using restart_ninv [OF yes(1) [OF True], of "ctTimeoutDel c"] yes(2,3) [OF True] c cL by simp
  qed (use no in simp)
  ultimately show ?thesis by (rule that)
qed

lemma tcp_synack_ninv:
  assumes inv: "ninv L {} s" and c: "c < length (ns_cts s)"
  obtains s' where "tcp_synack c dir s = Inr s'" and "ninv L {} s'"
proof (cases "dir = ctReply")
  case False
  with inv show ?thesis by (intro that [of s]) (simp_all add: tcp_synack_def)
next
  case True
  obtain b ts where st: "reset_timer c CT_TCP_SYN_RCVD_TIMEOUT s = Inr (b, s\<lparr>ns_timers := ts\<rparr>)"
    and i: "ninv L {} (s\<lparr>ns_timers := ts\<rparr>)" and n: "b \<Longrightarrow> n_out ts c = 1"
    by (rule reset_timer_ninv [OF inv c]) (rule that; assumption)
  have "ninv L {} (set_status c CT_REPLY (s\<lparr>ns_timers := ts\<rparr>))" if b
    using i n [OF that] c notin_out [OF i] by (intro set_status_ninv) simp_all
  then show ?thesis
    by (intro that [of "if b then set_status c CT_REPLY (s\<lparr>ns_timers := ts\<rparr>) else s\<lparr>ns_timers := ts\<rparr>"])
      (use st i True in \<open>simp_all add: tcp_synack_def\<close>)
qed

lemma tcp_syn_ninv:
  assumes inv: "ninv L {} s" and n: "n < length (ns_ncts s)" and p: "ctt_proto t \<in> {6, 17}"
  obtains s' where "tcp_syn n t out l s = Inr s'" and "ninv L {} s'"
proof (cases "findConntrack s n t")
  case None
  show ?thesis
  proof (cases out)
    case True
    then show ?thesis
      using tcp_syn_new [OF n None] created_ninv [OF inv n None p] by (intro that) simp_all
  next
    case False
    then show ?thesis using None inv by (intro that [of s]) (simp_all add: tcp_syn_def)
  qed
next
  case (Some c)
  have c: "c < length (ns_cts s)"
    using tables_okD(2) [OF ninvD(3) [OF inv] n] Some by (simp add: findConntrack_def)
  obtain b ts where "reset_timer c CT_TCP_SYN_TIMEOUT s = Inr (b, s\<lparr>ns_timers := ts\<rparr>)"
    and "ninv L {} (s\<lparr>ns_timers := ts\<rparr>)"
    by (rule reset_timer_ninv [OF inv c]) (rule that; assumption)
  then show ?thesis
    by (intro that [of "if ct_status (ct_at s c) = CT_NEW then s\<lparr>ns_timers := ts\<rparr> else s"])
      (use Some inv in \<open>simp_all add: tcp_syn_def\<close>)
qed

lemma tcp_track_ninv:
  assumes inv: "ninv L {} s" and n: "n < length (ns_ncts s)" and p: "ctt_proto t \<in> {6, 17}"
  obtains s' where "tcp_track n t fl out l s = Inr s'" and "ninv L {} s'"
proof (cases "IsSyn fl")
  case True
  then show ?thesis
    using tcp_syn_ninv [OF inv n p] that by (metis tcp_track_def)
next
  case F: False
  show ?thesis
  proof (cases "findConntrack s n t")
    case None
    with F inv show ?thesis by (intro that [of s]) (simp_all add: tcp_track_def)
  next
    case (Some c)
    have c: "c < length (ns_cts s)"
      using tables_okD(2) [OF ninvD(3) [OF inv] n] Some by (simp add: findConntrack_def)
    show ?thesis
    proof (cases "ct_status (ct_at s c) = CT_DEL")
      case True
      with F Some inv show ?thesis by (intro that [of s]) (simp_all add: tcp_track_def)
    next
      case False
      let ?dir = "Dir (ct_at s c) t"
      let ?s = "count_bytes c ?dir l s"
      have i: "ninv L {} ?s" by (rule count_bytes_ninv [OF inv c])
      have c': "c < length (ns_cts ?s)" using c by simp
      have cL: "c \<notin> L" by (rule alive_notin [OF inv False c])
      have eq: "tcp_track n t fl out l s =
        (if fl AND TCPFlagRst \<noteq> 0 \<or> fl AND TCPFlagFin \<noteq> 0 then tcp_end c ?s
         else if ct_status (ct_at s c) = CT_ESTABLISHED then Inr ?s
         else if IsSynAck fl then tcp_synack c ?dir ?s
         else if IsAck fl \<and> ct_status (ct_at s c) = CT_REPLY then establish c CT_TCP_ESTABLISHED_TIMEOUT ?s
         else Inr ?s)"
        using F Some False c by (simp add: tcp_track_def Let_def)
      show ?thesis
        unfolding eq
        by (rule tcp_end_ninv [OF i c' cL], rule tcp_synack_ninv [OF i c', of ?dir],
            rule establish_ninv [OF i c' cL, of CT_TCP_ESTABLISHED_TIMEOUT])
          (metis i eq that)
    qed
  qed
qed

lemma udp_track_ninv:
  assumes inv: "ninv L {} s" and n: "n < length (ns_ncts s)" and p: "ctt_proto t \<in> {6, 17}"
  obtains s' where "udp_track n t out l s = Inr s'" and "ninv L {} s'"
proof (cases "findConntrack s n t")
  case None
  show ?thesis
    by (rule that [OF udp_track_new [OF n None] created_ninv [OF inv n None p]])
next
  case (Some c)
  have c: "c < length (ns_cts s)"
    using tables_okD(2) [OF ninvD(3) [OF inv] n] Some by (simp add: findConntrack_def)
  show ?thesis
  proof (cases "ct_status (ct_at s c) = CT_DEL")
    case True
    with Some inv show ?thesis by (intro that [of s]) (simp_all add: udp_track_def)
  next
    case False
    let ?dir = "Dir (ct_at s c) t"
    let ?s = "count_bytes c ?dir l s"
    have i: "ninv L {} ?s" by (rule count_bytes_ninv [OF inv c])
    have c': "c < length (ns_cts ?s)" using c by simp
    have cL: "c \<notin> L" by (rule alive_notin [OF inv False c])
    have eq: "udp_track n t out l s =
      (if ct_status (ct_at s c) = CT_ESTABLISHED then Inr ?s
       else if ?dir = ctReply then establish c CT_UDP_ESTABLISHED_TIMEOUT ?s else Inr ?s)"
      using Some False c by (simp add: udp_track_def Let_def)
    show ?thesis
      unfolding eq
      by (rule establish_ninv [OF i c' cL, of CT_UDP_ESTABLISHED_TIMEOUT]) (metis i eq that)
  qed
qed

section \<open>Packets\<close>

lemma transportProtos_eq:
  "transportProtos p = (if p = UDPProtocolNumber then Some udpHandler
     else if p = TCPProtocolNumber then Some tcpHandler else None)"
  by (simp add: transportProtos_def transportHandlers_def)

lemma networkProtos_eq:
  "networkProtos p = (if p = ARPProtocolNumber then Some arpHandler
     else if p = IPv4ProtocolNumber then Some ipHandler else None)"
  by (simp add: networkProtos_def networkHandlers_def)

lemma GetNctByZone_bound:
  assumes "ninv L X s" and "GetNctByZone s z = Some n"
  shows "n < length (ns_ncts s)"
  using ninvD(6) [OF assms(1)] map_of_SomeD [OF assms(2) [unfolded GetNctByZone_def]]
  by (auto simp: zones_ok_def)

lemma getTCPTuple_proto:
  "getTCPTuple pkb = Inr t \<Longrightarrow> LoadNetworkData pkb = Inr h \<Longrightarrow> Protocol h = Inr p \<Longrightarrow> ctt_proto t = p"
  by (auto simp: getTCPTuple_def bind_res_eq_Inr)

lemma getUDPTuple_proto:
  "getUDPTuple pkb = Inr t \<Longrightarrow> LoadNetworkData pkb = Inr h \<Longrightarrow> Protocol h = Inr p \<Longrightarrow> ctt_proto t = p"
  by (auto simp: getUDPTuple_def bind_res_eq_Inr)

lemma tcpHandler_ninv:
  assumes inv: "ninv L {} s" and r: "tcpHandler pkb s = Inr s'"
    and h: "LoadNetworkData pkb = Inr h" "Protocol h = Inr TCPProtocolNumber"
  shows "ninv L {} s'"
proof -
  obtain t where t: "getTCPTuple pkb = Inr t" using r by (auto simp: tcpHandler_def Let_def bind_res_eq_Inr)
  show ?thesis
  proof (cases "GetNctByZone s (GetPktVid pkb)")
    case None
    with r t inv show ?thesis by (simp add: tcpHandler_def)
  next
    case (Some n)
    have p: "ctt_proto t \<in> {6, 17}"
      using getTCPTuple_proto [OF t h] by (simp add: TCPProtocolNumber_def)
    obtain fl where eq: "tcp_track n t fl (IsOutBound pkb) (ucast (GetDataLen pkb)) s = Inr s'"
      using r t Some by (auto simp: tcpHandler_def bind_res_eq_Inr)
    show ?thesis
      by (rule tcp_track_ninv [OF inv GetNctByZone_bound [OF inv Some] p,
            of fl "IsOutBound pkb" "ucast (GetDataLen pkb)"]) (simp add: eq)
  qed
qed

lemma udpHandler_ninv:
  assumes inv: "ninv L {} s" and r: "udpHandler pkb s = Inr s'"
    and h: "LoadNetworkData pkb = Inr h" "Protocol h = Inr UDPProtocolNumber"
  shows "ninv L {} s'"
proof -
  obtain t where t: "getUDPTuple pkb = Inr t" using r by (auto simp: udpHandler_def Let_def bind_res_eq_Inr)
  show ?thesis
  proof (cases "GetNctByZone s (GetPktVid pkb)")
    case None
    with r t inv show ?thesis by (simp add: udpHandler_def)
  next
    case (Some n)
    have p: "ctt_proto t \<in> {6, 17}"
      using getUDPTuple_proto [OF t h] by (simp add: UDPProtocolNumber_def)
    have eq: "udp_track n t (IsOutBound pkb) (ucast (GetDataLen pkb)) s = Inr s'"
      using r t Some by (simp add: udpHandler_def)
    show ?thesis
      by (rule udp_track_ninv [OF inv GetNctByZone_bound [OF inv Some] p,
            of "IsOutBound pkb" "ucast (GetDataLen pkb)"]) (simp add: eq)
  qed
qed

lemma LoadNetworkData_SetTransportHeader [simp]:
  "LoadNetworkData (SetTransportHeader pkb i) = LoadNetworkData pkb"
  by (simp add: LoadNetworkData_def SetTransportHeader_def buf_slice_def)

lemma ipHandler_ninv:
  assumes inv: "ninv L {} s" and r: "ipHandler pkb s = Inr (pkb', s')"
  shows "ninv L {} s'"
proof -
  obtain h where h: "LoadNetworkData pkb = Inr h" using r by (auto simp: ipHandler_def bind_res_eq_Inr)
  show ?thesis
  proof (cases "s' = s")
    case False
    then obtain p hd and hl :: byte where p: "Protocol h = Inr p" "transportProtos p = Some hd"
      "hd (SetTransportHeader pkb (uint hl)) s = Inr s'"
      using r h by (auto simp: ipHandler_def Let_def bind_res_eq_Inr split: if_splits option.splits)
    have h': "LoadNetworkData (SetTransportHeader pkb (uint hl)) = Inr h" using h by simp
    show ?thesis
      using p tcpHandler_ninv [OF inv _ h'] udpHandler_ninv [OF inv _ h']
      by (auto simp: transportProtos_eq split: if_splits)
  qed (use inv in simp)
qed

lemma etherPktHandle_ninv:
  assumes inv: "ninv L {} s" and r: "etherPktHandle pkb s = Inr (pkb', s')"
  shows "ninv L {} s'"
proof -
  obtain e where "(case networkProtos e of None \<Rightarrow> Inr (pkb, s)
      | Some handle \<Rightarrow> handle (SetNetworkHeader pkb (int EtherSize)) s) = Inr (pkb', s')"
    using r by (auto simp: etherPktHandle_def bind_res_eq_Inr)
  then show ?thesis
    using inv ipHandler_ninv [OF inv, of "SetNetworkHeader pkb (int EtherSize)"]
    by (auto simp: networkProtos_eq arpHandler_def split: if_splits)
qed

section \<open>Timer functions\<close>

definition dequeue :: "ct_timeout list \<Rightarrow> netstat \<Rightarrow> netstat" where
  "dequeue fs s = s\<lparr>ns_timers := (ns_timers s)\<lparr>tm_running := fs\<rparr>\<rparr>"

lemma dequeue_simps [simp]:
  "ns_cts (dequeue fs s) = ns_cts s" "ns_ncts (dequeue fs s) = ns_ncts s"
  "ns_global (dequeue fs s) = ns_global s" "ct_at (dequeue fs s) c = ct_at s c"
  "ns_now (dequeue fs s) = ns_now s"
  by (simp_all add: dequeue_def ct_at_def)

lemma dequeue_ninv:
  assumes inv: "ninv L {} s" and q: "tm_running (ns_timers s) = fs @ f # gs"
  shows "ninv L {cb_ct f} (dequeue (fs @ gs) s)" and "n_out (ns_timers (dequeue (fs @ gs) s)) (cb_ct f) = 0"
    and "linked (ns_ncts s) (ct_homes s) (cb_ct f)" and "cb_ct f < length (ns_cts s)" and "cb_ct f \<notin> L"
proof -
  let ?c = "cb_ct f" and ?s = "dequeue (fs @ gs) s"
  have n: "n_out (ns_timers s) x = n_out (ns_timers ?s) x + (if x = ?c then 1 else 0)" for x
    by (simp add: n_out_def dequeue_def q)
  have one: "n_out (ns_timers s) ?c = 1" "n_out (ns_timers ?s) ?c = 0"
    using n [of ?c] timers_okD(6) [OF ninvD(1) [OF inv], of ?c] by simp_all
  show "n_out (ns_timers ?s) ?c = 0" by (rule one(2))
  show c: "?c < length (ns_cts s)"
    using timers_okD(5) [OF ninvD(1) [OF inv], of f] q by simp
  show cL: "?c \<notin> L" by (rule notin_out [OF inv one(1)])
  show "linked (ns_ncts s) (ct_homes s) ?c" using links_okD [OF inv c] one(1) by blast
  have "n_out (ns_timers ?s) x \<le> 1" for x using n [of x] timers_okD(6) [OF ninvD(1) [OF inv], of x] by simp
  then have tm: "timers_ok (ns_timers ?s) (ct_timers s)"
    using ninvD(1) [OF inv] q by (simp add: timers_ok_def dequeue_def)
  have "alive_ok {?c} (ns_timers ?s) (ct_states s)"
    using ninvD(2) [OF inv] n by (auto simp: alive_ok_def)
  moreover have "links_ok L (ns_timers ?s) (ns_ncts s) (ct_homes s)"
    unfolding links_ok_def
  proof (intro allI impI)
    fix x assume x: "x < length (ct_homes s)" "x \<in> L \<or> n_out (ns_timers ?s) x = 1"
    then have "x \<in> L \<or> n_out (ns_timers s) x = 1" using n [of x] one(2) by (cases "x = ?c") auto
    then show "linked (ns_ncts s) (ct_homes s) x" using links_okD [OF inv, of x] x(1) by simp
  qed
  moreover have "stuck_ok L (ns_timers ?s) (ct_states s)"
    using ninvD(7) [OF inv] n cL unfolding stuck_ok_def by fastforce
  ultimately show "ninv L {?c} ?s"
    using tm ninvD(3,5,6) [OF inv] by (simp add: ninv_def)
qed

lemma ninv_weaken:
  assumes "ninv L {c} s" and "c < length (ns_cts s) \<Longrightarrow> ct_status (ct_at s c) = CT_DEL"
  shows "ninv L {} s"
  using assms by (auto simp: ninv_def alive_ok_def ct_at_def)

lemma proto_timeout: "p \<in> {6, 17} \<Longrightarrow> \<exists>d. getProtoEstablishTimeout p = Inr d"
  by (auto simp: getProtoEstablishTimeout_def)

lemma run_timeout_ninv:
  assumes inv: "ninv L {} s" and q: "tm_running (ns_timers s) = fs @ f # gs"
  obtains s' where "run_timeout f (dequeue (fs @ gs) s) = Inr s'" and "ninv L {} s'"
proof -
  let ?s = "dequeue (fs @ gs) s"
  note d = dequeue_ninv [OF inv q]
  obtain u n where h: "ct_tuple (ct_at s (cb_ct f)) = [u, invert u]" "ct_nct (ct_at s (cb_ct f)) = Some n"
    "n < length (ns_ncts s)" "ctt_proto u \<in> {6, 17}"
    by (rule home_at [OF inv d(4)]) (rule that; assumption)
  show thesis
  proof (cases f)
    case (ctTimeoutDel c)
    let ?t = "upd_ct c (\<lambda>ct. ct\<lparr>ct_status := CT_DEL\<rparr>) ?s"
    have c: "c < length (ns_cts ?s)" using d(4) ctTimeoutDel by simp
    have "ninv L {c} ?t"
      using d(1) ctTimeoutDel stats_at [OF d(1)] c by (intro upd_ct_ninv) simp_all
    then have i: "ninv L {} ?t" by (rule ninv_weaken) (use c in simp)
    have "ct_homes ?t = ct_homes s" by (subst upd_ct_homes) simp_all
    then have "ninv L {} (delConntrack n c ?t)"
      by (intro delConntrack_ninv [OF i]) (use d c h ctTimeoutDel in simp_all)
    then show ?thesis
      by (intro that [of "delConntrack n c ?t"]) (use ctTimeoutDel h c in \<open>simp_all add: Let_def\<close>)
  next
    case (ctESTABLISHEDTimeout c old)
    have c: "c < length (ns_cts ?s)" using d(4) ctESTABLISHEDTimeout by simp
    have st: "ninv L {} (start_timer c e g r)"
      if "ninv L {c} r" "ns_timers r = ns_timers ?s" "ct_homes r = ct_homes s" "ns_ncts r = ns_ncts s"
        "length (ns_cts r) = length (ns_cts s)" "cb_ct g = c" for e g r
      by (rule restart_ninv [OF that(1)]) (use that d c ctESTABLISHEDTimeout in simp_all)
    consider "ct_status (ct_at s c) = CT_DEL" | "ct_status (ct_at s c) \<noteq> CT_DEL" "old \<noteq> ct_stats (ct_at s c)"
      | "ct_status (ct_at s c) \<noteq> CT_DEL" "old = ct_stats (ct_at s c)" by blast
    then show ?thesis
    proof cases
      case 1
      then have "ninv L {} ?s" using d(1) ctESTABLISHEDTimeout by (intro ninv_weaken) simp_all
      with 1 show ?thesis by (intro that [of ?s]) (simp_all add: ctESTABLISHEDTimeout)
    next
      case 2
      obtain e where e: "getProtoEstablishTimeout (ctt_proto u) = Inr e"
        using proto_timeout [OF h(4)] by blast
      have "ninv L {} (start_timer c e (ctESTABLISHEDTimeout c (ct_stats (ct_at s c))) ?s)"
        by (rule st) (use d(1) ctESTABLISHEDTimeout in simp_all)
      moreover have "run_timeout f ?s = Inr (start_timer c e (ctESTABLISHEDTimeout c (ct_stats (ct_at s c))) ?s)"
        using 2 e h(1) ctESTABLISHEDTimeout by (simp add: ctOrigin_def)
      ultimately show ?thesis by (rule that [rotated])
    next
      case 3
      let ?t = "upd_ct c (\<lambda>ct. ct\<lparr>ct_status := CT_DEL, ct_lastTime := Some (ns_now s)\<rparr>) ?s"
      have "ninv L {c} ?t"
        using d(1) ctESTABLISHEDTimeout stats_at [OF d(1)] c by (intro upd_ct_ninv) simp_all
      moreover have "ct_homes ?t = ct_homes s" by (subst upd_ct_homes) simp_all
      ultimately have "ninv L {} (start_timer c CT_DEL_TIMEOUT (ctTimeoutDel c) ?t)"
        by (intro st) simp_all
      moreover have "run_timeout f ?s = Inr (start_timer c CT_DEL_TIMEOUT (ctTimeoutDel c) ?t)"
        using 3 ctESTABLISHEDTimeout by (simp add: Let_def)
      ultimately show ?thesis by (rule that [rotated])
    qed
  qed
qed

end
