(* ===== verification/Netstat_Reach.thy ===== *)
theory Netstat_Reach
  imports Netstat_Steps
begin

text \<open>
  The steps of the statistics in any order, and the properties of the states they reach.
\<close>

section \<open>Packets with room for their headers\<close>

text \<open>
  The accessors look at most 88 bytes behind the start of the frame: 14 for Ethernet, up to 60
  for IPv4 and 14 for the flags of TCP. The windows reach to the end of the buffer, not of the packet.
\<close>

definition header_room :: "PktBuf \<Rightarrow> bool" where
  "header_room pkb \<longleftrightarrow> pb_wf pkb \<and> 0 \<le> pb_macHeader pkb \<and> pb_macHeader pkb + 88 \<le> pktBufSize
     \<and> pb_macHeader pkb < uint (pb_len pkb) \<and> uint (pb_len pkb) \<le> pktBufSize"

lemma buf_slice_ok:
  assumes "pb_wf pkb" and "0 \<le> lo" and "lo + int k \<le> pktBufSize"
  obtains h where "buf_slice pkb lo (int (length (pb_buf pkb))) = Inr h" and "sl_wf h" and "k \<le> sl_len h"
proof -
  have l: "length (pb_buf pkb) = 1528" using assms(1) by (rule pb_wf_length)
  let ?h = "\<lparr>sl_arr = pb_buf pkb, sl_off = nat lo, sl_len = nat (1528 - lo)\<rparr>"
  have "buf_slice pkb lo (int (length (pb_buf pkb))) = Inr ?h"
    using assms l by (simp add: buf_slice_def pktBufSize_def)
  then show thesis
    by (rule that) (use assms l in \<open>auto simp: sl_wf_def pktBufSize_def\<close>)
qed

lemma HeaderLength_le: "uint ((v AND 0xf) * 4 :: byte) \<le> 60"
proof -
  have "v AND 0xf \<le> (0xf :: byte)" by (rule word_and_le1)
  then have "uint (v AND 0xf) \<le> 15" by (simp add: word_le_def)
  then have "uint (v AND 0xf) * 4 \<le> 60" by simp
  moreover have "0 \<le> uint (v AND 0xf)" by (rule unsigned_greater_eq)
  ultimately show ?thesis
    by (simp add: uint_word_ariths mod_pos_pos_trivial)
qed

lemma TCP_total: "sl_wf h \<Longrightarrow> 14 \<le> sl_len h \<Longrightarrow>
    \<exists>a b c. TCP_SourcePort h = Inr a \<and> TCP_DestinationPort h = Inr b \<and> TCP_Flags h = Inr c
      \<and> UDP_SourcePort h = Inr a \<and> UDP_DestinationPort h = Inr b"
  by (simp add: TCP_SourcePort_def TCP_DestinationPort_def TCP_Flags_def UDP_SourcePort_def
      UDP_DestinationPort_def sl_u16_ok sl_index_ok)

lemma IP_total: "sl_wf h \<Longrightarrow> 20 \<le> sl_len h \<Longrightarrow>
    \<exists>a b c d e f. SourceAddress h = Inr a \<and> DestinationAddress h = Inr b \<and> Protocol h = Inr c
      \<and> IsIPv4 h = Inr d \<and> FragmentOffset h = Inr e \<and> HeaderLength h = Inr f \<and> uint f \<le> 60"
  using HeaderLength_le
  by (simp add: SourceAddress_def DestinationAddress_def Protocol_def IsIPv4_def FragmentOffset_def
      HeaderLength_def sl_u16_ok sl_u32_ok sl_index_ok)

lemma tuple_total:
  assumes "LoadNetworkData pkb = Inr h" and "sl_wf h" "20 \<le> sl_len h"
    and "LoadTransportData pkb = Inr g" and "sl_wf g" "14 \<le> sl_len g"
  obtains t fl where "getTCPTuple pkb = Inr t" and "getUDPTuple pkb = Inr t"
    and "TCP_Flags g = Inr fl" and "Protocol h = Inr (ctt_proto t)"
proof -
  obtain a b c where n: "SourceAddress h = Inr a" "DestinationAddress h = Inr b" "Protocol h = Inr c"
    using IP_total [OF assms(2,3)] by blast
  obtain x y z where t: "TCP_SourcePort g = Inr x" "TCP_DestinationPort g = Inr y" "TCP_Flags g = Inr z"
    "UDP_SourcePort g = Inr x" "UDP_DestinationPort g = Inr y"
    using TCP_total [OF assms(5,6)] by blast
  show thesis
    by (rule that [of "\<lparr>ctt_saddr = a, ctt_daddr = b, ctt_sport = x, ctt_dport = y, ctt_proto = c\<rparr>" z])
      (simp_all add: getTCPTuple_def getUDPTuple_def assms(1,4) n t)
qed

lemma handler_total:
  assumes inv: "ninv L {} s"
    and "LoadNetworkData pkb = Inr h" and "sl_wf h" "20 \<le> sl_len h" and p: "Protocol h = Inr p"
    and g: "LoadTransportData pkb = Inr g" and "sl_wf g" "14 \<le> sl_len g"
    and hdl: "transportProtos p = Some hdl"
  shows "\<exists>s'. hdl pkb s = Inr s'"
proof -
  obtain t fl where t: "getTCPTuple pkb = Inr t" "getUDPTuple pkb = Inr t"
    "TCP_Flags g = Inr fl" "Protocol h = Inr (ctt_proto t)"
    by (rule tuple_total [OF assms(2-4) assms(6-8)]) (rule that; assumption)
  have pp: "ctt_proto t \<in> {6, 17}"
    using hdl p t(4) by (auto simp: transportProtos_eq TCPProtocolNumber_def UDPProtocolNumber_def split: if_splits)
  have "\<exists>s'. tcp_track n t fl o1 l s = Inr s'" "\<exists>s'. udp_track n t o1 l s = Inr s'"
    if "GetNctByZone s z = Some n" for n z o1 l
    using tcp_track_ninv [OF inv GetNctByZone_bound [OF inv that] pp]
      udp_track_ninv [OF inv GetNctByZone_bound [OF inv that] pp] by metis+
  then have "\<exists>s'. tcpHandler pkb s = Inr s'" "\<exists>s'. udpHandler pkb s = Inr s'"
    using t g by (auto simp: tcpHandler_def udpHandler_def Let_def split: option.splits)
  then show ?thesis using hdl by (auto simp: transportProtos_eq split: if_splits)
qed

lemma etherPktHandle_total:
  assumes inv: "ninv L {} s" and room: "header_room pkb"
  shows "\<exists>pkb' s'. etherPktHandle pkb s = Inr (pkb', s')"
proof -
  let ?n = "SetNetworkHeader pkb (int EtherSize)"
  have wf: "pb_wf pkb" "pb_wf ?n" using room by (simp_all add: header_room_def SetNetworkHeader_def pb_wf_def)
  have l: "length (pb_buf pkb) = 1528" using wf(1) by (rule pb_wf_length)
  obtain e where e: "LoadUserData pkb = Inr e" "sl_len e \<noteq> 0" "sl_off e = nat (pb_macHeader pkb)"
    "sl_arr e = pb_buf pkb"
    using room l by (auto simp: LoadUserData_def buf_slice_def header_room_def pktBufSize_def)
  have "\<exists>eth. TranEther e = Inr eth"
    using e room l by (auto simp: TranEther_def header_room_def pktBufSize_def EtherSize_def Let_def)
  moreover have "\<exists>r. ipHandler ?n s = Inr r"
  proof -
    obtain h where h: "LoadNetworkData ?n = Inr h" "sl_wf h" "20 \<le> sl_len h"
      using buf_slice_ok [OF wf(2), of "pb_networkHeader ?n" 20] room
      by (auto simp: LoadNetworkData_def header_room_def SetNetworkHeader_def EtherSize_def)
    obtain a b c d where f: "Protocol h = Inr a" "IsIPv4 h = Inr b" "FragmentOffset h = Inr c"
      "HeaderLength h = Inr d" "uint d \<le> 60"
      using IP_total [OF h(2,3)] by blast
    let ?t = "SetTransportHeader ?n (uint d)"
    have "0 \<le> uint d" by (rule unsigned_greater_eq)
    then obtain g where g: "LoadTransportData ?t = Inr g" "sl_wf g" "14 \<le> sl_len g"
      using buf_slice_ok [of ?t "pb_transportHeader ?t" 14] room f(5) wf
      by (auto simp: LoadTransportData_def header_room_def SetNetworkHeader_def SetTransportHeader_def
          EtherSize_def pb_wf_def)
    have "LoadNetworkData ?t = Inr h" using h by simp
    then have "\<exists>s'. hdl ?t s = Inr s'" if "transportProtos a = Some hdl" for hdl
      using handler_total [OF inv _ h(2,3) f(1) g that] by simp
    then show ?thesis
      using h f by (auto simp: ipHandler_def Let_def split: option.splits)
  qed
  ultimately show ?thesis
    using e(1) by (auto simp: etherPktHandle_def networkProtos_eq arpHandler_def)
qed

section \<open>Steps\<close>

definition ns_clock :: "int \<Rightarrow> netstat \<Rightarrow> netstat" where
  "ns_clock d s = s\<lparr>ns_now := ns_now s + d, ns_timers := timers_due (ns_now s + d) (ns_timers s)\<rparr>"

inductive ns_step :: "netstat \<Rightarrow> netstat \<Rightarrow> bool" where
  tcp: "GetNctByZone s z = Some n \<Longrightarrow> ctt_proto t = TCPProtocolNumber \<Longrightarrow>
    tcp_track n t fl out l s = Inr s' \<Longrightarrow> ns_step s s'"
| udp: "GetNctByZone s z = Some n \<Longrightarrow> ctt_proto t = UDPProtocolNumber \<Longrightarrow>
    udp_track n t out l s = Inr s' \<Longrightarrow> ns_step s s'"
| clock: "0 \<le> d \<Longrightarrow> ns_step s (ns_clock d s)"
| fire: "tm_running (ns_timers s) = fs @ f # gs \<Longrightarrow> run_timeout f (dequeue (fs @ gs) s) = Inr t \<Longrightarrow> ns_step s t"
| zone: "ns_step s (SetNetZone z s)"
| no_zone: "ns_step s (DelNetZone z s)"

inductive_cases ns_stepE: "ns_step s t"

definition empty_netstat :: netstat where
  "empty_netstat = \<lparr>ns_cts = [], ns_ncts = [], ns_global = [],
     ns_timers = \<lparr>tm_pending = [], tm_running = [], tm_next = 0\<rparr>, ns_now = 0\<rparr>"

abbreviation ns_reachable :: "netstat \<Rightarrow> bool" where
  "ns_reachable s \<equiv> ns_step\<^sup>*\<^sup>* empty_netstat s"

lemma ns_clock_ninv: "ninv L {} s \<Longrightarrow> ninv L {} (ns_clock d s)"
  using due_ok by (simp add: ninv_def ns_clock_def alive_ok_def links_ok_def stuck_ok_def n_out_due del: nth_map)

lemma set_update_sub: "set (AList.update a b xs) \<subseteq> insert (a, b) (set xs)"
  by (induction xs) auto

lemma SetNetZone_ninv:
  assumes inv: "ninv L {} s"
  shows "ninv L {} (SetNetZone z s)"
proof (cases "map_of (ns_global s) (word_of_int z)")
  case (Some n)
  with inv show ?thesis by (simp add: SetNetZone_def Let_def)
next
  case None
  let ?k = "length (ns_ncts s)"
  let ?ncts = "ns_ncts s @ [\<lparr>nc_netZone = word_of_int z, nc_conntracks = []\<rparr>]"
  have eq: "SetNetZone z s = s\<lparr>ns_ncts := ?ncts, ns_global := AList.update (word_of_int z) ?k (ns_global s)\<rparr>"
    using None by (simp add: SetNetZone_def newNetConntrack_def Let_def)
  have m: "map_of (conns ?ncts n) x = (if n < ?k then map_of (conns (ns_ncts s) n) x else None)"
    if "n < Suc ?k" for n x
    using that by (simp add: nth_append)
  have hm: "home_ok (Suc k) h" if "home_ok k h" for k h
    using that by (auto simp: home_ok_def less_SucI)
  have tb: "tables_ok ?ncts (ct_homes s)"
    using ninvD(3) [OF inv] hm unfolding tables_ok_def
    by (auto simp: nth_append less_Suc_eq simp del: nth_map)
  have lk: "linked ?ncts hs c" if "linked (ns_ncts s) hs c" for hs c
    using that unfolding linked_def by (fastforce simp: nth_append)
  have zn: "zones_ok (AList.update (word_of_int z) ?k (ns_global s)) (Suc ?k)"
    using ninvD(6) [OF inv] set_update_sub [of "word_of_int z" ?k "ns_global s"]
    unfolding zones_ok_def by (fastforce simp: distinct_update less_SucI)
  show ?thesis
    using ninvD [OF inv] tb lk zn by (simp add: ninv_def eq links_ok_def)
qed

lemma DelNetZone_ninv: "ninv L {} s \<Longrightarrow> ninv L {} (DelNetZone z s)"
proof -
  have "zones_ok g k \<Longrightarrow> zones_ok (AList.delete a g) k" for g k a
    by (auto simp: zones_ok_def distinct_delete) (auto simp: AList.delete_eq)
  then show "ninv L {} s \<Longrightarrow> ninv L {} (DelNetZone z s)"
    by (simp add: ninv_def DelNetZone_def)
qed

lemma ns_step_ninv:
  assumes "ns_step s t" and inv: "ninv L {} s"
  shows "ninv L {} t"
  using assms(1)
proof cases
  case (tcp z n u fl out l)
  have "ctt_proto u \<in> {6, 17}" using tcp(2) by (simp add: TCPProtocolNumber_def)
  then show ?thesis
    by (rule tcp_track_ninv [OF inv GetNctByZone_bound [OF inv tcp(1)], of u fl out l]) (use tcp(3) in simp)
next
  case (udp z n u out l)
  have "ctt_proto u \<in> {6, 17}" using udp(2) by (simp add: UDPProtocolNumber_def)
  then show ?thesis
    by (rule udp_track_ninv [OF inv GetNctByZone_bound [OF inv udp(1)], of u out l]) (use udp(3) in simp)
next
  case (fire fs f gs)
  show ?thesis by (rule run_timeout_ninv [OF inv fire(1)]) (use fire(2) in simp)
qed (simp_all add: inv ns_clock_ninv SetNetZone_ninv DelNetZone_ninv)

lemma ns_steps_ninv: "ns_step\<^sup>*\<^sup>* s t \<Longrightarrow> ninv L {} s \<Longrightarrow> ninv L {} t"
  by (induction rule: rtranclp_induct) (auto intro: ns_step_ninv)

lemma empty_ninv: "ninv {} {} empty_netstat"
  by (simp add: ninv_def empty_netstat_def timers_ok_def alive_ok_def tables_ok_def links_ok_def
      stuck_ok_def zones_ok_def n_out_def)

lemma reachable_ninv: "ns_reachable s \<Longrightarrow> ninv {} {} s"
  by (rule ns_steps_ninv [OF _ empty_ninv])

text \<open>A packet that is handled is such a step, or has no effect.\<close>

lemma tcpHandler_step:
  assumes "tcpHandler pkb s = Inr t" and "LoadNetworkData pkb = Inr h" "Protocol h = Inr TCPProtocolNumber"
  shows "ns_step\<^sup>=\<^sup>= s t"
proof -
  obtain u where u: "getTCPTuple pkb = Inr u" using assms(1) by (auto simp: tcpHandler_def Let_def bind_res_eq_Inr)
  note p = getTCPTuple_proto [OF u assms(2,3)]
  show ?thesis
    using assms(1) u ns_step.tcp [OF _ p] by (auto simp: tcpHandler_def bind_res_eq_Inr split: option.splits)
qed

lemma udpHandler_step:
  assumes "udpHandler pkb s = Inr t" and "LoadNetworkData pkb = Inr h" "Protocol h = Inr UDPProtocolNumber"
  shows "ns_step\<^sup>=\<^sup>= s t"
proof -
  obtain u where u: "getUDPTuple pkb = Inr u" using assms(1) by (auto simp: udpHandler_def Let_def bind_res_eq_Inr)
  note p = getUDPTuple_proto [OF u assms(2,3)]
  show ?thesis
    using assms(1) u ns_step.udp [OF _ p] by (auto simp: udpHandler_def bind_res_eq_Inr split: option.splits)
qed

lemma etherPktHandle_step:
  assumes r: "etherPktHandle pkb s = Inr (pkb', t)"
  shows "ns_step\<^sup>=\<^sup>= s t"
proof (cases "t = s")
  case False
  let ?n = "SetNetworkHeader pkb (int EtherSize)"
  obtain e where "(case networkProtos e of None \<Rightarrow> Inr (pkb, s) | Some handle \<Rightarrow> handle ?n s) = Inr (pkb', t)"
    using r by (auto simp: etherPktHandle_def bind_res_eq_Inr)
  then have ip: "ipHandler ?n s = Inr (pkb', t)"
    using False by (auto simp: networkProtos_eq arpHandler_def split: if_splits)
  obtain h where h: "LoadNetworkData ?n = Inr h" using ip by (auto simp: ipHandler_def bind_res_eq_Inr)
  obtain p hdl and hl :: byte where p: "Protocol h = Inr p" "transportProtos p = Some hdl"
    "hdl (SetTransportHeader ?n (uint hl)) s = Inr t"
    using ip h False by (auto simp: ipHandler_def Let_def bind_res_eq_Inr split: if_splits option.splits)
  have h': "LoadNetworkData (SetTransportHeader ?n (uint hl)) = Inr h" using h by simp
  show ?thesis
    using p tcpHandler_step [OF _ h'] udpHandler_step [OF _ h'] by (auto simp: transportProtos_eq split: if_splits)
qed simp

section \<open>The properties\<close>

lemma run_timeout_total:
  assumes "ninv L {} s" and "tm_running (ns_timers s) = fs @ f # gs"
  shows "\<exists>t. run_timeout f (dequeue (fs @ gs) s) = Inr t"
  by (rule run_timeout_ninv [OF assms]) blast

lemma alive_linked:
  assumes "ninv {} {} s" and "c < length (ns_cts s)" and "ct_status (ct_at s c) \<noteq> CT_DEL"
  shows "n_out (ns_timers s) c = 1" and "linked (ns_ncts s) (ct_homes s) c"
proof -
  show "n_out (ns_timers s) c = 1" using alive_okD [OF assms(1,2)] assms(3) by simp
  then show "linked (ns_ncts s) (ct_homes s) c" using links_okD [OF assms(1,2)] by blast
qed

definition demo_tuple :: ctTuple where
  "demo_tuple = \<lparr>ctt_saddr = 0x0a000001, ctt_daddr = 0x0a000002, ctt_sport = 5000, ctt_dport = 80, ctt_proto = 6\<rparr>"

definition demo_zone :: netstat where
  "demo_zone = SetNetZone 1 empty_netstat"

definition demo_syn :: netstat where
  "demo_syn = created 0 demo_tuple True 60 CT_TCP_SYN_TIMEOUT demo_zone"

lemma demo_zone_fields:
  "ns_ncts demo_zone = [\<lparr>nc_netZone = 1, nc_conntracks = []\<rparr>]" "ns_global demo_zone = [(1, 0)]"
  "ns_cts demo_zone = []" "ns_now demo_zone = 0"
  "ns_timers demo_zone = \<lparr>tm_pending = [], tm_running = [], tm_next = 0\<rparr>"
  by (simp_all add: demo_zone_def SetNetZone_def newNetConntrack_def empty_netstat_def Let_def)

lemma demo_zone_reachable: "ns_reachable demo_zone"
  unfolding demo_zone_def by (rule r_into_rtranclp) (rule ns_step.zone)

lemma demo_syn_step: "tcp_track 0 demo_tuple 2 True 60 demo_zone = Inr demo_syn"
proof -
  have "findConntrack demo_zone 0 demo_tuple = None" by (simp add: findConntrack_def demo_zone_fields)
  then show ?thesis
    using tcp_syn_new [of 0 demo_zone demo_tuple 60]
    by (simp add: tcp_track_def IsSyn_def TCPFlagSyn_def demo_syn_def demo_zone_fields)
qed

lemma demo_syn_reachable: "ns_reachable demo_syn"
proof (rule rtranclp.rtrancl_into_rtrancl [OF demo_zone_reachable])
  show "ns_step demo_zone demo_syn"
    by (rule ns_step.tcp [of _ 1 0 demo_tuple, OF _ _ demo_syn_step])
      (simp_all add: GetNctByZone_def demo_zone_fields demo_tuple_def TCPProtocolNumber_def)
qed

lemma demo_syn_fields:
  "length (ns_cts demo_syn) = 1" "ct_status (ct_at demo_syn 0) = CT_NEW"
  by (simp_all add: demo_syn_def created_def NewTimerFunc_def Let_def ct_at_def demo_zone_fields)

text \<open>
  C22: whatever packets came and in whatever order the functions of the timers run, handling a
  packet whose headers fit in the buffer does not panic, and neither does a timer function that is
  waiting to run.
\<close>

theorem netstat_never_panics:
  assumes "ns_reachable s"
  shows "(header_room pkb \<longrightarrow> (\<exists>pkb' t. etherPktHandle pkb s = Inr (pkb', t)))
    \<and> (\<forall>fs f gs. tm_running (ns_timers s) = fs @ f # gs \<longrightarrow>
         (\<exists>t. run_timeout f (dequeue (fs @ gs) s) = Inr t))"
  using etherPktHandle_total [OF reachable_ninv [OF assms]] run_timeout_total [OF reachable_ninv [OF assms]]
  by blast

lemma header_room_zero: "header_room (zero_PktBuf\<lparr>pb_len := 60\<rparr>)"
  by (simp add: header_room_def pb_wf_def zero_PktBuf_def pktBufSize_def)

theorem netstat_never_panics_witness:
  "\<exists>pkb' t. etherPktHandle (zero_PktBuf\<lparr>pb_len := 60\<rparr>) demo_syn = Inr (pkb', t)"
  using netstat_never_panics [OF demo_syn_reachable] header_room_zero by blast

text \<open>
  C21: in every reachable state a connection that is not dead is found under its tuple and under
  the inverted one, in the table of its zone, and exactly one timer function is pending or about
  to run for it: it will be looked at again, and not twice.
\<close>

theorem live_connection_is_tracked:
  assumes "ns_reachable s" and "c < length (ns_cts s)" and "ct_status (ct_at s c) \<noteq> CT_DEL"
  shows "n_out (ns_timers s) c = 1 \<and>
    (\<exists>u n. ct_tuple (ct_at s c) = [u, invert u] \<and> ct_nct (ct_at s c) = Some n
       \<and> findConntrack s n u = Some c \<and> findConntrack s n (invert u) = Some c)"
  using alive_linked [OF reachable_ninv [OF assms(1)] assms(2,3)] assms(2)
  by (auto simp: linked_def findConntrack_def ct_at_def)

theorem live_connection_is_tracked_witness: "n_out (ns_timers demo_syn) 0 = 1"
  using live_connection_is_tracked [OF demo_syn_reachable, of 0]
  by (simp add: demo_syn_fields CT_NEW_def CT_DEL_def)

end
