(* ===== verification/Netstat_Life.thy ===== *)
theory Netstat_Life
  imports Netstat_Reach
begin

text \<open>
  The life of a connection: how a handshake establishes it, how silence ends it, and how a reset
  that comes between the end of its timer and the function of that timer leaves it in the table
  for ever.
\<close>

section \<open>A connection keeps its tuple and its zone\<close>

lemma start_timer_homes [simp]: "ct_homes (start_timer c d f s) = ct_homes s"
  by (simp add: start_timer_def NewTimerFunc_def upd_ct_def ct_at_def map_update_same)

lemma count_bytes_homes [simp]: "ct_homes (count_bytes c dir l s) = ct_homes s"
  unfolding count_bytes_def by (rule upd_ct_homes) simp_all

lemma stop_timer_cts: "stop_timer c s = Inr (b, s') \<Longrightarrow> ns_cts s' = ns_cts s"
  by (auto simp: stop_timer_def Timer_Stop_def split: option.splits)

lemma reset_timer_cts: "reset_timer c d s = Inr (b, s') \<Longrightarrow> ns_cts s' = ns_cts s"
  by (auto simp: reset_timer_def Timer_Reset_def split: option.splits prod.splits)

lemma establish_homes: "establish c d s = Inr s' \<Longrightarrow> ct_homes s' = ct_homes s"
  by (auto simp: establish_def bind_res_eq_Inr Let_def simp del: map_eq_conv dest!: stop_timer_cts)

lemma tcp_synack_homes: "tcp_synack c dir s = Inr s' \<Longrightarrow> ct_homes s' = ct_homes s"
  by (auto simp: tcp_synack_def bind_res_eq_Inr simp del: map_eq_conv dest!: reset_timer_cts split: if_splits)

lemma tcp_end_homes: "tcp_end c s = Inr s' \<Longrightarrow> ct_homes s' = ct_homes s"
  by (auto simp: tcp_end_def bind_res_eq_Inr Let_def upd_ct_homes simp del: map_eq_conv
      dest!: stop_timer_cts split: if_splits)

lemma tcp_syn_homes:
  assumes "tcp_syn n t out l s = Inr s'" and "n < length (ns_ncts s)"
  shows "\<exists>hs. ct_homes s' = ct_homes s @ hs"
proof (cases "findConntrack s n t = None \<and> out")
  case True
  then have "s' = created n t True l CT_TCP_SYN_TIMEOUT s" using assms tcp_syn_new [OF assms(2)] by simp
  then have "ct_homes s' = ct_homes s @ [([t, invert t], Some n)]" by (simp only: created_fields(6))
  then show ?thesis by (rule exI)
next
  case False
  then show ?thesis
    using assms(1)
    by (auto simp: tcp_syn_def bind_res_eq_Inr simp del: map_eq_conv dest!: reset_timer_cts
        split: option.splits if_splits)
qed

lemma tcp_track_homes:
  assumes "tcp_track n t fl out l s = Inr s'" and "n < length (ns_ncts s)"
  shows "\<exists>hs. ct_homes s' = ct_homes s @ hs"
proof (cases "IsSyn fl")
  case True
  then show ?thesis using assms tcp_syn_homes by (simp add: tcp_track_def)
next
  case False
  then have "ct_homes s' = ct_homes s"
    using assms(1)
    by (auto simp: tcp_track_def Let_def simp del: map_eq_conv split: option.splits if_splits
        dest!: tcp_end_homes tcp_synack_homes establish_homes)
  then show ?thesis by (metis append_Nil2)
qed

lemma udp_track_homes:
  assumes "udp_track n t out l s = Inr s'" and "n < length (ns_ncts s)"
  shows "\<exists>hs. ct_homes s' = ct_homes s @ hs"
proof (cases "findConntrack s n t")
  case None
  then have "s' = created n t out l CT_UDP_NEW_TIMEOUT s" using assms(1) udp_track_new [OF assms(2)] by simp
  then have "ct_homes s' = ct_homes s @ [([t, invert t], Some n)]" by (simp only: created_fields(6))
  then show ?thesis by (rule exI)
next
  case (Some c)
  then have "ct_homes s' = ct_homes s"
    using assms(1)
    by (auto simp: udp_track_def Let_def simp del: map_eq_conv split: if_splits dest!: establish_homes)
  then show ?thesis by (metis append_Nil2)
qed

lemma run_timeout_homes: "run_timeout f s = Inr s' \<Longrightarrow> ct_homes s' = ct_homes s"
  by (cases f) (auto simp: Let_def bind_res_eq_Inr upd_ct_homes simp del: map_eq_conv split: option.splits if_splits)

lemma ns_step_homes:
  assumes "ns_step s t" and inv: "ninv L {} s"
  shows "\<exists>hs. ct_homes t = ct_homes s @ hs"
  using assms(1)
proof cases
  case (tcp z n u fl out l)
  show ?thesis by (rule tcp_track_homes [OF tcp(3) GetNctByZone_bound [OF inv tcp(1)]])
next
  case (udp z n u out l)
  show ?thesis by (rule udp_track_homes [OF udp(3) GetNctByZone_bound [OF inv udp(1)]])
next
  case (fire fs f gs)
  then have "ct_homes t = ct_homes s" using run_timeout_homes by fastforce
  then show ?thesis by (metis append_Nil2)
qed (simp_all add: ns_clock_def SetNetZone_def newNetConntrack_def DelNetZone_def Let_def)

lemma ns_steps_homes:
  "ns_step\<^sup>*\<^sup>* s t \<Longrightarrow> ninv L {} s \<Longrightarrow> ninv L {} t \<and> (\<exists>hs. ct_homes t = ct_homes s @ hs)"
proof (induction rule: rtranclp_induct)
  case (step t u)
  then show ?case using ns_step_homes [OF step(2)] ns_step_ninv [OF step(2)] by fastforce
qed simp

section \<open>The reset that comes too late\<close>

text \<open>The timer of a connection whose function waits to run cannot be stopped.\<close>

lemma fired_cannot_stop:
  assumes inv: "ninv L {} s" and q: "tm_running (ns_timers s) = fs @ f # gs" and "cb_ct f = c"
    and c: "c < length (ns_cts s)"
  obtains ts where "stop_timer c s = Inr (False, s\<lparr>ns_timers := ts\<rparr>)" and "tm_running ts = fs @ f # gs"
proof -
  obtain t where t: "ct_timer (ct_at s c) = Some t" "ct_timers s ! c = Some t" using timer_at [OF inv c] .
  have "n_out (ns_timers s) c \<le> 1" by (rule timers_okD(6) [OF ninvD(1) [OF inv]])
  then have z: "n_pend (tm_pending (ns_timers s)) c = 0" using q assms(3) by (simp add: n_out_def)
  have "map_of (tm_pending (ns_timers s)) t = None"
  proof (rule ccontr)
    assume "map_of (tm_pending (ns_timers s)) t \<noteq> None"
    then obtain d g where m: "map_of (tm_pending (ns_timers s)) t = Some (d, g)" by auto
    then have "cb_ct g = c" using timer_of [OF ninvD(1) [OF inv] t(2)] c by simp
    then show False using n_pend_pos [OF m] z by simp
  qed
  then show thesis
    by (intro that [of "(ns_timers s)\<lparr>tm_pending := AList.delete t (tm_pending (ns_timers s))\<rparr>"])
      (simp_all add: stop_timer_def t Timer_Stop_def q)
qed

lemma late_reset_stuck:
  assumes inv: "ninv {} {} s" and n: "n < length (ns_ncts s)" and p: "ctt_proto t \<in> {6, 17}"
    and ct: "findConntrack s n t = Some c" "ct_status (ct_at s c) = CT_ESTABLISHED"
    and q: "tm_running (ns_timers s) = fs @ ctESTABLISHEDTimeout c old # gs"
    and fl: "fl AND TCPFlagRst \<noteq> 0"
  obtains s1 s2 where "tcp_track n t fl out l s = Inr s1"
    and "run_timeout (ctESTABLISHEDTimeout c old) (dequeue (fs @ gs) s1) = Inr s2"
    and "tm_running (ns_timers s1) = fs @ ctESTABLISHEDTimeout c old # gs"
    and "ninv {c} {} s2" and "ct_homes s2 = ct_homes s" and "c < length (ns_cts s)"
proof -
  have c: "c < length (ns_cts s)"
    using tables_okD(2) [OF ninvD(3) [OF inv] n] ct(1) by (simp add: findConntrack_def)
  have syn: "\<not> IsSyn fl" using fl by (auto simp: IsSyn_def tcp_flags)
  let ?s = "count_bytes c (Dir (ct_at s c) t) l s"
  have i: "ninv {} {} ?s" by (rule count_bytes_ninv [OF inv c])
  have c': "c < length (ns_cts ?s)" using c by simp
  define r where "r = upd_ct c (\<lambda>ct. ct\<lparr>ct_status := CT_DEL, ct_lastTime := Some (ns_now ?s)\<rparr>) ?s"
  have iu: "ninv {} {} r"
    unfolding r_def using stats_at [OF i c'] by (intro upd_ct_ninv [OF i c']) simp_all
  have rf: "ns_timers r = ns_timers s" "length (ns_cts r) = length (ns_cts s)" "ct_homes r = ct_homes s"
    "ct_status (ct_at r c) = CT_DEL"
    unfolding r_def using c by (simp_all add: upd_ct_homes del: map_eq_conv)
  have q': "tm_running (ns_timers r) = fs @ ctESTABLISHEDTimeout c old # gs" and cr: "c < length (ns_cts r)"
    using q c rf by simp_all
  obtain ts where st: "stop_timer c r = Inr (False, r\<lparr>ns_timers := ts\<rparr>)"
    and tq: "tm_running ts = fs @ ctESTABLISHEDTimeout c old # gs"
    by (rule fired_cannot_stop [OF iu q' cb_ct.simps(2) cr]) (rule that; assumption)
  let ?s1 = "r\<lparr>ns_timers := ts\<rparr>"
  obtain tt where tt: "ct_timer (ct_at r c) = Some tt" using timer_at [OF iu cr] .
  have est: "ct_status (ct_at ?s c) \<noteq> CT_DEL" "ct_status (ct_at s c) \<noteq> CT_DEL"
    using ct(2) c by (simp_all add: CT_ESTABLISHED_def CT_DEL_def)
  have "tcp_end c ?s = Inr ?s1"
    using est(1) st tt by (simp add: tcp_end_def Let_def flip: r_def)
  then have t1: "tcp_track n t fl out l s = Inr ?s1"
    using syn ct(1) fl est(2) by (simp add: tcp_track_def Let_def)
  have i1: "ninv {} {} ?s1"
    by (rule tcp_track_ninv [OF inv n p, of fl out l]) (use t1 in simp)
  have q1: "tm_running (ns_timers ?s1) = fs @ ctESTABLISHEDTimeout c old # gs" using tq by simp
  let ?s2 = "dequeue (fs @ gs) ?s1"
  note d = dequeue_ninv [OF i1 q1]
  have del: "ct_status (ct_at ?s2 c) = CT_DEL" using rf(4) by simp
  then have t2: "run_timeout (ctESTABLISHEDTimeout c old) ?s2 = Inr ?s2" by simp
  have h: "ct_homes ?s2 = ct_homes s" using rf(3) by (simp del: map_eq_conv)
  have "ninv {} {} ?s2" using d(1) del by (intro ninv_weaken) simp_all
  then have "ninv {c} {} ?s2"
    using d(2,3) del cr
    by (simp add: ninv_def links_ok_def stuck_ok_def ct_at_def)
  then show thesis by (rule that [OF t1 t2 q1 _ h c])
qed

lemma stuck_ignored:
  assumes inv: "ninv {c} {} s" and h: "ct_homes s ! c = ([u, invert u], Some n)" and t: "t \<in> {u, invert u}"
  shows "findConntrack s n t = Some c" and "tcp_track n t fl out l s = Inr s"
    and "udp_track n t out l s = Inr s"
proof -
  have c: "c < length (ns_cts s)" "ct_status (ct_at s c) = CT_DEL"
    using ninvD(7) [OF inv] by (auto simp: stuck_ok_def ct_at_def)
  have "linked (ns_ncts s) (ct_homes s) c" by (rule links_okD [OF inv c(1)]) simp
  then show f: "findConntrack s n t = Some c"
    using h t unfolding linked_def by (auto simp: findConntrack_def)
  show "tcp_track n t fl out l s = Inr s"
    using f c by (simp add: tcp_track_def tcp_syn_def CT_DEL_def CT_NEW_def)
  show "udp_track n t out l s = Inr s" using f c by (simp add: udp_track_def)
qed

text \<open>
  C25: an established connection whose timer has run out receives a reset before the timer's
  function runs: the reset cannot stop the timer, so it starts none, and the function sees that
  the connection is dead and leaves the rest to the timer that the reset did not start. From then
  on, whatever happens, the dead connection is in the table and every packet of its tuple, a new
  SYN included, is ignored.
\<close>

theorem late_reset_leaks:
  assumes "ns_reachable s" and "GetNctByZone s z = Some n" and "ctt_proto t = TCPProtocolNumber"
    and "findConntrack s n t = Some c" and "ct_status (ct_at s c) = CT_ESTABLISHED"
    and "tm_running (ns_timers s) = fs @ ctESTABLISHEDTimeout c old # gs"
    and "fl AND TCPFlagRst \<noteq> 0"
  shows "\<exists>s1 s2. tcp_track n t fl out l s = Inr s1
    \<and> run_timeout (ctESTABLISHEDTimeout c old) (dequeue (fs @ gs) s1) = Inr s2
    \<and> (\<forall>s3. ns_step\<^sup>*\<^sup>* s2 s3 \<longrightarrow> findConntrack s3 n t = Some c
         \<and> (\<forall>fl out l. tcp_track n t fl out l s3 = Inr s3))"
proof -
  note inv = reachable_ninv [OF assms(1)]
  note n = GetNctByZone_bound [OF inv assms(2)]
  have p: "ctt_proto t \<in> {6, 17}" using assms(3) by (simp add: TCPProtocolNumber_def)
  obtain s1 s2 where a: "tcp_track n t fl out l s = Inr s1"
      "run_timeout (ctESTABLISHEDTimeout c old) (dequeue (fs @ gs) s1) = Inr s2"
    and i: "ninv {c} {} s2" and h: "ct_homes s2 = ct_homes s" and c: "c < length (ns_cts s)"
    by (rule late_reset_stuck [OF inv n p assms(4-7), of out l]) (rule that; assumption)
  obtain u where u: "ct_homes s ! c = ([u, invert u], Some n)" "t \<in> {u, invert u}"
    using tables_okD(3) [OF ninvD(3) [OF inv] n] assms(4) unfolding findConntrack_def by blast
  have "findConntrack s3 n t = Some c \<and> (\<forall>fl out l. tcp_track n t fl out l s3 = Inr s3)"
    if st: "ns_step\<^sup>*\<^sup>* s2 s3" for s3
  proof -
    obtain hs where s3: "ninv {c} {} s3" "ct_homes s3 = ct_homes s @ hs"
      using ns_steps_homes [OF st i] h by metis
    have "ct_homes s3 ! c = ([u, invert u], Some n)" using s3(2) u(1) c by (simp add: nth_append)
    from stuck_ignored(1,2) [OF s3(1) this u(2)] show ?thesis by blast
  qed
  with a show ?thesis by blast
qed

section \<open>The timer of a connection\<close>

definition pends :: "netstat \<Rightarrow> nat \<Rightarrow> int \<Rightarrow> ct_timeout \<Rightarrow> bool" where
  "pends s c due f \<longleftrightarrow>
     (\<exists>t. ct_timer (ct_at s c) = Some t \<and> map_of (tm_pending (ns_timers s)) t = Some (due, f))"

lemma created_pends:
  assumes inv: "ninv L {} s"
  shows "pends (created n t out l d s) (length (ns_cts s)) (ns_now s + d) (ctTimeoutDel (length (ns_cts s)))"
proof -
  have "map_of (tm_pending (ns_timers s)) (tm_next (ns_timers s)) = None"
    using fresh_timer(2) [OF ninvD(1) [OF inv]] by (simp add: map_of_eq_None_iff)
  then show ?thesis
    by (simp add: pends_def created_def NewTimerFunc_def Let_def ct_at_def map_add_def)
qed

lemma start_pends:
  assumes inv: "ninv L X s" and "c < length (ns_cts s)"
  shows "pends (start_timer c d f s) c (ns_now s + d) f"
proof -
  have "map_of (tm_pending (ns_timers s)) (tm_next (ns_timers s)) = None"
    using fresh_timer(2) [OF ninvD(1) [OF inv]] by (simp add: map_of_eq_None_iff)
  then show ?thesis
    using assms(2) by (simp add: pends_def start_timer_def NewTimerFunc_def ct_at_def upd_ct_def map_add_def)
qed

lemma clock_at [simp]: "ct_at (ns_clock d s) c = ct_at s c" "ns_ncts (ns_clock d s) = ns_ncts s"
  "length (ns_cts (ns_clock d s)) = length (ns_cts s)" "ns_now (ns_clock d s) = ns_now s + d"
  by (simp_all add: ns_clock_def ct_at_def)

lemma clock_pends:
  assumes inv: "ninv L {} s" and p: "pends s c due f" and d: "ns_now s + d < due"
  shows "pends (ns_clock d s) c due f"
proof -
  obtain t where t: "ct_timer (ct_at s c) = Some t" "map_of (tm_pending (ns_timers s)) t = Some (due, f)"
    using p by (auto simp: pends_def)
  let ?ps = "filter (\<lambda>(t, due, f). ns_now s + d < due) (tm_pending (ns_timers s))"
  have "distinct (map fst ?ps)"
    by (rule distinct_map_filter) (rule timers_okD(1) [OF ninvD(1) [OF inv]])
  moreover have "(t, due, f) \<in> set ?ps" using map_of_SomeD [OF t(2)] d by simp
  ultimately have "map_of ?ps t = Some (due, f)" by (rule map_of_is_SomeI)
  then show ?thesis using t(1) by (simp add: pends_def ns_clock_def timers_due_def ct_at_def)
qed

lemma clock_fires:
  assumes "pends s c due f" and "due \<le> ns_now s + d"
  obtains fs gs where "tm_running (ns_timers (ns_clock d s)) = fs @ f # gs"
proof -
  obtain t where "(t, due, f) \<in> set (tm_pending (ns_timers s))"
    using assms(1) map_of_SomeD by (fastforce simp: pends_def)
  then have "f \<in> set (tm_running (ns_timers (ns_clock d s)))"
    using assms(2) by (force simp: ns_clock_def timers_due_def)
  then show thesis using that split_list by metis
qed

lemma reset_pends:
  assumes "pends s c due f"
  obtains ts where "reset_timer c d s = Inr (True, s\<lparr>ns_timers := ts\<rparr>)"
    and "pends (s\<lparr>ns_timers := ts\<rparr>) c (ns_now s + d) f"
proof -
  obtain t where t: "ct_timer (ct_at s c) = Some t" "map_of (tm_pending (ns_timers s)) t = Some (due, f)"
    using assms by (auto simp: pends_def)
  let ?ts = "(ns_timers s)\<lparr>tm_pending := AList.delete t (tm_pending (ns_timers s)) @ [(t, ns_now s + d, f)]\<rparr>"
  show thesis
    by (rule that [of ?ts])
      (simp_all add: reset_timer_def pends_def t Timer_Reset_def map_add_def AList.delete_conv')
qed

lemma stop_pends:
  assumes "pends s c due f"
  obtains ts where "stop_timer c s = Inr (True, s\<lparr>ns_timers := ts\<rparr>)"
  using assms by (auto simp: pends_def stop_timer_def Timer_Stop_def)

lemma count_bytes_at [simp]:
  "c < length (ns_cts s) \<Longrightarrow> ct_at (count_bytes c dir l s) c =
     (ct_at s c)\<lparr>ct_stats := (ct_stats (ct_at s c))[dir := ct_stats (ct_at s c) ! dir + l]\<rparr>"
  "ns_now (count_bytes c dir l s) = ns_now s"
  by (simp_all add: count_bytes_def)

lemma count_bytes_pends [simp]:
  "c < length (ns_cts s) \<Longrightarrow> pends (count_bytes c dir l s) c due f = pends s c due f"
  by (simp add: pends_def)

lemma set_status_at [simp]:
  "c < length (ns_cts s) \<Longrightarrow> ct_at (set_status c st s) c = (ct_at s c)\<lparr>ct_status := st\<rparr>"
  "ns_now (set_status c st s) = ns_now s"
  by (simp_all add: set_status_def)

lemma set_status_pends [simp]:
  "c < length (ns_cts s) \<Longrightarrow> pends (set_status c st s) c due f = pends s c due f"
  by (simp add: pends_def)

lemma set_status_timers [simp]: "set_status c st (s\<lparr>ns_timers := ts\<rparr>) = (set_status c st s)\<lparr>ns_timers := ts\<rparr>"
  by (simp add: set_status_def upd_ct_def)

section \<open>The handshake\<close>

lemma synack_step:
  assumes c: "c < length (ns_cts s)" and f: "findConntrack s n t = Some c"
    and st: "ct_status (ct_at s c) = CT_NEW" and d: "Dir (ct_at s c) t = ctReply"
    and fl: "IsSynAck fl" "fl AND TCPFlagRst = 0" "fl AND TCPFlagFin = 0" and p: "pends s c due g"
  obtains s' where "tcp_track n t fl out l s = Inr s'"
    and "ct_at s' c = (ct_at s c)\<lparr>ct_status := CT_REPLY,
      ct_stats := (ct_stats (ct_at s c))[ctReply := ct_stats (ct_at s c) ! ctReply + l]\<rparr>"
    and "pends s' c (ns_now s + 3) g" and "ns_ncts s' = ns_ncts s" and "ns_now s' = ns_now s"
    and "length (ns_cts s') = length (ns_cts s)"
proof -
  let ?s = "count_bytes c ctReply l s"
  have cs: "c < length (ns_cts ?s)" using c by simp
  have "pends ?s c due g" using p c by simp
  then obtain ts where r: "reset_timer c CT_TCP_SYN_RCVD_TIMEOUT ?s = Inr (True, ?s\<lparr>ns_timers := ts\<rparr>)"
    and p': "pends (?s\<lparr>ns_timers := ts\<rparr>) c (ns_now ?s + CT_TCP_SYN_RCVD_TIMEOUT) g"
    by (rule reset_pends)
  let ?r = "set_status c CT_REPLY (?s\<lparr>ns_timers := ts\<rparr>)"
  have syn: "\<not> IsSyn fl" using fl(1) by (auto simp: IsSyn_def IsSynAck_def tcp_flags)
  have t: "tcp_track n t fl out l s = Inr ?r"
    using syn f st d fl c r
    by (simp add: tcp_track_def tcp_synack_def Let_def CT_NEW_def CT_DEL_def CT_ESTABLISHED_def)
  have pp: "pends ?r c (ns_now s + 3) g"
    using p' cs unfolding CT_TCP_SYN_RCVD_TIMEOUT_def by (simp del: set_status_timers)
  show thesis
    by (rule that [OF t _ pp]) (use c cs in \<open>simp_all del: set_status_timers\<close>)
qed

lemma ack_step:
  assumes inv: "ninv L {} s" and c: "c < length (ns_cts s)" and f: "findConntrack s n t = Some c"
    and st: "ct_status (ct_at s c) = CT_REPLY" and p: "pends s c due g"
  obtains s' where "tcp_track n t TCPFlagAck out l s = Inr s'"
    and "ct_status (ct_at s' c) = CT_ESTABLISHED"
    and "ct_stats (ct_at s' c) =
      (ct_stats (ct_at s c))[Dir (ct_at s c) t := ct_stats (ct_at s c) ! Dir (ct_at s c) t + l]"
    and "pends s' c (ns_now s + 240) (ctESTABLISHEDTimeout c (ct_stats (ct_at s' c)))"
    and "ns_ncts s' = ns_ncts s" and "ns_now s' = ns_now s"
proof -
  let ?d = "Dir (ct_at s c) t"
  define r where "r = count_bytes c ?d l s"
  have i: "ninv L {} r" unfolding r_def by (rule count_bytes_ninv [OF inv c])
  have rf: "c < length (ns_cts r)" "pends r c due g" "ns_ncts r = ns_ncts s" "ns_now r = ns_now s"
    "ct_at r c = (ct_at s c)\<lparr>ct_stats := (ct_stats (ct_at s c))[?d := ct_stats (ct_at s c) ! ?d + l]\<rparr>"
    using c p by (simp_all add: r_def)
  obtain ts where s1: "stop_timer c r = Inr (True, r\<lparr>ns_timers := ts\<rparr>)" by (rule stop_pends [OF rf(2)])
  obtain b ts' where "stop_timer c r = Inr (b, r\<lparr>ns_timers := ts'\<rparr>)"
    and "b \<Longrightarrow> ninv (L) (insert c {}) (r\<lparr>ns_timers := ts'\<rparr>)"
    by (rule stop_timer_ninv [OF i rf(1)]) (rule that; assumption)
  with s1 have i': "ninv L {c} (r\<lparr>ns_timers := ts\<rparr>)" by auto
  have st': "ct_status (ct_at r c) = CT_REPLY" using st rf(5) by simp
  have "ct_status (ct_at r c) \<noteq> CT_DEL" using st' by (simp add: CT_REPLY_def CT_DEL_def)
  then have cL: "c \<notin> L" by (rule alive_notin [OF i _ rf(1)])
  define q where "q = set_status c CT_ESTABLISHED (r\<lparr>ns_timers := ts\<rparr>)"
  have iq: "ninv L {c} q" unfolding q_def by (rule set_status_ninv [OF i']) (use rf(1) cL in simp_all)
  have qf: "c < length (ns_cts q)" "ns_ncts q = ns_ncts s" "ns_now q = ns_now s"
    "ct_at q c = (ct_at r c)\<lparr>ct_status := CT_ESTABLISHED\<rparr>"
    using rf by (simp_all add: q_def del: set_status_timers)
  let ?s' = "start_timer c CT_TCP_ESTABLISHED_TIMEOUT (ctESTABLISHEDTimeout c (ct_stats (ct_at q c))) q"
  have "establish c CT_TCP_ESTABLISHED_TIMEOUT r = Inr ?s'"
    using s1 by (simp add: establish_def Let_def q_def del: set_status_timers)
  then have t: "tcp_track n t TCPFlagAck out l s = Inr ?s'"
    using f st c
    by (simp add: tcp_track_def Let_def r_def IsSyn_def IsSynAck_def IsAck_def tcp_flags CT_REPLY_def CT_DEL_def
        CT_ESTABLISHED_def)
  have at: "ct_stats (ct_at ?s' c) = ct_stats (ct_at q c)" "ct_status (ct_at ?s' c) = CT_ESTABLISHED"
    using qf by (simp_all add: start_timer_def NewTimerFunc_def)
  have "pends ?s' c (ns_now q + CT_TCP_ESTABLISHED_TIMEOUT) (ctESTABLISHEDTimeout c (ct_stats (ct_at q c)))"
    by (rule start_pends [OF iq qf(1)])
  then have pp: "pends ?s' c (ns_now s + 240) (ctESTABLISHEDTimeout c (ct_stats (ct_at ?s' c)))"
    using qf(3) at(1) by (simp add: CT_TCP_ESTABLISHED_TIMEOUT_def)
  show thesis
    by (rule that [OF t at(2) _ pp]) (use at qf rf in simp_all)
qed

lemma handshake:
  assumes inv: "ninv {} {} s" and n: "n < length (ns_ncts s)" and p: "ctt_proto t \<in> {6, 17}"
    and ne: "t \<noteq> invert t" and no: "findConntrack s n t = None"
    and d: "0 \<le> d1" "d1 < 3" "0 \<le> d2" "d2 < 3"
    and fl: "IsSynAck fl" "fl AND TCPFlagRst = 0" "fl AND TCPFlagFin = 0"
  obtains s1 s2 s3 where "tcp_track n t TCPFlagSyn True l1 s = Inr s1"
    and "tcp_track n (invert t) fl out2 l2 (ns_clock d1 s1) = Inr s2"
    and "tcp_track n t TCPFlagAck out3 l3 (ns_clock d2 s2) = Inr s3"
    and "findConntrack s3 n t = Some (length (ns_cts s))"
    and "findConntrack s3 n (invert t) = Some (length (ns_cts s))"
    and "ct_status (ct_at s3 (length (ns_cts s))) = CT_ESTABLISHED"
    and "ct_stats (ct_at s3 (length (ns_cts s))) = [l1 + l3, l2]"
    and "pends s3 (length (ns_cts s)) (ns_now s3 + 240) (ctESTABLISHEDTimeout (length (ns_cts s)) [l1 + l3, l2])"
proof -
  let ?c = "length (ns_cts s)"
  define s1 where "s1 = created n t True l1 CT_TCP_SYN_TIMEOUT s"
  have t1: "tcp_track n t TCPFlagSyn True l1 s = Inr s1"
    using tcp_syn_new [OF n no] by (simp add: tcp_track_def IsSyn_def s1_def)
  have i1: "ninv {} {} s1" unfolding s1_def by (rule created_ninv [OF inv n no p])
  have at1: "ct_status (ct_at s1 ?c) = CT_NEW" "ct_stats (ct_at s1 ?c) = [l1, 0]"
    "ct_tuple (ct_at s1 ?c) = [t, invert t]" and now1: "ns_now s1 = ns_now s" and len1: "?c < length (ns_cts s1)"
    by (simp_all add: s1_def created_def NewTimerFunc_def Let_def ct_at_def)
  have fnd1: "findConntrack s1 n t = Some ?c" "findConntrack s1 n (invert t) = Some ?c"
    by (simp_all add: s1_def findConntrack_def created_conns [OF n])
  have "pends s1 ?c (ns_now s + 3) (ctTimeoutDel ?c)"
    using created_pends [OF inv, of n t True l1 CT_TCP_SYN_TIMEOUT] by (simp add: s1_def CT_TCP_SYN_TIMEOUT_def)
  then have p1: "pends (ns_clock d1 s1) ?c (ns_now s + 3) (ctTimeoutDel ?c)"
    by (rule clock_pends [OF i1]) (use now1 d in simp)
  have dir1: "Dir (ct_at (ns_clock d1 s1) ?c) (invert t) = ctReply"
    using ne at1(3) by (simp add: Dir_def ctOrigin_def ctReply_def)
  obtain s2 where t2: "tcp_track n (invert t) fl out2 l2 (ns_clock d1 s1) = Inr s2"
    and at2: "ct_at s2 ?c = (ct_at (ns_clock d1 s1) ?c)\<lparr>ct_status := CT_REPLY,
      ct_stats := (ct_stats (ct_at (ns_clock d1 s1) ?c))[ctReply := ct_stats (ct_at (ns_clock d1 s1) ?c) ! ctReply + l2]\<rparr>"
    and p2: "pends s2 ?c (ns_now (ns_clock d1 s1) + 3) (ctTimeoutDel ?c)"
    and f2: "ns_ncts s2 = ns_ncts (ns_clock d1 s1)" "ns_now s2 = ns_now (ns_clock d1 s1)"
      "length (ns_cts s2) = length (ns_cts (ns_clock d1 s1))"
    by (rule synack_step [of ?c "ns_clock d1 s1" n "invert t", OF _ _ _ dir1 fl p1])
      (use len1 fnd1 at1 in \<open>simp_all add: findConntrack_def\<close>)
  have n1: "n < length (ns_ncts s1)" using n by (simp add: s1_def created_fields)
  have i2: "ninv {} {} s2"
    by (rule tcp_track_ninv [OF ns_clock_ninv [OF i1], of n d1 "invert t" fl out2 l2]) (use t2 p n1 in simp_all)
  have p2': "pends (ns_clock d2 s2) ?c (ns_now (ns_clock d1 s1) + 3) (ctTimeoutDel ?c)"
    by (rule clock_pends [OF i2 p2]) (use f2 d in simp)
  have at2': "ct_status (ct_at s2 ?c) = CT_REPLY" "ct_stats (ct_at s2 ?c) = [l1, l2]"
    "Dir (ct_at s2 ?c) t = 0"
    using at1 by (simp_all add: at2 ctReply_def Dir_def ctOrigin_def)
  obtain s3 where t3: "tcp_track n t TCPFlagAck out3 l3 (ns_clock d2 s2) = Inr s3"
    and st3: "ct_status (ct_at s3 ?c) = CT_ESTABLISHED"
    and by3: "ct_stats (ct_at s3 ?c) = (ct_stats (ct_at (ns_clock d2 s2) ?c))[Dir (ct_at (ns_clock d2 s2) ?c) t :=
        ct_stats (ct_at (ns_clock d2 s2) ?c) ! Dir (ct_at (ns_clock d2 s2) ?c) t + l3]"
    and p3: "pends s3 ?c (ns_now (ns_clock d2 s2) + 240) (ctESTABLISHEDTimeout ?c (ct_stats (ct_at s3 ?c)))"
    and f3: "ns_ncts s3 = ns_ncts (ns_clock d2 s2)" "ns_now s3 = ns_now (ns_clock d2 s2)"
    by (rule ack_step [where out = out3 and l = l3 and t = t, OF ns_clock_ninv [OF i2] _ _ _ p2'])
      (use len1 fnd1 at2' f2 in \<open>simp_all add: findConntrack_def\<close>)
  have by3': "ct_stats (ct_at s3 ?c) = [l1 + l3, l2]" using by3 at2' by simp
  show thesis
    by (rule that [OF t1 t2 t3 _ _ st3 by3'])
      (use fnd1 p3 f2 f3 by3' in \<open>simp_all add: findConntrack_def\<close>)
qed

text \<open>
  C23: an outgoing SYN of an unknown connection, the SYN-ACK of the other side and the ACK, each
  within three seconds of the one before, establish one connection that both directions find; its
  counters are the bytes of the two directions, and its timer ends in 240 seconds and remembers them.
\<close>

theorem tcp_handshake_establishes:
  assumes "ns_reachable s" and "GetNctByZone s z = Some n" and "ctt_proto t = TCPProtocolNumber"
    and "t \<noteq> invert t" and "findConntrack s n t = None"
    and "0 \<le> d1" and "d1 < 3" and "0 \<le> d2" and "d2 < 3"
    and "IsSynAck fl" and "fl AND TCPFlagRst = 0" and "fl AND TCPFlagFin = 0"
  shows "\<exists>s1 s2 s3 c. tcp_track n t TCPFlagSyn True l1 s = Inr s1
    \<and> tcp_track n (invert t) fl out2 l2 (ns_clock d1 s1) = Inr s2
    \<and> tcp_track n t TCPFlagAck out3 l3 (ns_clock d2 s2) = Inr s3
    \<and> findConntrack s3 n t = Some c \<and> findConntrack s3 n (invert t) = Some c
    \<and> ct_status (ct_at s3 c) = CT_ESTABLISHED \<and> ct_stats (ct_at s3 c) = [l1 + l3, l2]
    \<and> pends s3 c (ns_now s3 + 240) (ctESTABLISHEDTimeout c [l1 + l3, l2])"
proof -
  have p: "ctt_proto t \<in> {6, 17}" using assms(3) by (simp add: TCPProtocolNumber_def)
  show ?thesis
    using reachable_ninv [OF assms(1)] GetNctByZone_bound [OF reachable_ninv [OF assms(1)] assms(2)] p assms(4-12)
    by (rule handshake [of s n t d1 d2 fl l1 out2 l2 out3 l3]) blast
qed

lemma demo_zone_facts:
  "GetNctByZone demo_zone 1 = Some 0" "findConntrack demo_zone 0 demo_tuple = None"
  "ctt_proto demo_tuple = TCPProtocolNumber" "demo_tuple \<noteq> invert demo_tuple"
  "IsSynAck 18" "(18 :: byte) AND TCPFlagRst = 0" "(18 :: byte) AND TCPFlagFin = 0"
  "ninv {} {} demo_zone" "0 < length (ns_ncts demo_zone)"
  by (simp_all add: GetNctByZone_def findConntrack_def demo_zone_fields demo_tuple_def TCPProtocolNumber_def
      invert_def IsSynAck_def tcp_flags reachable_ninv demo_zone_reachable)

theorem tcp_handshake_establishes_witness:
  "\<exists>s1 s2 s3 c. tcp_track 0 demo_tuple TCPFlagSyn True 60 demo_zone = Inr s1
    \<and> tcp_track 0 (invert demo_tuple) 18 False 60 (ns_clock 1 s1) = Inr s2
    \<and> tcp_track 0 demo_tuple TCPFlagAck True 54 (ns_clock 2 s2) = Inr s3
    \<and> ct_status (ct_at s3 c) = CT_ESTABLISHED \<and> ct_stats (ct_at s3 c) = [114, 60]"
  using tcp_handshake_establishes [OF demo_zone_reachable demo_zone_facts(1,3,4,2), of 1 2 18 60 False 60 True 54]
    demo_zone_facts(5-7) by fastforce

section \<open>An established connection\<close>

lemma establish_global: "establish c d s = Inr s' \<Longrightarrow> ns_global s' = ns_global s"
  by (auto simp: establish_def bind_res_eq_Inr Let_def stop_timer_def set_status_def split: option.splits prod.splits)

lemma tcp_synack_global: "tcp_synack c dir s = Inr s' \<Longrightarrow> ns_global s' = ns_global s"
  by (auto simp: tcp_synack_def bind_res_eq_Inr reset_timer_def set_status_def split: option.splits if_splits prod.splits)

lemma tcp_end_global: "tcp_end c s = Inr s' \<Longrightarrow> ns_global s' = ns_global s"
  by (auto simp: tcp_end_def bind_res_eq_Inr Let_def stop_timer_def split: option.splits if_splits prod.splits)

lemma tcp_track_global:
  assumes "tcp_track n t fl out l s = Inr s'" and "\<not> IsSyn fl"
  shows "ns_global s' = ns_global s"
  using assms
  by (auto simp: tcp_track_def Let_def count_bytes_def split: option.splits if_splits
      dest!: tcp_end_global tcp_synack_global establish_global)

lemma demo_established:
  obtains s where "ns_reachable s" and "GetNctByZone s 1 = Some 0" and "findConntrack s 0 demo_tuple = Some 0"
    and "ct_status (ct_at s 0) = CT_ESTABLISHED"
    and "pends s 0 (ns_now s + 240) (ctESTABLISHEDTimeout 0 (ct_stats (ct_at s 0)))"
proof -
  have p: "ctt_proto demo_tuple \<in> {6, 17}" by (simp add: demo_tuple_def)
  have l: "length (ns_cts demo_zone) = 0" by (simp add: demo_zone_fields)
  obtain s1 s2 s3 where t: "tcp_track 0 demo_tuple TCPFlagSyn True 60 demo_zone = Inr s1"
      "tcp_track 0 (invert demo_tuple) 18 False 60 (ns_clock 1 s1) = Inr s2"
      "tcp_track 0 demo_tuple TCPFlagAck True 54 (ns_clock 2 s2) = Inr s3"
    and f: "findConntrack s3 0 demo_tuple = Some 0" "ct_status (ct_at s3 0) = CT_ESTABLISHED"
      "ct_stats (ct_at s3 0) = [60 + 54, 60]" "pends s3 0 (ns_now s3 + 240) (ctESTABLISHEDTimeout 0 [60 + 54, 60])"
    by (rule handshake [OF demo_zone_facts(8,9) p demo_zone_facts(4,2), of 1 2 18 60 False 60 True 54])
      (use demo_zone_facts l that in auto)
  have "ns_global s1 = ns_global demo_zone"
    using t(1) demo_syn_step created_fields(2) by (simp add: TCPFlagSyn_def demo_syn_def) metis
  then have g1: "ns_global (ns_clock 1 s1) = [(1, 0)]" by (simp add: ns_clock_def demo_zone_fields)
  have "ns_global s2 = ns_global (ns_clock 1 s1)"
    by (rule tcp_track_global [OF t(2)]) (simp add: IsSyn_def TCPFlagSyn_def)
  then have g2: "ns_global (ns_clock 2 s2) = [(1, 0)]" using g1 by (simp add: ns_clock_def)
  have "ns_global s3 = ns_global (ns_clock 2 s2)"
    by (rule tcp_track_global [OF t(3)]) (simp add: IsSyn_def TCPFlagSyn_def TCPFlagAck_def)
  then have g3: "GetNctByZone s3 1 = Some 0" using g2 by (simp add: GetNctByZone_def)
  note pr = demo_zone_facts(3)
  have s1: "ns_step demo_zone s1" by (rule ns_step.tcp [OF demo_zone_facts(1) pr t(1)])
  have s2: "ns_step (ns_clock 1 s1) s2"
    by (rule ns_step.tcp [of _ 1, OF _ _ t(2)]) (simp_all add: GetNctByZone_def g1 pr)
  have s3: "ns_step (ns_clock 2 s2) s3"
    by (rule ns_step.tcp [of _ 1, OF _ pr t(3)]) (simp add: GetNctByZone_def g2)
  have "ns_step s1 (ns_clock 1 s1)" "ns_step s2 (ns_clock 2 s2)" by (simp_all add: ns_step.clock)
  then have "ns_reachable s3"
    using demo_zone_reachable s1 s2 s3 by (meson rtranclp.rtrancl_into_rtrancl)
  then show thesis by (rule that [OF _ g3 f(1,2)]) (use f(3,4) in simp)
qed

section \<open>Silence\<close>

lemma est_timeout_step:
  assumes inv: "ninv {} {} s" and q: "tm_running (ns_timers s) = fs @ ctESTABLISHEDTimeout c (ct_stats (ct_at s c)) # gs"
    and st: "ct_status (ct_at s c) = CT_ESTABLISHED"
  obtains s' where "run_timeout (ctESTABLISHEDTimeout c (ct_stats (ct_at s c))) (dequeue (fs @ gs) s) = Inr s'"
    and "ninv {} {} s'" and "ct_status (ct_at s' c) = CT_DEL" and "ct_homes s' = ct_homes s"
    and "pends s' c (ns_now s + 10) (ctTimeoutDel c)"
proof -
  let ?f = "ctESTABLISHEDTimeout c (ct_stats (ct_at s c))"
  have c: "c < length (ns_cts s)" using dequeue_ninv(4) [OF inv q] by simp
  define r where "r = upd_ct c (\<lambda>ct. ct\<lparr>ct_status := CT_DEL, ct_lastTime := Some (ns_now s)\<rparr>) (dequeue (fs @ gs) s)"
  have ir: "ninv {} {c} r"
    unfolding r_def using dequeue_ninv(1) [OF inv q] stats_at [OF inv c] c
    by (intro upd_ct_ninv) simp_all
  have rf: "c < length (ns_cts r)" "ns_now r = ns_now s" "ct_status (ct_at r c) = CT_DEL"
    "ct_homes r = ct_homes s"
    unfolding r_def using c by (simp_all add: upd_ct_homes del: map_eq_conv)
  let ?s' = "start_timer c CT_DEL_TIMEOUT (ctTimeoutDel c) r"
  have run: "run_timeout ?f (dequeue (fs @ gs) s) = Inr ?s'"
    using st by (simp add: Let_def r_def CT_ESTABLISHED_def CT_DEL_def)
  moreover have "ninv {} {} ?s'"
    by (rule run_timeout_ninv [OF inv q]) (use run in simp)
  moreover have "pends ?s' c (ns_now s + 10) (ctTimeoutDel c)"
    using start_pends [OF ir rf(1), of CT_DEL_TIMEOUT] rf(2) by (simp add: CT_DEL_TIMEOUT_def)
  moreover have "ct_status (ct_at ?s' c) = CT_DEL"
    using rf by (simp add: start_timer_def NewTimerFunc_def)
  moreover have "ct_homes ?s' = ct_homes s" using rf(4) by (simp del: map_eq_conv)
  ultimately show thesis by (intro that)
qed

text \<open>
  C24: an established connection on which nothing arrives until its timer ends is declared dead by
  the function of the timer, and ten seconds later the next function takes it out of the table in
  both directions.
\<close>

theorem idle_connection_removed:
  assumes "ns_reachable s" and "GetNctByZone s z = Some n" and "findConntrack s n t = Some c"
    and "ct_status (ct_at s c) = CT_ESTABLISHED"
    and "pends s c due (ctESTABLISHEDTimeout c (ct_stats (ct_at s c)))" and "ns_now s \<le> due"
  shows "\<exists>fs gs s1 fs' gs' s2.
      tm_running (ns_timers (ns_clock (due - ns_now s) s)) = fs @ ctESTABLISHEDTimeout c (ct_stats (ct_at s c)) # gs
    \<and> run_timeout (ctESTABLISHEDTimeout c (ct_stats (ct_at s c)))
        (dequeue (fs @ gs) (ns_clock (due - ns_now s) s)) = Inr s1
    \<and> ct_status (ct_at s1 c) = CT_DEL
    \<and> tm_running (ns_timers (ns_clock 10 s1)) = fs' @ ctTimeoutDel c # gs'
    \<and> run_timeout (ctTimeoutDel c) (dequeue (fs' @ gs') (ns_clock 10 s1)) = Inr s2
    \<and> findConntrack s2 n t = None \<and> findConntrack s2 n (invert t) = None"
proof -
  note inv = reachable_ninv [OF assms(1)]
  note n = GetNctByZone_bound [OF inv assms(2)]
  let ?s = "ns_clock (due - ns_now s) s"
  obtain u where u: "ct_homes s ! c = ([u, invert u], Some n)" "t \<in> {u, invert u}"
    using tables_okD(3) [OF ninvD(3) [OF inv] n] assms(3) unfolding findConntrack_def by blast
  have c: "c < length (ns_cts s)"
    using tables_okD(2) [OF ninvD(3) [OF inv] n] assms(3) by (simp add: findConntrack_def)
  obtain fs gs where q: "tm_running (ns_timers ?s) = fs @ ctESTABLISHEDTimeout c (ct_stats (ct_at s c)) # gs"
    by (rule clock_fires [OF assms(5), of "due - ns_now s"]) simp
  have q': "tm_running (ns_timers ?s) = fs @ ctESTABLISHEDTimeout c (ct_stats (ct_at ?s c)) # gs"
    using q by simp
  obtain s1 where s1: "run_timeout (ctESTABLISHEDTimeout c (ct_stats (ct_at ?s c))) (dequeue (fs @ gs) ?s) = Inr s1"
    "ninv {} {} s1" "ct_status (ct_at s1 c) = CT_DEL" "ct_homes s1 = ct_homes ?s"
    "pends s1 c (ns_now ?s + 10) (ctTimeoutDel c)"
    by (rule est_timeout_step [OF ns_clock_ninv [OF inv] q']) (use assms(4) that in simp_all)
  have "ns_now s1 = ns_now ?s"
    using s1(1) assms(4)
    by (auto simp: Let_def CT_ESTABLISHED_def CT_DEL_def)
  then obtain fs' gs' where r: "tm_running (ns_timers (ns_clock 10 s1)) = fs' @ ctTimeoutDel c # gs'"
    using clock_fires [OF s1(5), of 10] by auto
  let ?u = "ns_clock 10 s1"
  note i2 = ns_clock_ninv [OF s1(2), of 10]
  let ?v = "upd_ct c (\<lambda>ct. ct\<lparr>ct_status := CT_DEL\<rparr>) (dequeue (fs' @ gs') ?u)"
  have h: "ct_homes s1 = ct_homes s" using s1(4) by (simp add: ns_clock_def del: map_eq_conv)
  then have c1: "c < length (ns_cts s1)" using c by (metis length_map)
  have "ct_homes s1 ! c = ([u, invert u], Some n)" using h u(1) by simp
  then have at: "ct_tuple (ct_at ?v c) = [u, invert u]" "ct_nct (ct_at ?v c) = Some n"
    using c1 by (simp_all add: ct_at_def [of s1])
  obtain m where m: "ct_nct (ct_at s1 c) = Some m" "m < length (ns_ncts s1)"
    by (rule home_at [OF s1(2) c1]) (rule that; assumption)
  have "ct_nct (ct_at s1 c) = Some n" using at(2) c1 by simp
  then have n1: "n < length (ns_ncts ?v)" using m by simp
  have run: "run_timeout (ctTimeoutDel c) (dequeue (fs' @ gs') ?u) = Inr (delConntrack n c ?v)"
    using at(2) by (simp add: Let_def)
  have "findConntrack (delConntrack n c ?v) n x = None" if "x \<in> {u, invert u}" for x
    using delConntrack_conns [OF n1 at(1), of n x] that by (simp add: findConntrack_def)
  then have "findConntrack (delConntrack n c ?v) n t = None" "findConntrack (delConntrack n c ?v) n (invert t) = None"
    using u(2) by auto
  with run r q s1(1,3) show ?thesis by (metis clock_at(1))
qed

theorem idle_connection_removed_witness:
  "\<exists>s s1 s2 fs gs. findConntrack s 0 demo_tuple = Some 0 \<and> ct_status (ct_at s 0) = CT_ESTABLISHED
    \<and> tm_running (ns_timers (ns_clock 10 s1)) = fs @ ctTimeoutDel 0 # gs
    \<and> run_timeout (ctTimeoutDel 0) (dequeue (fs @ gs) (ns_clock 10 s1)) = Inr s2
    \<and> findConntrack s2 0 demo_tuple = None"
proof -
  obtain s where s: "ns_reachable s" "GetNctByZone s 1 = Some 0" "findConntrack s 0 demo_tuple = Some 0"
    "ct_status (ct_at s 0) = CT_ESTABLISHED"
    "pends s 0 (ns_now s + 240) (ctESTABLISHEDTimeout 0 (ct_stats (ct_at s 0)))"
    by (rule demo_established)
  from idle_connection_removed [OF s] show ?thesis using s(3,4) by simp metis
qed

lemma demo_fired:
  obtains s fs old gs where "ns_reachable s" and "GetNctByZone s 1 = Some 0" and "findConntrack s 0 demo_tuple = Some 0"
    and "ct_status (ct_at s 0) = CT_ESTABLISHED"
    and "tm_running (ns_timers s) = fs @ ctESTABLISHEDTimeout 0 old # gs"
proof -
  obtain s where s: "ns_reachable s" "GetNctByZone s 1 = Some 0" "findConntrack s 0 demo_tuple = Some 0"
    "ct_status (ct_at s 0) = CT_ESTABLISHED"
    "pends s 0 (ns_now s + 240) (ctESTABLISHEDTimeout 0 (ct_stats (ct_at s 0)))"
    by (rule demo_established)
  obtain fs gs where q: "tm_running (ns_timers (ns_clock 240 s)) = fs @ ctESTABLISHEDTimeout 0 (ct_stats (ct_at s 0)) # gs"
    by (rule clock_fires [OF s(5), of 240]) simp
  have "ns_reachable (ns_clock 240 s)"
    by (rule rtranclp.rtrancl_into_rtrancl [OF s(1)]) (simp add: ns_step.clock)
  then show thesis
    by (rule that [OF _ _ _ _ q])
      (use s in \<open>simp_all add: GetNctByZone_def findConntrack_def ns_clock_def ct_at_def\<close>)
qed

theorem late_reset_leaks_witness:
  "\<exists>s s2. ct_status (ct_at s 0) = CT_ESTABLISHED \<and> findConntrack s 0 demo_tuple = Some 0
    \<and> (\<forall>s3. ns_step\<^sup>*\<^sup>* s2 s3 \<longrightarrow> findConntrack s3 0 demo_tuple = Some 0
         \<and> (\<forall>fl out l. tcp_track 0 demo_tuple fl out l s3 = Inr s3))"
proof -
  obtain s fs old gs where s: "ns_reachable s" "GetNctByZone s 1 = Some 0" "findConntrack s 0 demo_tuple = Some 0"
    "ct_status (ct_at s 0) = CT_ESTABLISHED" "tm_running (ns_timers s) = fs @ ctESTABLISHEDTimeout 0 old # gs"
    by (rule demo_fired)
  have "(4 :: byte) AND TCPFlagRst \<noteq> 0" by (simp add: TCPFlagRst_def)
  from late_reset_leaks [OF s(1,2) demo_zone_facts(3) s(3-5) this, of True 40] s(3,4) show ?thesis by blast
qed

end
