(* ===== verification/Timer_Wheel.thy ===== *)
theory Timer_Wheel
  imports Go_Prelude "HOL-Library.Signed_Division"
begin

text \<open>
  Package \<open>timer\<close>, files \<open>timer.go\<close>, \<open>defaultTimer.go\<close> and \<open>ticker.go\<close>: a hierarchical timing
  wheel. A \<open>*timer\<close> is an address of the heap of timers; the arrays \<open>tv1\<close> to \<open>tv5\<close> are the levels
  0 to 4, a slot is a slice of pointers whose entries become nil. Every operation that holds the
  lock is a function of the wheel; the functions of the timers that are due are returned by \<open>onTick\<close>,
  for the goroutine that runs them outside of the lock.
\<close>

section \<open>State\<close>

definition tvn_bits :: nat where "tvn_bits = 6"
definition tvr_bits :: nat where "tvr_bits = 8"
definition tvn_size :: nat where "tvn_size = 64"
definition tvr_size :: nat where "tvr_size = 256"
definition tvn_mask :: u64 where "tvn_mask = 63"
definition tvr_mask :: u64 where "tvr_mask = 255"

lemmas tv_consts = tvn_bits_def tvr_bits_def tvn_size_def tvr_size_def tvn_mask_def tvr_mask_def

record 'f timer =
  t_expires :: u64
  t_period :: u64
  t_f :: 'f
  t_index :: int
  t_tv :: nat
  t_findex :: nat

type_synonym slot = "nat option list"

record 'f Wheel =
  w_timers :: "'f timer list"
  w_jiffies :: u64
  w_tv :: "slot list list"
  w_tick :: int

definition NewWheel :: "int \<Rightarrow> 'f Wheel" where
  "NewWheel tick =
     \<lparr>w_timers = [], w_jiffies = 0,
      w_tv = [replicate tvr_size [], replicate tvn_size [], replicate tvn_size [],
              replicate tvn_size [], replicate tvn_size []],
      w_tick = tick\<rparr>"

definition timer_at :: "'f Wheel \<Rightarrow> nat \<Rightarrow> 'f timer" where
  "timer_at w t = w_timers w ! t"

definition slot_at :: "'f Wheel \<Rightarrow> nat \<Rightarrow> nat \<Rightarrow> slot" where
  "slot_at w k i = w_tv w ! k ! i"

definition upd_timer :: "nat \<Rightarrow> ('f timer \<Rightarrow> 'f timer) \<Rightarrow> 'f Wheel \<Rightarrow> 'f Wheel" where
  "upd_timer t g w = w\<lparr>w_timers := (w_timers w)[t := g (timer_at w t)]\<rparr>"

definition upd_slot :: "nat \<Rightarrow> nat \<Rightarrow> slot \<Rightarrow> 'f Wheel \<Rightarrow> 'f Wheel" where
  "upd_slot k i s w = w\<lparr>w_tv := (w_tv w)[k := (w_tv w ! k)[i := s]]\<rparr>"

section \<open>Entering a timer\<close>

text \<open>The level and the slot of a timer that is entered; the shifts are those of the code.\<close>

definition place :: "u64 \<Rightarrow> u64 \<Rightarrow> nat \<times> nat" where
  "place jiffies expires =
     (let idx = expires - jiffies in
      if idx < word_of_nat tvr_size then (0, unat (expires AND tvr_mask))
      else if idx < push_bit (tvr_bits + tvn_bits) 1 then (1, unat (drop_bit tvr_bits expires AND tvn_mask))
      else if idx < push_bit (tvr_bits + 2 * tvn_bits) 1
        then (2, unat (drop_bit (tvr_bits + tvn_bits) expires AND tvn_mask))
      else if idx < push_bit (tvr_bits + 3 * tvn_bits) 1
        then (3, unat (drop_bit (tvr_bits + 2 * tvn_bits) expires AND tvn_mask))
      else if sint idx < 0 then (0, unat (jiffies AND tvr_mask))
      else
        let expires = (if idx > 0xffffffff then 0xffffffff + jiffies else expires)
        in (4, unat (drop_bit (tvr_bits + 3 * tvn_bits) expires AND tvn_mask)))"

definition addTimerInternal :: "nat \<Rightarrow> 'f Wheel \<Rightarrow> 'f Wheel" where
  "addTimerInternal t w =
     (let (k, i) = place (w_jiffies w) (t_expires (timer_at w t));
          vec = slot_at w k i
      in upd_timer t (\<lambda>tm. tm\<lparr>t_index := int (length vec), t_tv := k, t_findex := i\<rparr>)
           (upd_slot k i (vec @ [Some t]) w))"

definition addTimer :: "nat \<Rightarrow> 'f Wheel \<Rightarrow> 'f Wheel" where
  "addTimer t w = addTimerInternal t w"

section \<open>The tick\<close>

text \<open>
  \<open>cascade\<close> empties a slot and enters its timers again. The loop reads the array of the slot while
  \<open>append\<close> may write to it, but entry \<open>i\<close> is read before anything is written beyond \<open>i\<close>.
\<close>

definition cascade :: "nat \<Rightarrow> nat \<Rightarrow> 'f Wheel \<Rightarrow> nat \<times> 'f Wheel" where
  "cascade k index w =
     (let vec = slot_at w k index;
          w = upd_slot k index [] w
      in (index, fold (\<lambda>x w. case x of None \<Rightarrow> w | Some t \<Rightarrow> addTimerInternal t w) vec w))"

definition getIndex :: "nat \<Rightarrow> 'f Wheel \<Rightarrow> nat" where
  "getIndex n w = unat (drop_bit (tvr_bits + n * tvn_bits) (w_jiffies w) AND tvn_mask)"

text \<open>The condition of the \<open>if\<close> is evaluated for its effects: it stops at the first index that is not 0.\<close>

fun cascades :: "nat list \<Rightarrow> 'f Wheel \<Rightarrow> 'f Wheel" where
  "cascades [] w = w"
| "cascades (n # ns) w =
     (let (index, w) = cascade (Suc n) (getIndex n w) w
      in if index = 0 then cascades ns w else w)"

definition onTick :: "'f Wheel \<Rightarrow> slot \<times> 'f Wheel" where
  "onTick w =
     (let index = unat (w_jiffies w AND tvr_mask);
          w = (if index = 0 then cascades [0, 1, 2, 3] w else w);
          w = w\<lparr>w_jiffies := w_jiffies w + 1\<rparr>;
          vec = slot_at w 0 index;
          w = upd_slot 0 index [] w
      in (vec, fold (\<lambda>x w. case x of None \<Rightarrow> w | Some t \<Rightarrow> upd_timer t (\<lambda>tm. tm\<lparr>t_index := -1\<rparr>) w) vec w))"

text \<open>The goroutine: after the function of a periodic timer the timer is entered again.\<close>

definition after_run :: "nat \<Rightarrow> 'f Wheel \<Rightarrow> 'f Wheel" where
  "after_run t w =
     (if t_period (timer_at w t) > 0
      then addTimer t (upd_timer t (\<lambda>tm. tm\<lparr>t_expires := t_period tm + w_jiffies w\<rparr>) w)
      else w)"

section \<open>The operations on one timer\<close>

definition delTimer :: "nat \<Rightarrow> 'f Wheel \<Rightarrow> (bool \<times> 'f Wheel) res" where
  "delTimer t w =
     (let tm = timer_at w t in
      if t_index tm = -1 then Inr (False, w)
      else
        let vec = slot_at w (t_tv tm) (t_findex tm) in
        if t_index tm > int (length vec) then Inl (PanicMsg ''delTimer'')
        else if t_index tm < 0 \<or> t_index tm \<ge> int (length vec) then Inl IndexOutOfRange
        else if vec ! nat (t_index tm) \<noteq> Some t then Inl (PanicMsg ''delTimer'')
        else Inr (True, upd_timer t (\<lambda>tm. tm\<lparr>t_index := -1\<rparr>)
               (upd_slot (t_tv tm) (t_findex tm) (vec[nat (t_index tm) := None]) w)))"

definition resetTimer :: "nat \<Rightarrow> int \<Rightarrow> int \<Rightarrow> 'f Wheel \<Rightarrow> (bool \<times> 'f Wheel) res" where
  "resetTimer t when period w =
     bind_res (delTimer t w) (\<lambda>(ret, w).
       if \<not> ret then Inr (ret, w)
       else
         let expire = (word_of_int (when sdiv w_tick w) :: u64);
             expire = (if expire = 0 then 1 else expire);
             w = upd_timer t (\<lambda>tm. tm\<lparr>t_expires := w_jiffies w + expire,
                    t_period := word_of_int (period sdiv w_tick w)\<rparr>) w
         in Inr (ret, addTimer t w))"

definition newTimer :: "int \<Rightarrow> int \<Rightarrow> 'f \<Rightarrow> 'f Wheel \<Rightarrow> nat \<times> 'f Wheel" where
  "newTimer when period f w =
     (length (w_timers w),
      w\<lparr>w_timers := w_timers w @ [\<lparr>t_expires = w_jiffies w + word_of_int (when sdiv w_tick w),
          t_period = word_of_int (period sdiv w_tick w), t_f = f, t_index = 0, t_tv = 0, t_findex = 0\<rparr>]\<rparr>)"

definition Wheel_NewTimerFunc :: "int \<Rightarrow> 'f \<Rightarrow> 'f Wheel \<Rightarrow> nat \<times> 'f Wheel" where
  "Wheel_NewTimerFunc d f w =
     (let (t, w) = newTimer d 0 f w in (t, addTimer t w))"

definition Wheel_TickFunc :: "int \<Rightarrow> 'f \<Rightarrow> 'f Wheel \<Rightarrow> nat \<times> 'f Wheel" where
  "Wheel_TickFunc d f w =
     (let (t, w) = newTimer d d f w in (t, addTimer t w))"

definition Wheel_Stop :: "nat \<Rightarrow> 'f Wheel \<Rightarrow> (bool \<times> 'f Wheel) res" where
  "Wheel_Stop t w = delTimer t w"

definition Wheel_Reset :: "nat \<Rightarrow> int \<Rightarrow> 'f Wheel \<Rightarrow> (bool \<times> 'f Wheel) res" where
  "Wheel_Reset t d w = resetTimer t d 0 w"

definition Ticker_Reset :: "nat \<Rightarrow> int \<Rightarrow> 'f Wheel \<Rightarrow> (bool \<times> 'f Wheel) res" where
  "Ticker_Reset t d w = resetTimer t d d w"

section \<open>The place of a timer in natural numbers\<close>

definition span :: "nat \<Rightarrow> nat" where
  "span k = (if k = 0 then 1 else 2 ^ (8 + 6 * (k - 1)))"

definition lvl_size :: "nat \<Rightarrow> nat" where
  "lvl_size k = (if k = 0 then 256 else 64)"

lemma span_simps: "span 0 = 1" "span 1 = 256" "span 2 = 16384" "span 3 = 1048576" "span 4 = 67108864"
  by (simp_all add: span_def)

lemma and_mask_nat:
  "unat ((x :: u64) AND 255) = unat x mod 256" "unat (x AND 63) = unat x mod 64"
proof -
  have "x AND 255 = take_bit 8 x" "x AND 63 = take_bit 6 x"
    by (simp_all add: take_bit_eq_mask mask_eq_exp_minus_1)
  then show "unat (x AND 255) = unat x mod 256" "unat (x AND 63) = unat x mod 64"
    by (simp_all add: unat_mod_distrib take_bit_eq_mod)
qed

lemma drop_bit_nat: "unat (drop_bit n (x :: u64)) = unat x div 2 ^ n"
  proof -
  have "take_bit 64 (unat x) = unat x" using unsigned_less [of x, where ?'a = nat] by (simp add: take_bit_nat_eq_self_iff)
  then show ?thesis
    by (subst unsigned_drop_bit_eq) (simp add: drop_bit_eq_div)
qed

lemma place_nat:
  assumes e: "unat j \<le> unat e" "unat e < unat j + 2 ^ 32"
  shows "place j e =
    (let d = unat e - unat j;
         k = (if d < 256 then 0 else if d < 16384 then 1 else if d < 1048576 then 2
              else if d < 67108864 then 3 else 4)
     in (k, unat e div span k mod lvl_size k))"
proof -
  have je: "j \<le> e" using e(1) by (simp add: word_le_nat_alt)
  have d: "unat (e - j) = unat e - unat j" using je by (rule unat_sub)
  have c: "e - j < word_of_nat 256 \<longleftrightarrow> unat e - unat j < 256"
    "e - j < push_bit (8 + 6) 1 \<longleftrightarrow> unat e - unat j < 16384"
    "e - j < push_bit (8 + 2 * 6) 1 \<longleftrightarrow> unat e - unat j < 1048576"
    "e - j < push_bit (8 + 3 * 6) 1 \<longleftrightarrow> unat e - unat j < 67108864"
    by (simp_all add: word_less_nat_alt d)
  have "unat (e - j) < 2 ^ 32" using e d by simp
  then have s: "\<not> sint (e - j) < 0"
  proof -
    have "uint (e - j) = int (unat (e - j))" by (rule uint_nat)
    then have u: "uint (e - j) < 2 ^ 32" "0 \<le> uint (e - j)"
      using \<open>unat (e - j) < 2 ^ 32\<close>
      by (metis of_nat_less_iff of_nat_numeral of_nat_power) simp
    have "sint (e - j) = uint (e - j)"
      unfolding sint_uint
    proof (rule signed_take_bit_int_eq_self)
      show "- (2 ^ (LENGTH(64) - Suc 0)) \<le> uint (e - j)" by (rule order_trans [OF _ u(2)]) simp
      show "uint (e - j) < 2 ^ (LENGTH(64) - Suc 0)" using u(1) by simp
    qed
    then show ?thesis using u by simp
  qed
  have big: "\<not> e - j > 0xffffffff" using \<open>unat (e - j) < 2 ^ 32\<close> by (simp add: word_less_nat_alt)
  consider "unat e - unat j < 256" | "256 \<le> unat e - unat j" "unat e - unat j < 16384"
    | "16384 \<le> unat e - unat j" "unat e - unat j < 1048576"
    | "1048576 \<le> unat e - unat j" "unat e - unat j < 67108864" | "67108864 \<le> unat e - unat j" by linarith
  then show ?thesis
    unfolding place_def Let_def tv_consts c
    by cases (simp_all add: s big and_mask_nat drop_bit_nat span_def lvl_size_def)
qed

end
