(* ===== verification/Timer_Inv.thy ===== *)
theory Timer_Inv
  imports Timer_Wheel
begin

text \<open>
  The invariant of the wheel: where a timer is, and in which window its time lies. A slot of level
  \<open>k\<close> covers \<open>span k\<close> ticks; the slots of a level cover 64 of these stretches from the next one on
  (256 ticks on level 0). While a tick distributes the slot of a level, \<open>D\<close> holds the levels that
  are done and \<open>R\<close> the timers on their way.
\<close>

abbreviation ticks :: "'f Wheel \<Rightarrow> nat" where
  "ticks w \<equiv> unat (w_jiffies w)"

abbreviation due :: "'f Wheel \<Rightarrow> nat \<Rightarrow> nat" where
  "due w t \<equiv> unat (t_expires (timer_at w t))"

definition win :: "nat set \<Rightarrow> nat \<Rightarrow> nat \<Rightarrow> nat \<Rightarrow> bool" where
  "win D j k e \<longleftrightarrow> j \<le> e \<and>
     (if k = 0 then e < j + 256
      else if span k dvd j \<and> k \<notin> D
        then j div span k \<le> e div span k \<and> e div span k < j div span k + 64
      else j div span k < e div span k \<and> e div span k \<le> j div span k + 64)"

definition shape :: "'f Wheel \<Rightarrow> bool" where
  "shape w \<longleftrightarrow> length (w_tv w) = 5 \<and> (\<forall>k < 5. length (w_tv w ! k) = lvl_size k)"

definition held :: "nat set \<Rightarrow> nat set \<Rightarrow> 'f Wheel \<Rightarrow> nat \<Rightarrow> nat \<Rightarrow> nat \<Rightarrow> nat \<Rightarrow> bool" where
  "held D R w k i p t \<longleftrightarrow> t < length (w_timers w) \<and> t \<notin> R
     \<and> t_index (timer_at w t) = int p \<and> t_tv (timer_at w t) = k \<and> t_findex (timer_at w t) = i
     \<and> i = due w t div span k mod lvl_size k \<and> win D (ticks w) k (due w t)"

definition at_place :: "'f Wheel \<Rightarrow> nat \<Rightarrow> bool" where
  "at_place w t \<longleftrightarrow> (\<exists>k i p. t_index (timer_at w t) = int p \<and> t_tv (timer_at w t) = k
     \<and> t_findex (timer_at w t) = i \<and> k < 5 \<and> i < lvl_size k \<and> p < length (slot_at w k i)
     \<and> slot_at w k i ! p = Some t)"

definition winv :: "nat set \<Rightarrow> nat set \<Rightarrow> 'f Wheel \<Rightarrow> bool" where
  "winv D R w \<longleftrightarrow> shape w
     \<and> (\<forall>k < 5. \<forall>i < lvl_size k. \<forall>p < length (slot_at w k i). \<forall>t.
          slot_at w k i ! p = Some t \<longrightarrow> held D R w k i p t)
     \<and> (\<forall>t < length (w_timers w). t \<notin> R \<longrightarrow> t_index (timer_at w t) \<noteq> -1 \<longrightarrow> at_place w t)"

lemma winvD:
  assumes "winv D R w"
  shows "shape w"
    and "k < 5 \<Longrightarrow> i < lvl_size k \<Longrightarrow> p < length (slot_at w k i) \<Longrightarrow> slot_at w k i ! p = Some t
      \<Longrightarrow> held D R w k i p t"
    and "t < length (w_timers w) \<Longrightarrow> t \<notin> R \<Longrightarrow> t_index (timer_at w t) \<noteq> -1 \<Longrightarrow> at_place w t"
  using assms by (auto simp: winv_def)

section \<open>Reading after writing\<close>

lemma upd_timer_simps [simp]:
  "w_jiffies (upd_timer t g w) = w_jiffies w" "w_tv (upd_timer t g w) = w_tv w"
  "w_tick (upd_timer t g w) = w_tick w" "length (w_timers (upd_timer t g w)) = length (w_timers w)"
  "slot_at (upd_timer t g w) k i = slot_at w k i" "shape (upd_timer t g w) = shape w"
  "t < length (w_timers w) \<Longrightarrow> timer_at (upd_timer t g w) u = (if u = t then g (timer_at w t) else timer_at w u)"
  by (simp_all add: upd_timer_def slot_at_def shape_def timer_at_def)

lemma upd_slot_simps [simp]:
  "w_jiffies (upd_slot k i s w) = w_jiffies w" "w_timers (upd_slot k i s w) = w_timers w"
  "w_tick (upd_slot k i s w) = w_tick w" "timer_at (upd_slot k i s w) t = timer_at w t"
  by (simp_all add: upd_slot_def timer_at_def)

lemma shape_upd_slot [simp]: "shape w \<Longrightarrow> shape (upd_slot k i s w)"
  by (cases "k < 5") (auto simp: shape_def upd_slot_def nth_list_update)

lemma slot_upd_slot:
  "shape w \<Longrightarrow> k < 5 \<Longrightarrow> i < lvl_size k \<Longrightarrow>
     slot_at (upd_slot k i s w) k' i' = (if k' = k \<and> i' = i then s else slot_at w k' i')"
  by (auto simp: shape_def slot_at_def upd_slot_def nth_list_update)

lemma lvl_size_pos: "0 < lvl_size k"
  by (simp add: lvl_size_def)

lemma span_pos [simp]: "0 < span k" "span k \<noteq> 0"
  by (simp_all add: span_def)

section \<open>A timer is entered\<close>

definition lvl :: "nat \<Rightarrow> nat" where
  "lvl d = (if d < 256 then 0 else if d < 16384 then 1 else if d < 1048576 then 2
     else if d < 67108864 then 3 else 4)"

lemma win_enter:
  assumes "j \<le> e" and "e < j + 2 ^ 32"
  shows "win D j (lvl (e - j)) e"
proof -
  let ?k = "lvl (e - j)"
  show ?thesis
  proof (cases "?k = 0")
    case True
    then have "e - j < 256" by (simp add: lvl_def split: if_splits)
    then show ?thesis using True assms by (simp add: win_def)
  next
    case False
    let ?s = "span ?k"
    have s: "?s \<le> e - j" "e - j < 64 * ?s"
      using False assms by (auto simp: lvl_def span_def split: if_splits)
    have a: "j div ?s < e div ?s"
    proof -
      have "(j + ?s) div ?s \<le> e div ?s" by (rule div_le_mono) (use s assms in simp)
      moreover have "(j + ?s) div ?s = j div ?s + 1" by (rule div_add_self2) simp
      ultimately show ?thesis by linarith
    qed
    have "e < j + 64 * ?s" using s(2) assms(1) by simp
    have b: "e div ?s \<le> j div ?s + 64"
    proof -
      have "e div ?s \<le> (j + 64 * ?s) div ?s" by (rule div_le_mono) (use \<open>e < j + 64 * ?s\<close> in simp)
      then show ?thesis by simp
    qed
    have c: "e div ?s < j div ?s + 64" if "?s dvd j"
    proof -
      have "j + 64 * ?s = (j div ?s + 64) * ?s" using that by (simp add: add_mult_distrib)
      then have "e < (j div ?s + 64) * ?s" using \<open>e < j + 64 * ?s\<close> by simp
      then show ?thesis by (simp add: less_mult_imp_div_less)
    qed
    show ?thesis using False a b c assms(1) by (simp add: win_def less_imp_le)
  qed
qed

lemma place_lvl:
  assumes "unat j \<le> unat e" and "unat e < unat j + 2 ^ 32"
  shows "place j e = (lvl (unat e - unat j), unat e div span (lvl (unat e - unat j)) mod lvl_size (lvl (unat e - unat j)))"
  using place_nat [OF assms] by (simp add: lvl_def Let_def)

lemma lvl_less: "lvl d < 5"
  by (simp add: lvl_def)

text \<open>What an operation leaves as it was for every timer but one.\<close>

definition keeps :: "nat set \<Rightarrow> 'f Wheel \<Rightarrow> 'f Wheel \<Rightarrow> bool" where
  "keeps T w w' \<longleftrightarrow> length (w_timers w') = length (w_timers w) \<and> w_jiffies w' = w_jiffies w
     \<and> w_tick w' = w_tick w
     \<and> (\<forall>t. t_expires (timer_at w' t) = t_expires (timer_at w t) \<and> t_period (timer_at w' t) = t_period (timer_at w t)
          \<and> t_f (timer_at w' t) = t_f (timer_at w t))
     \<and> (\<forall>t. t \<notin> T \<longrightarrow> (t_index (timer_at w' t) = -1 \<longleftrightarrow> t_index (timer_at w t) = -1))
     \<and> (\<forall>t \<in> T. t_index (timer_at w' t) \<noteq> -1)"

lemma addTimerInternal_keeps:
  assumes "t < length (w_timers w)"
  shows "keeps {t} w (addTimerInternal t w)"
  using assms by (auto simp: keeps_def addTimerInternal_def Let_def split: prod.splits)

lemma addTimerInternal_winv:
  assumes inv: "winv D R w" and t: "t \<in> R" "t < length (w_timers w)"
    and e: "ticks w \<le> due w t" "due w t < ticks w + 2 ^ 32"
  shows "winv D (R - {t}) (addTimerInternal t w)"
proof -
  define k where "k = lvl (due w t - ticks w)"
  define i where "i = due w t div span k mod lvl_size k"
  let ?w = "addTimerInternal t w"
  have k5: "k < 5" by (simp add: k_def lvl_less)
  have i: "i < lvl_size k" by (simp add: i_def lvl_size_pos)
  have eq: "?w = upd_timer t (\<lambda>tm. tm\<lparr>t_index := int (length (slot_at w k i)), t_tv := k, t_findex := i\<rparr>)
      (upd_slot k i (slot_at w k i @ [Some t]) w)"
    by (simp add: addTimerInternal_def place_lvl [OF e] k_def i_def Let_def)
  have sh: "shape w" by (rule winvD(1) [OF inv])
  have tl: "t < length (w_timers (upd_slot k i (slot_at w k i @ [Some t]) w))" using t(2) by simp
  have at: "timer_at ?w u = (if u = t then (timer_at w t)\<lparr>t_index := int (length (slot_at w k i)), t_tv := k, t_findex := i\<rparr>
      else timer_at w u)" for u
    unfolding eq using tl by simp
  have sl: "slot_at ?w k' i' = (if k' = k \<and> i' = i then slot_at w k i @ [Some t] else slot_at w k' i')" for k' i'
    unfolding eq by (simp add: slot_upd_slot [OF sh k5 i])
  have j: "w_jiffies ?w = w_jiffies w" "length (w_timers ?w) = length (w_timers w)" "shape ?w"
    unfolding eq using sh by simp_all
  have new: "held D (R - {t}) ?w k i (length (slot_at w k i)) t"
    using t(2) win_enter [OF e] by (simp add: held_def at j i_def k_def)
  have old: "held D (R - {t}) ?w k' i' p u" if "held D R w k' i' p u" for k' i' p u
  proof -
    have "u \<noteq> t" using that t(1) by (auto simp: held_def)
    then show ?thesis using that by (simp add: held_def at j)
  qed
  have b: "held D (R - {t}) ?w k' i' p u"
    if "k' < 5" "i' < lvl_size k'" "p < length (slot_at ?w k' i')" "slot_at ?w k' i' ! p = Some u" for k' i' p u
  proof (cases "k' = k \<and> i' = i \<and> p = length (slot_at w k i)")
    case True
    then have "u = t" using that(4) by (simp add: sl)
    then show ?thesis using new True by simp
  next
    case False
    then have "p < length (slot_at w k' i')" "slot_at w k' i' ! p = Some u"
      using that(3,4) by (auto simp: sl nth_append split: if_splits)
    then show ?thesis using old winvD(2) [OF inv that(1,2)] by blast
  qed
  have c: "at_place ?w u" if u: "u < length (w_timers w)" "u \<notin> R - {t}" "t_index (timer_at ?w u) \<noteq> -1" for u
  proof (cases "u = t")
    case True
    then show ?thesis using k5 i by (simp add: at_place_def at sl)
  next
    case False
    then have "u \<notin> R" "t_index (timer_at w u) \<noteq> -1" using u by (auto simp: at)
    then obtain p k' i' where "t_index (timer_at w u) = int p" "t_tv (timer_at w u) = k'"
      "t_findex (timer_at w u) = i'" "k' < 5" "i' < lvl_size k'" "p < length (slot_at w k' i')"
      "slot_at w k' i' ! p = Some u"
      using winvD(3) [OF inv u(1)] by (auto simp: at_place_def)
    then show ?thesis using False by (auto simp: at_place_def at sl nth_append)
  qed
  show ?thesis unfolding winv_def using b c j by simp
qed

end
