(* ===== verification/Timer_Tick.thy ===== *)
theory Timer_Tick
  imports Timer_Inv
begin

text \<open>
  The tick of the wheel keeps the invariant and hands over exactly the timers that are due.
\<close>

section \<open>A slot is distributed\<close>

lemma keeps_refl: "keeps {} w w"
  by (simp add: keeps_def)

lemma keeps_trans:
  "keeps S w w' \<Longrightarrow> keeps T w' w'' \<Longrightarrow> keeps (S \<union> T) w w''"
  unfolding keeps_def by (metis Un_iff)

lemma keepsD:
  assumes "keeps T w w'"
  shows "length (w_timers w') = length (w_timers w)" "w_jiffies w' = w_jiffies w" "due w' t = due w t"
    "w_tick w' = w_tick w" "t_f (timer_at w' t) = t_f (timer_at w t)"
    "t_period (timer_at w' t) = t_period (timer_at w t)"
  using assms by (simp_all add: keeps_def)

abbreviation enter_all :: "slot \<Rightarrow> 'f Wheel \<Rightarrow> 'f Wheel" where
  "enter_all vec w \<equiv> fold (\<lambda>x w. case x of None \<Rightarrow> w | Some t \<Rightarrow> addTimerInternal t w) vec w"

definition somes :: "slot \<Rightarrow> nat list" where
  "somes vec = List.map_filter (\<lambda>x. x) vec"

lemma somes_simps [simp]: "somes [] = []" "somes (None # v) = somes v" "somes (Some t # v) = t # somes v"
  by (simp_all add: somes_def)

lemma set_somes: "set (somes vec) = {t. Some t \<in> set vec}"
  by (induction vec) (auto simp: somes_def map_filter_simps split: option.splits)

lemma distinct_somes:
  assumes "\<And>p q t. p < length v \<Longrightarrow> q < length v \<Longrightarrow> v ! p = Some t \<Longrightarrow> v ! q = Some t \<Longrightarrow> p = q"
  shows "distinct (somes v)"
  using assms
proof (induction v)
  case (Cons x v)
  have d: "distinct (somes v)"
  proof (rule Cons.IH)
    fix p q t
    assume "p < length v" "q < length v" "v ! p = Some t" "v ! q = Some t"
    then show "p = q" using Cons.prems [of "Suc p" "Suc q" t] by simp
  qed
  show ?case
  proof (cases x)
    case (Some t)
    have "Some t \<notin> set v"
    proof
      assume "Some t \<in> set v"
      then obtain p where "p < length v" "v ! p = Some t" by (auto simp: in_set_conv_nth)
      then show False using Cons.prems [of 0 "Suc p" t] Some by simp
    qed
    then show ?thesis using d Some by (simp add: set_somes)
  qed (use d in simp)
qed simp

lemma enter_all_winv:
  assumes "winv D (set (somes vec) \<union> R) w" and "distinct (somes vec)" and "set (somes vec) \<inter> R = {}"
    and "\<And>t. t \<in> set (somes vec) \<Longrightarrow> t < length (w_timers w) \<and> ticks w \<le> due w t \<and> due w t < ticks w + 2 ^ 32"
  shows "winv D R (enter_all vec w) \<and> keeps (set (somes vec)) w (enter_all vec w)"
  using assms
proof (induction vec arbitrary: w)
  case Nil
  then show ?case by (simp add: keeps_refl)
next
  case (Cons x vec)
  show ?case
  proof (cases x)
    case None
    then show ?thesis using Cons by simp
  next
    case (Some t)
    let ?w = "addTimerInternal t w"
    have t: "t < length (w_timers w)" "ticks w \<le> due w t" "due w t < ticks w + 2 ^ 32"
      using Cons.prems(4) [of t] Some by auto
    have k: "keeps {t} w ?w" by (rule addTimerInternal_keeps [OF t(1)])
    have "winv D ((set (somes (x # vec)) \<union> R) - {t}) ?w"
      by (rule addTimerInternal_winv [OF Cons.prems(1) _ t]) (use Some in simp)
    moreover have "(set (somes (x # vec)) \<union> R) - {t} = set (somes vec) \<union> R"
      using Cons.prems(2,3) Some by auto
    ultimately have i: "winv D (set (somes vec) \<union> R) ?w" by simp
    have "winv D R (enter_all vec ?w) \<and> keeps (set (somes vec)) ?w (enter_all vec ?w)"
      by (rule Cons.IH [OF i]) (use Cons.prems Some in \<open>auto simp: keepsD [OF k]\<close>)
    then show ?thesis using keeps_trans [OF k] Some by simp
  qed
qed

lemma clear_winv:
  assumes inv: "winv D R w" and k: "k < 5" "i < lvl_size k"
  shows "winv D (set (somes (slot_at w k i)) \<union> R) (upd_slot k i [] w)"
proof -
  let ?vec = "slot_at w k i" and ?w = "upd_slot k i [] w"
  have sh: "shape w" by (rule winvD(1) [OF inv])
  have sl: "slot_at ?w k' i' = (if k' = k \<and> i' = i then [] else slot_at w k' i')" for k' i'
    by (rule slot_upd_slot [OF sh k])
  have "held D (set (somes ?vec) \<union> R) ?w k' i' p t"
    if "k' < 5" "i' < lvl_size k'" "p < length (slot_at ?w k' i')" "slot_at ?w k' i' ! p = Some t" for k' i' p t
  proof -
    have ne: "\<not> (k' = k \<and> i' = i)" using that(3) by (auto simp: sl)
    have "slot_at ?w k' i' = slot_at w k' i'" using ne by (auto simp: sl)
    then have h: "held D R w k' i' p t" using that by (intro winvD(2) [OF inv]) simp_all
    have "Some t \<notin> set ?vec"
    proof
      assume "Some t \<in> set ?vec"
      then obtain q where "q < length ?vec" "?vec ! q = Some t" by (auto simp: in_set_conv_nth)
      then have "held D R w k i q t" by (rule winvD(2) [OF inv k])
      then show False using h ne by (simp add: held_def)
    qed
    then show ?thesis using h by (simp add: held_def set_somes)
  qed
  moreover have "at_place ?w t"
    if c: "t < length (w_timers w)" "t \<notin> set (somes ?vec) \<union> R" "t_index (timer_at w t) \<noteq> -1" for t
  proof -
    obtain k' i' p where p: "t_index (timer_at w t) = int p" "t_tv (timer_at w t) = k'"
      "t_findex (timer_at w t) = i'" "k' < 5" "i' < lvl_size k'" "p < length (slot_at w k' i')"
      "slot_at w k' i' ! p = Some t"
      using winvD(3) [OF inv c(1)] c(2,3) by (auto simp: at_place_def)
    then have "\<not> (k' = k \<and> i' = i)" using c(2) by (auto simp: set_somes) (metis nth_mem)
    then show ?thesis using p by (auto simp: at_place_def sl)
  qed
  ultimately show ?thesis using sh by (simp add: winv_def)
qed

lemma vec_distinct:
  assumes inv: "winv D R w" and k: "k < 5" "i < lvl_size k"
  shows "distinct (somes (slot_at w k i))"
proof (rule distinct_somes)
  fix p q t
  assume "p < length (slot_at w k i)" "q < length (slot_at w k i)" "slot_at w k i ! p = Some t" "slot_at w k i ! q = Some t"
  then have "held D R w k i p t" "held D R w k i q t" using winvD(2) [OF inv k] by blast+
  then show "p = q" by (simp add: held_def)
qed

lemma vec_held:
  assumes inv: "winv D R w" and k: "k < 5" "i < lvl_size k" and t: "t \<in> set (somes (slot_at w k i))"
  obtains p where "held D R w k i p t"
  using t winvD(2) [OF inv k] by (auto simp: set_somes in_set_conv_nth)

text \<open>The window of a level whose current slot is empty.\<close>

lemma window_unique:
  assumes "a \<le> x" "x < a + 64" "x mod 64 = a mod (64 :: nat)"
  shows "x = a"
proof -
  have "64 dvd x - a" using assms(1,3) by (simp add: mod_eq_dvd_iff_nat)
  moreover have "x - a < 64" using assms(1,2) by linarith
  ultimately have "x - a = 0" by (metis dvd_imp_le leD neq0_conv)
  then show ?thesis using assms(1) by simp
qed

lemma winv_done:
  assumes inv: "winv D R w" and k: "0 < k" "k < 5" and dv: "span k dvd ticks w"
    and e: "slot_at w k (ticks w div span k mod 64) = []"
  shows "winv (insert k D) R w"
proof -
  have "held (insert k D) R w k' i p t"
    if c: "k' < 5" "i < lvl_size k'" "p < length (slot_at w k' i)" "slot_at w k' i ! p = Some t" for k' i p t
  proof -
    have h: "held D R w k' i p t" by (rule winvD(2) [OF inv c])
    show ?thesis
    proof (cases "k' = k \<and> k \<notin> D")
      case False
      then show ?thesis using h by (auto simp: held_def win_def)
    next
      case True
      let ?q = "due w t div span k" and ?a = "ticks w div span k"
      have w: "?a \<le> ?q" "?q < ?a + 64" "ticks w \<le> due w t" "i = ?q mod 64"
        using h True k dv by (auto simp: held_def win_def lvl_size_def)
      have "?q \<noteq> ?a" using c(3) e w(4) True by auto
      then show ?thesis using h True w k by (simp add: held_def win_def)
    qed
  qed
  then show ?thesis using inv unfolding winv_def by blast
qed

lemma vec_due:
  assumes inv: "winv D R w" and k: "0 < k" "k < 5" and dv: "span k dvd ticks w" and kD: "k \<notin> D"
    and t: "t \<in> set (somes (slot_at w k (ticks w div span k mod 64)))"
  shows "t < length (w_timers w) \<and> ticks w \<le> due w t \<and> due w t < ticks w + 2 ^ 32"
proof -
  let ?a = "ticks w div span k"
  have i: "?a mod 64 < lvl_size k" using k by (simp add: lvl_size_def)
  obtain p where h: "held D R w k (?a mod 64) p t" by (rule vec_held [OF inv k(2) i t])
  let ?q = "due w t div span k"
  have "?a \<le> ?q" "?q < ?a + 64" "?q mod 64 = ?a mod 64"
    using h k dv kD by (auto simp: held_def win_def lvl_size_def)
  then have q: "?q = ?a" by (rule window_unique)
  have "due w t = ?a * span k + due w t mod span k" using q by (metis div_mult_mod_eq)
  moreover have "due w t mod span k < span k" by simp
  moreover have "?a * span k = ticks w" using dv by simp
  ultimately have "due w t < ticks w + span k" by linarith
  moreover have "span k \<le> 2 ^ 32"
  proof -
    have "k \<in> {1, 2, 3, 4}" using k by auto
    then show ?thesis by (auto simp: span_def)
  qed
  ultimately show ?thesis using h by (simp add: held_def win_def)
qed

lemma getIndex_nat: "getIndex n w = ticks w div span (Suc n) mod 64"
  by (simp add: getIndex_def tv_consts and_mask_nat drop_bit_nat span_def mult.commute)

lemma cascade_winv:
  assumes inv: "winv D {} w" and n: "n < 4" and dv: "span (Suc n) dvd ticks w" and kD: "Suc n \<notin> D"
    and c: "cascade (Suc n) (getIndex n w) w = (r, w')"
  shows "winv (insert (Suc n) D) {} w'" and "r = getIndex n w"
    and "\<exists>T. keeps T w w' \<and> (\<forall>t \<in> T. t_index (timer_at w t) \<noteq> -1)"
proof -
  let ?k = "Suc n" and ?i = "getIndex n w"
  let ?vec = "slot_at w ?k ?i"
  have k: "0 < ?k" "?k < 5" using n by simp_all
  have i: "?i < lvl_size ?k" by (simp add: getIndex_nat lvl_size_def)
  let ?w = "upd_slot ?k ?i [] w"
  have w': "w' = enter_all ?vec ?w" using c by (auto simp: cascade_def Let_def)
  show "r = getIndex n w" using c by (auto simp: cascade_def Let_def)
  have "winv D (set (somes ?vec) \<union> {}) ?w" by (rule clear_winv [OF inv k(2) i])
  moreover have "slot_at ?w ?k ?i = []" by (simp add: slot_upd_slot [OF winvD(1) [OF inv] k(2) i])
  ultimately have "winv (insert ?k D) (set (somes ?vec) \<union> {}) ?w"
    by (intro winv_done [OF _ k]) (use dv in \<open>simp_all add: getIndex_nat\<close>)
  then have r: "winv (insert ?k D) {} w' \<and> keeps (set (somes ?vec)) ?w w'"
    unfolding w' by (rule enter_all_winv)
      (use vec_distinct [OF inv k(2) i] vec_due [OF inv k dv kD] in \<open>simp_all add: getIndex_nat\<close>)
  then show "winv (insert ?k D) {} w'" by simp
  have "t_index (timer_at w t) \<noteq> -1" if t: "t \<in> set (somes ?vec)" for t
    by (rule vec_held [OF inv k(2) i t]) (simp add: held_def)
  moreover have "keeps (set (somes ?vec)) w w'" using r by (simp add: keeps_def)
  ultimately show "\<exists>T. keeps T w w' \<and> (\<forall>t \<in> T. t_index (timer_at w t) \<noteq> -1)" by blast
qed

section \<open>The tick\<close>

text \<open>What the levels that are not cascaded would have to be: their stretch does not begin now.\<close>

lemma span_Suc: "0 < k \<Longrightarrow> span (Suc k) = 64 * span k"
proof -
  assume "0 < k"
  then obtain n where "k = Suc n" by (cases k) auto
  then show ?thesis by (simp add: span_def power_add)
qed

lemma span_dvd: "0 < k \<Longrightarrow> k \<le> m \<Longrightarrow> span k dvd span m"
  by (auto simp: span_def intro!: le_imp_power_dvd)

lemma stop_dvd:
  assumes "0 < k" and "j div span k mod 64 \<noteq> 0" and "k < m"
  shows "\<not> span m dvd j"
proof
  assume "span m dvd j"
  then have "span (Suc k) dvd j" using span_dvd [of "Suc k" m] assms by (meson Suc_leI dvd_trans zero_less_Suc)
  then obtain q where "j = span k * (64 * q)" using span_Suc [OF assms(1)] by (auto elim!: dvdE simp: mult_ac)
  then have "j div span k = 64 * q" by simp
  then show False using assms(2) by simp
qed

lemma go_dvd:
  assumes "0 < k" and "span k dvd j" and "j div span k mod 64 = 0"
  shows "span (Suc k) dvd j"
proof -
  have "64 dvd j div span k" using assms(3) by (simp add: mod_eq_0_iff_dvd)
  then have "span k * 64 dvd span k * (j div span k)" by (rule mult_dvd_mono [OF dvd_refl])
  then show ?thesis using assms(2) span_Suc [OF assms(1)] by (simp add: mult.commute)
qed

definition tick_ready :: "nat set \<Rightarrow> nat \<Rightarrow> bool" where
  "tick_ready D j \<longleftrightarrow> (\<forall>k. 0 < k \<longrightarrow> k < 5 \<longrightarrow> span k dvd j \<longrightarrow> k \<in> D)"

definition unharmed :: "'f Wheel \<Rightarrow> 'f Wheel \<Rightarrow> bool" where
  "unharmed w w' \<longleftrightarrow> length (w_timers w') = length (w_timers w) \<and> w_jiffies w' = w_jiffies w
     \<and> w_tick w' = w_tick w
     \<and> (\<forall>t. t_expires (timer_at w' t) = t_expires (timer_at w t) \<and> t_period (timer_at w' t) = t_period (timer_at w t)
          \<and> t_f (timer_at w' t) = t_f (timer_at w t)
          \<and> (t_index (timer_at w' t) = -1 \<longleftrightarrow> t_index (timer_at w t) = -1))"

lemma keeps_unharmed:
  "keeps T w w' \<Longrightarrow> \<forall>t \<in> T. t_index (timer_at w t) \<noteq> -1 \<Longrightarrow> unharmed w w'"
  unfolding keeps_def unharmed_def by metis

lemma unharmed_trans: "unharmed w w' \<Longrightarrow> unharmed w' w'' \<Longrightarrow> unharmed w w''"
  by (simp add: unharmed_def)

lemma cascades_winv:
  assumes "winv {1..<Suc n} {} w" and "n < 4" and "span (Suc n) dvd ticks w"
  shows "\<exists>D. winv D {} (cascades [n..<4] w) \<and> tick_ready D (ticks w) \<and> unharmed w (cascades [n..<4] w)"
  using assms
proof (induction "4 - n" arbitrary: n w)
  case (Suc d)
  let ?k = "Suc n"
  obtain r w' where c: "cascade ?k (getIndex n w) w = (r, w')" by fastforce
  note cw = cascade_winv [OF Suc.prems(1) Suc.prems(2,3) _ c]
  have i: "winv (insert ?k {1..<?k}) {} w'" and r: "r = getIndex n w"
    and un: "unharmed w w'"
    using cw keeps_unharmed by auto
  have ins: "insert ?k {1..<?k} = {1..<Suc ?k}" by auto
  have j: "w_jiffies w' = w_jiffies w" using un by (simp add: unharmed_def)
  have cs: "cascades [n..<4] w = (if r = 0 then cascades [?k..<4] w' else w')"
    using Suc.prems(2) c by (simp add: upt_rec [of n])
  show ?case
  proof (cases "r = 0")
    case False
    have "tick_ready {1..<Suc ?k} (ticks w)"
      unfolding tick_ready_def
    proof (intro allI impI)
      fix m assume m: "0 < m" "m < 5" "span m dvd ticks w"
      then show "m \<in> {1..<Suc ?k}"
        using stop_dvd [of ?k "ticks w" m] False r by (cases "?k < m") (auto simp: getIndex_nat)
    qed
    then show ?thesis using cs False i un ins by auto
  next
    case True
    have dv: "span (Suc ?k) dvd ticks w"
      by (rule go_dvd [OF _ Suc.prems(3)]) (use True r in \<open>simp_all add: getIndex_nat\<close>)
    show ?thesis
    proof (cases "?k < 4")
      case lt: True
      have "\<exists>D. winv D {} (cascades [?k..<4] w') \<and> tick_ready D (ticks w') \<and> unharmed w' (cascades [?k..<4] w')"
        by (rule Suc.hyps(1)) (use Suc.hyps(2) lt dv i ins j in simp_all)
      then show ?thesis using cs True un unharmed_trans j by fastforce
    next
      case ge: False
      then have "n = 3" using Suc.prems(2) by simp
      then have "tick_ready {1..<Suc ?k} (ticks w)" by (auto simp: tick_ready_def)
      then show ?thesis using cs True i un ins ge by auto
    qed
  qed
qed simp

definition active :: "'f Wheel \<Rightarrow> nat \<Rightarrow> bool" where
  "active w t \<longleftrightarrow> t < length (w_timers w) \<and> t_index (timer_at w t) \<noteq> -1"

abbreviation mark_all :: "slot \<Rightarrow> 'f Wheel \<Rightarrow> 'f Wheel" where
  "mark_all vec w \<equiv>
     fold (\<lambda>x w. case x of None \<Rightarrow> w | Some t \<Rightarrow> upd_timer t (\<lambda>tm. tm\<lparr>t_index := -1\<rparr>) w) vec w"

lemma mark_all_simps:
  assumes "\<forall>t \<in> set (somes vec). t < length (w_timers w)"
  shows "w_jiffies (mark_all vec w) = w_jiffies w" "length (w_timers (mark_all vec w)) = length (w_timers w)"
    "w_tv (mark_all vec w) = w_tv w" "w_tick (mark_all vec w) = w_tick w"
    "timer_at (mark_all vec w) t = (if t \<in> set (somes vec) then (timer_at w t)\<lparr>t_index := -1\<rparr> else timer_at w t)"
  using assms by (induction vec arbitrary: w) (auto split: option.splits)

lemma timer_at_jiffies [simp]: "timer_at (w\<lparr>w_jiffies := j\<rparr>) x = timer_at w x"
  by (simp add: timer_at_def)

lemma active_at: "winv D {} w \<Longrightarrow> active w t \<Longrightarrow> at_place w t"
  using winvD(3) by (fastforce simp: active_def)

text \<open>Between two ticks the windows of all levels move on by one.\<close>

lemma win_next:
  assumes w: "win D j k e" and k: "k < 5" and r: "tick_ready D j" and ne: "e \<noteq> j"
  shows "win {} (Suc j) k e"
proof (cases "k = 0")
  case True
  then show ?thesis using w ne by (simp add: win_def)
next
  case False
  have b: "j div span k < e div span k" "e div span k \<le> j div span k + 64" "j \<le> e"
    using w False r k by (auto simp: win_def tick_ready_def split: if_splits)
  have s: "Suc j div span k = (if span k dvd Suc j then Suc (j div span k) else j div span k)"
    by (simp add: div_Suc dvd_eq_mod_eq_0)
  show ?thesis using False b ne by (auto simp: win_def s)
qed

lemma due_slot:
  assumes "win D j 0 e" and "e mod 256 = j mod 256"
  shows "e = j"
proof -
  have "256 dvd e - j" using assms by (simp add: win_def mod_eq_dvd_iff_nat)
  moreover have "e - j < 256" using assms(1) by (simp add: win_def) linarith
  ultimately have "e - j = 0" by (metis dvd_imp_le leD neq0_conv)
  then show ?thesis using assms(1) by (simp add: win_def)
qed

lemma onTick_ready:
  assumes inv: "winv {} {} w"
  obtains D where "winv D {} (if ticks w mod 256 = 0 then cascades [0, 1, 2, 3] w else w)"
    and "tick_ready D (ticks w)" and "unharmed w (if ticks w mod 256 = 0 then cascades [0, 1, 2, 3] w else w)"
proof (cases "ticks w mod 256 = 0")
  case True
  have "[0, 1, 2, 3] = [0..<4]" by (simp add: upt_rec)
  moreover have "winv {1..<Suc 0} {} w" using inv by simp
  moreover have "span (Suc 0) dvd ticks w" using True by (simp add: span_def mod_eq_0_iff_dvd)
  ultimately show ?thesis using that cascades_winv [of 0 w] True by auto
next
  case False
  have "tick_ready {} (ticks w)"
    unfolding tick_ready_def
  proof (intro allI impI)
    fix k assume "0 < k" "k < 5" "span k dvd ticks w"
    then have "span 1 dvd ticks w" using span_dvd [of 1 k] by (metis One_nat_def Suc_leI dvd_trans zero_less_one)
    then show "k \<in> {}" using False by (simp add: span_def mod_eq_0_iff_dvd)
  qed
  then show ?thesis using that [of "{}"] inv False by (simp add: unharmed_def)
qed

lemma onTick_spec:
  assumes inv: "winv {} {} w" and bound: "ticks w + 1 < 2 ^ 64" and tick: "onTick w = (vec, w')"
  shows "winv {} {} w'" and "ticks w' = ticks w + 1"
    and "Some t \<in> set vec \<longleftrightarrow> active w t \<and> due w t = ticks w" and "distinct (somes vec)"
    and "active w' t \<longleftrightarrow> active w t \<and> due w t \<noteq> ticks w"
    and "length (w_timers w') = length (w_timers w)" and "due w' t = due w t"
    and "t_f (timer_at w' t) = t_f (timer_at w t)" and "w_tick w' = w_tick w"
    and "t_period (timer_at w' t) = t_period (timer_at w t)"
proof -
  let ?i = "ticks w mod 256"
  define u where "u = (if ?i = 0 then cascades [0, 1, 2, 3] w else w)"
  obtain D where iu: "winv D {} u" and rd: "tick_ready D (ticks w)" and un: "unharmed w u"
    using onTick_ready [OF inv] unfolding u_def by metis
  have uj: "w_jiffies u = w_jiffies w" "length (w_timers u) = length (w_timers w)"
    and ud: "due u x = due w x" and ua: "active u x = active w x" for x
    using un by (simp_all add: unharmed_def active_def)
  have i: "?i < lvl_size 0" by (simp add: lvl_size_def)
  have vec: "vec = slot_at u 0 ?i"
    using tick by (auto simp: onTick_def Let_def u_def tv_consts and_mask_nat slot_at_def)
  define v where "v = upd_slot 0 ?i [] (u\<lparr>w_jiffies := w_jiffies u + 1\<rparr>)"
  have w': "w' = mark_all vec v"
    using tick by (auto simp: onTick_def Let_def u_def v_def tv_consts and_mask_nat slot_at_def)
  have hv: "\<exists>p. held D {} u 0 ?i p x" if "x \<in> set (somes vec)" for x
    using that vec_held [OF iu _ i] vec by auto
  have sv: "x \<in> set (somes vec) \<longleftrightarrow> active w x \<and> due w x = ticks w" for x
  proof
    assume "x \<in> set (somes vec)"
    then obtain p where h: "held D {} u 0 ?i p x" using hv by blast
    then have "win D (ticks w) 0 (due w x)" "due w x mod 256 = ticks w mod 256"
      by (simp_all add: held_def uj ud span_simps lvl_size_def)
    then have "due w x = ticks w" by (rule due_slot)
    moreover have "active u x" using h by (simp add: active_def held_def)
    ultimately show "active w x \<and> due w x = ticks w" by (simp add: ua)
  next
    assume a: "active w x \<and> due w x = ticks w"
    then have "active u x" by (simp add: ua)
    then obtain k i' p where p: "k < 5" "i' < lvl_size k" "p < length (slot_at u k i')" "slot_at u k i' ! p = Some x"
      using active_at [OF iu, of x] unfolding at_place_def by metis
    have h: "held D {} u k i' p x" by (rule winvD(2) [OF iu p])
    have "k = 0"
    proof (rule ccontr)
      assume "k \<noteq> 0"
      then have "ticks w div span k < due w x div span k"
        using h rd p(1) by (auto simp: held_def win_def uj ud tick_ready_def split: if_splits)
      then show False using a by simp
    qed
    then have "i' = ?i" using h a by (simp add: held_def ud span_simps lvl_size_def)
    then show "x \<in> set (somes vec)" using p \<open>k = 0\<close> vec by (auto simp: set_somes) (metis nth_mem)
  qed
  show "Some t \<in> set vec \<longleftrightarrow> active w t \<and> due w t = ticks w" using sv by (simp add: set_somes)
  show "distinct (somes vec)" using vec_distinct [OF iu _ i] vec by simp
  have lv: "\<forall>x \<in> set (somes vec). x < length (w_timers v)"
    using sv by (simp add: v_def uj active_def)
  note ms = mark_all_simps [OF lv, folded w']
  have vt: "timer_at v x = timer_at u x" for x by (simp add: v_def timer_at_def upd_slot_def)
  show j: "ticks w' = ticks w + 1"
    using bound by (simp add: ms v_def uj unat_word_ariths)
  show "length (w_timers w') = length (w_timers w)" by (simp add: ms v_def uj)
  show "w_tick w' = w_tick w" using un by (simp add: ms v_def unharmed_def)
  have d': "due w' x = due w x" for x using ud by (simp add: ms vt)
  show "due w' t = due w t" by (rule d')
  show "t_f (timer_at w' t) = t_f (timer_at w t)" using un by (simp add: ms vt unharmed_def)
  show "t_period (timer_at w' t) = t_period (timer_at w t)" using un by (simp add: ms vt unharmed_def)
  have act: "active w' x \<longleftrightarrow> active w x \<and> x \<notin> set (somes vec)" for x
    using un uj by (simp add: active_def ms vt v_def unharmed_def)
  show "active w' t \<longleftrightarrow> active w t \<and> due w t \<noteq> ticks w" using act sv by blast
  have iv: "winv D (set (somes vec) \<union> {}) (upd_slot 0 ?i [] u)"
    unfolding vec by (rule clear_winv [OF iu _ i]) simp
  have sl: "slot_at w' k i' = slot_at (upd_slot 0 ?i [] u) k i'" for k i'
    by (simp add: slot_at_def ms v_def upd_slot_def)
  have held': "held {} {} w' k i' p x"
    if c: "k < 5" "i' < lvl_size k" "p < length (slot_at w' k i')" "slot_at w' k i' ! p = Some x" for k i' p x
  proof -
    have h: "held D (set (somes vec)) (upd_slot 0 ?i [] u) k i' p x"
      using winvD(2) [OF iv c(1,2)] c(3,4) by (simp add: sl)
    then have x: "x \<notin> set (somes vec)" "x < length (w_timers w)" by (simp_all add: held_def uj)
    then have tx: "timer_at w' x = timer_at u x" by (simp add: ms vt)
    have "active u x" using h by (simp add: active_def held_def timer_at_def)
    then have "active w x" by (simp add: ua)
    then have "due w x \<noteq> ticks w" using sv x(1) by blast
    then have "win {} (Suc (ticks w)) k (due w x)"
      using h by (intro win_next [OF _ c(1) rd]) (simp_all add: held_def uj ud)
    then show ?thesis using h x(2) j by (simp add: held_def tx uj ud ms v_def)
  qed
  have "at_place w' x" if "x < length (w_timers w')" "t_index (timer_at w' x) \<noteq> -1" for x
  proof -
    have x: "x \<notin> set (somes vec)" "x < length (w_timers w)" using that by (auto simp: ms v_def uj split: if_splits)
    then have "timer_at w' x = timer_at u x" by (simp add: ms vt)
    moreover have "at_place (upd_slot 0 ?i [] u) x"
      by (rule winvD(3) [OF iv]) (use x that calculation uj in simp_all)
    ultimately show ?thesis by (simp add: at_place_def sl)
  qed
  moreover have "shape w'" using winvD(1) [OF iv] by (simp add: shape_def ms v_def upd_slot_def)
  ultimately show "winv {} {} w'" using held' by (simp add: winv_def)
qed

end
