(* ===== verification/Timer_Spec.thy ===== *)
theory Timer_Spec
  imports Timer_Tick Timer_Service
begin

text \<open>
  The operations on one timer, and the wheel as a provider of the timer service: a timer that was
  started for \<open>n\<close> ticks is handed over in the tick after those, whatever else happens.
\<close>

section \<open>Cancelling\<close>

lemma delTimer_spec:
  assumes inv: "winv {} {} w" and t: "t < length (w_timers w)"
  obtains w' where "delTimer t w = Inr (active w t, w')" and "winv {} {} w'"
    and "\<And>u. active w' u \<longleftrightarrow> active w u \<and> u \<noteq> t" and "\<And>u. due w' u = due w u"
    and "length (w_timers w') = length (w_timers w)" and "w_jiffies w' = w_jiffies w" and "w_tick w' = w_tick w"
proof (cases "t_index (timer_at w t) = -1")
  case True
  then show ?thesis using assms by (intro that [of w]) (auto simp: delTimer_def active_def Let_def)
next
  case False
  then have a: "active w t" using t by (simp add: active_def)
  obtain k i p where p: "t_index (timer_at w t) = int p" "t_tv (timer_at w t) = k" "t_findex (timer_at w t) = i"
    "k < 5" "i < lvl_size k" "p < length (slot_at w k i)" "slot_at w k i ! p = Some t"
    using active_at [OF inv a] unfolding at_place_def by metis
  let ?w = "upd_timer t (\<lambda>tm. tm\<lparr>t_index := -1\<rparr>) (upd_slot k i ((slot_at w k i)[p := None]) w)"
  have d: "delTimer t w = Inr (active w t, ?w)"
    using p a by (simp add: delTimer_def Let_def)
  have tl: "t < length (w_timers (upd_slot k i s w))" for s using t by simp
  have at: "timer_at ?w u = (if u = t then (timer_at w t)\<lparr>t_index := -1\<rparr> else timer_at w u)" for u
    using tl by simp
  have sh: "shape w" by (rule winvD(1) [OF inv])
  have sl: "slot_at ?w k' i' = (if k' = k \<and> i' = i then (slot_at w k i)[p := None] else slot_at w k' i')" for k' i'
    by (simp add: slot_upd_slot [OF sh p(4,5)])
  note slu = slot_upd_slot [OF sh p(4,5)]
  have b: "held {} {} ?w k' i' q u"
    if c: "k' < 5" "i' < lvl_size k'" "q < length (slot_at ?w k' i')" "slot_at ?w k' i' ! q = Some u" for k' i' q u
  proof -
    have s: "q < length (slot_at w k' i')" "slot_at w k' i' ! q = Some u" "\<not> (k' = k \<and> i' = i \<and> q = p)"
      using c(3,4) p(6) by (auto simp: slu nth_list_update split: if_splits)
    have h: "held {} {} w k' i' q u" by (rule winvD(2) [OF inv c(1,2) s(1,2)])
    have "u \<noteq> t" using h s(3) p(1-3) by (auto simp: held_def)
    then show ?thesis using h by (simp add: held_def at)
  qed
  have c: "at_place ?w u" if th: "u < length (w_timers w)" "t_index (timer_at ?w u) \<noteq> -1" for u
  proof -
    have u: "u \<noteq> t" "t_index (timer_at w u) \<noteq> -1" using th by (auto simp: at split: if_splits)
    obtain k' i' q where q: "t_index (timer_at w u) = int q" "t_tv (timer_at w u) = k'" "t_findex (timer_at w u) = i'"
      "k' < 5" "i' < lvl_size k'" "q < length (slot_at w k' i')" "slot_at w k' i' ! q = Some u"
      using winvD(3) [OF inv th(1)] u(2) unfolding at_place_def by auto
    have "\<not> (k' = k \<and> i' = i \<and> q = p)" using q(7) p(7) u(1) by auto
    then show ?thesis
      unfolding at_place_def using q u(1)
      by (intro exI [of _ k'] exI [of _ i'] exI [of _ q]) (auto simp: at slu nth_list_update)
  qed
  have "winv {} {} ?w" using b c sh by (simp add: winv_def)
  then show ?thesis
    by (intro that [OF d]) (auto simp: at active_def)
qed

section \<open>Starting\<close>

definition n_of :: "int \<Rightarrow> int \<Rightarrow> nat" where
  "n_of tick d = nat (d sdiv tick)"

definition good_time :: "int \<Rightarrow> int \<Rightarrow> bool" where
  "good_time tick d \<longleftrightarrow> 0 \<le> d sdiv tick \<and> d sdiv tick < 2 ^ 32"

lemma unat_add_ticks:
  assumes "good_time tick d" and "unat j < 2 ^ 63"
  shows "unat (j + word_of_int (d sdiv tick) :: u64) = unat j + n_of tick d"
    "unat (word_of_int (d sdiv tick) :: u64) = n_of tick d" "n_of tick d < 2 ^ 32"
proof -
  have b: "0 \<le> d sdiv tick" "d sdiv tick < 2 ^ 32" using assms(1) by (simp_all add: good_time_def)
  then have n: "n_of tick d < 2 ^ 32" "int (n_of tick d) = d sdiv tick" by (simp_all add: n_of_def nat_less_iff)
  show "n_of tick d < 2 ^ 32" by (rule n(1))
  have w: "(word_of_int (d sdiv tick) :: u64) = word_of_nat (n_of tick d)" using n(2) by (metis of_int_of_nat_eq)
  show u: "unat (word_of_int (d sdiv tick) :: u64) = n_of tick d"
    unfolding w using n(1) by (simp add: unsigned_of_nat take_bit_nat_eq_self_iff)
  show "unat (j + word_of_int (d sdiv tick) :: u64) = unat j + n_of tick d"
    using assms(2) n(1) by (subst unat_word_ariths) (simp add: u)
qed

lemma start_spec:
  assumes inv: "winv {} {} w" and b: "ticks w < 2 ^ 63" and e: "ticks w \<le> due w t" "due w t < ticks w + 2 ^ 32"
    and t: "t < length (w_timers w)" and na: "\<not> active w t"
  shows "winv {} {} (addTimer t w)" and "active (addTimer t w) u \<longleftrightarrow> active w u \<or> u = t"
    and "due (addTimer t w) u = due w u" and "length (w_timers (addTimer t w)) = length (w_timers w)"
    and "w_jiffies (addTimer t w) = w_jiffies w" and "w_tick (addTimer t w) = w_tick w"
proof -
  have "winv {} {t} w"
    using inv na t unfolding winv_def held_def active_def
    by auto
  then show "winv {} {} (addTimer t w)"
    using addTimerInternal_winv [of "{}" "{t}" w t] t e by (simp add: addTimer_def)
  have k: "keeps {t} w (addTimer t w)" unfolding addTimer_def by (rule addTimerInternal_keeps [OF t])
  show "due (addTimer t w) u = due w u" "length (w_timers (addTimer t w)) = length (w_timers w)"
    "w_jiffies (addTimer t w) = w_jiffies w" "w_tick (addTimer t w) = w_tick w"
    using keepsD [OF k] by simp_all
  show "active (addTimer t w) u \<longleftrightarrow> active w u \<or> u = t"
    using k t by (cases "u = t") (auto simp: keeps_def active_def)
qed

text \<open>A fresh timer, not yet entered: its index is 0 and it is in no slot.\<close>

lemma newTimer_winv:
  assumes inv: "winv {} {} w" and n: "newTimer d p f w = (t, w')"
  shows "winv {} {t} w'" and "t = length (w_timers w)" and "length (w_timers w') = Suc t"
    and "w_jiffies w' = w_jiffies w" and "w_tick w' = w_tick w"
    and "u < length (w_timers w) \<Longrightarrow> timer_at w' u = timer_at w u"
    and "t_expires (timer_at w' t) = w_jiffies w + word_of_int (d sdiv w_tick w)"
proof -
  show t: "t = length (w_timers w)" "length (w_timers w') = Suc t"
    "w_jiffies w' = w_jiffies w" "w_tick w' = w_tick w"
    "t_expires (timer_at w' t) = w_jiffies w + word_of_int (d sdiv w_tick w)"
    using n by (auto simp: newTimer_def timer_at_def)
  have at: "timer_at w' u = timer_at w u" if "u < length (w_timers w)" for u
    using n that by (auto simp: newTimer_def timer_at_def nth_append)
  then show "u < length (w_timers w) \<Longrightarrow> timer_at w' u = timer_at w u" .
  have sl: "slot_at w' k i = slot_at w k i" "shape w' = shape w" for k i
    using n by (auto simp: newTimer_def slot_at_def shape_def)
  have h: "held {} {t} w' k i p u" if "held {} {} w k i p u" for k i p u
    using that by (simp add: held_def at t)
  have "at_place w' u" if "u < length (w_timers w')" "u \<noteq> t" "t_index (timer_at w' u) \<noteq> -1" for u
  proof -
    have "u < length (w_timers w)" using that(1,2) t by simp
    then show ?thesis using winvD(3) [OF inv, of u] that(3) by (simp add: at_place_def at sl)
  qed
  then show "winv {} {t} w'"
    using h inv unfolding winv_def sl by auto
qed

lemma NewTimerFunc_spec:
  assumes inv: "winv {} {} w" and b: "ticks w < 2 ^ 63" and d: "good_time (w_tick w) d"
    and n: "Wheel_NewTimerFunc d f w = (t, w')"
  shows "winv {} {} w'" and "t = length (w_timers w)" and "length (w_timers w') = Suc t"
    and "w_jiffies w' = w_jiffies w" and "w_tick w' = w_tick w"
    and "active w' u \<longleftrightarrow> active w u \<or> u = t"
    and "u < length (w_timers w) \<Longrightarrow> due w' u = due w u" and "due w' t = ticks w + n_of (w_tick w) d"
proof -
  obtain v where v: "newTimer d 0 f w = (t, v)" and w': "w' = addTimerInternal t v"
    using n by (auto simp: Wheel_NewTimerFunc_def addTimer_def split: prod.splits)
  note nt = newTimer_winv [OF inv v]
  note un = unat_add_ticks [OF d b]
  have e: "due v t = ticks w + n_of (w_tick w) d" by (simp add: nt(7) un(1))
  have tl: "t < length (w_timers v)" by (simp add: nt(3))
  have k: "keeps {t} v w'" unfolding w' by (rule addTimerInternal_keeps [OF tl])
  have "winv {} ({t} - {t}) w'"
    unfolding w' by (rule addTimerInternal_winv [OF nt(1) _ tl]) (use e un(3) nt(4) in simp_all)
  then show "winv {} {} w'" by simp
  show "t = length (w_timers w)" by (rule nt(2))
  show "length (w_timers w') = Suc t" "w_jiffies w' = w_jiffies w" "w_tick w' = w_tick w"
    "due w' t = ticks w + n_of (w_tick w) d"
    using keepsD [OF k] nt e by simp_all
  show "due w' u = due w u" if "u < length (w_timers w)" using keepsD(3) [OF k] nt(6) that by simp
  show "active w' u \<longleftrightarrow> active w u \<or> u = t"
  proof (cases "u = t")
    case True
    then show ?thesis using k tl by (simp add: active_def keeps_def)
  next
    case False
    have "active w' u \<longleftrightarrow> active v u" using k False by (simp add: active_def keeps_def)
    also have "\<dots> \<longleftrightarrow> active w u" using nt(2,3,6) False by (auto simp: active_def)
    finally show ?thesis using False by simp
  qed
qed

text \<open>A timer that is reset waits at least one tick.\<close>

lemma resetTimer_spec:
  fixes w :: "'f Wheel"
  assumes inv: "winv {} {} w" and b: "ticks w < 2 ^ 63" and d: "good_time (w_tick w) d"
    and t: "t < length (w_timers w)"
  obtains w' where "resetTimer t d p w = Inr (active w t, w')" and "winv {} {} w'"
    and "\<And>u. active w' u \<longleftrightarrow> active w u" and "\<And>u. u \<noteq> t \<or> \<not> active w t \<Longrightarrow> due w' u = due w u"
    and "active w t \<Longrightarrow> due w' t = ticks w + max 1 (n_of (w_tick w) d)"
    and "length (w_timers w') = length (w_timers w)" and "w_jiffies w' = w_jiffies w" and "w_tick w' = w_tick w"
proof -
  obtain v where v: "delTimer t w = Inr (active w t, v)" "winv {} {} v"
    "\<And>u. active v u \<longleftrightarrow> active w u \<and> u \<noteq> t" "\<And>u. due v u = due w u"
    "length (w_timers v) = length (w_timers w)" "w_jiffies v = w_jiffies w" "w_tick v = w_tick w"
    by (rule delTimer_spec [OF inv t]) (rule that; assumption)
  show thesis
  proof (cases "active w t")
    case False
    then show thesis
      using v by (intro that [of v]) (auto simp: resetTimer_def)
  next
    case True
    let ?e = "let e = (word_of_int (d sdiv w_tick v) :: u64) in if e = 0 then 1 else e"
    define g where "g = (\<lambda>tm :: 'f timer. tm\<lparr>t_expires := w_jiffies v + ?e, t_period := word_of_int (p sdiv w_tick v)\<rparr>)"
    let ?v = "upd_timer t g v"
    note un = unat_add_ticks [OF d b]
    have r: "resetTimer t d p w = Inr (active w t, addTimer t ?v)"
      using True by (simp add: resetTimer_def v(1) g_def Let_def)
    have tl: "t < length (w_timers v)" using t v(5) by simp
    have ge: "unat (w_jiffies v + ?e) = ticks w + max 1 (n_of (w_tick w) d)"
    proof (cases "(word_of_int (d sdiv w_tick v) :: u64) = 0")
      case True
      then have "n_of (w_tick w) d = 0" using un(2) v(7) by simp
      moreover have "unat (w_jiffies v + 1) = ticks w + 1" using b v(6) by (subst unat_word_ariths) simp
      ultimately show ?thesis using True by simp
    next
      case False
      then have "n_of (w_tick w) d \<noteq> 0" using un(2) v(7) by (metis unat_eq_0)
      then show ?thesis using False un(1) v(6,7) by simp
    qed
    have at: "timer_at ?v u = (if u = t then g (timer_at v t) else timer_at v u)" for u using tl by simp
    have dv: "due ?v u = (if u = t then ticks w + max 1 (n_of (w_tick w) d) else due w u)" for u
      unfolding at using v(4) [of u] ge by (simp add: g_def)
    have gi: "t_index (g tm) = t_index tm" for tm by (simp add: g_def)
    have av: "active ?v u \<longleftrightarrow> active v u" for u by (simp add: active_def at gi del: upd_timer_simps(7))
    have iv: "winv {} {} ?v"
    proof -
      have nh: "\<not> held {} {} v k i q t" for k i q using v(3) [of t] by (auto simp: held_def active_def)
      have "held {} {} ?v k i q u" if "held {} {} v k i q u" for k i q u
      proof -
        have "u \<noteq> t" using that nh by blast
        then show ?thesis using that tl by (simp add: held_def)
      qed
      moreover have "at_place ?v u" if "u < length (w_timers v)" "t_index (timer_at ?v u) \<noteq> -1" for u
      proof -
        have "active ?v u" using that by (simp add: active_def)
        then have "active v u" by (simp add: av)
        then have "at_place v u" by (rule active_at [OF v(2)])
        moreover have "u \<noteq> t" using \<open>active v u\<close> v(3) by blast
        ultimately show ?thesis using tl by (simp add: at_place_def)
      qed
      ultimately show ?thesis using v(2) unfolding winv_def by simp
    qed
    have "\<not> active ?v t" using av v(3) by blast
    note st = start_spec [OF iv, of t]
    have n: "n_of (w_tick w) d < 2 ^ 32" by (rule un(3))
    have st': "winv {} {} (addTimer t ?v)" "\<And>u. active (addTimer t ?v) u \<longleftrightarrow> active ?v u \<or> u = t"
      "\<And>u. due (addTimer t ?v) u = due ?v u" "length (w_timers (addTimer t ?v)) = length (w_timers ?v)"
      "w_jiffies (addTimer t ?v) = w_jiffies ?v" "w_tick (addTimer t ?v) = w_tick ?v"
      using start_spec [OF iv, of t] b dv [of t] n tl v(6) \<open>\<not> active ?v t\<close>
      by (simp_all del: upd_timer_simps(7))
    show thesis
      by (rule that [OF r st'(1)])
        (use True st'(2-6) av v(3,5,6,7) dv in \<open>auto simp del: upd_timer_simps(7)\<close>)
  qed
qed

section \<open>The wheel provides the service\<close>

definition wheel_left :: "'f Wheel \<Rightarrow> nat \<Rightarrow> nat option" where
  "wheel_left w t = (if active w t then Some (due w t - ticks w) else None)"

definition wheel_tick :: "'f Wheel \<Rightarrow> nat list \<times> 'f Wheel" where
  "wheel_tick w = (let (vec, w) = onTick w in (somes vec, w))"

lemma active_due: "winv {} {} w \<Longrightarrow> active w t \<Longrightarrow> ticks w \<le> due w t"
proof -
  assume i: "winv {} {} w" and a: "active w t"
  obtain k i p where p: "k < 5" "i < lvl_size k" "p < length (slot_at w k i)" "slot_at w k i ! p = Some t"
    using active_at [OF i a] unfolding at_place_def by metis
  have "held {} {} w k i p t" by (rule winvD(2) [OF i p])
  then show ?thesis by (simp add: held_def win_def)
qed

interpretation wheel: timer_service "\<lambda>w. winv {} {} w \<and> w_tick w = tk" wheel_left
  "\<lambda>w. {t. t < length (w_timers w)}" ticks "2 ^ 63" "\<lambda>(d, f). good_time tk d"
  "\<lambda>(d, f). n_of tk d" "\<lambda>(d, f). max 1 (n_of tk d)" "\<lambda>(d, f). Wheel_NewTimerFunc d f" Wheel_Stop
  "\<lambda>t (d, f). Wheel_Reset t d" wheel_tick for tk
proof (standard, goal_cases)
  case (1 s t)
  then show ?case by (auto simp: wheel_left_def active_def split: if_splits)
next
  case (2 s d t s')
  obtain v f where d: "d = (v, f)" by fastforce
  have i: "winv {} {} s" "w_tick s = tk" "good_time (w_tick s) v" "Wheel_NewTimerFunc v f s = (t, s')"
    using 2 d by auto
  note sp = NewTimerFunc_spec [OF i(1) 2(2) i(3,4)]
  have "wheel_left s' = (wheel_left s)(t \<mapsto> n_of tk v)"
  proof
    fix u
    show "wheel_left s' u = ((wheel_left s)(t \<mapsto> n_of tk v)) u"
      using sp(4,6,7,8) i(2) by (auto simp: wheel_left_def active_def)
  qed
  then show ?case using sp(1-5) i(2) d by auto
next
  case (3 s t)
  then have i: "winv {} {} s" "t < length (w_timers s)" by auto
  obtain v where v: "delTimer t s = Inr (active s t, v)" "winv {} {} v"
    "\<And>u. active v u \<longleftrightarrow> active s u \<and> u \<noteq> t" "\<And>u. due v u = due s u"
    "length (w_timers v) = length (w_timers s)" "w_jiffies v = w_jiffies s" "w_tick v = w_tick s"
    by (rule delTimer_spec [OF i]) (rule that; assumption)
  have "wheel_left v = (wheel_left s)(t := None)" by (rule ext) (simp add: wheel_left_def v)
  then show ?case using v 3 by (intro exI [of _ v]) (simp add: Wheel_Stop_def wheel_left_def)
next
  case (4 s d t)
  obtain x f where d: "d = (x, f)" by fastforce
  have i: "winv {} {} s" "w_tick s = tk" "good_time (w_tick s) x" "t < length (w_timers s)" using 4 d by auto
  obtain v where v: "resetTimer t x 0 s = Inr (active s t, v)" "winv {} {} v"
    "\<And>u. active v u \<longleftrightarrow> active s u" "\<And>u. u \<noteq> t \<or> \<not> active s t \<Longrightarrow> due v u = due s u"
    "active s t \<Longrightarrow> due v t = ticks s + max 1 (n_of (w_tick s) x)"
    "length (w_timers v) = length (w_timers s)" "w_jiffies v = w_jiffies s" "w_tick v = w_tick s"
    by (rule resetTimer_spec [OF i(1) 4(2) i(3,4)]) (rule that; assumption)
  have "wheel_left v = (if wheel_left s t = None then wheel_left s else (wheel_left s)(t \<mapsto> max 1 (n_of tk x)))"
    using v i(2) by (auto simp: wheel_left_def fun_eq_iff)
  then show ?case
    using v i d by (intro exI [of _ v]) (simp add: Wheel_Reset_def wheel_left_def)
next
  case (5 s ts s')
  obtain vec where o: "onTick s = (vec, s')" and ts: "ts = somes vec"
    using 5 by (auto simp: wheel_tick_def split: prod.splits)
  have b: "ticks s + 1 < 2 ^ 64" using 5 by simp
  note sp = onTick_spec [OF _ b o]
  have i: "winv {} {} s" "w_tick s = tk" using 5 by auto
  have "wheel_left s' = (\<lambda>t. case wheel_left s t of Some (Suc n) \<Rightarrow> Some n | _ \<Rightarrow> None)"
  proof
    fix t
    show "wheel_left s' t = (case wheel_left s t of Some (Suc n) \<Rightarrow> Some n | _ \<Rightarrow> None)"
    proof (cases "active s t")
      case True
      then have "ticks s \<le> due s t" by (rule active_due [OF i(1)])
      then show ?thesis
        using True sp(2,5,7) [OF i(1)] by (cases "due s t - ticks s") (auto simp: wheel_left_def)
    qed (use sp(5) [OF i(1)] in \<open>simp add: wheel_left_def\<close>)
  qed
  moreover have "x \<in> set ts \<longleftrightarrow> wheel_left s x = Some 0" for x
    using sp(3) [OF i(1), of x] active_due [OF i(1), of x] by (auto simp: ts set_somes wheel_left_def)
  ultimately show ?case using sp(1,2,4,6,9) [OF i(1)] i(2) ts by auto
qed

lemma NewWheel_winv: "winv {} {} (NewWheel tick :: 'f Wheel)"
proof -
  let ?w = "NewWheel tick :: 'f Wheel"
  have k: "k < 5 \<Longrightarrow> k \<in> {0, 1, 2, 3, 4}" for k :: nat by auto
  have "slot_at ?w k i = []" if "k < 5" "i < lvl_size k" for k i
    using k [OF that(1)] that(2) by (auto simp: NewWheel_def slot_at_def tv_consts lvl_size_def)
  moreover have "shape ?w"
    using k by (fastforce simp: shape_def NewWheel_def tv_consts lvl_size_def)
  moreover have "w_timers ?w = []" by (simp add: NewWheel_def)
  ultimately show ?thesis by (simp add: winv_def)
qed

section \<open>A timer goes off once\<close>

text \<open>What happens to a wheel: the entry points of the package, for a wheel whose tick is fixed.\<close>

definition wheel_run :: "(nat, int \<times> 'f) timer_op list \<Rightarrow> 'f Wheel \<Rightarrow> (nat list \<times> 'f Wheel) res" where
  "wheel_run = run_ops (\<lambda>(d, f). Wheel_NewTimerFunc d f) Wheel_Stop (\<lambda>t (d, f). Wheel_Reset t d) wheel_tick"

text \<open>
  C32: a timer that is started for \<open>d\<close> on a wheel of any age is handed to the goroutine of the
  tick that follows \<open>d / tick\<close> ticks, exactly once and never before, whatever timers are started,
  stopped and reset meanwhile and however often it wandered through the levels of the wheel; and no
  operation panics. The only bounds are those of the levels, \<open>2^32\<close> ticks for one timer, and of the
  counter.
\<close>

theorem wheel_timer_fires_once:
  assumes "winv {} {} w" and "good_time (w_tick w) d" and "Wheel_NewTimerFunc d f w = (t, w0)"
    and "ticks w + n_ticks ps < 2 ^ 63"
    and "\<forall>p \<in> set ps. op_ok (\<lambda>(d, f). good_time (w_tick w) d) {u. u \<le> t} t p"
  shows "\<exists>us w1. wheel_run ps w0 = Inr (us, w1) \<and> winv {} {} w1 \<and>
    count_list us t = (if n_ticks ps \<le> nat (d sdiv w_tick w) then 0 else 1)"
proof -
  have b: "ticks w < 2 ^ 63" using assms(4) by simp
  note sp = NewTimerFunc_spec [OF assms(1) b assms(2,3)]
  have l: "wheel_left w0 t = Some (nat (d sdiv w_tick w))"
    using sp(6,8) sp(4) by (simp add: wheel_left_def n_of_def)
  have k: "{u. u < length (w_timers w0)} = {u. u \<le> t}" using sp(3) by auto
  have "\<exists>us w1. wheel_run ps w0 = Inr (us, w1) \<and> (winv {} {} w1 \<and> w_tick w1 = w_tick w) \<and>
    (if n_ticks ps \<le> nat (d sdiv w_tick w) then t \<notin> set us \<and> wheel_left w1 t = Some (nat (d sdiv w_tick w) - n_ticks ps)
     else count_list us t = 1 \<and> wheel_left w1 t = None)"
    unfolding wheel_run_def
    by (rule wheel.fires_once [of w0 "w_tick w"]) (use sp l k assms(4,5) in simp_all)
  then show ?thesis by (auto split: if_splits)
qed

theorem wheel_timer_fires_once_witness:
  "\<exists>us w1. wheel_run [Tick_op, New_op (10, ''b''), Stop_op 0, Tick_op, Tick_op, Tick_op]
      (snd (Wheel_NewTimerFunc 25 ''a'' (snd (Wheel_NewTimerFunc 90 ''c'' (NewWheel 10)))))
    = Inr (us, w1) \<and> winv {} {} w1 \<and> count_list us (1 :: nat) = 1"
proof -
  have g: "good_time 10 d" if "d \<in> {90, 25, 10}" for d
    using that by (auto simp: good_time_def signed_divide_int_def)
  obtain t0 w where w: "Wheel_NewTimerFunc 90 ''c'' (NewWheel 10) = (t0, w)" by fastforce
  have n: "w_tick (NewWheel 10) = 10" "ticks (NewWheel 10) = 0" "w_timers (NewWheel 10) = []"
    by (simp_all add: NewWheel_def)
  have sp: "winv {} {} w" "w_jiffies w = 0" "w_tick w = 10" "length (w_timers w) = 1"
    using NewTimerFunc_spec [OF NewWheel_winv _ _ w] g [of 90] by (simp_all add: n NewWheel_def)
  obtain t w0 where w0: "Wheel_NewTimerFunc 25 ''a'' w = (t, w0)" by fastforce
  have t: "t = 1" using NewTimerFunc_spec(2) [OF sp(1) _ _ w0] sp g [of 25] by simp
  have "good_time (w_tick w) 25" using g [of 25] sp by simp
  from wheel_timer_fires_once [OF sp(1) this w0, of "[Tick_op, New_op (10, ''b''), Stop_op 0, Tick_op, Tick_op, Tick_op]"]
  show ?thesis using sp g [of 10] t w w0 by (simp add: signed_divide_int_def)
qed

text \<open>
  A periodic timer whose function is running cannot be stopped: its index is -1 then, so \<open>Stop\<close> does
  nothing, and the goroutine enters it again after its function.
\<close>

lemma stop_while_running_is_lost:
  assumes inv: "winv {} {} w" and b: "ticks w + 1 < 2 ^ 63" and tick: "onTick w = (vec, w')"
    and t: "Some t \<in> set vec" and p: "0 < unat (t_period (timer_at w t))" "unat (t_period (timer_at w t)) < 2 ^ 32"
  shows "Wheel_Stop t w' = Inr (False, w')" and "active (after_run t w') t"
    and "due (after_run t w') t = ticks w + 1 + unat (t_period (timer_at w t))"
proof -
  have b': "ticks w + 1 < 2 ^ 64" using b by simp
  note sp = onTick_spec [OF inv b' tick]
  have a: "active w t" using sp(3) t by blast
  then have tl: "t < length (w_timers w')" using sp(6) by (simp add: active_def)
  moreover have "\<not> active w' t" using sp(3,5) t by blast
  ultimately have i: "t_index (timer_at w' t) = -1" by (simp add: active_def)
  then show "Wheel_Stop t w' = Inr (False, w')" by (simp add: Wheel_Stop_def delTimer_def)
  let ?v = "upd_timer t (\<lambda>tm. tm\<lparr>t_expires := t_period tm + w_jiffies w'\<rparr>) w'"
  have pp: "t_period (timer_at w' t) > 0" using p(1) sp(10) by (simp add: word_less_nat_alt)
  then have r: "after_run t w' = addTimerInternal t ?v" by (simp add: after_run_def addTimer_def)
  have tv: "t < length (w_timers ?v)" using tl by simp
  note k = addTimerInternal_keeps [OF tv]
  show "active (after_run t w') t" using k tl unfolding r by (simp add: keeps_def active_def)
  have "unat (t_period (timer_at w' t) + w_jiffies w') = unat (t_period (timer_at w' t)) + ticks w'"
    using p b sp(2,10) by (subst unat_word_ariths) simp
  then show "due (after_run t w') t = ticks w + 1 + unat (t_period (timer_at w t))"
    using keepsD(3) [OF k, of t] tl sp(2,10) unfolding r by simp
qed

end
