(* ===== verification/Timer_Channel.thy ===== *)
theory Timer_Channel
  imports Timer_Spec
begin

text \<open>
  Package \<open>timer\<close>, the rest of \<open>timer.go\<close>, \<open>defaultTimer.go\<close> and \<open>ticker.go\<close>: timers that send the time on
  a channel or start a goroutine. A channel has room for one value and is an address; \<open>'g\<close> is the type
  of the functions that goroutines run. The goroutine of a tick runs before the next tick. The functions
  without a receiver work on the default wheel, which is then the wheel of the state.
\<close>

datatype 'g timer_fun = SendTime nat | GoFunc 'g | DummyFunc

record 'g timer_world =
  tw_wheel :: "'g timer_fun Wheel"
  tw_chans :: "int option list"
  tw_started :: "'g list"
  tw_quit :: bool

record timer_handle =
  th_C :: "nat option"
  th_r :: nat

definition defaultWheel :: "'g timer_world" where
  "defaultWheel = \<lparr>tw_wheel = NewWheel (200 * 1000000), tw_chans = [], tw_started = [], tw_quit = False\<rparr>"

section \<open>The functions of timers\<close>

text \<open>The \<open>select\<close> with a default: a full channel keeps what it has.\<close>

definition sendTime :: "int \<Rightarrow> nat \<Rightarrow> 'g timer_world \<Rightarrow> 'g timer_world" where
  "sendTime t c s =
     (case tw_chans s ! c of
        None \<Rightarrow> s\<lparr>tw_chans := (tw_chans s)[c := Some t]\<rparr>
      | Some _ \<Rightarrow> s)"

definition goFunc :: "int \<Rightarrow> 'g \<Rightarrow> 'g timer_world \<Rightarrow> 'g timer_world" where
  "goFunc t f s = s\<lparr>tw_started := tw_started s @ [f]\<rparr>"

definition dummyFunc :: "int \<Rightarrow> 'g timer_world \<Rightarrow> 'g timer_world" where
  "dummyFunc t s = s"

definition call_fun :: "int \<Rightarrow> 'g timer_fun \<Rightarrow> 'g timer_world \<Rightarrow> 'g timer_world" where
  "call_fun now f =
     (case f of SendTime c \<Rightarrow> sendTime now c | GoFunc g \<Rightarrow> goFunc now g | DummyFunc \<Rightarrow> dummyFunc now)"

definition upd_wheel :: "('g timer_fun Wheel \<Rightarrow> 'g timer_fun Wheel) \<Rightarrow> 'g timer_world \<Rightarrow> 'g timer_world" where
  "upd_wheel h s = s\<lparr>tw_wheel := h (tw_wheel s)\<rparr>"

text \<open>The goroutine of a tick, and the tick; the ticks end when the wheel is stopped.\<close>

definition run_vec :: "int \<Rightarrow> slot \<Rightarrow> 'g timer_world \<Rightarrow> 'g timer_world" where
  "run_vec now vec s =
     fold (\<lambda>x s. case x of
         None \<Rightarrow> s
       | Some t \<Rightarrow> upd_wheel (after_run t) (call_fun now (t_f (timer_at (tw_wheel s) t)) s)) vec s"

definition wheel_run_round :: "int \<Rightarrow> 'g timer_world \<Rightarrow> 'g timer_world option" where
  "wheel_run_round now s =
     (if tw_quit s then None
      else let (vec, w) = onTick (tw_wheel s) in Some (run_vec now vec (s\<lparr>tw_wheel := w\<rparr>)))"

definition Wheel_Stop_all :: "'g timer_world \<Rightarrow> 'g timer_world res" where
  "Wheel_Stop_all s = (if tw_quit s then Inl CloseOfClosed else Inr (s\<lparr>tw_quit := True\<rparr>))"

section \<open>Making timers\<close>

definition make_chan :: "'g timer_world \<Rightarrow> nat \<times> 'g timer_world" where
  "make_chan s = (length (tw_chans s), s\<lparr>tw_chans := tw_chans s @ [None]\<rparr>)"

definition enter_timer :: "int \<Rightarrow> int \<Rightarrow> 'g timer_fun \<Rightarrow> 'g timer_world \<Rightarrow> nat \<times> 'g timer_world" where
  "enter_timer d period f s =
     (let (t, w) = newTimer d period f (tw_wheel s) in (t, s\<lparr>tw_wheel := addTimer t w\<rparr>))"

definition Wheel_NewTimer :: "int \<Rightarrow> 'g timer_world \<Rightarrow> timer_handle \<times> 'g timer_world" where
  "Wheel_NewTimer d s =
     (let (c, s) = make_chan s; (t, s) = enter_timer d 0 (SendTime c) s in (\<lparr>th_C = Some c, th_r = t\<rparr>, s))"

definition Wheel_NewTicker :: "int \<Rightarrow> 'g timer_world \<Rightarrow> timer_handle \<times> 'g timer_world" where
  "Wheel_NewTicker d s =
     (let (c, s) = make_chan s; (t, s) = enter_timer d d (SendTime c) s in (\<lparr>th_C = Some c, th_r = t\<rparr>, s))"

definition Wheel_AfterFunc :: "int \<Rightarrow> 'g \<Rightarrow> 'g timer_world \<Rightarrow> timer_handle \<times> 'g timer_world" where
  "Wheel_AfterFunc d f s = (let (t, s) = enter_timer d 0 (GoFunc f) s in (\<lparr>th_C = None, th_r = t\<rparr>, s))"

definition Wheel_TickFunc_go :: "int \<Rightarrow> 'g \<Rightarrow> 'g timer_world \<Rightarrow> timer_handle \<times> 'g timer_world" where
  "Wheel_TickFunc_go d f s = (let (t, s) = enter_timer d d (GoFunc f) s in (\<lparr>th_C = None, th_r = t\<rparr>, s))"

definition Wheel_After :: "int \<Rightarrow> 'g timer_world \<Rightarrow> nat option \<times> 'g timer_world" where
  "Wheel_After d s = (let (h, s) = Wheel_NewTimer d s in (th_C h, s))"

definition Wheel_Tick :: "int \<Rightarrow> 'g timer_world \<Rightarrow> nat option \<times> 'g timer_world" where
  "Wheel_Tick d s = (let (h, s) = Wheel_NewTicker d s in (th_C h, s))"

text \<open>\<open>Sleep\<close> waits for the channel that it makes.\<close>

definition Wheel_Sleep :: "int \<Rightarrow> 'g timer_world \<Rightarrow> nat option \<times> 'g timer_world" where
  "Wheel_Sleep d s = (let (h, s) = Wheel_NewTimer d s in (th_C h, s))"

definition Ticker_Stop :: "timer_handle \<Rightarrow> 'g timer_world \<Rightarrow> 'g timer_world res" where
  "Ticker_Stop t s = bind_res (delTimer (th_r t) (tw_wheel s)) (\<lambda>(_, w). Inr (s\<lparr>tw_wheel := w\<rparr>))"

definition timer_After :: "int \<Rightarrow> 'g timer_world \<Rightarrow> nat option \<times> 'g timer_world" where "timer_After = Wheel_After"
definition timer_Sleep :: "int \<Rightarrow> 'g timer_world \<Rightarrow> nat option \<times> 'g timer_world" where "timer_Sleep = Wheel_Sleep"
definition timer_AfterFunc :: "int \<Rightarrow> 'g \<Rightarrow> 'g timer_world \<Rightarrow> timer_handle \<times> 'g timer_world" where "timer_AfterFunc = Wheel_AfterFunc"
definition timer_NewTimer :: "int \<Rightarrow> 'g timer_world \<Rightarrow> timer_handle \<times> 'g timer_world" where "timer_NewTimer = Wheel_NewTimer"
definition timer_NewTimerFunc :: "int \<Rightarrow> 'g timer_fun \<Rightarrow> 'g timer_world \<Rightarrow> timer_handle \<times> 'g timer_world" where
  "timer_NewTimerFunc d f s = (let (t, s) = enter_timer d 0 f s in (\<lparr>th_C = None, th_r = t\<rparr>, s))"
definition ticker_NewTicker :: "int \<Rightarrow> 'g timer_world \<Rightarrow> timer_handle \<times> 'g timer_world" where "ticker_NewTicker = Wheel_NewTicker"
definition ticker_TickFunc :: "int \<Rightarrow> 'g \<Rightarrow> 'g timer_world \<Rightarrow> timer_handle \<times> 'g timer_world" where "ticker_TickFunc = Wheel_TickFunc_go"
definition ticker_Tick :: "int \<Rightarrow> 'g timer_world \<Rightarrow> nat option \<times> 'g timer_world" where "ticker_Tick = Wheel_Tick"

section \<open>What the channel gets\<close>

definition receive :: "nat \<Rightarrow> 'g timer_world \<Rightarrow> (int \<times> 'g timer_world) option" where
  "receive c s = (case tw_chans s ! c of None \<Rightarrow> None | Some t \<Rightarrow> Some (t, s\<lparr>tw_chans := (tw_chans s)[c := None]\<rparr>))"

text \<open>A receiver that is slower than the ticks finds the first of them, and only that.\<close>

lemma slow_receiver:
  assumes "c < length (tw_chans s)" and "tw_chans s ! c = None" and "ts \<noteq> []"
  shows "\<exists>s'. receive c (fold (\<lambda>t. sendTime t c) ts s) = Some (hd ts, s') \<and> receive c s' = None \<and> tw_chans s' ! c = None"
proof -
  obtain t us where ts: "ts = t # us" using assms(3) by (cases ts) auto
  have "fold (\<lambda>t. sendTime t c) us v = v" if "tw_chans v ! c = Some t" for v :: "'a timer_world"
    using that by (induction us) (simp_all add: sendTime_def)
  then have "fold (\<lambda>t. sendTime t c) ts s = s\<lparr>tw_chans := (tw_chans s)[c := Some t]\<rparr>"
    using assms(1,2) by (simp add: ts sendTime_def)
  then show ?thesis using assms(1) by (simp add: ts receive_def)
qed

text \<open>
  A timer with a channel is entered for its tick: the channel is new and empty, the timer will be handed
  over in the tick after \<open>d\<close>, and what it will do is to send on that channel.
\<close>

theorem NewTimer_entered:
  assumes "winv {} {} (tw_wheel s)" and "good_time (w_tick (tw_wheel s)) d" and "ticks (tw_wheel s) < 2 ^ 63"
    and "Wheel_NewTimer d s = (h, s')"
  shows "winv {} {} (tw_wheel s') \<and> wheel_left (tw_wheel s') (th_r h) = Some (nat (d sdiv w_tick (tw_wheel s)))
    \<and> th_C h = Some (length (tw_chans s)) \<and> tw_chans s' = tw_chans s @ [None]
    \<and> t_f (timer_at (tw_wheel s') (th_r h)) = SendTime (length (tw_chans s)) \<and> t_period (timer_at (tw_wheel s') (th_r h)) = 0"
proof -
  obtain t w where w: "Wheel_NewTimerFunc d (SendTime (length (tw_chans s))) (tw_wheel s) = (t, w)" by fastforce
  note sp = NewTimerFunc_spec [OF assms(1,3,2) w]
  have l: "wheel_left w t = Some (nat (d sdiv w_tick (tw_wheel s)))"
    using sp by (simp add: wheel_left_def n_of_def)
  have h: "h = \<lparr>th_C = Some (length (tw_chans s)), th_r = t\<rparr>" "s' = s\<lparr>tw_chans := tw_chans s @ [None], tw_wheel := w\<rparr>"
    using assms(4) w by (auto simp: Wheel_NewTimer_def make_chan_def enter_timer_def Wheel_NewTimerFunc_def Let_def case_prod_beta)
  have "t_f (timer_at w t) = SendTime (length (tw_chans s)) \<and> t_period (timer_at w t) = 0"
    using w
    by (auto simp: Wheel_NewTimerFunc_def newTimer_def addTimer_def addTimerInternal_def Let_def upd_timer_def upd_slot_def timer_at_def
        signed_divide_int_def split: prod.splits)
  then show ?thesis using sp l h by simp
qed

end
