(* ===== verification/Nat_Fragment.thy ===== *)
theory Nat_Fragment
  imports Go_Prelude
begin

text \<open>
  Package \<open>nat\<close>, file \<open>fragment.go\<close>: the queue of the fragments of one datagram. The package
  \<open>ilist\<close>, an intrusive doubly linked list, is not in the repository: its operations are an argument
  of the model, and the locale states what its documentation promises. A \<open>*fragment\<close>, which embeds
  its list entry, is an address of the heap of fragments; a \<open>*packet.PktBuf\<close> is an address as well.
\<close>

section \<open>The list of another package\<close>

record 'l ilist_ops =
  il_zero :: 'l
  il_Reset :: "'l \<Rightarrow> 'l"
  il_Empty :: "'l \<Rightarrow> bool"
  il_Front :: "'l \<Rightarrow> nat option"
  il_Back :: "'l \<Rightarrow> nat option"
  il_Next :: "'l \<Rightarrow> nat \<Rightarrow> nat option"
  il_Prev :: "'l \<Rightarrow> nat \<Rightarrow> nat option"
  il_PushFront :: "nat \<Rightarrow> 'l \<Rightarrow> 'l"
  il_PushBack :: "nat \<Rightarrow> 'l \<Rightarrow> 'l"
  il_InsertAfter :: "nat \<Rightarrow> nat \<Rightarrow> 'l \<Rightarrow> 'l"

definition front_of :: "'a list \<Rightarrow> 'a option" where
  "front_of xs = (case xs of [] \<Rightarrow> None | x # _ \<Rightarrow> Some x)"

definition back_of :: "'a list \<Rightarrow> 'a option" where
  "back_of xs = front_of (rev xs)"

lemma front_back_simps [simp]:
  "front_of [] = None" "front_of (x # xs) = Some x" "back_of [] = None" "back_of (xs @ [x]) = Some x"
  by (simp_all add: front_of_def back_of_def)

locale ilist =
  fixes ops :: "'l ilist_ops"
    and view :: "'l \<Rightarrow> nat list"
  assumes Reset: "view (il_Reset ops l) = []"
    and Empty: "distinct (view l) \<Longrightarrow> il_Empty ops l \<longleftrightarrow> view l = []"
    and Front: "distinct (view l) \<Longrightarrow> il_Front ops l = front_of (view l)"
    and Back: "distinct (view l) \<Longrightarrow> il_Back ops l = back_of (view l)"
    and Next: "distinct (view l) \<Longrightarrow> view l = xs @ e # ys \<Longrightarrow> il_Next ops l e = front_of ys"
    and Prev: "distinct (view l) \<Longrightarrow> view l = xs @ e # ys \<Longrightarrow> il_Prev ops l e = back_of xs"
    and PushFront: "distinct (view l) \<Longrightarrow> e \<notin> set (view l) \<Longrightarrow> view (il_PushFront ops e l) = e # view l"
    and PushBack: "distinct (view l) \<Longrightarrow> e \<notin> set (view l) \<Longrightarrow> view (il_PushBack ops e l) = view l @ [e]"
    and InsertAfter: "distinct (view l) \<Longrightarrow> n \<notin> set (view l) \<Longrightarrow> view l = xs @ e # ys \<Longrightarrow>
      view (il_InsertAfter ops e n l) = xs @ e # n # ys"

section \<open>Fragments\<close>

definition FRAG_LAST_IN :: byte where "FRAG_LAST_IN = 1"
definition FRAG_COMPLETE :: byte where "FRAG_COMPLETE = 2"

record fragment =
  fr_offset :: u16
  fr_len :: u16
  fr_last :: u16
  fr_more :: bool
  fr_pkb :: nat

record 'l fragQueue =
  fq_list :: 'l
  fq_qLen :: u16
  fq_meat :: u16
  fq_flag :: byte
  fq_createTime :: int

definition newfragQueue :: "'l ilist_ops \<Rightarrow> int \<Rightarrow> 'l fragQueue" where
  "newfragQueue ops now =
     \<lparr>fq_list = il_Reset ops (il_zero ops), fq_qLen = 0, fq_meat = 0, fq_flag = 0, fq_createTime = now\<rparr>"

definition createFragment :: "u16 \<Rightarrow> u16 \<Rightarrow> bool \<Rightarrow> nat \<Rightarrow> fragment" where
  "createFragment offset len mor pkb =
     \<lparr>fr_offset = offset, fr_len = len, fr_last = offset + len, fr_more = mor, fr_pkb = pkb\<rparr>"

text \<open>The loop from the back of the list: the first fragment that ends before the offset.\<close>

partial_function (option) find_place ::
  "'l ilist_ops \<Rightarrow> fragment list \<Rightarrow> 'l \<Rightarrow> u16 \<Rightarrow> nat option \<Rightarrow> nat option option"
where
  "find_place ops frs l offset e =
     (case e of
        None \<Rightarrow> Some None
      | Some a \<Rightarrow>
          if offset \<ge> fr_last (frs ! a) then Some (Some a)
          else find_place ops frs l offset (il_Prev ops l a))"

definition ProcessFragment ::
  "'l ilist_ops \<Rightarrow> u16 \<Rightarrow> u16 \<Rightarrow> bool \<Rightarrow> nat \<Rightarrow> fragment list \<Rightarrow> 'l fragQueue \<Rightarrow>
   ((bool \<times> bool) \<times> fragment list \<times> 'l fragQueue) run"
where
  "ProcessFragment ops offset len mor pkb frs fq =
     (if fq_flag fq AND FRAG_COMPLETE \<noteq> 0 then Some (Inr ((False, False), frs, fq))
      else
        let n = length frs;
            nfrag = createFragment offset len mor pkb;
            frs = frs @ [nfrag];
            l = fq_list fq
        in if il_Empty ops l then
             Some (Inr ((True, False), frs, fq\<lparr>fq_list := il_PushFront ops n l,
               fq_meat := fq_meat fq + fr_len nfrag, fq_qLen := fr_last nfrag\<rparr>))
           else if \<not> mor then
             let fq = fq\<lparr>fq_flag := fq_flag fq OR FRAG_LAST_IN\<rparr> in
             if (case il_Back ops l of None \<Rightarrow> False | Some t \<Rightarrow> fr_last (frs ! t) > fr_offset nfrag)
             then Some (Inl (PanicMsg ''over overlapped''))
             else
               let fq = fq\<lparr>fq_list := il_PushBack ops n l, fq_meat := fq_meat fq + fr_len nfrag,
                     fq_qLen := fr_last nfrag\<rparr>
               in if fq_qLen fq = fq_meat fq
                  then Some (Inr ((True, True), frs, fq\<lparr>fq_flag := fq_flag fq OR FRAG_COMPLETE\<rparr>))
                  else Some (Inr ((True, False), frs, fq))
           else
             (case find_place ops frs l offset (il_Back ops l) of
                None \<Rightarrow> None
              | Some None \<Rightarrow> Some (Inr ((False, False), frs, fq))
              | Some (Some e) \<Rightarrow>
                  if (case il_Next ops l e of None \<Rightarrow> False | Some nx \<Rightarrow> fr_last nfrag > fr_offset (frs ! nx))
                  then Some (Inl (PanicMsg ''over overlapped''))
                  else
                    let fq = fq\<lparr>fq_list := il_InsertAfter ops e n l\<rparr>;
                        fq = (if fq_qLen fq < fr_last nfrag then fq\<lparr>fq_qLen := fr_last nfrag\<rparr> else fq);
                        fq = fq\<lparr>fq_meat := fq_meat fq + len\<rparr>
                    in if fq_flag fq AND FRAG_LAST_IN \<noteq> 0 \<and> fq_qLen fq = fq_meat fq
                       then Some (Inr ((True, True), frs, fq\<lparr>fq_flag := fq_flag fq OR FRAG_COMPLETE\<rparr>))
                       else Some (Inr ((True, False), frs, fq))))"

text \<open>
  \<open>completed\<close>: the buffers of the list are chained. \<open>SetNext\<close> is a method of the packet buffer that
  the repository does not have, so it is an argument too; the loop carries \<open>prev\<close> and \<open>first_pkb\<close>.
\<close>

partial_function (option) chain_pkbs ::
  "'l ilist_ops \<Rightarrow> (nat \<Rightarrow> nat \<Rightarrow> 'x \<Rightarrow> 'x) \<Rightarrow> fragment list \<Rightarrow> 'l \<Rightarrow> nat option \<Rightarrow>
   nat option \<Rightarrow> nat option \<Rightarrow> 'x \<Rightarrow> (nat option \<times> 'x) option"
where
  "chain_pkbs ops SetNext frs l e first_pkb prev x =
     (case e of
        None \<Rightarrow> Some (first_pkb, x)
      | Some a \<Rightarrow>
          let npkb = fr_pkb (frs ! a) in
          case prev of
            None \<Rightarrow> chain_pkbs ops SetNext frs l (il_Next ops l a) (Some npkb) (Some npkb) x
          | Some p \<Rightarrow> chain_pkbs ops SetNext frs l (il_Next ops l a) first_pkb (Some npkb) (SetNext p npkb x))"

definition completed ::
  "'l ilist_ops \<Rightarrow> (nat \<Rightarrow> nat \<Rightarrow> 'x \<Rightarrow> 'x) \<Rightarrow> fragment list \<Rightarrow> 'l fragQueue \<Rightarrow> 'x \<Rightarrow> (nat option \<times> 'x) run"
where
  "completed ops SetNext frs fq x =
     (if fq_flag fq AND FRAG_COMPLETE = 0 then Some (Inl (PanicMsg ''frag uncompleted''))
      else map_option Inr
        (chain_pkbs ops SetNext frs (fq_list fq) (il_Front ops (fq_list fq)) None None x))"

section \<open>Fragments in a row\<close>

definition fr_wf :: "fragment \<Rightarrow> bool" where
  "fr_wf f \<longleftrightarrow> unat (fr_last f) = unat (fr_offset f) + unat (fr_len f)"

text \<open>From \<open>a\<close> to \<open>b\<close>, in ascending order, without overlap, with or without gaps.\<close>

fun row :: "nat \<Rightarrow> fragment list \<Rightarrow> nat \<Rightarrow> bool" where
  "row a [] b \<longleftrightarrow> a = b"
| "row a (f # fs) b \<longleftrightarrow> a \<le> unat (fr_offset f) \<and> fr_wf f \<and> row (unat (fr_last f)) fs b"

fun tiles :: "nat \<Rightarrow> fragment list \<Rightarrow> nat \<Rightarrow> bool" where
  "tiles a [] b \<longleftrightarrow> a = b"
| "tiles a (f # fs) b \<longleftrightarrow> unat (fr_offset f) = a \<and> fr_wf f \<and> tiles (unat (fr_last f)) fs b"

definition meat_of :: "fragment list \<Rightarrow> nat" where
  "meat_of fs = sum_list (map (\<lambda>f. unat (fr_len f)) fs)"

lemma meat_of_simps [simp]:
  "meat_of [] = 0" "meat_of (f # fs) = unat (fr_len f) + meat_of fs" "meat_of (fs @ gs) = meat_of fs + meat_of gs"
  by (simp_all add: meat_of_def)

lemma row_le: "row a fs b \<Longrightarrow> a + meat_of fs \<le> b"
  by (induction fs arbitrary: a) (fastforce simp: fr_wf_def)+

lemma row_full: "row a fs b \<Longrightarrow> a + meat_of fs = b \<Longrightarrow> tiles a fs b"
proof (induction fs arbitrary: a)
  case (Cons f fs)
  have r: "a \<le> unat (fr_offset f)" "fr_wf f" "row (unat (fr_last f)) fs b" using Cons.prems(1) by simp_all
  then have "unat (fr_last f) + meat_of fs \<le> b" by (intro row_le)
  then have "unat (fr_offset f) = a" "unat (fr_last f) + meat_of fs = b"
    using r Cons.prems(2) by (auto simp: fr_wf_def)
  then show ?case using Cons.IH r by simp
qed simp

lemma row_append: "row a (xs @ ys) b \<longleftrightarrow> (\<exists>m. row a xs m \<and> row m ys b)"
  by (induction xs arbitrary: a) auto

lemma tiles_row: "tiles a fs b \<Longrightarrow> row a fs b \<and> a + meat_of fs = b"
  by (induction fs arbitrary: a) (auto simp: fr_wf_def simp flip: add.assoc)

end
