(* ===== verification/Nat_Reassembly.thy ===== *)
theory Nat_Reassembly
  imports Nat_Fragment "HOL-Library.Multiset"
begin

text \<open>
  The queue of fragments, over any list with the documented behaviour of \<open>ilist\<close>: it stays sorted
  and free of overlap, a datagram that is reported complete has no gap, and which orders of arrival
  complete.
\<close>

section \<open>Flags\<close>

lemma flag_bits:
  "f AND FRAG_LAST_IN = 0 \<longleftrightarrow> \<not> bit f 0" "f AND FRAG_COMPLETE = 0 \<longleftrightarrow> \<not> bit f 1"
  "bit (f OR FRAG_LAST_IN) n \<longleftrightarrow> n = 0 \<or> bit f n" "bit (f OR FRAG_COMPLETE) n \<longleftrightarrow> n = 1 \<or> bit f n"
proof -
  have c: "FRAG_LAST_IN = push_bit 0 1" "FRAG_COMPLETE = push_bit 1 1"
    by (simp_all add: FRAG_LAST_IN_def FRAG_COMPLETE_def)
  show "f AND FRAG_LAST_IN = 0 \<longleftrightarrow> \<not> bit f 0" "f AND FRAG_COMPLETE = 0 \<longleftrightarrow> \<not> bit f 1"
    unfolding c bit_iff_and_push_bit_not_eq_0 by simp_all
  show "bit (f OR FRAG_LAST_IN) n \<longleftrightarrow> n = 0 \<or> bit f n" "bit (f OR FRAG_COMPLETE) n \<longleftrightarrow> n = 1 \<or> bit f n"
    unfolding c by (auto simp: bit_simps)
qed

section \<open>The invariant\<close>

abbreviation frs_of :: "('l \<Rightarrow> nat list) \<Rightarrow> fragment list \<Rightarrow> 'l fragQueue \<Rightarrow> fragment list" where
  "frs_of view frs fq \<equiv> map ((!) frs) (view (fq_list fq))"

definition fq_ok :: "('l \<Rightarrow> nat list) \<Rightarrow> fragment list \<Rightarrow> 'l fragQueue \<Rightarrow> bool" where
  "fq_ok view frs fq \<longleftrightarrow> distinct (view (fq_list fq)) \<and> (\<forall>a \<in> set (view (fq_list fq)). a < length frs)
     \<and> row 0 (frs_of view frs fq) (unat (fq_qLen fq))
     \<and> unat (fq_meat fq) = meat_of (frs_of view frs fq)
     \<and> (bit (fq_flag fq) 0 \<longrightarrow> (\<exists>f \<in> set (frs_of view frs fq). \<not> fr_more f))
     \<and> (bit (fq_flag fq) 1 \<longrightarrow> bit (fq_flag fq) 0 \<and> tiles 0 (frs_of view frs fq) (unat (fq_qLen fq)))"

lemma fq_okD:
  assumes "fq_ok view frs fq"
  shows "distinct (view (fq_list fq))" "a \<in> set (view (fq_list fq)) \<Longrightarrow> a < length frs"
    "row 0 (frs_of view frs fq) (unat (fq_qLen fq))" "unat (fq_meat fq) = meat_of (frs_of view frs fq)"
    "bit (fq_flag fq) 0 \<Longrightarrow> \<exists>f \<in> set (frs_of view frs fq). \<not> fr_more f"
    "bit (fq_flag fq) 1 \<Longrightarrow> bit (fq_flag fq) 0" "bit (fq_flag fq) 1 \<Longrightarrow> tiles 0 (frs_of view frs fq) (unat (fq_qLen fq))"
  using assms by (simp_all add: fq_ok_def)

lemma fq_okI:
  assumes "frs_of view frs fq = F" and "distinct (view (fq_list fq))" and "\<forall>a \<in> set (view (fq_list fq)). a < length frs"
    and "row 0 F (unat (fq_qLen fq))" and "unat (fq_meat fq) = meat_of F"
    and "bit (fq_flag fq) 0 \<Longrightarrow> \<exists>f \<in> set F. \<not> fr_more f"
    and "bit (fq_flag fq) 1 \<Longrightarrow> bit (fq_flag fq) 0 \<and> tiles 0 F (unat (fq_qLen fq))"
  shows "fq_ok view frs fq"
  unfolding fq_ok_def assms(1) using assms(2-) by blast

lemma row_snoc: "row a xs m \<Longrightarrow> m \<le> unat (fr_offset g) \<Longrightarrow> fr_wf g \<Longrightarrow> row a (xs @ [g]) (unat (fr_last g))"
  by (induction xs arbitrary: a) auto

lemma row_insert:
  assumes "row a (xs @ f # ys) b" and "fr_last f \<le> fr_offset g" and "fr_wf g"
    and "ys \<noteq> [] \<Longrightarrow> fr_last g \<le> fr_offset (hd ys)"
  shows "row a (xs @ f # g # ys) (if ys = [] then unat (fr_last g) else b)"
  using assms
proof (induction xs arbitrary: a)
  case Nil
  then show ?case by (cases ys) (auto simp: word_le_nat_alt)
qed auto

lemma row_last: "row a (xs @ [f]) b \<Longrightarrow> b = unat (fr_last f)"
  by (induction xs arbitrary: a) auto

text \<open>The first element from the back that satisfies a condition.\<close>

lemma find_rev_Some:
  assumes "List.find P (rev xs) = Some e"
  obtains us vs where "xs = us @ e # vs" and "P e" and "\<forall>v \<in> set vs. \<not> P v"
  using assms
proof (induction xs arbitrary: thesis rule: rev_induct)
  case (snoc x xs)
  show ?case
  proof (cases "P x")
    case True
    then show ?thesis using snoc.prems(2) by (intro snoc.prems(1) [of xs "[]"]) simp_all
  next
    case False
    then have "List.find P (rev xs) = Some e" using snoc.prems(2) by simp
    then obtain us vs where "xs = us @ e # vs" "P e" "\<forall>v \<in> set vs. \<not> P v" by (rule snoc.IH [rotated])
    then show ?thesis using False by (intro snoc.prems(1) [of us "vs @ [x]"]) auto
  qed
qed simp

context ilist begin

lemma find_place_view:
  assumes "distinct (view l)" and "view l = xs @ ys"
  shows "find_place ops frs l offset (back_of xs) = Some (List.find (\<lambda>a. fr_last (frs ! a) \<le> offset) (rev xs))"
  using assms(2)
proof (induction xs arbitrary: ys rule: rev_induct)
  case Nil
  then show ?case by (simp add: find_place.simps)
next
  case (snoc x xs)
  have "il_Prev ops l x = back_of xs" using Prev [OF assms(1), of xs x ys] snoc.prems by simp
  then show ?case using snoc.IH [of "x # ys"] snoc.prems by (simp add: find_place.simps)
qed

lemma find_place_back:
  assumes "distinct (view l)"
  shows "find_place ops frs l offset (il_Back ops l) = Some (List.find (\<lambda>a. fr_last (frs ! a) \<le> offset) (rev (view l)))"
  using find_place_view [OF assms, of "view l" "[]"] by (simp add: Back [OF assms])

text \<open>One fragment: it is refused, it panics, or it enters its place.\<close>

definition pf_ok where
  "pf_ok frs fq g r \<longleftrightarrow>
     (\<exists>frs'. r = Some (Inr ((False, False), frs', fq)) \<and> frs' \<in> {frs, frs @ [g]}
        \<and> (bit (fq_flag fq) 1 \<or>
           fr_more g \<and> view (fq_list fq) \<noteq> [] \<and> (\<forall>f \<in> set (frs_of view frs fq). fr_offset g < fr_last f)))
     \<or> (\<exists>e. r = Some (Inl e) \<and> (\<exists>f \<in> set (frs_of view frs fq).
          fr_offset g < fr_last f \<and> (\<not> fr_more g \<or> fr_offset f < fr_last g)))
     \<or> (\<exists>fq' d. r = Some (Inr ((True, d), frs @ [g], fq')) \<and> fq_ok view (frs @ [g]) fq'
          \<and> mset (frs_of view (frs @ [g]) fq') = add_mset g (mset (frs_of view frs fq))
          \<and> d = bit (fq_flag fq') 1
          \<and> bit (fq_flag fq') 0 = (bit (fq_flag fq) 0 \<or> \<not> fr_more g \<and> view (fq_list fq) \<noteq> [])
          \<and> bit (fq_flag fq') 1 = (bit (fq_flag fq') 0 \<and> fq_qLen fq' = fq_meat fq'))"

lemma pf_okI:
  "r = Some (Inr ((False, False), frs @ [g], fq)) \<Longrightarrow> fr_more g \<Longrightarrow> view (fq_list fq) \<noteq> [] \<Longrightarrow>
     \<forall>f \<in> set (frs_of view frs fq). fr_offset g < fr_last f \<Longrightarrow> pf_ok frs fq g r"
  "r = Some (Inl e) \<Longrightarrow> a \<in> set (view (fq_list fq)) \<Longrightarrow> fr_offset g < fr_last (frs ! a) \<Longrightarrow>
     \<not> fr_more g \<or> fr_offset (frs ! a) < fr_last g \<Longrightarrow> pf_ok frs fq g r"
  "r = Some (Inr ((True, d), frs @ [g], fq')) \<Longrightarrow> fq_ok view (frs @ [g]) fq' \<Longrightarrow>
     mset (frs_of view (frs @ [g]) fq') = add_mset g (mset (frs_of view frs fq)) \<Longrightarrow>
     d = bit (fq_flag fq') 1 \<Longrightarrow>
     bit (fq_flag fq') 0 = (bit (fq_flag fq) 0 \<or> \<not> fr_more g \<and> view (fq_list fq) \<noteq> []) \<Longrightarrow>
     bit (fq_flag fq') 1 = (bit (fq_flag fq') 0 \<and> fq_qLen fq' = fq_meat fq') \<Longrightarrow> pf_ok frs fq g r"
  unfolding pf_ok_def by (blast, force, blast)

lemma entering:
  assumes ok: "fq_ok view frs fq" and nw: "unat offset + unat len < 65536"
    and g: "g = createFragment offset len mor pkb"
  shows "fr_wf g" and "fr_offset g = offset" and "fr_len g = len" and "fr_more g = mor"
    and "length frs \<notin> set (view (fq_list fq))"
    and "set xs \<subseteq> set (view (fq_list fq)) \<Longrightarrow> map ((!) (frs @ [g])) xs = map ((!) frs) xs"
    and "a \<in> set (view (fq_list fq)) \<Longrightarrow> (frs @ [g]) ! a = frs ! a"
proof -
  show gs: "fr_offset g = offset" "fr_len g = len" "fr_more g = mor"
    by (simp_all add: g createFragment_def)
  have "unat (offset + len) = unat offset + unat len" using nw by (subst unat_word_ariths) simp
  then show "fr_wf g" by (simp add: g createFragment_def fr_wf_def)
  note lt = fq_okD(2) [OF ok]
  show "length frs \<notin> set (view (fq_list fq))" using lt by blast
  show "set xs \<subseteq> set (view (fq_list fq)) \<Longrightarrow> map ((!) (frs @ [g])) xs = map ((!) frs) xs"
    using lt by (auto simp: nth_append)
  show "a \<in> set (view (fq_list fq)) \<Longrightarrow> (frs @ [g]) ! a = frs ! a" using lt by (simp add: nth_append)
qed

lemma enter_first:
  assumes ok: "fq_ok view frs fq" and nw: "unat offset + unat len < 65536"
    and g: "g = createFragment offset len mor pkb"
    and nc: "\<not> bit (fq_flag fq) 1" and v: "view (fq_list fq) = []"
  shows "pf_ok frs fq g (ProcessFragment ops offset len mor pkb frs fq)"
proof -
  note okD = fq_okD [OF ok] and en = entering [OF ok nw g]
  let ?fq = "fq\<lparr>fq_list := il_PushFront ops (length frs) (fq_list fq), fq_meat := fq_meat fq + fr_len g,
    fq_qLen := fr_last g\<rparr>"
  have w: "view (il_PushFront ops (length frs) (fq_list fq)) = [length frs]"
    using PushFront [OF okD(1) en(5)] v by simp
  have "unat (fq_meat fq) = 0" "\<not> bit (fq_flag fq) 0" using okD(4,5) v by auto
  then have "fq_ok view (frs @ [g]) ?fq"
    using en(1,2) nc w by (intro fq_okI [of _ _ _ "[g]"]) (auto simp: unat_eq_0)
  moreover have p: "ProcessFragment ops offset len mor pkb frs fq = Some (Inr ((True, False), frs @ [g], ?fq))"
    using nc Empty [OF okD(1)] v by (simp add: ProcessFragment_def flag_bits g Let_def)
  moreover have "frs_of view (frs @ [g]) ?fq = [g]" using w by simp
  ultimately show ?thesis by (intro pf_okI(3) [OF p]) (use v nc \<open>\<not> bit (fq_flag fq) 0\<close> in \<open>simp_all del: mset_map\<close>)
qed

text \<open>The end of the last fragment of the queue.\<close>

lemma qLen_back: "fq_ok view frs fq \<Longrightarrow> view (fq_list fq) = xs @ [t] \<Longrightarrow> unat (fq_qLen fq) = unat (fr_last (frs ! t))"
  using fq_okD(3) by (intro row_last [of 0 "map ((!) frs) xs"]) fastforce

lemma meat_grows:
  fixes q m :: u16
  assumes "row 0 fs (unat q)" and "meat_of fs = unat m + unat len"
  shows "unat (m + len) = meat_of fs"
proof -
  have "meat_of fs < 65536" using row_le [OF assms(1)] unsigned_less [of q, where ?'a = nat] by simp
  then show ?thesis using assms(2) by (subst unat_word_ariths) simp
qed

lemma enter_last:
  assumes ok: "fq_ok view frs fq" and nw: "unat offset + unat len < 65536"
    and g: "g = createFragment offset len False pkb"
    and nc: "\<not> bit (fq_flag fq) 1" and v: "view (fq_list fq) = xs @ [t]"
  shows "pf_ok frs fq g (ProcessFragment ops offset len False pkb frs fq)"
proof -
  note okD = fq_okD [OF ok] and en = entering [OF ok nw g]
  let ?F = "frs_of view frs fq @ [g]"
  have bk: "il_Back ops (fq_list fq) = Some t" "\<not> il_Empty ops (fq_list fq)" "(frs @ [g]) ! t = frs ! t"
    using Back [OF okD(1)] Empty [OF okD(1)] en(7) v by simp_all
  show ?thesis
  proof (cases "fr_last (frs ! t) > fr_offset g")
    case True
    then show ?thesis
      using nc bk en(4) v by (intro pf_okI(2) [where a = t]) (simp_all add: ProcessFragment_def flag_bits g Let_def)
  next
    case le: False
    let ?fq = "fq\<lparr>fq_flag := fq_flag fq OR FRAG_LAST_IN, fq_list := il_PushBack ops (length frs) (fq_list fq),
      fq_meat := fq_meat fq + fr_len g, fq_qLen := fr_last g\<rparr>"
    let ?fq' = "if fq_qLen ?fq = fq_meat ?fq then ?fq\<lparr>fq_flag := fq_flag ?fq OR FRAG_COMPLETE\<rparr> else ?fq"
    have w: "view (fq_list ?fq') = view (fq_list fq) @ [length frs]" using PushBack [OF okD(1) en(5)] by simp
    have f: "frs_of view (frs @ [g]) ?fq' = ?F" unfolding w using en(6) [OF order_refl] by (simp del: map_eq_conv)
    have r: "row 0 ?F (unat (fr_last g))"
      using okD(3) qLen_back [OF ok v] le en(1) by (intro row_snoc) (simp_all add: not_less word_le_nat_alt)
    have mt: "unat (fq_meat fq + fr_len g) = meat_of ?F" by (rule meat_grows [OF r]) (simp add: okD(4))
    have p: "ProcessFragment ops offset len False pkb frs fq
        = Some (Inr ((True, fq_qLen ?fq = fq_meat ?fq), frs @ [g], ?fq'))"
      using nc bk le by (simp add: ProcessFragment_def flag_bits g Let_def)
    have "fq_ok view (frs @ [g]) ?fq'"
      using okD(1,2) en(4,5) w r mt row_full [OF r] nc
      by (intro fq_okI [where view = view and fq = ?fq' and F = ?F, OF f]) (auto simp: flag_bits less_Suc_eq simp del: meat_of_simps split: if_splits)
    then show ?thesis by (rule pf_okI(3) [OF p]) (use f nc en(4) v in \<open>simp_all add: flag_bits del: mset_map\<close>)
  qed
qed

text \<open>A fragment between two others, or behind the last one.\<close>

lemma middle_row:
  assumes ok: "fq_ok view frs fq" and v: "view (fq_list fq) = us @ e # vs" and gw: "fr_wf g"
    and e: "fr_last (frs ! e) \<le> fr_offset g"
    and n: "\<And>w ws. vs = w # ws \<Longrightarrow> fr_last g \<le> fr_offset (frs ! w)"
  shows "row 0 (map ((!) frs) us @ frs ! e # g # map ((!) frs) vs)
    (unat (if fq_qLen fq < fr_last g then fr_last g else fq_qLen fq))"
proof -
  let ?us = "map ((!) frs) us" and ?vs = "map ((!) frs) vs" and ?q = "fq_qLen fq"
  have r0: "row 0 (?us @ frs ! e # ?vs) (unat ?q)" using fq_okD(3) [OF ok] v by simp
  show ?thesis
  proof (cases vs)
    case Nil
    have "unat ?q \<le> unat (fr_offset g)" using qLen_back [OF ok, of us e] v e Nil by (simp add: word_le_nat_alt)
    then have "?q \<le> fr_last g" using gw by (simp add: word_le_nat_alt fr_wf_def)
    then have "(if ?q < fr_last g then fr_last g else ?q) = fr_last g" by auto
    then show ?thesis using row_insert [OF r0 e gw] Nil by simp
  next
    case (Cons w ws)
    have g: "fr_last g \<le> fr_offset (frs ! w)" by (rule n [OF Cons])
    then have r1: "row 0 (?us @ frs ! e # g # ?vs) (unat ?q)" using row_insert [OF r0 e gw] Cons by simp
    obtain m where "row m (map ((!) frs) (w # ws)) (unat ?q)"
      using r0 row_append [of 0 "?us @ [frs ! e]" ?vs] Cons by auto
    then have "row (unat (fr_last (frs ! w))) (map ((!) frs) ws) (unat ?q)" "fr_wf (frs ! w)" by simp_all
    then have "unat (fr_offset (frs ! w)) \<le> unat ?q" using row_le by (fastforce simp: fr_wf_def)
    then have "\<not> ?q < fr_last g" using g by (simp add: word_less_nat_alt word_le_nat_alt)
    then show ?thesis using r1 by simp
  qed
qed

lemma enter_middle:
  assumes ok: "fq_ok view frs fq" and nw: "unat offset + unat len < 65536"
    and g: "g = createFragment offset len True pkb"
    and nc: "\<not> bit (fq_flag fq) 1" and ne: "view (fq_list fq) \<noteq> []"
  shows "pf_ok frs fq g (ProcessFragment ops offset len True pkb frs fq)"
proof -
  note okD = fq_okD [OF ok] and en = entering [OF ok nw g]
  let ?l = "fq_list fq" and ?frs = "frs @ [g]"
  have emp: "\<not> il_Empty ops ?l" using Empty [OF okD(1)] ne by simp
  note fp = find_place_back [OF okD(1), of ?frs offset]
  show ?thesis
  proof (cases "List.find (\<lambda>a. fr_last (?frs ! a) \<le> offset) (rev (view ?l))")
    case None
    show ?thesis
    proof (intro pf_okI(1))
      show "ProcessFragment ops offset len True pkb frs fq = Some (Inr ((False, False), frs @ [g], fq))"
        using nc emp fp None by (simp add: ProcessFragment_def flag_bits Let_def g)
      show "\<forall>f \<in> set (frs_of view frs fq). fr_offset g < fr_last f"
        using None en(2,7) by (auto simp: find_None_iff not_le)
    qed (use ne en(4) in simp_all)
  next
    case (Some e)
    obtain us vs where e: "view ?l = us @ e # vs" "fr_last (?frs ! e) \<le> offset"
      "\<forall>v \<in> set vs. \<not> fr_last (?frs ! v) \<le> offset" by (rule find_rev_Some [OF Some])
    have nx: "il_Next ops ?l e = front_of vs" by (rule Next [OF okD(1) e(1)])
    show ?thesis
    proof (cases "\<exists>v vs'. vs = v # vs' \<and> fr_last g > fr_offset (?frs ! v)")
      case ov: True
      then obtain v vs' where v: "vs = v # vs'" "fr_last g > fr_offset (frs ! v)" "fr_last (frs ! v) > offset"
        using en(7) e(1,3) by (auto simp: not_le)
      then show ?thesis
        using nc emp fp Some nx ov e(1) en(2)
        by (intro pf_okI(2) [where a = v]) (auto simp: ProcessFragment_def flag_bits Let_def g [symmetric])
    next
      case no: False
      let ?q = "if fq_qLen fq < fr_last g then fr_last g else fq_qLen fq"
      let ?fq = "fq\<lparr>fq_list := il_InsertAfter ops e (length frs) ?l, fq_qLen := ?q, fq_meat := fq_meat fq + len\<rparr>"
      let ?d = "bit (fq_flag fq) 0 \<and> fq_qLen ?fq = fq_meat ?fq"
      let ?fq' = "if ?d then ?fq\<lparr>fq_flag := fq_flag ?fq OR FRAG_COMPLETE\<rparr> else ?fq"
      let ?F = "map ((!) frs) us @ frs ! e # g # map ((!) frs) vs"
      have w: "view (fq_list ?fq') = us @ e # length frs # vs" using InsertAfter [OF okD(1) en(5) e(1)] by simp
      have ee: "?frs ! e = frs ! e" using en(7) [of e] e(1) by simp
      have f: "frs_of view ?frs ?fq' = ?F"
        unfolding w using en(6) [of us] en(6) [of vs] ee e(1) by (simp del: map_eq_conv add: subset_insertI2)
      have n: "fr_last g \<le> fr_offset (frs ! x)" if "vs = x # xs" for x xs
        using no en(7) [of x] e(1) that by (auto simp: not_less)
      have r: "row 0 ?F (unat ?q)" by (rule middle_row [OF ok e(1) en(1) _ n]) (use e(2) ee en(2) in simp)
      have "meat_of (frs_of view frs fq) = meat_of (map ((!) frs) (us @ e # vs))" unfolding e(1) ..
      then have mo: "meat_of ?F = unat (fq_meat fq) + unat len" using okD(4) en(3) by simp
      have mt: "unat (fq_meat fq + len) = meat_of ?F" by (rule meat_grows [OF r mo])
      have p: "ProcessFragment ops offset len True pkb frs fq = Some (Inr ((True, ?d), ?frs, ?fq'))"
        using nc emp fp Some nx no
        by (cases vs; cases "fq_qLen fq < fr_last g"; cases "bit (fq_flag fq) 0")
          (simp_all add: ProcessFragment_def flag_bits Let_def g)
      have fs: "mset ?F = add_mset g (mset (frs_of view frs fq))" unfolding e(1) by simp
      then have l0: "bit (fq_flag fq) 0 \<Longrightarrow> \<exists>f \<in> set ?F. \<not> fr_more f"
        using okD(5) by (metis insertCI set_mset_add_mset_insert set_mset_mset)
      have di: "distinct (view (fq_list ?fq'))" "\<forall>a \<in> set (view (fq_list ?fq')). a < length ?frs"
        unfolding w using okD(1,2) en(5) e(1) by (auto simp: less_Suc_eq)
      have q: "fq_qLen ?fq' = ?q" "fq_meat ?fq' = fq_meat fq + len" "bit (fq_flag ?fq') 0 = bit (fq_flag fq) 0"
        and c: "bit (fq_flag ?fq') 1 = ?d" using nc by (simp_all add: flag_bits)
      have "?q = fq_meat fq + len \<Longrightarrow> tiles 0 ?F (unat ?q)" using row_full [OF r] mt by simp
      then have "fq_ok view ?frs ?fq'"
        by (intro fq_okI [where view = view and fq = ?fq' and F = ?F, OF f di, unfolded q c]) (use r mt l0 in simp_all)
      then show ?thesis
        by (rule pf_okI(3) [OF p]) (use f fs nc q c en(4) in \<open>simp_all add: flag_bits del: mset_map\<close>)
    qed
  qed
qed

lemma ProcessFragment_spec:
  assumes ok: "fq_ok view frs fq" and nw: "unat offset + unat len < 65536"
  shows "pf_ok frs fq (createFragment offset len mor pkb) (ProcessFragment ops offset len mor pkb frs fq)"
proof (cases "bit (fq_flag fq) 1")
  case True
  then show ?thesis by (simp add: ProcessFragment_def flag_bits pf_ok_def)
next
  case nc: False
  show ?thesis
  proof (cases "view (fq_list fq)" rule: rev_cases)
    case Nil
    then show ?thesis using enter_first [OF ok nw refl nc] by simp
  next
    case (snoc xs t)
    then show ?thesis
      using enter_last [OF ok _ _ nc snoc] enter_middle [OF ok _ _ nc] nw by (cases mor) simp_all
  qed
qed

end

end
