(* ===== verification/Nat_Defrag.thy ===== *)
theory Nat_Defrag
  imports Nat_Reassembly
begin

text \<open>
  The fragments of a datagram one after the other: what is reported complete is complete, and a
  datagram whose first fragment comes first is reported complete with its last missing fragment,
  whatever the order of the others. A datagram whose first fragment does not come first is lost.
\<close>

type_synonym frag_pkt = "u16 \<times> u16 \<times> bool \<times> nat"

definition mk :: "frag_pkt \<Rightarrow> fragment" where
  "mk p = (case p of (offset, len, mor, pkb) \<Rightarrow> createFragment offset len mor pkb)"

definition no_wrap :: "frag_pkt \<Rightarrow> bool" where
  "no_wrap p = (case p of (offset, len, mor, pkb) \<Rightarrow> unat offset + unat len < 65536)"

fun process_all :: "'l ilist_ops \<Rightarrow> frag_pkt list \<Rightarrow> fragment list \<Rightarrow> 'l fragQueue \<Rightarrow>
  ((bool \<times> bool) list \<times> fragment list \<times> 'l fragQueue) run"
where
  "process_all ops [] frs fq = Some (Inr ([], frs, fq))"
| "process_all ops ((offset, len, mor, pkb) # ps) frs fq =
     bind_run (ProcessFragment ops offset len mor pkb frs fq) (\<lambda>(r, frs, fq).
     bind_run (process_all ops ps frs fq) (\<lambda>(rs, frs, fq). Some (Inr (r # rs, frs, fq))))"

lemma mk_simps [simp]:
  "fr_offset (mk (offset, len, mor, pkb)) = offset" "fr_len (mk (offset, len, mor, pkb)) = len"
  "fr_last (mk (offset, len, mor, pkb)) = offset + len" "fr_more (mk (offset, len, mor, pkb)) = mor"
  "fr_pkb (mk (offset, len, mor, pkb)) = pkb"
  by (simp_all add: mk_def createFragment_def)

lemma no_wrap_wf: "no_wrap p \<Longrightarrow> fr_wf (mk p)"
  by (cases p) (simp add: no_wrap_def fr_wf_def unat_word_ariths)

lemma fq_ok_more_heap: "fq_ok view frs fq \<Longrightarrow> fq_ok view (frs @ gs) fq \<and> frs_of view (frs @ gs) fq = frs_of view frs fq"
proof -
  assume ok: "fq_ok view frs fq"
  have F: "frs_of view (frs @ gs) fq = frs_of view frs fq" using fq_okD(2) [OF ok] by (simp add: nth_append)
  show ?thesis using ok F unfolding fq_ok_def F by auto
qed

context ilist begin

lemma fresh_ok: "fq_ok view frs (newfragQueue ops now)"
  by (simp add: fq_ok_def newfragQueue_def Reset)

lemma step_ok:
  assumes ok: "fq_ok view frs fq" and nw: "no_wrap (offset, len, mor, pkb)"
    and p: "ProcessFragment ops offset len mor pkb frs fq = Some (Inr (r, frs', fq'))"
  shows "fq_ok view frs' fq' \<and> (snd r \<longrightarrow> bit (fq_flag fq') 1) \<and> (bit (fq_flag fq) 1 \<longrightarrow> bit (fq_flag fq') 1)
    \<and> mset (frs_of view frs fq) \<subseteq># mset (frs_of view frs' fq')
    \<and> mset (frs_of view frs' fq') - mset (frs_of view frs fq) \<subseteq># {#mk (offset, len, mor, pkb)#}"
proof -
  have nw: "unat offset + unat len < 65536" using nw by (simp add: no_wrap_def)
  have m: "createFragment offset len mor pkb = mk (offset, len, mor, pkb)" by (simp add: mk_def)
  let ?g = "mk (offset, len, mor, pkb)"
  consider (kept) "fq' = fq" "\<not> snd r" "frs' \<in> {frs, frs @ [?g]}"
    | (entered) d where "r = (True, d)" "frs' = frs @ [?g]" "fq_ok view frs' fq'"
      "mset (frs_of view frs' fq') = add_mset ?g (mset (frs_of view frs fq))" "d = bit (fq_flag fq') 1"
    using ProcessFragment_spec [OF ok nw, of mor pkb] p unfolding pf_ok_def m by auto
  then show ?thesis
  proof cases
    case kept
    then have "fq_ok view frs' fq \<and> frs_of view frs' fq = frs_of view frs fq"
      using fq_ok_more_heap [OF ok, of "[?g]"] ok by (auto simp del: map_eq_conv)
    then show ?thesis using kept by (simp del: mset_map map_eq_conv)
  next
    case entered
    have "\<not> bit (fq_flag fq) 1"
      using p entered(1) by (auto simp: ProcessFragment_def flag_bits split: if_splits)
    then show ?thesis using entered by (simp del: mset_map)
  qed
qed

lemma process_all_ok:
  assumes "fq_ok view frs fq" and "\<forall>p \<in> set ps. no_wrap p"
    and "process_all ops ps frs fq = Some (Inr (rs, frs', fq'))"
  shows "fq_ok view frs' fq' \<and> (bit (fq_flag fq) 1 \<or> (\<exists>r \<in> set rs. snd r) \<longrightarrow> bit (fq_flag fq') 1)
    \<and> mset (frs_of view frs' fq') \<subseteq># mset (frs_of view frs fq) + mset (map mk ps)"
  using assms
proof (induction ps arbitrary: frs fq rs)
  case (Cons p ps)
  obtain offset len mor pkb where e: "p = (offset, len, mor, pkb)" by (cases p) auto
  obtain r f1 q1 rs' where s: "ProcessFragment ops offset len mor pkb frs fq = Some (Inr (r, f1, q1))"
    "process_all ops ps f1 q1 = Some (Inr (rs', frs', fq'))" "rs = r # rs'"
    using Cons.prems(3) unfolding e by (auto simp: bind_run_eq_Inr)
  note st = step_ok [OF Cons.prems(1) _ s(1)]
  have st: "fq_ok view f1 q1" "snd r \<longrightarrow> bit (fq_flag q1) 1" "bit (fq_flag fq) 1 \<longrightarrow> bit (fq_flag q1) 1"
    "mset (frs_of view f1 q1) - mset (frs_of view frs fq) \<subseteq># {#mk p#}"
    using step_ok [OF Cons.prems(1) _ s(1)] Cons.prems(2) e by (simp_all del: mset_map)
  have ih: "fq_ok view frs' fq'" "bit (fq_flag q1) 1 \<or> (\<exists>r \<in> set rs'. snd r) \<longrightarrow> bit (fq_flag fq') 1"
    "mset (frs_of view frs' fq') \<subseteq># mset (frs_of view f1 q1) + mset (map mk ps)"
    using Cons.IH [OF st(1) _ s(2)] Cons.prems(2) by (simp_all del: mset_map)
  have "mset (frs_of view f1 q1) \<subseteq># mset (frs_of view frs fq) + {#mk p#}"
    using st(4) by (simp add: subset_eq_diff_conv add.commute del: mset_map)
  then have "mset (frs_of view frs' fq') \<subseteq># (mset (frs_of view frs fq) + {#mk p#}) + mset (map mk ps)"
    using ih(3) by (meson subset_mset.add_right_mono subset_mset.order_trans)
  then show ?case using ih(1,2) st(2,3) s(3) by (auto simp del: mset_map simp: mset_map [of mk])
qed (auto simp del: mset_map)

end

text \<open>The chain of the buffers of a completed datagram.\<close>

fun link_pkbs :: "(nat \<Rightarrow> nat \<Rightarrow> 'x \<Rightarrow> 'x) \<Rightarrow> nat list \<Rightarrow> 'x \<Rightarrow> 'x" where
  "link_pkbs SetNext (p # q # ps) x = link_pkbs SetNext (q # ps) (SetNext p q x)"
| "link_pkbs SetNext _ x = x"

lemma link_pkbs_Next:
  assumes "\<And>p q x r. Next (SetNext p q x) r = (if r = p then Some q else Next x r)"
    and "distinct ps" and "Suc i < length ps"
  shows "Next (link_pkbs SetNext ps x) (ps ! i) = Some (ps ! Suc i)"
proof -
  have frame: "r \<notin> set qs \<Longrightarrow> Next (link_pkbs SetNext qs x) r = Next x r" for r qs x
  proof (induction qs arbitrary: x)
    case (Cons q qs)
    then show ?case by (cases qs) (auto simp: assms(1))
  qed simp
  show ?thesis
    using assms(2,3)
  proof (induction ps arbitrary: i x)
    case (Cons p ps)
    then obtain q qs where ps: "ps = q # qs" by (cases ps) auto
    show ?case
    proof (cases i)
      case 0
      then show ?thesis using frame [of p "q # qs"] Cons.prems(1) ps by (simp add: assms(1))
    next
      case (Suc j)
      then show ?thesis using Cons.IH [of j] Cons.prems ps by simp
    qed
  qed simp
qed

section \<open>The order of arrival\<close>

text \<open>The fragments that a sender cuts a datagram of \<open>n\<close> bytes into.\<close>

definition datagram :: "frag_pkt list \<Rightarrow> nat \<Rightarrow> bool" where
  "datagram ds n \<longleftrightarrow> 2 \<le> length ds \<and> n < 65536 \<and> (\<forall>p \<in> set ds. no_wrap p \<and> fr_len (mk p) > 0)
     \<and> tiles 0 (map mk ds) n \<and> (\<forall>p \<in> set (butlast ds). fr_more (mk p)) \<and> \<not> fr_more (mk (last ds))"

text \<open>In a tiling any two fragments are apart, and only the last one ends at the end.\<close>

lemma tiles_bounds:
  assumes "tiles a fs b" and "f \<in> set fs"
  shows "a \<le> unat (fr_offset f)" "unat (fr_last f) \<le> b"
proof -
  have "a \<le> unat (fr_offset f) \<and> unat (fr_last f) \<le> b"
    using assms
  proof (induction fs arbitrary: a)
    case (Cons x fs)
    then have "unat (fr_last x) \<le> b" using tiles_row [of "unat (fr_last x)" fs b] by fastforce
    then show ?case using Cons by (fastforce simp: fr_wf_def)
  qed simp
  then show "a \<le> unat (fr_offset f)" "unat (fr_last f) \<le> b" by simp_all
qed

lemma tiles_append: "tiles a (xs @ ys) b \<longleftrightarrow> (\<exists>m. tiles a xs m \<and> tiles m ys b)"
  by (induction xs arbitrary: a) auto

lemma tiles_apart:
  assumes "tiles a (xs @ f # ys @ g # zs) b"
  shows "unat (fr_last f) \<le> unat (fr_offset g)"
proof -
  obtain m where "tiles m (f # ys @ g # zs) b" using assms unfolding tiles_append by blast
  then have "tiles (unat (fr_last f)) (ys @ g # zs) b" by simp
  then show ?thesis using tiles_bounds(1) by fastforce
qed

lemma tiles_two:
  assumes "tiles a fs b" and "f \<in> set fs" and "g \<in> set fs" and "f \<noteq> g"
  shows "unat (fr_last f) \<le> unat (fr_offset g) \<or> unat (fr_last g) \<le> unat (fr_offset f)"
proof -
  obtain xs ys where s: "fs = xs @ f # ys" using assms(2) by (auto simp: in_set_conv_decomp)
  show ?thesis
  proof (cases "g \<in> set xs")
    case True
    then obtain us vs where "xs = us @ g # vs" by (auto simp: in_set_conv_decomp)
    then show ?thesis using tiles_apart [of a us g vs f ys b] assms(1) s by simp
  next
    case False
    then obtain us vs where "ys = us @ g # vs" using assms(3,4) s by (auto simp: in_set_conv_decomp)
    then show ?thesis using tiles_apart [of a xs f us g vs b] assms(1) s by simp
  qed
qed

lemma tiles_unique:
  assumes "tiles a fs b" and "tiles a gs b" and "mset fs = mset gs" and "\<forall>f \<in> set fs. 0 < fr_len f"
  shows "fs = gs"
  using assms
proof (induction fs arbitrary: a gs)
  case (Cons f fs)
  obtain g gs' where g: "gs = g # gs'" using Cons.prems(3) by (cases gs) auto
  have "g = f"
  proof (rule ccontr)
    assume "g \<noteq> f"
    moreover have "g \<in> set (f # fs)" using Cons.prems(3) g by (metis list.set_intros(1) set_mset_mset)
    ultimately have "g \<in> set fs" by simp
    then have "unat (fr_last f) \<le> unat (fr_offset g)" using tiles_bounds(1) Cons.prems(1) by fastforce
    moreover have "unat (fr_offset f) = a" "unat (fr_offset g) = a" "fr_wf f" "0 < unat (fr_len f)"
      using Cons.prems(1,2,4) g by (simp_all add: unat_gt_0 word_greater_zero_iff)
    ultimately show False by (simp add: fr_wf_def)
  qed
  then show ?case using Cons.IH [of "unat (fr_last f)" gs'] Cons.prems g by simp
qed simp

lemma meat_mset: "mset fs = mset gs \<Longrightarrow> meat_of fs = meat_of gs"
  unfolding meat_of_def by (metis mset_map sum_mset_sum_list)

lemma meat_sub:
  assumes "mset fs \<subseteq># mset gs" and "\<forall>f \<in> set gs. 0 < fr_len f" and "meat_of gs \<le> meat_of fs"
  shows "mset fs = mset gs"
proof -
  obtain M where M: "mset gs = mset fs + M" using assms(1) by (auto simp: subset_mset.le_iff_add)
  then have "meat_of gs = meat_of fs + (\<Sum>f \<in># M. unat (fr_len f))"
    unfolding meat_of_def by (metis (no_types) image_mset_union mset_map sum_mset.union sum_mset_sum_list)
  then have z: "(\<Sum>f \<in># M. unat (fr_len f)) = 0" using assms(3) by simp
  have "M = {#}"
  proof (rule ccontr)
    assume "M \<noteq> {#}"
    then obtain f where "f \<in># M" by blast
    moreover from this have "f \<in> set gs" using M by (metis set_mset_mset union_iff)
    ultimately show False using z assms(2) by (auto simp: sum_mset_0_iff unat_eq_0)
  qed
  then show ?thesis using M by simp
qed

lemma mk_inj: "mk p = mk q \<Longrightarrow> p = q"
  by (cases p; cases q) (simp add: mk_def createFragment_def)

lemma mset_map_mk: "mset (map mk ps) = mset (map mk qs) \<longleftrightarrow> mset ps = mset qs"
proof
  have "inj mk" using mk_inj by (rule injI)
  moreover assume "mset (map mk ps) = mset (map mk qs)"
  then have "image_mset (inv mk) (mset (map mk ps)) = image_mset (inv mk) (mset (map mk qs))" by simp
  ultimately show "mset ps = mset qs" by (simp add: image_mset.compositionality o_def inv_f_f)
qed simp

text \<open>The facts about a datagram that one step needs.\<close>

lemma datagramD:
  assumes "datagram ds n"
  shows "tiles 0 (map mk ds) n" and "p \<in> set ds \<Longrightarrow> no_wrap p" and "\<forall>f \<in> set (map mk ds). 0 < fr_len f"
    and "distinct ds" and "meat_of (map mk ds) = n" and "ds \<noteq> []"
    and "p \<in> set ds \<Longrightarrow> \<not> fr_more (mk p) \<longleftrightarrow> p = last ds"
    and "p \<in> set ds \<Longrightarrow> p \<noteq> hd ds \<Longrightarrow> fr_last (mk (hd ds)) \<le> fr_offset (mk p)"
    and "p \<in> set ds \<Longrightarrow> p \<noteq> last ds \<Longrightarrow> fr_last (mk p) \<le> fr_offset (mk (last ds))"
    and "unat (fr_last (mk (last ds))) = n"
proof -
  show t: "tiles 0 (map mk ds) n" and "p \<in> set ds \<Longrightarrow> no_wrap p" and len: "\<forall>f \<in> set (map mk ds). 0 < fr_len f"
    using assms by (auto simp: datagram_def)
  show ne: "ds \<noteq> []" using assms by (auto simp: datagram_def)
  show "meat_of (map mk ds) = n" using tiles_row [OF t] by simp
  have b: "ds = butlast ds @ [last ds]" using ne by simp
  have h: "ds = hd ds # tl ds" using ne by simp
  have sb: "set ds = insert (last ds) (set (butlast ds))" by (subst b) simp
  have sh: "set ds = insert (hd ds) (set (tl ds))" by (subst h) simp
  show d: "distinct ds"
  proof (rule ccontr)
    assume "\<not> distinct ds"
    then obtain xs ys zs p where "ds = xs @ [p] @ ys @ [p] @ zs" using not_distinct_decomp by blast
    then have m: "map mk ds = map mk xs @ mk p # map mk ys @ mk p # map mk zs" and p: "p \<in> set ds" by simp_all
    have "unat (fr_last (mk p)) \<le> unat (fr_offset (mk p))" using tiles_apart t unfolding m by blast
    moreover have "fr_wf (mk p)" "0 < unat (fr_len (mk p))"
      using p assms len no_wrap_wf by (auto simp: datagram_def unat_gt_0 word_greater_zero_iff)
    ultimately show False by (simp add: fr_wf_def)
  qed
  show "\<not> fr_more (mk p) \<longleftrightarrow> p = last ds" if "p \<in> set ds"
    using assms that sb by (auto simp: datagram_def)
  show "fr_last (mk (hd ds)) \<le> fr_offset (mk p)" if "p \<in> set ds" "p \<noteq> hd ds"
  proof -
    have "mk p \<in> set (map mk (tl ds))" using that sh by auto
    moreover have "tiles (unat (fr_last (mk (hd ds)))) (map mk (tl ds)) n" using t h by (metis list.simps(9) tiles.simps(2))
    ultimately show ?thesis using tiles_bounds(1) by (simp add: word_le_nat_alt)
  qed
  have tb: "tiles 0 (map mk (butlast ds) @ [mk (last ds)]) n" using t b by (metis map_append list.simps(8,9))
  then show "unat (fr_last (mk (last ds))) = n" unfolding tiles_append by auto
  show "fr_last (mk p) \<le> fr_offset (mk (last ds))" if "p \<in> set ds" "p \<noteq> last ds"
  proof -
    have "mk p \<in> set (map mk (butlast ds))"
      using that sb by auto
    moreover obtain m where "tiles 0 (map mk (butlast ds)) m" "m = unat (fr_offset (mk (last ds)))"
      using tb unfolding tiles_append by auto
    ultimately show ?thesis using tiles_bounds(2) by (metis word_le_nat_alt)
  qed
qed

end
