(* ===== verification/Nat_Datagram.thy ===== *)
theory Nat_Datagram
  imports Nat_Defrag
begin

text \<open>
  A whole datagram: the fragments in any order that starts with the first one are reassembled, and
  their buffers are chained in the order of the offsets. The properties hold over every list that
  behaves as \<open>ilist\<close> documents; a list of addresses is one.
\<close>

lemma row_wf: "row a fs b \<Longrightarrow> f \<in> set fs \<Longrightarrow> fr_wf f"
  by (induction fs arbitrary: a) auto

context ilist begin

lemma pf_ok_entered:
  assumes "pf_ok frs fq g r" and "\<not> bit (fq_flag fq) 1"
    and "\<not> (\<forall>f \<in> set (frs_of view frs fq). fr_offset g < fr_last f)"
    and "\<not> (\<exists>f \<in> set (frs_of view frs fq). fr_offset g < fr_last f \<and> (\<not> fr_more g \<or> fr_offset f < fr_last g))"
  obtains fq' d where "r = Some (Inr ((True, d), frs @ [g], fq'))" and "fq_ok view (frs @ [g]) fq'"
    and "mset (frs_of view (frs @ [g]) fq') = add_mset g (mset (frs_of view frs fq))"
    and "d = bit (fq_flag fq') 1"
    and "bit (fq_flag fq') 0 = (bit (fq_flag fq) 0 \<or> \<not> fr_more g \<and> view (fq_list fq) \<noteq> [])"
    and "bit (fq_flag fq') 1 = (bit (fq_flag fq') 0 \<and> fq_qLen fq' = fq_meat fq')"
  using assms(1) unfolding pf_ok_def
  by (elim disjE exE conjE) (use assms(2-4) in simp_all)

text \<open>One fragment of a datagram whose first fragment is there.\<close>

lemma datagram_step:
  assumes D: "datagram ds n" and ok: "fq_ok view frs fq" and F: "mset (frs_of view frs fq) = mset (map mk xs)"
    and xs: "distinct (p # xs)" "set (p # xs) \<subseteq> set ds" "hd ds \<in> set xs"
    and fl: "bit (fq_flag fq) 0 \<longleftrightarrow> last ds \<in> set xs" "\<not> bit (fq_flag fq) 1"
    and p: "p = (offset, len, mor, pkb)"
  obtains frs' fq' d where "ProcessFragment ops offset len mor pkb frs fq = Some (Inr ((True, d), frs', fq'))"
    and "fq_ok view frs' fq'" and "mset (frs_of view frs' fq') = mset (map mk (p # xs))"
    and "bit (fq_flag fq') 0 \<longleftrightarrow> last ds \<in> set (p # xs)" and "d \<longleftrightarrow> bit (fq_flag fq') 1"
    and "bit (fq_flag fq') 1 \<longleftrightarrow> set (p # xs) = set ds"
proof -
  note dD = datagramD [OF D]
  let ?g = "mk p"
  have g: "fr_offset ?g = offset" "fr_more ?g = mor" "createFragment offset len mor pkb = ?g"
    using p by (simp_all add: mk_def createFragment_def)
  have nw: "unat offset + unat len < 65536" using dD(2) [of p] xs(2) p by (simp add: no_wrap_def)
  have F': "set (frs_of view frs fq) = mk ` set xs" using arg_cong [OF F, of set_mset] by simp
  have pne: "p \<noteq> hd ds" "p \<in> set ds" using xs by auto
  have v: "view (fq_list fq) \<noteq> []" using F' xs(3) by auto
  have nr: "\<not> (\<forall>f \<in> set (frs_of view frs fq). fr_offset ?g < fr_last f)"
    unfolding F' using dD(8) [OF pne(2,1)] xs(3) by (meson imageI not_less)
  have np: "\<not> (\<exists>f \<in> set (frs_of view frs fq). fr_offset ?g < fr_last f \<and> (\<not> fr_more ?g \<or> fr_offset f < fr_last ?g))"
  proof
    assume "\<exists>f \<in> set (frs_of view frs fq). fr_offset ?g < fr_last f \<and> (\<not> fr_more ?g \<or> fr_offset f < fr_last ?g)"
    then obtain q where q: "q \<in> set xs" "fr_offset ?g < fr_last (mk q)" "\<not> fr_more ?g \<or> fr_offset (mk q) < fr_last ?g"
      unfolding F' by auto
    have qd: "q \<in> set ds" "q \<noteq> p" using q(1) xs by auto
    have "mk q \<noteq> ?g" using mk_inj qd(2) by blast
    then have "fr_last (mk q) \<le> fr_offset ?g \<or> fr_last ?g \<le> fr_offset (mk q)"
      unfolding word_le_nat_alt by (intro tiles_two [OF dD(1)]) (use qd(1) pne(2) in simp_all)
    then have "p = last ds" using q(2,3) dD(7) [OF pne(2)] by auto
    then show False using dD(9) [OF qd(1)] qd(2) q(2) by auto
  qed
  obtain fq' d where s: "ProcessFragment ops offset len mor pkb frs fq = Some (Inr ((True, d), frs @ [?g], fq'))"
    "fq_ok view (frs @ [?g]) fq'" "mset (frs_of view (frs @ [?g]) fq') = add_mset ?g (mset (frs_of view frs fq))"
    "d = bit (fq_flag fq') 1" "bit (fq_flag fq') 0 = (bit (fq_flag fq) 0 \<or> \<not> fr_more ?g \<and> view (fq_list fq) \<noteq> [])"
    "bit (fq_flag fq') 1 = (bit (fq_flag fq') 0 \<and> fq_qLen fq' = fq_meat fq')"
    by (rule pf_ok_entered [OF ProcessFragment_spec [OF ok nw, of mor pkb, unfolded g(3)] fl(2) nr np]) (rule that; assumption)
  let ?F = "frs_of view (frs @ [?g]) fq'"
  have mF: "mset ?F = mset (map mk (p # xs))" unfolding s(3) F by simp
  have b0: "bit (fq_flag fq') 0 \<longleftrightarrow> last ds \<in> set (p # xs)" using s(5) fl(1) v dD(7) [OF pne(2)] by auto
  have sF: "set ?F = mk ` set (p # xs)" using arg_cong [OF mF, of set_mset] by simp
  note okD = fq_okD [OF s(2)]
  have "bit (fq_flag fq') 1 \<longleftrightarrow> set (p # xs) = set ds"
  proof
    assume c: "bit (fq_flag fq') 1"
    then have t: "tiles 0 ?F (unat (fq_qLen fq'))" by (rule okD(7))
    have "mk (last ds) \<in> set ?F" unfolding sF using b0 okD(6) [OF c] by blast
    from tiles_bounds(2) [OF t this] have "n \<le> unat (fq_qLen fq')" by (simp only: dD(10))
    then have "meat_of (map mk ds) \<le> meat_of ?F" using tiles_row [OF t] dD(5) by simp
    moreover have "mset ?F \<subseteq># mset (map mk ds)"
    proof -
      have "mset_set (set (p # xs)) \<subseteq># mset_set (set ds)" using xs(2) by (intro subset_imp_msubset_mset_set) simp_all
      then have "mset (p # xs) \<subseteq># mset ds" using mset_set_set [OF xs(1)] mset_set_set [OF dD(4)] by metis
      then show ?thesis unfolding mF unfolding mset_map by (rule image_mset_subseteq_mono)
    qed
    ultimately have "mset ?F = mset (map mk ds)" using dD(3) by (intro meat_sub)
    then show "set (p # xs) = set ds" unfolding mF mset_map_mk by (metis set_mset_mset)
  next
    assume e: "set (p # xs) = set ds"
    then have "mset (p # xs) = mset ds" using set_eq_iff_mset_eq_distinct [OF xs(1) dD(4)] by blast
    then have mD: "mset ?F = mset (map mk ds)" unfolding mF mset_map_mk .
    then have "meat_of ?F = n" using meat_mset dD(5) by metis
    moreover have r: "row 0 ?F (unat (fq_qLen fq'))" by (rule okD(3))
    moreover have "unat (fq_qLen fq') \<le> n"
    proof -
      have "?F \<noteq> []" using mF by (metis list.map(2) list.simps(3) mset_zero_iff)
      then obtain F0 f where f: "?F = F0 @ [f]" by (metis rev_exhaust)
      then have "unat (fq_qLen fq') = unat (fr_last f)" using row_last r by metis
      moreover have "f \<in> set (map mk ds)" using f mD by (metis in_set_conv_decomp set_mset_mset)
      ultimately show ?thesis using tiles_bounds(2) [OF dD(1)] by simp
    qed
    ultimately have "unat (fq_qLen fq') = unat (fq_meat fq')" using row_le [OF r] okD(4) by simp
    moreover have "last ds \<in> set (p # xs)" using e dD(6) by simp
    ultimately show "bit (fq_flag fq') 1" using s(6) b0 by (simp add: unsigned_word_eqI)
  qed
  then show thesis using s(1,2,4) mF b0 by (intro that)
qed

lemma datagram_rest:
  assumes D: "datagram ds n" and "fq_ok view frs fq" and "mset (frs_of view frs fq) = mset (map mk xs)"
    and "distinct (qs @ xs)" and "set (qs @ xs) = set ds" and "hd ds \<in> set xs" and "qs \<noteq> []"
    and "bit (fq_flag fq) 0 \<longleftrightarrow> last ds \<in> set xs" and "\<not> bit (fq_flag fq) 1"
  shows "\<exists>frs' fq'. process_all ops qs frs fq
      = Some (Inr (replicate (length qs - 1) (True, False) @ [(True, True)], frs', fq'))
    \<and> frs_of view frs' fq' = map mk ds \<and> bit (fq_flag fq') 1 \<and> distinct (view (fq_list fq'))"
  using assms(2-)
proof (induction qs arbitrary: frs fq xs)
  case (Cons p qs)
  obtain offset len mor pkb where p: "p = (offset, len, mor, pkb)" by (cases p) auto
  have x: "distinct (p # xs)" "set (p # xs) \<subseteq> set ds" using Cons.prems(3,4) by auto
  obtain frs' fq' d where s: "ProcessFragment ops offset len mor pkb frs fq = Some (Inr ((True, d), frs', fq'))"
    "fq_ok view frs' fq'" "mset (frs_of view frs' fq') = mset (map mk (p # xs))"
    "bit (fq_flag fq') 0 \<longleftrightarrow> last ds \<in> set (p # xs)" "d \<longleftrightarrow> bit (fq_flag fq') 1"
    "bit (fq_flag fq') 1 \<longleftrightarrow> set (p # xs) = set ds"
    by (rule datagram_step [OF D Cons.prems(1,2) x Cons.prems(5,7,8) p]) (rule that; assumption)
  show ?case
  proof (cases "qs = []")
    case True
    then have c: "bit (fq_flag fq') 1" "set (p # xs) = set ds" using s(6) Cons.prems(4) by auto
    have "mset (p # xs) = mset ds"
      using set_eq_iff_mset_eq_distinct [OF x(1) datagramD(4) [OF D]] c(2) by blast
    then have m: "mset (frs_of view frs' fq') = mset (map mk ds)" unfolding s(3) mset_map_mk .
    note t = fq_okD(7) [OF s(2) c(1)] and dD = datagramD [OF D]
    have "n = meat_of (frs_of view frs' fq')" using meat_mset [OF m] dD(5) by simp
    then have "tiles 0 (frs_of view frs' fq') n" using t tiles_row [OF t] by simp
    moreover have "\<forall>f \<in> set (frs_of view frs' fq'). 0 < fr_len f"
      using dD(3) arg_cong [OF m, of set_mset] by (simp only: set_mset_mset)
    ultimately have "frs_of view frs' fq' = map mk ds" using m dD(1) by (intro tiles_unique)
    then show ?thesis using True s(1,5) c p fq_okD(1) [OF s(2)] by simp
  next
    case False
    obtain q where "q \<in> set qs" using False by (cases qs) auto
    then have "q \<in> set ds" "q \<notin> set (p # xs)" using Cons.prems(3,4) by auto
    then have nd: "set (p # xs) \<noteq> set ds" by blast
    have r: "distinct (qs @ p # xs)" "set (qs @ p # xs) = set ds" "hd ds \<in> set (p # xs)" using Cons.prems(3,4,5) by auto
    have nb: "\<not> bit (fq_flag fq') 1" using s(6) nd by simp
    obtain f2 q2 where "process_all ops qs frs' fq'
        = Some (Inr (replicate (length qs - 1) (True, False) @ [(True, True)], f2, q2))"
      "frs_of view f2 q2 = map mk ds" "bit (fq_flag q2) 1" "distinct (view (fq_list q2))"
      using Cons.IH [OF s(2,3) r False s(4) nb] by blast
    moreover obtain k where "length qs = Suc k" using False by (cases qs) auto
    ultimately show ?thesis using s(1,5) nb p by simp
  qed
qed simp

lemma datagram_arrives:
  assumes D: "datagram ds n" and q: "mset qs = mset (tl ds)"
  shows "\<exists>frs fq. process_all ops (hd ds # qs) [] (newfragQueue ops now)
      = Some (Inr (replicate (length ds - 1) (True, False) @ [(True, True)], frs, fq))
    \<and> frs_of view frs fq = map mk ds \<and> bit (fq_flag fq) 1 \<and> distinct (view (fq_list fq))"
proof -
  note dD = datagramD [OF D]
  obtain offset len mor pkb where p: "hd ds = (offset, len, mor, pkb)" by (cases "hd ds") auto
  let ?fq = "newfragQueue ops now"
  have e: "view (fq_list ?fq) = []" "\<not> bit (fq_flag ?fq) m" for m by (simp_all add: newfragQueue_def Reset)
  have nw: "unat offset + unat len < 65536" using dD(2) [OF hd_in_set [OF dD(6)]] p by (simp add: no_wrap_def)
  have m: "createFragment offset len mor pkb = mk (hd ds)" using p by (simp add: mk_def)
  obtain fq' d where s: "ProcessFragment ops offset len mor pkb [] ?fq = Some (Inr ((True, d), [] @ [mk (hd ds)], fq'))"
    "fq_ok view ([] @ [mk (hd ds)]) fq'"
    "mset (frs_of view ([] @ [mk (hd ds)]) fq') = add_mset (mk (hd ds)) (mset (frs_of view [] ?fq))"
    "d = bit (fq_flag fq') 1" "bit (fq_flag fq') 0 = (bit (fq_flag ?fq) 0 \<or> \<not> fr_more (mk (hd ds)) \<and> view (fq_list ?fq) \<noteq> [])"
    "bit (fq_flag fq') 1 = (bit (fq_flag fq') 0 \<and> fq_qLen fq' = fq_meat fq')"
    using ProcessFragment_spec [OF fresh_ok nw, of "[]" now mor pkb] e unfolding pf_ok_def m by fastforce
  have l: "length ds \<ge> 2" using D by (simp add: datagram_def)
  have ne: "last ds \<noteq> hd ds" using l dD(4) by (cases ds rule: list.exhaust; cases "tl ds" rule: rev_cases) auto
  have ms: "mset (qs @ [hd ds]) = mset ds" using q dD(6) by (cases ds) simp_all
  have lq: "length qs = length ds - 1" using q by (metis length_tl size_mset)
  have q': "distinct (qs @ [hd ds])" "set (qs @ [hd ds]) = set ds" "qs \<noteq> []"
    using mset_eq_imp_distinct_iff [OF ms] dD(4) mset_eq_setD [OF ms] lq l by auto
  have b: "\<not> bit (fq_flag fq') 0" "\<not> bit (fq_flag fq') 1" using s(5,6) e by simp_all
  have "\<exists>frs fq. process_all ops qs [mk (hd ds)] fq'
      = Some (Inr (replicate (length qs - 1) (True, False) @ [(True, True)], frs, fq))
    \<and> frs_of view frs fq = map mk ds \<and> bit (fq_flag fq) 1 \<and> distinct (view (fq_list fq))"
    by (rule datagram_rest [OF D, of _ _ "[hd ds]"]) (use s(2,3) e q' b ne in simp_all)
  moreover obtain k where "length qs = Suc k" using q'(3) by (cases qs) auto
  ultimately show ?thesis using s(1,4) b p lq by auto
qed

section \<open>The chain of buffers\<close>

lemma chain_pkbs_view:
  assumes "distinct (view l)" and "view l = xs @ ys"
  shows "chain_pkbs ops SetNext frs l (front_of ys) first_pkb (Some p) x
    = Some (first_pkb, link_pkbs SetNext (p # map (\<lambda>a. fr_pkb (frs ! a)) ys) x)"
  using assms(2)
proof (induction ys arbitrary: xs p x)
  case (Cons a ys)
  have "il_Next ops l a = front_of ys" using Next [OF assms(1)] Cons.prems by blast
  then show ?case using Cons.IH [of "xs @ [a]"] Cons.prems by (simp add: chain_pkbs.simps Let_def)
qed (simp add: chain_pkbs.simps)

lemma completed_view:
  assumes "distinct (view (fq_list fq))" and "bit (fq_flag fq) 1"
  shows "completed ops SetNext frs fq x = Some (Inr
    (front_of (map fr_pkb (frs_of view frs fq)), link_pkbs SetNext (map fr_pkb (frs_of view frs fq)) x))"
proof (cases "view (fq_list fq)")
  case Nil
  then show ?thesis
    using assms by (simp add: completed_def flag_bits Front chain_pkbs.simps)
next
  case (Cons a ys)
  have n: "il_Next ops (fq_list fq) a = front_of ys" using Next [OF assms(1), of "[]" a ys] Cons by simp
  show ?thesis
    using assms Cons n chain_pkbs_view [OF assms(1), of "[a]" ys]
    by (simp add: completed_def flag_bits Front chain_pkbs.simps [of ops SetNext frs "fq_list fq" "Some a"] o_def Let_def)
qed

section \<open>What goes wrong\<close>

text \<open>A fragment that belongs in front of all others is refused.\<close>

lemma early_fragment_refused:
  assumes ok: "fq_ok view frs fq" and "\<not> bit (fq_flag fq) 1" and "view (fq_list fq) \<noteq> []"
    and "\<forall>f \<in> set (frs_of view frs fq). offset < fr_last f"
  shows "ProcessFragment ops offset len True pkb frs fq
    = Some (Inr ((False, False), frs @ [createFragment offset len True pkb], fq))"
proof -
  let ?g = "createFragment offset len True pkb"
  note okD = fq_okD [OF ok]
  have "List.find (\<lambda>a. fr_last ((frs @ [?g]) ! a) \<le> offset) (rev (view (fq_list fq))) = None"
    using assms(4) okD(2) by (auto simp: find_None_iff nth_append not_le)
  then show ?thesis
    using find_place_back [OF okD(1), of "frs @ [?g]" offset] assms(2,3) Empty [OF okD(1)]
    by (simp add: ProcessFragment_def flag_bits Let_def)
qed

lemma never_completes:
  assumes D: "datagram ds n" and ok: "fq_ok view frs fq" and v: "view (fq_list fq) \<noteq> []"
    and F: "\<forall>f \<in> set (frs_of view frs fq). 0 < fr_offset f" and ps: "set ps \<subseteq> set ds"
    and r: "process_all ops ps frs fq = Some (Inr (rs, frs', fq'))"
  shows "\<forall>r \<in> set rs. \<not> snd r"
  using ok v F ps r
proof (induction ps arbitrary: frs fq rs)
  case (Cons p ps)
  obtain offset len mor pkb where e: "p = (offset, len, mor, pkb)" by (cases p) auto
  obtain r f1 q1 rs' where s: "ProcessFragment ops offset len mor pkb frs fq = Some (Inr (r, f1, q1))"
    "process_all ops ps f1 q1 = Some (Inr (rs', frs', fq'))" "rs = r # rs'"
    using Cons.prems(5) unfolding e by (auto simp: bind_run_eq_Inr)
  have pd: "p \<in> set ds" "no_wrap p" using Cons.prems(4) datagramD(2) [OF D] by auto
  have ne: "hd ds \<noteq> last ds"
    using D datagramD(4) [OF D] by (cases ds; cases "tl ds" rule: rev_cases) (auto simp: datagram_def)
  have st: "fq_ok view f1 q1" "snd r \<longrightarrow> bit (fq_flag q1) 1"
    "mset (frs_of view f1 q1) - mset (frs_of view frs fq) \<subseteq># {#mk p#}" "mset (frs_of view frs fq) \<subseteq># mset (frs_of view f1 q1)"
    using step_ok [OF Cons.prems(1) _ s(1)] pd e by (simp_all del: mset_map)
  have nb: "\<not> bit (fq_flag q) 1" if "fq_ok view h q" "\<forall>f \<in> set (frs_of view h q). 0 < fr_offset f" "view (fq_list q) \<noteq> []" for h q
  proof
    assume "bit (fq_flag q) 1"
    then have "tiles 0 (frs_of view h q) (unat (fq_qLen q))" by (rule fq_okD(7) [OF that(1)])
    then show False using that(2,3) by (cases "view (fq_list q)") (auto simp: word_less_nat_alt)
  qed
  have "\<forall>f \<in> set (frs_of view f1 q1). 0 < fr_offset f" "view (fq_list q1) \<noteq> []"
  proof -
    have "(\<forall>f \<in> set (frs_of view f1 q1). 0 < fr_offset f) \<and> view (fq_list q1) \<noteq> []"
    proof (cases "offset = 0")
      case True
      note dD = datagramD [OF D]
      have h0: "0 < fr_len (mk q)" "fr_wf (mk q)" if "q \<in> set ds" for q
        using dD(3) dD(2) [OF that] that no_wrap_wf by auto
      have "p = hd ds"
      proof (rule ccontr)
        assume "p \<noteq> hd ds"
        then have "fr_last (mk (hd ds)) \<le> 0" using dD(8) [OF pd(1)] e True by simp
        then show False using h0 [OF hd_in_set [OF dD(6)]] by (simp add: fr_wf_def word_less_nat_alt)
      qed
      then have "fr_more (mk p)" using ne dD(7) [OF pd(1)] by blast
      then have mor using e mk_simps(4) by metis
      moreover have "\<forall>f \<in> set (frs_of view frs fq). offset < fr_last f"
      proof
        fix f
        assume f: "f \<in> set (frs_of view frs fq)"
        then have "fr_wf f" using fq_okD(3) [OF Cons.prems(1)] row_wf by blast
        then show "offset < fr_last f" using Cons.prems(3) f True by (auto simp: fr_wf_def word_less_nat_alt)
      qed
      ultimately have "ProcessFragment ops offset len mor pkb frs fq
          = Some (Inr ((False, False), frs @ [createFragment offset len True pkb], fq))"
        using early_fragment_refused [OF Cons.prems(1) nb [OF Cons.prems(1,3,2)] Cons.prems(2)] by simp
      then have "q1 = fq" "f1 = frs @ [createFragment offset len True pkb]" using s(1) by simp_all
      then show ?thesis
        using Cons.prems(2,3) fq_ok_more_heap [OF Cons.prems(1)] by metis
    next
      case False
      have "mset (frs_of view f1 q1) \<subseteq># {#mk p#} + mset (frs_of view frs fq)"
        using st(3) by (simp only: subset_eq_diff_conv)
      then have "set (frs_of view f1 q1) \<subseteq> insert (mk p) (set (frs_of view frs fq))"
        using set_mset_mono by (fastforce simp del: mset_map)
      moreover have "frs_of view frs fq \<noteq> []" using Cons.prems(2) by simp
      ultimately show ?thesis using False Cons.prems(3) e st(4) by (auto simp: word_gt_0 simp del: mset_map)
    qed
    then show "\<forall>f \<in> set (frs_of view f1 q1). 0 < fr_offset f" "view (fq_list q1) \<noteq> []" by simp_all
  qed
  then show ?case using Cons.IH [OF st(1) _ _ _ s(2)] st(2) nb [OF st(1)] s(3) Cons.prems(4) by auto
qed simp

end

end
