(* ===== verification/Nat_Frag_Props.thy ===== *)
theory Nat_Frag_Props
  imports Nat_Datagram
begin

text \<open>
  The properties of reassembly, over any list that behaves as \<open>ilist\<close> documents, and a list of
  addresses that does.
\<close>

section \<open>A list of addresses behaves as documented\<close>

definition succ_in :: "nat list \<Rightarrow> nat \<Rightarrow> nat option" where
  "succ_in xs e = front_of (tl (dropWhile (\<lambda>x. x \<noteq> e) xs))"

definition list_ops :: "nat list ilist_ops" where
  "list_ops = \<lparr>il_zero = [], il_Reset = (\<lambda>_. []), il_Empty = (\<lambda>l. l = []), il_Front = front_of,
     il_Back = back_of, il_Next = succ_in, il_Prev = (\<lambda>l. succ_in (rev l)), il_PushFront = (#),
     il_PushBack = (\<lambda>e l. l @ [e]),
     il_InsertAfter = (\<lambda>e n l. takeWhile (\<lambda>x. x \<noteq> e) l @ e # n # tl (dropWhile (\<lambda>x. x \<noteq> e) l))\<rparr>"

lemma split_at_once:
  assumes "e \<notin> set xs"
  shows "dropWhile (\<lambda>x. x \<noteq> e) (xs @ e # ys) = e # ys" "takeWhile (\<lambda>x. x \<noteq> e) (xs @ e # ys) = xs"
proof -
  have "\<forall>x \<in> set xs. x \<noteq> e" using assms by blast
  then show "dropWhile (\<lambda>x. x \<noteq> e) (xs @ e # ys) = e # ys" "takeWhile (\<lambda>x. x \<noteq> e) (xs @ e # ys) = xs"
    by (simp_all add: dropWhile_append2 takeWhile_append2)
qed

interpretation list_ilist: ilist list_ops "\<lambda>l. l"
  by unfold_locales (auto simp: list_ops_def succ_in_def split_at_once back_of_def rev_append)

section \<open>What is complete is complete\<close>

text \<open>
  C28: whatever fragments arrive in whatever order, with gaps, repetitions or overlaps, as long as
  each of them ends within the 65535 bytes that a datagram can have: once \<open>ProcessFragment\<close> has
  reported the datagram done, the fragments of the queue, front to back, cover every byte from 0 to
  the length of the queue exactly once, each of them arrived, and one of them was marked as the
  last. The code does not check the bound, and without it this fails: \<open>wrapped_fragment_leaves_gap\<close>.
\<close>

theorem reassembly_sound:
  assumes "ilist ops view" and "\<forall>p \<in> set ps. no_wrap p"
    and "process_all ops ps [] (newfragQueue ops now) = Some (Inr (rs, frs, fq))" and "\<exists>r \<in> set rs. snd r"
  shows "tiles 0 (frs_of view frs fq) (unat (fq_qLen fq)) \<and> set (frs_of view frs fq) \<subseteq> mk ` set ps
    \<and> (\<exists>f \<in> set (frs_of view frs fq). \<not> fr_more f)"
proof -
  have e: "frs_of view [] (newfragQueue ops now) = []" by (simp add: newfragQueue_def ilist.Reset [OF assms(1)])
  have p: "fq_ok view frs fq" "bit (fq_flag fq) 1" "mset (frs_of view frs fq) \<subseteq># mset (map mk ps)"
    using ilist.process_all_ok [OF assms(1) ilist.fresh_ok [OF assms(1)] assms(2,3)] assms(4)
    unfolding e by (auto simp del: mset_map)
  have "set (frs_of view frs fq) \<subseteq> mk ` set ps" using set_mset_mono [OF p(3)] by (simp del: mset_map)
  then show ?thesis using fq_okD(5,6,7) [OF p(1)] p(2) by blast
qed

theorem reassembly_sound_witness:
  "\<exists>rs frs fq. process_all list_ops [(0, 8, True, 1), (16, 4, False, 3), (8, 8, True, 2)] []
      (newfragQueue list_ops 0) = Some (Inr (rs, frs, fq))
    \<and> tiles 0 (frs_of (\<lambda>l. l) frs fq) (unat (fq_qLen fq))"
proof -
  let ?ps = "[(0, 8, True, 1), (16, 4, False, 3), (8, 8, True, 2)] :: frag_pkt list"
  obtain rs frs fq where r: "process_all list_ops ?ps [] (newfragQueue list_ops 0) = Some (Inr (rs, frs, fq))"
    and d: "\<exists>r \<in> set rs. snd r"
    by (simp add: list_ops_def newfragQueue_def ProcessFragment_def FRAG_COMPLETE_def FRAG_LAST_IN_def
        createFragment_def Let_def find_place.simps succ_in_def back_of_def front_of_def)
  have "\<forall>p \<in> set ?ps. no_wrap p" by (simp add: no_wrap_def)
  from reassembly_sound [OF list_ilist.ilist_axioms this r d] r show ?thesis by blast
qed

text \<open>
  A fragment whose end wraps around $2^{16}$ counts as meat without filling its place: the three
  fragments are reported done as a datagram of 32 bytes, of which bytes 8 to 23 never arrived.
\<close>

theorem wrapped_fragment_leaves_gap:
  "\<exists>rs frs fq. process_all list_ops [(0, 8, True, 1), (65528, 16, True, 2), (24, 8, False, 3)] []
      (newfragQueue list_ops 0) = Some (Inr (rs, frs, fq))
    \<and> (\<exists>r \<in> set rs. snd r) \<and> fq_qLen fq = 32
    \<and> (\<forall>f \<in> set (frs_of (\<lambda>l. l) frs fq). \<forall>i. 8 \<le> i \<and> i < 24 \<longrightarrow>
         \<not> (unat (fr_offset f) \<le> i \<and> i < unat (fr_offset f) + unat (fr_len f)))"
  by (simp add: list_ops_def newfragQueue_def ProcessFragment_def FRAG_COMPLETE_def FRAG_LAST_IN_def
      createFragment_def Let_def find_place.simps succ_in_def back_of_def front_of_def)

section \<open>When a datagram completes\<close>

text \<open>
  C29: a datagram cut into two or more fragments whose first fragment arrives first is reassembled,
  whatever the order of the others: every fragment is taken, the last one to arrive is reported as
  done, and \<open>completed\<close> returns the buffer of the first fragment, from which \<open>Next\<close> leads through the
  buffers in the order of their offsets.
\<close>

theorem datagram_reassembled:
  assumes "ilist ops view" and "datagram ds n" and "mset qs = mset (tl ds)"
    and "distinct (map (fr_pkb \<circ> mk) ds)"
    and "\<And>p q x r. Next (SetNext p q x) r = (if r = p then Some q else Next x r)"
  shows "\<exists>frs fq x'. process_all ops (hd ds # qs) [] (newfragQueue ops now)
      = Some (Inr (replicate (length ds - 1) (True, False) @ [(True, True)], frs, fq))
    \<and> completed ops SetNext frs fq x = Some (Inr (Some (fr_pkb (mk (hd ds))), x'))
    \<and> (\<forall>i. Suc i < length ds \<longrightarrow> Next x' (fr_pkb (mk (ds ! i))) = Some (fr_pkb (mk (ds ! Suc i))))"
proof -
  obtain frs fq where f: "process_all ops (hd ds # qs) [] (newfragQueue ops now)
      = Some (Inr (replicate (length ds - 1) (True, False) @ [(True, True)], frs, fq))"
    "frs_of view frs fq = map mk ds" "bit (fq_flag fq) 1" "distinct (view (fq_list fq))"
    using ilist.datagram_arrives [OF assms(1-3), of now] by blast
  let ?ps = "map (fr_pkb \<circ> mk) ds"
  have "completed ops SetNext frs fq x = Some (Inr (front_of ?ps, link_pkbs SetNext ?ps x))"
    using ilist.completed_view [OF assms(1) f(4,3), of SetNext frs x, unfolded f(2)] by simp
  moreover have "front_of ?ps = Some (fr_pkb (mk (hd ds)))"
    using assms(2) by (cases ds) (auto simp: datagram_def)
  moreover have "Next (link_pkbs SetNext ?ps x) (fr_pkb (mk (ds ! i))) = Some (fr_pkb (mk (ds ! Suc i)))"
    if "Suc i < length ds" for i
    using link_pkbs_Next [OF assms(5,4), of i x] that by simp
  ultimately show ?thesis using f(1) by auto
qed

theorem datagram_reassembled_witness:
  "\<exists>frs fq x'. process_all list_ops [(0, 8, True, 1), (16, 4, False, 3), (8, 8, True, 2)] []
      (newfragQueue list_ops 0) = Some (Inr ([(True, False), (True, False), (True, True)], frs, fq))
    \<and> completed list_ops (\<lambda>p q x. x(p \<mapsto> q)) frs fq (\<lambda>_. None) = Some (Inr (Some 1, x')) \<and> x' 2 = Some 3"
proof -
  let ?ds = "[(0, 8, True, 1), (8, 8, True, 2), (16, 4, False, 3)] :: frag_pkt list"
  have "datagram ?ds 20" by (simp add: datagram_def no_wrap_def fr_wf_def mk_def createFragment_def)
  moreover have "mset [(16, 4, False, 3), (8, 8, True, 2)] = mset (tl ?ds)" by simp
  ultimately obtain frs fq x' where
    f: "process_all list_ops (hd ?ds # [(16, 4, False, 3), (8, 8, True, 2)]) [] (newfragQueue list_ops 0)
      = Some (Inr (replicate (length ?ds - 1) (True, False) @ [(True, True)], frs, fq))"
      "completed list_ops (\<lambda>p q x. x(p \<mapsto> q)) frs fq (\<lambda>_. None) = Some (Inr (Some (fr_pkb (mk (hd ?ds))), x'))"
      "\<forall>i. Suc i < length ?ds \<longrightarrow> x' (fr_pkb (mk (?ds ! i))) = Some (fr_pkb (mk (?ds ! Suc i)))"
    using datagram_reassembled [OF list_ilist.ilist_axioms, of ?ds 20 "[(16, 4, False, 3), (8, 8, True, 2)]"
        "\<lambda>x. x" "\<lambda>p q x. x(p \<mapsto> q)" 0 "\<lambda>_. None"] by auto
  have "x' 2 = Some 3" using f(3) [rule_format, of 1] by (simp add: mk_def createFragment_def)
  then show ?thesis using f(1,2) by (auto simp: numeral_2_eq_2 mk_def createFragment_def)
qed

section \<open>When it does not\<close>

text \<open>
  C30: a datagram whose first fragment is not the first to arrive is lost: a fragment that belongs in
  front of all others of the queue is refused, so no order of arrival, and no repetition, ever
  reports it done.
\<close>

theorem reordered_datagram_lost:
  assumes "ilist ops view" and "datagram ds n" and "p \<in> set (tl ds)" and "set ps \<subseteq> set ds"
    and "process_all ops (p # ps) [] (newfragQueue ops now) = Some (Inr (rs, frs, fq))"
  shows "\<forall>r \<in> set rs. \<not> snd r"
proof -
  note dD = datagramD [OF assms(2)]
  obtain offset len mor pkb where e: "p = (offset, len, mor, pkb)" by (cases p) auto
  let ?fq = "newfragQueue ops now"
  have v: "view (fq_list ?fq) = []" by (simp add: newfragQueue_def ilist.Reset [OF assms(1)])
  obtain r f1 q1 rs' where s: "ProcessFragment ops offset len mor pkb [] ?fq = Some (Inr (r, f1, q1))"
    "process_all ops ps f1 q1 = Some (Inr (rs', frs, fq))" "rs = r # rs'"
    using assms(5) unfolding e by (auto simp: bind_run_eq_Inr)
  have em: "il_Empty ops (fq_list ?fq)" using ilist.Empty [OF assms(1)] v by simp
  have q1: "r = (True, False)" "f1 = [createFragment offset len mor pkb]"
      "fq_list q1 = il_PushFront ops 0 (fq_list ?fq)"
    using s(1) em by (auto simp: ProcessFragment_def newfragQueue_def Let_def)
  have v1: "view (fq_list q1) = [0]" using ilist.PushFront [OF assms(1), of "fq_list ?fq" 0] v q1(3) by simp
  have F: "frs_of view f1 q1 = [mk p]" using v1 q1(2) e by (simp add: mk_def)
  have ph: "p \<in> set ds" "p \<noteq> hd ds"
    using assms(3) dD(4,6) by (cases ds; auto)+
  have "fr_last (mk (hd ds)) \<le> fr_offset (mk p)" by (rule dD(8) [OF ph])
  moreover have "0 < fr_len (mk (hd ds))" "fr_wf (mk (hd ds))"
    using dD(3,6) no_wrap_wf [OF dD(2) [OF hd_in_set [OF dD(6)]]] by simp_all
  ultimately have "0 < fr_offset (mk p)" by (auto simp: fr_wf_def word_less_nat_alt word_le_nat_alt)
  then have "\<forall>f \<in> set (frs_of view f1 q1). 0 < fr_offset f" unfolding F by simp
  moreover have "fq_ok view f1 q1"
    using ilist.step_ok [OF assms(1) ilist.fresh_ok [OF assms(1)] _ s(1)] dD(2) [OF ph(1)] e by blast
  ultimately have "\<forall>r \<in> set rs'. \<not> snd r"
    using ilist.never_completes [OF assms(1,2) _ _ _ assms(4) s(2)] v1 by simp
  then show ?thesis using s(3) q1(1) by simp
qed

theorem reordered_datagram_lost_witness:
  "\<exists>rs frs fq. process_all list_ops [(8, 8, True, 2), (0, 8, True, 1), (16, 4, False, 3), (0, 8, True, 1)] []
      (newfragQueue list_ops 0) = Some (Inr (rs, frs, fq)) \<and> length rs = 4 \<and> (\<forall>r \<in> set rs. \<not> snd r)"
proof -
  let ?ds = "[(0, 8, True, 1), (8, 8, True, 2), (16, 4, False, 3)] :: frag_pkt list"
  have d: "datagram ?ds 20" by (simp add: datagram_def no_wrap_def fr_wf_def mk_def createFragment_def)
  let ?ps = "[(0, 8, True, 1), (16, 4, False, 3), (0, 8, True, 1)] :: frag_pkt list"
  obtain rs frs fq where r: "process_all list_ops ((8, 8, True, 2) # ?ps) [] (newfragQueue list_ops 0) = Some (Inr (rs, frs, fq))"
    and l: "length rs = 4"
    by (simp add: list_ops_def newfragQueue_def ProcessFragment_def FRAG_COMPLETE_def FRAG_LAST_IN_def
        createFragment_def Let_def find_place.simps succ_in_def back_of_def front_of_def)
  have "(8, 8, True, 2) \<in> set (tl ?ds)" "set ?ps \<subseteq> set ?ds" by simp_all
  from reordered_datagram_lost [OF list_ilist.ilist_axioms d this r] r l show ?thesis by blast
qed

text \<open>
  a repeated last fragment makes the process panic: when a datagram still misses a fragment and
  its last fragment arrives a second time, \<open>ProcessFragment\<close> does not return, whatever the buffers.
\<close>

theorem repeated_last_panics:
  assumes "ilist ops view" and "no_wrap (a, m, True, p)" and "no_wrap (b, k, False, q)" and "0 < k"
    and "a + m < b"
  shows "process_all ops [(a, m, True, p), (b, k, False, q), (b, k, False, q')] [] (newfragQueue ops now)
    = Some (Inl (PanicMsg ''over overlapped''))"
proof -
  let ?l0 = "il_Reset ops (il_zero ops)" and ?f = "createFragment a m True p" and ?g = "createFragment b k False q"
  let ?l1 = "il_PushFront ops 0 ?l0"
  let ?l2 = "il_PushBack ops 1 ?l1"
  note il = ilist.Reset [OF assms(1)] ilist.Empty [OF assms(1)] ilist.Back [OF assms(1)]
    ilist.PushFront [OF assms(1)] ilist.PushBack [OF assms(1)]
  have v: "view ?l0 = []" "view ?l1 = [0]" by (simp_all add: il)
  then have v2: "view ?l2 = [0, 1]" by (simp add: il)
  have o: "il_Empty ops ?l0" "\<not> il_Empty ops ?l1" "\<not> il_Empty ops ?l2" "il_Back ops ?l1 = Some 0" "il_Back ops ?l2 = Some 1"
    using v v2 by (simp_all add: il back_of_def)
  have am: "unat (a + m) = unat a + unat m" and bk: "unat (b + k) = unat b + unat k"
    using assms(2,3) by (simp_all add: no_wrap_def unat_word_ariths)
  have nb: "b \<noteq> m" using assms(5) am by (auto simp: word_less_nat_alt)
  have le: "\<not> b < a + m" using assms(5) by simp
  have gt: "b < b + k" using assms(4) bk by (simp add: word_less_nat_alt)
  have p1: "ProcessFragment ops a m True p [] (newfragQueue ops now)
      = Some (Inr ((True, False), [?f], \<lparr>fq_list = ?l1, fq_qLen = a + m, fq_meat = m, fq_flag = 0, fq_createTime = now\<rparr>))"
    using o by (simp add: ProcessFragment_def newfragQueue_def createFragment_def Let_def)
  have p2: "ProcessFragment ops b k False q [?f]
        \<lparr>fq_list = ?l1, fq_qLen = a + m, fq_meat = m, fq_flag = 0, fq_createTime = now\<rparr>
      = Some (Inr ((True, False), [?f, ?g],
          \<lparr>fq_list = ?l2, fq_qLen = b + k, fq_meat = m + k, fq_flag = 1, fq_createTime = now\<rparr>))"
    using o le nb by (simp add: ProcessFragment_def createFragment_def Let_def FRAG_LAST_IN_def)
  have p3: "ProcessFragment ops b k False q' [?f, ?g]
        \<lparr>fq_list = ?l2, fq_qLen = b + k, fq_meat = m + k, fq_flag = 1, fq_createTime = now\<rparr>
      = Some (Inl (PanicMsg ''over overlapped''))"
    using o gt by (simp add: ProcessFragment_def createFragment_def Let_def FRAG_COMPLETE_def)
  show ?thesis using p1 p2 p3 by simp
qed

theorem repeated_last_panics_witness:
  "process_all list_ops [(0, 8, True, 1), (16, 4, False, 3), (16, 4, False, 4)] [] (newfragQueue list_ops 0)
    = Some (Inl (PanicMsg ''over overlapped''))"
  by (rule repeated_last_panics [OF list_ilist.ilist_axioms]) (simp_all add: no_wrap_def)

end
