(* ===== verification/Nat_Headers.thy ===== *)
theory Nat_Headers
  imports Go_Slice
begin

text \<open>
  Package \<open>nat\<close>, files \<open>checksum.go\<close>, \<open>ipv4.go\<close>, \<open>udp.go\<close> and \<open>tcp.go\<close>: the Internet checksum and
  the fields of the headers that address translation reads and writes.
\<close>

section \<open>The Internet checksum\<close>

definition ChecksumCombine :: "u16 \<Rightarrow> u16 \<Rightarrow> u16" where
  "ChecksumCombine a b = (let v = (ucast a + ucast b :: u32) in ucast (v + drop_bit 16 v))"

fun csum_pairs :: "byte list \<Rightarrow> u32 \<Rightarrow> u32" where
  "csum_pairs (a # b # bs) v = csum_pairs bs (v + (push_bit 8 (ucast a) + ucast b))"
| "csum_pairs _ v = v"

definition Checksum :: "byte list \<Rightarrow> u16 \<Rightarrow> u16" where
  "Checksum buf initial =
     (let v = ucast initial;
          l = length buf;
          (l, v) = (if odd l then (l - 1, v + push_bit 8 (ucast (buf ! (l - 1)))) else (l, v));
          v = csum_pairs (take l buf) v
      in ChecksumCombine (ucast v) (ucast (drop_bit 16 v)))"

definition PseudoHeaderChecksum :: "byte \<Rightarrow> byte list \<Rightarrow> byte list \<Rightarrow> u16" where
  "PseudoHeaderChecksum protocol srcAddr dstAddr =
     (let xsum = Checksum srcAddr 0; xsum = Checksum dstAddr xsum in Checksum [0, protocol] xsum)"

section \<open>IPv4\<close>

definition IPv4MinimumSize :: nat where "IPv4MinimumSize = 20"
definition nat_IPv4Version :: byte where "nat_IPv4Version = 4"
definition IPv4FlagMoreFragments :: byte where "IPv4FlagMoreFragments = 1"
definition IPv4FlagDontFragment :: byte where "IPv4FlagDontFragment = 2"

definition nat_IPVersion :: "byte gslice \<Rightarrow> int res" where
  "nat_IPVersion b =
     (if sl_len b < 1 then Inr (- 1)
      else bind_res (sl_index b 0) (\<lambda>v. Inr (uint (drop_bit 4 v))))"

definition nat_IsIPv4 :: "byte gslice \<Rightarrow> bool res" where
  "nat_IsIPv4 b = bind_res (sl_index b 0) (\<lambda>v. Inr (drop_bit 4 v = nat_IPv4Version))"

definition nat_HeaderLength :: "byte gslice \<Rightarrow> byte res" where
  "nat_HeaderLength b = bind_res (sl_index b 0) (\<lambda>v. Inr ((v AND 0xf) * 4))"

definition ID :: "byte gslice \<Rightarrow> u16 res" where
  "ID b = sl_u16 b 4"

definition nat_Protocol :: "byte gslice \<Rightarrow> byte res" where
  "nat_Protocol b = sl_index b 9"

definition Flags :: "byte gslice \<Rightarrow> byte res" where
  "Flags b = bind_res (sl_u16 b 6) (\<lambda>v. Inr (ucast (drop_bit 13 v)))"

definition TTL :: "byte gslice \<Rightarrow> byte res" where
  "TTL b = sl_index b 8"

definition nat_FragmentOffset :: "byte gslice \<Rightarrow> u16 res" where
  "nat_FragmentOffset b = bind_res (sl_u16 b 6) (\<lambda>v. Inr (push_bit 3 v))"

definition TotalLength :: "byte gslice \<Rightarrow> u16 res" where
  "TotalLength b = sl_u16 b 2"

definition nat_SourceAddress :: "byte gslice \<Rightarrow> u32 res" where
  "nat_SourceAddress b = sl_u32 b 12"

definition nat_DestinationAddress :: "byte gslice \<Rightarrow> u32 res" where
  "nat_DestinationAddress b = sl_u32 b 16"

definition SourceAddrBuf :: "byte gslice \<Rightarrow> byte gslice res" where
  "SourceAddrBuf b = sl_slice b 12 16"

definition DestinationAddrBuf :: "byte gslice \<Rightarrow> byte gslice res" where
  "DestinationAddrBuf b = sl_slice b 16 20"

definition SetSourceAddress :: "byte gslice \<Rightarrow> u32 \<Rightarrow> byte gslice res" where
  "SetSourceAddress b ip = sl_put32 b 12 ip"

definition SetDestinationAddress :: "byte gslice \<Rightarrow> u32 \<Rightarrow> byte gslice res" where
  "SetDestinationAddress b ip = sl_put32 b 16 ip"

definition CalculateChecksum :: "byte gslice \<Rightarrow> u16 res" where
  "CalculateChecksum b =
     bind_res (nat_HeaderLength b) (\<lambda>hl.
     bind_res (sl_slice b 0 (unat hl)) (\<lambda>h. Inr (Checksum (sl_list h) 0)))"

definition SetChecksum :: "byte gslice \<Rightarrow> u16 \<Rightarrow> byte gslice res" where
  "SetChecksum b v = sl_put16 b 10 v"

section \<open>UDP\<close>

definition UDPMinimumSize :: nat where "UDPMinimumSize = 8"

definition nat_UDP_SourcePort :: "byte gslice \<Rightarrow> u16 res" where
  "nat_UDP_SourcePort b = sl_u16 b 0"

definition nat_UDP_DestinationPort :: "byte gslice \<Rightarrow> u16 res" where
  "nat_UDP_DestinationPort b = sl_u16 b 2"

definition UDP_Length :: "byte gslice \<Rightarrow> u16 res" where
  "UDP_Length b = sl_u16 b 4"

definition UDP_Payload :: "byte gslice \<Rightarrow> byte gslice res" where
  "UDP_Payload b = sl_from b UDPMinimumSize"

definition UDP_Checksum :: "byte gslice \<Rightarrow> u16 res" where
  "UDP_Checksum b = sl_u16 b 6"

definition UDP_SetSourcePort :: "byte gslice \<Rightarrow> u16 \<Rightarrow> byte gslice res" where
  "UDP_SetSourcePort b port = sl_put16 b 0 port"

definition UDP_SetDestinationPort :: "byte gslice \<Rightarrow> u16 \<Rightarrow> byte gslice res" where
  "UDP_SetDestinationPort b port = sl_put16 b 2 port"

definition UDP_SetChecksum :: "byte gslice \<Rightarrow> u16 \<Rightarrow> byte gslice res" where
  "UDP_SetChecksum b checksum = sl_put16 b 6 checksum"

definition UDP_CalculateChecksum :: "u16 \<Rightarrow> u16 \<Rightarrow> u16" where
  "UDP_CalculateChecksum partialChecksum totalLen = Checksum (bytes16 totalLen) partialChecksum"

definition UDP_CalChecksum :: "byte gslice \<Rightarrow> u16 \<Rightarrow> u16 \<Rightarrow> u16 res" where
  "UDP_CalChecksum b pseudoChecksum dataLen =
     bind_res (if dataLen \<noteq> 0 then Inr dataLen else UDP_Length b) (\<lambda>len.
     bind_res (sl_slice b 0 (unat len)) (\<lambda>d. Inr (Checksum (sl_list d) pseudoChecksum)))"

section \<open>TCP\<close>

definition nat_TCPFlagFin :: byte where "nat_TCPFlagFin = 1"
definition nat_TCPFlagSyn :: byte where "nat_TCPFlagSyn = 2"
definition nat_TCPFlagRst :: byte where "nat_TCPFlagRst = 4"
definition nat_TCPFlagAck :: byte where "nat_TCPFlagAck = 16"

definition nat_TCP_SourcePort :: "byte gslice \<Rightarrow> u16 res" where
  "nat_TCP_SourcePort b = sl_u16 b 0"

definition nat_TCP_DestinationPort :: "byte gslice \<Rightarrow> u16 res" where
  "nat_TCP_DestinationPort b = sl_u16 b 2"

definition nat_TCP_Flags :: "byte gslice \<Rightarrow> byte res" where
  "nat_TCP_Flags b = sl_index b 13"

definition nat_IsTCPFlagSyn :: "byte gslice \<Rightarrow> bool res" where
  "nat_IsTCPFlagSyn b = bind_res (nat_TCP_Flags b) (\<lambda>f. Inr (f = nat_TCPFlagSyn))"

definition nat_IsTCPFlagFin :: "byte gslice \<Rightarrow> bool res" where
  "nat_IsTCPFlagFin b = bind_res (nat_TCP_Flags b) (\<lambda>f. Inr (f = nat_TCPFlagFin))"

definition nat_IsTCPFlagRst :: "byte gslice \<Rightarrow> bool res" where
  "nat_IsTCPFlagRst b = bind_res (nat_TCP_Flags b) (\<lambda>f. Inr (f = nat_TCPFlagRst))"

definition nat_IsSyn :: "byte \<Rightarrow> bool" where
  "nat_IsSyn tcpFlag \<longleftrightarrow> tcpFlag = nat_TCPFlagSyn"

definition nat_IsAck :: "byte \<Rightarrow> bool" where
  "nat_IsAck tcpFlag \<longleftrightarrow> tcpFlag = nat_TCPFlagAck"

definition nat_IsSynAck :: "byte \<Rightarrow> bool" where
  "nat_IsSynAck tcpFlag \<longleftrightarrow> tcpFlag AND nat_TCPFlagSyn \<noteq> 0 \<and> tcpFlag AND nat_TCPFlagAck \<noteq> 0"

definition TCP_Checksum :: "byte gslice \<Rightarrow> u16 res" where
  "TCP_Checksum b = sl_u16 b 16"

definition TCP_SetSourcePort :: "byte gslice \<Rightarrow> u16 \<Rightarrow> byte gslice res" where
  "TCP_SetSourcePort b port = sl_put16 b 0 port"

definition TCP_SetDestinationPort :: "byte gslice \<Rightarrow> u16 \<Rightarrow> byte gslice res" where
  "TCP_SetDestinationPort b port = sl_put16 b 2 port"

definition TCP_SetChecksum :: "byte gslice \<Rightarrow> u16 \<Rightarrow> byte gslice res" where
  "TCP_SetChecksum b checksum = sl_put16 b 16 checksum"

definition TCP_DataOffset :: "byte gslice \<Rightarrow> byte res" where
  "TCP_DataOffset b = bind_res (sl_index b 12) (\<lambda>v. Inr (drop_bit 4 v * 4))"

definition TCP_CalculateChecksum :: "byte gslice \<Rightarrow> u16 \<Rightarrow> u16 \<Rightarrow> u16 res" where
  "TCP_CalculateChecksum b partialChecksum totalLen =
     (let checksum = Checksum (bytes16 totalLen) partialChecksum in
      bind_res (TCP_DataOffset b) (\<lambda>off.
      bind_res (sl_slice b 0 (unat off)) (\<lambda>h. Inr (Checksum (sl_list h) checksum))))"

end
