(* ===== verification/Nat_Conntrack.thy ===== *)
theory Nat_Conntrack
  imports Nat_Fragment Nat_Headers Timer_Pending Packet_Pool
begin

text \<open>
  Package \<open>nat\<close>, file \<open>conntrack.go\<close> and the tables of \<open>fragment.go\<close>: the connections that are
  translated. A \<open>*conntrack\<close>, a \<open>*netConntrack\<close> and a \<open>*fragQueue\<close> are addresses. \<open>'l\<close> is the type of
  the lists of \<open>ilist\<close>, \<open>'x\<close> the part of the packet buffers that the repository does not declare.
\<close>

section \<open>State\<close>

record nat_ctTuple =
  nt_saddr :: u32
  nt_daddr :: u32
  nt_sport :: u16
  nt_dport :: u16
  nt_proto :: byte

record fragInfo =
  fi_proto :: byte
  fi_id :: u16
  fi_sip :: u32
  fi_dip :: u32

definition nat_ctOrigin :: nat where "nat_ctOrigin = 0"
definition nat_ctReply :: nat where "nat_ctReply = 1"

definition nat_CT_NEW :: byte where "nat_CT_NEW = 0"
definition nat_CT_REPLY :: byte where "nat_CT_REPLY = 1"
definition nat_CT_ESTABLISHED :: byte where "nat_CT_ESTABLISHED = 2"
definition nat_CT_DEL :: byte where "nat_CT_DEL = 3"

definition nat_CT_TCP_ESTABLISHED_TIMEOUT :: int where "nat_CT_TCP_ESTABLISHED_TIMEOUT = 240"
definition nat_CT_DEL_TIMEOUT :: int where "nat_CT_DEL_TIMEOUT = 10"
definition nat_CT_UDP_NEW_TIMEOUT :: int where "nat_CT_UDP_NEW_TIMEOUT = 15"
definition nat_CT_UDP_ESTABLISHED_TIMEOUT :: int where "nat_CT_UDP_ESTABLISHED_TIMEOUT = 120"

definition snatFlag :: byte where "snatFlag = 1"
definition dnatFlag :: byte where "dnatFlag = 2"

record nat_conntrack =
  nk_status :: byte
  nk_stats :: "u64 list"
  nk_tuple :: "nat_ctTuple list"
  nk_timer :: "nat option"
  nk_nct :: "nat option"
  nk_time :: "int option"
  nk_lastTime :: "int option"
  nk_reported :: bool
  nk_outBound :: bool
  nk_natFlag :: byte

record nat_netConntrack =
  nz_netZone :: u16
  nz_conntracks :: "(nat_ctTuple \<times> nat) list"
  nz_fragTables :: "(fragInfo \<times> nat) list"

text \<open>The functions that timers call, with their arguments.\<close>

datatype nat_timeout = nat_ctTimeoutDel nat | nat_ctESTABLISHEDTimeout nat "u64 list"

record ('l, 'x) nat_state =
  na_cts :: "nat_conntrack list"
  na_ncts :: "nat_netConntrack list"
  na_globalConntrack :: "(u16 \<times> nat) list"
  na_fqs :: "'l fragQueue list"
  na_frags :: "fragment list"
  na_timers :: "nat_timeout timers"
  na_now :: int
  na_snatEnable :: bool
  na_snatIP :: u32
  na_pkts :: pkt_store
  na_ext :: 'x

definition nat_ct_at :: "('l, 'x) nat_state \<Rightarrow> nat \<Rightarrow> nat_conntrack" where
  "nat_ct_at s c = na_cts s ! c"

definition nat_upd_ct :: "nat \<Rightarrow> (nat_conntrack \<Rightarrow> nat_conntrack) \<Rightarrow> ('l, 'x) nat_state \<Rightarrow> ('l, 'x) nat_state" where
  "nat_upd_ct c f s = s\<lparr>na_cts := (na_cts s)[c := f (nat_ct_at s c)]\<rparr>"

definition nat_upd_nct ::
  "nat \<Rightarrow> (nat_netConntrack \<Rightarrow> nat_netConntrack) \<Rightarrow> ('l, 'x) nat_state \<Rightarrow> ('l, 'x) nat_state" where
  "nat_upd_nct n f s = s\<lparr>na_ncts := (na_ncts s)[n := f (na_ncts s ! n)]\<rparr>"

section \<open>Zones\<close>

definition newfragTable :: "(fragInfo \<times> nat) list" where
  "newfragTable = []"

definition nat_newNetConntrack :: "u16 \<Rightarrow> ('l, 'x) nat_state \<Rightarrow> nat \<times> ('l, 'x) nat_state" where
  "nat_newNetConntrack netZone s =
     (length (na_ncts s), s\<lparr>na_ncts := na_ncts s @
        [\<lparr>nz_netZone = netZone, nz_conntracks = [], nz_fragTables = newfragTable\<rparr>]\<rparr>)"

definition nat_SetNetZone :: "int \<Rightarrow> ('l, 'x) nat_state \<Rightarrow> ('l, 'x) nat_state" where
  "nat_SetNetZone netZone s =
     (let zone = word_of_int netZone in
      if map_of (na_globalConntrack s) zone = None then
        let (n, s) = nat_newNetConntrack zone s
        in s\<lparr>na_globalConntrack := AList.update zone n (na_globalConntrack s)\<rparr>
      else s)"

definition nat_SetNetZones :: "int list \<Rightarrow> ('l, 'x) nat_state \<Rightarrow> ('l, 'x) nat_state" where
  "nat_SetNetZones netZones s = fold nat_SetNetZone netZones s"

definition nat_DelNetZone :: "int \<Rightarrow> ('l, 'x) nat_state \<Rightarrow> ('l, 'x) nat_state" where
  "nat_DelNetZone netZone s =
     s\<lparr>na_globalConntrack := AList.delete (word_of_int netZone) (na_globalConntrack s)\<rparr>"

definition nat_DelNetZones :: "int list \<Rightarrow> ('l, 'x) nat_state \<Rightarrow> ('l, 'x) nat_state" where
  "nat_DelNetZones netZones s = fold nat_DelNetZone netZones s"

definition nat_setGlobalConntrack :: "int list \<Rightarrow> ('l, 'x) nat_state \<Rightarrow> ('l, 'x) nat_state" where
  "nat_setGlobalConntrack vids s =
     fold (\<lambda>i s. let (n, s) = nat_newNetConntrack (word_of_int i) s
        in s\<lparr>na_globalConntrack := AList.update (word_of_int i) n (na_globalConntrack s)\<rparr>) vids s"

definition nat_GetNctByZone :: "('l, 'x) nat_state \<Rightarrow> u16 \<Rightarrow> nat option" where
  "nat_GetNctByZone s zone = map_of (na_globalConntrack s) zone"

section \<open>The tables of a zone\<close>

definition nat_findConntrack :: "('l, 'x) nat_state \<Rightarrow> nat \<Rightarrow> nat_ctTuple \<Rightarrow> nat option" where
  "nat_findConntrack s n t = map_of (nz_conntracks (na_ncts s ! n)) t"

definition nat_addConntrack :: "nat \<Rightarrow> nat \<Rightarrow> ('l, 'x) nat_state \<Rightarrow> ('l, 'x) nat_state" where
  "nat_addConntrack n c s =
     (let t = nk_tuple (nat_ct_at s c);
          s = nat_upd_nct n (\<lambda>z. z\<lparr>nz_conntracks := AList.update (t ! nat_ctOrigin) c (nz_conntracks z)\<rparr>) s
      in nat_upd_nct n (\<lambda>z. z\<lparr>nz_conntracks := AList.update (t ! nat_ctReply) c (nz_conntracks z)\<rparr>) s)"

definition nat_delConntrack :: "nat \<Rightarrow> nat \<Rightarrow> ('l, 'x) nat_state \<Rightarrow> ('l, 'x) nat_state" where
  "nat_delConntrack n c s =
     (let t = nk_tuple (nat_ct_at s c);
          s = nat_upd_nct n (\<lambda>z. z\<lparr>nz_conntracks := AList.delete (t ! nat_ctOrigin) (nz_conntracks z)\<rparr>) s
      in nat_upd_nct n (\<lambda>z. z\<lparr>nz_conntracks := AList.delete (t ! nat_ctReply) (nz_conntracks z)\<rparr>) s)"

definition nat_Dir :: "nat_conntrack \<Rightarrow> nat_ctTuple \<Rightarrow> nat" where
  "nat_Dir ct t = (if nk_tuple ct ! nat_ctOrigin = t then nat_ctOrigin else nat_ctReply)"

definition nat_invert :: "nat_ctTuple \<Rightarrow> nat_ctTuple" where
  "nat_invert t = \<lparr>nt_saddr = nt_daddr t, nt_daddr = nt_saddr t, nt_sport = nt_dport t,
     nt_dport = nt_sport t, nt_proto = nt_proto t\<rparr>"

text \<open>Unlike in \<open>netstat\<close> a new connection is not entered yet: \<open>ctConfirm\<close> does that.\<close>

definition nat_CreateConntrack :: "nat \<Rightarrow> nat_ctTuple \<Rightarrow> ('l, 'x) nat_state \<Rightarrow> nat \<times> ('l, 'x) nat_state" where
  "nat_CreateConntrack n t s =
     (length (na_cts s), s\<lparr>na_cts := na_cts s @ [\<lparr>nk_status = nat_CT_NEW, nk_stats = [0, 0],
        nk_tuple = [t, nat_invert t], nk_timer = None, nk_nct = Some n, nk_time = Some (na_now s),
        nk_lastTime = None, nk_reported = False, nk_outBound = False, nk_natFlag = 0\<rparr>]\<rparr>)"

definition ctConfirm :: "nat \<Rightarrow> ('l, 'x) nat_state \<Rightarrow> ('l, 'x) nat_state res" where
  "ctConfirm c s =
     (case nk_nct (nat_ct_at s c) of None \<Rightarrow> Inl NilDeref | Some n \<Rightarrow> Inr (nat_addConntrack n c s))"

section \<open>The queues of fragments of a zone\<close>

definition fragQueueFind :: "('l, 'x) nat_state \<Rightarrow> nat \<Rightarrow> fragInfo \<Rightarrow> nat option" where
  "fragQueueFind s n fi = map_of (nz_fragTables (na_ncts s ! n)) fi"

definition fragQueueAdd :: "nat \<Rightarrow> fragInfo \<Rightarrow> nat \<Rightarrow> ('l, 'x) nat_state \<Rightarrow> ('l, 'x) nat_state" where
  "fragQueueAdd n fi q s =
     nat_upd_nct n (\<lambda>z. z\<lparr>nz_fragTables := AList.update fi q (nz_fragTables z)\<rparr>) s"

definition fragQueueDel :: "nat \<Rightarrow> fragInfo \<Rightarrow> ('l, 'x) nat_state \<Rightarrow> ('l, 'x) nat_state" where
  "fragQueueDel n fi s =
     nat_upd_nct n (\<lambda>z. z\<lparr>nz_fragTables := AList.delete fi (nz_fragTables z)\<rparr>) s"

section \<open>Timeouts\<close>

definition nat_getProtoEstablishTimeout :: "byte \<Rightarrow> int res" where
  "nat_getProtoEstablishTimeout p =
     (if p = 6 then Inr nat_CT_TCP_ESTABLISHED_TIMEOUT
      else if p = 17 then Inr nat_CT_UDP_ESTABLISHED_TIMEOUT
      else Inl (PanicMsg ''unknow proto''))"

text \<open>\<open>ct.timer = timer.NewTimerFunc(d, f)\<close>\<close>

definition nat_start_timer :: "nat \<Rightarrow> int \<Rightarrow> nat_timeout \<Rightarrow> ('l, 'x) nat_state \<Rightarrow> ('l, 'x) nat_state" where
  "nat_start_timer c d f s =
     (let (t, ts) = NewTimerFunc (na_now s) d f (na_timers s)
      in nat_upd_ct c (\<lambda>ct. ct\<lparr>nk_timer := Some t\<rparr>) (s\<lparr>na_timers := ts\<rparr>))"

definition nat_stop_timer :: "nat \<Rightarrow> ('l, 'x) nat_state \<Rightarrow> (bool \<times> ('l, 'x) nat_state) res" where
  "nat_stop_timer c s =
     (case nk_timer (nat_ct_at s c) of
        None \<Rightarrow> Inl NilDeref
      | Some t \<Rightarrow> let (ok, ts) = Timer_Stop t (na_timers s) in Inr (ok, s\<lparr>na_timers := ts\<rparr>))"

fun nat_run_timeout :: "nat_timeout \<Rightarrow> ('l, 'x) nat_state \<Rightarrow> ('l, 'x) nat_state res" where
  "nat_run_timeout (nat_ctTimeoutDel c) s =
     (let s = nat_upd_ct c (\<lambda>ct. ct\<lparr>nk_status := nat_CT_DEL\<rparr>) s in
      case nk_nct (nat_ct_at s c) of
        None \<Rightarrow> Inl NilDeref
      | Some n \<Rightarrow> Inr (nat_delConntrack n c s))"
| "nat_run_timeout (nat_ctESTABLISHEDTimeout c oldStats) s =
     (if nk_status (nat_ct_at s c) = nat_CT_DEL then Inr s
      else if oldStats \<noteq> nk_stats (nat_ct_at s c) then
        bind_res (nat_getProtoEstablishTimeout (nt_proto (nk_tuple (nat_ct_at s c) ! nat_ctOrigin))) (\<lambda>timeout.
        Inr (nat_start_timer c timeout (nat_ctESTABLISHEDTimeout c (nk_stats (nat_ct_at s c))) s))
      else
        let s = nat_upd_ct c (\<lambda>ct. ct\<lparr>nk_status := nat_CT_DEL, nk_lastTime := Some (na_now s)\<rparr>) s
        in Inr (nat_start_timer c nat_CT_DEL_TIMEOUT (nat_ctTimeoutDel c) s))"

definition nat_ctTCPHandShakeTimeout :: "nat \<Rightarrow> ('l, 'x) nat_state \<Rightarrow> ('l, 'x) nat_state res" where
  "nat_ctTCPHandShakeTimeout c s =
     (case nk_nct (nat_ct_at s c) of
        None \<Rightarrow> Inl NilDeref
      | Some n \<Rightarrow> Inr (nat_upd_ct c (\<lambda>ct. ct\<lparr>nk_status := nat_CT_DEL\<rparr>) (nat_delConntrack n c s)))"

end
