(* ===== verification/Nat_Checksum.thy ===== *)
theory Nat_Checksum
  imports Nat_Headers
begin

text \<open>
  The checksum of the code is the one's complement sum of RFC 1071: the 16-bit words of the buffer,
  the last one padded with zero, are added with the carry fed back into the lowest bit. A header
  that carries the complement of its sum verifies.
\<close>

section \<open>The reference\<close>

definition ones_add :: "u16 \<Rightarrow> u16 \<Rightarrow> u16" where
  "ones_add a b = (if unat a + unat b < 65536 then a + b else a + b + 1)"

fun words16 :: "byte list \<Rightarrow> u16 list" where
  "words16 (a # b # bs) = be16 a b # words16 bs"
| "words16 [a] = [be16 a 0]"
| "words16 [] = []"

definition ones_sum :: "byte list \<Rightarrow> u16 \<Rightarrow> u16" where
  "ones_sum buf initial = foldl ones_add initial (words16 buf)"

section \<open>Sums modulo 65535\<close>

text \<open>The representative of a sum: 0 only for the sum 0.\<close>

definition crep :: "nat \<Rightarrow> nat" where
  "crep n = (if n = 0 then 0 else (n - 1) mod 65535 + 1)"

lemma crep_less: "crep n < 65536"
  using mod_less_divisor [of 65535 "n - 1"] by (simp add: crep_def)

lemma crep_small: "n < 65536 \<Longrightarrow> crep n = n"
  by (cases n) (simp_all add: crep_def)

lemma crep_minus: "65535 < n \<Longrightarrow> crep (n - 65535) = crep n"
proof -
  assume "65535 < n"
  then have "n - 1 = (n - 65535 - 1) + 65535" by simp
  then have "(n - 1) mod 65535 = (n - 65535 - 1) mod 65535" by (metis mod_add_self2)
  then show ?thesis using \<open>65535 < n\<close> by (simp add: crep_def)
qed

lemma crep_pos: "0 < n \<Longrightarrow> 0 < crep n"
  by (simp add: crep_def)

lemma crep_decomp: "n = crep n + 65535 * ((n - 1) div 65535)"
  by (cases n) (simp_all add: crep_def)

lemma crep_shift: "0 < n \<Longrightarrow> crep (n + 65535 * k) = crep n"
proof -
  assume "0 < n"
  then obtain m where "n = Suc m" by (cases n) auto
  then show ?thesis by (simp add: crep_def)
qed

lemma crep_add: "crep (crep m + n) = crep (m + n)"
proof -
  obtain k where k: "m = crep m + 65535 * k" using crep_decomp [of m] by blast
  show ?thesis
  proof (cases "m = 0")
    case True
    then show ?thesis by (simp add: crep_def)
  next
    case False
    then have "crep (crep m + n) = crep (crep m + n + 65535 * k)" using crep_pos [of m] by (intro crep_shift [symmetric]) simp
    also have "crep m + n + 65535 * k = m + n" using k by linarith
    finally show ?thesis .
  qed
qed

lemma unat_ones_add: "unat (ones_add a b) = crep (unat a + unat b)"
proof -
  have l: "unat a < 65536" "unat b < 65536"
    using unsigned_less [of a, where ?'a = nat] unsigned_less [of b, where ?'a = nat] by simp_all
  show ?thesis
  proof (cases "unat a + unat b < 65536")
    case True
    then show ?thesis by (simp add: ones_add_def crep_small unat_word_ariths)
  next
    case False
    have s: "unat (a + b + 1) = (unat a + unat b + 1) mod 65536"
      by (simp add: unat_word_ariths mod_simps)
    have "unat a + unat b + 1 = (unat a + unat b - 65535) + 65536" using False by simp
    then have "(unat a + unat b + 1) mod 65536 = (unat a + unat b - 65535) mod 65536" by (metis mod_add_self2)
    also have "\<dots> = unat a + unat b - 65535" using l by (intro mod_less) linarith
    also have "\<dots> = crep (unat a + unat b - 65535)" using l by (intro crep_small [symmetric]) linarith
    also have "\<dots> = crep (unat a + unat b)" by (rule crep_minus) (use False in linarith)
    finally show ?thesis using s False by (simp add: ones_add_def)
  qed
qed

definition wsum :: "byte list \<Rightarrow> nat" where
  "wsum bs = sum_list (map unat (words16 bs))"

lemma wsum_simps [simp]:
  "wsum (a # b # bs) = unat (be16 a b) + wsum bs" "wsum [a] = unat (be16 a 0)" "wsum [] = 0"
  by (simp_all add: wsum_def)

lemma unat_ones_sum: "unat (ones_sum buf i) = crep (unat i + wsum buf)"
proof -
  have "unat (foldl ones_add i ws) = crep (unat i + sum_list (map unat ws))" for ws
  proof (induction ws arbitrary: i)
    case Nil
    then show ?case using unsigned_less [of i, where ?'a = nat] by (simp add: crep_small)
  next
    case (Cons w ws)
    then show ?case by (simp add: unat_ones_add crep_add add.assoc)
  qed
  then show ?thesis by (simp add: ones_sum_def wsum_def)
qed

section \<open>The loop of the code\<close>

lemma unat_pair: "unat (push_bit 8 (ucast a) + ucast b :: u32) = unat (be16 a b)"
proof -
  have l: "unat a < 256" "unat b < 256"
    using unsigned_less [of a, where ?'a = nat] unsigned_less [of b, where ?'a = nat] by simp_all
  have t: "take_bit 16 (unat a) = unat a" "take_bit 32 (unat a) = unat a"
    "take_bit 16 (unat b) = unat b" "take_bit 32 (unat b) = unat b"
    using l by (simp_all add: take_bit_nat_eq_self)
  have "unat (be16 a b) = unat a * 256 + unat b"
  proof -
    have "be16 a b = push_bit 8 (ucast a) + ucast b"
      unfolding be16_def by (rule disjunctive_add [symmetric]) (auto simp: bit_simps dest: bit_imp_le_length)
    moreover have "unat (push_bit 8 (ucast a) :: u16) = unat a * 256"
      using l by (simp add: push_bit_eq_mult unat_word_ariths unsigned_ucast_eq t)
    ultimately show ?thesis using l by (simp add: unat_word_ariths unsigned_ucast_eq t)
  qed
  moreover have "unat (push_bit 8 (ucast a) :: u32) = unat a * 256"
    using l by (simp add: push_bit_eq_mult unat_word_ariths unsigned_ucast_eq t)
  ultimately show ?thesis using l by (simp add: unat_word_ariths unsigned_ucast_eq t)
qed

lemma wsum_append: "even (length xs) \<Longrightarrow> wsum (xs @ ys) = wsum xs + wsum ys"
  by (induction xs rule: words16.induct) simp_all

lemma unat_csum_pairs:
  "even (length bs) \<Longrightarrow> unat v + wsum bs < 2 ^ 32 \<Longrightarrow> unat (csum_pairs bs v) = unat v + wsum bs"
proof (induction bs v rule: csum_pairs.induct)
  case (1 a b bs v)
  have "unat (v + (push_bit 8 (ucast a) + ucast b)) = unat v + unat (be16 a b)"
    using 1(3) unat_pair [of a b] by (subst unat_word_ariths) simp
  then show ?case using 1 by simp
qed simp_all

lemma wsum_bound: "wsum bs \<le> 65535 * ((length bs + 1) div 2)"
proof (induction bs rule: words16.induct)
  case (1 a b bs)
  have "unat (be16 a b) < 65536" using unsigned_less [of "be16 a b", where ?'a = nat] by simp
  then show ?case using 1 by simp
next
  case (2 a)
  have "unat (be16 a 0) < 65536" using unsigned_less [of "be16 a 0", where ?'a = nat] by simp
  then show ?case by simp
qed simp

lemma unat_drop_16: "unat (drop_bit 16 (x :: u32)) = unat x div 65536"
proof -
  have "take_bit 32 (unat x) = unat x"
    using unsigned_less [of x, where ?'a = nat] by (simp add: take_bit_nat_eq_self)
  then show ?thesis by (subst unsigned_drop_bit_eq) (simp add: drop_bit_eq_div)
qed

lemma unat_ChecksumCombine:
  "unat (ChecksumCombine (ucast v) (ucast (drop_bit 16 v))) = crep (unat (v :: u32))"
proof -
  define lo hi where "lo = unat v mod 65536" and "hi = unat v div 65536"
  have v: "unat v = hi * 65536 + lo" by (simp add: lo_def hi_def)
  have vl: "unat v < 4294967296" using unsigned_less [of v, where ?'a = nat] by simp
  then have l: "lo < 65536" "hi < 65536" by (simp_all add: lo_def hi_def less_mult_imp_div_less)
  have d: "unat (drop_bit 16 v) = hi" unfolding unat_drop_16 hi_def ..
  have a: "unat (ucast v :: u16) = lo"
    by (simp add: unsigned_ucast_eq take_bit_eq_mod lo_def)
  have b: "unat (ucast (drop_bit 16 v) :: u16) = hi"
    using l(2) by (simp add: unsigned_ucast_eq d take_bit_nat_eq_self)
  let ?s = "ucast (ucast v :: u16) + ucast (ucast (drop_bit 16 v) :: u16) :: u32"
  have s: "unat ?s = lo + hi"
  proof -
    have "unat (ucast (ucast v :: u16) :: u32) = lo" "unat (ucast (ucast (drop_bit 16 v) :: u16) :: u32) = hi"
      using l by (simp_all add: unsigned_ucast_eq [where ?'c = 32] a b take_bit_nat_eq_self)
    then show ?thesis using l by (subst unat_word_ariths) simp
  qed
  have ds: "unat (drop_bit 16 ?s) = (lo + hi) div 65536" unfolding unat_drop_16 s ..
  have r: "unat (ChecksumCombine (ucast v) (ucast (drop_bit 16 v))) = (lo + hi + (lo + hi) div 65536) mod 65536"
  proof -
    have "unat (?s + drop_bit 16 ?s) = lo + hi + (lo + hi) div 65536"
      using l s ds by (subst unat_word_ariths) simp
    then show ?thesis by (simp add: ChecksumCombine_def Let_def unsigned_ucast_eq take_bit_eq_mod)
  qed
  have c: "crep (unat v) = crep (lo + hi)"
  proof (cases "lo + hi = 0")
    case True
    then show ?thesis using v by simp
  next
    case False
    have e: "unat v = lo + hi + 65535 * hi" using v by simp
    show ?thesis unfolding e by (rule crep_shift) (use False in simp)
  qed
  show ?thesis
  proof (cases "lo + hi < 65536")
    case True
    then show ?thesis using r c by (simp add: crep_small)
  next
    case False
    then have q: "(lo + hi) div 65536 = 1" using l by (intro div_nat_eqI) simp_all
    have "lo + hi + 1 = (lo + hi - 65535) + 65536" using False by simp
    then have "(lo + hi + 1) mod 65536 = (lo + hi - 65535) mod 65536" by (metis mod_add_self2)
    also have "\<dots> = lo + hi - 65535" using l by (intro mod_less) linarith
    also have "\<dots> = crep (lo + hi - 65535)" using l by (intro crep_small [symmetric]) linarith
    also have "\<dots> = crep (lo + hi)" by (rule crep_minus) (use False in linarith)
    finally show ?thesis using r q c by simp
  qed
qed

text \<open>The sum of the code, for buffers that fit in the accumulator.\<close>

lemma unat_Checksum:
  assumes "length buf < 131072"
  shows "unat (Checksum buf i) = crep (unat i + wsum buf)"
proof -
  have i: "unat i < 65536" "unat (ucast i :: u32) = unat i"
    using unsigned_less [of i, where ?'a = nat] by (simp_all add: unsigned_ucast_eq take_bit_nat_eq_self)
  have "(length buf + 1) div 2 \<le> 65536" using assms by simp
  then have "wsum buf \<le> 65535 * 65536" using wsum_bound [of buf] by linarith
  then have b: "unat i + wsum buf < 2 ^ 32" using i by simp
  show ?thesis
  proof (cases "even (length buf)")
    case True
    then show ?thesis
      using unat_csum_pairs [of buf "ucast i"] b i by (simp add: Checksum_def Let_def unat_ChecksumCombine)
  next
    case False
    let ?l = "length buf - 1"
    have l: "?l < length buf" "even ?l" using False by (auto elim: oddE)
    then have "buf = take ?l buf @ [buf ! ?l]" by (metis Suc_diff_1 length_greater_0_conv less_zeroE order_refl take_Suc_conv_app_nth take_all list.size(3))
    moreover have "wsum (take ?l buf @ [buf ! ?l]) = wsum (take ?l buf) + unat (be16 (buf ! ?l) 0)"
      using l by (subst wsum_append) simp_all
    ultimately have w: "wsum buf = wsum (take ?l buf) + unat (be16 (buf ! ?l) 0)" by argo
    have "push_bit 8 (ucast (buf ! ?l)) + ucast (0 :: byte) = (push_bit 8 (ucast (buf ! ?l)) :: u32)" by simp
    then have p: "unat (push_bit 8 (ucast (buf ! ?l)) :: u32) = unat (be16 (buf ! ?l) 0)"
      using unat_pair [of "buf ! ?l" 0] by metis
    have v: "unat (ucast i + push_bit 8 (ucast (buf ! ?l)) :: u32) = unat i + unat (be16 (buf ! ?l) 0)"
      using p i b w by (subst unat_word_ariths) simp
    have "unat (csum_pairs (take ?l buf) (ucast i + push_bit 8 (ucast (buf ! ?l)))) = unat i + wsum buf"
      using v w b l by (subst unat_csum_pairs) simp_all
    then show ?thesis using False by (simp add: Checksum_def Let_def unat_ChecksumCombine)
  qed
qed

text \<open>
  C31: the checksum routine, which adds the words of the buffer in a 32-bit accumulator and folds it
  once at the end, computes the one's complement sum of RFC 1071, for every buffer shorter than
  128 KiB, of even or odd length, and for every initial value.
\<close>

theorem Checksum_is_ones_sum:
  assumes "length buf < 131072"
  shows "Checksum buf initial = ones_sum buf initial"
  by (rule unsigned_word_eqI [where ?'a = nat]) (simp add: unat_Checksum [OF assms] unat_ones_sum)

theorem Checksum_is_ones_sum_witness:
  "Checksum [0x45, 0xff, 0xff] 0xfffe = ones_sum [0x45, 0xff, 0xff] 0xfffe"
  by (rule Checksum_is_ones_sum) simp

section \<open>A header that verifies\<close>

text \<open>\<open>h.SetChecksum(0); h.SetChecksum(^h.CalculateChecksum())\<close>\<close>

definition renew_checksum :: "byte gslice \<Rightarrow> byte gslice res" where
  "renew_checksum b =
     bind_res (SetChecksum b 0) (\<lambda>b. bind_res (CalculateChecksum b) (\<lambda>c. SetChecksum b (NOT c)))"

lemma unat_complement: "unat (NOT (x :: u16)) = 65535 - unat x"
proof -
  have "NOT x = - 1 - x" by (simp add: not_eq_complement)
  moreover have "unat (- 1 - x) = unat (- 1 :: u16) - unat x" by (rule unat_sub) simp
  ultimately show ?thesis by (simp add: unsigned_minus_1_eq_mask mask_eq_exp_minus_1)
qed

lemma wsum_field:
  assumes "i + 2 \<le> length bs" and "even i"
  shows "wsum (overwrite bs i (bytes16 v)) = wsum (take i bs) + unat v + wsum (drop (i + 2) bs)"
  using assms by (simp add: overwrite_def wsum_append bytes16_def)

lemma field_verifies:
  assumes l: "i + 2 \<le> length bs" "even i" "length bs < 131072"
  shows "Checksum (overwrite bs i (bytes16 (NOT (Checksum (overwrite bs i (bytes16 0)) 0)))) 0 = - 1"
proof -
  let ?c = "Checksum (overwrite bs i (bytes16 0)) 0"
  let ?n = "wsum (take i bs) + wsum (drop (i + 2) bs)"
  have c: "unat ?c = crep ?n"
    using l by (subst unat_Checksum) (simp_all add: wsum_field)
  have nc: "unat (NOT ?c) = 65535 - crep ?n"
    unfolding c [symmetric] by (rule unat_complement)
  have le: "crep ?n \<le> 65535" using crep_less [of ?n] by simp
  have "?n = crep ?n + 65535 * ((?n - 1) div 65535)" by (rule crep_decomp)
  then have s: "?n + (65535 - crep ?n) = 65535 + 65535 * ((?n - 1) div 65535)" using le by linarith
  have "unat (Checksum (overwrite bs i (bytes16 (NOT ?c))) 0) = crep (?n + (65535 - crep ?n))"
    using l by (subst unat_Checksum) (simp_all add: wsum_field nc ac_simps)
  also have "\<dots> = crep 65535" unfolding s by (rule crep_shift) simp
  also have "\<dots> = 65535" by (simp add: crep_small)
  finally show ?thesis
    by (intro unsigned_word_eqI [where ?'a = nat]) (simp add: unsigned_minus_1_eq_mask mask_eq_exp_minus_1)
qed

lemma header_length_multiple: "nat_HeaderLength b = Inr hl \<Longrightarrow> 4 dvd unat hl"
proof -
  assume "nat_HeaderLength b = Inr hl"
  then obtain v :: byte where v: "hl = (v AND 0xf) * 4" by (auto simp: nat_HeaderLength_def bind_res_eq_Inr)
  have "unat (v AND 0xf) < 16"
  proof -
    have "v AND 0xf = take_bit 4 v" by (simp add: take_bit_eq_mask mask_eq_exp_minus_1)
    then show ?thesis by (simp add: unsigned_take_bit_eq take_bit_nat_def)
  qed
  then have "unat hl = unat (v AND 0xf) * 4" unfolding v by (subst unat_word_ariths) simp
  then show ?thesis by simp
qed

lemma sl_slice_prefix:
  assumes "sl_wf s" and "n \<le> sl_len s"
  obtains t where "sl_slice s 0 n = Inr t" and "sl_list t = take n (sl_list s)"
  using assms by (intro that [of "s\<lparr>sl_off := sl_off s + 0, sl_len := n - 0\<rparr>"])
    (auto simp: sl_slice_def sl_cap_def sl_wf_def sl_list_def min_def)

lemma CalculateChecksum_eq:
  assumes "sl_wf b" and "nat_HeaderLength b = Inr hl" and "unat hl \<le> sl_len b"
  shows "CalculateChecksum b = Inr (Checksum (take (unat hl) (sl_list b)) 0)"
proof -
  obtain t where "sl_slice b 0 (unat hl) = Inr t" "sl_list t = take (unat hl) (sl_list b)"
    by (rule sl_slice_prefix [OF assms(1,3)])
  then show ?thesis using assms(2) by (simp add: CalculateChecksum_def)
qed

lemma take_overwrite:
  "i + length xs \<le> n \<Longrightarrow> n \<le> length bs \<Longrightarrow> take n (overwrite bs i xs) = overwrite (take n bs) i xs"
  by (cases "n = i") (auto simp: overwrite_def min_def drop_take)

lemma nat_HeaderLength_put:
  assumes "sl_wf b" and "0 < i" and "i + length bs \<le> sl_len b"
  shows "nat_HeaderLength (sl_put b i bs) = nat_HeaderLength b"
proof -
  have "sl_index (sl_put b i bs) 0 = sl_index b 0"
    using assms by (auto simp: sl_index_def sl_put_def sl_wf_def nth_overwrite)
  then show ?thesis by (simp add: nat_HeaderLength_def)
qed

lemma renew_checksum_ok:
  assumes "sl_wf b" and "nat_HeaderLength b = Inr hl" and "20 \<le> unat hl" and "unat hl \<le> sl_len b"
  obtains v where "renew_checksum b = Inr (sl_put b 10 (bytes16 v))"
    and "CalculateChecksum (sl_put b 10 (bytes16 v)) = Inr 0xffff"
proof -
  let ?bs = "take (unat hl) (sl_list b)"
  note n = assms(3)
  have l: "length (sl_list b) = sl_len b" by (rule length_sl_list [OF assms(1)])
  have b: "unat hl < 256" using unsigned_less [of hl, where ?'a = nat] by simp
  have put: "SetChecksum b v = Inr (sl_put b 10 (bytes16 v))" for v
    using n assms(1,4) by (simp add: SetChecksum_def sl_put16_ok)
  let ?b0 = "sl_put b 10 (bytes16 0)"
  define c where "c = Checksum (overwrite ?bs 10 (bytes16 0)) 0"
  have calc: "CalculateChecksum (sl_put b 10 (bytes16 v)) = Inr (Checksum (overwrite ?bs 10 (bytes16 v)) 0)" for v
  proof -
    have "CalculateChecksum (sl_put b 10 (bytes16 v))
        = Inr (Checksum (take (unat hl) (sl_list (sl_put b 10 (bytes16 v)))) 0)"
      by (rule CalculateChecksum_eq) (use n assms in \<open>simp_all add: nat_HeaderLength_put\<close>)
    then show ?thesis using n assms l by (simp add: sl_put_list take_overwrite)
  qed
  have two: "sl_put ?b0 10 (bytes16 v) = sl_put b 10 (bytes16 v)" for v
    using n assms(1,4) by (auto simp: sl_put_def overwrite_def sl_wf_def min_def)
  have "SetChecksum ?b0 v = Inr (sl_put b 10 (bytes16 v))" for v
    using n assms(1,4) by (simp add: SetChecksum_def sl_put16_ok two)
  then have r: "renew_checksum b = Inr (sl_put b 10 (bytes16 (NOT c)))"
    by (simp add: renew_checksum_def put calc c_def)
  have "Checksum (overwrite ?bs 10 (bytes16 (NOT c))) 0 = 0xffff"
    using field_verifies [of 10 ?bs] n b l assms(4) by (simp add: c_def)
  then show thesis using r calc [of "NOT c"] by (intro that) simp_all
qed

text \<open>
  after the two calls of \<open>SetChecksum\<close> the header verifies: its one's complement sum, options
  included, is all ones, and nothing but the checksum field has changed.
\<close>

theorem renewed_header_verifies:
  assumes "sl_wf b" and "nat_HeaderLength b = Inr hl" and "IPv4MinimumSize \<le> unat hl" and "unat hl \<le> sl_len b"
  shows "\<exists>v b'. renew_checksum b = Inr b' \<and> CalculateChecksum b' = Inr 0xffff
    \<and> sl_list b' = overwrite (sl_list b) 10 (bytes16 v) \<and> sl_wf b'"
proof -
  have n: "20 \<le> unat hl" using assms(3) by (simp add: IPv4MinimumSize_def)
  obtain v where "renew_checksum b = Inr (sl_put b 10 (bytes16 v))" "CalculateChecksum (sl_put b 10 (bytes16 v)) = Inr 0xffff"
    by (rule renew_checksum_ok [OF assms(1,2) n assms(4)])
  then show ?thesis using n assms by (intro exI [of _ v]) (simp add: sl_put_list)
qed

theorem renewed_header_verifies_witness:
  "\<exists>v b'. renew_checksum (sl_of_list (0x45 # replicate 30 7)) = Inr b' \<and> CalculateChecksum b' = Inr 0xffff
    \<and> sl_list b' = overwrite (0x45 # replicate 30 7) 10 (bytes16 v) \<and> sl_wf b'"
proof -
  have "nat_HeaderLength (sl_of_list (0x45 # replicate 30 7)) = Inr 20"
    by (simp add: nat_HeaderLength_def sl_index_def sl_of_list_def)
  from renewed_header_verifies [OF _ this] show ?thesis
    by (simp add: IPv4MinimumSize_def sl_of_list_def sl_list_def sl_wf_def)
qed

end
