(* ===== verification/Nat_Snat.thy ===== *)
theory Nat_Snat
  imports Nat_Conntrack Nat_Checksum Packet_Ether
begin

text \<open>
  Package \<open>nat\<close>, file \<open>snat.go\<close>: the source address of the UDP packets of a zone is replaced by one
  address of the host, and the replies are translated back. A handler runs as a whole. The methods
  of \<open>*packet.PktBuf\<close> that the package calls and the repository does not have are an argument.
\<close>

section \<open>The methods of other packages\<close>

record 'x pkt_ext =
  px_NetworkDataLen :: "PktBuf \<Rightarrow> u16"
  px_SetNext :: "nat \<Rightarrow> nat \<Rightarrow> 'x \<Rightarrow> 'x"
  px_Next :: "'x \<Rightarrow> nat \<Rightarrow> nat option"
  px_SetCt :: "nat \<Rightarrow> nat \<Rightarrow> 'x \<Rightarrow> 'x"
  px_GetCt :: "'x \<Rightarrow> nat \<Rightarrow> nat option"
  px_SetDir :: "nat \<Rightarrow> int \<Rightarrow> 'x \<Rightarrow> 'x"
  px_GetDir :: "'x \<Rightarrow> nat \<Rightarrow> int"
  px_PutPktToPool :: "nat \<Rightarrow> pkt_store \<Rightarrow> pkt_store res"

definition ACCEPT :: int where "ACCEPT = 0"
definition DROP :: int where "DROP = 1"
definition STOLEN :: int where "STOLEN = 2"

lemmas verdict_defs = ACCEPT_def DROP_def STOLEN_def

definition nat_IPv4ProtocolNumber :: u16 where "nat_IPv4ProtocolNumber = 0x0800"
definition nat_ARPProtocolNumber :: u16 where "nat_ARPProtocolNumber = 0x0806"
definition nat_ICMPProtocolNumber :: byte where "nat_ICMPProtocolNumber = 1"
definition nat_TCPProtocolNumber :: byte where "nat_TCPProtocolNumber = 6"
definition nat_UDPProtocolNumber :: byte where "nat_UDPProtocolNumber = 17"

text \<open>\<open>SetSnatIP\<close>, with the bytes of \<open>net.ParseIP(ip)\<close> and of its \<open>To4()\<close>; \<open>log.Fatalf\<close> ends the process.\<close>

definition SetSnatIP :: "bool \<Rightarrow> byte list option \<Rightarrow> ('l, 'x) nat_state \<Rightarrow> ('l, 'x) nat_state res" where
  "SetSnatIP enable ipaddr s =
     (let s = s\<lparr>na_snatEnable := enable\<rparr> in
      case ipaddr of
        None \<Rightarrow> Inl (PanicMsg ''Bad IP address'')
      | Some b \<Rightarrow> bind_res (Uint32_at b 0) (\<lambda>ip. Inr (s\<lparr>na_snatIP := ip\<rparr>)))"

definition nat_IsEnable :: "('l, 'x) nat_state \<Rightarrow> bool" where
  "nat_IsEnable s = na_snatEnable s"

section \<open>The tuple of a packet\<close>

definition nat_getTCPTuple :: "PktBuf \<Rightarrow> nat_ctTuple res" where
  "nat_getTCPTuple pkb =
     bind_res (LoadNetworkData pkb) (\<lambda>ipHeader.
     bind_res (nat_SourceAddress ipHeader) (\<lambda>saddr.
     bind_res (nat_DestinationAddress ipHeader) (\<lambda>daddr.
     bind_res (nat_Protocol ipHeader) (\<lambda>proto.
     bind_res (LoadTransportData pkb) (\<lambda>transportHeader.
     bind_res (nat_TCP_SourcePort transportHeader) (\<lambda>sport.
     bind_res (nat_TCP_DestinationPort transportHeader) (\<lambda>dport.
     Inr \<lparr>nt_saddr = saddr, nt_daddr = daddr, nt_sport = sport, nt_dport = dport,
          nt_proto = proto\<rparr>)))))))"

definition nat_getUDPTuple :: "PktBuf \<Rightarrow> nat_ctTuple res" where
  "nat_getUDPTuple pkb =
     bind_res (LoadNetworkData pkb) (\<lambda>ipHeader.
     bind_res (nat_SourceAddress ipHeader) (\<lambda>saddr.
     bind_res (nat_DestinationAddress ipHeader) (\<lambda>daddr.
     bind_res (nat_Protocol ipHeader) (\<lambda>proto.
     bind_res (LoadTransportData pkb) (\<lambda>transportHeader.
     bind_res (nat_UDP_SourcePort transportHeader) (\<lambda>sport.
     bind_res (nat_UDP_DestinationPort transportHeader) (\<lambda>dport.
     Inr \<lparr>nt_saddr = saddr, nt_daddr = daddr, nt_sport = sport, nt_dport = dport,
          nt_proto = proto\<rparr>)))))))"

section \<open>A unique tuple for the replies\<close>

text \<open>The loop: the port is increased, with wrap-around, while the tuple is taken.\<close>

partial_function (option) unique_tuple :: "(nat_ctTuple \<times> nat) list \<Rightarrow> nat_ctTuple \<Rightarrow> nat_ctTuple option" where
  "unique_tuple cts t =
     (if map_of cts t = None then Some t else unique_tuple cts (t\<lparr>nt_dport := nt_dport t + 1\<rparr>))"

definition getUniqueTuple :: "'x pkt_ext \<Rightarrow> nat \<Rightarrow> ('l, 'x) nat_state \<Rightarrow> (bool \<times> ('l, 'x) nat_state) run" where
  "getUniqueTuple px a s =
     (case px_GetCt px (na_ext s) a of
        None \<Rightarrow> Some (Inl (PanicMsg ''ct == nil''))
      | Some c \<Rightarrow>
          let replyTuple = (nk_tuple (nat_ct_at s c) ! nat_ctReply)\<lparr>nt_daddr := na_snatIP s\<rparr> in
          case nk_nct (nat_ct_at s c) of
            None \<Rightarrow> Some (Inl NilDeref)
          | Some n \<Rightarrow>
              (case unique_tuple (nz_conntracks (na_ncts s ! n)) replyTuple of
                 None \<Rightarrow> None
               | Some t \<Rightarrow>
                   let s = nat_upd_ct c (\<lambda>ct. ct\<lparr>nk_tuple := (nk_tuple ct)[nat_ctReply := t],
                         nk_natFlag := snatFlag\<rparr>) s
                   in Some (bind_res (ctConfirm c s) (\<lambda>s. Inr (True, s)))))"

section \<open>The translation\<close>

definition rDir :: "int \<Rightarrow> nat" where
  "rDir dir = (if dir = 0 then 1 else 0)"

text \<open>
  A slice of the buffer of a packet is a window on the array, which every write changes: \<open>window\<close> is
  the slice on the array as it is now, \<open>written\<close> the packet after a write through the slice.
\<close>

definition window :: "PktBuf \<Rightarrow> byte gslice \<Rightarrow> byte gslice" where
  "window pkb b = b\<lparr>sl_arr := pb_buf pkb\<rparr>"

definition written :: "PktBuf \<Rightarrow> byte gslice res \<Rightarrow> PktBuf res" where
  "written pkb r = bind_res r (\<lambda>b. Inr (pkb\<lparr>pb_buf := sl_arr b\<rparr>))"

text \<open>The addresses and ports of the first (or only) packet.\<close>

definition nat_rewrite :: "bool \<Rightarrow> nat_ctTuple \<Rightarrow> nat_ctTuple \<Rightarrow> byte gslice \<Rightarrow> byte gslice \<Rightarrow> PktBuf \<Rightarrow> PktBuf res" where
  "nat_rewrite doSnat td tr ip udp pkb =
     (if doSnat then
        bind_res (written pkb (SetSourceAddress (window pkb ip) (nt_daddr tr))) (\<lambda>pkb.
        if nt_sport td \<noteq> nt_dport tr
        then written pkb (UDP_SetSourcePort (window pkb udp) (nt_dport tr)) else Inr pkb)
      else
        bind_res (written pkb (SetDestinationAddress (window pkb ip) (nt_saddr tr))) (\<lambda>pkb.
        written pkb (UDP_SetDestinationPort (window pkb udp) (nt_sport tr))))"

text \<open>\<open>doNat\<close> of one UDP packet, up to the loop over the further fragments, with the checksum
  so far and the slice of the UDP header.\<close>

definition nat_first :: "bool \<Rightarrow> nat_ctTuple \<Rightarrow> nat_ctTuple \<Rightarrow> PktBuf \<Rightarrow> (u16 \<times> byte gslice \<times> PktBuf) res" where
  "nat_first doSnat td tr pkb =
     bind_res (LoadNetworkData pkb) (\<lambda>ip.
     bind_res (TotalLength ip) (\<lambda>total.
     bind_res (nat_HeaderLength ip) (\<lambda>hl.
     let len = total - ucast hl in
     bind_res (LoadTransportData pkb) (\<lambda>udp.
     bind_res (nat_rewrite doSnat td tr ip udp pkb) (\<lambda>pkb.
     bind_res (written pkb (renew_checksum (window pkb ip))) (\<lambda>pkb.
     bind_res (written pkb (UDP_SetChecksum (window pkb udp) 0)) (\<lambda>pkb.
     bind_res (SourceAddrBuf (window pkb ip)) (\<lambda>src.
     bind_res (DestinationAddrBuf (window pkb ip)) (\<lambda>dst.
     let xsum = PseudoHeaderChecksum nat_UDPProtocolNumber (sl_list src) (sl_list dst);
         xsum = UDP_CalculateChecksum xsum len in
     bind_res (UDP_CalChecksum (window pkb udp) xsum len) (\<lambda>xsum. Inr (xsum, udp, pkb)))))))))))"

text \<open>A further fragment: its source address is set, in either direction.\<close>

definition nat_further :: "nat_ctTuple \<Rightarrow> u16 \<Rightarrow> PktBuf \<Rightarrow> (u16 \<times> PktBuf) res" where
  "nat_further tr xsum npkb =
     bind_res (LoadNetworkData npkb) (\<lambda>ip.
     bind_res (written npkb (SetSourceAddress (window npkb ip) (nt_daddr tr))) (\<lambda>npkb.
     bind_res (written npkb (renew_checksum (window npkb ip))) (\<lambda>npkb.
     bind_res (nat_HeaderLength (window npkb ip)) (\<lambda>hl.
     let npkb = SetTransportHeader npkb (uint hl) in
     bind_res (LoadTransportData npkb) (\<lambda>d. Inr (Checksum (sl_list d) xsum, npkb))))))"

definition nat_upd_pkt :: "nat \<Rightarrow> PktBuf \<Rightarrow> ('l, 'x) nat_state \<Rightarrow> ('l, 'x) nat_state" where
  "nat_upd_pkt a pkb s = s\<lparr>na_pkts := upd_pkt a (\<lambda>_. pkb) (na_pkts s)\<rparr>"

partial_function (option) nat_chain ::
  "'x pkt_ext \<Rightarrow> nat_ctTuple \<Rightarrow> nat option \<Rightarrow> u16 \<Rightarrow> ('l, 'x) nat_state \<Rightarrow> ('l, 'x) nat_state run"
where
  "nat_chain px tr npkb xsum s =
     (case npkb of
        None \<Rightarrow> Some (Inr s)
      | Some a \<Rightarrow>
          case nat_further tr xsum (pkt (na_pkts s) a) of
            Inl e \<Rightarrow> Some (Inl e)
          | Inr (xsum, pkb) \<Rightarrow>
              nat_chain px tr (px_Next px (na_ext s) a) xsum (nat_upd_pkt a pkb s))"

definition doNat :: "'x pkt_ext \<Rightarrow> nat \<Rightarrow> ('l, 'x) nat_state \<Rightarrow> ('l, 'x) nat_state run" where
  "doNat px a s =
     (case px_GetCt px (na_ext s) a of
        None \<Rightarrow> Some (Inl (PanicMsg ''ct == nil''))
      | Some c \<Rightarrow>
          let ct = nat_ct_at s c in
          if nk_natFlag ct = 0 then Some (Inr s)
          else
            let dir = px_GetDir px (na_ext s) a; rdir = rDir dir in
            if nk_natFlag ct \<noteq> snatFlag then Some (Inr s)
            else if nt_proto (nk_tuple ct ! nat_ctOrigin) \<noteq> nat_UDPProtocolNumber then Some (Inr s)
            else
              case nat_first (dir = int nat_ctOrigin) (nk_tuple ct ! nat dir) (nk_tuple ct ! rdir) (pkt (na_pkts s) a) of
                Inl e \<Rightarrow> Some (Inl e)
              | Inr (xsum, udp, pkb) \<Rightarrow>
                  bind_run (nat_chain px (nk_tuple ct ! rdir) (px_Next px (na_ext s) a) xsum (nat_upd_pkt a pkb s)) (\<lambda>s.
                  let pkb = pkt (na_pkts s) a in
                  Some (bind_res (written pkb (UDP_SetChecksum (window pkb udp) 0)) (\<lambda>pkb. Inr (nat_upd_pkt a pkb s)))))"

section \<open>The handlers\<close>

definition nat_count_bytes :: "nat \<Rightarrow> nat \<Rightarrow> u64 \<Rightarrow> ('l, 'x) nat_state \<Rightarrow> ('l, 'x) nat_state" where
  "nat_count_bytes c dir pktLen s =
     nat_upd_ct c (\<lambda>ct. ct\<lparr>nk_stats := (nk_stats ct)[dir := nk_stats ct ! dir + pktLen]\<rparr>) s"

definition udp_new :: "'x pkt_ext \<Rightarrow> nat \<Rightarrow> nat \<Rightarrow> nat_ctTuple \<Rightarrow> u64 \<Rightarrow> ('l, 'x) nat_state \<Rightarrow> (int \<times> ('l, 'x) nat_state) run" where
  "udp_new px n a tuple pktLen s =
     (let (c, s) = nat_CreateConntrack n tuple s;
          s = s\<lparr>na_ext := px_SetCt px a c (na_ext s)\<rparr>
      in bind_run (getUniqueTuple px a s) (\<lambda>(ok, s).
         if \<not> ok then Some (Inl (PanicMsg ''getUniqueTuple fail''))
         else bind_run (doNat px a s) (\<lambda>s.
           let s = nat_count_bytes c nat_ctOrigin pktLen s
           in Some (Inr (ACCEPT, nat_start_timer c nat_CT_UDP_NEW_TIMEOUT (nat_ctTimeoutDel c) s)))))"

definition udp_known :: "'x pkt_ext \<Rightarrow> nat \<Rightarrow> nat \<Rightarrow> nat_ctTuple \<Rightarrow> u64 \<Rightarrow> ('l, 'x) nat_state \<Rightarrow> (int \<times> ('l, 'x) nat_state) run" where
  "udp_known px c a tuple pktLen s =
     (let s = s\<lparr>na_ext := px_SetCt px a c (na_ext s)\<rparr>;
          dir = nat_Dir (nat_ct_at s c) tuple;
          s = s\<lparr>na_ext := px_SetDir px a (int dir) (na_ext s)\<rparr>
      in bind_run (doNat px a s) (\<lambda>s.
         let s = nat_count_bytes c dir pktLen s in
         if nk_status (nat_ct_at s c) = nat_CT_ESTABLISHED then Some (Inr (ACCEPT, s))
         else if dir = nat_ctReply then
           Some (bind_res (nat_stop_timer c s) (\<lambda>(ok, s).
             if ok then
               let s = nat_upd_ct c (\<lambda>ct. ct\<lparr>nk_status := nat_CT_ESTABLISHED\<rparr>) s
               in Inr (ACCEPT, nat_start_timer c nat_CT_UDP_ESTABLISHED_TIMEOUT
                    (nat_ctESTABLISHEDTimeout c (nk_stats (nat_ct_at s c))) s)
             else Inr (ACCEPT, s)))
         else Some (Inr (ACCEPT, s))))"

definition nat_udpHandler :: "'x pkt_ext \<Rightarrow> nat \<Rightarrow> ('l, 'x) nat_state \<Rightarrow> (int \<times> ('l, 'x) nat_state) run" where
  "nat_udpHandler px a s =
     (let pkb = pkt (na_pkts s) a; pktLen = ucast (GetDataLen pkb) in
      bind_run (Some (nat_getUDPTuple pkb)) (\<lambda>tuple.
      case nat_GetNctByZone s (GetPktVid pkb) of
        None \<Rightarrow> Some (Inr (DROP, s))
      | Some n \<Rightarrow>
          (case nat_findConntrack s n tuple of
             None \<Rightarrow> udp_new px n a tuple pktLen s
           | Some c \<Rightarrow> udp_known px c a tuple pktLen s)))"

definition nat_tcpHandler :: "'x pkt_ext \<Rightarrow> nat \<Rightarrow> ('l, 'x) nat_state \<Rightarrow> (int \<times> ('l, 'x) nat_state) run" where
  "nat_tcpHandler px a s = Some (Inr (ACCEPT, s))"

definition icmpHandler :: "'x pkt_ext \<Rightarrow> nat \<Rightarrow> ('l, 'x) nat_state \<Rightarrow> (int \<times> ('l, 'x) nat_state) run" where
  "icmpHandler px a s = Some (Inr (ACCEPT, s))"

definition nat_transportHandlers ::
  "(byte \<times> ('x pkt_ext \<Rightarrow> nat \<Rightarrow> ('l, 'x) nat_state \<Rightarrow> (int \<times> ('l, 'x) nat_state) run)) list" where
  "nat_transportHandlers = [(nat_TCPProtocolNumber, nat_tcpHandler), (nat_UDPProtocolNumber, nat_udpHandler),
     (nat_ICMPProtocolNumber, icmpHandler)]"

definition nat_transportProtos ::
  "byte \<Rightarrow> ('x pkt_ext \<Rightarrow> nat \<Rightarrow> ('l, 'x) nat_state \<Rightarrow> (int \<times> ('l, 'x) nat_state) run) option" where
  "nat_transportProtos = fold (\<lambda>(p, h) m. m(p \<mapsto> h)) nat_transportHandlers Map.empty"

text \<open>The buffers of a datagram of an unknown protocol go back to their pools.\<close>

partial_function (option) drop_chain ::
  "'x pkt_ext \<Rightarrow> nat option \<Rightarrow> ('l, 'x) nat_state \<Rightarrow> ('l, 'x) nat_state run"
where
  "drop_chain px p s =
     (case p of
        None \<Rightarrow> Some (Inr s)
      | Some a \<Rightarrow>
          case px_PutPktToPool px a (na_pkts s) of
            Inl e \<Rightarrow> Some (Inl e)
          | Inr ps \<Rightarrow> drop_chain px (px_Next px (na_ext s) a) (s\<lparr>na_pkts := ps\<rparr>))"

text \<open>A fragment enters its queue; \<open>Inl\<close> is a verdict, \<open>Inr\<close> the first buffer of a whole datagram.\<close>

definition ip_fragment ::
  "'l ilist_ops \<Rightarrow> 'x pkt_ext \<Rightarrow> byte gslice \<Rightarrow> u16 \<Rightarrow> bool \<Rightarrow> nat \<Rightarrow> ('l, 'x) nat_state \<Rightarrow>
   ((int + nat option) \<times> ('l, 'x) nat_state) run"
where
  "ip_fragment ops px ipHeader offset mor a s =
     (let pkb = pkt (na_pkts s) a in
      bind_run (Some (TotalLength ipHeader)) (\<lambda>total.
      if px_NetworkDataLen px pkb \<noteq> total then Some (Inl (PanicMsg ''pkb.NetworkDataLen()''))
      else
      bind_run (Some (nat_HeaderLength ipHeader)) (\<lambda>hl.
      let ipDataLen = total - ucast hl in
      case nat_GetNctByZone s (GetPktVid pkb) of
        None \<Rightarrow> Some (Inr (Inl DROP, s))
      | Some n \<Rightarrow>
          bind_run (Some (nat_SourceAddress ipHeader)) (\<lambda>sip.
          bind_run (Some (nat_DestinationAddress ipHeader)) (\<lambda>dip.
          bind_run (Some (ID ipHeader)) (\<lambda>ident.
          bind_run (Some (nat_Protocol ipHeader)) (\<lambda>proto.
          let fc = \<lparr>fi_proto = proto, fi_id = ident, fi_sip = sip, fi_dip = dip\<rparr>;
              (q, s) = (case fragQueueFind s n fc of
                  Some q \<Rightarrow> (q, s)
                | None \<Rightarrow>
                    let q = length (na_fqs s); s = s\<lparr>na_fqs := na_fqs s @ [newfragQueue ops (na_now s)]\<rparr>
                    in (q, fragQueueAdd n fc q s))
          in bind_run (ProcessFragment ops offset ipDataLen mor a (na_frags s) (na_fqs s ! q)) (\<lambda>((ok, done), frs, fq).
             let s = s\<lparr>na_frags := frs, na_fqs := (na_fqs s)[q := fq]\<rparr> in
             if \<not> ok then Some (Inr (Inl DROP, s))
             else
               let s = s\<lparr>na_pkts := HoldPktBuf a (na_pkts s)\<rparr> in
               if \<not> done then Some (Inr (Inl STOLEN, s))
               else bind_run (completed ops (px_SetNext px) frs fq (na_ext s)) (\<lambda>(hd_pkb, x).
                 Some (Inr (Inr hd_pkb, s\<lparr>na_ext := x\<rparr>)))))))))))"

text \<open>The end of \<open>ipHandler\<close>: \<open>ipHeader\<close> is still the header of the packet that has just come.\<close>

definition ip_deliver ::
  "'x pkt_ext \<Rightarrow> byte gslice \<Rightarrow> nat \<Rightarrow> ('l, 'x) nat_state \<Rightarrow> (int \<times> ('l, 'x) nat_state) run"
where
  "ip_deliver px ipHeader a s =
     bind_run (Some (nat_Protocol ipHeader)) (\<lambda>proto.
     case nat_transportProtos proto of
       None \<Rightarrow>
         if px_Next px (na_ext s) a \<noteq> None
         then bind_run (drop_chain px (Some a) s) (\<lambda>s. Some (Inr (DROP, s)))
         else Some (Inr (DROP, s))
     | Some handle \<Rightarrow>
         bind_run (Some (nat_HeaderLength ipHeader)) (\<lambda>hl.
         handle px a (nat_upd_pkt a (SetTransportHeader (pkt (na_pkts s) a) (uint hl)) s)))"

definition nat_ipHandler ::
  "'l ilist_ops \<Rightarrow> 'x pkt_ext \<Rightarrow> nat \<Rightarrow> ('l, 'x) nat_state \<Rightarrow> (int \<times> nat option \<times> ('l, 'x) nat_state) run"
where
  "nat_ipHandler ops px a s =
     bind_run (Some (LoadNetworkData (pkt (na_pkts s) a))) (\<lambda>ipHeader.
     bind_run (Some (nat_IsIPv4 ipHeader)) (\<lambda>v4.
     if \<not> v4 then Some (Inr (DROP, Some a, s))
     else
     bind_run (Some (nat_FragmentOffset ipHeader)) (\<lambda>offset.
     bind_run (Some (Flags ipHeader)) (\<lambda>flags.
     let mor = flags AND IPv4FlagMoreFragments \<noteq> 0 in
     if offset \<noteq> 0 \<or> mor then
       bind_run (ip_fragment ops px ipHeader offset mor a s) (\<lambda>(r, s).
       case r of
         Inl v \<Rightarrow> Some (Inr (v, Some a, s))
       | Inr None \<Rightarrow> Some (Inl NilDeref)
       | Inr (Some b) \<Rightarrow> bind_run (ip_deliver px ipHeader b s) (\<lambda>(v, s). Some (Inr (v, Some b, s))))
     else bind_run (ip_deliver px ipHeader a s) (\<lambda>(v, s). Some (Inr (v, Some a, s)))))))"

definition nat_arpHandler ::
  "'l ilist_ops \<Rightarrow> 'x pkt_ext \<Rightarrow> nat \<Rightarrow> ('l, 'x) nat_state \<Rightarrow> (int \<times> nat option \<times> ('l, 'x) nat_state) run"
where
  "nat_arpHandler ops px a s = Some (Inr (ACCEPT, Some a, s))"

definition nat_networkHandlers ::
  "(u16 \<times> ('l ilist_ops \<Rightarrow> 'x pkt_ext \<Rightarrow> nat \<Rightarrow> ('l, 'x) nat_state \<Rightarrow> (int \<times> nat option \<times> ('l, 'x) nat_state) run)) list"
where
  "nat_networkHandlers = [(nat_IPv4ProtocolNumber, nat_ipHandler), (nat_ARPProtocolNumber, nat_arpHandler)]"

definition nat_networkProtos ::
  "u16 \<Rightarrow> ('l ilist_ops \<Rightarrow> 'x pkt_ext \<Rightarrow> nat \<Rightarrow> ('l, 'x) nat_state \<Rightarrow> (int \<times> nat option \<times> ('l, 'x) nat_state) run) option"
where
  "nat_networkProtos = fold (\<lambda>(p, h) m. m(p \<mapsto> h)) nat_networkHandlers Map.empty"

definition nat_etherPktHandle ::
  "'l ilist_ops \<Rightarrow> 'x pkt_ext \<Rightarrow> nat \<Rightarrow> ('l, 'x) nat_state \<Rightarrow> (int \<times> nat option \<times> ('l, 'x) nat_state) run"
where
  "nat_etherPktHandle ops px a s =
     (let pkb = pkt (na_pkts s) a in
      bind_run (Some (LoadUserData pkb)) (\<lambda>etherData.
      bind_run (Some (TranEther etherData)) (\<lambda>etherHeader.
      case nat_networkProtos (GetProto etherHeader) of
        None \<Rightarrow> Some (Inr (DROP, Some a, s))
      | Some handle \<Rightarrow> handle ops px a (nat_upd_pkt a (SetNetworkHeader pkb (int EtherSize)) s))))"

definition DoNat ::
  "'l ilist_ops \<Rightarrow> 'x pkt_ext \<Rightarrow> nat \<Rightarrow> ('l, 'x) nat_state \<Rightarrow> (int \<times> nat option \<times> ('l, 'x) nat_state) run"
where
  "DoNat ops px a s =
     (if na_snatIP s = 0 then Some (Inr (ACCEPT, Some a, s)) else nat_etherPktHandle ops px a s)"

end
