(* ===== verification/Nat_Translate.thy ===== *)
theory Nat_Translate
  imports Nat_Snat
begin

text \<open>
  What the translation does to a UDP packet: the tuple before and after, the header checksum, and
  the bytes that stay.
\<close>

section \<open>Fields of the buffer\<close>

definition rd16 :: "byte list \<Rightarrow> nat \<Rightarrow> u16" where
  "rd16 B i = be16 (B ! i) (B ! (i + 1))"

definition rd32 :: "byte list \<Rightarrow> nat \<Rightarrow> u32" where
  "rd32 B i = be32 (B ! i) (B ! (i + 1)) (B ! (i + 2)) (B ! (i + 3))"

lemma rd16_overwrite:
  assumes "j + length bs \<le> length B" and "i + 2 \<le> length B"
  shows "i + 2 \<le> j \<or> j + length bs \<le> i \<Longrightarrow> rd16 (overwrite B j bs) i = rd16 B i"
    and "bs = bytes16 v \<Longrightarrow> i = j \<Longrightarrow> rd16 (overwrite B j bs) i = v"
  using assms by (auto simp: rd16_def nth_overwrite bytes16_def)

lemma rd32_overwrite:
  assumes "j + length bs \<le> length B" and "i + 4 \<le> length B"
  shows "i + 4 \<le> j \<or> j + length bs \<le> i \<Longrightarrow> rd32 (overwrite B j bs) i = rd32 B i"
    and "bs = bytes32 v \<Longrightarrow> i = j \<Longrightarrow> rd32 (overwrite B j bs) i = v"
  using assms by (auto simp: rd32_def nth_overwrite bytes32_def be32_bytes)

definition udp_tuple_of :: "byte list \<Rightarrow> nat \<Rightarrow> nat \<Rightarrow> nat_ctTuple" where
  "udp_tuple_of B n t = \<lparr>nt_saddr = rd32 B (n + 12), nt_daddr = rd32 B (n + 16), nt_sport = rd16 B t,
     nt_dport = rd16 B (t + 2), nt_proto = B ! (n + 9)\<rparr>"

text \<open>Where the headers are: the network header at \<open>n\<close>, the transport header at \<open>t\<close>.\<close>

definition geom :: "PktBuf \<Rightarrow> nat \<Rightarrow> nat \<Rightarrow> bool" where
  "geom pkb n t \<longleftrightarrow> pb_wf pkb \<and> pb_networkHeader pkb = int n \<and> pb_transportHeader pkb = int t
     \<and> n + 20 \<le> t \<and> t + 8 \<le> 1528"

definition win_from :: "PktBuf \<Rightarrow> nat \<Rightarrow> byte gslice" where
  "win_from pkb i = \<lparr>sl_arr = pb_buf pkb, sl_off = i, sl_len = 1528 - i\<rparr>"

lemma geom_loads:
  assumes "geom pkb n t"
  shows "LoadNetworkData pkb = Inr (win_from pkb n)" and "LoadTransportData pkb = Inr (win_from pkb t)"
    and "sl_wf (win_from pkb n)" and "sl_wf (win_from pkb t)" and "length (pb_buf pkb) = 1528"
proof -
  show l: "length (pb_buf pkb) = 1528" using assms by (simp add: geom_def pb_wf_length)
  show "LoadNetworkData pkb = Inr (win_from pkb n)" "LoadTransportData pkb = Inr (win_from pkb t)"
    "sl_wf (win_from pkb n)" "sl_wf (win_from pkb t)"
    using assms l by (auto simp: geom_def LoadNetworkData_def LoadTransportData_def buf_slice_def win_from_def
        sl_wf_def of_nat_diff)
qed

lemma win_from_simps [simp]:
  "sl_len (win_from pkb i) = 1528 - i" "sl_off (win_from pkb i) = i" "sl_arr (win_from pkb i) = pb_buf pkb"
  by (simp_all add: win_from_def)

lemma win_reads:
  assumes "sl_wf (win_from pkb i)"
  shows "i + k + 2 \<le> 1528 \<Longrightarrow> sl_u16 (win_from pkb i) k = Inr (rd16 (pb_buf pkb) (i + k))"
    and "i + k + 4 \<le> 1528 \<Longrightarrow> sl_u32 (win_from pkb i) k = Inr (rd32 (pb_buf pkb) (i + k))"
    and "i + k < 1528 \<Longrightarrow> sl_index (win_from pkb i) k = Inr (pb_buf pkb ! (i + k))"
  using assms sl_list_nth [OF assms]
  by (simp_all add: sl_u16_ok sl_u32_ok sl_index_ok rd16_def rd32_def add.assoc)

lemma getUDPTuple_at:
  assumes "geom pkb n t"
  shows "nat_getUDPTuple pkb = Inr (udp_tuple_of (pb_buf pkb) n t)"
  using assms geom_loads [OF assms]
  by (simp add: nat_getUDPTuple_def nat_SourceAddress_def nat_DestinationAddress_def nat_Protocol_def
      nat_UDP_SourcePort_def nat_UDP_DestinationPort_def win_reads udp_tuple_of_def geom_def)

lemma geom_buf: "geom pkb n t \<Longrightarrow> length B = 1528 \<Longrightarrow> geom (pkb\<lparr>pb_buf := B\<rparr>) n t"
  by (simp add: geom_def pb_wf_def pktBufSize_def)

section \<open>Writing\<close>

lemma window_from [simp]: "window pkb (win_from pkb' i) = win_from pkb i"
  by (simp add: window_def win_from_def)

lemma written_put:
  assumes "sl_wf (win_from pkb i)"
  shows "i + k + 2 \<le> 1528 \<Longrightarrow>
      written pkb (sl_put16 (win_from pkb i) k v) = Inr (pkb\<lparr>pb_buf := overwrite (pb_buf pkb) (i + k) (bytes16 v)\<rparr>)"
    and "i + k + 4 \<le> 1528 \<Longrightarrow>
      written pkb (sl_put32 (win_from pkb i) k w) = Inr (pkb\<lparr>pb_buf := overwrite (pb_buf pkb) (i + k) (bytes32 w)\<rparr>)"
  using assms by (simp_all add: written_def sl_put16_ok sl_put32_ok sl_put_def)

text \<open>A UDP packet whose lengths fit: what the handler finds in an intact datagram.\<close>

definition udp_ready :: "PktBuf \<Rightarrow> nat \<Rightarrow> nat \<Rightarrow> bool" where
  "udp_ready pkb n t \<longleftrightarrow> geom pkb n t \<and> unat ((pb_buf pkb ! n AND 0xf) * 4) = t - n
     \<and> t - n + 8 \<le> unat (rd16 (pb_buf pkb) (n + 2)) \<and> n + unat (rd16 (pb_buf pkb) (n + 2)) \<le> 1528"

definition rewritten :: "bool \<Rightarrow> nat_ctTuple \<Rightarrow> byte list \<Rightarrow> nat \<Rightarrow> nat \<Rightarrow> byte list" where
  "rewritten doSnat tr B n t =
     (if doSnat then overwrite (overwrite B (n + 12) (bytes32 (nt_daddr tr))) t (bytes16 (nt_dport tr))
      else overwrite (overwrite B (n + 16) (bytes32 (nt_saddr tr))) (t + 2) (bytes16 (nt_sport tr)))"

lemma overwrite_same:
  assumes "i + 2 \<le> length B"
  shows "overwrite B i (bytes16 (rd16 B i)) = B"
proof (rule nth_equalityI)
  fix k
  assume "k < length (overwrite B i (bytes16 (rd16 B i)))"
  then have "k < length B" using assms by simp
  then show "overwrite B i (bytes16 (rd16 B i)) ! k = B ! k"
    using assms by (auto simp: nth_overwrite bytes16_def rd16_def nth_Cons' less_Suc_eq)
qed (use assms in simp)

lemma nat_rewrite_ok:
  assumes g: "geom pkb n t" and p: "rd16 (pb_buf pkb) t = nt_sport td"
  shows "nat_rewrite doSnat td tr (win_from pkb n) (win_from pkb t) pkb
    = Inr (pkb\<lparr>pb_buf := rewritten doSnat tr (pb_buf pkb) n t\<rparr>)"
proof -
  have b: "n + 20 \<le> t" "t + 8 \<le> 1528" "length (pb_buf pkb) = 1528" using g geom_loads(5) [OF g] by (simp_all add: geom_def)
  let ?p1 = "pkb\<lparr>pb_buf := overwrite (pb_buf pkb) (n + 12) (bytes32 (nt_daddr tr))\<rparr>"
  let ?p2 = "pkb\<lparr>pb_buf := overwrite (pb_buf pkb) (n + 16) (bytes32 (nt_saddr tr))\<rparr>"
  have g1: "geom ?p1 n t" "geom ?p2 n t" using b by (simp_all add: geom_buf [OF g])
  have same: "overwrite (pb_buf ?p1) t (bytes16 (nt_sport td)) = pb_buf ?p1"
    using overwrite_same [of t "pb_buf ?p1"] b p by (simp add: rd16_overwrite)
  show ?thesis
    using geom_loads(3,4) [OF g] geom_loads(3,4) [OF g1(1)] geom_loads(3,4) [OF g1(2)] b same
    by (auto simp: nat_rewrite_def rewritten_def SetSourceAddress_def SetDestinationAddress_def UDP_SetSourcePort_def
        UDP_SetDestinationPort_def written_put)
qed

lemma rewritten_length: "geom pkb n t \<Longrightarrow> length (rewritten d tr (pb_buf pkb) n t) = 1528"
  using geom_loads(5) [of pkb n t] by (simp add: rewritten_def geom_def)

lemma HeaderLength_at:
  "sl_wf (win_from pkb n) \<Longrightarrow> n < 1528 \<Longrightarrow> nat_HeaderLength (win_from pkb n) = Inr ((pb_buf pkb ! n AND 0xf) * 4)"
  using win_reads(3) [of pkb n 0] by (simp add: nat_HeaderLength_def)

text \<open>The checksum of the header does not depend on what is behind the header.\<close>

lemma CalculateChecksum_beyond:
  assumes g: "geom pkb n t" and hl: "unat ((pb_buf pkb ! n AND 0xf) * 4) = t - n"
    and k: "t \<le> k" "k + length bs \<le> 1528"
  shows "CalculateChecksum (win_from (pkb\<lparr>pb_buf := overwrite (pb_buf pkb) k bs\<rparr>) n) = CalculateChecksum (win_from pkb n)"
proof -
  let ?p = "pkb\<lparr>pb_buf := overwrite (pb_buf pkb) k bs\<rparr>"
  have b: "n + 20 \<le> t" "t + 8 \<le> 1528" "length (pb_buf pkb) = 1528" using g geom_loads(5) [OF g] by (simp_all add: geom_def)
  have g': "geom ?p n t" using b k by (intro geom_buf [OF g]) simp
  have e: "pb_buf ?p ! n = pb_buf pkb ! n" using b k by (simp add: nth_overwrite)
  have l: "take (t - n) (drop n (overwrite (pb_buf pkb) k bs)) = take (t - n) (drop n (pb_buf pkb))"
    using b k by (intro nth_equalityI) (auto simp: nth_overwrite)
  have tk: "take (t - n) (sl_list (win_from q n)) = take (t - n) (drop n (pb_buf q))" for q :: PktBuf
    using b by (simp add: sl_list_def)
  have "CalculateChecksum (win_from q n) = Inr (Checksum (take (t - n) (drop n (pb_buf q))) 0)"
    if "geom q n t" "unat ((pb_buf q ! n AND 0xf) * 4) = t - n" for q
    using CalculateChecksum_eq [OF geom_loads(3) [OF that(1)] HeaderLength_at [OF geom_loads(3) [OF that(1)]]] that(2) b tk
    by simp
  from this [OF g hl] this [OF g'] show ?thesis using e hl l by simp
qed

text \<open>The bytes of the header that are read, and not written, in the rewritten buffer.\<close>

lemma rewritten_keeps:
  assumes "geom pkb n t" and "k < n + 12 \<or> t + 4 \<le> k" and "k < 1528"
  shows "rewritten d tr (pb_buf pkb) n t ! k = pb_buf pkb ! k"
  using assms geom_loads(5) [OF assms(1)] by (auto simp: rewritten_def nth_overwrite geom_def)

definition translated :: "bool \<Rightarrow> nat_ctTuple \<Rightarrow> u16 \<Rightarrow> byte list \<Rightarrow> nat \<Rightarrow> nat \<Rightarrow> byte list" where
  "translated d tr v B n t =
     overwrite (overwrite (rewritten d tr B n t) (n + 10) (bytes16 v)) (t + 6) (bytes16 0)"

lemma nat_first_ok:
  assumes r: "udp_ready pkb n t" and p: "rd16 (pb_buf pkb) t = nt_sport td"
  obtains x v where "nat_first d td tr pkb = Inr (x, win_from pkb t, pkb\<lparr>pb_buf := translated d tr v (pb_buf pkb) n t\<rparr>)"
    and "CalculateChecksum (win_from (pkb\<lparr>pb_buf := translated d tr v (pb_buf pkb) n t\<rparr>) n) = Inr 0xffff"
proof -
  let ?B = "pb_buf pkb" and ?R = "rewritten d tr (pb_buf pkb) n t"
  let ?hl = "(?B ! n AND 0xf) * 4" and ?total = "rd16 ?B (n + 2)"
  have g: "geom pkb n t" and hl: "unat ?hl = t - n" and tot: "t - n + 8 \<le> unat ?total" "n + unat ?total \<le> 1528"
    using r by (simp_all add: udp_ready_def)
  have b: "n + 20 \<le> t" "t + 8 \<le> 1528" "length ?B = 1528" using g geom_loads(5) [OF g] by (simp_all add: geom_def)
  have "take_bit 16 (t - n) = t - n" by (rule take_bit_nat_eq_self) (use b in simp)
  then have hl16: "unat (ucast ?hl :: u16) = t - n" using hl by (simp add: unsigned_ucast_eq)
  then have "ucast ?hl \<le> ?total" unfolding word_le_nat_alt using tot(1) by simp
  then have len: "unat (?total - ucast ?hl) = unat ?total - (t - n)" using unat_sub hl16 by metis
  let ?p1 = "pkb\<lparr>pb_buf := ?R\<rparr>"
  have g1: "geom ?p1 n t" by (rule geom_buf [OF g rewritten_length [OF g]])
  have e1: "?R ! n = ?B ! n" using rewritten_keeps [OF g, of n] b by simp
  have hl1: "nat_HeaderLength (win_from ?p1 n) = Inr ?hl"
    using HeaderLength_at [OF geom_loads(3) [OF g1]] b e1 by simp
  obtain v where v: "renew_checksum (win_from ?p1 n) = Inr (sl_put (win_from ?p1 n) 10 (bytes16 v))"
    "CalculateChecksum (sl_put (win_from ?p1 n) 10 (bytes16 v)) = Inr 0xffff"
    by (rule renew_checksum_ok [OF geom_loads(3) [OF g1] hl1]) (use hl b in auto)
  let ?p2 = "pkb\<lparr>pb_buf := overwrite ?R (n + 10) (bytes16 v)\<rparr>"
  have w2: "sl_put (win_from ?p1 n) 10 (bytes16 v) = win_from ?p2 n" by (simp add: sl_put_def win_from_def)
  have g2: "geom ?p2 n t" using rewritten_length [OF g] b by (intro geom_buf [OF g]) simp
  let ?p3 = "pkb\<lparr>pb_buf := translated d tr v ?B n t\<rparr>"
  have g3: "geom ?p3 n t" unfolding translated_def using rewritten_length [OF g] b by (intro geom_buf [OF g]) simp
  have c2: "unat ((pb_buf ?p2 ! n AND 0xf) * 4) = t - n"
    using e1 hl b rewritten_length [OF g] by (simp add: nth_overwrite)
  have ck: "CalculateChecksum (win_from ?p3 n) = Inr 0xffff"
    using CalculateChecksum_beyond [OF g2 c2, of "t + 6" "bytes16 0"] b v(2) w2 by (simp add: translated_def)
  have s3: "sl_slice (win_from ?p3 n) 12 16 = Inr (win_from ?p3 n\<lparr>sl_off := n + 12, sl_len := 4\<rparr>)"
    "sl_slice (win_from ?p3 n) 16 20 = Inr (win_from ?p3 n\<lparr>sl_off := n + 16, sl_len := 4\<rparr>)"
    using geom_loads(5) [OF g3] b by (simp_all add: sl_slice_def sl_cap_def)
  have s4: "unat ?total - (t - n) \<le> 1528 - t" using tot b by simp
  have z: "?total - ucast ?hl \<noteq> 0" using len tot(1) by auto
  have w3: "written ?p2 (sl_put16 (win_from ?p2 t) 6 0) = Inr ?p3"
    using written_put(1) [OF geom_loads(4) [OF g2], of 6 0] b by (simp add: translated_def)
  obtain x where "UDP_CalChecksum (win_from ?p3 t) y (?total - ucast ?hl) = Inr (x y)" for y
    using z len s4 geom_loads(5) [OF g3] by (simp add: UDP_CalChecksum_def sl_slice_def sl_cap_def)
  then have "nat_first d td tr pkb = Inr (x (UDP_CalculateChecksum
      (PseudoHeaderChecksum nat_UDPProtocolNumber (sl_list (win_from ?p3 n\<lparr>sl_off := n + 12, sl_len := 4\<rparr>))
        (sl_list (win_from ?p3 n\<lparr>sl_off := n + 16, sl_len := 4\<rparr>))) (?total - ucast ?hl)), win_from pkb t, ?p3)"
    using b geom_loads [OF g] nat_rewrite_ok [OF g p, of d tr] v(1) w2 w3 s3
    by (simp add: nat_first_def TotalLength_def win_reads HeaderLength_at written_def [of ?p1]
        UDP_SetChecksum_def SourceAddrBuf_def DestinationAddrBuf_def Let_def)
  then show thesis using ck by (rule that)
qed

end
