(* ===== verification/Nat_Roundtrip.thy ===== *)
theory Nat_Roundtrip
  imports Nat_Translate
begin

text \<open>
  The handlers on one UDP packet: a new connection gets a tuple of its own for the replies, the
  packet leaves with the address of the host, and a reply is translated back to the sender.
\<close>

section \<open>Reading the state after an operation\<close>

lemma nat_upd_ct_simps [simp]:
  "na_ncts (nat_upd_ct c f s) = na_ncts s" "na_globalConntrack (nat_upd_ct c f s) = na_globalConntrack s"
  "na_pkts (nat_upd_ct c f s) = na_pkts s" "na_ext (nat_upd_ct c f s) = na_ext s"
  "na_timers (nat_upd_ct c f s) = na_timers s" "na_now (nat_upd_ct c f s) = na_now s"
  "na_snatIP (nat_upd_ct c f s) = na_snatIP s" "length (na_cts (nat_upd_ct c f s)) = length (na_cts s)"
  "na_fqs (nat_upd_ct c f s) = na_fqs s" "na_frags (nat_upd_ct c f s) = na_frags s"
  by (simp_all add: nat_upd_ct_def)

lemma nat_ct_at_upd:
  "c < length (na_cts s) \<Longrightarrow> nat_ct_at (nat_upd_ct c f s) d = (if d = c then f (nat_ct_at s c) else nat_ct_at s d)"
  by (simp add: nat_ct_at_def nat_upd_ct_def)

lemma nat_upd_nct_simps [simp]:
  "na_cts (nat_upd_nct n f s) = na_cts s" "na_globalConntrack (nat_upd_nct n f s) = na_globalConntrack s"
  "na_pkts (nat_upd_nct n f s) = na_pkts s" "na_ext (nat_upd_nct n f s) = na_ext s"
  "na_timers (nat_upd_nct n f s) = na_timers s" "na_now (nat_upd_nct n f s) = na_now s"
  "na_snatIP (nat_upd_nct n f s) = na_snatIP s" "length (na_ncts (nat_upd_nct n f s)) = length (na_ncts s)"
  "nat_ct_at (nat_upd_nct n f s) d = nat_ct_at s d"
  by (simp_all add: nat_upd_nct_def nat_ct_at_def)

lemma nat_upd_pkt_simps [simp]:
  "na_cts (nat_upd_pkt a p s) = na_cts s" "na_globalConntrack (nat_upd_pkt a p s) = na_globalConntrack s"
  "na_ncts (nat_upd_pkt a p s) = na_ncts s" "na_ext (nat_upd_pkt a p s) = na_ext s"
  "na_timers (nat_upd_pkt a p s) = na_timers s" "na_now (nat_upd_pkt a p s) = na_now s"
  "na_snatIP (nat_upd_pkt a p s) = na_snatIP s" "nat_ct_at (nat_upd_pkt a p s) d = nat_ct_at s d"
  "length (ps_heap (na_pkts (nat_upd_pkt a p s))) = length (ps_heap (na_pkts s))"
  by (simp_all add: nat_upd_pkt_def nat_ct_at_def upd_pkt_def)

lemma nat_pkt_upd:
  "a < length (ps_heap (na_pkts s)) \<Longrightarrow>
     pkt (na_pkts (nat_upd_pkt a p s)) b = (if b = a then p else pkt (na_pkts s) b)"
  by (simp add: nat_upd_pkt_def upd_pkt_def)

lemma nat_upd_pkt_twice: "nat_upd_pkt a q (nat_upd_pkt a p s) = nat_upd_pkt a q s"
  by (simp add: nat_upd_pkt_def upd_pkt_def)

lemma nat_addConntrack_simps [simp]:
  "na_cts (nat_addConntrack n c s) = na_cts s" "na_globalConntrack (nat_addConntrack n c s) = na_globalConntrack s"
  "na_pkts (nat_addConntrack n c s) = na_pkts s" "na_ext (nat_addConntrack n c s) = na_ext s"
  "na_timers (nat_addConntrack n c s) = na_timers s" "na_now (nat_addConntrack n c s) = na_now s"
  "na_snatIP (nat_addConntrack n c s) = na_snatIP s" "nat_ct_at (nat_addConntrack n c s) d = nat_ct_at s d"
  "length (na_ncts (nat_addConntrack n c s)) = length (na_ncts s)"
  by (simp_all add: nat_addConntrack_def Let_def nat_ct_at_def)

lemma nat_find_add:
  assumes "n < length (na_ncts s)"
  shows "nat_findConntrack (nat_addConntrack n c s) m t =
    (if m = n \<and> t \<in> {nk_tuple (nat_ct_at s c) ! nat_ctOrigin, nk_tuple (nat_ct_at s c) ! nat_ctReply} then Some c
     else nat_findConntrack s m t)"
  using assms by (cases "m = n") (auto simp: nat_findConntrack_def nat_addConntrack_def nat_upd_nct_def Let_def)

lemma nat_start_timer_simps [simp]:
  "na_ncts (nat_start_timer c d f s) = na_ncts s" "na_globalConntrack (nat_start_timer c d f s) = na_globalConntrack s"
  "na_pkts (nat_start_timer c d f s) = na_pkts s" "na_ext (nat_start_timer c d f s) = na_ext s"
  "na_snatIP (nat_start_timer c d f s) = na_snatIP s" "length (na_cts (nat_start_timer c d f s)) = length (na_cts s)"
  by (simp_all add: nat_start_timer_def split: prod.splits)

lemma nat_ct_at_start:
  "c < length (na_cts s) \<Longrightarrow> nat_ct_at (nat_start_timer c d f s) e =
     (if e = c then (nat_ct_at s c)\<lparr>nk_timer := Some (tm_next (na_timers s))\<rparr> else nat_ct_at s e)"
  by (auto simp: nat_start_timer_def nat_upd_ct_def nat_ct_at_def NewTimerFunc_def)

lemma nat_count_bytes_simps [simp]:
  "na_ncts (nat_count_bytes c d l s) = na_ncts s" "na_globalConntrack (nat_count_bytes c d l s) = na_globalConntrack s"
  "na_pkts (nat_count_bytes c d l s) = na_pkts s" "na_ext (nat_count_bytes c d l s) = na_ext s"
  "na_snatIP (nat_count_bytes c d l s) = na_snatIP s" "length (na_cts (nat_count_bytes c d l s)) = length (na_cts s)"
  by (simp_all add: nat_count_bytes_def)

lemma nat_ct_at_count:
  "c < length (na_cts s) \<Longrightarrow> nat_ct_at (nat_count_bytes c d l s) e =
     (if e = c then (nat_ct_at s c)\<lparr>nk_stats := (nk_stats (nat_ct_at s c))[d := nk_stats (nat_ct_at s c) ! d + l]\<rparr>
      else nat_ct_at s e)"
  by (simp add: nat_count_bytes_def nat_ct_at_upd)

section \<open>The search for a tuple\<close>

lemma unique_tuple_sound:
  assumes ret: "unique_tuple cts t = Some r"
  shows "map_of cts r = None \<and> (\<exists>p. r = t\<lparr>nt_dport := p\<rparr>)"
proof (rule unique_tuple.raw_induct [where P = "\<lambda>cts t r. map_of cts r = None \<and> (\<exists>p. r = t\<lparr>nt_dport := p\<rparr>)", OF _ ret])
  fix f and cts :: "(nat_ctTuple \<times> nat) list" and t r :: nat_ctTuple
  assume IH: "\<And>cts t r. f cts t = Some r \<Longrightarrow> map_of cts r = None \<and> (\<exists>p. r = t\<lparr>nt_dport := p\<rparr>)"
    and eq: "(if map_of cts t = None then Some t else f cts (t\<lparr>nt_dport := nt_dport t + 1\<rparr>)) = Some r"
  show "map_of cts r = None \<and> (\<exists>p. r = t\<lparr>nt_dport := p\<rparr>)"
  proof (cases "map_of cts t = None")
    case True
    then show ?thesis using eq by (auto intro!: exI [of _ "nt_dport t"])
  next
    case False
    then have "f cts (t\<lparr>nt_dport := nt_dport t + 1\<rparr>) = Some r" using eq by auto
    from IH [OF this] show ?thesis by auto
  qed
qed

text \<open>With \<open>k\<close> taken ports before a free one the loop stops there.\<close>

lemma unique_tuple_first:
  assumes "map_of cts (t\<lparr>nt_dport := nt_dport t + word_of_nat k\<rparr>) = None"
    and "\<forall>j < k. map_of cts (t\<lparr>nt_dport := nt_dport t + word_of_nat j\<rparr>) \<noteq> None"
  shows "unique_tuple cts t = Some (t\<lparr>nt_dport := nt_dport t + word_of_nat k\<rparr>)"
  using assms
proof (induction k arbitrary: t)
  case 0
  then show ?case by (simp add: unique_tuple.simps)
next
  case (Suc k)
  let ?u = "t\<lparr>nt_dport := nt_dport t + 1\<rparr>"
  have s: "?u\<lparr>nt_dport := nt_dport ?u + word_of_nat j\<rparr> = t\<lparr>nt_dport := nt_dport t + word_of_nat (Suc j)\<rparr>" for j
    by (simp add: add.assoc)
  have "map_of cts t \<noteq> None" using Suc.prems(2) [rule_format, of 0] by simp
  moreover have "unique_tuple cts ?u = Some (?u\<lparr>nt_dport := nt_dport ?u + word_of_nat k\<rparr>)"
  proof (rule Suc.IH)
    show "map_of cts (?u\<lparr>nt_dport := nt_dport ?u + word_of_nat k\<rparr>) = None" unfolding s by (rule Suc.prems(1))
    show "\<forall>j < k. map_of cts (?u\<lparr>nt_dport := nt_dport ?u + word_of_nat j\<rparr>) \<noteq> None"
    proof (intro allI impI)
      fix j
      assume "j < k"
      then show "map_of cts (?u\<lparr>nt_dport := nt_dport ?u + word_of_nat j\<rparr>) \<noteq> None"
        unfolding s by (intro Suc.prems(2) [rule_format]) simp
    qed
  qed
  ultimately show ?case unfolding s by (auto simp: unique_tuple.simps [of cts t])
qed

lemma unique_tuple_returns:
  assumes "map_of cts (t\<lparr>nt_dport := p\<rparr>) = None"
  obtains q where "unique_tuple cts t = Some (t\<lparr>nt_dport := q\<rparr>)" and "map_of cts (t\<lparr>nt_dport := q\<rparr>) = None"
proof -
  let ?P = "\<lambda>k. map_of cts (t\<lparr>nt_dport := nt_dport t + word_of_nat k\<rparr>) = None"
  have "?P (unat (p - nt_dport t))" using assms by simp
  then have "?P (LEAST k. ?P k)" by (rule LeastI)
  moreover have "\<forall>j < (LEAST k. ?P k). \<not> ?P j" using not_less_Least by blast
  ultimately show thesis using unique_tuple_first that by blast
qed

section \<open>Translating one packet\<close>

lemma overwrite_twice:
  "i + length bs \<le> length B \<Longrightarrow> length bs = length cs \<Longrightarrow> overwrite (overwrite B i cs) i bs = overwrite B i bs"
  by (cases cs) (auto simp: overwrite_def min_def)

lemma translated_length: "geom pkb n t \<Longrightarrow> length (translated d tr v (pb_buf pkb) n t) = 1528"
  using rewritten_length [of pkb n t d tr] by (simp add: translated_def geom_def)

lemma translated_tuple:
  assumes g: "geom pkb n t"
  shows "udp_tuple_of (translated d tr v (pb_buf pkb) n t) n t =
    (if d then (udp_tuple_of (pb_buf pkb) n t)\<lparr>nt_saddr := nt_daddr tr, nt_sport := nt_dport tr\<rparr>
     else (udp_tuple_of (pb_buf pkb) n t)\<lparr>nt_daddr := nt_saddr tr, nt_dport := nt_sport tr\<rparr>)"
proof -
  have b: "n + 20 \<le> t" "t + 8 \<le> 1528" "length (pb_buf pkb) = 1528" using g geom_loads(5) [OF g] by (simp_all add: geom_def)
  then show ?thesis
    using rewritten_length [OF g, of d tr]
    by (simp add: udp_tuple_of_def translated_def rd32_overwrite rd16_overwrite nth_overwrite rewritten_def)
qed

lemma translated_keeps:
  assumes "geom pkb n t" and "k < n + 10 \<or> t + 8 \<le> k" and "k < 1528"
  shows "translated d tr v (pb_buf pkb) n t ! k = pb_buf pkb ! k"
  using assms rewritten_length [OF assms(1), of d tr] rewritten_keeps [OF assms(1), of k d tr]
  by (auto simp: translated_def nth_overwrite geom_def)

text \<open>The part of the packet methods that the translation relies on: their documented get and set.\<close>

locale pkt_methods =
  fixes px :: "'x pkt_ext"
  assumes GetCt_SetCt: "px_GetCt px (px_SetCt px a c x) b = (if b = a then Some c else px_GetCt px x b)"
    and GetDir_SetCt: "px_GetDir px (px_SetCt px a c x) b = px_GetDir px x b"
    and Next_SetCt: "px_Next px (px_SetCt px a c x) b = px_Next px x b"
    and GetDir_SetDir: "px_GetDir px (px_SetDir px a d x) b = (if b = a then d else px_GetDir px x b)"
    and GetCt_SetDir: "px_GetCt px (px_SetDir px a d x) b = px_GetCt px x b"
    and Next_SetDir: "px_Next px (px_SetDir px a d x) b = px_Next px x b"
begin

text \<open>\<open>doNat\<close> on a packet that is not fragmented.\<close>

lemma doNat_ok:
  assumes c: "px_GetCt px (na_ext s) a = Some c" "nk_natFlag (nat_ct_at s c) = snatFlag"
    "nt_proto (nk_tuple (nat_ct_at s c) ! nat_ctOrigin) = nat_UDPProtocolNumber"
    and a: "a < length (ps_heap (na_pkts s))" "px_Next px (na_ext s) a = None"
    and r: "udp_ready (pkt (na_pkts s) a) n t"
    and p: "rd16 (pb_buf (pkt (na_pkts s) a)) t = nt_sport (nk_tuple (nat_ct_at s c) ! nat (px_GetDir px (na_ext s) a))"
  obtains v where "doNat px a s = Some (Inr (nat_upd_pkt a ((pkt (na_pkts s) a)\<lparr>pb_buf :=
        translated (px_GetDir px (na_ext s) a = 0) (nk_tuple (nat_ct_at s c) ! rDir (px_GetDir px (na_ext s) a)) v
          (pb_buf (pkt (na_pkts s) a)) n t\<rparr>) s))"
    and "CalculateChecksum (win_from ((pkt (na_pkts s) a)\<lparr>pb_buf :=
        translated (px_GetDir px (na_ext s) a = 0) (nk_tuple (nat_ct_at s c) ! rDir (px_GetDir px (na_ext s) a)) v
          (pb_buf (pkt (na_pkts s) a)) n t\<rparr>) n) = Inr 0xffff"
proof -
  let ?p = "pkt (na_pkts s) a" and ?dir = "px_GetDir px (na_ext s) a"
  let ?tr = "nk_tuple (nat_ct_at s c) ! rDir ?dir"
  have g: "geom ?p n t" using r by (simp add: udp_ready_def)
  obtain x v where f: "nat_first (?dir = 0) (nk_tuple (nat_ct_at s c) ! nat ?dir) ?tr ?p
      = Inr (x, win_from ?p t, ?p\<lparr>pb_buf := translated (?dir = 0) ?tr v (pb_buf ?p) n t\<rparr>)"
    "CalculateChecksum (win_from (?p\<lparr>pb_buf := translated (?dir = 0) ?tr v (pb_buf ?p) n t\<rparr>) n) = Inr 0xffff"
    by (rule nat_first_ok [OF r p])
  let ?q = "?p\<lparr>pb_buf := translated (?dir = 0) ?tr v (pb_buf ?p) n t\<rparr>"
  have gq: "geom ?q n t" by (rule geom_buf [OF g translated_length [OF g]])
  have t8: "t + 8 \<le> 1528" using g by (simp add: geom_def)
  have idem: "overwrite (pb_buf ?q) (t + 6) (bytes16 0) = pb_buf ?q"
    using t8 rewritten_length [OF g, of "?dir = 0" ?tr] g
    by (simp add: translated_def overwrite_twice geom_def)
  have w: "written ?q (UDP_SetChecksum (win_from ?q t) 0) = Inr ?q"
    using written_put(1) [OF geom_loads(4) [OF gq], of 6 0] t8 idem by (simp add: UDP_SetChecksum_def)
  have "snatFlag \<noteq> 0" by (simp add: snatFlag_def)
  then have "doNat px a s = Some (Inr (nat_upd_pkt a ?q s))"
    using c a f(1) w by (simp add: doNat_def Let_def nat_ctOrigin_def nat_chain.simps nat_pkt_upd nat_upd_pkt_twice)
  then show thesis using f(2) by (rule that)
qed

end

end
