(* ===== verification/Nat_Kept.thy ===== *)
theory Nat_Kept
  imports Nat_Roundtrip
begin

text \<open>
  What can happen to a translated connection between two of its packets: other packets and its own,
  the functions of timers, and everything that leaves the connections alone. It stays as it is
  until a timer function deletes an entry with one of its two tuples.
\<close>

lemma nat_ext_simps [simp]:
  "nat_ct_at (s\<lparr>na_ext := x\<rparr>) c = nat_ct_at s c" "nat_ct_at (s\<lparr>na_timers := ts\<rparr>) c = nat_ct_at s c"
  by (simp_all add: nat_ct_at_def)

section \<open>A translated connection\<close>

text \<open>The connection \<open>c\<close> of zone \<open>z\<close> translates between \<open>ot\<close> and \<open>rt\<close>.\<close>

definition nat_conn :: "nat \<Rightarrow> nat \<Rightarrow> nat_ctTuple \<Rightarrow> nat_ctTuple \<Rightarrow> ('l, 'x) nat_state \<Rightarrow> bool" where
  "nat_conn z c ot rt s \<longleftrightarrow>
     c < length (na_cts s) \<and> z < length (na_ncts s)
     \<and> nk_natFlag (nat_ct_at s c) = snatFlag \<and> nk_tuple (nat_ct_at s c) = [ot, rt]
     \<and> nk_timer (nat_ct_at s c) \<noteq> None \<and> nt_proto ot = nat_UDPProtocolNumber
     \<and> nat_findConntrack s z ot = Some c \<and> nat_findConntrack s z rt = Some c"

text \<open>A timer function that does not delete an entry of either tuple.\<close>

fun spares :: "nat_ctTuple \<Rightarrow> nat_ctTuple \<Rightarrow> nat_timeout \<Rightarrow> ('l, 'x) nat_state \<Rightarrow> bool" where
  "spares ot rt (nat_ctTimeoutDel d) s \<longleftrightarrow>
     (let t = nk_tuple (nat_ct_at s d) in {ot, rt} \<inter> {t ! nat_ctOrigin, t ! nat_ctReply} = {})"
| "spares ot rt (nat_ctESTABLISHEDTimeout d old) s \<longleftrightarrow> True"

text \<open>
  \<open>traffic\<close> is everything outside of the tables of connections: buffers that are filled and given
  back, fragments, new zones, the clock. \<open>packet\<close> is the handler on any packet.
\<close>

inductive nat_step :: "'x pkt_ext \<Rightarrow> nat_ctTuple \<Rightarrow> nat_ctTuple \<Rightarrow> ('l, 'x) nat_state \<Rightarrow> ('l, 'x) nat_state \<Rightarrow> bool"
  for px ot rt where
  traffic: "na_cts s' = na_cts s \<Longrightarrow> map nz_conntracks (na_ncts s') = map nz_conntracks (na_ncts s) @ zs
    \<Longrightarrow> nat_step px ot rt s s'"
| packet: "nat_udpHandler px a s = Some (Inr (v, s')) \<Longrightarrow> nat_step px ot rt s s'"
| timeout: "nat_run_timeout f s = Inr s' \<Longrightarrow> spares ot rt f s \<Longrightarrow> nat_step px ot rt s s'"

inductive nat_later :: "'x pkt_ext \<Rightarrow> nat_ctTuple \<Rightarrow> nat_ctTuple \<Rightarrow> ('l, 'x) nat_state \<Rightarrow> ('l, 'x) nat_state \<Rightarrow> bool"
  for px ot rt where
  now: "nat_later px ot rt s s"
| later: "nat_later px ot rt s s' \<Longrightarrow> nat_step px ot rt s' s'' \<Longrightarrow> nat_later px ot rt s s''"

section \<open>What the operations keep of a connection\<close>

definition kept :: "nat \<Rightarrow> ('l, 'x) nat_state \<Rightarrow> ('l, 'x) nat_state \<Rightarrow> bool" where
  "kept c s s' \<longleftrightarrow> length (na_cts s) \<le> length (na_cts s')
     \<and> nk_tuple (nat_ct_at s' c) = nk_tuple (nat_ct_at s c)
     \<and> nk_natFlag (nat_ct_at s' c) = nk_natFlag (nat_ct_at s c)
     \<and> (nk_timer (nat_ct_at s c) \<noteq> None \<longrightarrow> nk_timer (nat_ct_at s' c) \<noteq> None)"

lemma kept_cts: "na_cts s' = na_cts s \<Longrightarrow> kept c s s'"
  by (simp add: kept_def nat_ct_at_def)

lemma kept_trans: "kept c s t \<Longrightarrow> kept c t u \<Longrightarrow> kept c s u"
  by (simp add: kept_def)

lemma kept_upd:
  assumes "c < length (na_cts s)" and "d \<noteq> c \<or> nk_tuple (f (nat_ct_at s c)) = nk_tuple (nat_ct_at s c)
      \<and> nk_natFlag (f (nat_ct_at s c)) = nk_natFlag (nat_ct_at s c)
      \<and> (nk_timer (nat_ct_at s c) \<noteq> None \<longrightarrow> nk_timer (f (nat_ct_at s c)) \<noteq> None)"
  shows "kept c s (nat_upd_ct d f s)"
  using assms by (cases "d = c") (auto simp: kept_def nat_upd_ct_def nat_ct_at_def)

lemma kept_start: "c < length (na_cts s) \<Longrightarrow> kept c s (nat_start_timer d x f s)"
  by (cases "d = c") (auto simp: kept_def nat_start_timer_def nat_upd_ct_def nat_ct_at_def split: prod.splits)

lemma kept_count: "c < length (na_cts s) \<Longrightarrow> kept c s (nat_count_bytes d dir l s)"
  unfolding nat_count_bytes_def by (rule kept_upd) simp_all

lemma nat_conn_kept:
  assumes "nat_conn z c ot rt s" and "kept c s s'" and "z < length (na_ncts s')"
    and "nat_findConntrack s' z ot = nat_findConntrack s z ot" and "nat_findConntrack s' z rt = nat_findConntrack s z rt"
  shows "nat_conn z c ot rt s'"
  using assms by (simp add: nat_conn_def kept_def)

lemma nat_conn_same_ncts:
  "nat_conn z c ot rt s \<Longrightarrow> kept c s s' \<Longrightarrow> na_ncts s' = na_ncts s \<Longrightarrow> nat_conn z c ot rt s'"
  by (auto simp: nat_conn_def kept_def nat_findConntrack_def)

section \<open>The handler\<close>

text \<open>The translation only writes into packets.\<close>

lemma nat_chain_tables:
  assumes "nat_chain px tr p x s = Some (Inr s')"
  shows "na_cts s' = na_cts s \<and> na_ncts s' = na_ncts s"
proof -
  have "r = Inr s' \<longrightarrow> na_cts s' = na_cts s \<and> na_ncts s' = na_ncts s" if "nat_chain px tr p x s = Some r" for r
    using that
  proof (rule nat_chain.raw_induct
      [where P = "\<lambda>px tr p x s r. r = Inr s' \<longrightarrow> na_cts s' = na_cts s \<and> na_ncts s' = na_ncts s", rotated])
    fix ch and px :: "'b pkt_ext" and tr p x and s :: "('a, 'b) nat_state" and r
    assume IH: "\<And>px tr p x s r. ch px tr p x s = Some r \<Longrightarrow>
        r = Inr s' \<longrightarrow> na_cts s' = na_cts s \<and> na_ncts s' = na_ncts s"
      and r: "(case p of None \<Rightarrow> Some (Inr s)
        | Some a \<Rightarrow> case nat_further tr x (pkt (na_pkts s) a) of Inl e \<Rightarrow> Some (Inl e)
          | Inr (x, pkb) \<Rightarrow> ch px tr (px_Next px (na_ext s) a) x (nat_upd_pkt a pkb s)) = Some r"
    then show "r = Inr s' \<longrightarrow> na_cts s' = na_cts s \<and> na_ncts s' = na_ncts s"
      by (auto split: option.splits sum.splits dest: IH)
  qed
  then show ?thesis using assms by blast
qed

lemma doNat_tables:
  assumes "doNat px a s = Some (Inr s')"
  shows "na_cts s' = na_cts s \<and> na_ncts s' = na_ncts s"
  using assms
  by (auto simp: doNat_def Let_def bind_run_eq_Inr bind_res_eq_Inr dest!: nat_chain_tables
      split: option.splits if_splits sum.splits prod.splits)

lemma udp_known_keeps:
  assumes "udp_known px d a t l s = Some (Inr (v, s'))" and c: "c < length (na_cts s)"
  shows "kept c s s' \<and> na_ncts s' = na_ncts s"
proof -
  let ?s1 = "s\<lparr>na_ext := px_SetDir px a (int (nat_Dir (nat_ct_at s d) t)) (px_SetCt px a d (na_ext s))\<rparr>"
  let ?dir = "nat_Dir (nat_ct_at s d) t"
  obtain s2 where s2: "doNat px a ?s1 = Some (Inr s2)"
    and r: "(let s = nat_count_bytes d ?dir l s2 in
         if nk_status (nat_ct_at s d) = nat_CT_ESTABLISHED then Some (Inr (ACCEPT, s))
         else if ?dir = nat_ctReply then
           Some (bind_res (nat_stop_timer d s) (\<lambda>(ok, s).
             if ok then
               let s = nat_upd_ct d (\<lambda>ct. ct\<lparr>nk_status := nat_CT_ESTABLISHED\<rparr>) s
               in Inr (ACCEPT, nat_start_timer d nat_CT_UDP_ESTABLISHED_TIMEOUT
                    (nat_ctESTABLISHEDTimeout d (nk_stats (nat_ct_at s d))) s)
             else Inr (ACCEPT, s)))
         else Some (Inr (ACCEPT, s))) = Some (Inr (v, s'))"
    using assms(1) unfolding udp_known_def Let_def nat_ext_simps by (auto simp: bind_run_eq_Inr)
  let ?s3 = "nat_count_bytes d ?dir l s2"
  have t: "na_cts s2 = na_cts s" "na_ncts s2 = na_ncts s" using doNat_tables [OF s2] by simp_all
  have c2: "c < length (na_cts s2)" using c t by simp
  have k3: "kept c s ?s3" by (rule kept_trans [OF kept_cts [OF t(1)] kept_count [OF c2]])
  have "kept c ?s3 s' \<and> na_ncts s' = na_ncts ?s3"
  proof (cases "s' = ?s3")
    case False
    then obtain ok s4 where s4: "nat_stop_timer d ?s3 = Inr (ok, s4)"
      and s': "s' = s4 \<or> s' = nat_start_timer d nat_CT_UDP_ESTABLISHED_TIMEOUT
          (nat_ctESTABLISHEDTimeout d (nk_stats (nat_ct_at (nat_upd_ct d (\<lambda>ct. ct\<lparr>nk_status := nat_CT_ESTABLISHED\<rparr>) s4) d)))
          (nat_upd_ct d (\<lambda>ct. ct\<lparr>nk_status := nat_CT_ESTABLISHED\<rparr>) s4)"
      using r by (auto simp: Let_def bind_res_eq_Inr split: if_splits)
    have t4: "na_cts s4 = na_cts ?s3" "na_ncts s4 = na_ncts ?s3"
      using s4 by (auto simp: nat_stop_timer_def split: option.splits prod.splits)
    have c4: "c < length (na_cts s4)" using t4 c2 by simp
    have "kept c s4 (nat_start_timer d i f (nat_upd_ct d (\<lambda>ct. ct\<lparr>nk_status := nat_CT_ESTABLISHED\<rparr>) s4))" for i f
      using c4 by (intro kept_trans [OF kept_upd kept_start]) simp_all
    then show ?thesis using s' kept_trans [OF kept_cts [OF t4(1)]] kept_cts [OF t4(1)] t4(2) by auto
  qed (simp add: kept_cts)
  then show ?thesis using kept_trans [OF k3] t(2) by simp
qed

text \<open>A new connection gets entries that no other one has.\<close>

lemma nat_find_add_at:
  assumes "z < length (na_ncts s)"
  shows "nat_findConntrack (nat_addConntrack n c s) z t =
    (if z = n \<and> t \<in> {nk_tuple (nat_ct_at s c) ! nat_ctOrigin, nk_tuple (nat_ct_at s c) ! nat_ctReply} then Some c
     else nat_findConntrack s z t)"
proof (cases "z = n")
  case False
  then show ?thesis by (simp add: nat_findConntrack_def nat_addConntrack_def nat_upd_nct_def Let_def)
qed (use assms nat_find_add [of n s c z t] in simp)

context pkt_methods
begin

lemma udp_new_keeps:
  assumes r: "udp_new px n a t l s = Some (Inr (v, s'))" and new: "nat_findConntrack s n t = None"
    and conn: "nat_conn z c ot rt s"
  shows "nat_conn z c ot rt s'"
proof -
  let ?d = "length (na_cts s)"
  define s0 where "s0 = (snd (nat_CreateConntrack n t s))\<lparr>na_ext := px_SetCt px a ?d (na_ext s)\<rparr>"
  have s0: "na_ncts s0 = na_ncts s" "length (na_cts s0) = Suc ?d" "nk_tuple (nat_ct_at s0 ?d) = [t, nat_invert t]"
    "nk_nct (nat_ct_at s0 ?d) = Some n" "px_GetCt px (na_ext s0) a = Some ?d"
    "\<And>e. e < ?d \<Longrightarrow> nat_ct_at s0 e = nat_ct_at s e"
    by (simp_all add: s0_def nat_CreateConntrack_def nat_ct_at_def GetCt_SetCt nth_append)
  have c: "c < ?d" using conn by (simp add: nat_conn_def)
  have "kept c s s0" using c s0(2,6) by (simp add: kept_def)
  then have c0: "nat_conn z c ot rt s0" by (rule nat_conn_same_ncts [OF conn _ s0(1)])
  obtain ok s1 where u: "getUniqueTuple px a s0 = Some (Inr (ok, s1))"
    and r1: "bind_run (doNat px a s1) (\<lambda>s. let s = nat_count_bytes ?d nat_ctOrigin l s
        in Some (Inr (ACCEPT, nat_start_timer ?d nat_CT_UDP_NEW_TIMEOUT (nat_ctTimeoutDel ?d) s))) = Some (Inr (v, s'))"
    using r by (auto simp: udp_new_def nat_CreateConntrack_def s0_def bind_run_eq_Inr Let_def split: if_splits)
  obtain q where q: "unique_tuple (nz_conntracks (na_ncts s0 ! n)) ((nat_invert t)\<lparr>nt_daddr := na_snatIP s0\<rparr>) = Some q"
    and s1: "s1 = nat_addConntrack n ?d (nat_upd_ct ?d (\<lambda>ct. ct\<lparr>nk_tuple := (nk_tuple ct)[nat_ctReply := q],
         nk_natFlag := snatFlag\<rparr>) s0)"
    using u s0(2-5)
    by (auto simp: getUniqueTuple_def Let_def ctConfirm_def nat_ct_at_upd nat_ctReply_def bind_res_eq_Inr
        split: option.splits)
  let ?u = "nat_upd_ct ?d (\<lambda>ct. ct\<lparr>nk_tuple := (nk_tuple ct)[nat_ctReply := q], nk_natFlag := snatFlag\<rparr>) s0"
  have free: "nat_findConntrack s0 n q = None" "nat_findConntrack s0 n t = None"
    using unique_tuple_sound [OF q] new s0(1) by (simp_all add: nat_findConntrack_def)
  have tup: "nk_tuple (nat_ct_at ?u ?d) = [t, q]" using s0(2,3) by (simp add: nat_ct_at_upd nat_ctReply_def)
  have "kept c s0 ?u" using c s0(2) by (intro kept_upd) simp_all
  then have cu: "nat_conn z c ot rt ?u" by (rule nat_conn_same_ncts [OF c0]) simp
  have "nat_findConntrack s1 z w = nat_findConntrack ?u z w" if "w \<in> {ot, rt}" for w
  proof -
    have "nat_findConntrack s0 z w = Some c" using c0 that by (auto simp: nat_conn_def)
    then show ?thesis
      using cu free tup unfolding s1
      by (auto simp: nat_find_add_at nat_conn_def nat_ctOrigin_def nat_ctReply_def)
  qed
  moreover have "kept c ?u s1" unfolding s1 by (rule kept_cts) simp
  ultimately have c1: "nat_conn z c ot rt s1"
    using cu by (intro nat_conn_kept [OF cu]) (simp_all add: s1 nat_conn_def)
  obtain s2 where d: "doNat px a s1 = Some (Inr s2)"
    and s': "s' = nat_start_timer ?d nat_CT_UDP_NEW_TIMEOUT (nat_ctTimeoutDel ?d) (nat_count_bytes ?d nat_ctOrigin l s2)"
    using r1 by (auto simp: bind_run_eq_Inr Let_def)
  have t2: "na_cts s2 = na_cts s1" "na_ncts s2 = na_ncts s1" using doNat_tables [OF d] by simp_all
  have l2: "c < length (na_cts s2)" using c1 t2 by (simp add: nat_conn_def)
  have "kept c s1 s'"
    unfolding s' using l2 by (intro kept_trans [OF kept_cts [OF t2(1)] kept_trans [OF kept_count kept_start]]) simp_all
  then show ?thesis by (rule nat_conn_same_ncts [OF c1]) (simp add: s' t2(2))
qed

lemma udpHandler_keeps:
  assumes r: "nat_udpHandler px a s = Some (Inr (v, s'))" and conn: "nat_conn z c ot rt s"
  shows "nat_conn z c ot rt s'"
proof -
  obtain t where t: "nat_getUDPTuple (pkt (na_pkts s) a) = Inr t"
    using r by (auto simp: nat_udpHandler_def Let_def bind_run_eq_Inr)
  show ?thesis
  proof (cases "nat_GetNctByZone s (GetPktVid (pkt (na_pkts s) a))")
    case None
    then show ?thesis using r t conn by (simp add: nat_udpHandler_def Let_def)
  next
    case n: (Some n)
    show ?thesis
    proof (cases "nat_findConntrack s n t")
      case None
      then show ?thesis using r t n by (intro udp_new_keeps [OF _ None conn]) (simp add: nat_udpHandler_def Let_def)
    next
      case (Some d)
      then have "udp_known px d a t (ucast (GetDataLen (pkt (na_pkts s) a))) s = Some (Inr (v, s'))"
        using r t n by (simp add: nat_udpHandler_def Let_def)
      from udp_known_keeps [OF this, of c] conn show ?thesis
        by (intro nat_conn_same_ncts [OF conn]) (simp_all add: nat_conn_def)
    qed
  qed
qed

end

section \<open>Timer functions\<close>

lemma nat_find_del:
  assumes "z < length (na_ncts s)"
    and "t \<notin> {nk_tuple (nat_ct_at s d) ! nat_ctOrigin, nk_tuple (nat_ct_at s d) ! nat_ctReply}"
  shows "nat_findConntrack (nat_delConntrack n d s) z t = nat_findConntrack s z t"
proof (cases "z = n")
  case False
  then show ?thesis by (simp add: nat_findConntrack_def nat_delConntrack_def nat_upd_nct_def Let_def)
qed (use assms in \<open>simp add: nat_findConntrack_def nat_delConntrack_def nat_upd_nct_def Let_def AList.delete_conv'\<close>)

lemma nat_delConntrack_simps [simp]:
  "na_cts (nat_delConntrack n d s) = na_cts s" "length (na_ncts (nat_delConntrack n d s)) = length (na_ncts s)"
  by (simp_all add: nat_delConntrack_def Let_def)

lemma run_timeout_keeps:
  assumes r: "nat_run_timeout f s = Inr s'" and sp: "spares ot rt f s" and conn: "nat_conn z c ot rt s"
  shows "nat_conn z c ot rt s'"
proof -
  have c: "c < length (na_cts s)" "z < length (na_ncts s)" using conn by (simp_all add: nat_conn_def)
  show ?thesis
  proof (cases f)
    case (nat_ctTimeoutDel d)
    let ?u = "nat_upd_ct d (\<lambda>ct. ct\<lparr>nk_status := nat_CT_DEL\<rparr>) s"
    obtain n where s': "s' = nat_delConntrack n d ?u"
      using r nat_ctTimeoutDel by (auto simp: Let_def split: option.splits)
    have tup: "nk_tuple (nat_ct_at ?u d) = nk_tuple (nat_ct_at s d)"
      by (cases "d < length (na_cts s)") (simp_all add: nat_upd_ct_def nat_ct_at_def list_update_beyond)
    have "nat_findConntrack s' z w = nat_findConntrack s z w" if "w \<in> {ot, rt}" for w
    proof -
      have "w \<notin> {nk_tuple (nat_ct_at ?u d) ! nat_ctOrigin, nk_tuple (nat_ct_at ?u d) ! nat_ctReply}"
        using sp that unfolding tup nat_ctTimeoutDel by (auto simp: Let_def)
      then have "nat_findConntrack s' z w = nat_findConntrack ?u z w"
        unfolding s' using c(2) by (intro nat_find_del) simp_all
      then show ?thesis by (simp add: nat_findConntrack_def)
    qed
    moreover have "kept c s s'"
      unfolding s' using c(1) by (intro kept_trans [OF kept_upd kept_cts]) simp_all
    ultimately show ?thesis using c(2) by (intro nat_conn_kept [OF conn]) (simp_all add: s')
  next
    case (nat_ctESTABLISHEDTimeout d old)
    have "kept c s s' \<and> na_ncts s' = na_ncts s"
      using r c(1) unfolding nat_ctESTABLISHEDTimeout
      by (auto simp: bind_res_eq_Inr Let_def kept_cts intro: kept_start
          intro!: kept_trans [OF kept_upd kept_start] split: if_splits)
    then show ?thesis using nat_conn_same_ncts [OF conn] by blast
  qed
qed

lemma traffic_keeps:
  fixes s s' :: "('l, 'x) nat_state"
  assumes "na_cts s' = na_cts s" and t: "map nz_conntracks (na_ncts s') = map nz_conntracks (na_ncts s) @ zs"
    and conn: "nat_conn z c ot rt s"
  shows "nat_conn z c ot rt s'"
proof -
  have z: "z < length (na_ncts s)" using conn by (simp add: nat_conn_def)
  have l: "z < length (na_ncts s')" using arg_cong [OF t, of length] z by simp
  have "nz_conntracks (na_ncts s' ! z) = nz_conntracks (na_ncts s ! z)"
    using arg_cong [OF t, of "\<lambda>xs. xs ! z"] z l by (simp add: nth_append)
  then show ?thesis using kept_cts [OF assms(1)] l by (intro nat_conn_kept [OF conn]) (simp_all add: nat_findConntrack_def)
qed

text \<open>A translated connection stays one.\<close>

lemma nat_conn_later:
  assumes px: "pkt_methods px" and "nat_later px ot rt s s'" and "nat_conn z c ot rt s"
  shows "nat_conn z c ot rt s'"
  using assms(2,3)
proof (induction rule: nat_later.induct)
  case (later s s' s'')
  have "nat_conn z c ot rt s'" by (rule later.IH [OF later.prems])
  with later.hyps(2) show ?case
    by cases (auto intro: traffic_keeps run_timeout_keeps pkt_methods.udpHandler_keeps [OF px])
qed

end
