(* ===== verification/Nat_Roundtrip_Props.thy ===== *)
theory Nat_Roundtrip_Props
  imports Nat_Kept
begin

text \<open>
  The properties of the translation: the search for a tuple returns exactly when a port is free, and
  a packet that leaves and its reply are translated into one another.
\<close>

section \<open>The search\<close>

definition reply_of :: "nat_ctTuple \<Rightarrow> u32 \<Rightarrow> u16 \<Rightarrow> nat_ctTuple" where
  "reply_of t ip p = t\<lparr>nt_daddr := ip, nt_dport := p\<rparr>"

lemma reply_of_simps [simp]:
  "nt_saddr (reply_of t ip p) = nt_saddr t" "nt_daddr (reply_of t ip p) = ip"
  "nt_sport (reply_of t ip p) = nt_sport t" "nt_dport (reply_of t ip p) = p" "nt_proto (reply_of t ip p) = nt_proto t"
  by (simp_all add: reply_of_def)

lemma getUniqueTuple_ok:
  assumes "px_GetCt px (na_ext s) a = Some c" and "nk_nct (nat_ct_at s c) = Some z" and "c < length (na_cts s)"
    and "nat_findConntrack s z (reply_of (nk_tuple (nat_ct_at s c) ! nat_ctReply) (na_snatIP s) p) = None"
  obtains q where
    "getUniqueTuple px a s = Some (Inr (True, nat_addConntrack z c (nat_upd_ct c (\<lambda>ct. ct\<lparr>nk_tuple :=
       (nk_tuple ct)[nat_ctReply := reply_of (nk_tuple (nat_ct_at s c) ! nat_ctReply) (na_snatIP s) q],
       nk_natFlag := snatFlag\<rparr>) s)))"
    and "nat_findConntrack s z (reply_of (nk_tuple (nat_ct_at s c) ! nat_ctReply) (na_snatIP s) q) = None"
proof -
  let ?t = "(nk_tuple (nat_ct_at s c) ! nat_ctReply)\<lparr>nt_daddr := na_snatIP s\<rparr>"
  obtain q where q: "unique_tuple (nz_conntracks (na_ncts s ! z)) ?t = Some (?t\<lparr>nt_dport := q\<rparr>)"
    "map_of (nz_conntracks (na_ncts s ! z)) (?t\<lparr>nt_dport := q\<rparr>) = None"
    using unique_tuple_returns [where t = ?t and p = p] assms(4) by (auto simp: nat_findConntrack_def reply_of_def)
  show thesis
    by (rule that [of q]) (use assms q in \<open>simp_all add: getUniqueTuple_def ctConfirm_def nat_ct_at_upd
      nat_findConntrack_def reply_of_def Let_def\<close>)
qed

text \<open>
  C27: \<open>getUniqueTuple\<close> returns exactly when, for the replies of the connection, some port of the
  host is free in the zone; with all 65536 ports taken its loop does not end.
\<close>

theorem getUniqueTuple_returns:
  assumes "px_GetCt px (na_ext s) a = Some c" and "nk_nct (nat_ct_at s c) = Some z" and "c < length (na_cts s)"
  shows "getUniqueTuple px a s \<noteq> None \<longleftrightarrow>
    (\<exists>p. nat_findConntrack s z (reply_of (nk_tuple (nat_ct_at s c) ! nat_ctReply) (na_snatIP s) p) = None)"
proof
  assume "getUniqueTuple px a s \<noteq> None"
  then obtain r where "unique_tuple (nz_conntracks (na_ncts s ! z))
      ((nk_tuple (nat_ct_at s c) ! nat_ctReply)\<lparr>nt_daddr := na_snatIP s\<rparr>) = Some r"
    using assms by (auto simp: getUniqueTuple_def Let_def split: option.splits)
  from unique_tuple_sound [OF this]
  show "\<exists>p. nat_findConntrack s z (reply_of (nk_tuple (nat_ct_at s c) ! nat_ctReply) (na_snatIP s) p) = None"
    by (auto simp: nat_findConntrack_def reply_of_def)
next
  assume "\<exists>p. nat_findConntrack s z (reply_of (nk_tuple (nat_ct_at s c) ! nat_ctReply) (na_snatIP s) p) = None"
  then show "getUniqueTuple px a s \<noteq> None" using getUniqueTuple_ok [OF assms] by (metis option.discI)
qed

section \<open>The round trip\<close>

text \<open>A packet of a zone, not fragmented, in the geometry that the handler expects.\<close>

definition udp_arrived :: "'x pkt_ext \<Rightarrow> nat \<Rightarrow> nat \<Rightarrow> nat \<Rightarrow> nat \<Rightarrow> ('l, 'x) nat_state \<Rightarrow> bool" where
  "udp_arrived px z a n t s \<longleftrightarrow>
     a < length (ps_heap (na_pkts s)) \<and> px_Next px (na_ext s) a = None \<and> udp_ready (pkt (na_pkts s) a) n t
     \<and> nat_GetNctByZone s (GetPktVid (pkt (na_pkts s) a)) = Some z"

abbreviation tuple_at :: "nat \<Rightarrow> nat \<Rightarrow> nat \<Rightarrow> ('l, 'x) nat_state \<Rightarrow> nat_ctTuple" where
  "tuple_at a n t s \<equiv> udp_tuple_of (pb_buf (pkt (na_pkts s) a)) n t"

definition header_verifies :: "nat \<Rightarrow> nat \<Rightarrow> ('l, 'x) nat_state \<Rightarrow> bool" where
  "header_verifies a n s \<longleftrightarrow> CalculateChecksum (win_from (pkt (na_pkts s) a) n) = Inr 0xffff"

lemma udpHandler_at:
  assumes "udp_arrived px z a n t s"
  shows "nat_udpHandler px a s =
    (case nat_findConntrack s z (tuple_at a n t s) of
       None \<Rightarrow> udp_new px z a (tuple_at a n t s) (ucast (GetDataLen (pkt (na_pkts s) a))) s
     | Some c \<Rightarrow> udp_known px c a (tuple_at a n t s) (ucast (GetDataLen (pkt (na_pkts s) a))) s)"
proof -
  have "geom (pkt (na_pkts s) a) n t" using assms by (simp add: udp_arrived_def udp_ready_def)
  then show ?thesis using assms by (simp add: nat_udpHandler_def udp_arrived_def getUDPTuple_at Let_def)
qed

lemma nat_stop_timer_ok:
  assumes "nk_timer (nat_ct_at s c) \<noteq> None"
  obtains ok ts where "nat_stop_timer c s = Inr (ok, s\<lparr>na_timers := ts\<rparr>)"
proof -
  obtain t where t: "nk_timer (nat_ct_at s c) = Some t" using assms by blast
  obtain ok ts where "Timer_Stop t (na_timers s) = (ok, ts)" by (cases "Timer_Stop t (na_timers s)")
  then show thesis using t that by (simp add: nat_stop_timer_def)
qed

context pkt_methods
begin

text \<open>A packet of a known connection, in either direction.\<close>

lemma known_ok:
  assumes c: "nat_conn z c ot rt s" and a: "udp_arrived px z a n t s" and tu: "tuple_at a n t s = tu" "tu \<in> {ot, rt}"
  obtains s' where "nat_udpHandler px a s = Some (Inr (ACCEPT, s'))" and "header_verifies a n s'"
    and "tuple_at a n t s' = (if tu = ot then tu\<lparr>nt_saddr := nt_daddr rt, nt_sport := nt_dport rt\<rparr>
           else tu\<lparr>nt_daddr := nt_saddr ot, nt_dport := nt_sport ot\<rparr>)"
proof -
  let ?p = "pkt (na_pkts s) a" and ?dir = "nat_Dir (nat_ct_at s c) tu"
  let ?x = "px_SetDir px a (int ?dir) (px_SetCt px a c (na_ext s))"
  let ?s1 = "s\<lparr>na_ext := ?x\<rparr>"
  let ?tr = "nk_tuple (nat_ct_at s c) ! rDir (int ?dir)"
  have r: "udp_ready ?p n t" and al: "a < length (ps_heap (na_pkts s))" and nx: "px_Next px (na_ext s) a = None"
    using a by (simp_all add: udp_arrived_def)
  have g: "geom ?p n t" using r by (simp add: udp_ready_def)
  have tup: "nk_tuple (nat_ct_at s c) = [ot, rt]" and tm: "nk_timer (nat_ct_at s c) \<noteq> None" and cl: "c < length (na_cts s)"
    using c by (simp_all add: nat_conn_def)
  have dir: "?dir = (if tu = ot then 0 else 1)" using tup by (auto simp: nat_Dir_def nat_ctOrigin_def nat_ctReply_def)
  have sp: "rd16 (pb_buf ?p) t = nt_sport (nk_tuple (nat_ct_at s c) ! ?dir)"
    using tu dir tup by (auto simp: udp_tuple_of_def)
  have at1: "nat_ct_at ?s1 c = nat_ct_at s c" by simp
  have gd: "px_GetDir px (na_ext ?s1) a = int ?dir" by (simp add: GetDir_SetDir)
  obtain v where v: "doNat px a ?s1 = Some (Inr (nat_upd_pkt a (?p\<lparr>pb_buf := translated (int ?dir = 0) ?tr v (pb_buf ?p) n t\<rparr>) ?s1))"
    "CalculateChecksum (win_from (?p\<lparr>pb_buf := translated (int ?dir = 0) ?tr v (pb_buf ?p) n t\<rparr>) n) = Inr 0xffff"
    using doNat_ok [of ?s1 a c n t] c al nx r sp unfolding gd at1
    by (auto simp: GetCt_SetDir GetCt_SetCt Next_SetDir Next_SetCt nat_conn_def nat_ctOrigin_def)
  let ?q = "?p\<lparr>pb_buf := translated (int ?dir = 0) ?tr v (pb_buf ?p) n t\<rparr>"
  let ?s2 = "nat_count_bytes c ?dir (ucast (GetDataLen ?p)) (nat_upd_pkt a ?q ?s1)"
  have tm2: "nk_timer (nat_ct_at ?s2 c) \<noteq> None" using cl tm by (simp add: nat_ct_at_count)
  have fin: "\<exists>s'. nat_udpHandler px a s = Some (Inr (ACCEPT, s')) \<and> na_pkts s' = na_pkts ?s2"
  proof -
    have "nat_findConntrack s z tu = Some c" using c tu(2) by (auto simp: nat_conn_def)
    then have "nat_udpHandler px a s = udp_known px c a tu (ucast (GetDataLen ?p)) s"
      using udpHandler_at [OF a] tu(1) by simp
    moreover have "\<exists>s'. udp_known px c a tu (ucast (GetDataLen ?p)) s = Some (Inr (ACCEPT, s')) \<and> na_pkts s' = na_pkts ?s2"
    proof -
      obtain ok ts where st: "nat_stop_timer c ?s2 = Inr (ok, ?s2\<lparr>na_timers := ts\<rparr>)"
        by (rule nat_stop_timer_ok [OF tm2])
      show ?thesis
        using v(1) st by (auto simp: udp_known_def Let_def)
    qed
    ultimately show ?thesis by simp
  qed
  have pk: "pkt (na_pkts ?s2) a = ?q" using al by (simp add: nat_pkt_upd)
  obtain s' where s': "nat_udpHandler px a s = Some (Inr (ACCEPT, s'))" "na_pkts s' = na_pkts ?s2" using fin by blast
  have "header_verifies a n s'" unfolding header_verifies_def s'(2) pk by (rule v(2))
  moreover have "tuple_at a n t s' = (if tu = ot then tu\<lparr>nt_saddr := nt_daddr rt, nt_sport := nt_dport rt\<rparr>
           else tu\<lparr>nt_daddr := nt_saddr ot, nt_dport := nt_sport ot\<rparr>)"
    unfolding s'(2) pk using translated_tuple [OF g, of "int ?dir = 0" ?tr v] dir tup tu(1)
    by (cases "tu = ot") (simp_all add: rDir_def)
  ultimately show thesis using s'(1) that by blast
qed

text \<open>The first packet of a connection.\<close>

lemma new_ok:
  assumes a: "udp_arrived px z a n t s" "px_GetDir px (na_ext s) a = 0" and z: "z < length (na_ncts s)"
    and ot: "tuple_at a n t s = ot" "nt_proto ot = nat_UDPProtocolNumber" "nat_findConntrack s z ot = None"
    and free: "nat_findConntrack s z (reply_of (nat_invert ot) (na_snatIP s) p) = None"
  obtains s' c q where "nat_udpHandler px a s = Some (Inr (ACCEPT, s'))" and "header_verifies a n s'"
    and "nat_findConntrack s z (reply_of (nat_invert ot) (na_snatIP s) q) = None"
    and "nat_conn z c ot (reply_of (nat_invert ot) (na_snatIP s) q) s'"
    and "tuple_at a n t s' = nat_invert (reply_of (nat_invert ot) (na_snatIP s) q)"
proof -
  let ?p = "pkt (na_pkts s) a" and ?c = "length (na_cts s)"
  have r: "udp_ready ?p n t" and al: "a < length (ps_heap (na_pkts s))" and nx: "px_Next px (na_ext s) a = None"
    using a by (simp_all add: udp_arrived_def)
  have g: "geom ?p n t" using r by (simp add: udp_ready_def)
  define s0 where "s0 = (snd (nat_CreateConntrack z ot s))\<lparr>na_ext := px_SetCt px a ?c (na_ext s)\<rparr>"
  have s0: "na_ncts s0 = na_ncts s" "na_snatIP s0 = na_snatIP s" "na_pkts s0 = na_pkts s" "?c < length (na_cts s0)"
    "na_ext s0 = px_SetCt px a ?c (na_ext s)" "nk_tuple (nat_ct_at s0 ?c) = [ot, nat_invert ot]" "nk_nct (nat_ct_at s0 ?c) = Some z"
    by (simp_all add: s0_def nat_CreateConntrack_def nat_ct_at_def)
  have gc: "px_GetCt px (na_ext s0) a = Some ?c" by (simp add: s0(5) GetCt_SetCt)
  have find: "nat_findConntrack s0 z u = nat_findConntrack s z u" for u by (simp add: nat_findConntrack_def s0(1))
  have rep: "nk_tuple (nat_ct_at s0 ?c) ! nat_ctReply = nat_invert ot" by (simp add: s0(6) nat_ctReply_def)
  obtain q where q: "getUniqueTuple px a s0 = Some (Inr (True, nat_addConntrack z ?c (nat_upd_ct ?c (\<lambda>ct. ct\<lparr>nk_tuple :=
       (nk_tuple ct)[nat_ctReply := reply_of (nat_invert ot) (na_snatIP s) q], nk_natFlag := snatFlag\<rparr>) s0)))"
    "nat_findConntrack s z (reply_of (nat_invert ot) (na_snatIP s) q) = None"
    using getUniqueTuple_ok [OF gc s0(7,4), of p] free unfolding rep s0(2) find by blast
  let ?rt = "reply_of (nat_invert ot) (na_snatIP s) q"
  define s1 where "s1 = nat_addConntrack z ?c (nat_upd_ct ?c (\<lambda>ct. ct\<lparr>nk_tuple :=
       (nk_tuple ct)[nat_ctReply := ?rt], nk_natFlag := snatFlag\<rparr>) s0)"
  have s1: "?c < length (na_cts s1)" "nk_tuple (nat_ct_at s1 ?c) = [ot, ?rt]" "nk_natFlag (nat_ct_at s1 ?c) = snatFlag"
    "na_pkts s1 = na_pkts s" "na_ext s1 = px_SetCt px a ?c (na_ext s)"
    using s0 by (simp_all add: s1_def nat_ct_at_upd nat_ctReply_def)
  have f1: "nat_findConntrack s1 z ot = Some ?c" "nat_findConntrack s1 z ?rt = Some ?c"
    using z s0 by (simp_all add: s1_def nat_find_add nat_ct_at_upd nat_ctReply_def nat_ctOrigin_def)
  have gd: "px_GetDir px (na_ext s1) a = 0" by (simp add: s1(5) GetDir_SetCt a(2))
  have sp: "rd16 (pb_buf ?p) t = nt_sport ot" using ot(1) by (auto simp: udp_tuple_of_def)
  obtain v where v: "doNat px a s1 = Some (Inr (nat_upd_pkt a (?p\<lparr>pb_buf := translated True ?rt v (pb_buf ?p) n t\<rparr>) s1))"
    "CalculateChecksum (win_from (?p\<lparr>pb_buf := translated True ?rt v (pb_buf ?p) n t\<rparr>) n) = Inr 0xffff"
    using doNat_ok [of s1 a ?c n t] al nx r sp ot(2) unfolding gd s1(2-5)
    by (auto simp: GetCt_SetCt Next_SetCt GetDir_SetCt a(2) nat_ctOrigin_def rDir_def)
  let ?q = "?p\<lparr>pb_buf := translated True ?rt v (pb_buf ?p) n t\<rparr>"
  let ?s2 = "nat_count_bytes ?c nat_ctOrigin (ucast (GetDataLen ?p)) (nat_upd_pkt a ?q s1)"
  let ?s3 = "nat_start_timer ?c nat_CT_UDP_NEW_TIMEOUT (nat_ctTimeoutDel ?c) ?s2"
  have h: "nat_udpHandler px a s = Some (Inr (ACCEPT, ?s3))"
    using udpHandler_at [OF a(1)] ot(1,3) q(1) v(1)
    by (simp add: udp_new_def nat_CreateConntrack_def s0_def s1_def Let_def)
  have pk: "pkt (na_pkts ?s3) a = ?q" using al by (simp add: nat_pkt_upd s1(4))
  have "z < length (na_ncts s1)" using z s0(1) by (simp add: s1_def)
  then have "nat_conn z ?c ot ?rt ?s3"
    using s1 f1 ot(2) by (simp add: nat_conn_def nat_ct_at_start nat_ct_at_count nat_findConntrack_def)
  moreover have "header_verifies a n ?s3" unfolding header_verifies_def pk by (rule v(2))
  moreover have "tuple_at a n t ?s3 = nat_invert ?rt"
    unfolding pk using translated_tuple [OF g, of True ?rt v] ot(1) by (simp add: nat_invert_def)
  ultimately show thesis using h q(2) that by blast
qed

end

text \<open>
  C26: an unfragmented UDP packet of a new connection, of the length that its headers claim, is
  accepted and leaves with the address of the host and a port that no other connection of the zone
  uses, under a header checksum that verifies. And from then on, whatever packets the handler takes,
  whatever timer functions run and whatever happens outside of the tables of connections, for as
  long as no timer function deletes an entry of the connection: every such packet to that address
  and port, the first as well as those after the connection is established, is accepted and reaches the
  sender with the addresses and ports of a direct reply, and every further packet of the sender
  leaves with the same translated address and port; all of them again with a checksum that verifies.
  The direction of the first packet has not been set, the sender is not the host itself, and some
  port is free.
\<close>

theorem snat_round_trip:
  assumes "pkt_methods px" and "udp_arrived px z a n t s" and "px_GetDir px (na_ext s) a = 0"
    and "z < length (na_ncts s)" and "tuple_at a n t s = ot" and "nt_proto ot = nat_UDPProtocolNumber"
    and "nat_findConntrack s z ot = None" and "nt_saddr ot \<noteq> na_snatIP s"
    and "nat_findConntrack s z (reply_of (nat_invert ot) (na_snatIP s) p) = None"
  shows "\<exists>s1 q. let rt = reply_of (nat_invert ot) (na_snatIP s) q in
    nat_udpHandler px a s = Some (Inr (ACCEPT, s1)) \<and> nat_findConntrack s z rt = None
    \<and> tuple_at a n t s1 = nat_invert rt \<and> header_verifies a n s1
    \<and> (\<forall>s2 b n' t'. nat_later px ot rt s1 s2 \<and> udp_arrived px z b n' t' s2
         \<and> tuple_at b n' t' s2 \<in> {ot, rt} \<longrightarrow>
         (\<exists>s3. nat_udpHandler px b s2 = Some (Inr (ACCEPT, s3)) \<and> header_verifies b n' s3
            \<and> tuple_at b n' t' s3 = (if tuple_at b n' t' s2 = rt then nat_invert ot else nat_invert rt)))"
proof -
  obtain s1 c q where h: "nat_udpHandler px a s = Some (Inr (ACCEPT, s1))" "header_verifies a n s1"
    "nat_findConntrack s z (reply_of (nat_invert ot) (na_snatIP s) q) = None"
    "nat_conn z c ot (reply_of (nat_invert ot) (na_snatIP s) q) s1"
    "tuple_at a n t s1 = nat_invert (reply_of (nat_invert ot) (na_snatIP s) q)"
    by (rule pkt_methods.new_ok [OF assms(1-7,9)])
  let ?rt = "reply_of (nat_invert ot) (na_snatIP s) q"
  have ne: "?rt \<noteq> ot"
  proof
    assume e: "?rt = ot"
    have "na_snatIP s = nt_daddr ot" using arg_cong [OF e, of nt_daddr] by simp
    moreover have "nt_daddr ot = nt_saddr ot" using arg_cong [OF e, of nt_saddr] by (simp add: nat_invert_def)
    ultimately show False using assms(8) by simp
  qed
  have to: "(if tu = ot then tu\<lparr>nt_saddr := nt_daddr ?rt, nt_sport := nt_dport ?rt\<rparr>
      else tu\<lparr>nt_daddr := nt_saddr ot, nt_dport := nt_sport ot\<rparr>) = (if tu = ?rt then nat_invert ot else nat_invert ?rt)"
    if "tu \<in> {ot, ?rt}" for tu
    using that ne by (auto simp: nat_invert_def reply_of_def)
  have "\<exists>s3. nat_udpHandler px b s2 = Some (Inr (ACCEPT, s3)) \<and> header_verifies b n' s3
      \<and> tuple_at b n' t' s3 = (if tuple_at b n' t' s2 = ?rt then nat_invert ot else nat_invert ?rt)"
    if l: "nat_later px ot ?rt s1 s2" and u: "udp_arrived px z b n' t' s2" and tu: "tuple_at b n' t' s2 \<in> {ot, ?rt}"
    for s2 b n' t'
    using pkt_methods.known_ok [OF assms(1) nat_conn_later [OF assms(1) l h(4)] u refl tu] to [OF tu] by metis
  then show ?thesis unfolding Let_def using h(1,2,3,5) by blast
qed

section \<open>An instance\<close>

text \<open>The missing methods of a packet, over tables from buffers to their values.\<close>

type_synonym pkt_tables = "(nat \<Rightarrow> nat option) \<times> (nat \<Rightarrow> nat option) \<times> (nat \<Rightarrow> int)"

definition table_methods :: "pkt_tables pkt_ext" where
  "table_methods = \<lparr>px_NetworkDataLen = (\<lambda>pb. GetDataLen pb - word_of_int (pb_networkHeader pb)),
     px_SetNext = (\<lambda>a b (n, c, d). (n(a := Some b), c, d)), px_Next = (\<lambda>(n, c, d). n),
     px_SetCt = (\<lambda>a k (n, c, d). (n, c(a := Some k), d)), px_GetCt = (\<lambda>(n, c, d). c),
     px_SetDir = (\<lambda>a v (n, c, d). (n, c, d(a := v))), px_GetDir = (\<lambda>(n, c, d). d), px_PutPktToPool = PutPktToPool\<rparr>"

lemma table_methods_simps [simp]:
  "px_Next table_methods (n, c, d) = n" "px_GetCt table_methods (n, c, d) = c" "px_GetDir table_methods (n, c, d) = d"
  by (simp_all add: table_methods_def)

interpretation pkt_tables: pkt_methods table_methods
  by unfold_locales (auto simp: table_methods_def split: prod.splits)

text \<open>One packet, from 10.0.0.2 port 1000 to 8.8.8.8 port 53, in zone 1 of a host with address 1.2.3.4.\<close>

definition sample_packet :: PktBuf where
  "sample_packet = zero_PktBuf\<lparr>pb_buf := [0x45, 0, 0, 28, 0, 0, 0, 0, 64, 17, 0, 0, 10, 0, 0, 2, 8, 8, 8, 8,
     3, 232, 0, 53, 0, 8, 0, 0] @ replicate 1500 0, pb_networkHeader := 0, pb_transportHeader := 20, pb_vid := 1\<rparr>"

definition sample_nat :: "(nat list, pkt_tables) nat_state" where
  "sample_nat = \<lparr>na_cts = [], na_ncts = [\<lparr>nz_netZone = 1, nz_conntracks = [], nz_fragTables = []\<rparr>],
     na_globalConntrack = [(1, 0)], na_fqs = [], na_frags = [], na_timers = \<lparr>tm_pending = [], tm_running = [], tm_next = 0\<rparr>, na_now = 0,
     na_snatEnable = True, na_snatIP = 0x01020304, na_pkts = empty_store\<lparr>ps_heap := [sample_packet]\<rparr>,
     na_ext = (\<lambda>_. None, \<lambda>_. None, \<lambda>_. 0)\<rparr>"

definition sample_tuple :: nat_ctTuple where
  "sample_tuple = \<lparr>nt_saddr = 0x0a000002, nt_daddr = 0x08080808, nt_sport = 1000, nt_dport = 53, nt_proto = 17\<rparr>"

lemma sample_arrived: "udp_arrived table_methods 0 0 0 20 sample_nat"
  by (simp add: udp_arrived_def sample_nat_def sample_packet_def udp_ready_def geom_def pb_wf_def pktBufSize_def
      rd16_def be16_def nat_GetNctByZone_def GetPktVid_def)

lemma sample_tuple_at: "tuple_at 0 0 20 sample_nat = sample_tuple"
  by (simp add: sample_nat_def sample_packet_def udp_tuple_of_def sample_tuple_def rd16_def rd32_def be16_def be32_def)

theorem snat_round_trip_witness:
  "\<exists>s1 q. nat_udpHandler table_methods 0 sample_nat = Some (Inr (ACCEPT, s1))
     \<and> tuple_at 0 0 20 s1 = \<lparr>nt_saddr = 0x01020304, nt_daddr = 0x08080808, nt_sport = q, nt_dport = 53, nt_proto = 17\<rparr>"
proof -
  have "px_GetDir table_methods (na_ext sample_nat) 0 = 0" "0 < length (na_ncts sample_nat)"
    "nt_proto sample_tuple = nat_UDPProtocolNumber" "nt_saddr sample_tuple \<noteq> na_snatIP sample_nat"
    "nat_findConntrack sample_nat 0 u = None" "na_snatIP sample_nat = 0x01020304" for u
    by (simp_all add: sample_nat_def sample_tuple_def nat_UDPProtocolNumber_def nat_findConntrack_def)
  from snat_round_trip [OF pkt_tables.pkt_methods_axioms sample_arrived this(1,2) sample_tuple_at this(3,5,4,5)] this(6)
  show ?thesis by (auto simp: Let_def sample_tuple_def nat_invert_def reply_of_def)
qed

theorem getUniqueTuple_returns_witness:
  "getUniqueTuple table_methods 0 ((snd (nat_CreateConntrack 0 sample_tuple sample_nat))
     \<lparr>na_ext := px_SetCt table_methods 0 0 (na_ext sample_nat)\<rparr>) \<noteq> None"
  (is "getUniqueTuple _ _ ?s \<noteq> None")
proof -
  have "px_GetCt table_methods (na_ext ?s) 0 = Some 0" "nk_nct (nat_ct_at ?s 0) = Some 0" "0 < length (na_cts ?s)"
    "nat_findConntrack ?s 0 u = None" for u
    by (simp_all add: table_methods_def nat_CreateConntrack_def nat_ct_at_def sample_nat_def nat_findConntrack_def)
  then show ?thesis using getUniqueTuple_returns [of table_methods ?s 0 0 0] by blast
qed

end
