(* ===== verification/Nat_Info.thy ===== *)
theory Nat_Info
  imports Nat_Roundtrip_Props
begin

text \<open>
  Package \<open>nat\<close>, file \<open>info.go\<close>: the list of the connections that the process shows.
\<close>

definition nat_ctStatusString :: "byte \<Rightarrow> string" where
  "nat_ctStatusString st =
     (if st = nat_CT_NEW then ''NEW'' else if st = nat_CT_REPLY then ''REPLY''
      else if st = nat_CT_ESTABLISHED then ''ESTABLISHED'' else if st = nat_CT_DEL then ''DEL''
      else ''unknown'')"

definition nat_ctProtoString :: "byte \<Rightarrow> string" where
  "nat_ctProtoString p = (if p = 6 then ''TCP'' else if p = 17 then ''UDP'' else ''unknown'')"

definition nat_ipString :: "u32 \<Rightarrow> string" where
  "nat_ipString ipaddr =
     (let d = (\<lambda>k. Itoa (unat (ucast (drop_bit k ipaddr) :: byte)))
      in d 24 @ ''.'' @ d 16 @ ''.'' @ d 8 @ ''.'' @ d 0)"

definition nat_ctTuple_String :: "nat_ctTuple \<Rightarrow> string" where
  "nat_ctTuple_String t =
     ''src='' @ nat_ipString (nt_saddr t) @ ''dst='' @ nat_ipString (nt_daddr t) @
     ''sport='' @ Itoa (unat (nt_sport t)) @ ''dport='' @ Itoa (unat (nt_dport t)) @
     ''proto='' @ Itoa (unat (nt_proto t))"

definition nat_conntrack_String :: "('l, 'x) nat_state \<Rightarrow> nat_conntrack \<Rightarrow> string res" where
  "nat_conntrack_String s ct =
     (case nk_nct ct of
        None \<Rightarrow> Inl NilDeref
      | Some n \<Rightarrow> Inr (
          ''status:'' @ nat_ctStatusString (nk_status ct) @
          '' origin:'' @ nat_ctTuple_String (nk_tuple ct ! nat_ctOrigin) @
          ''(bytes:'' @ Itoa (unat (nk_stats ct ! nat_ctOrigin)) @ ''), reply:'' @
          nat_ctTuple_String (nk_tuple ct ! nat_ctReply) @
          ''(bytes:'' @ Itoa (unat (nk_stats ct ! nat_ctReply)) @ ''),outBound='' @
          (if nk_outBound ct then ''true'' else ''false'') @
          '', netZone='' @ Itoa (unat (nz_netZone (na_ncts s ! n)))))"

text \<open>The loop over the table of a zone: a tuple whose inverse has been seen is passed over.\<close>

fun nat_show_zone ::
  "('l, 'x) nat_state \<Rightarrow> (nat_ctTuple \<times> nat) list \<Rightarrow> nat_ctTuple list \<Rightarrow> string list \<Rightarrow> string list res" where
  "nat_show_zone s [] checkTuple nctInfo = Inr nctInfo"
| "nat_show_zone s ((t, c) # cts) checkTuple nctInfo =
     (if t \<in> set checkTuple then nat_show_zone s cts checkTuple nctInfo
      else bind_res (nat_conntrack_String s (nat_ct_at s c)) (\<lambda>x.
        nat_show_zone s cts (nat_invert t # checkTuple) (nctInfo @ [x])))"

definition nat_ShowConntrack :: "('l, 'x) nat_state \<Rightarrow> (u16 \<times> string list) list res" where
  "nat_ShowConntrack s =
     fold_res (\<lambda>(zone, n) info.
        bind_res (nat_show_zone s (nz_conntracks (na_ncts s ! n)) [] []) (\<lambda>x.
        Inr (AList.update zone x info))) (na_globalConntrack s) []"

section \<open>What is shown\<close>

lemma nat_show_zone_all:
  assumes "\<forall>(t, c) \<in> set cts. nk_nct (nat_ct_at s c) \<noteq> None"
    and "\<forall>t \<in> fst ` set cts. t \<notin> set seen \<and> (\<forall>u \<in> fst ` set cts. t \<noteq> nat_invert u)"
  shows "nat_show_zone s cts seen info =
    Inr (info @ map (\<lambda>(t, c). projr (nat_conntrack_String s (nat_ct_at s c))) cts)"
  using assms
proof (induction s cts seen info rule: nat_show_zone.induct)
  case (2 s t c cts seen info)
  obtain x where x: "nat_conntrack_String s (nat_ct_at s c) = Inr x"
    using "2.prems"(1) by (auto simp: nat_conntrack_String_def)
  have "t \<notin> set seen" using "2.prems"(2) by simp
  moreover have "nat_show_zone s cts (nat_invert t # seen) (info @ [x]) =
      Inr ((info @ [x]) @ map (\<lambda>(t, c). projr (nat_conntrack_String s (nat_ct_at s c))) cts)"
    by (rule "2.IH"(2) [OF \<open>t \<notin> set seen\<close>]) (use "2.prems" in auto)
  ultimately show ?case using x by simp
qed simp

text \<open>
  \<open>ShowConntrack\<close> means to show every connection once, and recognises its second entry as the
  inverse of the first. The tuple of the replies of a translated connection is not the inverse of its
  first tuple, so the connection is shown twice.
\<close>

theorem translated_connection_shown_twice:
  assumes "na_globalConntrack s = [(zone, z)]" and "rt = reply_of (nat_invert ot) (na_snatIP s) q"
    and "nz_conntracks (na_ncts s ! z) \<in> {[(ot, c), (rt, c)], [(rt, c), (ot, c)]}"
    and "nk_nct (nat_ct_at s c) = Some z"
    and "nt_saddr ot \<noteq> na_snatIP s" and "nt_daddr ot \<noteq> na_snatIP s" and "nt_saddr ot \<noteq> nt_daddr ot"
  shows "\<exists>x. nat_conntrack_String s (nat_ct_at s c) = Inr x \<and> nat_ShowConntrack s = Inr [(zone, [x, x])]"
proof -
  let ?cts = "nz_conntracks (na_ncts s ! z)"
  obtain x where x: "nat_conntrack_String s (nat_ct_at s c) = Inr x"
    using assms(4) by (auto simp: nat_conntrack_String_def)
  have diff: "ot \<noteq> nat_invert ot" "rt \<noteq> nat_invert ot" "ot \<noteq> nat_invert rt" "rt \<noteq> nat_invert rt"
    using assms(2,5-7) by (auto simp: nat_invert_def reply_of_def dest: arg_cong [of _ _ nt_saddr] arg_cong [of _ _ nt_daddr])
  have "nat_show_zone s ?cts [] [] = Inr ([] @ map (\<lambda>(t, c). projr (nat_conntrack_String s (nat_ct_at s c))) ?cts)"
    by (rule nat_show_zone_all) (use assms(3,4) diff in auto)
  also have "\<dots> = Inr [x, x]" using assms(3) x by auto
  finally show ?thesis using x assms(1) by (simp add: nat_ShowConntrack_def)
qed

theorem translated_connection_shown_twice_witness:
  "\<exists>(s :: (nat list, pkt_tables) nat_state) x. na_snatIP s = 0x01020304 \<and> length (na_cts s) = 1 \<and> nat_ShowConntrack s = Inr [(1, [x, x])]"
proof -
  define r where "r = reply_of (nat_invert sample_tuple) 0x01020304 1000"
  define ct where "ct = (nat_ct_at (snd (nat_CreateConntrack 0 sample_tuple sample_nat)) 0)\<lparr>nk_tuple := [sample_tuple, r]\<rparr>"
  define s where "s = nat_addConntrack 0 0 (sample_nat\<lparr>na_cts := [ct]\<rparr>)"
  have t: "sample_tuple \<noteq> r" by (simp add: r_def sample_tuple_def reply_of_def nat_invert_def)
  have s: "na_globalConntrack s = [(1, 0)]" "na_snatIP s = 0x01020304" "length (na_cts s) = 1"
    "nk_nct (nat_ct_at s 0) = Some 0"
    by (simp_all add: s_def sample_nat_def nat_ct_at_def ct_def nat_CreateConntrack_def)
  have "nz_conntracks (na_ncts s ! 0) = [(sample_tuple, 0), (r, 0)]"
    using t by (simp add: s_def nat_addConntrack_def nat_upd_nct_def nat_ct_at_def Let_def ct_def sample_nat_def
        nat_ctOrigin_def nat_ctReply_def)
  then have "\<exists>x. nat_conntrack_String s (nat_ct_at s 0) = Inr x \<and> nat_ShowConntrack s = Inr [(1, [x, x])]"
    by (intro translated_connection_shown_twice [OF s(1), where rt = r and ot = sample_tuple and q = 1000])
      (simp_all add: s(2,4) r_def sample_tuple_def)
  then show ?thesis using s(2,3) by blast
qed

end
