(* ===== verification/Ring_Buffer.thy ===== *)
theory Ring_Buffer
  imports Go_Prelude
begin

text \<open>
  \<open>reaserch/goRingBuffer.go\<close>: a ring of pointers to packet buffers, used as a pool. Rings and buffers
  are addresses. One slot of the ring stays empty, so that a full ring differs from an empty one.
\<close>

section \<open>State\<close>

record ring_pkt =
  rp_rb :: "nat option"
  rp_id :: int
  rp_ref :: i32
  rp_len :: u16
  rp_buf :: "byte list"

record RingBufferHeader =
  rh_r :: u16
  rh_w :: u16
  rh_count :: u16

record RingBuffer =
  rb_hdr :: RingBufferHeader
  rb_slots :: "nat option list"

record ring_heap =
  rg_rings :: "RingBuffer list"
  rg_pkts :: "ring_pkt list"

definition ring_bufSize :: nat where "ring_bufSize = 1024"

definition zero_ring_pkt :: ring_pkt where
  "zero_ring_pkt = \<lparr>rp_rb = None, rp_id = 0, rp_ref = 0, rp_len = 0, rp_buf = replicate ring_bufSize 0\<rparr>"

definition upd_ring :: "nat \<Rightarrow> RingBuffer \<Rightarrow> ring_heap \<Rightarrow> ring_heap" where
  "upd_ring rb q s = s\<lparr>rg_rings := (rg_rings s)[rb := q]\<rparr>"

definition upd_rpkt :: "nat \<Rightarrow> (ring_pkt \<Rightarrow> ring_pkt) \<Rightarrow> ring_heap \<Rightarrow> ring_heap" where
  "upd_rpkt b f s = s\<lparr>rg_pkts := (rg_pkts s)[b := f (rg_pkts s ! b)]\<rparr>"

section \<open>The ring\<close>

definition NewRingBuffer :: "int \<Rightarrow> ring_heap \<Rightarrow> (nat \<times> ring_heap) res" where
  "NewRingBuffer sz s =
     (if sz < 0 then Inl (PanicMsg ''makeslice: len out of range'')
      else Inr (length (rg_rings s), s\<lparr>rg_rings := rg_rings s @
        [\<lparr>rb_hdr = \<lparr>rh_r = 0, rh_w = 0, rh_count = word_of_int sz\<rparr>, rb_slots = replicate (nat sz) None\<rparr>]\<rparr>))"

definition ring_next :: "u16 \<Rightarrow> u16 \<Rightarrow> u16 res" where
  "ring_next count i = (if count = 0 then Inl (PanicMsg ''integer divide by zero'') else Inr ((i + 1) mod count))"

text \<open>
  What \<open>RBPutBuf\<close> does under its lock, up to the store, and the move of \<open>w\<close>; what \<open>RBGetBuf\<close> does
  under its lock, and the read of the slot after the lock is released.
\<close>

definition ring_store :: "nat \<Rightarrow> RingBuffer \<Rightarrow> (u16 option \<times> RingBuffer) res" where
  "ring_store pb q =
     (let h = rb_hdr q in
      bind_res (ring_next (rh_count h) (rh_w h)) (\<lambda>idx.
      if idx \<noteq> rh_r h then
        if unat (rh_w h) < length (rb_slots q)
        then Inr (Some idx, q\<lparr>rb_slots := (rb_slots q)[unat (rh_w h) := Some pb]\<rparr>)
        else Inl IndexOutOfRange
      else Inr (None, q)))"

definition ring_publish :: "u16 \<Rightarrow> RingBuffer \<Rightarrow> RingBuffer" where
  "ring_publish idx q = q\<lparr>rb_hdr := (rb_hdr q)\<lparr>rh_w := idx\<rparr>\<rparr>"

definition ring_take :: "RingBuffer \<Rightarrow> (u16 option \<times> RingBuffer) res" where
  "ring_take q =
     (let h = rb_hdr q; idx = rh_r h in
      if idx \<noteq> rh_w h then
        bind_res (ring_next (rh_count h) (rh_r h)) (\<lambda>r. Inr (Some idx, q\<lparr>rb_hdr := h\<lparr>rh_r := r\<rparr>\<rparr>))
      else Inr (None, q))"

definition ring_read :: "u16 \<Rightarrow> RingBuffer \<Rightarrow> nat option res" where
  "ring_read idx q = (if unat idx < length (rb_slots q) then Inr (rb_slots q ! unat idx) else Inl IndexOutOfRange)"

definition ring_put :: "nat \<Rightarrow> RingBuffer \<Rightarrow> (bool \<times> RingBuffer) res" where
  "ring_put pb q =
     bind_res (ring_store pb q) (\<lambda>(r, q).
     case r of Some idx \<Rightarrow> Inr (True, ring_publish idx q) | None \<Rightarrow> Inr (False, q))"

definition ring_get :: "RingBuffer \<Rightarrow> (nat option \<times> RingBuffer) res" where
  "ring_get q =
     bind_res (ring_take q) (\<lambda>(r, q).
     case r of Some idx \<Rightarrow> bind_res (ring_read idx q) (\<lambda>pb. Inr (pb, q)) | None \<Rightarrow> Inr (None, q))"

definition RBPutBuf :: "nat \<Rightarrow> nat \<Rightarrow> ring_heap \<Rightarrow> (bool \<times> ring_heap) res" where
  "RBPutBuf rb pb s =
     (let s = upd_rpkt pb (\<lambda>p. p\<lparr>rp_rb := Some rb\<rparr>) s in
      bind_res (ring_put pb (rg_rings s ! rb)) (\<lambda>(ok, q). Inr (ok, upd_ring rb q s)))"

definition RBGetBuf :: "nat \<Rightarrow> ring_heap \<Rightarrow> (nat option \<times> ring_heap) res" where
  "RBGetBuf rb s = bind_res (ring_get (rg_rings s ! rb)) (\<lambda>(pb, q). Inr (pb, upd_ring rb q s))"

section \<open>The pool\<close>

definition rb_HoldPktBuf :: "nat \<Rightarrow> ring_heap \<Rightarrow> ring_heap" where
  "rb_HoldPktBuf pb s = upd_rpkt pb (\<lambda>p. p\<lparr>rp_ref := wrap_i32 (rp_ref p + 1)\<rparr>) s"

definition rb_releasePktBuf :: "nat \<Rightarrow> ring_heap \<Rightarrow> i32 \<times> ring_heap" where
  "rb_releasePktBuf pb s =
     (let s = upd_rpkt pb (\<lambda>p. p\<lparr>rp_ref := wrap_i32 (rp_ref p - 1)\<rparr>) s in (rp_ref (rg_pkts s ! pb), s))"

definition GetBuf :: "nat \<Rightarrow> ring_heap \<Rightarrow> (nat option \<times> ring_heap) res" where
  "GetBuf rb s =
     bind_res (RBGetBuf rb s) (\<lambda>(pb, s).
     case pb of None \<Rightarrow> Inr (None, s) | Some b \<Rightarrow> Inr (Some b, rb_HoldPktBuf b s))"

definition PutBuf :: "nat option \<Rightarrow> ring_heap \<Rightarrow> (bool \<times> ring_heap) res" where
  "PutBuf pb s =
     (case pb of
        None \<Rightarrow> Inl (PanicMsg ''pb is nil'')
      | Some b \<Rightarrow>
          (case rp_rb (rg_pkts s ! b) of
             None \<Rightarrow> Inl (PanicMsg ''pb.rb is nil'')
           | Some rb \<Rightarrow>
               let (ref, s) = rb_releasePktBuf b s in
               if ref = 0 then RBPutBuf rb b s
               else if ref < 0 then Inl (PanicMsg ''ref < 0'')
               else Inr (False, s)))"

definition create_step :: "nat \<Rightarrow> nat \<Rightarrow> nat \<Rightarrow> ring_heap \<Rightarrow> ring_heap res" where
  "create_step mp rb i s =
     (let s = upd_rpkt (mp + i) (\<lambda>p. p\<lparr>rp_id := int i\<rparr>) s in
      bind_res (RBPutBuf rb (mp + i) s) (\<lambda>(ok, s).
      if ok then Inr s else Inl (PanicMsg ''RBPutBuf error'')))"

definition CreateRingBuffer :: "int \<Rightarrow> ring_heap \<Rightarrow> (nat \<times> ring_heap) res" where
  "CreateRingBuffer n s =
     (if n < 0 then Inl (PanicMsg ''makeslice: len out of range'')
      else
        let mp = length (rg_pkts s); s = s\<lparr>rg_pkts := rg_pkts s @ replicate (nat n) zero_ring_pkt\<rparr>
        in bind_res (NewRingBuffer (n + 1) s) (\<lambda>(rb, s).
           bind_res (fold_res (create_step mp rb) [0..<nat n] s) (\<lambda>s. Inr (rb, s))))"

section \<open>The data of a buffer\<close>

definition rb_StoreData :: "byte list \<Rightarrow> ring_pkt \<Rightarrow> ring_pkt" where
  "rb_StoreData data pb =
     (let pb = pb\<lparr>rp_len := word_of_nat (length data)\<rparr>;
          src = take (unat (rp_len pb)) data
      in pb\<lparr>rp_buf := overwrite (rp_buf pb) 0 (take (length (rp_buf pb)) src)\<rparr>)"

definition rb_LoadData :: "ring_pkt \<Rightarrow> byte list res" where
  "rb_LoadData pb =
     (if unat (rp_len pb) \<le> length (rp_buf pb) then Inr (take (unat (rp_len pb)) (rp_buf pb)) else Inl SliceOutOfRange)"

text \<open>The result is the error of the code, or the buffer.\<close>

definition rb_AppendData :: "byte list \<Rightarrow> ring_pkt \<Rightarrow> string + ring_pkt" where
  "rb_AppendData data pb =
     (if length (rp_buf pb) < unat (rp_len pb) + length data then Inl (''out of buf store range '' @ Itoa (length (rp_buf pb)))
      else Inr (pb\<lparr>rp_buf := overwrite (rp_buf pb) (unat (rp_len pb)) data,
                  rp_len := rp_len pb + word_of_nat (length data)\<rparr>))"

section \<open>The program\<close>

definition handleBuf :: "nat \<Rightarrow> ring_heap \<Rightarrow> ring_heap res" where
  "handleBuf pb s =
     bind_res (PutBuf (Some pb) (upd_rpkt pb (\<lambda>p. p\<lparr>rp_len := rp_len p + 1\<rparr>) s)) (\<lambda>(_, s). Inr s)"

text \<open>\<open>show\<close>: the numbers of the lines that it prints.\<close>

definition ring_show :: "nat \<Rightarrow> ring_heap \<Rightarrow> (nat \<times> int \<times> int \<times> nat) list" where
  "ring_show rb s =
     concat (map (\<lambda>(i, pb). case pb of None \<Rightarrow> []
         | Some b \<Rightarrow> let p = rg_pkts s ! b in [(i, rp_id p, rp_ref p, unat (rp_len p))])
       (List.enumerate 0 (rb_slots (rg_rings s ! rb))))"

definition DataBufferNum :: nat where "DataBufferNum = 4"

text \<open>
  The two equal loops of \<open>main\<close>: a buffer is taken, held and handled, then put back. \<open>None\<close> is the
  return of \<open>main\<close> when there is no buffer.
\<close>

definition main_round :: "nat \<Rightarrow> nat \<Rightarrow> ring_heap \<Rightarrow> ring_heap option res" where
  "main_round rb j s =
     bind_res (GetBuf rb s) (\<lambda>(pb, s).
     case pb of
       None \<Rightarrow> Inr None
     | Some b \<Rightarrow>
         bind_res (fold_res (\<lambda>i s. handleBuf b (rb_HoldPktBuf b s)) [0..<DataBufferNum + j] s) (\<lambda>s.
         bind_res (PutBuf (Some b) s) (\<lambda>(_, s). Inr (Some s))))"

definition main_loop :: "nat \<Rightarrow> ring_heap option \<Rightarrow> ring_heap option res" where
  "main_loop rb s =
     fold_res (\<lambda>j s. case s of None \<Rightarrow> Inr None | Some s \<Rightarrow> main_round rb j s) [0..<DataBufferNum] s"

text \<open>The result has the lists that \<open>show\<close> prints and, unless \<open>main\<close> returned early, the state.\<close>

definition ring_main :: "ring_heap \<Rightarrow> (nat \<times> (nat \<times> int \<times> int \<times> nat) list list \<times> ring_heap option) res" where
  "ring_main s =
     bind_res (CreateRingBuffer (int DataBufferNum) s) (\<lambda>(rb, s).
     let t0 = ring_show rb s in
     bind_res (main_loop rb (Some s)) (\<lambda>s1.
     case s1 of
       None \<Rightarrow> Inr (rb, [t0], None)
     | Some s1 \<Rightarrow>
         let t1 = ring_show rb s1 in
         bind_res (main_loop rb (Some s1)) (\<lambda>s2.
         case s2 of
           None \<Rightarrow> Inr (rb, [t0, t1], None)
         | Some s2 \<Rightarrow> Inr (rb, [t0, t1, ring_show rb s2], Some s2))))"

end
