(* ===== verification/Ring_Queue.thy ===== *)
theory Ring_Queue
  imports Ring_Buffer
begin

text \<open>
  The contract of a bounded queue as a locale, its consequence for any sequence of operations, and
  the ring as an instance of it.
\<close>

section \<open>A bounded queue\<close>

datatype 'a queue_op = Put_op 'a | Get_op

datatype 'a queue_result = Put_result bool | Get_result "'a option"

primrec run_queue ::
  "('a \<Rightarrow> 's \<Rightarrow> (bool \<times> 's) res) \<Rightarrow> ('s \<Rightarrow> ('a option \<times> 's) res) \<Rightarrow> 'a queue_op list \<Rightarrow> 's \<Rightarrow>
   ('a queue_result list \<times> 's) res"
where
  "run_queue put get [] s = Inr ([], s)"
| "run_queue put get (p # ps) s =
     (case p of
        Put_op x \<Rightarrow> bind_res (put x s) (\<lambda>(b, s).
          bind_res (run_queue put get ps s) (\<lambda>(rs, s). Inr (Put_result b # rs, s)))
      | Get_op \<Rightarrow> bind_res (get s) (\<lambda>(v, s).
          bind_res (run_queue put get ps s) (\<lambda>(rs, s). Inr (Get_result v # rs, s))))"

text \<open>What they do to a list of at most \<open>n\<close> elements.\<close>

fun spec_queue :: "nat \<Rightarrow> 'a queue_op list \<Rightarrow> 'a list \<Rightarrow> 'a queue_result list \<times> 'a list" where
  "spec_queue n [] xs = ([], xs)"
| "spec_queue n (Put_op x # ps) xs =
     (if length xs < n then let (rs, ys) = spec_queue n ps (xs @ [x]) in (Put_result True # rs, ys)
      else let (rs, ys) = spec_queue n ps xs in (Put_result False # rs, ys))"
| "spec_queue n (Get_op # ps) xs =
     (case xs of
        [] \<Rightarrow> let (rs, ys) = spec_queue n ps [] in (Get_result None # rs, ys)
      | x # xs \<Rightarrow> let (rs, ys) = spec_queue n ps xs in (Get_result (Some x) # rs, ys))"

locale bounded_queue =
  fixes inv :: "'s \<Rightarrow> bool"
    and items :: "'s \<Rightarrow> 'a list"
    and cap :: "'s \<Rightarrow> nat"
    and put :: "'a \<Rightarrow> 's \<Rightarrow> (bool \<times> 's) res"
    and get :: "'s \<Rightarrow> ('a option \<times> 's) res"
  assumes put_full: "inv s \<Longrightarrow> \<not> length (items s) < cap s \<Longrightarrow> put x s = Inr (False, s)"
    and put_room: "inv s \<Longrightarrow> length (items s) < cap s \<Longrightarrow>
      \<exists>s'. put x s = Inr (True, s') \<and> inv s' \<and> cap s' = cap s \<and> items s' = items s @ [x]"
    and get_empty: "inv s \<Longrightarrow> items s = [] \<Longrightarrow> get s = Inr (None, s)"
    and get_first: "inv s \<Longrightarrow> items s = x # xs \<Longrightarrow>
      \<exists>s'. get s = Inr (Some x, s') \<and> inv s' \<and> cap s' = cap s \<and> items s' = xs"
begin

lemma run_refines:
  assumes "inv s"
  shows "\<exists>s'. run_queue put get ps s = Inr (fst (spec_queue (cap s) ps (items s)), s') \<and> inv s'
    \<and> cap s' = cap s \<and> items s' = snd (spec_queue (cap s) ps (items s))"
  using assms
proof (induction ps arbitrary: s)
  case (Cons p ps)
  show ?case
  proof (cases p)
    case (Put_op x)
    show ?thesis
    proof (cases "length (items s) < cap s")
      case True
      obtain s1 where s1: "put x s = Inr (True, s1)" "inv s1" "cap s1 = cap s" "items s1 = items s @ [x]"
        using put_room [OF Cons.prems True] by blast
      then show ?thesis using Cons.IH [OF s1(2)] Put_op True by (auto split: prod.splits)
    next
      case False
      then show ?thesis
        using Cons.IH [OF Cons.prems] put_full [OF Cons.prems False] Put_op by (auto split: prod.splits)
    qed
  next
    case Get_op
    show ?thesis
    proof (cases "items s")
      case Nil
      then show ?thesis
        using Cons.IH [OF Cons.prems] get_empty [OF Cons.prems] Get_op by (auto split: prod.splits)
    next
      case (Cons x xs)
      obtain s1 where s1: "get s = Inr (Some x, s1)" "inv s1" "cap s1 = cap s" "items s1 = xs"
        using get_first [OF Cons.prems Cons] by blast
      then show ?thesis using Cons.IH [OF s1(2)] Get_op Cons by (auto split: prod.splits)
    qed
  qed
qed simp

end

section \<open>The ring is one\<close>

definition ring_count :: "RingBuffer \<Rightarrow> nat" where
  "ring_count q = unat (rh_count (rb_hdr q))"

text \<open>The slots in use, from \<open>r\<close> on; \<open>w\<close> counted as if the ring did not wrap.\<close>

definition ring_first :: "RingBuffer \<Rightarrow> nat" where "ring_first q = unat (rh_r (rb_hdr q))"

definition ring_end :: "RingBuffer \<Rightarrow> nat" where
  "ring_end q = (let w = unat (rh_w (rb_hdr q)) in if ring_first q \<le> w then w else w + ring_count q)"

definition ring_used :: "RingBuffer \<Rightarrow> nat option list" where
  "ring_used q = map (\<lambda>k. rb_slots q ! (k mod ring_count q)) [ring_first q..<ring_end q]"

definition ring_items :: "RingBuffer \<Rightarrow> nat list" where
  "ring_items q = map the (ring_used q)"

definition ring_cap :: "RingBuffer \<Rightarrow> nat" where
  "ring_cap q = ring_count q - 1"

definition ring_shape :: "RingBuffer \<Rightarrow> bool" where
  "ring_shape q \<longleftrightarrow> ring_first q < ring_count q \<and> unat (rh_w (rb_hdr q)) < ring_count q
     \<and> ring_count q \<le> length (rb_slots q)"

definition ring_inv :: "RingBuffer \<Rightarrow> bool" where
  "ring_inv q \<longleftrightarrow> ring_shape q \<and> None \<notin> set (ring_used q)"

lemma ring_next_ok:
  assumes "unat i < unat count"
  shows "ring_next count i = Inr ((i + 1) mod count)"
    and "unat ((i + 1) mod count) = (if Suc (unat i) = unat count then 0 else Suc (unat i))"
proof -
  show "ring_next count i = Inr ((i + 1) mod count)" using assms by (auto simp: ring_next_def)
  have "unat count < 65536" using unsigned_less [where ?'a = nat, of count] by simp
  then have "unat (i + 1) = Suc (unat i)" using assms by (simp add: unat_word_ariths)
  then show "unat ((i + 1) mod count) = (if Suc (unat i) = unat count then 0 else Suc (unat i))"
    using assms by (simp add: unat_mod)
qed

lemma mod_other:
  fixes k m c :: nat
  assumes "k < m" and "m < k + c"
  shows "k mod c \<noteq> m mod c"
proof
  assume "k mod c = m mod c"
  then have "c dvd m - k" using assms(1) by (metis less_imp_le_nat mod_eq_dvd_iff_nat)
  then have "c \<le> m - k" using assms(1) by (intro dvd_imp_le) simp_all
  then show False using assms by simp
qed

lemma ring_end_mod: "ring_shape q \<Longrightarrow> ring_end q mod ring_count q = unat (rh_w (rb_hdr q))"
  by (simp add: ring_end_def ring_shape_def Let_def)

lemma ring_bounds: "ring_shape q \<Longrightarrow> ring_first q \<le> ring_end q \<and> ring_end q < ring_first q + ring_count q"
  by (auto simp: ring_end_def ring_shape_def Let_def)

lemma length_ring_items: "length (ring_items q) = ring_end q - ring_first q"
  by (simp add: ring_items_def ring_used_def)

lemma ring_full_iff:
  assumes "ring_shape q"
  shows "(rh_w (rb_hdr q) + 1) mod rh_count (rb_hdr q) = rh_r (rb_hdr q) \<longleftrightarrow> \<not> length (ring_items q) < ring_cap q"
proof -
  let ?h = "rb_hdr q"
  have "(rh_w ?h + 1) mod rh_count ?h = rh_r ?h \<longleftrightarrow> unat ((rh_w ?h + 1) mod rh_count ?h) = ring_first q"
    by (simp add: ring_first_def word_unat_eq_iff)
  then show ?thesis
    using assms ring_next_ok(2) [of "rh_w ?h" "rh_count ?h"]
    by (auto simp: length_ring_items ring_cap_def ring_end_def ring_shape_def ring_count_def Let_def split: if_splits)
qed

text \<open>A store in the slot behind the last one leaves the slots in use alone.\<close>

lemma ring_used_store:
  assumes "ring_shape q" and "k \<in> {ring_first q..<ring_end q}"
  shows "(rb_slots q)[unat (rh_w (rb_hdr q)) := v] ! (k mod ring_count q) = rb_slots q ! (k mod ring_count q)"
  using assms mod_other [of k "ring_end q" "ring_count q"] ring_bounds [OF assms(1)] ring_end_mod [OF assms(1)]
  by (simp add: nth_list_update)

lemma ring_store_full:
  "ring_shape q \<Longrightarrow> \<not> length (ring_items q) < ring_cap q \<Longrightarrow> ring_store pb q = Inr (None, q)"
  using ring_full_iff [of q] ring_next_ok(1) [of "rh_w (rb_hdr q)" "rh_count (rb_hdr q)"]
  by (simp add: ring_store_def Let_def ring_shape_def ring_count_def)

lemma ring_store_room:
  assumes "ring_shape q" and "length (ring_items q) < ring_cap q"
  shows "ring_store pb q = Inr (Some ((rh_w (rb_hdr q) + 1) mod rh_count (rb_hdr q)),
    q\<lparr>rb_slots := (rb_slots q)[unat (rh_w (rb_hdr q)) := Some pb]\<rparr>)"
  using assms ring_full_iff [OF assms(1)] ring_next_ok(1) [of "rh_w (rb_hdr q)" "rh_count (rb_hdr q)"]
  by (auto simp: ring_store_def Let_def ring_shape_def ring_count_def)

text \<open>\<open>w\<close> moves on: the last slot in use is the one it left.\<close>

lemma ring_publish_end:
  assumes "ring_shape q" and "length (ring_items q) < ring_cap q"
  defines "q' \<equiv> ring_publish ((rh_w (rb_hdr q) + 1) mod rh_count (rb_hdr q)) q"
  shows "ring_shape q'" and "ring_first q' = ring_first q" and "ring_end q' = Suc (ring_end q)"
    and "ring_count q' = ring_count q" and "rb_slots q' = rb_slots q"
proof -
  let ?h = "rb_hdr q"
  have w: "unat (rh_w ?h) < unat (rh_count ?h)" "ring_first q < ring_count q" "ring_count q \<le> length (rb_slots q)"
    using assms(1) by (simp_all add: ring_shape_def ring_count_def)
  note n = ring_next_ok(2) [OF w(1)]
  have room: "ring_end q - ring_first q < ring_count q - 1" using assms(2) by (simp add: length_ring_items ring_cap_def)
  show "ring_first q' = ring_first q" "ring_count q' = ring_count q" "rb_slots q' = rb_slots q"
    by (simp_all add: q'_def ring_publish_def ring_first_def ring_count_def)
  show "ring_shape q'" using w n by (auto simp: q'_def ring_publish_def ring_first_def ring_count_def ring_shape_def)
  show "ring_end q' = Suc (ring_end q)"
    using w n room by (auto simp: q'_def ring_publish_def ring_first_def ring_count_def ring_end_def Let_def split: if_splits)
qed

lemma ring_put_room:
  assumes "ring_inv q" and "length (ring_items q) < ring_cap q"
  shows "\<exists>q'. ring_put pb q = Inr (True, q') \<and> ring_inv q' \<and> ring_cap q' = ring_cap q \<and> ring_items q' = ring_items q @ [pb]"
proof -
  have sh: "ring_shape q" and un: "None \<notin> set (ring_used q)" using assms(1) by (simp_all add: ring_inv_def)
  let ?h = "rb_hdr q" and ?q1 = "q\<lparr>rb_slots := (rb_slots q)[unat (rh_w (rb_hdr q)) := Some pb]\<rparr>"
  let ?idx = "(rh_w ?h + 1) mod rh_count ?h"
  let ?q' = "ring_publish ?idx ?q1"
  have q1: "ring_first ?q1 = ring_first q" "ring_end ?q1 = ring_end q" "ring_count ?q1 = ring_count q" "ring_shape ?q1"
    "ring_cap ?q1 = ring_cap q" "length (ring_items ?q1) = length (ring_items q)" "rb_hdr ?q1 = rb_hdr q"
    using sh by (simp_all add: ring_first_def ring_end_def ring_count_def ring_shape_def ring_cap_def length_ring_items Let_def)
  note e = ring_publish_end [OF q1(4), unfolded q1, OF assms(2)]
  have le: "ring_first q \<le> ring_end q" using ring_bounds [OF sh] by simp
  have w: "unat (rh_w ?h) < length (rb_slots q)" using sh by (simp add: ring_shape_def)
  have "ring_used ?q' = map (\<lambda>k. (rb_slots q)[unat (rh_w ?h) := Some pb] ! (k mod ring_count q)) [ring_first q..<ring_end q]
      @ [(rb_slots q)[unat (rh_w ?h) := Some pb] ! (ring_end q mod ring_count q)]"
    using le by (simp add: ring_used_def e upt_Suc_append)
  also have "\<dots> = ring_used q @ [Some pb]"
    using w ring_end_mod [OF sh] ring_used_store [OF sh] by (simp add: ring_used_def)
  finally have u: "ring_used ?q' = ring_used q @ [Some pb]" .
  have "ring_put pb q = Inr (True, ?q')" by (simp add: ring_put_def ring_store_room [OF sh assms(2)])
  moreover have "ring_inv ?q'" using e(1) un u by (simp add: ring_inv_def)
  moreover have "ring_items ?q' = ring_items q @ [pb]" by (simp add: ring_items_def u)
  moreover have "ring_cap ?q' = ring_cap q" by (simp add: ring_cap_def e(4))
  ultimately show ?thesis by blast
qed

text \<open>\<open>r\<close> moves on: the first slot in use is free.\<close>

lemma ring_take_empty: "ring_shape q \<Longrightarrow> ring_items q = [] \<Longrightarrow> ring_take q = Inr (None, q)"
proof -
  assume "ring_shape q" "ring_items q = []"
  then have "ring_end q = ring_first q" using ring_bounds [of q] length_ring_items [of q] by simp
  then have "rh_r (rb_hdr q) = rh_w (rb_hdr q)"
    using \<open>ring_shape q\<close> by (auto simp: ring_end_def ring_first_def ring_shape_def Let_def word_unat_eq_iff split: if_splits)
  then show ?thesis by (simp add: ring_take_def Let_def)
qed

lemma ring_take_some:
  assumes "ring_shape q" and "ring_first q < ring_end q"
  obtains q' where "ring_take q = Inr (Some (rh_r (rb_hdr q)), q')" and "ring_shape q'" and "rb_slots q' = rb_slots q"
    and "ring_count q' = ring_count q" and "rh_w (rb_hdr q') = rh_w (rb_hdr q)"
    and "ring_used q' = tl (ring_used q)" and "ring_end q' - ring_first q' = ring_end q - Suc (ring_first q)"
    and "ring_first q' = Suc (ring_first q) mod ring_count q"
proof -
  let ?h = "rb_hdr q"
  let ?q' = "q\<lparr>rb_hdr := ?h\<lparr>rh_r := (rh_r ?h + 1) mod rh_count ?h\<rparr>\<rparr>"
  have r: "unat (rh_r ?h) < unat (rh_count ?h)" "unat (rh_w ?h) < ring_count q" "ring_count q \<le> length (rb_slots q)"
    using assms(1) by (simp_all add: ring_shape_def ring_count_def ring_first_def)
  note n = ring_next_ok [OF r(1)]
  have ne: "rh_r ?h \<noteq> rh_w ?h" using assms(2) by (auto simp: ring_end_def ring_first_def Let_def)
  have f: "ring_first ?q' = (if Suc (ring_first q) = ring_count q then 0 else Suc (ring_first q))" "ring_count ?q' = ring_count q"
    using n(2) by (simp_all add: ring_first_def ring_count_def)
  have sh: "ring_shape ?q'" using r f by (auto simp: ring_shape_def ring_first_def ring_count_def)
  have fm: "ring_first ?q' = Suc (ring_first q) mod ring_count q"
    unfolding f(1) using r(1) by (auto simp: ring_first_def ring_count_def)
  have e: "ring_end ?q' = (if Suc (ring_first q) = ring_count q then ring_end q - ring_count q else ring_end q)"
    using f r assms(2) unfolding ring_end_def Let_def
    by (auto simp: ring_first_def ring_count_def)
  have tlu: "tl (ring_used q) = map (\<lambda>k. rb_slots q ! (k mod ring_count q)) [Suc (ring_first q)..<ring_end q]"
    using assms(2) by (simp add: ring_used_def upt_conv_Cons)
  have us: "ring_used ?q' = tl (ring_used q)"
  proof (cases "Suc (ring_first q) = ring_count q")
    case True
    have "[ring_count q..<ring_end q] = map (\<lambda>k. k + ring_count q) [0..<ring_end q - ring_count q]"
      using assms(2) True by (simp add: map_add_upt)
    then show ?thesis using True by (simp add: ring_used_def [of ?q'] tlu f e comp_def)
  next
    case False
    then show ?thesis by (simp add: ring_used_def [of ?q'] tlu f e)
  qed
  show thesis
    by (rule that [of ?q', OF _ sh _ f(2) _ us _ fm]) (use ne n(1) f e in \<open>auto simp: ring_take_def Let_def\<close>)
qed

lemma ring_read_first:
  assumes "ring_inv q" and "ring_items q = x # xs"
  shows "ring_first q < ring_end q" and "ring_read (rh_r (rb_hdr q)) q = Inr (Some x)"
proof -
  show l: "ring_first q < ring_end q" using assms(2) length_ring_items [of q] by simp
  have sh: "ring_shape q" and n: "None \<notin> set (ring_used q)" using assms(1) by (simp_all add: ring_inv_def)
  have u: "ring_used q = rb_slots q ! (ring_first q mod ring_count q) # tl (ring_used q)"
    using l by (simp add: ring_used_def upt_conv_Cons)
  have "rb_slots q ! (ring_first q mod ring_count q) = Some x"
    using assms(2) n u by (cases "rb_slots q ! (ring_first q mod ring_count q)") (auto simp: ring_items_def)
  then show "ring_read (rh_r (rb_hdr q)) q = Inr (Some x)"
    using sh by (simp add: ring_read_def ring_shape_def ring_first_def)
qed

lemma ring_get_first:
  assumes "ring_inv q" and "ring_items q = x # xs"
  shows "\<exists>q'. ring_get q = Inr (Some x, q') \<and> ring_inv q' \<and> ring_cap q' = ring_cap q \<and> ring_items q' = xs"
proof -
  have sh: "ring_shape q" and n: "None \<notin> set (ring_used q)" using assms(1) by (simp_all add: ring_inv_def)
  note rd = ring_read_first [OF assms]
  obtain q' where q': "ring_take q = Inr (Some (rh_r (rb_hdr q)), q')" "ring_shape q'" "rb_slots q' = rb_slots q"
    "ring_count q' = ring_count q" "ring_used q' = tl (ring_used q)"
    by (rule ring_take_some [OF sh rd(1)])
  have "ring_read (rh_r (rb_hdr q)) q' = Inr (Some x)" using rd(2) unfolding ring_read_def q'(3) .
  then have "ring_get q = Inr (Some x, q')" by (simp add: ring_get_def q'(1))
  moreover have "set (tl (ring_used q)) \<subseteq> set (ring_used q)" by (cases "ring_used q") auto
  then have "ring_inv q'" using n q'(2,5) by (auto simp: ring_inv_def)
  moreover have "ring_items q' = xs" using assms(2) q'(5) by (auto simp: ring_items_def map_eq_Cons_conv)
  ultimately show ?thesis using q'(4) by (simp add: ring_cap_def)
qed

interpretation rq: bounded_queue ring_inv ring_items ring_cap ring_put ring_get
proof unfold_locales
  fix q :: RingBuffer and x
  assume i: "ring_inv q"
  then have sh: "ring_shape q" by (simp add: ring_inv_def)
  show "ring_put x q = Inr (False, q)" if "\<not> length (ring_items q) < ring_cap q"
    using ring_store_full [OF sh that] by (simp add: ring_put_def)
  show "ring_get q = Inr (None, q)" if "ring_items q = []"
    using ring_take_empty [OF sh that] by (simp add: ring_get_def)
qed (blast intro: ring_put_room ring_get_first)+

lemma new_ring:
  assumes "0 < c" and "c < 65536"
  defines "q \<equiv> \<lparr>rb_hdr = \<lparr>rh_r = 0, rh_w = 0, rh_count = word_of_nat c\<rparr>, rb_slots = replicate c None\<rparr>"
  shows "ring_inv q" and "ring_items q = []" and "ring_cap q = c - 1"
proof -
  have "unat (word_of_nat c :: u16) = c" using assms(2) by (simp add: unsigned_of_nat take_bit_nat_eq_self)
  then show "ring_inv q" "ring_items q = []" "ring_cap q = c - 1"
    using assms(1) by (simp_all add: q_def ring_inv_def ring_shape_def ring_first_def ring_end_def ring_count_def
        ring_used_def ring_items_def ring_cap_def Let_def)
qed

text \<open>
  C34: a new ring of \<open>c\<close> slots refines a bounded queue of \<open>c - 1\<close> elements: whatever the sequence of
  puts and gets, it does not panic, a put fails exactly when \<open>c - 1\<close> elements are in it, and the gets
  return them in the order of the puts, across every wrap of the indices.
\<close>

theorem ring_refines_queue:
  assumes "0 < c" and "c < 65536"
  shows "\<exists>q'. run_queue ring_put ring_get ps
      \<lparr>rb_hdr = \<lparr>rh_r = 0, rh_w = 0, rh_count = word_of_nat c\<rparr>, rb_slots = replicate c None\<rparr>
    = Inr (fst (spec_queue (c - 1) ps []), q') \<and> ring_items q' = snd (spec_queue (c - 1) ps [])"
  using rq.run_refines [OF new_ring(1) [OF assms], of ps] by (auto simp: new_ring [OF assms])

theorem ring_refines_queue_witness:
  "\<exists>q'. run_queue ring_put ring_get [Put_op 1, Put_op 2, Put_op 3, Get_op, Put_op 4, Get_op, Get_op, Get_op]
      \<lparr>rb_hdr = \<lparr>rh_r = 0, rh_w = 0, rh_count = 3\<rparr>, rb_slots = [None, None, None]\<rparr>
    = Inr ([Put_result True, Put_result True, Put_result False, Get_result (Some 1), Put_result True,
        Get_result (Some 2), Get_result (Some 4), Get_result None], q')"
  using ring_refines_queue [of 3 "[Put_op 1, Put_op 2, Put_op 3, Get_op, Put_op 4, Get_op, Get_op, Get_op]"]
  by (auto simp: numeral_3_eq_3)

end
