(* ===== verification/Ring_Pool.thy ===== *)
theory Ring_Pool
  imports Ring_Queue
begin

text \<open>
  The ring as a pool of buffers: every buffer is in the ring exactly while nobody holds it, so the
  last holder always finds room for it.
\<close>

section \<open>Reading the heap\<close>

lemma upd_simps [simp]:
  "rg_rings (upd_rpkt b f s) = rg_rings s" "rg_pkts (upd_ring rb q s) = rg_pkts s"
  "length (rg_pkts (upd_rpkt b f s)) = length (rg_pkts s)" "length (rg_rings (upd_ring rb q s)) = length (rg_rings s)"
  by (simp_all add: upd_rpkt_def upd_ring_def)

lemma rpkt_upd [simp]:
  "b < length (rg_pkts s) \<Longrightarrow> rg_pkts (upd_rpkt b f s) ! c = (if c = b then f (rg_pkts s ! b) else rg_pkts s ! c)"
  by (simp add: upd_rpkt_def)

lemma ring_upd [simp]: "rb < length (rg_rings s) \<Longrightarrow> rg_rings (upd_ring rb q s) ! rb = q"
  by (simp add: upd_ring_def)

section \<open>The invariant\<close>

definition pool_ok :: "nat \<Rightarrow> nat \<Rightarrow> ring_heap \<Rightarrow> bool" where
  "pool_ok n rb s \<longleftrightarrow>
     (let q = rg_rings s ! rb in
      rb < length (rg_rings s) \<and> length (rg_pkts s) = n \<and> ring_inv q \<and> ring_cap q = n \<and> distinct (ring_items q)
      \<and> set (ring_items q) = {b. b < n \<and> rp_ref (rg_pkts s ! b) = 0}
      \<and> (\<forall>b < n. rp_rb (rg_pkts s ! b) = Some rb \<and> 0 \<le> rp_ref (rg_pkts s ! b) \<and> rp_ref (rg_pkts s ! b) < 2147483648))"

lemma pool_okD:
  assumes "pool_ok n rb s"
  shows "rb < length (rg_rings s)" "length (rg_pkts s) = n" "ring_inv (rg_rings s ! rb)" "ring_cap (rg_rings s ! rb) = n"
    "distinct (ring_items (rg_rings s ! rb))" "set (ring_items (rg_rings s ! rb)) = {b. b < n \<and> rp_ref (rg_pkts s ! b) = 0}"
    "b < n \<Longrightarrow> rp_rb (rg_pkts s ! b) = Some rb" "b < n \<Longrightarrow> 0 \<le> rp_ref (rg_pkts s ! b)"
    "b < n \<Longrightarrow> rp_ref (rg_pkts s ! b) < 2147483648"
  using assms by (simp_all add: pool_ok_def Let_def)

text \<open>While a buffer is held the ring has room.\<close>

lemma pool_room:
  assumes p: "pool_ok n rb s" and b: "b < n" "0 < rp_ref (rg_pkts s ! b)"
  shows "length (ring_items (rg_rings s ! rb)) < ring_cap (rg_rings s ! rb)"
proof -
  have "set (ring_items (rg_rings s ! rb)) \<subseteq> {..<n} - {b}" unfolding pool_okD(6) [OF p] using b by auto
  then have "card (set (ring_items (rg_rings s ! rb))) \<le> card ({..<n} - {b})" by (intro card_mono) simp_all
  moreover have "card ({..<n} - {b}) = n - 1" using b(1) by simp
  ultimately have "card (set (ring_items (rg_rings s ! rb))) \<le> n - 1" by simp
  then show ?thesis using distinct_card [OF pool_okD(5) [OF p]] pool_okD(4) [OF p] b by simp
qed

lemma GetBuf_ok:
  assumes p: "pool_ok n rb s"
  shows "(\<forall>b < n. 0 < rp_ref (rg_pkts s ! b)) \<Longrightarrow> GetBuf rb s = Inr (None, s)"
    and "ring_items (rg_rings s ! rb) = b # bs \<Longrightarrow> \<exists>q. GetBuf rb s = Inr (Some b, rb_HoldPktBuf b (upd_ring rb q s))
      \<and> ring_items q = bs \<and> pool_ok n rb (rb_HoldPktBuf b (upd_ring rb q s))"
proof -
  note D = pool_okD [OF p]
  {
    assume a: "\<forall>b < n. 0 < rp_ref (rg_pkts s ! b)"
    have "set (ring_items (rg_rings s ! rb)) = {}" unfolding D(6) using a by fastforce
    then have "ring_get (rg_rings s ! rb) = Inr (None, rg_rings s ! rb)" by (intro rq.get_empty [OF D(3)]) simp
    then show "GetBuf rb s = Inr (None, s)" by (simp add: GetBuf_def RBGetBuf_def upd_ring_def)
  next
    assume l: "ring_items (rg_rings s ! rb) = b # bs"
    then obtain q where q: "ring_get (rg_rings s ! rb) = Inr (Some b, q)" "ring_inv q" "ring_cap q = n" "ring_items q = bs"
      using rq.get_first [OF D(3) l] D(4) by auto
    have b: "b < n" "rp_ref (rg_pkts s ! b) = 0" using D(6) l by auto
    have "pool_ok n rb (rb_HoldPktBuf b (upd_ring rb q s))"
      using D q b l by (auto simp: pool_ok_def Let_def rb_HoldPktBuf_def)
    then show "\<exists>q. GetBuf rb s = Inr (Some b, rb_HoldPktBuf b (upd_ring rb q s)) \<and> ring_items q = bs
        \<and> pool_ok n rb (rb_HoldPktBuf b (upd_ring rb q s))"
      using q by (auto simp: GetBuf_def RBGetBuf_def)
  }
qed

lemma Hold_ok:
  assumes p: "pool_ok n rb s" and b: "b < n" "0 < rp_ref (rg_pkts s ! b)" "rp_ref (rg_pkts s ! b) < 2147483647"
  shows "pool_ok n rb (rb_HoldPktBuf b s)"
  using pool_okD [OF p] b by (auto simp: pool_ok_def Let_def rb_HoldPktBuf_def)

lemma PutBuf_ok:
  assumes p: "pool_ok n rb s" and b: "b < n" "0 < rp_ref (rg_pkts s ! b)"
  shows "1 < rp_ref (rg_pkts s ! b) \<Longrightarrow>
      PutBuf (Some b) s = Inr (False, upd_rpkt b (\<lambda>p. p\<lparr>rp_ref := rp_ref p - 1\<rparr>) s)
      \<and> pool_ok n rb (upd_rpkt b (\<lambda>p. p\<lparr>rp_ref := rp_ref p - 1\<rparr>) s)"
    and "rp_ref (rg_pkts s ! b) = 1 \<Longrightarrow>
      \<exists>q. PutBuf (Some b) s = Inr (True, upd_ring rb q (upd_rpkt b (\<lambda>p. p\<lparr>rp_ref := 0\<rparr>) s))
      \<and> ring_items q = ring_items (rg_rings s ! rb) @ [b]
      \<and> pool_ok n rb (upd_ring rb q (upd_rpkt b (\<lambda>p. p\<lparr>rp_ref := 0\<rparr>) s))"
proof -
  note D = pool_okD [OF p]
  let ?p = "rg_pkts s ! b"
  have w: "wrap_i32 (rp_ref ?p - 1) = rp_ref ?p - 1" using D(9) [OF b(1)] b(2) by simp
  have lim: "rp_ref ?p < 2147483649" using D(9) [OF b(1)] by simp
  have rel: "rb_releasePktBuf b s = (rp_ref ?p - 1, upd_rpkt b (\<lambda>p. p\<lparr>rp_ref := rp_ref p - 1\<rparr>) s)"
    using b(1) D(2) w by (simp add: rb_releasePktBuf_def upd_rpkt_def)
  {
    assume "1 < rp_ref ?p"
    then show "PutBuf (Some b) s = Inr (False, upd_rpkt b (\<lambda>p. p\<lparr>rp_ref := rp_ref p - 1\<rparr>) s)
      \<and> pool_ok n rb (upd_rpkt b (\<lambda>p. p\<lparr>rp_ref := rp_ref p - 1\<rparr>) s)"
      using D b lim rel by (auto simp: PutBuf_def pool_ok_def Let_def)
  next
    assume one: "rp_ref ?p = 1"
    obtain q where q: "ring_put b (rg_rings s ! rb) = Inr (True, q)" "ring_inv q" "ring_cap q = n"
      "ring_items q = ring_items (rg_rings s ! rb) @ [b]"
      using rq.put_room [OF D(3) pool_room [OF p b]] D(4) by metis
    let ?s = "upd_ring rb q (upd_rpkt b (\<lambda>p. p\<lparr>rp_ref := 0\<rparr>) s)"
    have rb: "rp_rb ?p = Some rb" by (rule D(7) [OF b(1)])
    have "b \<notin> set (ring_items (rg_rings s ! rb))" using D(6) one by simp
    then have "pool_ok n rb ?s" using D q b by (auto simp: pool_ok_def Let_def)
    moreover have "upd_rpkt b (\<lambda>p. p\<lparr>rp_rb := Some rb\<rparr>) (upd_rpkt b (\<lambda>p. p\<lparr>rp_ref := rp_ref p - 1\<rparr>) s)
        = upd_rpkt b (\<lambda>p. p\<lparr>rp_ref := 0\<rparr>) s"
      using b(1) D(2) one rb by (cases "rg_pkts s ! b") (simp add: upd_rpkt_def)
    then have "PutBuf (Some b) s = Inr (True, ?s)"
      using q(1) rb rel one by (simp add: PutBuf_def RBPutBuf_def Let_def)
    ultimately show "\<exists>q. PutBuf (Some b) s = Inr (True, upd_ring rb q (upd_rpkt b (\<lambda>p. p\<lparr>rp_ref := 0\<rparr>) s))
      \<and> ring_items q = ring_items (rg_rings s ! rb) @ [b]
      \<and> pool_ok n rb (upd_ring rb q (upd_rpkt b (\<lambda>p. p\<lparr>rp_ref := 0\<rparr>) s))"
      using q(4) by blast
  }
qed

section \<open>The pool of \<open>CreateRingBuffer\<close>\<close>

definition empty_heap :: ring_heap where
  "empty_heap = \<lparr>rg_rings = [], rg_pkts = []\<rparr>"

definition fresh_heap :: "nat \<Rightarrow> ring_heap" where
  "fresh_heap n = \<lparr>rg_rings = [\<lparr>rb_hdr = \<lparr>rh_r = 0, rh_w = 0, rh_count = word_of_nat (n + 1)\<rparr>,
     rb_slots = replicate (n + 1) None\<rparr>], rg_pkts = replicate n zero_ring_pkt\<rparr>"

lemma Create_eq:
  "CreateRingBuffer (int n) empty_heap = bind_res (fold_res (create_step 0 0) [0..<n] (fresh_heap n)) (\<lambda>s. Inr (0, s))"
  by (simp add: CreateRingBuffer_def NewRingBuffer_def empty_heap_def fresh_heap_def nat_add_distrib add.commute)

text \<open>After \<open>k\<close> rounds, in a ring of \<open>c\<close> slots.\<close>

definition filled :: "nat \<Rightarrow> nat \<Rightarrow> nat \<Rightarrow> ring_heap \<Rightarrow> bool" where
  "filled n c k s \<longleftrightarrow>
     length (rg_rings s) = 1 \<and> length (rg_pkts s) = n \<and> ring_inv (rg_rings s ! 0) \<and> ring_cap (rg_rings s ! 0) = c
     \<and> ring_items (rg_rings s ! 0) = [0..<k] \<and> (\<forall>b < n. rp_ref (rg_pkts s ! b) = 0 \<and> rp_len (rg_pkts s ! b) = 0)
     \<and> (\<forall>b < k. rp_rb (rg_pkts s ! b) = Some 0)"

lemma filled_step:
  assumes "filled n c k s" and "k < n" and "k < c"
  shows "\<exists>s'. create_step 0 0 k s = Inr s' \<and> filled n c (Suc k) s'"
proof -
  have f: "length (rg_rings s) = 1" "length (rg_pkts s) = n" "ring_inv (rg_rings s ! 0)" "ring_cap (rg_rings s ! 0) = c"
    "ring_items (rg_rings s ! 0) = [0..<k]" "\<forall>b < n. rp_ref (rg_pkts s ! b) = 0 \<and> rp_len (rg_pkts s ! b) = 0"
    "\<forall>b < k. rp_rb (rg_pkts s ! b) = Some 0"
    using assms(1) by (simp_all add: filled_def)
  obtain q where q: "ring_put k (rg_rings s ! 0) = Inr (True, q)" "ring_inv q" "ring_cap q = c" "ring_items q = [0..<Suc k]"
    using rq.put_room [OF f(3), of k] f(4,5) assms(3) by auto
  let ?s = "upd_ring 0 q (upd_rpkt k (\<lambda>p. p\<lparr>rp_rb := Some 0\<rparr>) (upd_rpkt k (\<lambda>p. p\<lparr>rp_id := int k\<rparr>) s))"
  have "create_step 0 0 k s = Inr ?s" using q(1) by (simp add: create_step_def RBPutBuf_def)
  moreover have "filled n c (Suc k) ?s" using f q assms(2) by (simp add: filled_def less_Suc_eq del: upt_Suc)
  ultimately show ?thesis by blast
qed

lemma filled_steps:
  assumes "filled n c 0 s"
  shows "k \<le> n \<Longrightarrow> k \<le> c \<Longrightarrow> \<exists>s'. fold_res (create_step 0 0) [0..<k] s = Inr s' \<and> filled n c k s'"
proof (induction k)
  case 0
  then show ?case using assms by simp
next
  case (Suc k)
  then obtain s1 where s1: "fold_res (create_step 0 0) [0..<k] s = Inr s1" "filled n c k s1" by auto
  from filled_step [OF s1(2)] Suc.prems obtain s2 where "create_step 0 0 k s1 = Inr s2" "filled n c (Suc k) s2" by auto
  then show ?case using s1(1) by (simp add: fold_res_append)
qed

lemma unat_of_nat16: "unat (word_of_nat m :: u16) = m mod 65536"
  by (simp add: unsigned_of_nat take_bit_eq_mod)

lemma fresh_filled:
  assumes "0 < (n + 1) mod 65536"
  shows "filled n ((n + 1) mod 65536 - 1) 0 (fresh_heap n)"
proof -
  let ?c = "(n + 1) mod 65536"
  let ?q = "\<lparr>rb_hdr = \<lparr>rh_r = 0, rh_w = 0, rh_count = word_of_nat (n + 1)\<rparr>, rb_slots = replicate (n + 1) None\<rparr> :: RingBuffer"
  have c: "unat (word_of_nat (n + 1) :: u16) = ?c" by (rule unat_of_nat16)
  have le: "?c \<le> n + 1" by (rule mod_less_eq_dividend)
  have rc: "ring_count ?q = ?c" unfolding ring_count_def by (simp only: RingBuffer.simps RingBufferHeader.simps c)
  have sh: "ring_shape ?q" "ring_used ?q = []" using assms le
    unfolding ring_shape_def ring_used_def rc by (simp_all add: ring_first_def ring_end_def)
  then show ?thesis using rc by (simp add: filled_def fresh_heap_def ring_inv_def ring_items_def ring_cap_def zero_ring_pkt_def)
qed

lemma create_stops:
  assumes "fold_res f [0..<k] s = Inr s'" and "f k s' = Inl e" and "k < n"
  shows "fold_res f [0..<n] s = Inl e"
proof -
  have "[0..<n] = [0..<k] @ k # [Suc k..<n]"
    using upt_add_eq_append [of 0 k "n - k"] assms(3) by (simp add: upt_conv_Cons)
  then show ?thesis using assms(1,2) by (simp add: fold_res_append)
qed

text \<open>
  \<open>CreateRingBuffer\<close> returns exactly for fewer than 65535 buffers; from there on the 16-bit counter
  of the slots wraps, and the process panics on a division by zero or on a ring that is full too early.
\<close>

theorem CreateRingBuffer_returns:
  "(\<exists>s. CreateRingBuffer (int n) empty_heap = Inr (0, s)) \<longleftrightarrow> n < 65535"
proof (cases "n < 65535")
  case True
  then have "filled n n 0 (fresh_heap n)" using fresh_filled [of n] by simp
  from filled_steps [OF this, of n] show ?thesis using True by (auto simp: Create_eq)
next
  case False
  have "\<exists>e. fold_res (create_step 0 0) [0..<n] (fresh_heap n) = Inl e"
  proof (cases "(n + 1) mod 65536 = 0")
    case True
    then have "(word_of_nat (n + 1) :: u16) = 0" using unat_of_nat16 [of "n + 1"] by (simp only: unat_eq_zero)
    then have "create_step 0 0 0 (fresh_heap n) = Inl (PanicMsg ''integer divide by zero'')"
      by (simp add: create_step_def RBPutBuf_def ring_put_def ring_store_def ring_next_def fresh_heap_def upd_rpkt_def)
    then show ?thesis using create_stops [of "create_step 0 0" 0 "fresh_heap n" "fresh_heap n" _ n] False by auto
  next
    case nz: False
    let ?c = "(n + 1) mod 65536 - 1"
    have c: "?c < n" using False mod_less_divisor [of 65536 "n + 1"] by linarith
    obtain s where s: "fold_res (create_step 0 0) [0..<?c] (fresh_heap n) = Inr s" "filled n ?c ?c s"
      using filled_steps [OF fresh_filled, of n ?c] nz c by auto
    have "ring_put ?c (rg_rings s ! 0) = Inr (False, rg_rings s ! 0)"
      using s(2) by (intro rq.put_full) (simp_all add: filled_def)
    then have "create_step 0 0 ?c s = Inl (PanicMsg ''RBPutBuf error'')" by (simp add: create_step_def RBPutBuf_def)
    then show ?thesis using create_stops [OF s(1) _ c] by blast
  qed
  then show ?thesis using False by (auto simp: Create_eq)
qed

lemma Create_ok:
  assumes "n < 65535"
  obtains s where "CreateRingBuffer (int n) empty_heap = Inr (0, s)" and "pool_ok n 0 s"
    and "ring_items (rg_rings s ! 0) = [0..<n]" and "\<forall>b < n. rp_len (rg_pkts s ! b) = 0"
proof -
  have "filled n n 0 (fresh_heap n)" using fresh_filled [of n] assms by simp
  then obtain s where s: "fold_res (create_step 0 0) [0..<n] (fresh_heap n) = Inr s" "filled n n n s"
    using filled_steps [of n n "fresh_heap n" n] by auto
  show thesis by (rule that [of s]) (use s in \<open>auto simp: Create_eq filled_def pool_ok_def Let_def\<close>)
qed

section \<open>Every use of the pool\<close>

text \<open>Callers hold and put back only buffers that they hold.\<close>

inductive pool_use :: "nat \<Rightarrow> ring_heap \<Rightarrow> bool" for n where
  create: "CreateRingBuffer (int n) empty_heap = Inr (0, s) \<Longrightarrow> pool_use n s"
| get: "pool_use n s \<Longrightarrow> GetBuf 0 s = Inr (v, s') \<Longrightarrow> pool_use n s'"
| hold: "pool_use n s \<Longrightarrow> b < n \<Longrightarrow> 0 < rp_ref (rg_pkts s ! b) \<Longrightarrow> rp_ref (rg_pkts s ! b) < 2147483647 \<Longrightarrow>
    pool_use n (rb_HoldPktBuf b s)"
| put: "pool_use n s \<Longrightarrow> b < n \<Longrightarrow> 0 < rp_ref (rg_pkts s ! b) \<Longrightarrow> PutBuf (Some b) s = Inr (v, s') \<Longrightarrow> pool_use n s'"

lemma GetBuf_cases:
  assumes "pool_ok n rb s"
  obtains "GetBuf rb s = Inr (None, s)" "\<forall>b < n. 0 < rp_ref (rg_pkts s ! b)"
  | b s' where "GetBuf rb s = Inr (Some b, s')" "pool_ok n rb s'" "b < n" "rp_ref (rg_pkts s ! b) = 0"
proof (cases "ring_items (rg_rings s ! rb)")
  case Nil
  then have "\<forall>b < n. rp_ref (rg_pkts s ! b) \<noteq> 0" using pool_okD(6) [OF assms] by auto
  then have "\<forall>b < n. 0 < rp_ref (rg_pkts s ! b)" using pool_okD(8) [OF assms] by (metis order_le_neq_trans)
  then show thesis using GetBuf_ok(1) [OF assms] that(1) by blast
next
  case (Cons b bs)
  have "b \<in> set (ring_items (rg_rings s ! rb))" using Cons by simp
  then have "b < n" "rp_ref (rg_pkts s ! b) = 0" unfolding pool_okD(6) [OF assms] by simp_all
  then show thesis using GetBuf_ok(2) [OF assms Cons] that(2) by blast
qed

lemma PutBuf_cases:
  assumes "pool_ok n rb s" and "b < n" and "0 < rp_ref (rg_pkts s ! b)"
  obtains s' where "PutBuf (Some b) s = Inr (rp_ref (rg_pkts s ! b) = 1, s')" and "pool_ok n rb s'"
proof (cases "rp_ref (rg_pkts s ! b) = 1")
  case True
  then show thesis using PutBuf_ok(2) [OF assms] that by auto
next
  case False
  then show thesis using PutBuf_ok(1) [OF assms] assms(3) that by auto
qed

lemma pool_use_ok:
  assumes "n < 65535" and "pool_use n s"
  shows "pool_ok n 0 s"
  using assms(2)
proof induction
  case (create s)
  then show ?case using Create_ok [OF assms(1)] by (metis Pair_inject sum.inject(2))
next
  case (get s v s')
  show ?case by (rule GetBuf_cases [OF get.IH]) (use get in auto)
next
  case (put s b v s')
  show ?case by (rule PutBuf_cases [OF put.IH put.hyps(2,3)]) (use put in auto)
qed (rule Hold_ok)

text \<open>
  C35: however the pool is used, by callers that hold and put back only what they hold, every buffer
  is in the ring exactly once while nobody holds it and not at all while somebody does; a get does
  not panic and finds nothing exactly when all buffers are held; a put does not panic, and the last
  one always gives the buffer back.
\<close>

theorem ring_pool_conserves:
  assumes "n < 65535" and "pool_use n s"
  shows "distinct (ring_items (rg_rings s ! 0))
    \<and> set (ring_items (rg_rings s ! 0)) = {b. b < n \<and> rp_ref (rg_pkts s ! b) = 0}
    \<and> (\<exists>v s'. GetBuf 0 s = Inr (v, s') \<and> (v = None) = (\<forall>b < n. 0 < rp_ref (rg_pkts s ! b)))
    \<and> (\<forall>b < n. 0 < rp_ref (rg_pkts s ! b) \<longrightarrow>
         (\<exists>s'. PutBuf (Some b) s = Inr (rp_ref (rg_pkts s ! b) = 1, s')))"
proof -
  note p = pool_use_ok [OF assms]
  have "\<exists>v s'. GetBuf 0 s = Inr (v, s') \<and> (v = None) = (\<forall>b < n. 0 < rp_ref (rg_pkts s ! b))"
  proof (rule GetBuf_cases [OF p])
    fix b s'
    assume g: "GetBuf 0 s = Inr (Some b, s')" "b < n" "rp_ref (rg_pkts s ! b) = 0"
    then have "\<not> (\<forall>b < n. 0 < rp_ref (rg_pkts s ! b))" by (metis less_irrefl)
    then show ?thesis using g(1) by blast
  qed blast
  moreover have "\<exists>s'. PutBuf (Some b) s = Inr (rp_ref (rg_pkts s ! b) = 1, s')"
    if "b < n" "0 < rp_ref (rg_pkts s ! b)" for b
    using PutBuf_cases [OF p that] by blast
  ultimately show ?thesis using pool_okD(5,6) [OF p] by blast
qed

theorem ring_pool_conserves_witness:
  "\<exists>s. CreateRingBuffer 4 empty_heap = Inr (0, s) \<and> distinct (ring_items (rg_rings s ! 0))
    \<and> set (ring_items (rg_rings s ! 0)) = {b. b < 4 \<and> rp_ref (rg_pkts s ! b) = 0}"
proof -
  have "(4 :: nat) < 65535" by simp
  obtain s where s: "CreateRingBuffer (int 4) empty_heap = Inr (0, s)" by (rule Create_ok [OF \<open>4 < 65535\<close>])
  from ring_pool_conserves [OF \<open>4 < 65535\<close> pool_use.create [OF s]] s show ?thesis by auto
qed

section \<open>The program\<close>

definition count_up :: "nat \<Rightarrow> nat \<Rightarrow> ring_heap \<Rightarrow> ring_heap" where
  "count_up b k s = upd_rpkt b (\<lambda>p. p\<lparr>rp_len := rp_len p + word_of_nat k\<rparr>) s"

lemma count_up_ok: "pool_ok n rb s \<Longrightarrow> b < n \<Longrightarrow> pool_ok n rb (count_up b k s)"
  by (auto simp: pool_ok_def Let_def count_up_def)

lemma handle_held:
  assumes p: "pool_ok n rb s" and b: "b < n" "rp_ref (rg_pkts s ! b) = 1"
  shows "handleBuf b (rb_HoldPktBuf b s) = Inr (count_up b 1 s)"
proof -
  let ?s = "upd_rpkt b (\<lambda>p. p\<lparr>rp_len := rp_len p + 1\<rparr>) (rb_HoldPktBuf b s)"
  have l: "b < length (rg_pkts s)" using pool_okD(2) [OF p] b(1) by simp
  have h: "pool_ok n rb (rb_HoldPktBuf b s)" using Hold_ok [OF p b(1)] b(2) by simp
  have q: "pool_ok n rb ?s" using count_up_ok [OF h b(1), of 1] by (simp add: count_up_def)
  have r: "rp_ref (rg_pkts ?s ! b) = 2" using l b(2) by (simp add: rb_HoldPktBuf_def)
  have "PutBuf (Some b) ?s = Inr (False, upd_rpkt b (\<lambda>p. p\<lparr>rp_ref := rp_ref p - 1\<rparr>) ?s)"
    using PutBuf_ok(1) [OF q b(1)] r by simp
  moreover have "upd_rpkt b (\<lambda>p. p\<lparr>rp_ref := rp_ref p - 1\<rparr>) ?s = count_up b 1 s"
    using l b(2) by (cases "rg_pkts s ! b") (simp add: upd_rpkt_def rb_HoldPktBuf_def count_up_def)
  ultimately show ?thesis by (simp add: handleBuf_def)
qed

lemma handle_loop:
  assumes p: "pool_ok n rb s" and b: "b < n" "rp_ref (rg_pkts s ! b) = 1"
  shows "fold_res (\<lambda>i s. handleBuf b (rb_HoldPktBuf b s)) [0..<k] s = Inr (count_up b k s)"
proof (induction k)
  case 0
  then show ?case by (simp add: count_up_def upd_rpkt_def)
next
  case (Suc k)
  have l: "b < length (rg_pkts s)" using pool_okD(2) [OF p] b(1) by simp
  have "rp_ref (rg_pkts (count_up b k s) ! b) = 1" using l b(2) by (simp add: count_up_def)
  from handle_held [OF count_up_ok [OF p b(1)] b(1) this]
  have "handleBuf b (rb_HoldPktBuf b (count_up b k s)) = Inr (count_up b (Suc k) s)"
    using l by (simp add: count_up_def upd_rpkt_def add_ac)
  then show ?case using Suc by (simp add: fold_res_append)
qed

text \<open>A round works on the first buffer of the ring and puts it at the end.\<close>

lemma main_round_ok:
  assumes p: "pool_ok n rb s" and l: "ring_items (rg_rings s ! rb) = b # bs"
  obtains s' where "main_round rb j s = Inr (Some s')" and "pool_ok n rb s'" and "ring_items (rg_rings s' ! rb) = bs @ [b]"
    and "\<forall>c < n. rp_len (rg_pkts s' ! c) = (if c = b then rp_len (rg_pkts s ! b) + word_of_nat (DataBufferNum + j)
           else rp_len (rg_pkts s ! c))"
proof -
  note D = pool_okD [OF p]
  have "b \<in> set (ring_items (rg_rings s ! rb))" using l by simp
  then have b: "b < n" "rp_ref (rg_pkts s ! b) = 0" unfolding D(6) by simp_all
  obtain q where q: "GetBuf rb s = Inr (Some b, rb_HoldPktBuf b (upd_ring rb q s))" "ring_items q = bs"
    "pool_ok n rb (rb_HoldPktBuf b (upd_ring rb q s))"
    using GetBuf_ok(2) [OF p l] by blast
  let ?s1 = "rb_HoldPktBuf b (upd_ring rb q s)"
  let ?k = "DataBufferNum + j"
  have r1: "rp_ref (rg_pkts ?s1 ! b) = 1" "rg_rings ?s1 ! rb = q" using b D(1,2) by (simp_all add: rb_HoldPktBuf_def)
  have c: "pool_ok n rb (count_up b ?k ?s1)" by (rule count_up_ok [OF q(3) b(1)])
  have r2: "rp_ref (rg_pkts (count_up b ?k ?s1) ! b) = 1" using r1(1) b(1) pool_okD(2) [OF q(3)] by (simp add: count_up_def)
  then obtain q' where q': "PutBuf (Some b) (count_up b ?k ?s1)
      = Inr (True, upd_ring rb q' (upd_rpkt b (\<lambda>p. p\<lparr>rp_ref := 0\<rparr>) (count_up b ?k ?s1)))"
    "ring_items q' = ring_items (rg_rings (count_up b ?k ?s1) ! rb) @ [b]"
    "pool_ok n rb (upd_ring rb q' (upd_rpkt b (\<lambda>p. p\<lparr>rp_ref := 0\<rparr>) (count_up b ?k ?s1)))"
    using PutBuf_ok(2) [OF c b(1)] by auto
  let ?s2 = "upd_ring rb q' (upd_rpkt b (\<lambda>p. p\<lparr>rp_ref := 0\<rparr>) (count_up b ?k ?s1))"
  have rings: "rg_rings (count_up b ?k ?s1) ! rb = q" using r1(2) by (simp add: count_up_def)
  have "main_round rb j s = Inr (Some ?s2)"
    using q(1) handle_loop [OF q(3) b(1) r1(1), of ?k] q'(1) by (simp add: main_round_def)
  moreover have "ring_items (rg_rings ?s2 ! rb) = bs @ [b]"
    using q'(2) q(2) rings D(1) by (simp add: count_up_def rb_HoldPktBuf_def)
  moreover have "\<forall>c < n. rp_len (rg_pkts ?s2 ! c) = (if c = b then rp_len (rg_pkts s ! b) + word_of_nat ?k
      else rp_len (rg_pkts s ! c))"
    using b(1) D(2) by (auto simp: count_up_def rb_HoldPktBuf_def)
  ultimately show thesis using q'(3) that by blast
qed

lemma main_loop_ok:
  assumes s: "pool_ok 4 0 s" "ring_items (rg_rings s ! 0) = [0, 1, 2, 3]"
  shows "\<exists>s'. main_loop 0 (Some s) = Inr (Some s') \<and> pool_ok 4 0 s' \<and> ring_items (rg_rings s' ! 0) = [0, 1, 2, 3]
      \<and> (\<forall>b < 4. rp_len (rg_pkts s' ! b) = rp_len (rg_pkts s ! b) + word_of_nat (4 + b))"
proof -
  obtain a where a: "main_round 0 0 s = Inr (Some a)" "pool_ok 4 0 a" "ring_items (rg_rings a ! 0) = [1, 2, 3, 0]"
    "\<forall>c < 4. rp_len (rg_pkts a ! c) = (if c = 0 then rp_len (rg_pkts s ! 0) + word_of_nat (DataBufferNum + 0) else rp_len (rg_pkts s ! c))"
    using main_round_ok [OF s, of 0] by auto
  obtain b where b: "main_round 0 1 a = Inr (Some b)" "pool_ok 4 0 b" "ring_items (rg_rings b ! 0) = [2, 3, 0, 1]"
    "\<forall>c < 4. rp_len (rg_pkts b ! c) = (if c = 1 then rp_len (rg_pkts a ! 1) + word_of_nat (DataBufferNum + 1) else rp_len (rg_pkts a ! c))"
    using main_round_ok [OF a(2,3), of 1] by auto
  obtain c where c: "main_round 0 2 b = Inr (Some c)" "pool_ok 4 0 c" "ring_items (rg_rings c ! 0) = [3, 0, 1, 2]"
    "\<forall>d < 4. rp_len (rg_pkts c ! d) = (if d = 2 then rp_len (rg_pkts b ! 2) + word_of_nat (DataBufferNum + 2) else rp_len (rg_pkts b ! d))"
    using main_round_ok [OF b(2,3), of 2] by auto
  obtain d where d: "main_round 0 3 c = Inr (Some d)" "pool_ok 4 0 d" "ring_items (rg_rings d ! 0) = [0, 1, 2, 3]"
    "\<forall>e < 4. rp_len (rg_pkts d ! e) = (if e = 3 then rp_len (rg_pkts c ! 3) + word_of_nat (DataBufferNum + 3) else rp_len (rg_pkts c ! e))"
    using main_round_ok [OF c(2,3), of 3] by auto
  have "[0..<DataBufferNum] = [0, 1, 2, 3]" by (simp add: DataBufferNum_def numeral_eq_Suc)
  then have "main_loop 0 (Some s) = Inr (Some d)" using a(1) b(1) c(1) d(1) by (simp add: main_loop_def)
  moreover have "rp_len (rg_pkts d ! e) = rp_len (rg_pkts s ! e) + word_of_nat (4 + e)" if "e < 4" for e
  proof -
    have "e = 0 \<or> e = 1 \<or> e = 2 \<or> e = 3" using that by arith
    then show ?thesis using a(4) b(4) c(4) d(4) by (auto simp: DataBufferNum_def)
  qed
  ultimately show ?thesis using d(2,3) by blast
qed

text \<open>
  the program works on each of its four buffers twice, does not panic, never finds the pool empty,
  and ends with all four buffers in the ring in their first order and with the lengths 8, 10, 12, 14.
\<close>

theorem ring_main_result:
  "\<exists>ts s. ring_main empty_heap = Inr (0, ts, Some s) \<and> length ts = 3 \<and> ring_items (rg_rings s ! 0) = [0, 1, 2, 3]
    \<and> (\<forall>b < 4. rp_ref (rg_pkts s ! b) = 0) \<and> map (\<lambda>b. rp_len (rg_pkts s ! b)) [0, 1, 2, 3] = [8, 10, 12, 14]"
proof -
  have "(4 :: nat) < 65535" by simp
  then obtain s0 where s0: "CreateRingBuffer (int 4) empty_heap = Inr (0, s0)" "pool_ok 4 0 s0"
    "ring_items (rg_rings s0 ! 0) = [0..<4]" "\<forall>b < 4. rp_len (rg_pkts s0 ! b) = 0"
    by (rule Create_ok)
  have i0: "ring_items (rg_rings s0 ! 0) = [0, 1, 2, 3]" using s0(3) by (simp add: numeral_eq_Suc)
  obtain s1 where s1: "main_loop 0 (Some s0) = Inr (Some s1)" "pool_ok 4 0 s1" "ring_items (rg_rings s1 ! 0) = [0, 1, 2, 3]"
    "\<forall>b < 4. rp_len (rg_pkts s1 ! b) = rp_len (rg_pkts s0 ! b) + word_of_nat (4 + b)"
    using main_loop_ok [OF s0(2) i0] by blast
  obtain s2 where s2: "main_loop 0 (Some s1) = Inr (Some s2)" "pool_ok 4 0 s2" "ring_items (rg_rings s2 ! 0) = [0, 1, 2, 3]"
    "\<forall>b < 4. rp_len (rg_pkts s2 ! b) = rp_len (rg_pkts s1 ! b) + word_of_nat (4 + b)"
    using main_loop_ok [OF s1(2,3)] by blast
  let ?ts = "[ring_show 0 s0, ring_show 0 s1, ring_show 0 s2]"
  have "ring_main empty_heap = Inr (0, ?ts, Some s2)" using s0(1) s1(1) s2(1) by (simp add: ring_main_def DataBufferNum_def)
  moreover have "map (\<lambda>b. rp_len (rg_pkts s2 ! b)) [0, 1, 2, 3] = [8, 10, 12, 14]" using s0(4) s1(4) s2(4) by simp
  moreover have "\<forall>b < 4. rp_ref (rg_pkts s2 ! b) = 0"
  proof (intro allI impI)
    fix b :: nat
    assume "b < 4"
    then have "b \<in> {0, 1, 2, 3}" by auto
    then have "b \<in> set (ring_items (rg_rings s2 ! 0))" unfolding s2(3) by simp
    then show "rp_ref (rg_pkts s2 ! b) = 0" unfolding pool_okD(6) [OF s2(2)] by simp
  qed
  ultimately show ?thesis by (intro exI [of _ s2] exI [of _ ?ts] conjI s2(3)) simp_all
qed

end
