(* ===== verification/Ring_Threads.thy ===== *)
theory Ring_Threads
  imports Ring_Pool
begin

text \<open>
  The ring under concurrent use. \<open>RBGetBuf\<close> moves \<open>r\<close> under its lock but reads the slot after it has
  released the lock; \<open>RBPutBuf\<close> has a lock of its own. A step is what happens under one lock, or the
  read; the store into the slot and the move of \<open>w\<close> are two steps, as a get looks at \<open>w\<close> without
  that lock.
\<close>

section \<open>Steps\<close>

text \<open>\<open>rc_in\<close> and \<open>rc_out\<close> record what has been put and, by whom, what has been returned.\<close>

record ring_conf =
  rc_ring :: RingBuffer
  rc_put :: "(nat \<times> u16) option"
  rc_get :: "(nat \<times> u16) list"
  rc_in :: "nat list"
  rc_out :: "(nat \<times> nat option) list"

definition ring_start :: "RingBuffer \<Rightarrow> ring_conf" where
  "ring_start q = \<lparr>rc_ring = q, rc_put = None, rc_get = [], rc_in = ring_items q, rc_out = []\<rparr>"

text \<open>A buffer is out when it has been returned as often as it has been put.\<close>

definition is_out :: "nat \<Rightarrow> ring_conf \<Rightarrow> bool" where
  "is_out pb cf \<longleftrightarrow> count_list (rc_in cf) pb = count_list (map snd (rc_out cf)) (Some pb)"

text \<open>\<open>T\<close> are the threads that get; with \<open>own\<close>, only buffers that are out are put.\<close>

inductive ring_step :: "bool \<Rightarrow> nat set \<Rightarrow> ring_conf \<Rightarrow> ring_conf \<Rightarrow> bool" for own T where
  store: "rc_put cf = None \<Longrightarrow> own \<longrightarrow> is_out pb cf \<Longrightarrow> ring_store pb (rc_ring cf) = Inr (Some idx, q) \<Longrightarrow>
    ring_step own T cf (cf\<lparr>rc_ring := q, rc_put := Some (pb, idx)\<rparr>)"
| full: "rc_put cf = None \<Longrightarrow> ring_store pb (rc_ring cf) = Inr (None, q) \<Longrightarrow> ring_step own T cf (cf\<lparr>rc_ring := q\<rparr>)"
| publish: "rc_put cf = Some (pb, idx) \<Longrightarrow>
    ring_step own T cf (cf\<lparr>rc_ring := ring_publish idx (rc_ring cf), rc_put := None, rc_in := rc_in cf @ [pb]\<rparr>)"
| take_slot: "t \<in> T \<Longrightarrow> t \<notin> fst ` set (rc_get cf) \<Longrightarrow> ring_take (rc_ring cf) = Inr (Some idx, q) \<Longrightarrow>
    ring_step own T cf (cf\<lparr>rc_ring := q, rc_get := (t, idx) # rc_get cf\<rparr>)"
| empty: "t \<in> T \<Longrightarrow> ring_take (rc_ring cf) = Inr (None, q) \<Longrightarrow> ring_step own T cf (cf\<lparr>rc_ring := q\<rparr>)"
| read_slot: "(t, idx) \<in> set (rc_get cf) \<Longrightarrow> ring_read idx (rc_ring cf) = Inr v \<Longrightarrow>
    ring_step own T cf (cf\<lparr>rc_get := removeAll (t, idx) (rc_get cf), rc_out := rc_out cf @ [(t, v)]\<rparr>)"

inductive ring_reach :: "bool \<Rightarrow> nat set \<Rightarrow> RingBuffer \<Rightarrow> ring_conf \<Rightarrow> bool" for own T q where
  start: "ring_reach own T q (ring_start q)"
| step: "ring_reach own T q cf \<Longrightarrow> ring_step own T cf cf' \<Longrightarrow> ring_reach own T q cf'"

text \<open>A put and a get without others between are the functions of the code.\<close>

lemma put_alone:
  assumes "ring_put pb (rc_ring cf) = Inr (True, q)" and "rc_put cf = None" and "own \<longrightarrow> is_out pb cf"
  shows "(ring_step own T)\<^sup>*\<^sup>* cf (cf\<lparr>rc_ring := q, rc_in := rc_in cf @ [pb]\<rparr>)"
proof -
  obtain idx q1 where s: "ring_store pb (rc_ring cf) = Inr (Some idx, q1)" "q = ring_publish idx q1"
    using assms(1) by (auto simp: ring_put_def bind_res_eq_Inr split: option.splits)
  let ?c1 = "cf\<lparr>rc_ring := q1, rc_put := Some (pb, idx)\<rparr>"
  have "ring_step own T cf ?c1" by (rule ring_step.store [OF assms(2,3) s(1)])
  moreover have "ring_step own T ?c1 (?c1\<lparr>rc_ring := ring_publish idx (rc_ring ?c1), rc_put := None, rc_in := rc_in ?c1 @ [pb]\<rparr>)"
    by (rule ring_step.publish) simp
  moreover have "?c1\<lparr>rc_ring := ring_publish idx (rc_ring ?c1), rc_put := None, rc_in := rc_in ?c1 @ [pb]\<rparr>
      = cf\<lparr>rc_ring := q, rc_in := rc_in cf @ [pb]\<rparr>"
    using assms(2) s(2) by (cases cf) simp
  ultimately show ?thesis by (metis (no_types, lifting) converse_rtranclp_into_rtranclp r_into_rtranclp)
qed

section \<open>One thread that gets\<close>

definition fifo_inv :: "nat \<Rightarrow> ring_conf \<Rightarrow> bool" where
  "fifo_inv t cf \<longleftrightarrow>
     (let q = rc_ring cf in
      ring_shape q
      \<and> (\<forall>pb idx. rc_put cf = Some (pb, idx) \<longrightarrow> rb_slots q ! unat (rh_w (rb_hdr q)) = Some pb
           \<and> length (ring_items q) < ring_cap q \<and> idx = (rh_w (rb_hdr q) + 1) mod rh_count (rb_hdr q))
      \<and> (rc_get cf = [] \<and> map Some (rc_in cf) = map snd (rc_out cf) @ ring_used q
         \<or> (\<exists>i. rc_get cf = [(t, i)] \<and> unat i < length (rb_slots q) \<and> Suc (unat i) mod ring_count q = ring_first q
              \<and> map Some (rc_in cf) = map snd (rc_out cf) @ [rb_slots q ! unat i] @ ring_used q)))"

lemma store_SomeD:
  assumes "ring_shape q" and "ring_store pb q = Inr (Some idx, q')"
  shows "length (ring_items q) < ring_cap q" and "idx = (rh_w (rb_hdr q) + 1) mod rh_count (rb_hdr q)"
    and "q' = q\<lparr>rb_slots := (rb_slots q)[unat (rh_w (rb_hdr q)) := Some pb]\<rparr>"
proof -
  show r: "length (ring_items q) < ring_cap q" using ring_store_full [OF assms(1), of pb] assms(2) by fastforce
  show "idx = (rh_w (rb_hdr q) + 1) mod rh_count (rb_hdr q)"
    "q' = q\<lparr>rb_slots := (rb_slots q)[unat (rh_w (rb_hdr q)) := Some pb]\<rparr>"
    using ring_store_room [OF assms(1) r] assms(2) by simp_all
qed

lemma stored_ring:
  fixes q :: RingBuffer and pb :: nat
  assumes "ring_shape q"
  defines "q' \<equiv> q\<lparr>rb_slots := (rb_slots q)[unat (rh_w (rb_hdr q)) := Some pb]\<rparr>"
  shows "ring_shape q'" "ring_used q' = ring_used q" "rb_hdr q' = rb_hdr q" "ring_count q' = ring_count q"
    "ring_first q' = ring_first q" "ring_cap q' = ring_cap q" "rb_slots q' ! unat (rh_w (rb_hdr q)) = Some pb"
proof -
  have b: "ring_first q' = ring_first q" "ring_end q' = ring_end q" "ring_count q' = ring_count q"
    by (simp_all add: q'_def ring_first_def ring_end_def ring_count_def Let_def)
  show "ring_used q' = ring_used q"
    unfolding ring_used_def b using ring_used_store [OF assms(1)] by (simp add: q'_def)
  show "ring_shape q'" "rb_slots q' ! unat (rh_w (rb_hdr q)) = Some pb"
    using assms(1) by (auto simp: q'_def ring_shape_def ring_first_def ring_count_def)
  show "rb_hdr q' = rb_hdr q" "ring_count q' = ring_count q" "ring_first q' = ring_first q" "ring_cap q' = ring_cap q"
    by (simp_all add: b ring_cap_def) (simp add: q'_def)
qed

lemma take_NoneD:
  assumes "ring_take q = Inr (None, q')"
  shows "q' = q"
  using assms by (auto simp: ring_take_def ring_next_def Let_def bind_res_eq_Inr split: if_splits)

lemma store_NoneD:
  assumes "ring_store pb q = Inr (None, q')"
  shows "q' = q"
  using assms by (auto simp: ring_store_def Let_def bind_res_eq_Inr split: if_splits)

lemma take_SomeD:
  assumes "ring_shape q" and "ring_take q = Inr (Some idx, q')"
  shows "ring_shape q'" and "rb_slots q' = rb_slots q" and "ring_count q' = ring_count q"
    and "rh_w (rb_hdr q') = rh_w (rb_hdr q)" and "rh_count (rb_hdr q') = rh_count (rb_hdr q)"
    and "ring_used q = rb_slots q ! unat idx # ring_used q'"
    and "Suc (unat idx) mod ring_count q' = ring_first q'" and "unat idx < length (rb_slots q)"
proof -
  have "ring_items q \<noteq> []" using ring_take_empty [OF assms(1)] assms(2) by auto
  then have l: "ring_first q < ring_end q" using length_ring_items [of q] by (cases "ring_items q") auto
  obtain q1 where q1: "ring_take q = Inr (Some (rh_r (rb_hdr q)), q1)" "ring_shape q1" "rb_slots q1 = rb_slots q"
    "ring_count q1 = ring_count q" "rh_w (rb_hdr q1) = rh_w (rb_hdr q)" "ring_used q1 = tl (ring_used q)"
    "ring_first q1 = Suc (ring_first q) mod ring_count q"
    by (rule ring_take_some [OF assms(1) l])
  then have e: "q' = q1" "idx = rh_r (rb_hdr q)" using assms(2) by simp_all
  have f: "ring_first q < ring_count q" "ring_first q < length (rb_slots q)" using assms(1) by (auto simp: ring_shape_def)
  have u: "ring_used q = rb_slots q ! (ring_first q mod ring_count q) # tl (ring_used q)"
    using l by (simp add: ring_used_def upt_conv_Cons)
  show "ring_shape q'" "rb_slots q' = rb_slots q" "ring_count q' = ring_count q" "rh_w (rb_hdr q') = rh_w (rb_hdr q)"
    using q1 e by simp_all
  show "rh_count (rb_hdr q') = rh_count (rb_hdr q)" using q1(4) e by (simp add: ring_count_def word_unat_eq_iff)
  show "ring_used q = rb_slots q ! unat idx # ring_used q'"
    using u f(1) q1(6) e by (simp add: ring_first_def)
  show "Suc (unat idx) mod ring_count q' = ring_first q'" "unat idx < length (rb_slots q)"
    using q1(4,7) e f(2) by (simp_all add: ring_first_def)
qed

lemma length_used: "length (ring_items q) = length (ring_used q)"
  by (simp add: ring_items_def)

lemma fifo_start: "ring_inv q \<Longrightarrow> fifo_inv t (ring_start q)"
proof -
  assume i: "ring_inv q"
  have "(Some \<circ> the) x = x" if "x \<in> set (ring_used q)" for x using i that by (cases x) (auto simp: ring_inv_def)
  then have "map Some (ring_items q) = ring_used q" by (simp add: ring_items_def map_idI)
  then show ?thesis using i by (simp add: fifo_inv_def ring_start_def ring_inv_def)
qed

lemma fifo_step:
  assumes "fifo_inv t cf" and "ring_step own {t} cf cf'"
  shows "fifo_inv t cf'"
  using assms(2)
proof cases
  case (store pb idx q)
  let ?q = "rc_ring cf" and ?w = "unat (rh_w (rb_hdr (rc_ring cf)))"
  have sh: "ring_shape ?q" using assms(1) by (simp add: fifo_inv_def Let_def)
  note S = store_SomeD [OF sh store(4)]
  note R = stored_ring [OF sh, of pb, folded S(3)]
  have other: "?w \<noteq> unat i" if "Suc (unat i) mod ring_count ?q = ring_first ?q" for i :: u16
  proof
    assume "?w = unat i"
    then have "Suc ?w mod ring_count ?q = ring_first ?q" using that by simp
    moreover have "unat ((rh_w (rb_hdr ?q) + 1) mod rh_count (rb_hdr ?q)) = Suc ?w mod ring_count ?q"
      using ring_next_ok(2) [of "rh_w (rb_hdr ?q)" "rh_count (rb_hdr ?q)"] sh by (auto simp: ring_shape_def ring_count_def)
    ultimately have "(rh_w (rb_hdr ?q) + 1) mod rh_count (rb_hdr ?q) = rh_r (rb_hdr ?q)"
      by (simp add: word_unat_eq_iff ring_first_def)
    then show False using ring_full_iff [OF sh] S(1) by blast
  qed
  have sl: "rb_slots q = (rb_slots ?q)[?w := Some pb]" using S(3) by simp
  show ?thesis
    unfolding store(1) using assms(1) R S(1,2) sl other
    by (auto simp: fifo_inv_def Let_def length_used nth_list_update)
next
  case (publish pb idx)
  let ?q = "rc_ring cf"
  have sh: "ring_shape ?q" and p: "rb_slots ?q ! unat (rh_w (rb_hdr ?q)) = Some pb" "length (ring_items ?q) < ring_cap ?q"
    "idx = (rh_w (rb_hdr ?q) + 1) mod rh_count (rb_hdr ?q)"
    using assms(1) publish(2) by (simp_all add: fifo_inv_def Let_def)
  note e = ring_publish_end [OF sh p(2), folded p(3)]
  have "ring_first ?q \<le> ring_end ?q" using ring_bounds [OF sh] by simp
  then have u: "ring_used (ring_publish idx ?q) = ring_used ?q @ [Some pb]"
    using p(1) ring_end_mod [OF sh] by (simp add: ring_used_def e upt_Suc_append)
  show ?thesis unfolding publish(1) using assms(1) e u by (auto simp: fifo_inv_def Let_def)
next
  case (take_slot t' idx q)
  let ?q = "rc_ring cf"
  have sh: "ring_shape ?q" using assms(1) by (simp add: fifo_inv_def Let_def)
  note T = take_SomeD [OF sh take_slot(4)]
  have g: "rc_get cf = []" "map Some (rc_in cf) = map snd (rc_out cf) @ ring_used ?q"
    using assms(1) take_slot(2,3) by (auto simp: fifo_inv_def Let_def)
  have c: "ring_cap q = ring_cap ?q" "length (ring_used q) \<le> length (ring_used ?q)" using T(3,6) by (simp_all add: ring_cap_def)
  have put: "rb_slots q ! unat (rh_w (rb_hdr q)) = Some pb \<and> length (ring_items q) < ring_cap q
      \<and> idx' = (rh_w (rb_hdr q) + 1) mod rh_count (rb_hdr q)" if "rc_put cf = Some (pb, idx')" for pb idx'
    using assms(1) that T(2,4,5) c by (auto simp: fifo_inv_def Let_def length_used)
  show ?thesis
    unfolding take_slot(1) using g take_slot(2) T put by (auto simp: fifo_inv_def Let_def)
next
  case (read_slot t' idx v)
  then show ?thesis using assms(1) by (auto simp: fifo_inv_def Let_def ring_read_def split: if_splits)
next
  case (full pb q)
  then show ?thesis using assms(1) store_NoneD [OF full(3)] by simp
next
  case (empty t' q)
  then show ?thesis using assms(1) take_NoneD [OF empty(3)] by simp
qed

text \<open>
  C33: while one thread gets, in whatever way its gets interleave with puts of other threads, it
  receives the buffers in the order in which they were put, each of them once, and none that was not.
\<close>

theorem single_getter_fifo:
  assumes "ring_inv q" and "ring_reach own {t} q cf"
  shows "map snd (rc_out cf) = map Some (take (length (rc_out cf)) (rc_in cf))"
proof -
  have "fifo_inv t cf" using assms(2)
  proof induction
    case start
    then show ?case by (rule fifo_start [OF assms(1)])
  next
    case (step cf cf')
    then show ?case using fifo_step by blast
  qed
  then obtain xs where "map Some (rc_in cf) = map snd (rc_out cf) @ xs" by (auto simp: fifo_inv_def Let_def)
  then have "take (length (rc_out cf)) (map Some (rc_in cf)) = map snd (rc_out cf)" by simp
  then show ?thesis by (simp add: take_map)
qed

text \<open>The ring of \<open>CreateRingBuffer(2)\<close>.\<close>

definition ring_of_two :: RingBuffer where
  "ring_of_two = \<lparr>rb_hdr = \<lparr>rh_r = 0, rh_w = 2, rh_count = 3\<rparr>, rb_slots = [Some 0, Some 1, None]\<rparr>"

lemma ring_of_two_created: "\<exists>s. CreateRingBuffer 2 empty_heap = Inr (0, s) \<and> rg_rings s ! 0 = ring_of_two"
proof -
  have "[0..<2 :: nat] = [0, 1]" by (simp add: numeral_2_eq_2)
  moreover have "replicate 3 x = [x, x, x]" for x :: "nat option" by (simp add: numeral_3_eq_3)
  ultimately show ?thesis
    by (simp add: CreateRingBuffer_def NewRingBuffer_def empty_heap_def create_step_def RBPutBuf_def ring_put_def ring_store_def
        ring_next_def ring_publish_def upd_rpkt_def upd_ring_def ring_of_two_def Let_def)
qed

lemma ring_of_two: "ring_inv ring_of_two" "ring_items ring_of_two = [0, 1]"
  by (simp_all add: ring_of_two_def ring_inv_def ring_shape_def ring_used_def ring_items_def ring_first_def ring_end_def
      ring_count_def Let_def upt_conv_Cons)

theorem single_getter_fifo_witness:
  "\<exists>cf. ring_reach False {0} ring_of_two cf \<and> rc_get cf = [(0, 0)]
     \<and> map snd (rc_out cf) = map Some (take (length (rc_out cf)) (rc_in cf))"
proof -
  let ?c = "(ring_start ring_of_two)\<lparr>rc_ring := ring_of_two\<lparr>rb_hdr := \<lparr>rh_r = 1, rh_w = 2, rh_count = 3\<rparr>\<rparr>, rc_get := [(0, 0)]\<rparr>"
  have "ring_take ring_of_two = Inr (Some 0, ring_of_two\<lparr>rb_hdr := \<lparr>rh_r = 1, rh_w = 2, rh_count = 3\<rparr>\<rparr>)"
    by (simp add: ring_take_def ring_next_def ring_of_two_def Let_def)
  then have "ring_step False {0} (ring_start ring_of_two) ?c"
    using ring_step.take_slot [of 0 "{0}" "ring_start ring_of_two" 0 _ False] by (simp add: ring_start_def)
  then have r: "ring_reach False {0} ring_of_two ?c" using ring_reach.start ring_reach.step by blast
  from single_getter_fifo [OF ring_of_two(1) r] show ?thesis
    by (intro exI [of _ ?c] conjI r) simp_all
qed

section \<open>Two threads that get\<close>

text \<open>The effect of one step, as a function, to follow one interleaving.\<close>

datatype ring_event = E_take nat | E_read nat u16 | E_store nat | E_publish

fun do_event :: "ring_event \<Rightarrow> ring_conf \<Rightarrow> ring_conf option" where
  "do_event (E_take t) cf =
     (case ring_take (rc_ring cf) of
        Inr (Some idx, q) \<Rightarrow> if t \<in> fst ` set (rc_get cf) then None else Some (cf\<lparr>rc_ring := q, rc_get := (t, idx) # rc_get cf\<rparr>)
      | _ \<Rightarrow> None)"
| "do_event (E_read t idx) cf =
     (case ring_read idx (rc_ring cf) of
        Inr v \<Rightarrow> if (t, idx) \<in> set (rc_get cf)
          then Some (cf\<lparr>rc_get := removeAll (t, idx) (rc_get cf), rc_out := rc_out cf @ [(t, v)]\<rparr>) else None
      | _ \<Rightarrow> None)"
| "do_event (E_store pb) cf =
     (case ring_store pb (rc_ring cf) of
        Inr (Some idx, q) \<Rightarrow> if rc_put cf = None \<and> is_out pb cf then Some (cf\<lparr>rc_ring := q, rc_put := Some (pb, idx)\<rparr>) else None
      | _ \<Rightarrow> None)"
| "do_event E_publish cf =
     (case rc_put cf of
        Some (pb, idx) \<Rightarrow> Some (cf\<lparr>rc_ring := ring_publish idx (rc_ring cf), rc_put := None, rc_in := rc_in cf @ [pb]\<rparr>)
      | None \<Rightarrow> None)"

fun ring_events :: "ring_event list \<Rightarrow> ring_conf \<Rightarrow> ring_conf option" where
  "ring_events [] cf = Some cf"
| "ring_events (e # es) cf = (case do_event e cf of None \<Rightarrow> None | Some cf \<Rightarrow> ring_events es cf)"

lemma ring_event_step:
  assumes "do_event e cf = Some cf'" and "\<forall>t. e = E_take t \<longrightarrow> t \<in> T"
  shows "ring_step True T cf cf'"
  using assms
  by (cases e) (auto split: sum.splits option.splits prod.splits if_splits
      intro: ring_step.take_slot ring_step.read_slot ring_step.store ring_step.publish)

lemma ring_events_reach:
  assumes "ring_reach True T q cf" and "ring_events es cf = Some cf'" and "\<forall>t. E_take t \<in> set es \<longrightarrow> t \<in> T"
  shows "ring_reach True T q cf'"
  using assms
proof (induction es arbitrary: cf)
  case (Cons e es)
  then obtain c1 where c1: "do_event e cf = Some c1" "ring_events es c1 = Some cf'" by (auto split: option.splits)
  have "ring_step True T cf c1" using ring_event_step [OF c1(1)] Cons.prems(3) by simp
  then show ?case using Cons ring_reach.step c1(2) by (metis list.set_intros(2))
qed simp

text \<open>
  with two threads that get, a buffer is handed to both of them, although only buffers that are out
  are put back: the first thread has moved \<open>r\<close> and not yet read its slot when the second one has gone
  round the ring with the other buffer, which is then in the slot.
\<close>

theorem two_getters_share_buffer:
  "\<exists>cf. ring_reach True {0, 1} ring_of_two cf \<and> rc_get cf = []
     \<and> count_list (rc_in cf) 1 < count_list (map snd (rc_out cf)) (Some 1)
     \<and> (\<exists>s. CreateRingBuffer 2 empty_heap = Inr (0, s) \<and> rg_rings s ! 0 = ring_of_two)"
proof -
  let ?es = "[E_take 0, E_take 1, E_read 1 1, E_store 1, E_publish, E_take 1, E_read 1 2, E_store 1, E_publish,
    E_read 0 0, E_take 1, E_read 1 0]"
  have "\<exists>cf. ring_events ?es (ring_start ring_of_two) = Some cf \<and> rc_get cf = []
      \<and> count_list (rc_in cf) 1 < count_list (map snd (rc_out cf)) (Some 1)"
    by (simp add: ring_start_def ring_of_two(2))
      (simp add: ring_of_two_def ring_take_def ring_read_def ring_store_def ring_publish_def ring_next_def is_out_def Let_def)
  moreover have "ring_reach True {0, 1} ring_of_two cf" if "ring_events ?es (ring_start ring_of_two) = Some cf" for cf
    by (rule ring_events_reach [OF ring_reach.start that]) auto
  ultimately show ?thesis using ring_of_two_created by blast
qed

end
