(* ===== verification/Sync_Pool.thy ===== *)
theory Sync_Pool
  imports Ring_Buffer
begin

text \<open>
  \<open>reaserch/syncPool.go\<close>: a packet buffer in a \<open>sync.Pool\<close>, shared by goroutines that each append to it
  and put it back. Buffers and pools are addresses; \<open>Get\<close> returns any pooled object or a new one, so the
  choice is an argument. A goroutine has two steps, what it does under the lock of the buffer and its
  put; \<open>main\<close> goes on after its sleep when they are over.
\<close>

record sync_pkt =
  sk_pool :: "nat option"
  sk_ref :: i32
  sk_len :: u16
  sk_buf :: "byte list"

record sync_heap =
  sy_pools :: "nat list list"
  sy_pkts :: "sync_pkt list"

definition zero_sync_pkt :: sync_pkt where
  "zero_sync_pkt = \<lparr>sk_pool = None, sk_ref = 0, sk_len = 0, sk_buf = replicate 1518 0\<rparr>"

definition upd_spkt :: "nat \<Rightarrow> (sync_pkt \<Rightarrow> sync_pkt) \<Rightarrow> sync_heap \<Rightarrow> sync_heap" where
  "upd_spkt b f s = s\<lparr>sy_pkts := (sy_pkts s)[b := f (sy_pkts s ! b)]\<rparr>"

definition sy_NewPktBufPool :: "sync_heap \<Rightarrow> nat \<times> sync_heap" where
  "sy_NewPktBufPool s = (length (sy_pools s), s\<lparr>sy_pools := sy_pools s @ [[]]\<rparr>)"

text \<open>\<open>sync.Pool\<close>.\<close>

definition Pool_Get :: "nat option \<Rightarrow> nat \<Rightarrow> sync_heap \<Rightarrow> nat \<times> sync_heap" where
  "Pool_Get choice sp s =
     (case choice of
        Some b \<Rightarrow>
          if b \<in> set (sy_pools s ! sp) then (b, s\<lparr>sy_pools := (sy_pools s)[sp := remove1 b (sy_pools s ! sp)]\<rparr>)
          else (length (sy_pkts s), s\<lparr>sy_pkts := sy_pkts s @ [zero_sync_pkt]\<rparr>)
      | None \<Rightarrow> (length (sy_pkts s), s\<lparr>sy_pkts := sy_pkts s @ [zero_sync_pkt]\<rparr>))"

definition Pool_Put :: "nat \<Rightarrow> nat \<Rightarrow> sync_heap \<Rightarrow> sync_heap" where
  "Pool_Put sp b s = s\<lparr>sy_pools := (sy_pools s)[sp := sy_pools s ! sp @ [b]]\<rparr>"

definition sy_HoldPktBuf :: "nat \<Rightarrow> sync_heap \<Rightarrow> sync_heap" where
  "sy_HoldPktBuf pb = upd_spkt pb (\<lambda>p. p\<lparr>sk_ref := wrap_i32 (sk_ref p + 1)\<rparr>)"

definition sy_releasePktBuf :: "nat \<Rightarrow> sync_heap \<Rightarrow> i32 \<times> sync_heap" where
  "sy_releasePktBuf pb s =
     (let s = upd_spkt pb (\<lambda>p. p\<lparr>sk_ref := wrap_i32 (sk_ref p - 1)\<rparr>) s in (sk_ref (sy_pkts s ! pb), s))"

definition sy_GetPktFromPool :: "nat option \<Rightarrow> nat \<Rightarrow> sync_heap \<Rightarrow> nat \<times> sync_heap" where
  "sy_GetPktFromPool choice sp s =
     (let (pb, s) = Pool_Get choice sp s;
          s = (if sk_pool (sy_pkts s ! pb) = None then upd_spkt pb (\<lambda>p. p\<lparr>sk_pool := Some sp\<rparr>) s else s)
      in (pb, sy_HoldPktBuf pb s))"

definition sy_PutPktToPool :: "nat \<Rightarrow> sync_heap \<Rightarrow> sync_heap res" where
  "sy_PutPktToPool pb s =
     (let (ref, s) = sy_releasePktBuf pb s in
      if ref = 0 then
        (case sk_pool (sy_pkts s ! pb) of None \<Rightarrow> Inl NilDeref | Some sp \<Rightarrow> Inr (Pool_Put sp pb s))
      else if ref < 0 then Inl (PanicMsg ''ref < 0'')
      else Inr s)"

definition sy_StoreData :: "byte list \<Rightarrow> sync_pkt \<Rightarrow> sync_pkt res" where
  "sy_StoreData data pb =
     (let pb = pb\<lparr>sk_len := word_of_nat (length data)\<rparr>; src = take (unat (sk_len pb)) data
      in Inr (pb\<lparr>sk_buf := overwrite (sk_buf pb) 0 (take (length (sk_buf pb)) src)\<rparr>))"

definition sy_LoadData :: "sync_pkt \<Rightarrow> byte list res" where
  "sy_LoadData pb =
     (if unat (sk_len pb) \<le> length (sk_buf pb) then Inr (take (unat (sk_len pb)) (sk_buf pb)) else Inl SliceOutOfRange)"

definition sy_AppendData :: "byte list \<Rightarrow> sync_pkt \<Rightarrow> string + sync_pkt" where
  "sy_AppendData data pb =
     (if length (sk_buf pb) < unat (sk_len pb) + length data then Inl (''out of buf store range '' @ Itoa (length (sk_buf pb)))
      else Inr (pb\<lparr>sk_buf := overwrite (sk_buf pb) (unat (sk_len pb)) data,
                  sk_len := sk_len pb + word_of_nat (length data)\<rparr>))"

definition byte_text :: "string \<Rightarrow> byte list" where
  "byte_text t = map (\<lambda>c. word_of_nat (of_char c)) t"

text \<open>\<open>handlePktBuf\<close>: what is printed and the state after the lock is released; its last step is a put.\<close>

definition handlePktBuf :: "nat \<Rightarrow> nat \<Rightarrow> sync_heap \<Rightarrow> ((nat \<times> byte list) \<times> sync_heap) res" where
  "handlePktBuf pb i s =
     (let s = (case sy_AppendData (byte_text (Itoa i)) (sy_pkts s ! pb) of Inl e \<Rightarrow> s | Inr p \<Rightarrow> upd_spkt pb (\<lambda>_. p) s)
      in bind_res (sy_LoadData (sy_pkts s ! pb)) (\<lambda>d. Inr ((i, d), s)))"

datatype sync_act = Handle nat | PutRef

fun sync_step :: "nat \<Rightarrow> sync_act \<Rightarrow> (nat \<times> byte list) list \<times> sync_heap \<Rightarrow> ((nat \<times> byte list) list \<times> sync_heap) res" where
  "sync_step pb (Handle i) (out, s) = bind_res (handlePktBuf pb i s) (\<lambda>(x, s). Inr (out @ [x], s))"
| "sync_step pb PutRef (out, s) = bind_res (sy_PutPktToPool pb s) (\<lambda>s. Inr (out, s))"

definition sync_start :: "sync_heap \<Rightarrow> (nat \<times> nat \<times> sync_heap) res" where
  "sync_start s =
     (let (sp, s) = sy_NewPktBufPool s; (pk, s) = sy_GetPktFromPool None sp s in
      bind_res (sy_StoreData (byte_text ''test sync.pool'') (sy_pkts s ! pk)) (\<lambda>p.
      let s = upd_spkt pk (\<lambda>_. p) s in Inr (sp, pk, sy_HoldPktBuf pk (sy_HoldPktBuf pk s))))"

definition sync_show :: "nat option \<Rightarrow> nat \<Rightarrow> nat \<Rightarrow> (nat \<times> byte list) list \<times> sync_heap \<Rightarrow> ((nat \<times> byte list) list \<times> sync_heap) res" where
  "sync_show choice sp i = (\<lambda>(out, s).
     let (pk1, s) = sy_GetPktFromPool choice sp s in
     bind_res (sy_LoadData (sy_pkts s ! pk1)) (\<lambda>d. Inr (out @ [(i, d)], s)))"

text \<open>\<open>main\<close> for one order of the steps, and the choices of \<open>Get\<close>.\<close>

definition sync_main :: "sync_act list \<Rightarrow> (nat \<Rightarrow> nat option) \<Rightarrow> sync_heap \<Rightarrow> ((nat \<times> byte list) list \<times> sync_heap) res" where
  "sync_main acts choice s =
     bind_res (sync_start s) (\<lambda>(sp, pk, s).
     bind_res (fold_res (sync_step pk) acts ([], s)) (\<lambda>r.
     fold_res (\<lambda>i. sync_show (choice i) sp i) [0..<5] r))"

section \<open>The data of a buffer\<close>

definition spkt_ok :: "sync_pkt \<Rightarrow> bool" where
  "spkt_ok p \<longleftrightarrow> length (sk_buf p) = 1518 \<and> unat (sk_len p) \<le> 1518"

lemma sk_ref_frame [simp]:
  "spkt_ok (p\<lparr>sk_ref := x\<rparr>) = spkt_ok p" "sy_LoadData (p\<lparr>sk_ref := x\<rparr>) = sy_LoadData p"
  by (simp_all add: spkt_ok_def sy_LoadData_def)

lemma StoreData_LoadData:
  assumes "length (sk_buf p) = 1518"
  shows "length data \<le> 1518 \<Longrightarrow> \<exists>q. sy_StoreData data p = Inr q \<and> spkt_ok q \<and> sy_LoadData q = Inr data"
    and "1518 < length data \<Longrightarrow> length data < 65536 \<Longrightarrow> \<exists>q. sy_StoreData data p = Inr q \<and> sy_LoadData q = Inl SliceOutOfRange"
  using assms
  by (auto simp: sy_StoreData_def sy_LoadData_def spkt_ok_def Let_def overwrite_def unat_of_nat)

lemma AppendData_LoadData:
  assumes "spkt_ok p" and "sy_LoadData p = Inr d"
  shows "length d + length data \<le> 1518 \<Longrightarrow> \<exists>q. sy_AppendData data p = Inr q \<and> spkt_ok q \<and> sy_LoadData q = Inr (d @ data)
      \<and> sk_ref q = sk_ref p \<and> sk_pool q = sk_pool p"
    and "1518 < length d + length data \<Longrightarrow> \<exists>e. sy_AppendData data p = Inl e"
proof -
  have d: "d = take (unat (sk_len p)) (sk_buf p)" "length d = unat (sk_len p)" "length (sk_buf p) = 1518"
    using assms by (auto simp: sy_LoadData_def spkt_ok_def)
  show "\<exists>e. sy_AppendData data p = Inl e" if "1518 < length d + length data"
    using that d by (simp add: sy_AppendData_def)
  show "\<exists>q. sy_AppendData data p = Inr q \<and> spkt_ok q \<and> sy_LoadData q = Inr (d @ data)
      \<and> sk_ref q = sk_ref p \<and> sk_pool q = sk_pool p" if le: "length d + length data \<le> 1518"
  proof -
    have "unat (sk_len p + word_of_nat (length data)) = unat (sk_len p) + length data"
      using le d by (simp add: unat_word_ariths unat_of_nat)
    then show ?thesis
      using le d by (simp add: sy_AppendData_def spkt_ok_def sy_LoadData_def overwrite_def)
  qed
qed

section \<open>The buffer comes back\<close>

fun handled :: "sync_act list \<Rightarrow> byte list" where
  "handled [] = []"
| "handled (Handle i # as) = byte_text (Itoa i) @ handled as"
| "handled (PutRef # as) = handled as"

definition held :: "nat \<Rightarrow> nat \<Rightarrow> nat \<Rightarrow> byte list \<Rightarrow> sync_heap \<Rightarrow> bool" where
  "held sp pb r d s \<longleftrightarrow> pb < length (sy_pkts s) \<and> sp < length (sy_pools s) \<and> spkt_ok (sy_pkts s ! pb)
     \<and> sk_pool (sy_pkts s ! pb) = Some sp \<and> sk_ref (sy_pkts s ! pb) = int r \<and> sy_LoadData (sy_pkts s ! pb) = Inr d"

lemma sync_run_held:
  assumes "held sp pb r d s" and "count_list as PutRef < r" and "r < 2 ^ 31" and "length d + length (handled as) \<le> 1518"
  shows "\<exists>out' s'. fold_res (sync_step pb) as (out, s) = Inr (out', s') \<and> held sp pb (r - count_list as PutRef) (d @ handled as) s'
    \<and> sy_pools s' = sy_pools s"
  using assms
proof (induction as arbitrary: r d s out)
  case (Cons a as)
  show ?case
  proof (cases a)
    case (Handle i)
    obtain q where q: "sy_AppendData (byte_text (Itoa i)) (sy_pkts s ! pb) = Inr q" "spkt_ok q" "sy_LoadData q = Inr (d @ byte_text (Itoa i))"
      "sk_ref q = sk_ref (sy_pkts s ! pb)" "sk_pool q = sk_pool (sy_pkts s ! pb)"
      using AppendData_LoadData(1) [of "sy_pkts s ! pb" d "byte_text (Itoa i)"] Cons.prems Handle by (auto simp: held_def)
    let ?s = "upd_spkt pb (\<lambda>_. q) s"
    have h: "held sp pb r (d @ byte_text (Itoa i)) ?s" using q Cons.prems(1) by (simp add: held_def upd_spkt_def)
    have st: "sync_step pb a (out, s) = Inr (out @ [(i, d @ byte_text (Itoa i))], ?s)"
      using q Handle Cons.prems(1) by (simp add: handlePktBuf_def held_def upd_spkt_def)
    show ?thesis
      using Cons.IH [OF h, of "out @ [(i, d @ byte_text (Itoa i))]"] Cons.prems Handle st by (simp add: upd_spkt_def)
  next
    case PutRef
    let ?s = "snd (sy_releasePktBuf pb s)"
    have r: "1 < r" "wrap_i32 (int r - 1) = int (r - 1)" using Cons.prems(2,3) PutRef by (auto simp: of_nat_diff)
    have h: "held sp pb (r - 1) d ?s"
      using Cons.prems(1) r by (simp add: held_def sy_releasePktBuf_def upd_spkt_def Let_def)
    have ref: "fst (sy_releasePktBuf pb s) = int (r - 1)"
      using h by (simp add: held_def sy_releasePktBuf_def Let_def)
    have st: "sync_step pb a (out, s) = Inr (out, ?s)"
      using PutRef ref r by (simp add: sy_PutPktToPool_def case_prod_beta)
    show ?thesis
      using Cons.IH [OF h, of out] Cons.prems PutRef st by (simp add: sy_releasePktBuf_def upd_spkt_def Let_def)
  qed
qed simp

text \<open>
  Whatever the order of the steps, the buffer is back in its pool exactly after the put of the last of
  its holders, with the data of all that was appended in the order of the locks.
\<close>

theorem shared_buffer_returns:
  assumes "held sp pb (Suc n) d s" and "count_list as PutRef = n" and "Suc n < 2 ^ 31" and "length d + length (handled as) \<le> 1518"
  shows "\<exists>out1 s1 out2 s2. fold_res (sync_step pb) as (out, s) = Inr (out1, s1) \<and> sy_pools s1 = sy_pools s
    \<and> fold_res (sync_step pb) (as @ [PutRef]) (out, s) = Inr (out2, s2) \<and> sy_pools s2 = (sy_pools s)[sp := sy_pools s ! sp @ [pb]]
    \<and> sk_ref (sy_pkts s2 ! pb) = 0 \<and> sy_LoadData (sy_pkts s2 ! pb) = Inr (d @ handled as)"
proof -
  obtain out1 s1 where s1: "fold_res (sync_step pb) as (out, s) = Inr (out1, s1)" "held sp pb 1 (d @ handled as) s1"
    "sy_pools s1 = sy_pools s"
    using sync_run_held [OF assms(1) _ assms(3,4), of out] assms(2) by auto
  let ?t = "snd (sy_releasePktBuf pb s1)"
  have t: "fst (sy_releasePktBuf pb s1) = 0" "sk_pool (sy_pkts ?t ! pb) = Some sp" "sk_ref (sy_pkts ?t ! pb) = 0"
    "sy_LoadData (sy_pkts ?t ! pb) = Inr (d @ handled as)" "sy_pools ?t = sy_pools s"
    using s1(2,3) by (simp_all add: held_def sy_releasePktBuf_def upd_spkt_def Let_def)
  have p: "sync_step pb PutRef (out1, s1) = Inr (out1, Pool_Put sp pb ?t)"
    using t by (simp add: sy_PutPktToPool_def case_prod_beta)
  have "fold_res (sync_step pb) (as @ [PutRef]) (out, s) = Inr (out1, Pool_Put sp pb ?t)"
    using s1(1) p by (simp add: fold_res_append)
  moreover have "sp < length (sy_pools s)" using s1(2,3) by (simp add: held_def)
  ultimately show ?thesis using s1 t by (simp add: Pool_Put_def)
qed

lemma sync_start_held:
  "\<exists>s. sync_start \<lparr>sy_pools = [], sy_pkts = []\<rparr> = Inr (0, 0, s) \<and> held 0 0 3 (byte_text ''test sync.pool'') s \<and> sy_pools s = [[]]"
proof -
  let ?d = "byte_text ''test sync.pool''" and ?p = "zero_sync_pkt\<lparr>sk_pool := Some 0, sk_ref := 1\<rparr>"
  have "length ?d \<le> 1518" "length (sk_buf ?p) = 1518" by (simp_all add: byte_text_def zero_sync_pkt_def del: replicate.simps)
  from StoreData_LoadData(1) [OF this(2,1)] obtain q where q: "sy_StoreData ?d ?p = Inr q" "spkt_ok q" "sy_LoadData q = Inr ?d" by blast
  have r: "sk_ref q = 1" "sk_pool q = Some 0" using q(1) by (auto simp: sy_StoreData_def)
  let ?s = "\<lparr>sy_pools = [[]], sy_pkts = [q\<lparr>sk_ref := 3\<rparr>]\<rparr>"
  have "sync_start \<lparr>sy_pools = [], sy_pkts = []\<rparr> = Inr (0, 0, ?s)"
    using q(1) r
    by (simp add: sync_start_def sy_NewPktBufPool_def sy_GetPktFromPool_def Pool_Get_def upd_spkt_def sy_HoldPktBuf_def Let_def
        zero_sync_pkt_def del: replicate.simps)
  moreover have "held 0 0 3 ?d ?s" using q r by (simp add: held_def)
  ultimately show ?thesis by simp
qed

text \<open>The program: in every order of the steps of its three holders the buffer comes back, with both numbers appended.\<close>

theorem sync_program:
  assumes "as \<in> {[Handle i, Handle j, PutRef, PutRef], [Handle i, PutRef, Handle j, PutRef], [PutRef, Handle i, Handle j, PutRef],
      [PutRef, Handle i, PutRef, Handle j], [Handle i, PutRef, PutRef, Handle j]}" and "{i, j} = {0, 1}"
  shows "\<exists>s out s'. sync_start \<lparr>sy_pools = [], sy_pkts = []\<rparr> = Inr (0, 0, s)
    \<and> fold_res (sync_step 0) (as @ [PutRef]) ([], s) = Inr (out, s') \<and> sy_pools s' = [[0]]
    \<and> sy_LoadData (sy_pkts s' ! 0) = Inr (byte_text (''test sync.pool'' @ Itoa i @ Itoa j))"
proof -
  obtain s where s: "sync_start \<lparr>sy_pools = [], sy_pkts = []\<rparr> = Inr (0, 0, s)" "held 0 0 3 (byte_text ''test sync.pool'') s"
    "sy_pools s = [[]]"
    using sync_start_held by blast
  have ij: "length (Itoa i) = 1" "length (Itoa j) = 1" using assms(2) by (auto simp: Itoa.simps doubleton_eq_iff)
  have as: "count_list as PutRef = 2" "handled as = byte_text (Itoa i @ Itoa j)" using assms(1) by (auto simp: byte_text_def)
  have "held 0 0 (Suc 2) (byte_text ''test sync.pool'') s" using s(2) by (simp add: numeral_3_eq_3 numeral_2_eq_2)
  from shared_buffer_returns [OF this as(1), of "[]"] ij as(2) obtain out2 s2 where
    r: "fold_res (sync_step 0) (as @ [PutRef]) ([], s) = Inr (out2, s2)" "sy_pools s2 = [[0]]"
    "sy_LoadData (sy_pkts s2 ! 0) = Inr (byte_text ''test sync.pool'' @ handled as)"
    using s(3) by (auto simp: byte_text_def)
  then show ?thesis using s(1) as(2) by (auto simp: byte_text_def)
qed

end
