(* ===== verification/Mycrypto.thy ===== *)
theory Mycrypto
  imports Crypto_Block
begin

text \<open>
  Package \<open>mycrypto\<close>: text under AES in cipher feedback mode, with the start of the key as
  initialization vector, and the program \<open>reaserch/crypto.go\<close> that tries it out. \<open>aes\<close> is the block
  cipher of Go's library for a key; its \<open>NewCFBEncrypter\<close> and \<open>NewCFBDecrypter\<close> are cipher feedback as
  \<open>cfb\<close> has it. The random numbers are an argument.
\<close>

datatype crypto_error = KeyTooShort | KeySizeError nat | Recovered go_panic

record AesEncrypt =
  ae_key :: "byte list"

definition AesNewEncrypt :: AesEncrypt where
  "AesNewEncrypt = \<lparr>ae_key = []\<rparr>"

definition genKey :: "string \<Rightarrow> crypto_error + byte list" where
  "genKey passwd =
     (let keyLen = length passwd in
      if keyLen < 16 then Inl KeyTooShort
      else
        let arrKey = string_bytes passwd in
        if keyLen \<ge> 32 then Inr (take 32 arrKey)
        else if keyLen \<ge> 24 then Inr (take 24 arrKey)
        else Inr (take 16 arrKey))"

text \<open>With an error the key is nil.\<close>

definition SetEncrypKey :: "string \<Rightarrow> AesEncrypt \<Rightarrow> crypto_error option \<times> AesEncrypt" where
  "SetEncrypKey passwd ae =
     (case genKey passwd of
        Inl e \<Rightarrow> (Some e, ae\<lparr>ae_key := []\<rparr>)
      | Inr k \<Rightarrow> (None, ae\<lparr>ae_key := k\<rparr>))"

text \<open>\<open>aes.NewCipher\<close>: keys of 16, 24 or 32 bytes.\<close>

definition aes_NewCipher :: "(byte list \<Rightarrow> cipher_Block) \<Rightarrow> byte list \<Rightarrow> crypto_error + cipher_Block" where
  "aes_NewCipher aes key =
     (if length key \<in> {16, 24, 32} then Inr (aes key) else Inl (KeySizeError (length key)))"

text \<open>The slice of the key panics when it is too short.\<close>

definition key_iv :: "byte list \<Rightarrow> byte list res" where
  "key_iv key = (if length key < 16 then Inl SliceOutOfRange else Inr (take 16 key))"

definition Aes_Encrypt :: "(byte list \<Rightarrow> cipher_Block) \<Rightarrow> AesEncrypt \<Rightarrow> string \<Rightarrow> (crypto_error + byte list) res" where
  "Aes_Encrypt aes this strMesg =
     (let key = ae_key this in
      bind_res (key_iv key) (\<lambda>iv.
      case aes_NewCipher aes key of
        Inl e \<Rightarrow> Inr (Inl e)
      | Inr block \<Rightarrow>
          Inr (Inr (cfb (\<lambda>_ out. bc_Encrypt block out) (bc_BlockSize block) (bc_Encrypt block iv) (string_bytes strMesg)))))"

text \<open>\<open>Decrypt\<close> turns a panic into an error.\<close>

definition Aes_Decrypt :: "(byte list \<Rightarrow> cipher_Block) \<Rightarrow> AesEncrypt \<Rightarrow> byte list \<Rightarrow> crypto_error + byte list" where
  "Aes_Decrypt aes this src =
     (let key = ae_key this in
      case key_iv key of
        Inl p \<Rightarrow> Inl (Recovered p)
      | Inr iv \<Rightarrow>
          (case aes_NewCipher aes key of
             Inl e \<Rightarrow> Inl e
           | Inr block \<Rightarrow>
               Inr (cfb (\<lambda>src _. bc_Encrypt block src) (bc_BlockSize block) (bc_Encrypt block iv) src)))"

definition letterBytes :: string where
  "letterBytes = ''abcdefghijklmnopqrstuvwxyzABCDEFGHIJKLMNOPQRSTUVWXYZ''"

text \<open>\<open>rnd i n\<close> is the \<open>i\<close>-th call of \<open>rand.Intn(n)\<close>, below \<open>n\<close>.\<close>

definition RandStringBytes :: "(nat \<Rightarrow> nat \<Rightarrow> nat) \<Rightarrow> int \<Rightarrow> string res" where
  "RandStringBytes rnd n =
     (if n < 0 then Inl (PanicMsg ''makeslice: len out of range'')
      else Inr (map (\<lambda>i. letterBytes ! rnd i (length letterBytes)) [0..<nat n]))"

text \<open>The program of \<open>reaserch/crypto.go\<close>: what it prints.\<close>

datatype printed = PrintErr crypto_error | PrintLen nat "byte list" | PrintBytes "byte list"

definition crypto_main :: "(byte list \<Rightarrow> cipher_Block) \<Rightarrow> printed list res" where
  "crypto_main aes =
     (let (err, ae) = SetEncrypKey ''12345678901234567'' AesNewEncrypt in
      case err of
        Some e \<Rightarrow> Inr [PrintErr e]
      | None \<Rightarrow>
          bind_res (Aes_Encrypt aes ae ''mojianwei'') (\<lambda>r.
          case r of
            Inl e \<Rightarrow> Inr [PrintErr e]
          | Inr enbuf \<Rightarrow>
              (case Aes_Decrypt aes ae enbuf of
                 Inl e \<Rightarrow> Inr [PrintLen (length enbuf) enbuf, PrintErr e]
               | Inr deString \<Rightarrow> Inr [PrintLen (length enbuf) enbuf, PrintBytes deString])))"

section \<open>Keys\<close>

text \<open>The block cipher of the library: blocks of 16 bytes for every key.\<close>

definition aes_ok :: "(byte list \<Rightarrow> cipher_Block) \<Rightarrow> bool" where
  "aes_ok aes \<longleftrightarrow> (\<forall>k. bc_BlockSize (aes k) = 16 \<and> (\<forall>x. length x = 16 \<longrightarrow> length (bc_Encrypt (aes k) x) = 16))"

lemma genKey_size: "genKey passwd = Inr k \<Longrightarrow> length k \<in> {16, 24, 32}"
  by (auto simp: genKey_def Let_def split: if_splits)

text \<open>The states of an \<open>AesEncrypt\<close>: fresh, and after any number of calls of \<open>SetEncrypKey\<close>.\<close>

inductive aes_state :: "AesEncrypt \<Rightarrow> bool" where
  fresh: "aes_state AesNewEncrypt"
| set_key: "aes_state ae \<Longrightarrow> aes_state (snd (SetEncrypKey passwd ae))"

lemma aes_state_key: "aes_state ae \<Longrightarrow> ae_key ae = [] \<or> length (ae_key ae) \<in> {16, 24, 32}"
proof (induction rule: aes_state.induct)
  case (set_key ae passwd)
  then show ?case
    using genKey_size [of passwd] by (cases "genKey passwd") (simp_all add: SetEncrypKey_def)
qed (simp add: AesNewEncrypt_def)

section \<open>Round trip\<close>

text \<open>
  In every state of an \<open>AesEncrypt\<close>, either no key is set, \<open>Encrypt\<close> panics and \<open>Decrypt\<close> reports the
  panic as an error, or what \<open>Encrypt\<close> makes of a text is as long as the text and \<open>Decrypt\<close> gives the
  text back.
\<close>

theorem Aes_Encrypt_outcome:
  assumes "aes_ok aes" and "aes_state ae"
  shows "if ae_key ae = [] then Aes_Encrypt aes ae m = Inl SliceOutOfRange \<and> Aes_Decrypt aes ae c = Inl (Recovered SliceOutOfRange)
    else \<exists>e. Aes_Encrypt aes ae m = Inr (Inr e) \<and> length e = length m \<and> Aes_Decrypt aes ae e = Inr (string_bytes m)"
proof (cases "ae_key ae = []")
  case False
  then have k: "length (ae_key ae) \<in> {16, 24, 32}" using aes_state_key [OF assms(2)] by blast
  then have iv: "key_iv (ae_key ae) = Inr (take 16 (ae_key ae))" by (auto simp: key_iv_def)
  define E where "E = bc_Encrypt (aes (ae_key ae))"
  have E: "length (E x) = 16" if "length x = 16" for x using assms(1) that by (simp add: aes_ok_def E_def)
  define tbl where "tbl = E (take 16 (ae_key ae))"
  have t: "length tbl = 16" unfolding tbl_def using k by (intro E) auto
  let ?e = "cfb (\<lambda>_ out. E out) 16 tbl (string_bytes m)"
  have len: "length ?e = length m" using length_cfb [of 16 tbl "\<lambda>_ out. E out" "string_bytes m"] t E by simp
  have inv: "cfb (\<lambda>src _. E src) 16 tbl ?e = string_bytes m" using cfb_inverse [of 16 tbl E] t E by simp
  have "bc_BlockSize (aes (ae_key ae)) = 16" using assms(1) by (simp add: aes_ok_def)
  then have "Aes_Encrypt aes ae m = Inr (Inr ?e)" "Aes_Decrypt aes ae ?e = Inr (cfb (\<lambda>src _. E src) 16 tbl ?e)"
    using k iv by (auto simp: Aes_Encrypt_def Aes_Decrypt_def aes_NewCipher_def Let_def E_def tbl_def)
  then show ?thesis using False len inv by simp
qed (simp add: Aes_Encrypt_def Aes_Decrypt_def key_iv_def)

theorem Aes_Encrypt_outcome_witness:
  "\<exists>e. Aes_Encrypt (\<lambda>k. add_one\<lparr>bc_BlockSize := 16\<rparr>) \<lparr>ae_key = replicate 16 1\<rparr> ''text'' = Inr (Inr e) \<and> length e = 4"
proof -
  have ok: "aes_ok (\<lambda>k. add_one\<lparr>bc_BlockSize := 16\<rparr>)" by (simp add: aes_ok_def add_one_def)
  have s: "snd (SetEncrypKey (replicate 16 (CHR 0x01)) AesNewEncrypt) = \<lparr>ae_key = replicate 16 1\<rparr>"
    by (simp add: SetEncrypKey_def genKey_def AesNewEncrypt_def string_bytes_def numeral_eq_Suc Let_def)
  have "aes_state \<lparr>ae_key = replicate 16 1\<rparr>"
    using aes_state.set_key [OF aes_state.fresh, of "replicate 16 (CHR 0x01)"] unfolding s .
  from Aes_Encrypt_outcome [OF ok this, of "''text''"] show ?thesis by (auto split: if_splits)
qed

section \<open>Equal beginnings\<close>

lemma take_xor_list: "take n (xor_list xs tbl) = xor_list (take n xs) tbl"
  unfolding xor_list_def by (induction xs arbitrary: n tbl) (case_tac tbl; case_tac n; simp)+

lemma take_cfb:
  assumes "0 < bs" and "\<And>x y. length x = bs \<Longrightarrow> length y = bs \<Longrightarrow> length (f x y) = bs" and "length tbl = bs"
  shows "take (length p) (cfb f bs tbl (p @ a)) = cfb f bs tbl p"
  using assms(3)
proof (induction p arbitrary: tbl rule: length_induct)
  case (1 p)
  show ?case
  proof (cases "length p < bs")
    case True
    show ?thesis
    proof (cases "length (p @ a) < bs")
      case False
      have "length (xor_list (take bs (p @ a)) tbl) = bs" using False 1(2) by simp
      then have "take (length p) (cfb f bs tbl (p @ a)) = take (length p) (xor_list (take bs (p @ a)) tbl)"
        using False True assms(1) by (simp add: cfb.simps [of f bs tbl "p @ a"] Let_def)
      then show ?thesis using True by (simp add: take_xor_list cfb.simps [of f bs tbl p])
    qed (use True in \<open>simp add: cfb.simps take_xor_list\<close>)
  next
    case False
    let ?c = "xor_list (take bs p) tbl"
    have l: "length ?c = bs" "take bs (p @ a) = take bs p" "drop bs (p @ a) = drop bs p @ a" using False 1(2) by simp_all
    have n: "length (f (take bs p) ?c) = bs" using assms(2) l(1) False by simp
    have "take (length (drop bs p)) (cfb f bs (f (take bs p) ?c) (drop bs p @ a)) = cfb f bs (f (take bs p) ?c) (drop bs p)"
    proof -
      have "length (drop bs p) < length p" using False assms(1) by simp
      then show ?thesis using 1(1) n by blast
    qed
    then show ?thesis
      using False assms(1) l by (simp add: cfb.simps [of f bs tbl "p @ a"] cfb.simps [of f bs tbl p] Let_def)
  qed
qed

text \<open>
  The initialization vector is a part of the key, so it is the same for every text: texts with equal
  beginnings have equal beginnings after encryption, which shows to anybody.
\<close>

theorem Aes_Encrypt_same_beginning:
  assumes "aes_ok aes" and "Aes_Encrypt aes ae (p @ a) = Inr (Inr x)" and "Aes_Encrypt aes ae (p @ b) = Inr (Inr y)"
  shows "take (length p) x = take (length p) y"
proof -
  define E where "E = bc_Encrypt (aes (ae_key ae))"
  have E: "length (E x) = 16" if "length x = 16" for x using assms(1) that by (simp add: aes_ok_def E_def)
  define tbl where "tbl = E (take 16 (ae_key ae))"
  have bs: "bc_BlockSize (aes (ae_key ae)) = 16" using assms(1) by (simp add: aes_ok_def)
  have k: "\<not> length (ae_key ae) < 16" using assms(2) by (auto simp: Aes_Encrypt_def key_iv_def Let_def split: if_splits)
  then have t: "length tbl = 16" unfolding tbl_def by (intro E) simp
  have "x = cfb (\<lambda>_ out. E out) 16 tbl (string_bytes p @ string_bytes a)"
    "y = cfb (\<lambda>_ out. E out) 16 tbl (string_bytes p @ string_bytes b)"
    using assms(2,3) bs k
    by (auto simp: Aes_Encrypt_def key_iv_def aes_NewCipher_def Let_def E_def tbl_def string_bytes_def split: if_splits)
  then show ?thesis using take_cfb [of 16 "\<lambda>_ out. E out" tbl "string_bytes p"] t E by simp
qed

section \<open>The program\<close>

theorem crypto_main_prints_text:
  assumes "aes_ok aes"
  shows "\<exists>e. crypto_main aes = Inr [PrintLen 9 e, PrintBytes (string_bytes ''mojianwei'')]"
proof -
  obtain ae where s: "SetEncrypKey ''12345678901234567'' AesNewEncrypt = (None, ae)" and k: "ae_key ae \<noteq> []"
    by (simp add: SetEncrypKey_def genKey_def Let_def string_bytes_def)
  have "aes_state ae" using aes_state.set_key [OF aes_state.fresh, of "''12345678901234567''"] s by simp
  from Aes_Encrypt_outcome [OF assms this, of "''mojianwei''"] k obtain e where
    "Aes_Encrypt aes ae ''mojianwei'' = Inr (Inr e)" "length e = 9" "Aes_Decrypt aes ae e = Inr (string_bytes ''mojianwei'')"
    by auto
  then show ?thesis using s by (simp add: crypto_main_def)
qed

end
