(* ===== verification/Vnet_Route.thy ===== *)
theory Vnet_Route
  imports Go_Prelude
begin

text \<open>
  Package \<open>vnet\<close>, file \<open>rt.go\<close>: the routes of the tunnel, set by shell commands from a file. What the
  operating system does is an argument: a command runs and succeeds or fails, a file can be read or
  not, a device opens or not. The lines of the file are those that a \<open>bufio.Scanner\<close> yields.
\<close>

record 'o os_ops =
  os_exec :: "string \<Rightarrow> 'o \<Rightarrow> bool \<times> 'o"
  os_open_tun :: "string \<Rightarrow> int \<Rightarrow> 'o \<Rightarrow> bool \<times> 'o"
  os_read_lines :: "string \<Rightarrow> 'o \<Rightarrow> string list option"
  os_LookPath :: "string \<Rightarrow> 'o \<Rightarrow> string option"

definition SetRouteConf :: "string \<Rightarrow> string \<Rightarrow> string" where
  "SetRouteConf rc routeConf = (if rc \<noteq> '''' then rc else routeConf)"

text \<open>\<open>strings.Split(line, ",")\<close>: always at least one field.\<close>

fun split_comma :: "string \<Rightarrow> string list" where
  "split_comma [] = [[]]"
| "split_comma (c # cs) =
     (if c = CHR '','' then [] # split_comma cs
      else case split_comma cs of [] \<Rightarrow> [[c]] | f # fs \<Rightarrow> (c # f) # fs)"

definition route_cmd :: "string \<Rightarrow> string \<Rightarrow> string" where
  "route_cmd TunName line =
     (let rt = split_comma line in
      if length rt = 1 then ''ip route add '' @ rt ! 0 @ '' dev '' @ TunName @ '' table 5588''
      else if length rt = 2 then ''ip route add '' @ rt ! 0 @ '' via '' @ rt ! 1 @ '' table 5588''
      else ''ip route add '' @ rt ! 0 @ '' via '' @ rt ! 1 @ '' dev '' @ rt ! 2 @ '' table 5588'')"

definition rule_del :: string where "rule_del = ''ip ru del from all table 5588''"
definition rule_add :: string where "rule_add = ''ip ru add from all table 5588''"
definition route_flush :: string where "route_flush = ''ip route flush table 5588''"

text \<open>The loop that deletes old rules, until it fails or \<open>n\<close> are gone.\<close>

primrec del_rules :: "'o os_ops \<Rightarrow> nat \<Rightarrow> 'o \<Rightarrow> 'o" where
  "del_rules os 0 st = st"
| "del_rules os (Suc n) st = (let (ok, st) = os_exec os rule_del st in if ok then del_rules os n st else st)"

definition setRoute :: "'o os_ops \<Rightarrow> string \<Rightarrow> string \<Rightarrow> 'o \<Rightarrow> 'o" where
  "setRoute os TunName routeConf st =
     (case os_read_lines os routeConf st of
        None \<Rightarrow> st
      | Some lines \<Rightarrow>
          let st = del_rules os 100 st;
              (ok, st) = os_exec os rule_add st
          in if \<not> ok then st
             else
               let st = snd (os_exec os route_flush st)
               in fold (\<lambda>line st. snd (os_exec os (route_cmd TunName line) st)) lines st)"

section \<open>The fields of a line\<close>

lemma split_comma_plain:
  assumes "CHR '','' \<notin> set f"
  shows "split_comma f = [f]" and "split_comma (f @ CHR '','' # g) = f # split_comma g"
  using assms by (induction f) auto

section \<open>A kernel with policy rules and a route table\<close>

text \<open>
  The part of the kernel that the commands change: how often the rule for table 5588 is there, and
  the routes in the table. Deleting a rule fails when there is none.
\<close>

record kernel =
  kn_rules :: nat
  kn_routes :: "string list"
  kn_file :: "string list option"

definition kernel_exec :: "string \<Rightarrow> kernel \<Rightarrow> bool \<times> kernel" where
  "kernel_exec cmd k =
     (if cmd = rule_del then (0 < kn_rules k, k\<lparr>kn_rules := kn_rules k - 1\<rparr>)
      else if cmd = rule_add then (True, k\<lparr>kn_rules := kn_rules k + 1\<rparr>)
      else if cmd = route_flush then (True, k\<lparr>kn_routes := []\<rparr>)
      else (True, k\<lparr>kn_routes := kn_routes k @ [cmd]\<rparr>))"

definition kernel_os :: "kernel os_ops" where
  "kernel_os = \<lparr>os_exec = kernel_exec, os_open_tun = (\<lambda>name kind k. (True, k)), os_read_lines = (\<lambda>f. kn_file),
     os_LookPath = (\<lambda>f k. Some (''/sbin/'' @ f))\<rparr>"

lemma route_cmd_other: "route_cmd tun line \<notin> {rule_del, rule_add, route_flush}"
  by (simp add: route_cmd_def rule_del_def rule_add_def route_flush_def Let_def)

lemma del_rules_kernel: "del_rules kernel_os n k = k\<lparr>kn_rules := kn_rules k - n\<rparr>"
proof (induction n arbitrary: k)
  case (Suc n)
  show ?case
    by (cases "kn_rules k") (simp_all add: Suc kernel_os_def [THEN arg_cong [of _ _ os_exec]] kernel_exec_def)
qed simp

lemma add_routes_kernel:
  "fold (\<lambda>line st. snd (os_exec kernel_os (route_cmd tun line) st)) lines k
    = k\<lparr>kn_routes := kn_routes k @ map (route_cmd tun) lines\<rparr>"
proof (induction lines arbitrary: k)
  case (Cons l ls)
  have "snd (os_exec kernel_os (route_cmd tun l) k) = k\<lparr>kn_routes := kn_routes k @ [route_cmd tun l]\<rparr>"
    using route_cmd_other [of tun l] by (simp add: kernel_os_def kernel_exec_def)
  then show ?case using Cons by simp
qed simp

text \<open>
  \<open>setRoute\<close> replaces: with fewer than a hundred rules before, there is one rule for the table
  afterwards, and the table holds exactly the routes of the file, in its order, whatever it held.
\<close>

theorem setRoute_replaces:
  assumes "kn_file k = Some lines" and "kn_rules k \<le> 100"
  shows "setRoute kernel_os tun conf k = k\<lparr>kn_rules := 1, kn_routes := map (route_cmd tun) lines\<rparr>"
proof -
  have "os_exec kernel_os = kernel_exec" "os_read_lines kernel_os conf = kn_file" by (simp_all add: kernel_os_def)
  then show ?thesis
    using assms add_routes_kernel [of tun lines] del_rules_kernel [of 100 k]
    by (simp add: setRoute_def Let_def kernel_exec_def rule_add_def rule_del_def route_flush_def)
qed

theorem setRoute_replaces_witness:
  "kn_routes (setRoute kernel_os ''tap0'' ''rt.txt''
      \<lparr>kn_rules = 2, kn_routes = [''old''], kn_file = Some [''10.0.0.0/8'', ''1.0.0.0/8,2.0.0.1'']\<rparr>)
    = [''ip route add 10.0.0.0/8 dev tap0 table 5588'', ''ip route add 1.0.0.0/8 via 2.0.0.1 table 5588'']"
  by (subst setRoute_replaces [where lines = "[''10.0.0.0/8'', ''1.0.0.0/8,2.0.0.1'']"])
    (simp_all add: route_cmd_def)

end
