(* ===== verification/Vnet_Setup.thy ===== *)
theory Vnet_Setup
  imports Vnet_Client Vnet_Route Netstat_Conntrack
begin

text \<open>
  Package \<open>vnet\<close>, the creation of devices and connections: \<open>OpenTun\<close> and \<open>Close\<close> of \<open>tun.go\<close>,
  \<open>HandleTuns\<close> and \<open>ConnBindTun\<close> of \<open>client.go\<close>, \<open>NewVnetConn\<close> of \<open>conn.go\<close>, with the operating
  system as an argument. \<open>log.Panicf\<close> and \<open>log.Fatal\<close> end the process.
\<close>

record TunConf =
  tc_Br :: string
  tc_TunType :: int
  tc_TunName :: string
  tc_Ipstr :: string
  tc_Mac :: string
  tc_Vid :: int

text \<open>The state of the package, of the operating system and of \<open>netstat\<close>, and the flags.\<close>

record 'o vsetup =
  su_w :: vnet
  su_os :: 'o
  su_ns :: netstat
  su_TunName :: string
  su_routeConf :: string
  su_checkTunPkt :: bool
  su_UpRateLimit :: int
  su_DownRateLimit :: int
  su_CryptType :: byte

definition SetRateLimit :: "int \<Rightarrow> int \<Rightarrow> 'o vsetup \<Rightarrow> 'o vsetup" where
  "SetRateLimit up down s = s\<lparr>su_UpRateLimit := up, su_DownRateLimit := down\<rparr>"

definition SetCheckTunPkt :: "bool \<Rightarrow> 'o vsetup \<Rightarrow> 'o vsetup" where
  "SetCheckTunPkt b s = s\<lparr>su_checkTunPkt := b\<rparr>"

text \<open>The rates of the buckets for reading and writing, if any.\<close>

definition NewVnetConn :: "'o vsetup \<Rightarrow> int option \<times> int option" where
  "NewVnetConn s =
     ((if su_DownRateLimit s \<noteq> 0 then Some (su_DownRateLimit s) else None),
      (if su_UpRateLimit s \<noteq> 0 then Some (su_UpRateLimit s) else None))"

section \<open>Devices\<close>

text \<open>The name is known when the device is open.\<close>

definition NewTun :: "int \<Rightarrow> int \<Rightarrow> 'o vsetup \<Rightarrow> (mytun \<times> 'o vsetup) res" where
  "NewTun devType vid s =
     bind_res (getDevId (vn_obcDevSlot (su_w s))) (\<lambda>(i, slots).
     Inr (\<lparr>tn_Name = '''', tn_devType = devType, tn_devId = i, tn_vid = vid\<rparr>, s\<lparr>su_w := (su_w s)\<lparr>vn_obcDevSlot := slots\<rparr>\<rparr>))"

text \<open>\<open>None\<close> is an error of the code.\<close>

definition OpenTun ::
  "'o os_ops \<Rightarrow> string \<Rightarrow> string \<Rightarrow> int \<Rightarrow> string \<Rightarrow> string \<Rightarrow> int \<Rightarrow> bool \<Rightarrow> 'o vsetup \<Rightarrow> (mytun option \<times> 'o vsetup) res"
where
  "OpenTun os br tunname tuntype ipstr mac vid auto s =
     bind_res (NewTun tuntype vid s) (\<lambda>(tun, s).
     let tunname = (if auto then tunname @ Itoa (nat (tn_devId tun)) else tunname);
         (ok, st) = os_open_tun os tunname tuntype (su_os s);
         s = s\<lparr>su_os := st\<rparr>
     in if \<not> ok then Inr (None, s)
        else
          let tun = tun\<lparr>tn_Name := tunname\<rparr> in
          bind_res (tun_confs br tunname tuntype ipstr mac) (\<lambda>confs.
          let (ok, st) = os_exec os confs (su_os s); s = s\<lparr>su_os := st\<rparr>
          in if \<not> ok then Inr (None, s)
             else
               let st = (if br = '''' then setRoute os (su_TunName s) (su_routeConf s) (su_os s) else su_os s);
                   (_, st) = os_exec os (''./vnetDevUp.sh '' @ tunname) st
               in Inr (Some tun, s\<lparr>su_os := st\<rparr>)))"

definition RunCmd :: "'o os_ops \<Rightarrow> string \<Rightarrow> string list \<Rightarrow> 'o \<Rightarrow> bool \<times> 'o" where
  "RunCmd os cmd args st = os_exec os (concat (cmd # map (\<lambda>a. CHR '' '' # a) args)) st"

definition tun_Close :: "'o os_ops \<Rightarrow> mytun \<Rightarrow> 'o vsetup \<Rightarrow> 'o vsetup res" where
  "tun_Close os tun s =
     (case os_LookPath os ''ip'' (su_os s) of
        None \<Rightarrow> Inl (PanicMsg ''lookpath error: '')
      | Some ipPath \<Rightarrow>
          let (ok, st) = RunCmd os ipPath [''link'', ''delete'', tn_Name tun] (su_os s) in
          if \<not> ok then Inl (PanicMsg ''exit status 1'')
          else
            let (_, st) = os_exec os (''./vnetDevDown.sh '' @ tn_Name tun) st
            in bind_res (cio_Close (IoTun tun) (su_w s)) (\<lambda>w. Inr (s\<lparr>su_w := w, su_os := st\<rparr>)))"

definition CreateTunClient ::
  "'o os_ops \<Rightarrow> TunConf \<Rightarrow> bool \<Rightarrow> 'o vsetup \<Rightarrow> (nat option \<times> 'o vsetup) res" where
  "CreateTunClient os c auto s =
     bind_res (OpenTun os (tc_Br c) (su_TunName s) (tc_TunType c) (tc_Ipstr c) (tc_Mac c) (tc_Vid c) auto s) (\<lambda>(tun, s).
     case tun of
       None \<Rightarrow> Inr (None, s)
     | Some t \<Rightarrow>
         let (ct, w) = NewClient (IoTun t) (tn_Name t) (su_w s);
             w = upd_client ct (\<lambda>cl. cl\<lparr>cl_valid := True\<rparr>) w
         in Inr (Some ct, s\<lparr>su_w := w\<rparr>))"

text \<open>\<open>netstat.SetNetZone\<close> where the statistics are enabled.\<close>

definition set_zone :: "int \<Rightarrow> 'o vsetup \<Rightarrow> 'o vsetup" where
  "set_zone vid s = (if IsEnable (su_w s) then s\<lparr>su_ns := SetNetZone vid (su_ns s)\<rparr> else s)"

definition HandleTuns_one :: "'o os_ops \<Rightarrow> TunConf \<Rightarrow> bool \<times> 'o vsetup \<Rightarrow> (bool \<times> 'o vsetup) res" where
  "HandleTuns_one os c = (\<lambda>(setFlag, s).
     if tc_TunType c \<noteq> DevTap then Inr (setFlag, s)
     else
       let (setFlag, s) = (if \<not> setFlag \<and> tc_Br c = '''' then (True, s\<lparr>su_TunName := tc_TunName c\<rparr>) else (setFlag, s)) in
       bind_res (OpenTun os (tc_Br c) (tc_TunName c) (tc_TunType c) (tc_Ipstr c) (tc_Mac c) (tc_Vid c) False s) (\<lambda>(tun, s).
       case tun of
         None \<Rightarrow> Inl (PanicMsg ''OpenTunfail'')
       | Some t \<Rightarrow>
           bind_res (HandleTun t (su_w s)) (\<lambda>(_, w).
           Inr (setFlag, set_zone (tn_vid t) (s\<lparr>su_w := w\<rparr>)))))"

definition HandleTuns :: "'o os_ops \<Rightarrow> TunConf list \<Rightarrow> 'o vsetup \<Rightarrow> 'o vsetup res" where
  "HandleTuns os vtuns s = bind_res (fold_res (HandleTuns_one os) vtuns (False, s)) (\<lambda>(_, s). Inr s)"

section \<open>One device bound to one connection\<close>

definition ConnBindTun_begin :: "'o os_ops \<Rightarrow> TunConf \<Rightarrow> 'o vsetup \<Rightarrow> (nat \<times> 'o vsetup) res" where
  "ConnBindTun_begin os c s =
     (let s = s\<lparr>su_TunName := tc_TunName c\<rparr> in
      bind_res (OpenTun os (tc_Br c) (tc_TunName c) (tc_TunType c) (tc_Ipstr c) (tc_Mac c) (tc_Vid c) False s) (\<lambda>(tun, s).
      case tun of
        None \<Rightarrow> Inl (PanicMsg ''OpenTunfail'')
      | Some t \<Rightarrow>
          let (vtc, w) = NewClient (IoTun t) (tn_Name t) (su_w s);
              w = upd_client vtc (\<lambda>cl. cl\<lparr>cl_valid := True\<rparr>) w;
              s = set_zone (tn_vid t) (s\<lparr>su_w := w\<rparr>)
          in bind_res (joinFdbById vtc (tn_vid t) (su_w s)) (\<lambda>(err, w).
             if err \<noteq> None then Inl (PanicMsg ''fdb is full'') else Inr (vtc, s\<lparr>su_w := w\<rparr>))))"

text \<open>A round of its loop, up to the wait for \<open>reconnect\<close>, on the name of a new connection; and its end.\<close>

definition ConnBindTun_round ::
  "nat option \<Rightarrow> string \<Rightarrow> byte \<Rightarrow> nat \<Rightarrow> vnet \<Rightarrow> (nat \<times> vnet) res" where
  "ConnBindTun_round choice conn CryptType vtc w =
     (let (vcc, w) = NewClient IoConn conn w in
      bind_res (bindPairClient vcc vtc w) (\<lambda>w.
      case cl_cio (client w vtc) of
        IoTun t \<Rightarrow>
          let w = w\<lparr>vn_tcMap := AList.update (tn_Name t) vcc (vn_tcMap w)\<rparr>;
              w = setCryptType vcc CryptType w;
              w = upd_client vcc (\<lambda>cl. cl\<lparr>cl_isClient := True\<rparr>) w;
              w = ClientMasterAdd vcc w
          in bind_res (JoinAllFdb vcc w) (\<lambda>w. bind_res (reportFdbMsg choice vcc w) (\<lambda>w. Inr (vcc, w)))
      | _ \<Rightarrow> Inl (PanicMsg ''interface conversion'')))"

definition ConnBindTun_end :: "nat \<Rightarrow> vnet \<Rightarrow> vnet" where
  "ConnBindTun_end vcc w = ClientMasterDel vcc w"

section \<open>The devices of a configuration\<close>

definition client_devId :: "Client \<Rightarrow> int" where
  "client_devId cl = (case cl_cio cl of IoTun t \<Rightarrow> tn_devId t | _ \<Rightarrow> -1)"

text \<open>The client of a device that a configuration asks for.\<close>

definition tap_client :: "TunConf \<Rightarrow> Client \<Rightarrow> bool" where
  "tap_client c cl \<longleftrightarrow>
     (\<exists>t fp. cl_cio cl = IoTun t \<and> tn_Name t = tc_TunName c \<and> tn_devType t = DevTap \<and> tn_vid t = tc_Vid c
        \<and> cl_fdbJoined cl = Some [(tc_Vid c, fp)])
     \<and> cl_valid cl \<and> \<not> cl_isClosed cl \<and> cl_peer cl = None \<and> cl_pktchan cl = []"

lemma OpenTun_SomeD:
  assumes "OpenTun os br name kind ip mac vid False s = Inr (Some t, s')" and "length (vn_obcDevSlot (su_w s)) = DevSlotMax"
  shows "tn_Name t = name" "tn_devType t = kind" "tn_vid t = vid" "su_TunName s' = su_TunName s"
    and "su_w s' = (su_w s)\<lparr>vn_obcDevSlot := (vn_obcDevSlot (su_w s))[nat (tn_devId t) := 1]\<rparr>"
    and "0 \<le> tn_devId t" "nat (tn_devId t) < DevSlotMax" "vn_obcDevSlot (su_w s) ! nat (tn_devId t) = 0"
proof -
  obtain i slots where g: "getDevId (vn_obcDevSlot (su_w s)) = Inr (i, slots)"
    using assms(1) by (auto simp: OpenTun_def NewTun_def bind_res_eq_Inr)
  note d = getDevId_fresh [OF assms(2) g]
  have t: "tn_Name t = name \<and> tn_devType t = kind \<and> tn_vid t = vid \<and> tn_devId t = i \<and> su_TunName s' = su_TunName s
      \<and> su_w s' = (su_w s)\<lparr>vn_obcDevSlot := slots\<rparr>"
  proof -
    obtain ok st where o: "os_open_tun os name kind (su_os s) = (ok, st)" by (cases "os_open_tun os name kind (su_os s)")
    have ok: "ok" using assms(1) g o by (cases ok) (simp_all add: OpenTun_def NewTun_def)
    obtain confs where c: "tun_confs br name kind ip mac = Inr confs"
      using assms(1) g o ok by (cases "tun_confs br name kind ip mac") (simp_all add: OpenTun_def NewTun_def Let_def)
    obtain ok2 st2 where e: "os_exec os confs st = (ok2, st2)" by (cases "os_exec os confs st")
    have ok2: "ok2" using assms(1) g o ok c e by (cases ok2) (simp_all add: OpenTun_def NewTun_def Let_def)
    show ?thesis using assms(1) g o ok c e ok2
      by (auto simp: OpenTun_def NewTun_def Let_def case_prod_beta)
  qed
  then show "tn_Name t = name" "tn_devType t = kind" "tn_vid t = vid" "su_TunName s' = su_TunName s" by simp_all
  show "su_w s' = (su_w s)\<lparr>vn_obcDevSlot := (vn_obcDevSlot (su_w s))[nat (tn_devId t) := 1]\<rparr>"
    "0 \<le> tn_devId t" "nat (tn_devId t) < DevSlotMax" "vn_obcDevSlot (su_w s) ! nat (tn_devId t) = 0"
    using t d by (auto simp: DevSlotMax_def)
qed

lemma HandleTun_clients:
  assumes "HandleTun t w = Inr (vtc, w')"
  obtains cl fp where "vn_clients w' = vn_clients w @ [cl]" and "vn_obcDevSlot w' = vn_obcDevSlot w"
    and "cl_cio cl = IoTun t" and "cl_fdbJoined cl = Some [(tn_vid t, fp)]" and "cl_valid cl" and "\<not> cl_isClosed cl"
    and "cl_peer cl = None" and "cl_pktchan cl = []"
proof -
  let ?w1 = "snd (NewClient (IoTun t) (tn_Name t) w)"
  let ?w2 = "upd_client (length (vn_clients w)) (\<lambda>cl. cl\<lparr>cl_valid := True\<rparr>) ?w1"
  have j: "joinFdbById (length (vn_clients w)) (tn_vid t) ?w2 = Inr (None, w')"
    using assms by (auto simp: HandleTun_def NewClient_def Let_def bind_res_eq_Inr split: if_splits)
  obtain fw fp where w': "w' = upd_client (length (vn_clients w)) (\<lambda>cl. cl\<lparr>cl_fdbJoined := Some [(tn_vid t, fp)]\<rparr>) (?w2\<lparr>vn_fdbs := fw\<rparr>)"
    using j by (auto simp: joinFdbById_def NewClient_def Let_def bind_res_eq_Inr client_def upd_client_def split: if_splits option.splits)
  show thesis
    by (rule that [of "(client ?w2 (length (vn_clients w)))\<lparr>cl_fdbJoined := Some [(tn_vid t, fp)]\<rparr>" fp])
      (simp_all add: w' NewClient_def Let_def upd_client_def client_def)
qed

definition tap_conf :: "TunConf \<Rightarrow> bool" where
  "tap_conf c \<longleftrightarrow> tc_TunType c = DevTap"

lemma HandleTuns_one_tap:
  assumes "HandleTuns_one os c (flag, s) = Inr (flag', s')" and "tap_conf c" and "length (vn_obcDevSlot (su_w s)) = DevSlotMax"
  obtains cl where "vn_clients (su_w s') = vn_clients (su_w s) @ [cl]" and "tap_client c cl"
    and "vn_obcDevSlot (su_w s) ! nat (client_devId cl) = 0" and "0 \<le> client_devId cl"
    and "nat (client_devId cl) < DevSlotMax"
    and "vn_obcDevSlot (su_w s') = (vn_obcDevSlot (su_w s))[nat (client_devId cl) := 1]"
    and "flag' = (flag \<or> tc_Br c = [])" and "su_TunName s' = (if \<not> flag \<and> tc_Br c = [] then tc_TunName c else su_TunName s)"
proof -
  let ?s = "if \<not> flag \<and> tc_Br c = [] then s\<lparr>su_TunName := tc_TunName c\<rparr> else s"
  have w: "su_w ?s = su_w s" by simp
  obtain t s1 vtc w1 where o: "OpenTun os (tc_Br c) (tc_TunName c) (tc_TunType c) (tc_Ipstr c) (tc_Mac c) (tc_Vid c) False ?s = Inr (Some t, s1)"
    and h: "HandleTun t (su_w s1) = Inr (vtc, w1)" and e: "s' = set_zone (tn_vid t) (s1\<lparr>su_w := w1\<rparr>)"
    and f: "flag' = (flag \<or> tc_Br c = [])"
    using assms(1,2) by (auto simp: HandleTuns_one_def tap_conf_def bind_res_eq_Inr Let_def split: if_splits option.splits)
  have l: "length (vn_obcDevSlot (su_w ?s)) = DevSlotMax" using assms(3) by simp
  note O = OpenTun_SomeD [OF o l]
  obtain cl fp where cl: "vn_clients w1 = vn_clients (su_w s1) @ [cl]" "vn_obcDevSlot w1 = vn_obcDevSlot (su_w s1)"
    "cl_cio cl = IoTun t" "cl_fdbJoined cl = Some [(tn_vid t, fp)]" "cl_valid cl" "\<not> cl_isClosed cl" "cl_peer cl = None" "cl_pktchan cl = []"
    by (rule HandleTun_clients [OF h])
  have id: "client_devId cl = tn_devId t" by (simp add: client_devId_def cl(3))
  have s': "su_w s' = w1" "su_TunName s' = su_TunName ?s" by (simp_all add: e set_zone_def O(4))
  show thesis
    by (rule that [of cl]) (use cl O s' id w f assms(2) in \<open>auto simp: tap_client_def tap_conf_def\<close>)
qed

lemma HandleTuns_fold:
  assumes "fold_res (HandleTuns_one os) cs (flag, s) = Inr (flag', s')" and "length (vn_obcDevSlot (su_w s)) = DevSlotMax"
  shows "\<exists>cls. vn_clients (su_w s') = vn_clients (su_w s) @ cls \<and> list_all2 tap_client (filter tap_conf cs) cls
    \<and> distinct (map client_devId cls) \<and> (\<forall>cl \<in> set cls. 0 \<le> client_devId cl \<and> vn_obcDevSlot (su_w s) ! nat (client_devId cl) = 0)
    \<and> su_TunName s' = (if flag then su_TunName s
        else case filter (\<lambda>c. tap_conf c \<and> tc_Br c = []) cs of [] \<Rightarrow> su_TunName s | c # _ \<Rightarrow> tc_TunName c)"
  using assms
proof (induction cs arbitrary: flag s)
  case (Cons c cs)
  obtain f1 s1 where one: "HandleTuns_one os c (flag, s) = Inr (f1, s1)" and rest: "fold_res (HandleTuns_one os) cs (f1, s1) = Inr (flag', s')"
    using Cons.prems(1) by (auto simp: bind_res_eq_Inr)
  show ?case
  proof (cases "tap_conf c")
    case False
    then have e: "f1 = flag" "s1 = s" using one by (simp_all add: HandleTuns_one_def tap_conf_def)
    have f: "filter tap_conf (c # cs) = filter tap_conf cs"
      "filter (\<lambda>c. tap_conf c \<and> tc_Br c = []) (c # cs) = filter (\<lambda>c. tap_conf c \<and> tc_Br c = []) cs"
      using False by simp_all
    show ?thesis unfolding f using Cons.IH [OF rest] Cons.prems(2) unfolding e by blast
  next
    case True
    obtain cl where cl: "vn_clients (su_w s1) = vn_clients (su_w s) @ [cl]" "tap_client c cl"
      "vn_obcDevSlot (su_w s) ! nat (client_devId cl) = 0" "0 \<le> client_devId cl" "nat (client_devId cl) < DevSlotMax"
      "vn_obcDevSlot (su_w s1) = (vn_obcDevSlot (su_w s))[nat (client_devId cl) := 1]"
      "f1 = (flag \<or> tc_Br c = [])" "su_TunName s1 = (if \<not> flag \<and> tc_Br c = [] then tc_TunName c else su_TunName s)"
      by (rule HandleTuns_one_tap [OF one True Cons.prems(2)])
    obtain cls where cls: "vn_clients (su_w s') = vn_clients (su_w s1) @ cls" "list_all2 tap_client (filter tap_conf cs) cls"
      "distinct (map client_devId cls)" "\<forall>cl \<in> set cls. 0 \<le> client_devId cl \<and> vn_obcDevSlot (su_w s1) ! nat (client_devId cl) = 0"
      "su_TunName s' = (if f1 then su_TunName s1
        else case filter (\<lambda>c. tap_conf c \<and> tc_Br c = []) cs of [] \<Rightarrow> su_TunName s1 | c # _ \<Rightarrow> tc_TunName c)"
      using Cons.IH [OF rest] Cons.prems(2) cl(6) by auto
    have new: "vn_obcDevSlot (su_w s1) ! nat (client_devId cl) = 1" using cl(5,6) Cons.prems(2) by simp
    then have "client_devId cl \<notin> client_devId ` set cls" using cls(4) by force
    moreover have "vn_obcDevSlot (su_w s) ! nat (client_devId d) = 0" if "d \<in> set cls" for d
    proof -
      have z: "vn_obcDevSlot (su_w s1) ! nat (client_devId d) = 0" using cls(4) that by blast
      then have "nat (client_devId cl) \<noteq> nat (client_devId d)" using new by auto
      then show ?thesis using z unfolding cl(6) by simp
    qed
    moreover have "su_TunName s' = (if flag then su_TunName s
        else case filter (\<lambda>c. tap_conf c \<and> tc_Br c = []) (c # cs) of [] \<Rightarrow> su_TunName s | c # _ \<Rightarrow> tc_TunName c)"
      using cls(5) cl(7,8) True by (cases "tc_Br c = []"; cases flag) (simp_all split: list.split)
    ultimately show ?thesis using cl cls True by (intro exI [of _ "cl # cls"]) auto
  qed
qed simp



text \<open>A tap device without a bridge and a tun device, which the loop passes over.\<close>

definition tap_and_tun :: "TunConf list" where
  "tap_and_tun =
     [\<lparr>tc_Br = [], tc_TunType = 0, tc_TunName = ''tun1'', tc_Ipstr = [], tc_Mac = [], tc_Vid = 0\<rparr>,
      \<lparr>tc_Br = [], tc_TunType = DevTap, tc_TunName = ''tap1'', tc_Ipstr = [], tc_Mac = [], tc_Vid = 7\<rparr>]"

definition idle_setup :: "kernel vsetup" where
  "idle_setup = \<lparr>su_w = new_world [], su_os = \<lparr>kn_rules = 1, kn_routes = [], kn_file = Some [''10.0.0.0/8'']\<rparr>,
     su_ns = \<lparr>ns_cts = [], ns_ncts = [], ns_global = [], ns_timers = \<lparr>tm_pending = [], tm_running = [], tm_next = 0\<rparr>, ns_now = 0\<rparr>,
     su_TunName = ''tap0'', su_routeConf = ''rt.txt'', su_checkTunPkt = False, su_UpRateLimit = 0, su_DownRateLimit = 0,
     su_CryptType = 0\<rparr>"

lemma fresh_join: "\<exists>x g. JoinFwdPort c inc fresh_FDB = Inr (x, g) \<and> x \<noteq> 0"
proof -
  have "fdb_inv (fresh_FDB :: 'a FDB)" using fresh_FDB_ok(1) [where ?'a = 'a] by (simp add: fdb_ok_def)
  then show ?thesis
  proof (rule JoinFwdPort_cases [of _ c inc], goal_cases full joined)
    case full
    then show ?case using fresh_FDB_ok(3) [where ?'a = 'a] by (auto simp: port_ids_def MAXPORT_def)
  next
    case (joined x g)
    then show ?case by (auto simp: port_ids_iff)
  qed
qed

lemma idle_handles: "\<exists>s'. HandleTuns kernel_os tap_and_tun idle_setup = Inr s'"
proof -
  have f: "GetFdbById init_world 7 = None" by (simp add: GetFdbById_def init_world_def)
  note n = NewFdb_new [OF f, unfolded init_world_def, simplified]
  obtain x g where j: "JoinFwdPort 0 True (fresh_FDB :: nat FDB) = Inr (x, g)" "x \<noteq> 0"
    using fresh_join [of 0 True] by blast
  have d: "find (\<lambda>i. replicate 100 (0::int) ! i = 0) [0..<100] = Some 0" by (simp add: find_Some_iff) (rule exI [of _ 0], simp)
  show ?thesis
    using j
    by (simp add: HandleTuns_def HandleTuns_one_def tap_and_tun_def idle_setup_def OpenTun_def NewTun_def getDevId_def new_world_def
      DevTap_def DevSlotMax_def d HandleTun_def NewClient_def joinFdbById_def n client_def upd_client_def fdb_at_def
      tun_confs_def kernel_os_def kernel_exec_def set_zone_def IsEnable_def Let_def case_prod_beta init_world_def rule_del_def rule_add_def route_flush_def)
qed


end
