(* ===== verification/Mylog.thy ===== *)
theory Mylog
  imports Go_Prelude
begin

text \<open>
  Package \<open>mylog\<close>: the levels of the log and the rotation of its files, one for every day, of which a
  bounded number is kept. What the file system does is an argument. A result \<open>None\<close> is a goroutine
  that waits for ever on the channel; \<open>log.Fatalf\<close> ends the process. The texts are those after
  \<open>fmt.Sprintf\<close>.
\<close>

section \<open>Levels\<close>

definition LOG_DEPTH :: int where "LOG_DEPTH = 3"
definition LDEBUG :: int where "LDEBUG = 1"
definition LINFO :: int where "LINFO = 2"
definition LNOTICE :: int where "LNOTICE = 3"
definition LWARNING :: int where "LWARNING = 4"
definition LERROR :: int where "LERROR = 5"

lemmas level_defs = LDEBUG_def LINFO_def LNOTICE_def LWARNING_def LERROR_def

definition ShowSupportLevels :: string where
  "ShowSupportLevels = ''debug, info, notice, warn, error''"

definition getLogLevel :: "string \<Rightarrow> int \<times> string option" where
  "getLogLevel logLevel =
     (if logLevel = ''debug'' then (LDEBUG, None)
      else if logLevel = ''info'' then (LINFO, None)
      else if logLevel = ''notice'' then (LNOTICE, None)
      else if logLevel = ''warn'' then (LWARNING, None)
      else if logLevel = ''error'' then (LERROR, None)
      else (LINFO, Some (''unknow log leve '' @ logLevel @ '', must be '' @ ShowSupportLevels)))"

section \<open>State\<close>

text \<open>The file system: whether an operation succeeds, and its new state.\<close>

record 'o fs_ops =
  fs_MkdirAll :: "string \<Rightarrow> 'o \<Rightarrow> bool \<times> 'o"
  fs_OpenFile :: "string \<Rightarrow> 'o \<Rightarrow> bool \<times> 'o"
  fs_Remove :: "string \<Rightarrow> 'o \<Rightarrow> bool \<times> 'o"
  fs_Dup2 :: "string \<Rightarrow> 'o \<Rightarrow> bool \<times> 'o"
  fs_Stat :: "string \<Rightarrow> 'o \<Rightarrow> bool"

text \<open>
  \<open>lg_logFileChan\<close> is \<open>None\<close> while the channel is nil; \<open>lg_lf\<close> is the open file, \<open>lg_sink\<close> the one that
  takes the output; \<open>lg_timer\<close> is the date of the pending \<open>time.AfterFunc\<close>, a second after midnight.
\<close>

type_synonym date = "nat \<times> nat \<times> nat"

record 'o mylog =
  lg_LogFile :: string
  lg_logNum :: int
  lg_logFileNum :: int
  lg_loglevel :: int
  lg_MyLogInfoNum :: u64
  lg_LogInfoThreshold :: u64
  lg_logFileChan :: "string list option"
  lg_chanCap :: int
  lg_logFileFlag :: bool
  lg_Day :: nat
  lg_lf :: "string option"
  lg_sink :: "string option"
  lg_timer :: "date option"
  lg_output :: "string list"
  lg_os :: 'o

definition log_Output :: "string \<Rightarrow> 'o mylog \<Rightarrow> 'o mylog" where
  "log_Output text s = s\<lparr>lg_output := lg_output s @ [text]\<rparr>"

definition log_Printf :: "string \<Rightarrow> 'o mylog \<Rightarrow> 'o mylog" where
  "log_Printf text s = log_Output text s"

definition SetLogLevel :: "string \<Rightarrow> 'o mylog \<Rightarrow> string option \<times> 'o mylog" where
  "SetLogLevel log_level s =
     (let s = log_Printf (''---------SetLogLevel='' @ log_level @ ''-------------'' @ [CHR 0x0A]) s;
          (level, err) = getLogLevel log_level
      in if err \<noteq> None then (err, s) else (None, s\<lparr>lg_loglevel := level\<rparr>))"

definition putToLog :: "int \<Rightarrow> string \<Rightarrow> string \<Rightarrow> 'o mylog \<Rightarrow> 'o mylog" where
  "putToLog level pre text s =
     (if lg_loglevel s \<le> level then
        let pre_str = ''['' @ pre @ '' '' @ Itoa (unat (lg_MyLogInfoNum s)) @ ''] '';
            s = log_Output (pre_str @ text) s
        in s\<lparr>lg_MyLogInfoNum := lg_MyLogInfoNum s + 1\<rparr>
      else s)"

definition log_Debug :: "string \<Rightarrow> 'o mylog \<Rightarrow> 'o mylog" where "log_Debug = putToLog LDEBUG ''Debug''"
definition log_Info :: "string \<Rightarrow> 'o mylog \<Rightarrow> 'o mylog" where "log_Info = putToLog LINFO ''Info''"
definition log_Notice :: "string \<Rightarrow> 'o mylog \<Rightarrow> 'o mylog" where "log_Notice = putToLog LNOTICE ''Notice''"
definition log_Warning :: "string \<Rightarrow> 'o mylog \<Rightarrow> 'o mylog" where "log_Warning = putToLog LWARNING ''Warning''"
definition log_Error :: "string \<Rightarrow> 'o mylog \<Rightarrow> 'o mylog" where "log_Error = putToLog LERROR ''Error''"

definition log_Close :: "'o mylog \<Rightarrow> 'o mylog" where
  "log_Close s = (if lg_lf s \<noteq> None then s\<lparr>lg_lf := None\<rparr> else s)"

section \<open>Paths and dates of Go's library\<close>

text \<open>\<open>path.Base\<close>, \<open>path.Ext\<close>, \<open>path.Dir\<close> with \<open>path.Clean\<close>, and \<open>strings.TrimSuffix\<close>.\<close>

fun split_slash :: "string \<Rightarrow> string list" where
  "split_slash [] = [[]]"
| "split_slash (c # cs) =
     (if c = CHR ''/'' then [] # split_slash cs
      else case split_slash cs of [] \<Rightarrow> [[c]] | f # fs \<Rightarrow> (c # f) # fs)"

fun join_slash :: "string list \<Rightarrow> string" where
  "join_slash [] = []"
| "join_slash [e] = e"
| "join_slash (e # es) = e @ CHR ''/'' # join_slash es"

definition clean_step :: "bool \<Rightarrow> string \<Rightarrow> string list \<Rightarrow> string list" where
  "clean_step rooted e out =
     (if e \<in> {'''', ''.''} then out
      else if e = ''..'' then
        (if out \<noteq> [] \<and> last out \<noteq> ''..'' then butlast out else if rooted then out else out @ [e])
      else out @ [e])"

definition path_Clean :: "string \<Rightarrow> string" where
  "path_Clean p =
     (let rooted = (p \<noteq> [] \<and> hd p = CHR ''/'');
          q = (if rooted then ''/'' else '''') @ join_slash (fold (clean_step rooted) (split_slash p) [])
      in if q = [] then ''.'' else q)"

definition path_Dir :: "string \<Rightarrow> string" where
  "path_Dir p = path_Clean (rev (dropWhile (\<lambda>c. c \<noteq> CHR ''/'') (rev p)))"

definition path_Base :: "string \<Rightarrow> string" where
  "path_Base p =
     (if p = [] then ''.''
      else
        let r = dropWhile (\<lambda>c. c = CHR ''/'') (rev p); b = rev (takeWhile (\<lambda>c. c \<noteq> CHR ''/'') r)
        in if b = [] then ''/'' else b)"

definition path_Ext :: "string \<Rightarrow> string" where
  "path_Ext p =
     (let r = takeWhile (\<lambda>c. c \<noteq> CHR ''/'') (rev p); e = takeWhile (\<lambda>c. c \<noteq> CHR ''.'') r
      in if length e < length r then CHR ''.'' # rev e else [])"

definition TrimSuffix :: "string \<Rightarrow> string \<Rightarrow> string" where
  "TrimSuffix s suf =
     (if length suf \<le> length s \<and> drop (length s - length suf) s = suf then take (length s - length suf) s else s)"

definition leap :: "nat \<Rightarrow> bool" where
  "leap y \<longleftrightarrow> y mod 4 = 0 \<and> (y mod 100 \<noteq> 0 \<or> y mod 400 = 0)"

definition days_in :: "nat \<Rightarrow> nat \<Rightarrow> nat" where
  "days_in y m = (if m = 2 then (if leap y then 29 else 28) else if m \<in> {4, 6, 9, 11} then 30 else 31)"

text \<open>\<open>time.Date\<close> with a day after the end of the month is the first of the next one.\<close>

fun getNextDay :: "date \<Rightarrow> date" where
  "getNextDay (y, m, d) =
     (if d + 1 \<le> days_in y m then (y, m, d + 1) else if m + 1 \<le> 12 then (y, m + 1, 1) else (y + 1, 1, 1))"

section \<open>Files\<close>

fun date_string :: "date \<Rightarrow> string" where
  "date_string (year, month, day) = ''_'' @ Itoa year @ ''-'' @ Itoa month @ ''-'' @ Itoa day"

definition log_name :: "string \<Rightarrow> date \<Rightarrow> string" where
  "log_name logfile t =
     (let filename = path_Base logfile;
          fileSuffix = path_Ext filename;
          filename_olny = TrimSuffix filename fileSuffix
      in path_Dir logfile @ ''/'' @ filename_olny @ date_string t @ fileSuffix)"

definition fileExist :: "'o fs_ops \<Rightarrow> string \<Rightarrow> 'o \<Rightarrow> bool" where
  "fileExist fs filename os = fs_Stat fs filename os"

definition redirectStderr :: "'o fs_ops \<Rightarrow> string \<Rightarrow> 'o mylog \<Rightarrow> 'o mylog res" where
  "redirectStderr fs f s =
     (let (ok, os) = fs_Dup2 fs f (lg_os s)
      in if ok then Inr (s\<lparr>lg_os := os\<rparr>) else Inl (PanicMsg ''Failed to redirect stderr to file''))"

text \<open>The oldest file leaves the channel and the disk; a failure to remove it is logged.\<close>

definition drop_oldest :: "'o fs_ops \<Rightarrow> 'o mylog \<Rightarrow> 'o mylog option" where
  "drop_oldest fs s =
     (case lg_logFileChan s of
        Some (oldestFile # rest) \<Rightarrow>
          Some (s\<lparr>lg_logFileChan := Some rest, lg_os := snd (fs_Remove fs oldestFile (lg_os s))\<rparr>)
      | _ \<Rightarrow> None)"

definition chan_len :: "'o mylog \<Rightarrow> int" where
  "chan_len s = (case lg_logFileChan s of None \<Rightarrow> 0 | Some q \<Rightarrow> int (length q))"

definition chan_send :: "string \<Rightarrow> 'o mylog \<Rightarrow> 'o mylog option" where
  "chan_send x s =
     (case lg_logFileChan s of
        None \<Rightarrow> None
      | Some q \<Rightarrow> if int (length q) < lg_chanCap s then Some (s\<lparr>lg_logFileChan := Some (q @ [x])\<rparr>) else None)"

definition createLogFile :: "'o fs_ops \<Rightarrow> date \<Rightarrow> 'o mylog \<Rightarrow> 'o mylog option res" where
  "createLogFile fs now s =
     (let logfile = lg_LogFile s in
      if logfile = '''' then Inr (Some s)
      else
        let (ok, os) = fs_MkdirAll fs (path_Dir logfile) (lg_os s); s = s\<lparr>lg_os := os\<rparr> in
        if \<not> ok then Inl (PanicMsg ''os.MkdirAll error: '')
        else
          let logfile = log_name logfile now;
              s = s\<lparr>lg_Day := snd (snd now)\<rparr>;
              (ok, os) = fs_OpenFile fs logfile (lg_os s);
              s = s\<lparr>lg_os := os\<rparr>
          in if \<not> ok then Inl (PanicMsg ''open log file error: '')
             else
               let s = s\<lparr>lg_lf := Some logfile\<rparr> in
               case (if chan_len s \<ge> lg_logFileNum s then drop_oldest fs s else Some s) of
                 None \<Rightarrow> Inr None
               | Some s \<Rightarrow>
                   if chan_len s \<ge> lg_logFileNum s then Inl (PanicMsg '' error about mylog'')
                   else
                     (case chan_send logfile s of
                        None \<Rightarrow> Inr None
                      | Some s \<Rightarrow>
                          bind_res (redirectStderr fs logfile s) (\<lambda>s.
                          Inr (Some (s\<lparr>lg_sink := Some logfile, lg_logFileFlag := True, lg_timer := Some (getNextDay now)\<rparr>)))))"

definition InitLog :: "'o fs_ops \<Rightarrow> date \<Rightarrow> string \<Rightarrow> string \<Rightarrow> 'o mylog \<Rightarrow> 'o mylog option res" where
  "InitLog fs now log_level logFile s =
     (let s = (if logFile \<noteq> '''' then s\<lparr>lg_LogFile := logFile\<rparr> else s);
          s = s\<lparr>lg_loglevel := fst (getLogLevel log_level), lg_LogInfoThreshold := word_of_int (lg_logNum s)\<rparr>
      in if lg_logFileNum s < 0 then Inl (PanicMsg ''makechan: size out of range'')
         else createLogFile fs now (s\<lparr>lg_logFileChan := Some [], lg_chanCap := lg_logFileNum s, lg_logFileFlag := False\<rparr>))"

text \<open>Whether a goroutine is started for \<open>createLogFile\<close>.\<close>

definition NewLogFile :: "'o mylog \<Rightarrow> bool \<times> 'o mylog" where
  "NewLogFile s =
     (let s = s\<lparr>lg_LogInfoThreshold := lg_LogInfoThreshold s + word_of_int (lg_logNum s)\<rparr>
      in if \<not> lg_logFileFlag s then (False, s) else (True, s\<lparr>lg_logFileFlag := False\<rparr>))"

section \<open>What is logged\<close>

text \<open>
  A level is one of the five that are named, and then a text is written exactly when its level is not
  below it; a level that is not named leaves the level as it is and is reported with the list of names.
\<close>

theorem SetLogLevel_filters:
  shows "getLogLevel l = (v, None) \<Longrightarrow> 1 \<le> v \<and> v \<le> 5
      \<and> (let s' = snd (SetLogLevel l s) in lg_output (putToLog k pre text s') \<noteq> lg_output s' \<longleftrightarrow> v \<le> k)"
    and "getLogLevel l = (v, Some e) \<Longrightarrow> fst (SetLogLevel l s) = Some e \<and> lg_loglevel (snd (SetLogLevel l s)) = lg_loglevel s"
proof -
  show "getLogLevel l = (v, None) \<Longrightarrow> 1 \<le> v \<and> v \<le> 5
      \<and> (let s' = snd (SetLogLevel l s) in lg_output (putToLog k pre text s') \<noteq> lg_output s' \<longleftrightarrow> v \<le> k)"
    by (auto simp: getLogLevel_def level_defs SetLogLevel_def putToLog_def log_Printf_def log_Output_def Let_def split: if_splits)
  show "getLogLevel l = (v, Some e) \<Longrightarrow> fst (SetLogLevel l s) = Some e \<and> lg_loglevel (snd (SetLogLevel l s)) = lg_loglevel s"
    by (simp add: SetLogLevel_def log_Printf_def log_Output_def)
qed

section \<open>Names of files\<close>

lemma of_char_digit: "k < 10 \<Longrightarrow> of_char (char_of (48 + k)) = 48 + k" for k :: nat
  by simp

lemma Itoa_no_dash: "CHR ''-'' \<notin> set (Itoa n)"
proof (induction n rule: Itoa.induct)
  case (1 n)
  have d: "char_of (48 + k) \<noteq> CHR ''-''" if "k < 10" for k :: nat
  proof
    assume "char_of (48 + k) = CHR ''-''"
    then have "48 + k = of_char (CHR ''-'')" using of_char_digit [OF that] by simp
    then show False by simp
  qed
  show ?case using 1 d [of n] d [of "n mod 10"] by (subst Itoa.simps) auto
qed

definition Atoi :: "string \<Rightarrow> nat" where
  "Atoi = foldl (\<lambda>a c. 10 * a + (of_char c - 48)) 0"

lemma Atoi_Itoa: "Atoi (Itoa n) = n"
proof (induction n rule: Itoa.induct)
  case (1 n)
  then show ?case by (subst Itoa.simps) (simp add: Atoi_def)
qed

lemma Itoa_inject [simp]: "Itoa m = Itoa n \<longleftrightarrow> m = n"
  by (metis Atoi_Itoa)

lemma dash_split:
  assumes "c \<notin> set a" and "c \<notin> set b" and "a @ c # x = b @ c # y"
  shows "a = b \<and> x = y"
  using assms by (induction a arbitrary: b) (case_tac b; auto)+

lemma date_string_inject:
  assumes "date_string t = date_string u"
  shows "t = u"
proof -
  obtain y m d y' m' d' where t: "t = (y, m, d)" "u = (y', m', d')" by (metis prod.exhaust)
  have "Itoa y @ CHR ''-'' # Itoa m @ CHR ''-'' # Itoa d = Itoa y' @ CHR ''-'' # Itoa m' @ CHR ''-'' # Itoa d'"
    using assms t by simp
  note 1 = dash_split [OF Itoa_no_dash Itoa_no_dash this]
  then have "Itoa m @ CHR ''-'' # Itoa d = Itoa m' @ CHR ''-'' # Itoa d'" by blast
  note 2 = dash_split [OF Itoa_no_dash Itoa_no_dash this]
  from 1 2 t show ?thesis by simp
qed

lemma log_name_inject: "log_name f t = log_name f u \<Longrightarrow> t = u"
  by (auto simp: log_name_def Let_def intro: date_string_inject)

fun date_ok :: "date \<Rightarrow> bool" where
  "date_ok (y, m, d) \<longleftrightarrow> 1 \<le> m \<and> m \<le> 12 \<and> 1 \<le> d \<and> d \<le> days_in y m"

fun date_ord :: "date \<Rightarrow> nat" where
  "date_ord (y, m, d) = 372 * y + 31 * m + d"

lemma getNextDay_later: "date_ok t \<Longrightarrow> date_ok (getNextDay t) \<and> date_ord t < date_ord (getNextDay t)"
  by (cases t rule: date_ok.cases) (auto simp: days_in_def split: if_splits)

lemma days_ok: "date_ok t \<Longrightarrow> date_ok ((getNextDay ^^ n) t)"
  by (induction n) (use getNextDay_later in auto)

lemma days_later:
  assumes "date_ok t" and "i < j"
  shows "date_ord ((getNextDay ^^ i) t) < date_ord ((getNextDay ^^ j) t)"
  using assms(2)
proof (induction j)
  case (Suc j)
  then show ?case using getNextDay_later [OF days_ok [OF assms(1), of j]] by (cases "i = j") auto
qed simp

lemma day_names_distinct:
  assumes "date_ok t"
  shows "log_name f ((getNextDay ^^ i) t) = log_name f ((getNextDay ^^ j) t) \<longleftrightarrow> i = j"
  using days_later [OF assms, of i j] days_later [OF assms, of j i] log_name_inject [of f "(getNextDay ^^ i) t" "(getNextDay ^^ j) t"]
  by (metis less_irrefl linorder_neqE_nat)

section \<open>Rotation\<close>

text \<open>A disk on which every operation succeeds that can.\<close>

definition disk :: "string list fs_ops" where
  "disk = \<lparr>fs_MkdirAll = (\<lambda>f fs. (True, fs)), fs_OpenFile = (\<lambda>f fs. (True, if f \<in> set fs then fs else fs @ [f])),
     fs_Remove = (\<lambda>f fs. (f \<in> set fs, removeAll f fs)), fs_Dup2 = (\<lambda>f fs. (True, fs)), fs_Stat = (\<lambda>f fs. f \<in> set fs)\<rparr>"

text \<open>\<open>n\<close> days, on each of which the timer fires.\<close>

primrec log_days :: "'o fs_ops \<Rightarrow> nat \<Rightarrow> 'o mylog \<Rightarrow> 'o mylog option res" where
  "log_days fs 0 s = Inr (Some s)"
| "log_days fs (Suc n) s =
     bind_res (log_days fs n s) (\<lambda>r. case r of
       None \<Rightarrow> Inr None
     | Some s \<Rightarrow> (case lg_timer s of None \<Rightarrow> Inr (Some s) | Some t \<Rightarrow> createLogFile fs t s))"

text \<open>The names of the days \<open>i\<close> to \<open>j - 1\<close> after \<open>t\<close>.\<close>

definition day_names :: "string \<Rightarrow> date \<Rightarrow> nat \<Rightarrow> nat \<Rightarrow> string list" where
  "day_names f t i j = map (\<lambda>k. log_name f ((getNextDay ^^ k) t)) [i..<j]"

definition rotated :: "string \<Rightarrow> nat \<Rightarrow> date \<Rightarrow> nat \<Rightarrow> string list mylog \<Rightarrow> bool" where
  "rotated f keep t n s \<longleftrightarrow>
     (let names = day_names f t (n - keep) n in
      lg_LogFile s = f \<and> lg_logFileNum s = int keep \<and> lg_chanCap s = int keep
      \<and> lg_os s = names \<and> lg_logFileChan s = Some names)"

lemma createLogFile_rotates:
  assumes "rotated f keep t n s" and "f \<noteq> []" and "0 < keep" and "date_ok t"
  shows "\<exists>s'. createLogFile disk ((getNextDay ^^ n) t) s = Inr (Some s') \<and> rotated f keep t (Suc n) s'
    \<and> lg_timer s' = Some ((getNextDay ^^ Suc n) t) \<and> lg_sink s' = Some (log_name f ((getNextDay ^^ n) t))"
proof -
  let ?x = "log_name f ((getNextDay ^^ n) t)" and ?names = "day_names f t (n - keep) n"
  have s: "lg_LogFile s = f" "lg_logFileNum s = int keep" "lg_chanCap s = int keep" "lg_os s = ?names"
    "lg_logFileChan s = Some ?names"
    using assms(1) by (simp_all add: rotated_def Let_def)
  have len: "length ?names = min n keep" by (simp add: day_names_def)
  have new: "?x \<notin> set ?names" using day_names_distinct [OF assms(4)] by (auto simp: day_names_def)
  show ?thesis
  proof (cases "n < keep")
    case True
    have "day_names f t (Suc n - keep) (Suc n) = ?names @ [?x]" using True by (simp add: day_names_def)
    then show ?thesis
      using True s len new assms(2)
      by (simp add: createLogFile_def disk_def Let_def chan_len_def chan_send_def redirectStderr_def rotated_def)
  next
    case False
    let ?y = "log_name f ((getNextDay ^^ (n - keep)) t)" and ?r = "day_names f t (Suc (n - keep)) n"
    have names: "?names = ?y # ?r"
      using False assms(3) by (simp add: day_names_def upt_conv_Cons)
    have r: "day_names f t (Suc n - keep) (Suc n) = ?r @ [?x]"
      using False assms(3) by (simp add: day_names_def Suc_diff_le)
    have "?y \<notin> set ?r" "?x \<noteq> ?y"
      using day_names_distinct [OF assms(4)] False assms(3) by (auto simp: day_names_def)
    then have rm: "removeAll ?y (?y # ?r @ [?x]) = ?r @ [?x]" by (simp add: removeAll_id)
    have lr: "length ?r = keep - 1" using False assms(3) by (simp add: day_names_def)
    show ?thesis
      using False s len new assms(2,3) names r rm lr
      by (simp add: createLogFile_def disk_def Let_def chan_len_def chan_send_def redirectStderr_def rotated_def drop_oldest_def)
  qed
qed

text \<open>
  C40: rotation: from an empty disk, after \<open>n\<close> more days the disk and the channel hold exactly the files of
  the last \<open>logFileNum\<close> days, the oldest first, and the output goes to today's.
\<close>

theorem log_rotation:
  assumes "date_ok t" and "f \<noteq> []" and "0 < keep" and "lg_logFileNum s = int keep" and "lg_os s = []"
  shows "\<exists>s0 s'. InitLog disk t level f s = Inr (Some s0) \<and> log_days disk n s0 = Inr (Some s')
    \<and> lg_os s' = day_names f t (Suc n - keep) (Suc n) \<and> lg_logFileChan s' = Some (lg_os s')
    \<and> lg_sink s' = Some (log_name f ((getNextDay ^^ n) t))"
proof -
  let ?s = "s\<lparr>lg_LogFile := f, lg_loglevel := fst (getLogLevel level), lg_LogInfoThreshold := word_of_int (lg_logNum s),
    lg_logFileChan := Some [], lg_chanCap := lg_logFileNum s, lg_logFileFlag := False\<rparr>"
  have "rotated f keep t 0 ?s" using assms by (simp add: rotated_def day_names_def)
  from createLogFile_rotates [OF this assms(2,3,1)] obtain s0 where s0: "InitLog disk t level f s = Inr (Some s0)"
    "rotated f keep t 1 s0" "lg_timer s0 = Some ((getNextDay ^^ 1) t)" "lg_sink s0 = Some (log_name f t)"
    using assms(2,4) by (auto simp: InitLog_def Let_def)
  have "\<exists>s'. log_days disk n s0 = Inr (Some s') \<and> rotated f keep t (Suc n) s' \<and> lg_timer s' = Some ((getNextDay ^^ Suc n) t)
      \<and> lg_sink s' = Some (log_name f ((getNextDay ^^ n) t))"
  proof (induction n)
    case (Suc n)
    then obtain s1 where s1: "log_days disk n s0 = Inr (Some s1)" "rotated f keep t (Suc n) s1" "lg_timer s1 = Some ((getNextDay ^^ Suc n) t)"
      by blast
    then show ?case using createLogFile_rotates [OF s1(2) assms(2,3,1)] by simp
  qed (use s0 in simp)
  then show ?thesis using s0(1) by (auto simp: rotated_def Let_def)
qed

definition idle_log :: "string list mylog" where
  "idle_log = \<lparr>lg_LogFile = [], lg_logNum = 10000, lg_logFileNum = 3, lg_loglevel = 0, lg_MyLogInfoNum = 0, lg_LogInfoThreshold = 0,
     lg_logFileChan = None, lg_chanCap = 0, lg_logFileFlag = False, lg_Day = 0, lg_lf = None, lg_sink = None, lg_timer = None,
     lg_output = [], lg_os = []\<rparr>"

theorem log_rotation_witness:
  "\<exists>s0 s'. InitLog disk (2018, 12, 29) ''info'' ''log/govnet.log'' idle_log = Inr (Some s0) \<and> log_days disk 5 s0 = Inr (Some s')
    \<and> length (lg_os s') = 3 \<and> lg_sink s' = Some (log_name ''log/govnet.log'' (2019, 1, 3))"
proof -
  have d: "(getNextDay ^^ 5) (2018, 12, 29) = (2019, 1, 3)" by (simp add: numeral_eq_Suc days_in_def)
  have "date_ok (2018, 12, 29)" "''log/govnet.log'' \<noteq> []" "lg_logFileNum idle_log = int 3" "lg_os idle_log = []" "0 < (3 :: nat)"
    by (simp_all add: days_in_def idle_log_def)
  from log_rotation [OF this(1,2,5,3,4), of "''info''" 5] d show ?thesis by (auto simp: day_names_def)
qed

text \<open>With no file to keep, the start of the process waits for ever on the empty channel.\<close>

theorem no_files_waits:
  assumes "f \<noteq> []" and "lg_logFileNum s = 0"
  shows "InitLog disk t level f s = Inr None"
  using assms by (simp add: InitLog_def createLogFile_def disk_def Let_def chan_len_def drop_oldest_def)

end
