(* ===== verification/Packet_IPHeader.thy ===== *)
theory Packet_IPHeader
  imports Go_Prelude
begin

text \<open>
  Package \<open>packet\<close>, file \<open>ipv4.go\<close>: the IPv4 header as a struct, its wire form
  (\<open>Marshal\<close>) and the parser (\<open>Parse\<close>, \<open>ParseIPHeader\<close>). The struct's Go
  \<open>int\<close> fields are \<open>int\<close>: the code only compares them and truncates them to 8 or 16
  bits. \<open>net.IP\<close> is a byte list, the empty list standing for \<open>nil\<close>. The
  \<open>runtime.GOOS\<close> switch has only its default branch.
\<close>

datatype ip_error = EINVAL | errHeaderTooShort | errMissingAddress | errBufferTooShort

definition HeaderLen :: int where "HeaderLen = 20"
definition IP_Version :: int where "IP_Version = 4"

record IPHeader =
  ip_Version :: int
  ip_Len :: int
  ip_TOS :: int
  ip_TotalLen :: int
  ip_ID :: int
  ip_Flags :: int
  ip_FragOff :: int
  ip_TTL :: int
  ip_Protocol :: int
  ip_Checksum :: int
  ip_Src :: "byte list"
  ip_Dst :: "byte list"
  ip_Options :: "byte list"

text \<open>\<open>net.IPv4\<close> and \<open>net.IP.To4\<close> of the standard library.\<close>

definition v4InV6Prefix :: "byte list" where
  "v4InV6Prefix = replicate 10 0 @ [0xff, 0xff]"

definition net_IPv4 :: "byte \<Rightarrow> byte \<Rightarrow> byte \<Rightarrow> byte \<Rightarrow> byte list" where
  "net_IPv4 a b c d = v4InV6Prefix @ [a, b, c, d]"

definition To4 :: "byte list \<Rightarrow> byte list option" where
  "To4 ip =
     (if length ip = 4 then Some ip
      else if length ip = 16 \<and> take 12 ip = v4InV6Prefix then Some (drop 12 ip)
      else None)"

lemma To4_length: "To4 ip = Some v \<Longrightarrow> length v = 4"
  by (auto simp: To4_def split: if_splits)

lemma To4_net_IPv4 [simp]: "To4 (net_IPv4 a b c d) = Some [a, b, c, d]"
  by (simp add: To4_def net_IPv4_def v4InV6Prefix_def)

definition byte_of :: "int \<Rightarrow> byte" where "byte_of i = word_of_int i"
definition uint16_of :: "int \<Rightarrow> u16" where "uint16_of i = word_of_int i"

text \<open>
  \<open>Marshal\<close> takes the header's pointer, \<open>None\<close> for \<open>nil\<close>. The buffer is filled
  field by field, as the code does.
\<close>

definition Marshal :: "IPHeader option \<Rightarrow> ip_error + byte list" where
  "Marshal hp =
     (case hp of None \<Rightarrow> Inl EINVAL
      | Some h \<Rightarrow>
        if ip_Len h < HeaderLen then Inl errHeaderTooShort
        else
          let hdrlen = HeaderLen + int (length (ip_Options h));
              b = replicate (nat hdrlen) 0;
              b = b[0 := byte_of (push_bit 4 IP_Version OR (drop_bit 2 hdrlen AND 0x0f))];
              b = b[1 := byte_of (ip_TOS h)];
              flagsAndFragOff = (ip_FragOff h AND 0x1fff) OR push_bit 13 (ip_Flags h);
              b = overwrite b 2 (bytes16 (uint16_of (ip_TotalLen h)));
              b = overwrite b 6 (bytes16 (uint16_of flagsAndFragOff));
              b = overwrite b 4 (bytes16 (uint16_of (ip_ID h)));
              b = b[8 := byte_of (ip_TTL h)];
              b = b[9 := byte_of (ip_Protocol h)];
              b = overwrite b 10 (bytes16 (uint16_of (ip_Checksum h)));
              b = (case To4 (ip_Src h) of Some ip \<Rightarrow> overwrite b 12 ip | None \<Rightarrow> b)
          in case To4 (ip_Dst h) of
               None \<Rightarrow> Inl errMissingAddress
             | Some ip \<Rightarrow>
                 let b = overwrite b 16 ip
                 in Inr (if length (ip_Options h) > 0 then overwrite b 20 (ip_Options h) else b))"

text \<open>
  \<open>Parse\<close> writes into a header that may hold an earlier packet: the options are replaced only
  when the packet has some.
\<close>

definition Parse :: "IPHeader \<Rightarrow> byte list \<Rightarrow> ip_error + IPHeader" where
  "Parse h b =
     (if int (length b) < HeaderLen then Inl errHeaderTooShort
      else
        let hdrlen = push_bit 2 (uint (b ! 0 AND 0x0f))
        in if hdrlen > int (length b) then Inl errBufferTooShort
        else
          let h = h\<lparr>ip_Version := uint (drop_bit 4 (b ! 0)), ip_Len := hdrlen,
                ip_TOS := uint (b ! 1),
                ip_ID := uint (be16 (b ! 4) (b ! 5)),
                ip_TTL := uint (b ! 8),
                ip_Protocol := uint (b ! 9),
                ip_Checksum := uint (be16 (b ! 10) (b ! 11)),
                ip_Src := net_IPv4 (b ! 12) (b ! 13) (b ! 14) (b ! 15),
                ip_Dst := net_IPv4 (b ! 16) (b ! 17) (b ! 18) (b ! 19),
                ip_TotalLen := uint (be16 (b ! 2) (b ! 3)),
                ip_FragOff := uint (be16 (b ! 6) (b ! 7))\<rparr>;
              h = h\<lparr>ip_Flags := drop_bit 13 (ip_FragOff h AND 0xe000)\<rparr>;
              h = h\<lparr>ip_FragOff := ip_FragOff h AND 0x1fff\<rparr>;
              optlen = hdrlen - HeaderLen
          in Inr (if optlen > 0 \<and> int (length b) \<ge> hdrlen
                  then h\<lparr>ip_Options := take (nat optlen) (drop 20 b)\<rparr> else h))"

definition new_IPHeader :: IPHeader where
  "new_IPHeader = \<lparr>ip_Version = 0, ip_Len = 0, ip_TOS = 0, ip_TotalLen = 0, ip_ID = 0,
     ip_Flags = 0, ip_FragOff = 0, ip_TTL = 0, ip_Protocol = 0, ip_Checksum = 0,
     ip_Src = [], ip_Dst = [], ip_Options = []\<rparr>"

definition ParseIPHeader :: "byte list \<Rightarrow> ip_error + IPHeader" where
  "ParseIPHeader b = Parse new_IPHeader b"

section \<open>Closed forms\<close>

text \<open>The bytes of a marshalled header, as one list.\<close>

definition header_bytes :: "IPHeader \<Rightarrow> byte list \<Rightarrow> byte list \<Rightarrow> byte list" where
  "header_bytes h src dst =
     [byte_of (push_bit 4 IP_Version OR
        (drop_bit 2 (HeaderLen + int (length (ip_Options h))) AND 0x0f)), byte_of (ip_TOS h)]
     @ bytes16 (uint16_of (ip_TotalLen h)) @ bytes16 (uint16_of (ip_ID h))
     @ bytes16 (uint16_of ((ip_FragOff h AND 0x1fff) OR push_bit 13 (ip_Flags h)))
     @ [byte_of (ip_TTL h), byte_of (ip_Protocol h)] @ bytes16 (uint16_of (ip_Checksum h))
     @ src @ dst @ ip_Options h"

lemma replicate_header:
  "replicate (nat (20 + int n)) (0 :: byte) = replicate 20 0 @ replicate n 0"
  by (simp add: nat_add_distrib flip: replicate_add)

lemma length_4_cases:
  assumes "length (xs :: 'a list) = 4"
  obtains a b c d where "xs = [a, b, c, d]"
  using assms by (auto simp: numeral_eq_Suc length_Suc_conv)

lemma Marshal_bytes:
  assumes "20 \<le> ip_Len h" and "To4 (ip_Dst h) = Some dst"
  shows "Marshal (Some h) =
    Inr (header_bytes h (case To4 (ip_Src h) of Some ip \<Rightarrow> ip | None \<Rightarrow> [0, 0, 0, 0]) dst)"
proof -
  have l20: "replicate 20 (0 :: byte) =
      [0, 0, 0, 0, 0, 0, 0, 0, 0, 0, 0, 0, 0, 0, 0, 0, 0, 0, 0, 0]"
    by (simp add: numeral_eq_Suc)
  obtain d0 d1 d2 d3 where d: "dst = [d0, d1, d2, d3]"
    using To4_length [OF assms(2)] by (rule length_4_cases)
  show ?thesis
  proof (cases "To4 (ip_Src h)")
    case None
    with assms d show ?thesis
      by (simp add: Marshal_def HeaderLen_def Let_def replicate_header l20 overwrite_def
          bytes16_def header_bytes_def numeral_eq_Suc)
  next
    case (Some src)
    obtain s0 s1 s2 s3 where "src = [s0, s1, s2, s3]"
      using To4_length [OF Some] by (rule length_4_cases)
    with Some assms d show ?thesis
      by (simp add: Marshal_def HeaderLen_def Let_def replicate_header l20 overwrite_def
          bytes16_def header_bytes_def numeral_eq_Suc)
  qed
qed


section \<open>Field lemmas\<close>

lemma uint_byte_of [simp]: "0 \<le> i \<Longrightarrow> i < 256 \<Longrightarrow> uint (byte_of i) = i"
  by (simp add: byte_of_def unsigned_of_int take_bit_int_eq_self)

lemma uint_uint16_of [simp]: "0 \<le> i \<Longrightarrow> i < 65536 \<Longrightarrow> uint (uint16_of i) = i"
  by (simp add: uint16_of_def unsigned_of_int take_bit_int_eq_self)

lemma byte_of_uint [simp]: "byte_of (uint w) = w"
  by (simp add: byte_of_def)

lemma uint16_of_uint [simp]: "uint16_of (uint w) = w"
  by (simp add: uint16_of_def)

lemma mask_13: "(0x1fff :: int) = mask 13"
  and mask_e000: "(0xe000 :: int) = push_bit 13 (mask 3)"
  by (simp_all add: mask_eq_exp_minus_1 push_bit_eq_mult)

lemma flags_pack:
  assumes "0 \<le> off" "off < 8192" "0 \<le> fl" "fl < (8 :: int)"
  defines "f \<equiv> (off AND 0x1fff) OR push_bit 13 fl"
  shows "f AND 0x1fff = off" and "drop_bit 13 (f AND 0xe000) = fl" and "0 \<le> f" and "f < 65536"
proof -
  have off: "off = take_bit 13 off" and fl: "fl = take_bit 3 fl"
    using assms by (simp_all add: take_bit_int_eq_self)
  have f: "f = take_bit 13 off OR push_bit 13 (take_bit 3 fl)"
    using off fl by (simp add: f_def mask_13 take_bit_eq_mask)
  show "f AND 0x1fff = off"
    by (subst off, unfold f mask_13, rule bit_eqI) (auto simp: bit_simps)
  show "drop_bit 13 (f AND 0xe000) = fl"
    by (subst fl, unfold f mask_e000, rule bit_eqI) (auto simp: bit_simps)
  have "f = take_bit 16 f"
    by (unfold f, rule bit_eqI) (auto simp: bit_simps)
  then show "0 \<le> f" and "f < 65536"
    using take_bit_int_less_exp [of 16 f] take_bit_nonnegative [of 16 f] by simp_all
qed

lemma flags_unpack:
  fixes w :: u16
  shows "(uint w AND 0x1fff AND 0x1fff) OR push_bit 13 (drop_bit 13 (uint w AND 0xe000)) = uint w"
proof -
  have w: "uint w = take_bit 16 (uint w)"
    using unsigned_less [of w, where ?'a = int] by (simp add: take_bit_int_eq_self)
  show ?thesis
    by (subst (3) w, unfold mask_13 mask_e000, rule bit_eqI) (auto simp: bit_simps)
qed

lemma version_ihl:
  assumes "n \<le> 40" and "n mod 4 = 0"
  defines "b0 \<equiv> byte_of (push_bit 4 4 OR (drop_bit 2 (20 + int n) AND 0x0f))"
  shows "push_bit 2 (uint (b0 AND 0x0f)) = 20 + int n" and "uint (drop_bit 4 b0) = 4"
proof -
  from assms(2) obtain k where k: "n = 4 * k" by (metis mod_0_imp_dvd dvdE)
  with assms(1) have "k \<le> 10" by simp
  then have "k = 0 \<or> k = 1 \<or> k = 2 \<or> k = 3 \<or> k = 4 \<or> k = 5 \<or> k = 6 \<or> k = 7 \<or> k = 8
    \<or> k = 9 \<or> k = 10"
    by arith
  then have "push_bit 2 (uint (b0 AND 0x0f)) = 20 + int n \<and> uint (drop_bit 4 b0) = 4"
    unfolding b0_def k byte_of_def by (elim disjE) simp_all
  then show "push_bit 2 (uint (b0 AND 0x0f)) = 20 + int n" and "uint (drop_bit 4 b0) = 4"
    by simp_all
qed

section \<open>Round trips\<close>

definition is_v4 :: "byte list \<Rightarrow> bool" where
  "is_v4 ip \<longleftrightarrow> length ip = 16 \<and> take 12 ip = v4InV6Prefix"

definition wf_header :: "IPHeader \<Rightarrow> bool" where
  "wf_header h \<longleftrightarrow>
     ip_Version h = 4 \<and> ip_Len h = 20 + int (length (ip_Options h))
     \<and> length (ip_Options h) \<le> 40 \<and> length (ip_Options h) mod 4 = 0
     \<and> 0 \<le> ip_TOS h \<and> ip_TOS h < 256
     \<and> 0 \<le> ip_TotalLen h \<and> ip_TotalLen h < 65536
     \<and> 0 \<le> ip_ID h \<and> ip_ID h < 65536
     \<and> 0 \<le> ip_Flags h \<and> ip_Flags h < 8
     \<and> 0 \<le> ip_FragOff h \<and> ip_FragOff h < 8192
     \<and> 0 \<le> ip_TTL h \<and> ip_TTL h < 256
     \<and> 0 \<le> ip_Protocol h \<and> ip_Protocol h < 256
     \<and> 0 \<le> ip_Checksum h \<and> ip_Checksum h < 65536
     \<and> is_v4 (ip_Src h) \<and> is_v4 (ip_Dst h)"

lemma is_v4_net:
  assumes "is_v4 ip"
  obtains a b c d where "ip = net_IPv4 a b c d"
proof -
  have "length (drop 12 ip) = 4" using assms by (simp add: is_v4_def)
  then obtain a b c d where "drop 12 ip = [a, b, c, d]" by (rule length_4_cases)
  then have "ip = net_IPv4 a b c d"
    using assms append_take_drop_id [of 12 ip] by (simp add: is_v4_def net_IPv4_def)
  then show thesis by (rule that)
qed

text \<open>\<open>Parse\<close> on a packet whose first twenty bytes are known.\<close>

lemma Parse_twenty:
  "Parse h (x0 # x1 # x2 # x3 # x4 # x5 # x6 # x7 # x8 # x9 # x10 # x11 # x12 # x13 # x14 # x15
      # x16 # x17 # x18 # x19 # r) =
   (let hdrlen = push_bit 2 (uint (x0 AND 0x0f)); fo = uint (be16 x6 x7) in
    if hdrlen > 20 + int (length r) then Inl errBufferTooShort
    else Inr \<lparr>ip_Version = uint (drop_bit 4 x0), ip_Len = hdrlen, ip_TOS = uint x1,
      ip_TotalLen = uint (be16 x2 x3), ip_ID = uint (be16 x4 x5),
      ip_Flags = drop_bit 13 (fo AND 0xe000), ip_FragOff = fo AND 0x1fff, ip_TTL = uint x8,
      ip_Protocol = uint x9, ip_Checksum = uint (be16 x10 x11),
      ip_Src = net_IPv4 x12 x13 x14 x15, ip_Dst = net_IPv4 x16 x17 x18 x19,
      ip_Options = (if hdrlen > 20 then take (nat (hdrlen - 20)) r else ip_Options h)\<rparr>)"
  by (simp add: Parse_def Let_def HeaderLen_def)

lemma Parse_header_bytes:
  assumes wf: "wf_header h"
    and src: "ip_Src h = net_IPv4 s0 s1 s2 s3" and dst: "ip_Dst h = net_IPv4 d0 d1 d2 d3"
  shows "ParseIPHeader (header_bytes h [s0, s1, s2, s3] [d0, d1, d2, d3] @ rest) = Inr h"
proof -
  let ?n = "length (ip_Options h)"
  have n: "?n \<le> 40" "?n mod 4 = 0"
    and fl: "0 \<le> ip_FragOff h" "ip_FragOff h < 8192" "0 \<le> ip_Flags h" "ip_Flags h < 8"
    using wf by (simp_all add: wf_header_def)
  have "ip_Options h = [] \<or> 0 < ?n" by simp
  then show ?thesis
    using wf version_ihl [OF n] flags_pack [OF fl]
    by (cases h) (auto simp: ParseIPHeader_def header_bytes_def bytes16_def Parse_twenty Let_def
        HeaderLen_def IP_Version_def wf_header_def new_IPHeader_def src [symmetric] dst [symmetric])
qed

text \<open>
  C8: a well-formed header survives the wire: \<open>Marshal\<close> succeeds, yields exactly
  \<open>Len\<close> bytes, and \<open>ParseIPHeader\<close> of those bytes, whatever payload follows them,
  returns the same header, options and fragment fields included.
\<close>

theorem Marshal_Parse_roundtrip:
  assumes "wf_header h"
  shows "\<exists>b. Marshal (Some h) = Inr b \<and> int (length b) = ip_Len h
    \<and> (\<forall>payload. ParseIPHeader (b @ payload) = Inr h)"
proof -
  have v4: "is_v4 (ip_Src h)" "is_v4 (ip_Dst h)" and len: "20 \<le> ip_Len h"
    using assms by (simp_all add: wf_header_def)
  obtain s0 s1 s2 s3 where src: "ip_Src h = net_IPv4 s0 s1 s2 s3"
    using v4(1) by (rule is_v4_net)
  obtain d0 d1 d2 d3 where dst: "ip_Dst h = net_IPv4 d0 d1 d2 d3"
    using v4(2) by (rule is_v4_net)
  have "Marshal (Some h) = Inr (header_bytes h [s0, s1, s2, s3] [d0, d1, d2, d3])"
    using len by (simp add: Marshal_bytes src dst)
  then show ?thesis
    using Parse_header_bytes [OF assms src dst] assms
    by (simp add: header_bytes_def bytes16_def wf_header_def)
qed

definition sample_header :: IPHeader where
  "sample_header = \<lparr>ip_Version = 4, ip_Len = 24, ip_TOS = 16, ip_TotalLen = 1500, ip_ID = 4660,
     ip_Flags = 1, ip_FragOff = 185, ip_TTL = 64, ip_Protocol = 17, ip_Checksum = 48879,
     ip_Src = net_IPv4 10 0 0 1, ip_Dst = net_IPv4 192 168 1 2, ip_Options = [1, 1, 1, 0]\<rparr>"

lemma sample_header_wf: "wf_header sample_header"
  by (simp add: wf_header_def sample_header_def is_v4_def net_IPv4_def v4InV6Prefix_def)

theorem Marshal_Parse_roundtrip_witness:
  "\<exists>b. Marshal (Some sample_header) = Inr b \<and> int (length b) = ip_Len sample_header
    \<and> (\<forall>payload. ParseIPHeader (b @ payload) = Inr sample_header)"
  by (rule Marshal_Parse_roundtrip [OF sample_header_wf])

text \<open>A list of at least twenty elements, named one by one.\<close>

lemma twenty_cases:
  assumes "20 \<le> length (b :: 'a list)"
  obtains x0 x1 x2 x3 x4 x5 x6 x7 x8 x9 x10 x11 x12 x13 x14 x15 x16 x17 x18 x19 r
  where "b = x0 # x1 # x2 # x3 # x4 # x5 # x6 # x7 # x8 # x9 # x10 # x11 # x12 # x13 # x14 # x15
      # x16 # x17 # x18 # x19 # r"
proof -
  have four: "\<exists>x0 x1 x2 x3 r. ys = x0 # x1 # x2 # x3 # r" if "4 \<le> length ys" for ys :: "'a list"
    using that by (auto simp: numeral_eq_Suc Suc_le_length_iff)
  obtain x0 x1 x2 x3 r1 where 1: "b = x0 # x1 # x2 # x3 # r1"
    using four [of b] assms by auto
  obtain x4 x5 x6 x7 r2 where 2: "r1 = x4 # x5 # x6 # x7 # r2"
    using four [of r1] assms 1 by auto
  obtain x8 x9 x10 x11 r3 where 3: "r2 = x8 # x9 # x10 # x11 # r3"
    using four [of r2] assms 1 2 by auto
  obtain x12 x13 x14 x15 r4 where 4: "r3 = x12 # x13 # x14 # x15 # r4"
    using four [of r3] assms 1 2 3 by auto
  obtain x16 x17 x18 x19 r5 where 5: "r4 = x16 # x17 # x18 # x19 # r5"
    using four [of r4] assms 1 2 3 4 by auto
  show thesis by (rule that) (simp add: 1 2 3 4 5)
qed

text \<open>
  \<open>ParseIPHeader\<close> never reads out of range, and its outcome is decided by two lengths:
  fewer than 20 bytes is \<open>errHeaderTooShort\<close>, a header length field beyond the buffer is
  \<open>errBufferTooShort\<close>, anything else parses, with the header length taken from the low
  nibble of the first byte.
\<close>

theorem ParseIPHeader_outcome:
  "(ParseIPHeader b = Inl errHeaderTooShort \<longleftrightarrow> length b < 20)
   \<and> (ParseIPHeader b = Inl errBufferTooShort \<longleftrightarrow>
        20 \<le> length b \<and> int (length b) < 4 * uint (b ! 0 AND 0x0f))
   \<and> ((\<exists>h. ParseIPHeader b = Inr h
          \<and> ip_Len h = 4 * uint (b ! 0 AND 0x0f) \<and> ip_Version h = uint (drop_bit 4 (b ! 0))
          \<and> length (ip_Options h) = nat (ip_Len h - 20)) \<longleftrightarrow>
        20 \<le> length b \<and> 4 * uint (b ! 0 AND 0x0f) \<le> int (length b))"
proof (cases "length b < 20")
  case True
  then show ?thesis by (simp add: ParseIPHeader_def Parse_def HeaderLen_def)
next
  case False
  then have "20 \<le> length b" by simp
  then obtain x0 x1 x2 x3 x4 x5 x6 x7 x8 x9 x10 x11 x12 x13 x14 x15 x16 x17 x18 x19 r
    where b: "b = x0 # x1 # x2 # x3 # x4 # x5 # x6 # x7 # x8 # x9 # x10 # x11 # x12 # x13 # x14
      # x15 # x16 # x17 # x18 # x19 # r"
    by (rule twenty_cases)
  have p: "push_bit 2 x = 4 * x" for x :: int
    by (simp add: push_bit_eq_mult)
  define ihl where "ihl = uint (x0 AND 0x0f)"
  have n: "int (length b) = 20 + int (length r)" "b ! 0 = x0"
    by (simp_all add: b)
  show ?thesis
    unfolding n ihl_def [symmetric]
    by (simp add: b ParseIPHeader_def Parse_twenty Let_def new_IPHeader_def p
        ihl_def [symmetric])
qed

lemma ihl_byte:
  fixes w :: byte
  assumes "uint (drop_bit 4 w) = 4"
  shows "byte_of (push_bit 4 4 OR (uint (w AND 0x0f) AND 0x0f)) = w"
proof -
  have d: "drop_bit 4 w = 4"
    using assms by (metis word_of_int_numeral word_of_int_uint)
  have "byte_of (push_bit 4 4 OR (uint (w AND 0x0f) AND 0x0f)) = push_bit 4 (drop_bit 4 w) OR take_bit 4 w"
    by (subst d, rule bit_word_eqI) (simp add: byte_of_def bit_simps take_bit_eq_mask mask_eq_exp_minus_1)
  also have "\<dots> = w"
    by (rule bit_word_eqI) (auto simp: bit_simps)
  finally show ?thesis .
qed

text \<open>
  re-marshalling a parsed version 4 header whose length field is at least 20 gives back the
  header's own bytes, so parsing loses nothing of it.
\<close>

theorem Parse_Marshal_roundtrip:
  assumes parsed: "ParseIPHeader b = Inr h" and v: "ip_Version h = 4" and len: "20 \<le> ip_Len h"
  shows "Marshal (Some h) = Inr (take (nat (ip_Len h)) b)"
proof -
  have "20 \<le> length b"
    using parsed by (auto simp: ParseIPHeader_def Parse_def HeaderLen_def split: if_splits)
  then obtain x0 x1 x2 x3 x4 x5 x6 x7 x8 x9 x10 x11 x12 x13 x14 x15 x16 x17 x18 x19 r
    where b: "b = x0 # x1 # x2 # x3 # x4 # x5 # x6 # x7 # x8 # x9 # x10 # x11 # x12 # x13 # x14
      # x15 # x16 # x17 # x18 # x19 # r"
    by (rule twenty_cases)
  let ?l = "push_bit 2 (uint (x0 AND 0x0f))"
  have l: "20 \<le> ?l" "?l \<le> 20 + int (length r)" and h: "ip_Len h = ?l"
    and opts: "ip_Options h = take (nat (?l - 20)) r"
    and x0: "uint (drop_bit 4 x0) = 4"
    using parsed v len
    by (auto simp: b ParseIPHeader_def Parse_twenty Let_def new_IPHeader_def split: if_splits)
  have n: "20 + int (length (ip_Options h)) = ?l"
    using l by (simp add: opts)
  have "Marshal (Some h) = Inr (header_bytes h [x12, x13, x14, x15] [x16, x17, x18, x19])"
    using parsed len
    by (subst Marshal_bytes)
      (auto simp: b ParseIPHeader_def Parse_twenty Let_def split: if_splits)
  moreover have "header_bytes h [x12, x13, x14, x15] [x16, x17, x18, x19] = take (nat ?l) b"
  proof -
    have "nat ?l = 20 + nat (?l - 20)" using l by simp
    moreover have "bytes16 (be16 u w) = [u, w]" for u w by (simp add: bytes16_def)
    moreover have "take (20 + n) b = x0 # x1 # x2 # x3 # x4 # x5 # x6 # x7 # x8 # x9 # x10 # x11
      # x12 # x13 # x14 # x15 # x16 # x17 # x18 # x19 # take n r" for n
      by (simp add: b numeral_eq_Suc)
    moreover have "drop_bit 2 ?l = uint (x0 AND 0x0f)"
      by (simp add: push_bit_eq_mult drop_bit_eq_div)
    ultimately show ?thesis
      using parsed len n ihl_byte [OF x0]
      by (auto simp: b header_bytes_def ParseIPHeader_def Parse_twenty Let_def HeaderLen_def
          IP_Version_def flags_unpack [simplified] new_IPHeader_def split: if_splits)
  qed
  ultimately show ?thesis by (simp add: h)
qed

theorem Parse_Marshal_roundtrip_witness:
  "Marshal (Some (projr (ParseIPHeader (0x46 # replicate 25 7)))) = Inr (0x46 # replicate 23 7)"
proof -
  let ?b = "0x46 # replicate 25 7 :: byte list"
  have "ParseIPHeader ?b = Inr (projr (ParseIPHeader ?b))"
    and "ip_Version (projr (ParseIPHeader ?b)) = 4"
    and l: "ip_Len (projr (ParseIPHeader ?b)) = 24"
    by (simp_all add: ParseIPHeader_def Parse_def HeaderLen_def Let_def)
  then have "Marshal (Some (projr (ParseIPHeader ?b))) =
      Inr (take (nat (ip_Len (projr (ParseIPHeader ?b)))) ?b)"
    by (intro Parse_Marshal_roundtrip) simp_all
  moreover have "take 24 ?b = 0x46 # replicate 23 7"
    by (simp add: take_Cons')
  ultimately show ?thesis by (simp add: l)
qed

end
