(* ===== verification/Vnet_Info.thy ===== *)
theory Vnet_Info
  imports Vnet_Setup Netstat_Track Mylog Packet_IPHeader
begin

text \<open>
  Package \<open>vnet\<close>, file \<open>info.go\<close>: the HTTP service that shows and sets what the process is doing. A
  handler gets the path and the query of a request and returns what it writes and the state. JSON is
  written for texts that are valid UTF-8 without the separators U+2028 and U+2029; \<open>ParseQuery\<close> is that
  of the Go of the code's time, where \<open>;\<close> separates like \<open>&\<close>. \<open>fmt0\<close> is \<open>fmt.Fprintf\<close> of a format with
  directives and no arguments.
\<close>

section \<open>Texts\<close>

definition newline_char :: char where "newline_char = CHR 0x0A"
definition tab_char :: char where "tab_char = CHR 0x09"

definition dec :: "int \<Rightarrow> string" where
  "dec i = (if i < 0 then CHR ''-'' # Itoa (nat (- i)) else Itoa (nat i))"

definition bool_text :: "bool \<Rightarrow> string" where
  "bool_text b = (if b then ''true'' else ''false'')"

text \<open>\<open>json.Marshal\<close> and \<open>json.MarshalIndent(v, "", "\t")\<close>.\<close>

datatype json = JNull | JNum nat | JString string | JArray "json list" | JObject "(string \<times> json) list"

definition json_char :: "char \<Rightarrow> string" where
  "json_char c =
     (let n = of_char c :: nat in
      if c = CHR 0x22 \<or> c = CHR 0x5C then [CHR 0x5C, c]
      else if n = 10 then [CHR 0x5C, CHR ''n'']
      else if n = 13 then [CHR 0x5C, CHR ''r'']
      else if n = 9 then [CHR 0x5C, CHR ''t'']
      else if n < 32 \<or> c \<in> {CHR ''<'', CHR ''>'', CHR ''&''}
        then CHR 0x5C # ''u00'' @ [hexdigit (n div 16), hexdigit (n mod 16)]
      else [c])"

definition json_string :: "string \<Rightarrow> string" where
  "json_string s = CHR 0x22 # concat (map json_char s) @ [CHR 0x22]"

definition indent :: "nat \<Rightarrow> string" where
  "indent d = newline_char # replicate d tab_char"

fun joined_with :: "string \<Rightarrow> string list \<Rightarrow> string" where
  "joined_with sep [] = []"
| "joined_with sep [x] = x"
| "joined_with sep (x # xs) = x @ sep @ joined_with sep xs"

function MarshalIndent :: "nat \<Rightarrow> json \<Rightarrow> string" where
  "MarshalIndent d JNull = ''null''"
| "MarshalIndent d (JNum n) = Itoa n"
| "MarshalIndent d (JString s) = json_string s"
| "MarshalIndent d (JArray xs) =
     (if xs = [] then ''[]''
      else ''['' @ indent (d + 1) @ joined_with ('','' @ indent (d + 1)) (map (MarshalIndent (d + 1)) xs) @ indent d @ '']'')"
| "MarshalIndent d (JObject kvs) =
     (if kvs = [] then ''{}''
      else ''{'' @ indent (d + 1)
        @ joined_with ('','' @ indent (d + 1)) (map (\<lambda>kv. json_string (fst kv) @ '': '' @ MarshalIndent (d + 1) (snd kv)) kvs)
        @ indent d @ ''}'')"
  by pat_completeness auto
termination
proof (relation "measure (\<lambda>(_, j). size j)", goal_cases)
  case (2 d xs x)
  then show ?case by (auto simp: less_Suc_eq_le dest: size_list_estimation' [OF _ order_refl, of _ _ size])
next
  case (3 d kvs kv)
  then show ?case
    by (cases kv) (auto simp: less_Suc_eq_le intro!: size_list_estimation' [of "(fst kv, snd kv)"] simp: size_prod_def)
qed simp

text \<open>The keys of a map are sorted as texts.\<close>

fun string_le :: "string \<Rightarrow> string \<Rightarrow> bool" where
  "string_le [] ys = True"
| "string_le (x # xs) [] = False"
| "string_le (x # xs) (y # ys) =
     ((of_char x :: nat) < of_char y \<or> x = y \<and> string_le xs ys)"

fun insert_key :: "string \<times> json \<Rightarrow> (string \<times> json) list \<Rightarrow> (string \<times> json) list" where
  "insert_key kv [] = [kv]"
| "insert_key kv (x # xs) = (if string_le (fst kv) (fst x) then kv # x # xs else x # insert_key kv xs)"

definition json_map :: "(string \<times> json) list \<Rightarrow> json" where
  "json_map kvs = JObject (foldr insert_key kvs [])"

section \<open>Queries\<close>

definition hex_value :: "char \<Rightarrow> nat option" where
  "hex_value c =
     (let n = of_char c :: nat in
      if 48 \<le> n \<and> n \<le> 57 then Some (n - 48)
      else if 97 \<le> n \<and> n \<le> 102 then Some (n - 87)
      else if 65 \<le> n \<and> n \<le> 70 then Some (n - 55)
      else None)"

text \<open>\<open>url.QueryUnescape\<close>; \<open>Inl\<close> is the text of an \<open>EscapeError\<close>.\<close>

fun QueryUnescape :: "string \<Rightarrow> string + string" where
  "QueryUnescape [] = Inr []"
| "QueryUnescape (c # cs) =
     (if c = CHR ''%'' then
        (case cs of
           x # y # rest \<Rightarrow>
             (case (hex_value x, hex_value y) of
                (Some a, Some b) \<Rightarrow> map_sum id (\<lambda>r. char_of (16 * a + b) # r) (QueryUnescape (drop 2 cs))
              | _ \<Rightarrow> Inl ([c, x, y]))
         | _ \<Rightarrow> Inl (c # cs))
      else map_sum id (\<lambda>r. (if c = CHR ''+'' then CHR '' '' else c) # r) (QueryUnescape cs))"

fun split_query :: "string \<Rightarrow> string list" where
  "split_query [] = [[]]"
| "split_query (c # cs) =
     (if c \<in> {CHR ''&'', CHR '';''} then [] # split_query cs
      else case split_query cs of [] \<Rightarrow> [[c]] | f # fs \<Rightarrow> (c # f) # fs)"

definition query_pair :: "string \<Rightarrow> (string \<times> string list) list \<times> string option \<Rightarrow> (string \<times> string list) list \<times> string option" where
  "query_pair part = (\<lambda>(m, err).
     if part = [] then (m, err)
     else
       let key = takeWhile (\<lambda>c. c \<noteq> CHR ''='') part; value = drop (length key + 1) part in
       case QueryUnescape key of
         Inl e \<Rightarrow> (m, if err = None then Some e else err)
       | Inr key \<Rightarrow>
           (case QueryUnescape value of
              Inl e \<Rightarrow> (m, if err = None then Some e else err)
            | Inr value \<Rightarrow> (AList.update key ((case map_of m key of None \<Rightarrow> [] | Some vs \<Rightarrow> vs) @ [value]) m, err)))"

definition ParseQuery :: "string \<Rightarrow> (string \<times> string list) list \<times> string option" where
  "ParseQuery query = fold query_pair (split_query query) ([], None)"

section \<open>The process\<close>

record Stats =
  st_NodeId :: string
  st_AccessRemoteHost :: string
  st_SendSpd :: u64
  st_ReceiveSpd :: u64

record ('o, 'l) process =
  ps_setup :: "'o vsetup"
  ps_log :: "'l mylog"
  ps_version :: string
  ps_DebugEn :: bool
  ps_ShowInfoAddr :: string
  ps_TunType :: int
  ps_VnetStats :: "(string \<times> Stats option) list"

record request =
  rq_Path :: string
  rq_RawQuery :: string

type_synonym ('o, 'l) handler = "request \<Rightarrow> ('o, 'l) process \<Rightarrow> (string \<times> ('o, 'l) process) res"

definition SetVersion :: "string \<Rightarrow> ('o, 'l) process \<Rightarrow> ('o, 'l) process" where
  "SetVersion v p = (if v \<noteq> '''' then p\<lparr>ps_version := v\<rparr> else p)"

section \<open>What the handlers show\<close>

text \<open>\<open>fdbs\<close> is declared outside of the loop over the masters and is never emptied.\<close>

definition showClientMaster_step :: "vnet \<Rightarrow> string \<times> nat \<Rightarrow> string \<times> string list \<Rightarrow> string \<times> string list" where
  "showClientMaster_step w = (\<lambda>(_, c) (fdbs, cm).
     let fdbs = fold (\<lambda>fdbid fdbs. fdbs @ dec fdbid) (keys (joined w c)) fdbs
     in (fdbs, cm @ [cl_String (client w c) @ '', fdbs:'' @ fdbs @ '', slaves='']))"

definition showClientMaster :: "vnet \<Rightarrow> string list" where
  "showClientMaster w = snd (fold (showClientMaster_step w) (vn_ClientMaster w) ('''', []))"

definition tun_stat_line :: "vnet \<Rightarrow> string \<times> nat \<Rightarrow> string" where
  "tun_stat_line w = (\<lambda>(devName, v).
     ''dev name '' @ devName @ '': conn '' @ cl_String (client w v) @ '', rx '' @ Itoa (unat (cl_rx_bytes (client w v))) @
     '',tx '' @ Itoa (unat (cl_tx_bytes (client w v))) @ '' bytes'' @ [newline_char])"

text \<open>The text of the device statistics is itself the format.\<close>

definition Fprintf0 :: "(string \<Rightarrow> string) \<Rightarrow> string \<Rightarrow> string" where
  "Fprintf0 fmt0 format = (if CHR ''%'' \<in> set format then fmt0 format else format)"

definition showTunStat :: "(string \<Rightarrow> string) \<Rightarrow> ('o, 'l) handler" where
  "showTunStat fmt0 req p =
     (let w = su_w (ps_setup p);
          statstr = fold (\<lambda>x s. s @ tun_stat_line w x) (vn_tcMap w) ''''
      in Inr (Fprintf0 fmt0 statstr, p))"

definition showLogInfo :: "('o, 'l) handler" where
  "showLogInfo req p =
     (let (queryForm, err) = ParseQuery (rq_RawQuery req);
          usage = ''/mylog?level ='' @ ShowSupportLevels @ [newline_char]
      in case err of
           Some e \<Rightarrow> Inr (''invalid URL escape '' @ CHR 0x22 # e @ [CHR 0x22], p)
         | None \<Rightarrow>
             (case map_of queryForm ''level'' of
                Some (level # _) \<Rightarrow>
                  if level \<noteq> '''' then
                    let (err, l) = SetLogLevel level (ps_log p); p = p\<lparr>ps_log := l\<rparr> in
                    (case err of
                       None \<Rightarrow> Inr (''set log level '' @ level @ '' success'' @ [newline_char], p)
                     | Some e \<Rightarrow> Inr (e @ [newline_char], p))
                  else Inr (usage, p)
              | _ \<Rightarrow> Inr (usage, p)))"

definition showVersion :: "('o, 'l) handler" where
  "showVersion req p = Inr (MarshalIndent 0 (JString (ps_version p)), p)"

definition showConntrackInfo :: "('o, 'l) handler" where
  "showConntrackInfo req p =
     bind_res (ShowConntrack (su_ns (ps_setup p))) (\<lambda>ctInfo.
     Inr (MarshalIndent 0 (json_map (map (\<lambda>(zone, cts).
            (Itoa (unat zone), json_map (zip (map Itoa [0..<length cts]) (map JString cts)))) ctInfo)), p))"

definition showClientMasterInfo :: "('o, 'l) handler" where
  "showClientMasterInfo req p =
     (let cm = showClientMaster (su_w (ps_setup p))
      in Inr (MarshalIndent 0 (if cm = [] then JNull else JArray (map JString cm)), p))"

definition enableDebug :: "('o, 'l) handler" where
  "enableDebug req p = (let p = p\<lparr>ps_DebugEn := True\<rparr>
     in Inr (''set debug = true, *DebugEn='' @ bool_text (ps_DebugEn p) @ '' '' @ [newline_char], p))"

definition disableDebug :: "('o, 'l) handler" where
  "disableDebug req p = (let p = p\<lparr>ps_DebugEn := False\<rparr>
     in Inr (''set debug = false, *DebugEn='' @ bool_text (ps_DebugEn p) @ '' '' @ [newline_char], p))"

definition showClientMac :: "('o, 'l) handler" where
  "showClientMac req p =
     (let w = su_w (ps_setup p); mc = ShowClientMac (\<lambda>c. cl_String (client w c)) (vn_fdbs w)
      in Inr (MarshalIndent 0 (json_map (map (\<lambda>(fdbId, portmac).
           (dec fdbId, json_map (map (\<lambda>(portId, ms). (dec portId, JArray (map JString ms))) portmac))) mc)), p))"

definition stats_json :: "Stats option \<Rightarrow> json" where
  "stats_json st =
     (case st of
        None \<Rightarrow> JNull
      | Some x \<Rightarrow> JObject [(''NodeId'', JString (st_NodeId x)), (''AccessRemoteHost'', JString (st_AccessRemoteHost x)),
          (''SendSpd'', JNum (unat (st_SendSpd x))), (''ReceiveSpd'', JNum (unat (st_ReceiveSpd x)))])"

definition showVnetStat :: "('o, 'l) handler" where
  "showVnetStat req p = Inr (MarshalIndent 0 (json_map (map (map_prod id stats_json) (ps_VnetStats p))), p)"

section \<open>The service\<close>

record ('o, 'l) httpHandlers =
  hh_path :: string
  hh_handler :: "('o, 'l) handler"

definition regHandlers :: "(string \<Rightarrow> string) \<Rightarrow> ('o, 'l) httpHandlers list" where
  "regHandlers fmt0 =
     [\<lparr>hh_path = ''/debug'', hh_handler = enableDebug\<rparr>,
      \<lparr>hh_path = ''/nodebug'', hh_handler = disableDebug\<rparr>,
      \<lparr>hh_path = ''/tunstat'', hh_handler = showTunStat fmt0\<rparr>,
      \<lparr>hh_path = ''/clientmac'', hh_handler = showClientMac\<rparr>,
      \<lparr>hh_path = ''/vnetStat'', hh_handler = showVnetStat\<rparr>,
      \<lparr>hh_path = ''/clientMaster'', hh_handler = showClientMasterInfo\<rparr>,
      \<lparr>hh_path = ''/conntrack'', hh_handler = showConntrackInfo\<rparr>,
      \<lparr>hh_path = ''/version'', hh_handler = showVersion\<rparr>,
      \<lparr>hh_path = ''/mylog'', hh_handler = showLogInfo\<rparr>]"

definition registerHandlers :: "('o, 'l) httpHandlers list \<Rightarrow> (string \<times> ('o, 'l) handler) list" where
  "registerHandlers hhs = fold (\<lambda>hh handlers. AList.update (hh_path hh) (hh_handler hh) handlers) hhs []"

definition showRegHandlersPath :: "('o, 'l) httpHandlers list \<Rightarrow> string" where
  "showRegHandlersPath hhs = fold (\<lambda>hh ss. ss @ hh_path hh) hhs ''''"

definition ServeHTTP :: "(string \<Rightarrow> string) \<Rightarrow> (string \<times> ('o, 'l) handler) list \<Rightarrow> ('o, 'l) handler" where
  "ServeHTTP fmt0 handlers req p =
     (case map_of handlers (rq_Path req) of
        Some h \<Rightarrow> h req p
      | None \<Rightarrow> Inr (''just support: '' @ showRegHandlersPath (regHandlers fmt0 :: ('o, 'l) httpHandlers list) @ [newline_char], p))"

text \<open>The address and the handlers of the service that is started.\<close>

definition DebugInfoServe :: "(string \<Rightarrow> string) \<Rightarrow> string \<Rightarrow> ('o, 'l) process \<Rightarrow> string \<times> (string \<times> ('o, 'l) handler) list" where
  "DebugInfoServe fmt0 showInfoAddr p =
     ((if showInfoAddr = '''' then ps_ShowInfoAddr p else showInfoAddr), registerHandlers (regHandlers fmt0))"

section \<open>The packets that are shown\<close>

text \<open>A header that does not parse is shown as nil; a packet without an Ethernet header panics.\<close>

datatype shown = ArpShown mac mac | ParseFailed string ip_error | HeaderShown string "IPHeader option"

definition show_header :: "string \<Rightarrow> byte list \<Rightarrow> shown list" where
  "show_header ss b =
     (case ParseIPHeader b of
        Inl e \<Rightarrow> [ParseFailed ss e, HeaderShown ss None]
      | Inr h \<Rightarrow> [HeaderShown ss (Some h)])"

definition ShowPktInfo :: "int \<Rightarrow> byte gslice \<Rightarrow> string \<Rightarrow> shown list res" where
  "ShowPktInfo TunType frame ss =
     (if TunType = 1 then
        bind_res (TranEther frame) (\<lambda>ether.
        let arp = (if IsBroadcast ether \<and> IsArp ether then [ArpShown (DstMac ether) (SrcMac ether)] else []) in
        if IsIpPtk ether then bind_res (sl_from frame EtherSize) (\<lambda>b. Inr (arp @ show_header ss (sl_list b)))
        else Inr arp)
      else Inr (show_header ss (sl_list frame)))"

section \<open>The texts about the masters\<close>

abbreviation fdb_ids :: "vnet \<Rightarrow> string \<times> nat \<Rightarrow> string" where
  "fdb_ids w x \<equiv> concat (map dec (keys (joined w (snd x))))"

lemma showClientMaster_step_eq:
  "showClientMaster_step w x (fdbs, cm) =
     (fdbs @ fdb_ids w x, cm @ [cl_String (client w (snd x)) @ '', fdbs:'' @ fdbs @ fdb_ids w x @ '', slaves=''])"
proof -
  have "fold (\<lambda>fdbid fdbs. fdbs @ dec fdbid) ids fdbs = fdbs @ concat (map dec ids)" for ids and fdbs :: string
    by (induction ids arbitrary: fdbs) simp_all
  then show ?thesis by (simp add: showClientMaster_step_def case_prod_beta)
qed

lemma showClientMaster_fold:
  "fold (showClientMaster_step w) cs (fdbs, cm) =
     (fdbs @ concat (map (fdb_ids w) cs),
      cm @ map (\<lambda>k. cl_String (client w (snd (cs ! k))) @ '', fdbs:'' @ fdbs @ concat (map (fdb_ids w) (take (Suc k) cs)) @ '', slaves='')
        [0..<length cs])"
  by (induction cs arbitrary: fdbs cm) (simp_all add: showClientMaster_step_eq map_upt_Suc del: upt_Suc)

text \<open>
  The text about a master is meant to name the bridges that it has joined. It names those of all
  masters before it as well: the identifiers accumulate over the loop.
\<close>

theorem showClientMaster_accumulates:
  "showClientMaster w =
     map (\<lambda>k. cl_String (client w (snd (vn_ClientMaster w ! k))) @ '', fdbs:''
       @ concat (map (fdb_ids w) (take (Suc k) (vn_ClientMaster w))) @ '', slaves='')
     [0..<length (vn_ClientMaster w)]"
  by (simp add: showClientMaster_def showClientMaster_fold)

text \<open>A master that has joined no bridge is shown with the bridge of another.\<close>

lemma stale_master_shown:
  assumes "vn_ClientMaster w = [(a, i), (b, j)]" and "joined w i = [(7, fp)]" and "joined w j = []"
  shows "showClientMaster w ! 1 = cl_String (client w j) @ '', fdbs:7, slaves=''"
  using assms by (simp add: showClientMaster_accumulates dec_def Itoa.simps char_of_eq_iff)

section \<open>Dispatch\<close>

lemma registerHandlers_distinct:
  assumes "distinct (map hh_path hhs)"
  shows "registerHandlers hhs = map (\<lambda>hh. (hh_path hh, hh_handler hh)) hhs"
proof -
  have "fold (\<lambda>hh handlers. AList.update (hh_path hh) (hh_handler hh) handlers) xs acc
      = acc @ map (\<lambda>hh. (hh_path hh, hh_handler hh)) xs"
    if "distinct (map hh_path xs)" "fst ` set acc \<inter> hh_path ` set xs = {}" for xs acc
    using that
  proof (induction xs arbitrary: acc)
    case (Cons x xs)
    have "AList.update (hh_path x) (hh_handler x) acc = acc @ [(hh_path x, hh_handler x)]"
      using Cons.prems by (intro update_new) auto
    then show ?case using Cons by auto
  qed simp
  from this [of hhs "[]"] assms show ?thesis by (simp add: registerHandlers_def)
qed

lemma regHandlers_paths: "distinct (map hh_path (regHandlers fmt0))"
  by (simp add: regHandlers_def)

text \<open>
  A request for the path of a registered handler is served by that handler, any other with the list
  of the paths and no change of the state.
\<close>

theorem ServeHTTP_dispatches:
  fixes p :: "('o, 'l) process"
  assumes "handlers = snd (DebugInfoServe fmt0 addr p0)"
  shows "hh \<in> set (regHandlers fmt0) \<Longrightarrow> rq_Path req = hh_path hh \<Longrightarrow> ServeHTTP fmt0 handlers req p = hh_handler hh req p"
    and "rq_Path req \<notin> hh_path ` set (regHandlers fmt0 :: ('o, 'l) httpHandlers list) \<Longrightarrow> \<exists>text. ServeHTTP fmt0 handlers req p = Inr (text, p)"
proof -
  have h: "handlers = map (\<lambda>hh. (hh_path hh, hh_handler hh)) (regHandlers fmt0)"
    using assms registerHandlers_distinct [OF regHandlers_paths] by (simp add: DebugInfoServe_def)
  have d: "distinct (map fst handlers)" using regHandlers_paths [of fmt0] by (simp add: h comp_def)
  show "ServeHTTP fmt0 handlers req p = hh_handler hh req p" if "hh \<in> set (regHandlers fmt0)" "rq_Path req = hh_path hh"
  proof -
    have "(hh_path hh, hh_handler hh) \<in> set handlers" using that(1) by (simp add: h)
    then show ?thesis using d that(2) by (simp add: ServeHTTP_def)
  qed
  show "\<exists>text. ServeHTTP fmt0 handlers req p = Inr (text, p)" if "rq_Path req \<notin> hh_path ` set (regHandlers fmt0 :: ('o, 'l) httpHandlers list)"
  proof -
    have "map_of handlers (rq_Path req) = None" using that by (auto simp: h map_of_eq_None_iff)
    then show ?thesis by (simp add: ServeHTTP_def)
  qed
qed

text \<open>A request to show something changes nothing but the switch for debugging and the level of the log.\<close>

lemma handlers_frame:
  assumes "hh \<in> set (regHandlers fmt0)" and "hh_handler hh req p = Inr (text, p')"
  shows "ps_setup p' = ps_setup p \<and> ps_version p' = ps_version p
    \<and> (ps_DebugEn p' \<noteq> ps_DebugEn p \<longrightarrow> hh_path hh \<in> {''/debug'', ''/nodebug''})
    \<and> (ps_log p' \<noteq> ps_log p \<longrightarrow> hh_path hh = ''/mylog'')"
  using assms
  by (auto simp: regHandlers_def enableDebug_def disableDebug_def showTunStat_def showClientMac_def showVnetStat_def
      showClientMasterInfo_def showConntrackInfo_def showVersion_def showLogInfo_def Let_def bind_res_eq_Inr
      split: option.splits list.splits if_splits prod.splits)

end
