(* ===== verification/Govnet.thy ===== *)
theory Govnet
  imports Vnet_Info
begin

text \<open>
  Package \<open>main\<close>, file \<open>govnet.go\<close>: the configuration, the listener, the dialler and the start of the
  process. The network and the decoding of the configuration file are arguments. A result \<open>None\<close> of
  the network is an error. What goes on in goroutines or for ever is the list of activities at the end.
\<close>

section \<open>Configuration\<close>

record tlsConfig =
  tl_TlsEnable :: bool
  tl_TlsSK :: string
  tl_TlsSP :: string

record HeartbeatConfig =
  hc_HeartbeatIdle :: int
  hc_HeartbeatCnt :: int
  hc_HeartbeatIntv :: int

record TunConfig =
  tu_Tuns :: "TunConf list"

record vnetConfig =
  vc_ListenAddr :: string
  vc_SerAddr :: "string list"
  vc_CryptType :: string
  vc_Vids :: "int list"
  vc_BackupLinkAddr :: "string list"
  vc_HeartbeatConf :: HeartbeatConfig
  vc_TlsConf :: tlsConfig
  vc_TunConf :: TunConfig
  vc_UpRateLimit :: int
  vc_DownRateLimit :: int
  vc_LogFile :: string
  vc_LogLevel :: string
  vc_ShowInfoAddr :: string
  vc_RouteConf :: string
  vc_CheckTunPkt :: bool
  vc_NetStatEnable :: bool
  vc_PprofEnable :: bool
  vc_PpAddr :: string
  vc_Ve :: string

text \<open>The flags of the command line.\<close>

record gflags =
  gf_showVersion :: bool
  gf_listenAddr :: string
  gf_tlsEnable :: bool
  gf_tlsSK :: string
  gf_tlsSP :: string
  gf_configFile :: string

definition initConfig ::
  "(string \<Rightarrow> vnetConfig \<Rightarrow> vnetConfig option) \<Rightarrow> gflags \<Rightarrow> vnetConfig \<Rightarrow> (gflags \<times> vnetConfig) res" where
  "initConfig DecodeFile fl conf =
     (if gf_configFile fl = '''' then Inr (fl, conf)
      else case DecodeFile (gf_configFile fl) conf of
             None \<Rightarrow> Inl (PanicMsg ''toml'')
           | Some conf \<Rightarrow>
               Inr (fl\<lparr>gf_tlsEnable := tl_TlsEnable (vc_TlsConf conf), gf_tlsSK := tl_TlsSK (vc_TlsConf conf),
                  gf_tlsSP := tl_TlsSP (vc_TlsConf conf), gf_listenAddr := vc_ListenAddr conf\<rparr>, conf))"

section \<open>Network\<close>

text \<open>The \<open>bool\<close> is whether TLS is used; a connection and a listener are known by a name.\<close>

record 'n net_ops =
  nt_LoadX509KeyPair :: "string \<Rightarrow> string \<Rightarrow> 'n \<Rightarrow> bool"
  nt_Listen :: "bool \<Rightarrow> string \<Rightarrow> 'n \<Rightarrow> string option \<times> 'n"
  nt_Dial :: "bool \<Rightarrow> string \<Rightarrow> 'n \<Rightarrow> string option \<times> 'n"

text \<open>
  With TLS, \<open>cert, err :=\<close> declares an \<open>err\<close> of the block, which takes the error of \<open>tls.Listen\<close>; the
  test after the block looks at the outer one.
\<close>

definition newListener :: "'n net_ops \<Rightarrow> gflags \<Rightarrow> 'n \<Rightarrow> (string option \<times> 'n) res" where
  "newListener net fl st =
     (if gf_tlsEnable fl then
        if \<not> nt_LoadX509KeyPair net (gf_tlsSP fl) (gf_tlsSK fl) st then Inl (PanicMsg ''LoadX509KeyPair'')
        else Inr (nt_Listen net True (gf_listenAddr fl) st)
      else
        let (ln, st) = nt_Listen net False (gf_listenAddr fl) st in
        if ln = None then Inl (PanicMsg ''listen'') else Inr (ln, st))"

text \<open>The loop \<open>ReConnect\<close> with the number of the attempt; \<open>None\<close> when no attempt ever succeeds.\<close>

partial_function (option) ReConnect :: "'n net_ops \<Rightarrow> bool \<Rightarrow> string \<Rightarrow> nat \<Rightarrow> 'n \<Rightarrow> (string \<times> nat \<times> 'n) option" where
  "ReConnect net tls serverAddr n st =
     (case nt_Dial net tls serverAddr st of
        (Some conn, st) \<Rightarrow> Some (conn, n, st)
      | (None, st) \<Rightarrow> ReConnect net tls serverAddr (n + 1) st)"

text \<open>\<open>dialInfo\<close> is \<open>None\<close> when it is not a string.\<close>

definition Connect :: "'n net_ops \<Rightarrow> bool \<Rightarrow> string option \<Rightarrow> 'n \<Rightarrow> (string \<times> nat \<times> 'n) option res" where
  "Connect net tls dialInfo st =
     (case dialInfo of
        None \<Rightarrow> Inl (PanicMsg ''myDial dialInfo invalid'')
      | Some serverAddr \<Rightarrow>
          if length serverAddr = 0 then Inl (PanicMsg ''myDial len(serverAddr) == 0'')
          else Inr (ReConnect net tls serverAddr 1 st))"

section \<open>The start of the process\<close>

definition ShowBaseInfo :: "string \<Rightarrow> ('o, 'l) process \<Rightarrow> ('o, 'l) process res" where
  "ShowBaseInfo Br p =
     (let name = su_TunName (ps_setup p) in
      if Br \<noteq> '''' then
        if ps_TunType p \<noteq> DevTap then Inl (PanicMsg ''bridge can't not addif tuntype'')
        else if name = Br then Inl (PanicMsg ''*TunName can't be same as *Br'')
        else if name = '''' then Inr (p\<lparr>ps_setup := (ps_setup p)\<lparr>su_TunName := Br @ ''_tap''\<rparr>\<rparr>)
        else Inr p
      else Inr p)"

definition netstat_Enable :: "bool \<Rightarrow> vnet \<Rightarrow> vnet" where
  "netstat_Enable b w =
     w\<lparr>vn_netStat := (if b then Some (case vn_netStat w of None \<Rightarrow> [] | Some q \<Rightarrow> q) else None)\<rparr>"

definition upd_setup :: "('o vsetup \<Rightarrow> 'o vsetup) \<Rightarrow> ('o, 'l) process \<Rightarrow> ('o, 'l) process" where
  "upd_setup f p = p\<lparr>ps_setup := f (ps_setup p)\<rparr>"

text \<open>The settings that \<open>main\<close> makes, in its order.\<close>

definition apply_conf :: "string \<Rightarrow> string \<Rightarrow> vnetConfig \<Rightarrow> ('o, 'l) process \<Rightarrow> ('o, 'l) process res" where
  "apply_conf Br version conf p =
     bind_res (ShowBaseInfo Br p) (\<lambda>p.
     let p = SetVersion version p in
     bind_res (SetVids (vc_Vids conf) (su_w (ps_setup p))) (\<lambda>w.
     let p = upd_setup (\<lambda>s. s\<lparr>su_w := w\<rparr>) p in
     bind_res (SetDefaultCryptType (vc_CryptType conf)) (\<lambda>ct.
     let p = upd_setup (\<lambda>s. s\<lparr>su_CryptType := ct\<rparr>) p;
         p = upd_setup (SetRateLimit (vc_UpRateLimit conf) (vc_DownRateLimit conf)) p;
         p = upd_setup (\<lambda>s. s\<lparr>su_routeConf := SetRouteConf (vc_RouteConf conf) (su_routeConf s)\<rparr>) p;
         p = upd_setup (SetCheckTunPkt (vc_CheckTunPkt conf)) p;
         hc = vc_HeartbeatConf conf;
         p = upd_setup (\<lambda>s. s\<lparr>su_w := SetHeartbeat (hc_HeartbeatIdle hc) (hc_HeartbeatCnt hc) (hc_HeartbeatIntv hc) (su_w s)\<rparr>) p
     in Inr (upd_setup (\<lambda>s. s\<lparr>su_w := netstat_Enable (vc_NetStatEnable conf) (su_w s)\<rparr>) p))))"

datatype activity =
    DebugInfo string
  | Pprof string
  | P2p string nat
  | AccessBackup "string list"
  | ConnectServer string
  | Accepting string
  | WaitLoop

text \<open>The devices, connections and listener.\<close>

definition p2p_mode :: "gflags \<Rightarrow> vnetConfig \<Rightarrow> bool" where
  "p2p_mode fl conf \<longleftrightarrow>
     length (tu_Tuns (vc_TunConf conf)) = 1 \<and> length (vc_SerAddr conf) = 1 \<and> gf_listenAddr fl = ''''"

definition start_links ::
  "'o os_ops \<Rightarrow> 'n net_ops \<Rightarrow> gflags \<Rightarrow> vnetConfig \<Rightarrow> ('o, 'l) process \<Rightarrow> 'n \<Rightarrow> (activity list \<times> ('o, 'l) process \<times> 'n) res" where
  "start_links os net fl conf p st =
     (let tuns = tu_Tuns (vc_TunConf conf) in
      if p2p_mode fl conf then
        bind_res (ConnBindTun_begin os (tuns ! 0) (ps_setup p)) (\<lambda>(vtc, s).
        Inr ([P2p (vc_SerAddr conf ! 0) vtc], p\<lparr>ps_setup := s\<rparr>, st))
      else
        bind_res (if length tuns > 0 then HandleTuns os tuns (ps_setup p) else Inr (ps_setup p)) (\<lambda>s.
        let p = p\<lparr>ps_setup := s\<rparr>;
            backup = (if length (vc_BackupLinkAddr conf) > 0 then [AccessBackup (vc_BackupLinkAddr conf)] else []);
            servers = (if length (vc_SerAddr conf) > 0 then map ConnectServer (vc_SerAddr conf) else [])
        in bind_res (if gf_listenAddr fl \<noteq> '''' then newListener net fl st else Inr (None, st)) (\<lambda>(ln, st).
           Inr (backup @ servers @ (if ln \<noteq> None then [Accepting (gf_listenAddr fl)] else [WaitLoop]), p, st))))"

text \<open>What \<open>main\<close> comes to.\<close>

datatype ('o, 'l, 'n) outcome =
    PrintedVersion string
  | WaitsForLog
  | Runs "activity list" "('o, 'l) process" 'n

definition govnet_main ::
  "'o os_ops \<Rightarrow> 'l fs_ops \<Rightarrow> 'n net_ops \<Rightarrow> (string \<Rightarrow> vnetConfig \<Rightarrow> vnetConfig option) \<Rightarrow> date \<Rightarrow> string \<Rightarrow> string \<Rightarrow>
    gflags \<Rightarrow> vnetConfig \<Rightarrow> ('o, 'l) process \<Rightarrow> 'n \<Rightarrow> ('o, 'l, 'n) outcome res" where
  "govnet_main os fs net DecodeFile now Br version fl conf p st =
     (if gf_showVersion fl then Inr (PrintedVersion version)
      else
        bind_res (initConfig DecodeFile fl conf) (\<lambda>(fl, conf).
        bind_res (InitLog fs now (vc_LogLevel conf) (vc_LogFile conf) (ps_log p)) (\<lambda>l.
        case l of
          None \<Rightarrow> Inr WaitsForLog
        | Some l \<Rightarrow>
            let p = p\<lparr>ps_log := l\<rparr>; addr = fst (DebugInfoServe (\<lambda>t. t) (vc_ShowInfoAddr conf) p) in
            bind_res (apply_conf Br version conf p) (\<lambda>p.
            bind_res (start_links os net fl conf p st) (\<lambda>(acts, p, st).
            Inr (Runs (DebugInfo addr # (if vc_PprofEnable conf then [Pprof (vc_PpAddr conf)] else []) @ acts) p st))))))"

section \<open>Dialling\<close>

primrec dialled_state :: "'n net_ops \<Rightarrow> bool \<Rightarrow> string \<Rightarrow> nat \<Rightarrow> 'n \<Rightarrow> 'n" where
  "dialled_state net tls addr 0 st = st"
| "dialled_state net tls addr (Suc k) st = dialled_state net tls addr k (snd (nt_Dial net tls addr st))"

text \<open>The \<open>k\<close>-th attempt, counted from 0, succeeds with \<open>conn\<close>.\<close>

definition attempt :: "'n net_ops \<Rightarrow> bool \<Rightarrow> string \<Rightarrow> 'n \<Rightarrow> nat \<Rightarrow> string option" where
  "attempt net tls addr st k = fst (nt_Dial net tls addr (dialled_state net tls addr k st))"

lemma attempt_simps [simp]:
  "attempt net tls addr st 0 = fst (nt_Dial net tls addr st)"
  "attempt net tls addr st (Suc k) = attempt net tls addr (snd (nt_Dial net tls addr st)) k"
  by (simp_all add: attempt_def)

lemma ReConnect_succeeds:
  assumes "attempt net tls addr st k = Some conn" and "\<forall>j < k. attempt net tls addr st j = None"
  shows "ReConnect net tls addr n st = Some (conn, n + k, dialled_state net tls addr (Suc k) st)"
  using assms
proof (induction k arbitrary: n st)
  case 0
  obtain v where "nt_Dial net tls addr st = (Some conn, v)" using 0(1) by (cases "nt_Dial net tls addr st") simp
  then show ?case by (subst ReConnect.simps) simp
next
  case (Suc k)
  obtain v where v: "nt_Dial net tls addr st = (None, v)"
    using Suc.prems(2) by (cases "nt_Dial net tls addr st") force
  have "\<forall>j < k. attempt net tls addr v j = None"
  proof (intro allI impI)
    fix j assume "j < k"
    then show "attempt net tls addr v j = None" using Suc.prems(2) v by (auto dest: spec [of _ "Suc j"])
  qed
  then have "ReConnect net tls addr (n + 1) v = Some (conn, n + 1 + k, dialled_state net tls addr (Suc k) v)"
    using Suc.IH [of v "n + 1"] Suc.prems(1) v by simp
  then show ?case by (subst ReConnect.simps) (simp add: v)
qed

lemma ReConnect_only_if:
  assumes ret: "ReConnect net tls addr n st = Some r"
  shows "\<exists>k. attempt net tls addr st k \<noteq> None"
proof (rule ReConnect.raw_induct [where P = "\<lambda>net tls addr n st r. \<exists>k. attempt net tls addr st k \<noteq> None", OF _ ret])
  fix f and net :: "'a net_ops" and tls addr n st and r :: "string \<times> nat \<times> 'a"
  assume IH: "\<And>net tls addr n st r. f net tls addr n st = Some r \<Longrightarrow> \<exists>k. attempt net tls addr st k \<noteq> None"
    and eq: "(case nt_Dial net tls addr st of (None, st) \<Rightarrow> f net tls addr (n + 1) st | (Some conn, st) \<Rightarrow> Some (conn, n, st)) = Some r"
  obtain c v where d: "nt_Dial net tls addr st = (c, v)" by (cases "nt_Dial net tls addr st")
  show "\<exists>k. attempt net tls addr st k \<noteq> None"
  proof (cases c)
    case None
    then have "f net tls addr (n + 1) v = Some r" using eq d by simp
    from IH [OF this] obtain k where "attempt net tls addr v k \<noteq> None" by blast
    then show ?thesis using d by (intro exI [of _ "Suc k"]) simp
  next
    case (Some conn)
    then show ?thesis using d by (intro exI [of _ 0]) simp
  qed
qed

text \<open>
  C38: \<open>Connect\<close> to an address returns exactly when some attempt succeeds, and then with the
  connection of the first attempt that does, after as many attempts.
\<close>

theorem Connect_returns:
  assumes "addr \<noteq> []"
  shows "(Connect net tls (Some addr) st = Inr None \<longleftrightarrow> (\<forall>k. attempt net tls addr st k = None))
    \<and> (\<forall>conn m st'. Connect net tls (Some addr) st = Inr (Some (conn, m, st')) \<longrightarrow>
        0 < m \<and> attempt net tls addr st (m - 1) = Some conn \<and> (\<forall>j < m - 1. attempt net tls addr st j = None)
        \<and> st' = dialled_state net tls addr m st)"
proof (cases "\<exists>k. attempt net tls addr st k \<noteq> None")
  case False
  then have "ReConnect net tls addr 1 st = None" using ReConnect_only_if [of net tls addr 1 st] by (cases "ReConnect net tls addr 1 st") auto
  then show ?thesis using False assms by (auto simp: Connect_def)
next
  case True
  define k where "k = (LEAST k. attempt net tls addr st k \<noteq> None)"
  have k: "attempt net tls addr st k \<noteq> None" "\<forall>j < k. attempt net tls addr st j = None"
    using LeastI_ex [OF True] not_less_Least unfolding k_def by blast+
  obtain conn where c: "attempt net tls addr st k = Some conn" using k(1) by auto
  have "ReConnect net tls addr 1 st = Some (conn, Suc k, dialled_state net tls addr (Suc k) st)"
    using ReConnect_succeeds [OF c k(2), of 1] by simp
  then show ?thesis using c k assms by (auto simp: Connect_def)
qed

text \<open>A server that refuses the first two attempts.\<close>

definition third_time :: "nat net_ops" where
  "third_time = \<lparr>nt_LoadX509KeyPair = (\<lambda>_ _ _. True), nt_Listen = (\<lambda>_ _ n. (None, n)),
     nt_Dial = (\<lambda>_ addr n. (if n = 2 then Some addr else None, n + 1))\<rparr>"

theorem Connect_returns_witness:
  "Connect third_time False (Some ''server'') 0 \<noteq> Inr None"
proof -
  have "attempt third_time False ''server'' 0 2 = Some ''server''"
    by (simp add: third_time_def numeral_2_eq_2)
  then show ?thesis using Connect_returns [of "''server''" third_time False 0] by (metis list.distinct(1) option.distinct(1))
qed

section \<open>The listener\<close>

text \<open>
  C39: when the address cannot be listened on, a process without TLS ends with the error; one with TLS,
  whose keys load, goes on and waits for ever, and accepts nothing: the error of \<open>tls.Listen\<close> is lost.
\<close>

theorem tls_listen_error_lost:
  assumes "gf_listenAddr fl \<noteq> []" and "tu_Tuns (vc_TunConf conf) = []"
    and "\<forall>tls. fst (nt_Listen net tls (gf_listenAddr fl) st) = None"
    and "nt_LoadX509KeyPair net (gf_tlsSP fl) (gf_tlsSK fl) st"
  shows "if gf_tlsEnable fl
    then \<exists>acts st'. start_links os net fl conf p st = Inr (acts @ [WaitLoop], p, st') \<and> (\<forall>a. Accepting a \<notin> set acts)
    else start_links os net fl conf p st = Inl (PanicMsg ''listen'')"
proof (cases "gf_tlsEnable fl")
  case True
  obtain st' where l: "nt_Listen net True (gf_listenAddr fl) st = (None, st')"
    using assms(3) by (cases "nt_Listen net True (gf_listenAddr fl) st") (metis fst_conv)
  let ?acts = "(if length (vc_BackupLinkAddr conf) > 0 then [AccessBackup (vc_BackupLinkAddr conf)] else [])
    @ map ConnectServer (vc_SerAddr conf)"
  have "start_links os net fl conf p st = Inr (?acts @ [WaitLoop], p, st')"
    using True assms(1,2,4) l by (simp add: start_links_def p2p_mode_def newListener_def Let_def)
  moreover have "\<forall>a. Accepting a \<notin> set ?acts" by auto
  ultimately show ?thesis using True by (metis (lifting))
next
  case False
  obtain st' where "nt_Listen net False (gf_listenAddr fl) st = (None, st')"
    using assms(3) by (cases "nt_Listen net False (gf_listenAddr fl) st") (metis fst_conv)
  then show ?thesis
    using False assms(1,2) by (simp add: start_links_def p2p_mode_def newListener_def Let_def)
qed

definition no_links :: vnetConfig where
  "no_links = \<lparr>vc_ListenAddr = ''0.0.0.0:7878'', vc_SerAddr = [], vc_CryptType = [], vc_Vids = [], vc_BackupLinkAddr = [],
     vc_HeartbeatConf = \<lparr>hc_HeartbeatIdle = 0, hc_HeartbeatCnt = 0, hc_HeartbeatIntv = 0\<rparr>,
     vc_TlsConf = \<lparr>tl_TlsEnable = True, tl_TlsSK = [], tl_TlsSP = []\<rparr>, vc_TunConf = \<lparr>tu_Tuns = []\<rparr>, vc_UpRateLimit = 0,
     vc_DownRateLimit = 0, vc_LogFile = [], vc_LogLevel = [], vc_ShowInfoAddr = [], vc_RouteConf = [], vc_CheckTunPkt = False,
     vc_NetStatEnable = False, vc_PprofEnable = False, vc_PpAddr = [], vc_Ve = []\<rparr>"

definition listening_flags :: gflags where
  "listening_flags = \<lparr>gf_showVersion = False, gf_listenAddr = ''0.0.0.0:7878'', gf_tlsEnable = True, gf_tlsSK = [], gf_tlsSP = [],
     gf_configFile = []\<rparr>"

theorem tls_listen_error_lost_witness:
  "\<forall>p :: (kernel, string list) process. \<exists>acts st'.
      start_links kernel_os third_time listening_flags no_links p 0 = Inr (acts @ [WaitLoop], p, st')"
proof
  fix p :: "(kernel, string list) process"
  show "\<exists>acts st'. start_links kernel_os third_time listening_flags no_links p 0 = Inr (acts @ [WaitLoop], p, st')"
    using tls_listen_error_lost [of listening_flags no_links third_time 0 kernel_os p]
    by (auto simp: listening_flags_def no_links_def third_time_def)
qed

section \<open>The settings\<close>

lemma find_name:
  assumes "SetDefaultCryptType cts = Inr ct"
  shows "unat ct < length CRYtoString \<and> CRYtoString ! unat ct = cts"
proof -
  obtain i ys where f: "filter (\<lambda>(ct, s). s = cts) (zip [0..<length CRYtoString] CRYtoString) = (i, cts) # ys" and ct: "ct = word_of_nat i"
  proof -
    obtain x ys where f: "filter (\<lambda>(ct, s). s = cts) (zip [0..<length CRYtoString] CRYtoString) = x # ys"
      using assms by (auto simp: SetDefaultCryptType_def split: list.splits)
    moreover have "snd x = cts" using f by (auto simp: filter_eq_Cons_iff)
    ultimately show thesis using assms that [of "fst x" ys] by (cases x) (simp add: SetDefaultCryptType_def)
  qed
  have "(i, cts) \<in> set (zip [0..<length CRYtoString] CRYtoString)"
    using arg_cong [OF f, of set] by auto
  then have i: "i < length CRYtoString" "CRYtoString ! i = cts" by (auto simp: in_set_zip)
  have "length CRYtoString = 12" by (simp add: CRYtoString_def)
  then have "unat ct = i" using i(1) ct by (simp add: unat_of_nat)
  then show ?thesis using i by simp
qed

text \<open>
  After the settings the rates, the check of packets, the statistics and the cipher are those of the
  configuration, whatever the flags of the command line had set: \<open>-uprate\<close> and \<open>-downrate\<close> have no
  effect. A configuration that names no cipher gives the number 0, which encrypts nothing.
\<close>

theorem settings_of_conf:
  assumes "apply_conf Br version conf p = Inr p'"
  shows "su_UpRateLimit (ps_setup p') = vc_UpRateLimit conf" and "su_DownRateLimit (ps_setup p') = vc_DownRateLimit conf"
    and "su_checkTunPkt (ps_setup p') = vc_CheckTunPkt conf" and "IsEnable (su_w (ps_setup p')) = vc_NetStatEnable conf"
    and "CRYtoString ! unat (su_CryptType (ps_setup p')) = vc_CryptType conf"
    and "vc_CryptType conf = [] \<Longrightarrow> crypts lib key (su_CryptType (ps_setup p')) = None"
proof -
  obtain ct w where ct: "SetDefaultCryptType (vc_CryptType conf) = Inr ct"
    and p': "su_UpRateLimit (ps_setup p') = vc_UpRateLimit conf" "su_DownRateLimit (ps_setup p') = vc_DownRateLimit conf"
      "su_checkTunPkt (ps_setup p') = vc_CheckTunPkt conf" "su_CryptType (ps_setup p') = ct"
      "su_w (ps_setup p') = netstat_Enable (vc_NetStatEnable conf) w"
    using assms
    by (auto simp: apply_conf_def bind_res_eq_Inr Let_def upd_setup_def SetRateLimit_def SetCheckTunPkt_def)
  show "su_UpRateLimit (ps_setup p') = vc_UpRateLimit conf" "su_DownRateLimit (ps_setup p') = vc_DownRateLimit conf"
    "su_checkTunPkt (ps_setup p') = vc_CheckTunPkt conf" "IsEnable (su_w (ps_setup p')) = vc_NetStatEnable conf"
    using p' by (simp_all add: IsEnable_def netstat_Enable_def)
  show "CRYtoString ! unat (su_CryptType (ps_setup p')) = vc_CryptType conf" using find_name [OF ct] p' by simp
  show "crypts lib key (su_CryptType (ps_setup p')) = None" if "vc_CryptType conf = []"
    using ct that p' by (simp add: SetDefaultCryptType_def CRYtoString_def crypts_def upt_rec)
qed

end
