(* ===== verification/Spec2Isabelle.thy ===== *)
theory Spec2Isabelle
  imports Packet_Pool Fdb_World Vnet_Close Vnet_Delivery Netstat_Life Timer_Channel Nat_Frag_Props Nat_Info Ring_Threads Sync_Pool
    Mycrypto Govnet
begin

text \<open>
  \<^bold>\<open>mygovnet.\<close> The program is a layer-2 virtual network. A process has clients: a tap or tun device, a
  connection to another process (TCP or TLS), or a master whose traffic goes over one of several
  connections. What a client receives is forwarded to the client bound to it, to its master, or to
  the bridge (a learning forwarding database, FDB) of its VLAN identifier, which hands it to the
  clients that have joined. Packets are reference-counted buffers that go through the channels of the
  clients. Beside the data path, clients exchange heartbeats and the identifiers of the bridges they
  have joined, the package \<open>netstat\<close> follows the connections of the forwarded packets, and the package
  \<open>nat\<close> replaces source addresses. All paths below are under \<open>src/src\<close>.

  \<^bold>\<open>Conventions.\<close> A Go value is what it is in Go: a \<open>uint16\<close> a \<open>16 word\<close>, a struct a record, a slice with
  its array where sharing matters and a list elsewhere, a map an association list whose order is the
  order in which \<open>range\<close> visits it. A pointer is an address of a heap in the state where objects are
  shared. A run-time panic, \<open>log.Panicf\<close> and \<open>log.Fatal\<close> are \<open>Inl\<close> values of \<open>'a res\<close>, an \<open>error\<close> of the
  code is an ordinary result. A locked operation is one function on the state. Logging has no effect.
  A channel is the list of what is in it: sending to a full one waits, which is not a step.

  \<^bold>\<open>Atomicity.\<close> The step relations (\<open>Fdb_Bridge\<close>, \<open>Fdb_World\<close>, \<open>Packet_Pool\<close>, \<open>Netstat_Reach\<close>, \<open>Nat_Kept\<close>,
  \<open>Vnet_Backup\<close>, \<open>Ring_Pool\<close>) let whole operations follow one another in any order; \<open>Ring_Threads\<close>
  interleaves the single accesses of its threads. Some
  functions of the code take several locks, or read outside one, and are one step here: \<open>Forward\<close> (its
  accesses to the table and to the ports are locked one by one), \<open>ReleaseFwdPort\<close>, \<open>joinFdbById\<close>,
  \<open>PutPktToChan2\<close> (the test of \<open>isClosed\<close> and the send), \<open>Wheel_NewTimerFunc\<close> (\<open>newTimer\<close>, which reads the clock
  without the lock, and \<open>addTimer\<close>) and \<open>resetTimer\<close> (\<open>delTimer\<close> and \<open>addTimer\<close>). The parts are definitions of
  their own, and the properties about the whole describe a run that nothing interrupts. Where an
  interruption is harmful it is a finding: a close between the test and the send of \<open>PutPktToChan2\<close>, and
  a bridge that is deleted between the lookup and the join (\<open>late_join_is_lost\<close> in \<open>Fdb_World\<close>). The network
  \<open>net_ops\<close> is a deterministic function of its own state, which stands for all that influences it. The
  table of ciphers \<open>crypts\<close> takes the key as an argument; the code builds it in an \<open>init\<close> function, before
  the flags are read, hence always with the default key.

  \<^bold>\<open>Prelude.\<close> \<open>Go_Prelude\<close>: words, panics (\<open>bind_res\<close>, \<open>fold_res\<close>), slices, big-endian reads and writes,
  association lists. \<open>Go_Slice\<close>: fields of a slice that is written through.

  \<^bold>\<open>Package packet.\<close> \<open>Packet_Ether\<close> (\<open>packet.go\<close>, \<open>arp.go\<close>): the cast of a frame to a header agrees with the
  reads byte by byte. \<open>Packet_IPHeader\<close> (\<open>ipv4.go\<close>): parsing inverts \<open>Marshal\<close>. \<open>Packet_Buf\<close> (\<open>pktpool.go\<close>):
  the windows of a buffer. \<open>Packet_Pool\<close> (\<open>pktpool.go\<close>): the pools, with the invariant that a buffer is
  pooled or has holders, never both; nobody gets a buffer that is in use, and the last holder's put
  returns it.

  \<^bold>\<open>Package fdb.\<close> \<open>Fdb_Port\<close> (\<open>port.go\<close>: the pool of port identifiers), \<open>Fdb_Table\<close> (\<open>fdb.go\<close>: MAC table, ageing,
  joining and leaving), \<open>Fdb_Forward\<close> (\<open>forward.go\<close>): forwarding refines an abstract learning bridge and
  never sends a frame back. \<open>Fdb_Bridge\<close>: the step relation of one bridge, its invariant and the contracts
  of its operations. \<open>Fdb_Registry\<close> (\<open>fdb.go\<close>: \<open>FdbMap\<close>, \<open>fdbtick\<close>): entries nobody refreshes are gone after a
  bounded number of ticks. \<open>Fdb_World\<close>: registry, ticker and bridges together; a bridge with a counted port
  never leaves the registry.

  \<^bold>\<open>Package vendor/crypto.\<close> \<open>Crypto_Xor\<close> (\<open>xor.go\<close>): the word-wise and the unrolled version are the byte-wise
  exclusive or. \<open>Crypto_Cfb\<close> (\<open>crypt.go\<close>: \<open>encrypt\<close>, \<open>decrypt\<close>): decryption in place inverts encryption.
  \<open>Crypto_Block\<close> (\<open>crypt.go\<close>, \<open>vnet/crypto.go\<close>): every cipher of the table transmits. The block ciphers, salsa20
  and PBKDF2 of the Go libraries are the fields of \<open>crypto_lib\<close>; \<open>lib_ok\<close> states their documented laws, and
  the witnesses instantiate them.

  \<^bold>\<open>Package vnet.\<close> \<open>Vnet_State\<close> (the state of the clients, from \<open>client.go\<close>), \<open>Vnet_Packets\<close>, \<open>Vnet_Encode\<close>
  (\<open>encode.go\<close>: the packet header), \<open>Vnet_Fdb\<close>, \<open>Vnet_Member\<close>, \<open>Vnet_Report\<close> (\<open>vid.go\<close>: a client's bridges follow
  the other side's message, under the invariant that membership and the ports of the bridges agree),
  \<open>Vnet_Forward\<close>, \<open>Vnet_Link\<close> (\<open>client.go\<close>, \<open>conn.go\<close>: what one side writes the other reads), \<open>Vnet_Heartbeat\<close>
  (\<open>heartbeat.go\<close>), \<open>Vnet_Backup\<close> (\<open>bakLink.go\<close>: fail-over keeps the invariant of the master), \<open>Vnet_Client\<close>
  (\<open>client.go\<close>: a silent link ends), \<open>Vnet_Close\<close> (closing releases what any kind of client held, and the
  masters follow the bridges that are left), \<open>Vnet_Delivery\<close> (the identifiers one side reports arrive, for
  any number of them, or the message panics or is refused), \<open>Vnet_Tun\<close>, \<open>Vnet_Setup\<close> (\<open>tun.go\<close>,
  \<open>client.go\<close>: the devices of a configuration), \<open>Vnet_Route\<close> (\<open>rt.go\<close>). The shell, the files and the kernel are
  the fields of \<open>os_ops\<close>, instantiated by a small kernel in \<open>Vnet_Route\<close>. \<open>Vnet_Info\<close> (\<open>info.go\<close>): the handlers of
  the HTTP service that shows and sets the state, with the JSON and query formats of Go.

  \<^bold>\<open>Package main.\<close> \<open>Govnet\<close> (\<open>govnet.go\<close>): the configuration, the dialler, the listener and the order of the
  start; the network is the record \<open>net_ops\<close>, goroutines are the list of what was started.

  \<^bold>\<open>Packages vendor/mylog and vendor/mycrypto.\<close> \<open>Mylog\<close> (\<open>mylog.go\<close>): levels, and the rotation that keeps the
  files of the last days; the file system is the record \<open>fs_ops\<close>, instantiated by a disk. \<open>Mycrypto\<close> (\<open>aes.go\<close>,
  and \<open>reaserch/crypto.go\<close>): texts under AES, with the feedback mode of \<open>Crypto_Cfb\<close>.

  \<^bold>\<open>Package netstat.\<close> \<open>Netstat_Headers\<close> (\<open>ipv4.go\<close>, \<open>udp.go\<close>, \<open>tcp.go\<close>), \<open>Netstat_Conntrack\<close> (\<open>conntrack.go\<close>, \<open>net.go\<close>),
  \<open>Netstat_Track\<close> (\<open>net.go\<close>, \<open>connstats.go\<close>): the definitions. \<open>Netstat_Inv\<close>, \<open>Netstat_Safe\<close>, \<open>Netstat_Steps\<close>,
  \<open>Netstat_Reach\<close>: the invariant of tables and timers over every interleaving of packets, clock and timer
  functions, and no panic. \<open>Netstat_Life\<close>: handshake, idle time-out, and the reset that leaks an entry.

  \<^bold>\<open>Package vendor/timer.\<close> \<open>Timer_Wheel\<close> (\<open>timer.go\<close>, \<open>defaultTimer.go\<close>, \<open>ticker.go\<close>): the hierarchical wheel.
  \<open>Timer_Inv\<close>, \<open>Timer_Tick\<close>: where a timer is at which time, and what a tick hands over. \<open>Timer_Service\<close>: the
  contract the users rely on, a locale; \<open>Timer_Spec\<close> interprets it on the wheel. \<open>Timer_Pending\<close>: the same
  contract with a clock, which \<open>netstat\<close> and \<open>nat\<close> use. \<open>Timer_Channel\<close>: the timers and tickers that send on
  channels or start goroutines.

  \<^bold>\<open>Package nat.\<close> \<open>Nat_Headers\<close>, \<open>Nat_Checksum\<close> (\<open>checksum.go\<close>, \<open>ipv4.go\<close>, \<open>udp.go\<close>, \<open>tcp.go\<close>): the checksum is the
  ones' complement sum. \<open>Nat_Fragment\<close> (\<open>fragment.go\<close>), \<open>Nat_Reassembly\<close>, \<open>Nat_Defrag\<close>, \<open>Nat_Datagram\<close>,
  \<open>Nat_Frag_Props\<close>: what reassembly reports is a whole datagram as long as no fragment reaches beyond
  byte 65535 (one that does wraps around and can leave a gap), which orders of arrival succeed, and which
  do not. \<open>Nat_Conntrack\<close> (\<open>conntrack.go\<close>), \<open>Nat_Snat\<close> (\<open>snat.go\<close>), \<open>Nat_Translate\<close>, \<open>Nat_Roundtrip\<close>,
  \<open>Nat_Kept\<close>, \<open>Nat_Roundtrip_Props\<close>: a packet and its reply are translated into one another, the first
  ones and all later ones, whatever packets come between. \<open>Nat_Info\<close> (\<open>info.go\<close>).
  The package needs \<open>ilist\<close> and methods of \<open>PktBuf\<close> that the repository does not have: they are the records
  \<open>ilist_ops\<close> and \<open>pkt_ext\<close>, their laws are locales, interpreted on lists and on tables.

  \<^bold>\<open>Directory reaserch.\<close> \<open>Ring_Buffer\<close> (\<open>goRingBuffer.go\<close>), \<open>Ring_Queue\<close> (the ring refines a bounded queue),
  \<open>Ring_Pool\<close> (as a pool it loses nothing), \<open>Ring_Threads\<close> (two threads between the locks), \<open>Sync_Pool\<close>
  (\<open>syncPool.go\<close>: a buffer that goroutines share comes back with the last put).

  \<^bold>\<open>Loops.\<close> \<open>getUniqueTuple\<close> and the dialler \<open>ReConnect\<close> may run for ever and are \<open>partial_function\<close>s: the
  properties state exactly when they return. The loops of goroutines have no end by design: a round of
  each is a function. Every other loop is a recursion that is total, without fuel.

  \<^bold>\<open>Not modelled.\<close> The scheduler, and blocking as such. The contents of log lines and the debugging
  \<open>String\<close> of \<open>packet/ipv4.go\<close>. TLS, HTTP, TOML, flags and sockets as libraries: what they do is an
  argument, what the code does with it is modelled. Rate limiting beyond the choice of the buckets. The
  goroutine of \<open>rt.go\<close> that waits for a signal. The third-party \<open>vendor/github.com/lab11/go-tuntap\<close>: ioctl
  calls. \<open>bytesWrite.go\<close>, \<open>funcCompair.go\<close>, \<open>gob.go\<close>, \<open>path.go\<close>, \<open>randomstring.go\<close> and \<open>timer.go\<close> of \<open>reaserch\<close>,
  which print what the standard library does and have no logic of their own. The structs of header
  fields in \<open>netstat\<close> and \<open>nat\<close> that no function uses.
\<close>

end
